(* ===== verification/Prelude.thy ===== *)
theory Prelude
  imports Main "HOL-Library.Word" "HOL-Library.AList" "HOL-Library.Multiset"
begin

unbundle bit_operations_syntax

text \<open>
  Shared vocabulary of the development: the machine integers and byte strings of the
  Rust sources, \<open>Result\<close> as a sum type, the pieces of the Rust standard library the
  sources use (\<open>slice::chunks\<close>, \<open>to_le_bytes\<close>, \<open>HashMap\<close>, \<open>VecDeque\<close>) and
  the collections of lemmas the component theories rely on.

  \<^item> \<open>u8\<close>, \<open>u32\<close>, \<open>u64\<close> are words of that width; \<open>usize\<close>, \<open>Duration\<close> and
    \<open>Instant\<close> are natural numbers (durations and instants count nanoseconds, or whatever
    common unit the caller chooses, unless a name says otherwise).
  \<^item> \<open>Result<T, E>\<close> is \<open>'e + 't\<close> with the abbreviations \<open>Err\<close> and \<open>Ok\<close>.
  \<^item> A \<open>HashMap\<close> is an association list with distinct keys (\<open>hashmap_ok\<close>), read with
    \<open>map_of\<close> and changed with \<open>AList.update\<close> and \<open>AList.delete\<close>; no definition depends on
    the order of its entries.
\<close>

type_synonym u8 = "8 word"
type_synonym u32 = "32 word"
type_synonym u64 = "64 word"
type_synonym bytes = "u8 list"
type_synonym instant = nat
type_synonym duration = nat
type_synonym ('k, 'v) hashmap = "('k \<times> 'v) list"

abbreviation Ok :: "'a \<Rightarrow> 'e + 'a" where
  "Ok \<equiv> Inr"

abbreviation Err :: "'e \<Rightarrow> 'e + 'a" where
  "Err \<equiv> Inl"

named_theorems std_simps "evaluation rules for the modelled parts of the standard library"
named_theorems wf_intros "introduction rules for component invariants"

section \<open>The modelled parts of the standard library\<close>

text \<open>\<open>slice::chunks(n)\<close>: consecutive pieces of length \<open>n\<close>, the last one possibly shorter.
  The source never calls it with zero, where Rust panics; here that case is empty.\<close>

function chunks :: "nat \<Rightarrow> 'a list \<Rightarrow> 'a list list" where
  "chunks n xs = (if xs = [] \<or> n = 0 then [] else take n xs # chunks n (drop n xs))"
  by pat_completeness auto
termination
  by (relation "measure (\<lambda>(n, xs). length xs)") auto

declare chunks.simps [simp del]

text \<open>\<open>to_le_bytes\<close> and \<open>from_le_bytes\<close> of the unsigned integers.\<close>

fun le_digits :: "nat \<Rightarrow> nat \<Rightarrow> bytes" where
  "le_digits 0 x = []"
| "le_digits (Suc n) x = word_of_nat (x mod 256) # le_digits n (x div 256)"

fun le_value :: "bytes \<Rightarrow> nat" where
  "le_value [] = 0"
| "le_value (b # bs) = unat b + 256 * le_value bs"

definition u64_to_le_bytes :: "u64 \<Rightarrow> bytes" where
  "u64_to_le_bytes w = le_digits 8 (unat w)"

definition u64_from_le_bytes :: "bytes \<Rightarrow> u64" where
  "u64_from_le_bytes bs = word_of_nat (le_value bs)"

definition u32_to_le_bytes :: "u32 \<Rightarrow> bytes" where
  "u32_to_le_bytes w = le_digits 4 (unat w)"

definition u32_from_le_bytes :: "bytes \<Rightarrow> u32" where
  "u32_from_le_bytes bs = word_of_nat (le_value bs)"

text \<open>Decimal rendering of an unsigned number (\<open>Display\<close>).\<close>

fun show_nat :: "nat \<Rightarrow> string" where
  "show_nat n =
     (if n < 10 then [char_of (48 + n)] else show_nat (n div 10) @ [char_of (48 + n mod 10)])"

declare show_nat.simps [simp del]

text \<open>\<open>str::as_bytes\<close>: a \<open>string\<close> holds the bytes of the UTF-8 text.\<close>

definition as_bytes :: "string \<Rightarrow> bytes" where
  "as_bytes s = map (\<lambda>c. word_of_nat (of_char c)) s"

text \<open>\<open>Duration::from_secs\<close> and \<open>Duration::from_millis\<close>, in nanoseconds.\<close>

definition from_secs :: "nat \<Rightarrow> duration" where
  "from_secs s = s * 1000000000"

definition from_millis :: "nat \<Rightarrow> duration" where
  "from_millis ms = ms * 1000000"

text \<open>Lower-case hexadecimal digits, most significant first (\<open>{:x}\<close> and \<open>{:08x}\<close>).\<close>

definition hex_digit :: "nat \<Rightarrow> char" where
  "hex_digit d = char_of (if d < 10 then 48 + d else 87 + d)"

fun hex_fixed :: "nat \<Rightarrow> nat \<Rightarrow> string" where
  "hex_fixed 0 n = []"
| "hex_fixed (Suc k) n = hex_fixed k (n div 16) @ [hex_digit (n mod 16)]"

text \<open>The \<open>Debug\<close> rendering of an ASCII string (\<open>{:?}\<close>).\<close>

definition debug_char :: "char \<Rightarrow> string" where
  "debug_char c =
     (let n = of_char c :: nat; bs = char_of (92 :: nat) in
      if n = 0 then [bs, CHR ''0'']
      else if n = 9 then [bs, CHR ''t'']
      else if n = 10 then [bs, CHR ''n'']
      else if n = 13 then [bs, CHR ''r'']
      else if n = 34 \<or> n = 92 then [bs, c]
      else if n < 16 then bs # ''u{'' @ hex_fixed 1 n @ ''}''
      else if n < 32 \<or> n = 127 then bs # ''u{'' @ hex_fixed 2 n @ ''}''
      else [c])"

definition debug_str :: "string \<Rightarrow> string" where
  "debug_str s = (let q = char_of (34 :: nat) in q # concat (map debug_char s) @ [q])"

text \<open>\<open>str::lines\<close>: cut at line feeds, drop a carriage return before the feed, and no empty line
  after a final feed. \<open>split_first c s\<close> is \<open>s.split(c).next()\<close>.\<close>

definition line_feed :: char where
  "line_feed = char_of (10 :: nat)"

definition carriage_return :: char where
  "carriage_return = char_of (13 :: nat)"

definition strip_cr :: "string \<Rightarrow> string" where
  "strip_cr l = (if l \<noteq> [] \<and> last l = carriage_return then butlast l else l)"

function lines :: "string \<Rightarrow> string list" where
  "lines s =
     (if s = [] then []
      else let l = takeWhile (\<lambda>c. c \<noteq> line_feed) s;
               rest = dropWhile (\<lambda>c. c \<noteq> line_feed) s
           in if rest = [] then [l] else strip_cr l # lines (tl rest))"
  by pat_completeness auto
termination
proof (relation "measure length")
  fix s l rest :: string
  assume s: "s \<noteq> []" and r: "rest = dropWhile (\<lambda>c. c \<noteq> line_feed) s" and n: "rest \<noteq> []"
  from s have "0 < length s" by simp
  moreover from n have "0 < length rest" by simp
  moreover have "length rest \<le> length s" unfolding r by (rule length_dropWhile_le)
  ultimately show "(tl rest, s) \<in> measure length"
    unfolding in_measure length_tl by linarith
qed simp

declare lines.simps [simp del]

definition split_first :: "char \<Rightarrow> string \<Rightarrow> string" where
  "split_first c s = takeWhile (\<lambda>x. x \<noteq> c) s"

text \<open>A \<open>HashMap\<close> has one entry per key.\<close>

definition hashmap_ok :: "('k, 'v) hashmap \<Rightarrow> bool" where
  "hashmap_ok m \<longleftrightarrow> distinct (map fst m)"

section \<open>Lemmas\<close>

subsection \<open>Chunks\<close>

lemma chunks_Nil [simp]: "chunks n [] = []"
  by (simp add: chunks.simps)

lemma chunks_step:
  "xs \<noteq> [] \<Longrightarrow> 0 < n \<Longrightarrow> chunks n xs = take n xs # chunks n (drop n xs)"
  by (simp add: chunks.simps [of n xs])

lemma concat_chunks: "0 < n \<Longrightarrow> concat (chunks n xs) = xs"
proof (induction n xs rule: chunks.induct)
  case (1 n xs)
  then show ?case by (cases "xs = []") (auto simp: chunks_step)
qed

lemma chunks_eq_Nil: "0 < n \<Longrightarrow> chunks n xs = [] \<longleftrightarrow> xs = []"
  by (cases "xs = []") (auto simp: chunks_step)

lemma chunks_nonempty: "c \<in> set (chunks n xs) \<Longrightarrow> c \<noteq> []"
proof (induction n xs rule: chunks.induct)
  case (1 n xs)
  then show ?case by (cases "xs = [] \<or> n = 0") (auto simp: chunks.simps [of n xs])
qed

lemma length_chunk_le: "c \<in> set (chunks n xs) \<Longrightarrow> length c \<le> n"
proof (induction n xs rule: chunks.induct)
  case (1 n xs)
  then show ?case by (cases "xs = [] \<or> n = 0") (auto simp: chunks.simps [of n xs])
qed

text \<open>Every chunk but the last is full.\<close>

lemma length_chunk_full:
  "i + 1 < length (chunks n xs) \<Longrightarrow> length (chunks n xs ! i) = n"
proof (induction n xs arbitrary: i rule: chunks.induct)
  case (1 n xs)
  show ?case
  proof (cases "xs = [] \<or> n = 0")
    case True
    with "1.prems" show ?thesis by (auto simp: chunks.simps [of n xs])
  next
    case False
    then have eq: "chunks n xs = take n xs # chunks n (drop n xs)"
      by (simp add: chunks_step)
    show ?thesis
    proof (cases i)
      case 0
      with "1.prems" eq have "chunks n (drop n xs) \<noteq> []" by auto
      with False have "drop n xs \<noteq> []" by (simp add: chunks_eq_Nil)
      with 0 eq show ?thesis by simp
    next
      case (Suc j)
      with "1.prems" eq have "j + 1 < length (chunks n (drop n xs))" by simp
      with False have "length (chunks n (drop n xs) ! j) = n" by (intro "1.IH") auto
      with Suc eq show ?thesis by simp
    qed
  qed
qed

lemma length_chunks_le:
  "0 < n \<Longrightarrow> length xs \<le> k * n \<Longrightarrow> length (chunks n xs) \<le> k"
proof (induction n xs arbitrary: k rule: chunks.induct)
  case (1 n xs)
  show ?case
  proof (cases "xs = []")
    case False
    with "1.prems" have "0 < k" by (cases k) auto
    then obtain j where k: "k = Suc j" by (cases k) auto
    with "1.prems" have "length (drop n xs) \<le> j * n" by simp
    with False "1.prems"(1) have "length (chunks n (drop n xs)) \<le> j" by (intro "1.IH") auto
    with False "1.prems"(1) k show ?thesis by (simp add: chunks_step)
  qed simp
qed

lemma length_chunks_ge:
  "0 < n \<Longrightarrow> k * n < length xs \<Longrightarrow> k < length (chunks n xs)"
proof (induction n xs arbitrary: k rule: chunks.induct)
  case (1 n xs)
  then have ne: "xs \<noteq> []" by auto
  show ?case
  proof (cases k)
    case (Suc j)
    with "1.prems" have "j * n < length (drop n xs)" by simp
    with ne "1.prems"(1) have "j < length (chunks n (drop n xs))" by (intro "1.IH") auto
    with ne "1.prems"(1) Suc show ?thesis by (simp add: chunks_step)
  qed (use ne "1.prems" in \<open>simp add: chunks_step\<close>)
qed

subsection \<open>Little-endian integers\<close>

lemma length_le_digits [simp]: "length (le_digits n x) = n"
  by (induction n x rule: le_digits.induct) auto

lemma unat_byte_of_nat: "unat (word_of_nat (x mod 256) :: u8) = x mod 256"
  by (simp add: unat_of_nat)

lemma le_value_le_digits: "le_value (le_digits n x) = x mod 256 ^ n"
proof (induction n x rule: le_digits.induct)
  case (2 n x)
  have "x mod 256 ^ Suc n = x mod (256 * 256 ^ n)" by simp
  also have "\<dots> = 256 * (x div 256 mod 256 ^ n) + x mod 256"
    by (rule mod_mult2_eq)
  finally show ?case using 2 by (simp add: unat_byte_of_nat)
qed simp

lemma length_u64_to_le_bytes [simp]: "length (u64_to_le_bytes w) = 8"
  by (simp add: u64_to_le_bytes_def)

lemma length_u32_to_le_bytes [simp]: "length (u32_to_le_bytes w) = 4"
  by (simp add: u32_to_le_bytes_def)

lemma u64_le_bytes_roundtrip [simp]: "u64_from_le_bytes (u64_to_le_bytes w) = w"
proof -
  have "unat w < 256 ^ 8" using unsigned_less [of w] by simp
  then show ?thesis
    by (simp add: u64_from_le_bytes_def u64_to_le_bytes_def le_value_le_digits)
qed

lemma u32_le_bytes_roundtrip [simp]: "u32_from_le_bytes (u32_to_le_bytes w) = w"
proof -
  have "unat w < 256 ^ 4" using unsigned_less [of w] by simp
  then show ?thesis
    by (simp add: u32_from_le_bytes_def u32_to_le_bytes_def le_value_le_digits)
qed

subsection \<open>Hash maps\<close>

lemma hashmap_ok_Nil [simp]: "hashmap_ok []"
  by (simp add: hashmap_ok_def)

lemma hashmap_ok_update [simp, intro]: "hashmap_ok m \<Longrightarrow> hashmap_ok (AList.update k v m)"
  by (simp add: hashmap_ok_def distinct_update)

lemma hashmap_ok_delete [simp, intro]: "hashmap_ok m \<Longrightarrow> hashmap_ok (AList.delete k m)"
  by (simp add: hashmap_ok_def distinct_delete)

lemma map_of_update [simp]: "map_of (AList.update k v m) = (map_of m)(k \<mapsto> v)"
  by (simp add: update_conv')

lemma map_of_delete [simp]: "map_of (AList.delete k m) = (map_of m)(k := None)"
  by (simp add: delete_conv')

lemma length_update_new: "map_of m k = None \<Longrightarrow> length (AList.update k v m) = Suc (length m)"
  by (induction m) (auto split: if_splits)

lemma length_update_old: "map_of m k = Some x \<Longrightarrow> length (AList.update k v m) = length m"
  by (induction m) (auto split: if_splits)

lemma length_delete_le: "length (AList.delete k m) \<le> length m"
  by (simp add: AList.delete_eq)

lemma length_delete_present:
  "hashmap_ok m \<Longrightarrow> map_of m k = Some v \<Longrightarrow> Suc (length (AList.delete k m)) = length m"
proof (induction m)
  case (Cons p m)
  show ?case
  proof (cases "fst p = k")
    case True
    with Cons.prems have "AList.delete k (p # m) = m"
      by (auto simp: hashmap_ok_def AList.delete_eq filter_id_conv rev_image_eqI)
    then show ?thesis by simp
  next
    case False
    with Cons show ?thesis by (cases p) (auto simp: hashmap_ok_def AList.delete_eq)
  qed
qed simp

lemma map_of_eq_iff_mem: "hashmap_ok m \<Longrightarrow> map_of m k = Some v \<longleftrightarrow> (k, v) \<in> set m"
  by (simp add: hashmap_ok_def)

end
