(* ===== verification/Frame.thy ===== *)
theory Frame
  imports Prelude
begin

unbundle bit_operations_syntax

text \<open>
  Meshtastic Transport v1 framing: \<open>crates/edge/src/ingress/meshtastic/frame.rs\<close>.

  The receiver turns one \<open>Data.payload\<close> byte string into a validated frame or an error
  (\<open>parse_frame\<close>, \<open>parse_single\<close>, \<open>parse_fragment\<close>); the sender cuts a payload into wire
  frames (\<open>encode_frames\<close>). SHA-256 comes from the \<open>sha2\<close> crate and is the parameter \<open>sha\<close>;
  the only thing assumed of it is its digest length (\<open>digest_len\<close>).
\<close>

section \<open>Wire constants and types\<close>

definition TRANSPORT_VERSION :: u8 where
  "TRANSPORT_VERSION = 1"

definition SINGLE_CONTROL :: u8 where
  "SINGLE_CONTROL = 0x01"

definition FRAGMENT_CONTROL :: u8 where
  "FRAGMENT_CONTROL = 0x41"

definition MAX_SINGLE_BODY :: nat where
  "MAX_SINGLE_BODY = 218"

definition FRAGMENT_HEADER_LEN :: nat where
  "FRAGMENT_HEADER_LEN = 8"

definition MESSAGE_ID_LEN :: nat where
  "MESSAGE_ID_LEN = 6"

definition MAX_FRAGMENT_BODY :: nat where
  "MAX_FRAGMENT_BODY = 211"

definition MIN_FRAGMENT_COUNT :: u8 where
  "MIN_FRAGMENT_COUNT = 2"

definition MAX_FRAGMENT_COUNT :: nat where
  "MAX_FRAGMENT_COUNT = 16"

definition MAX_REASSEMBLED_BYTES :: nat where
  "MAX_REASSEMBLED_BYTES = MAX_FRAGMENT_COUNT * MAX_FRAGMENT_BODY"

lemmas frame_consts = TRANSPORT_VERSION_def SINGLE_CONTROL_def FRAGMENT_CONTROL_def
  MAX_SINGLE_BODY_def FRAGMENT_HEADER_LEN_def MESSAGE_ID_LEN_def MAX_FRAGMENT_BODY_def
  MIN_FRAGMENT_COUNT_def MAX_FRAGMENT_COUNT_def MAX_REASSEMBLED_BYTES_def

text \<open>The \<open>[u8; 6]\<close> array \<open>MessageId\<close> is a byte list; every value built by the code has length 6.\<close>

type_synonym mesh_message_id = bytes

record FragmentFrame =
  ff_message_id :: mesh_message_id
  ff_index :: u8
  ff_count :: u8
  ff_body :: bytes

datatype Frame = Single bytes | Fragment FragmentFrame

datatype FrameError =
    EmptyPayload
  | UnsupportedVersion u8
  | ReservedFrameType
  | EmptySingleBody
  | SingleBodyTooLarge nat
  | TruncatedFragmentHeader nat
  | InvalidFragmentCount u8
  | FragmentIndexOutOfBounds u8 u8
  | FragmentBodyOutOfBounds nat
  | NonFinalFragmentShort u8 u8 nat

section \<open>Receiver\<close>

definition parse_single :: "bytes \<Rightarrow> FrameError + Frame" where
  "parse_single payload =
     (let body = drop 1 payload in
      if body = [] then Err EmptySingleBody
      else if length body > MAX_SINGLE_BODY then Err (SingleBodyTooLarge (length body))
      else Ok (Single body))"

definition parse_fragment :: "bytes \<Rightarrow> FrameError + Frame" where
  "parse_fragment payload =
     (if length payload < FRAGMENT_HEADER_LEN
      then Err (TruncatedFragmentHeader (length payload))
      else
        let message_id = take MESSAGE_ID_LEN (drop 1 payload);
            descriptor = payload ! (1 + MESSAGE_ID_LEN);
            fcount = (drop_bit 4 descriptor AND 0x0f) + 1;
            index = descriptor AND 0x0f
        in
        if \<not> (MIN_FRAGMENT_COUNT \<le> fcount \<and> fcount \<le> word_of_nat MAX_FRAGMENT_COUNT)
        then Err (InvalidFragmentCount fcount)
        else if index \<ge> fcount then Err (FragmentIndexOutOfBounds index fcount)
        else
          let body = drop FRAGMENT_HEADER_LEN payload in
          if body = [] \<or> length body > MAX_FRAGMENT_BODY
          then Err (FragmentBodyOutOfBounds (length body))
          else if index < fcount - 1 \<and> length body \<noteq> MAX_FRAGMENT_BODY
          then Err (NonFinalFragmentShort index fcount (length body))
          else Ok (Fragment \<lparr>ff_message_id = message_id, ff_index = index,
                             ff_count = fcount, ff_body = body\<rparr>))"

definition parse_frame :: "bytes \<Rightarrow> FrameError + Frame" where
  "parse_frame payload =
     (case payload of
        [] \<Rightarrow> Err EmptyPayload
      | control # _ \<Rightarrow>
          let version = control AND 0x3f;
              frame_type = drop_bit 6 control
          in
          if version \<noteq> TRANSPORT_VERSION then Err (UnsupportedVersion version)
          else if frame_type = 0 then parse_single payload
          else if frame_type = 1 then parse_fragment payload
          else Err ReservedFrameType)"

section \<open>Sender\<close>

datatype EncodeError = EncodeEmptyPayload | EncodeTooManyFragments nat

definition message_id :: "(bytes \<Rightarrow> bytes) \<Rightarrow> bytes \<Rightarrow> mesh_message_id" where
  "message_id sha raw_payload = take MESSAGE_ID_LEN (sha raw_payload)"

definition fragment_bytes :: "mesh_message_id \<Rightarrow> u8 \<Rightarrow> u8 \<Rightarrow> bytes \<Rightarrow> bytes" where
  "fragment_bytes mid fcount index body =
     (let descriptor = push_bit 4 (fcount - 1) OR index
      in FRAGMENT_CONTROL # mid @ descriptor # body)"

definition encode_frames :: "(bytes \<Rightarrow> bytes) \<Rightarrow> bytes \<Rightarrow> EncodeError + bytes list" where
  "encode_frames sha raw_payload =
     (if raw_payload = [] then Err EncodeEmptyPayload
      else if length raw_payload \<le> MAX_SINGLE_BODY
      then Ok [SINGLE_CONTROL # raw_payload]
      else
        let cs = chunks MAX_FRAGMENT_BODY raw_payload in
        if length cs > MAX_FRAGMENT_COUNT then Err (EncodeTooManyFragments (length cs))
        else
          let fcount = word_of_nat (length cs);
              mid = message_id sha raw_payload
          in Ok (map (\<lambda>(index, body). fragment_bytes mid fcount (word_of_nat index) body)
                     (List.enumerate 0 cs)))"

section \<open>Vocabulary of the specification\<close>

text \<open>Documented behaviour of SHA-256: the digest has 32 bytes.\<close>

definition digest_len :: "(bytes \<Rightarrow> bytes) \<Rightarrow> bool" where
  "digest_len sha \<longleftrightarrow> (\<forall>x. length (sha x) = 32)"

text \<open>What the receiver promises of a fragment it hands on.\<close>

definition fragment_ok :: "FragmentFrame \<Rightarrow> bool" where
  "fragment_ok f \<longleftrightarrow>
     length (ff_message_id f) = MESSAGE_ID_LEN \<and>
     2 \<le> unat (ff_count f) \<and> unat (ff_count f) \<le> MAX_FRAGMENT_COUNT \<and>
     unat (ff_index f) < unat (ff_count f) \<and>
     1 \<le> length (ff_body f) \<and> length (ff_body f) \<le> MAX_FRAGMENT_BODY \<and>
     (unat (ff_index f) + 1 < unat (ff_count f) \<longrightarrow> length (ff_body f) = MAX_FRAGMENT_BODY)"

text \<open>The fragments of a payload, in order.\<close>

definition fragments_of :: "(bytes \<Rightarrow> bytes) \<Rightarrow> bytes \<Rightarrow> FragmentFrame list" where
  "fragments_of sha raw =
     (let cs = chunks MAX_FRAGMENT_BODY raw in
      map (\<lambda>(index, body). \<lparr>ff_message_id = message_id sha raw, ff_index = word_of_nat index,
                            ff_count = word_of_nat (length cs), ff_body = body\<rparr>)
          (List.enumerate 0 cs))"

section \<open>The descriptor byte\<close>

lemma nibble_bound: "unat (x AND 0x0f :: u8) < 16"
proof -
  have "x AND 0x0f \<le> (0x0f :: u8)" by (rule word_and_le1)
  then show ?thesis by (simp add: word_le_nat_alt)
qed

lemma nibble_mask: "(x AND 0x0f :: u8) = take_bit 4 x"
  by (simp add: take_bit_eq_mask mask_eq_exp_minus_1 and.commute)

lemma nibble_id: "unat (i :: u8) < 16 \<Longrightarrow> take_bit 4 i = i"
  by (simp add: take_bit_eq_mod word_arith_nat_mod)

lemma descriptor_index:
  fixes i c :: u8
  assumes "unat i < 16"
  shows "(push_bit 4 c OR i) AND 0x0f = i"
  using nibble_id [OF assms] by (simp add: nibble_mask take_bit_push_bit)

lemma descriptor_count:
  fixes i c :: u8
  assumes "unat i < 16" and "unat c < 16"
  shows "drop_bit 4 (push_bit 4 c OR i) AND 0x0f = c"
proof (rule bit_word_eqI)
  fix n assume "n < LENGTH(8)"
  have "bit i m \<Longrightarrow> m < 4" and "bit c m \<Longrightarrow> m < 4" for m
    using nibble_id [OF assms(1)] nibble_id [OF assms(2)] by (metis bit_take_bit_iff)+
  then show "bit (drop_bit 4 (push_bit 4 c OR i) AND 0x0f) n = bit c n"
    by (auto simp: nibble_mask bit_simps)
qed

text \<open>The two nibbles determine the descriptor.\<close>

lemma descriptor_split: "(d :: u8) = push_bit 4 (drop_bit 4 d AND 0x0f) OR (d AND 0x0f)"
proof (rule bit_word_eqI)
  fix n assume n: "n < LENGTH(8)"
  show "bit d n = bit (push_bit 4 (drop_bit 4 d AND 0x0f) OR (d AND 0x0f)) n"
    using n by (auto simp: nibble_mask bit_simps)
qed

section \<open>Parsing\<close>

lemma unat_minus_one: "2 \<le> (c :: u8) \<Longrightarrow> unat (c - 1) = unat c - 1"
  by (simp add: unat_sub_if' word_le_nat_alt)

lemma control_split: "(c :: u8) = push_bit 6 (drop_bit 6 c) OR (c AND 0x3f)"
proof -
  have mask: "(c AND 0x3f :: u8) = take_bit 6 c"
    by (simp add: take_bit_eq_mask mask_eq_exp_minus_1 and.commute)
  show ?thesis
    unfolding mask by (rule bit_word_eqI) (auto simp: bit_simps)
qed

lemma parse_frame_Ok_cases:
  assumes "parse_frame p = Ok f"
  obtains (single) rest where "p = SINGLE_CONTROL # rest" "parse_single p = Ok f"
    | (fragment) rest where "p = FRAGMENT_CONTROL # rest" "parse_fragment p = Ok f"
proof -
  from assms obtain c rest where p: "p = c # rest" and v: "c AND 0x3f = 1"
    and t: "drop_bit 6 c = 0 \<and> parse_single p = Ok f \<or>
            drop_bit 6 c = 1 \<and> parse_fragment p = Ok f"
    by (auto simp: parse_frame_def TRANSPORT_VERSION_def Let_def split: list.splits if_splits)
  from t show thesis
  proof
    assume *: "drop_bit 6 c = 0 \<and> parse_single p = Ok f"
    with v control_split [of c] have "c = SINGLE_CONTROL" by (simp add: SINGLE_CONTROL_def)
    with * p show thesis by (auto intro: single)
  next
    assume *: "drop_bit 6 c = 1 \<and> parse_fragment p = Ok f"
    with v control_split [of c] have "c = FRAGMENT_CONTROL" by (simp add: FRAGMENT_CONTROL_def)
    with * p show thesis by (auto intro: fragment)
  qed
qed

lemma parse_single_Ok: "parse_single p = Ok f \<Longrightarrow> f = Single (drop 1 p)"
  by (auto simp: parse_single_def Let_def split: if_splits)

lemma parse_fragment_Ok:
  assumes "parse_fragment p = Ok f"
  obtains fr where "f = Fragment fr" and "fragment_ok fr"
    and "drop 1 p = ff_message_id fr @
           (push_bit 4 (ff_count fr - 1) OR ff_index fr) # ff_body fr"
proof -
  define d where "d = p ! (1 + MESSAGE_ID_LEN)"
  define c where "c = (drop_bit 4 d AND 0x0f) + 1"
  define i where "i = d AND 0x0f"
  define body where "body = drop FRAGMENT_HEADER_LEN p"
  let ?fr = "\<lparr>ff_message_id = take MESSAGE_ID_LEN (drop 1 p), ff_index = i,
               ff_count = c, ff_body = body\<rparr>"
  have *: "8 \<le> length p \<and> 2 \<le> c \<and> c \<le> 16 \<and> i < c \<and> body \<noteq> [] \<and> length body \<le> 211
      \<and> (i < c - 1 \<longrightarrow> length body = 211) \<and> f = Fragment ?fr"
    using assms unfolding parse_fragment_def Let_def d_def [symmetric] c_def [symmetric]
      i_def [symmetric] body_def [symmetric]
    by (auto simp: frame_consts not_le split: if_splits)
  then have m1: "unat (c - 1) = unat c - 1" by (intro unat_minus_one) simp
  from * have ok: "fragment_ok ?fr"
    by (simp add: fragment_ok_def frame_consts word_le_nat_alt word_less_nat_alt m1 Suc_le_eq)
      linarith
  have "drop 1 p = take 6 (drop 1 p) @ drop 7 p"
    using append_take_drop_id [of 6 "drop 1 p"] by simp
  also have "drop 7 p = p ! 7 # drop 8 p"
    using * Cons_nth_drop_Suc [of 7 p] by simp
  also have "p ! 7 = push_bit 4 (c - 1) OR i"
    using descriptor_split [of d] by (simp add: d_def c_def i_def frame_consts)
  finally show thesis
    using that [of ?fr] * ok by (simp add: frame_consts body_def)
qed

lemma parse_frame_fragment_ok: "parse_frame p = Ok (Fragment f) \<Longrightarrow> fragment_ok f"
  by (elim parse_frame_Ok_cases)
    (auto dest: parse_single_Ok elim: parse_fragment_Ok)

lemma parse_frame_single_len:
  "parse_frame p = Ok (Single b) \<Longrightarrow> 1 \<le> length b \<and> length b \<le> MAX_SINGLE_BODY"
  by (elim parse_frame_Ok_cases)
    (auto simp: parse_single_def Let_def Suc_le_eq elim: parse_fragment_Ok split: if_splits)

section \<open>Encoding\<close>

lemma parse_fragment_bytes:
  assumes "fragment_ok f"
  shows "parse_frame (fragment_bytes (ff_message_id f) (ff_count f) (ff_index f) (ff_body f))
    = Ok (Fragment f)"
proof -
  let ?c = "ff_count f" and ?i = "ff_index f"
  let ?d = "push_bit 4 (?c - 1) OR ?i"
  let ?p = "fragment_bytes (ff_message_id f) ?c ?i (ff_body f)"
  from assms have ok: "length (ff_message_id f) = 6" "2 \<le> unat ?c" "unat ?c \<le> 16"
    "unat ?i < unat ?c" "ff_body f \<noteq> []" "length (ff_body f) \<le> 211"
    "unat ?i + 1 < unat ?c \<Longrightarrow> length (ff_body f) = 211"
    by (auto simp: fragment_ok_def frame_consts)
  have m1: "unat (?c - 1) = unat ?c - 1"
    using ok(2) by (intro unat_minus_one) (simp add: word_le_nat_alt)
  have d: "?d AND 0x0f = ?i" "(drop_bit 4 ?d AND 0x0f) + 1 = ?c"
    using descriptor_index [of ?i "?c - 1"] descriptor_count [of ?i "?c - 1"] ok m1 by auto
  have p: "?p = FRAGMENT_CONTROL # ff_message_id f @ ?d # ff_body f"
    by (simp add: fragment_bytes_def Let_def)
  have nth: "?p ! (1 + 6) = ?d" and drp: "drop 8 ?p = ff_body f" and tk: "take 6 (drop 1 ?p) = ff_message_id f"
    using ok(1) by (simp_all add: p nth_append)
  have cmp: "\<not> ?c \<le> ?i" "2 \<le> ?c" "?c \<le> 16"
    and full: "\<not> (?i < ?c - 1 \<and> length (ff_body f) \<noteq> 211)"
    using ok m1 by (auto simp: word_le_nat_alt word_less_nat_alt)
  have len: "\<not> length ?p < 8" using ok(1) by (simp add: p)
  have "parse_fragment ?p = Ok (Fragment f)"
    unfolding parse_fragment_def Let_def frame_consts
    using ok(5,6) cmp full len by (simp only: d nth drp tk of_nat_numeral if_False) simp
  then show ?thesis
    by (simp add: parse_frame_def p Let_def frame_consts)
qed

lemma length_fragments_of [simp]:
  "length (fragments_of sha raw) = length (chunks MAX_FRAGMENT_BODY raw)"
  by (simp add: fragments_of_def Let_def)

lemma nth_fragments_of:
  assumes "i < length (chunks MAX_FRAGMENT_BODY raw)"
  shows "fragments_of sha raw ! i =
    \<lparr>ff_message_id = message_id sha raw, ff_index = word_of_nat i,
     ff_count = word_of_nat (length (chunks MAX_FRAGMENT_BODY raw)),
     ff_body = chunks MAX_FRAGMENT_BODY raw ! i\<rparr>"
  using assms by (simp add: fragments_of_def Let_def nth_enumerate_eq)

lemma encode_frames_Ok_cases:
  assumes "encode_frames sha raw = Ok frames"
  obtains (short) "raw \<noteq> []" "length raw \<le> MAX_SINGLE_BODY" "frames = [SINGLE_CONTROL # raw]"
    | (long) "MAX_SINGLE_BODY < length raw"
        "2 \<le> length (chunks MAX_FRAGMENT_BODY raw)"
        "length (chunks MAX_FRAGMENT_BODY raw) \<le> MAX_FRAGMENT_COUNT"
        "frames = map (\<lambda>f. fragment_bytes (ff_message_id f) (ff_count f) (ff_index f) (ff_body f))
                   (fragments_of sha raw)"
proof (cases "length raw \<le> MAX_SINGLE_BODY")
  case True
  with assms show thesis
    by (intro short) (auto simp: encode_frames_def split: if_splits)
next
  case False
  have "1 < length (chunks MAX_FRAGMENT_BODY raw)"
    by (rule length_chunks_ge) (use False in \<open>auto simp: frame_consts\<close>)
  with False assms show thesis
    by (intro long)
      (auto simp: encode_frames_def fragments_of_def Let_def split: if_splits)
qed

lemma fragments_of_ok:
  assumes "digest_len sha" and "2 \<le> length (chunks MAX_FRAGMENT_BODY raw)"
    and "length (chunks MAX_FRAGMENT_BODY raw) \<le> MAX_FRAGMENT_COUNT"
    and "f \<in> set (fragments_of sha raw)"
  shows "fragment_ok f"
proof -
  let ?cs = "chunks MAX_FRAGMENT_BODY raw"
  from assms(4) obtain i where i: "i < length ?cs" and f: "f = fragments_of sha raw ! i"
    by (auto simp: in_set_conv_nth)
  have n: "unat (word_of_nat (length ?cs) :: u8) = length ?cs"
    and u: "unat (word_of_nat i :: u8) = i"
    using assms(3) i by (simp_all add: frame_consts unat_of_nat)
  have "?cs ! i \<in> set ?cs" using i by simp
  then have "?cs ! i \<noteq> []" and "length (?cs ! i) \<le> MAX_FRAGMENT_BODY"
    by (auto dest: chunks_nonempty length_chunk_le)
  moreover have "length (message_id sha raw) = 6"
    using assms(1) by (simp add: digest_len_def message_id_def frame_consts)
  moreover have "i + 1 < length ?cs \<Longrightarrow> length (?cs ! i) = MAX_FRAGMENT_BODY"
    by (rule length_chunk_full)
  ultimately show ?thesis
    using assms(2,3) i by (simp add: f nth_fragments_of fragment_ok_def n [unfolded frame_consts] u Suc_le_eq frame_consts)
qed

lemma concat_fragments_of: "concat (map ff_body (fragments_of sha raw)) = raw"
proof -
  have "map ff_body (fragments_of sha raw) = chunks MAX_FRAGMENT_BODY raw"
    by (rule nth_equalityI) (simp_all add: nth_fragments_of)
  then show ?thesis by (simp add: concat_chunks frame_consts)
qed

lemma parse_encoded_frames:
  assumes "digest_len sha" and "encode_frames sha raw = Ok frames"
  shows "map parse_frame frames =
    (if length raw \<le> MAX_SINGLE_BODY then [Ok (Single raw)]
     else map (\<lambda>f. Ok (Fragment f)) (fragments_of sha raw))
    \<and> concat (map ff_body (fragments_of sha raw)) = raw"
  using assms(2)
proof (cases rule: encode_frames_Ok_cases)
  case short
  then have "parse_frame (SINGLE_CONTROL # raw) = Ok (Single raw)"
    by (simp add: parse_frame_def parse_single_def frame_consts Let_def)
  with short show ?thesis by (simp add: concat_fragments_of)
next
  case long
  then have "parse_frame (fragment_bytes (ff_message_id f) (ff_count f) (ff_index f) (ff_body f))
      = Ok (Fragment f)" if "f \<in> set (fragments_of sha raw)" for f
    using that assms(1) by (blast intro: parse_fragment_bytes fragments_of_ok)
  with long show ?thesis by (simp add: concat_fragments_of)
qed

text \<open>The receiver is strict: a frame has exactly one encoding.\<close>

lemma parse_frame_inj:
  assumes "parse_frame p = Ok f" and "parse_frame q = Ok f"
  shows "p = q"
proof -
  have wire: "x = (case f of Single b \<Rightarrow> SINGLE_CONTROL # b
      | Fragment fr \<Rightarrow> fragment_bytes (ff_message_id fr) (ff_count fr) (ff_index fr) (ff_body fr))"
    if "parse_frame x = Ok f" for x
    using that
    by (elim parse_frame_Ok_cases)
      (auto dest: parse_single_Ok elim!: parse_fragment_Ok simp: fragment_bytes_def Let_def)
  from wire [OF assms(1)] wire [OF assms(2)] show ?thesis by simp
qed

section \<open>Properties\<close>

text \<open>the sender's frames parse back to exactly the payload. A payload that fits one
  frame comes back as that single body; a longer one comes back as its fragments in order,
  whose bodies concatenate to the payload.\<close>

lemma encode_parse_roundtrip:
  assumes "digest_len sha" and "encode_frames sha raw = Ok frames"
  shows "map parse_frame frames =
    (if length raw \<le> MAX_SINGLE_BODY then [Ok (Single raw)]
     else map (\<lambda>f. Ok (Fragment f)) (fragments_of sha raw))
    \<and> concat (map ff_body (fragments_of sha raw)) = raw"
  using assms by (rule parse_encoded_frames)

text \<open>C25: the sender refuses exactly the empty payload and payloads that need more than
  sixteen fragments; otherwise it emits at most sixteen frames of at most 219 bytes.\<close>

theorem encode_frames_total:
  assumes "digest_len sha"
  shows "(encode_frames sha raw = Err EncodeEmptyPayload \<longleftrightarrow> raw = [])
    \<and> ((\<exists>n. encode_frames sha raw = Err (EncodeTooManyFragments n))
          \<longleftrightarrow> MAX_REASSEMBLED_BYTES < length raw)
    \<and> (\<forall>frames. encode_frames sha raw = Ok frames \<longrightarrow>
          length frames \<le> MAX_FRAGMENT_COUNT
          \<and> (\<forall>w \<in> set frames. length w \<le> FRAGMENT_HEADER_LEN + MAX_FRAGMENT_BODY))"
proof (intro conjI allI impI ballI)
  let ?n = "length (chunks MAX_FRAGMENT_BODY raw)"
  have limit: "MAX_FRAGMENT_COUNT < ?n \<longleftrightarrow> MAX_REASSEMBLED_BYTES < length raw"
    using length_chunks_le [of MAX_FRAGMENT_BODY raw MAX_FRAGMENT_COUNT]
      length_chunks_ge [of MAX_FRAGMENT_BODY MAX_FRAGMENT_COUNT raw]
    by (auto simp: frame_consts not_le [symmetric])
  show "(encode_frames sha raw = Err EncodeEmptyPayload) = (raw = [])"
    by (simp add: encode_frames_def Let_def)
  have "MAX_REASSEMBLED_BYTES < length raw \<Longrightarrow> \<not> length raw \<le> MAX_SINGLE_BODY"
    by (simp add: frame_consts)
  with limit show "(\<exists>n. encode_frames sha raw = Err (EncodeTooManyFragments n))
      = (MAX_REASSEMBLED_BYTES < length raw)"
    by (auto simp: encode_frames_def Let_def frame_consts split: if_splits)
next
  fix frames assume "encode_frames sha raw = Ok frames"
  then show "length frames \<le> MAX_FRAGMENT_COUNT"
    by (cases rule: encode_frames_Ok_cases) (auto simp: frame_consts)
next
  fix frames w assume "encode_frames sha raw = Ok frames" and w: "w \<in> set frames"
  then show "length w \<le> FRAGMENT_HEADER_LEN + MAX_FRAGMENT_BODY"
  proof (cases rule: encode_frames_Ok_cases)
    case short
    with w show ?thesis by (simp add: frame_consts)
  next
    case long
    then have "fragment_ok f" if "f \<in> set (fragments_of sha raw)" for f
      using that assms by (blast intro: fragments_of_ok)
    with long w show ?thesis
      by (auto simp: fragment_ok_def fragment_bytes_def Let_def frame_consts)
  qed
qed

end
