(* ===== verification/Reassembly.thy ===== *)
theory Reassembly
  imports Frame
begin

text \<open>
  Bounded fragment reassembly: \<open>crates/edge/src/ingress/meshtastic/reassembly.rs\<close>.

  The state is the record \<open>Reassembler\<close> (configuration, assemblies by key, pending count per
  sender). Its operations are \<open>new_reassembler\<close>, \<open>accept\<close>, \<open>sweep_expired\<close>, \<open>clear\<close> and the
  private \<open>discard\<close> and \<open>complete\<close>. \<open>accept\<close> returns \<open>None\<close> where the Rust code would panic on
  an out-of-range fragment slot. The clock is the argument \<open>now\<close>, as in the source.
\<close>

section \<open>State\<close>

record ReassemblerConfig =
  max_reassembled_bytes :: nat
  max_fragments :: nat
  max_pending :: nat
  max_pending_per_sender :: nat
  idle_timeout :: duration
  absolute_timeout :: duration

datatype RejectReason =
    TooManyFragments
  | PendingLimitGlobal
  | PendingLimitPerSender
  | Oversize
  | MessageIdMismatch

datatype Outcome =
    Progress
  | Complete bytes
  | DuplicateIgnored
  | Conflict
  | Rejected RejectReason

type_synonym key = "u32 \<times> mesh_message_id"

record Assembly =
  as_count :: u8
  as_fragments :: "bytes option list"
  as_received :: nat
  as_total_bytes :: nat
  as_created_at :: instant
  as_last_progress :: instant

record Reassembler =
  re_config :: ReassemblerConfig
  re_assemblies :: "(key, Assembly) hashmap"
  re_pending_per_sender :: "(u32, nat) hashmap"

section \<open>Operations\<close>

definition new_reassembler :: "ReassemblerConfig \<Rightarrow> Reassembler" where
  "new_reassembler config =
     \<lparr>re_config = config, re_assemblies = [], re_pending_per_sender = []\<rparr>"

definition pending_len :: "Reassembler \<Rightarrow> nat" where
  "pending_len r = length (re_assemblies r)"

definition discard :: "key \<Rightarrow> Reassembler \<Rightarrow> Reassembler" where
  "discard key r =
     (case map_of (re_assemblies r) key of
        None \<Rightarrow> r
      | Some _ \<Rightarrow>
          let r1 = r\<lparr>re_assemblies := AList.delete key (re_assemblies r)\<rparr>;
              sender = fst key
          in (case map_of (re_pending_per_sender r1) sender of
                None \<Rightarrow> r1
              | Some n \<Rightarrow>
                  let n' = n - 1 in
                  if n' = 0
                  then r1\<lparr>re_pending_per_sender := AList.delete sender (re_pending_per_sender r1)\<rparr>
                  else r1\<lparr>re_pending_per_sender :=
                            AList.update sender n' (re_pending_per_sender r1)\<rparr>))"

text \<open>The loop of \<open>complete\<close> that concatenates the slots, \<open>None\<close> at the first empty slot.\<close>

fun concat_slots :: "bytes option list \<Rightarrow> bytes option" where
  "concat_slots [] = Some []"
| "concat_slots (None # _) = None"
| "concat_slots (Some b # fs) = map_option (\<lambda>rest. b @ rest) (concat_slots fs)"

definition complete :: "(bytes \<Rightarrow> bytes) \<Rightarrow> key \<Rightarrow> Reassembler \<Rightarrow> Outcome \<times> Reassembler" where
  "complete sha key r =
     (case map_of (re_assemblies r) key of
        None \<Rightarrow> (Conflict, r)
      | Some assembly \<Rightarrow>
          (case concat_slots (as_fragments assembly) of
             None \<Rightarrow> (Conflict, discard key r)
           | Some buf \<Rightarrow>
               let r' = discard key r in
               if take MESSAGE_ID_LEN (sha buf) \<noteq> snd key
               then (Rejected MessageIdMismatch, r')
               else (Complete buf, r')))"

text \<open>The branch of \<open>accept\<close> for a key that already has an assembly.\<close>

definition accept_existing ::
  "(bytes \<Rightarrow> bytes) \<Rightarrow> instant \<Rightarrow> key \<Rightarrow> Assembly \<Rightarrow> FragmentFrame \<Rightarrow> Reassembler
    \<Rightarrow> (Outcome \<times> Reassembler) option" where
  "accept_existing sha now key assembly frame r =
     (if as_count assembly \<noteq> ff_count frame then Some (Conflict, discard key r)
      else
        let idx = unat (ff_index frame) in
        if idx \<ge> length (as_fragments assembly) then None
        else case as_fragments assembly ! idx of
          Some existing \<Rightarrow>
            if existing = ff_body frame then Some (DuplicateIgnored, r)
            else Some (Conflict, discard key r)
        | None \<Rightarrow>
            if as_total_bytes assembly + length (ff_body frame)
                 > max_reassembled_bytes (re_config r)
            then Some (Rejected Oversize, discard key r)
            else
              let assembly' = assembly\<lparr>
                    as_total_bytes := as_total_bytes assembly + length (ff_body frame),
                    as_fragments := (as_fragments assembly)[idx := Some (ff_body frame)],
                    as_received := as_received assembly + 1,
                    as_last_progress := now\<rparr>;
                  r' = r\<lparr>re_assemblies := AList.update key assembly' (re_assemblies r)\<rparr>
              in if as_received assembly' = unat (as_count assembly')
                 then Some (complete sha key r')
                 else Some (Progress, r'))"

text \<open>The branch of \<open>accept\<close> for a new key: every limit is checked before anything is stored.\<close>

definition accept_new ::
  "(bytes \<Rightarrow> bytes) \<Rightarrow> instant \<Rightarrow> key \<Rightarrow> FragmentFrame \<Rightarrow> Reassembler
    \<Rightarrow> (Outcome \<times> Reassembler) option" where
  "accept_new sha now key frame r =
     (let cfg = re_config r;
          sender = fst key;
          sender_pending = (case map_of (re_pending_per_sender r) sender of
                              None \<Rightarrow> 0 | Some n \<Rightarrow> n)
      in
      if unat (ff_count frame) > max_fragments cfg then Some (Rejected TooManyFragments, r)
      else if length (re_assemblies r) \<ge> max_pending cfg then Some (Rejected PendingLimitGlobal, r)
      else if sender_pending \<ge> max_pending_per_sender cfg
      then Some (Rejected PendingLimitPerSender, r)
      else if length (ff_body frame) > max_reassembled_bytes cfg then Some (Rejected Oversize, r)
      else
        let idx = unat (ff_index frame) in
        if idx \<ge> unat (ff_count frame) then None
        else
          let assembly = \<lparr>as_count = ff_count frame,
                as_fragments = (replicate (unat (ff_count frame)) None)[idx := Some (ff_body frame)],
                as_received = 1,
                as_total_bytes = length (ff_body frame),
                as_created_at = now,
                as_last_progress = now\<rparr>;
              r' = r\<lparr>re_assemblies := AList.update key assembly (re_assemblies r),
                     re_pending_per_sender :=
                       AList.update sender (sender_pending + 1) (re_pending_per_sender r)\<rparr>
          in if ff_count frame = 1 then Some (complete sha key r') else Some (Progress, r'))"

definition accept ::
  "(bytes \<Rightarrow> bytes) \<Rightarrow> instant \<Rightarrow> u32 \<Rightarrow> FragmentFrame \<Rightarrow> Reassembler
    \<Rightarrow> (Outcome \<times> Reassembler) option" where
  "accept sha now mesh_sender frame r =
     (let key = (mesh_sender, ff_message_id frame) in
      case map_of (re_assemblies r) key of
        Some assembly \<Rightarrow> accept_existing sha now key assembly frame r
      | None \<Rightarrow> accept_new sha now key frame r)"

definition expired :: "ReassemblerConfig \<Rightarrow> instant \<Rightarrow> Assembly \<Rightarrow> bool" where
  "expired cfg now a \<longleftrightarrow>
     now - as_last_progress a \<ge> idle_timeout cfg \<or> now - as_created_at a \<ge> absolute_timeout cfg"

definition sweep_expired :: "instant \<Rightarrow> Reassembler \<Rightarrow> nat \<times> Reassembler" where
  "sweep_expired now r =
     (let ex = map fst (filter (\<lambda>(_, a). expired (re_config r) now a) (re_assemblies r))
      in (length ex, fold discard ex r))"

definition clear :: "Reassembler \<Rightarrow> Reassembler" where
  "clear r = r\<lparr>re_assemblies := [], re_pending_per_sender := []\<rparr>"

section \<open>Vocabulary of the specification\<close>

text \<open>Feeding one sender's fragments in the order they arrive.\<close>

fun accept_seq ::
  "(bytes \<Rightarrow> bytes) \<Rightarrow> u32 \<Rightarrow> (instant \<times> FragmentFrame) list \<Rightarrow> Reassembler
    \<Rightarrow> (Outcome list \<times> Reassembler) option" where
  "accept_seq sha s [] r = Some ([], r)"
| "accept_seq sha s ((now, f) # fs) r =
     (case accept sha now s f r of
        None \<Rightarrow> None
      | Some (out, r') \<Rightarrow> map_option (\<lambda>(outs, r''). (out # outs, r'')) (accept_seq sha s fs r'))"

definition slot_len :: "bytes option \<Rightarrow> nat" where
  "slot_len f = (case f of None \<Rightarrow> 0 | Some b \<Rightarrow> length b)"

definition filled_slots :: "bytes option list \<Rightarrow> nat" where
  "filled_slots fs = length (filter (\<lambda>f. f \<noteq> None) fs)"

definition assembly_ok :: "ReassemblerConfig \<Rightarrow> Assembly \<Rightarrow> bool" where
  "assembly_ok cfg a \<longleftrightarrow>
     length (as_fragments a) = unat (as_count a) \<and>
     as_received a = filled_slots (as_fragments a) \<and>
     as_total_bytes a = sum_list (map slot_len (as_fragments a)) \<and>
     1 \<le> as_received a \<and> as_received a < unat (as_count a) \<and>
     as_total_bytes a \<le> max_reassembled_bytes cfg \<and>
     unat (as_count a) \<le> max_fragments cfg"

definition sender_count :: "u32 \<Rightarrow> (key, Assembly) hashmap \<Rightarrow> nat" where
  "sender_count s m = length (filter (\<lambda>(k, _). fst k = s) m)"

text \<open>The reassembler invariant: the maps are maps, every stored assembly is well formed and
  incomplete, the per-sender counters count exactly the stored assemblies of that sender, and
  the configured limits hold.\<close>

definition reassembler_ok :: "Reassembler \<Rightarrow> bool" where
  "reassembler_ok r \<longleftrightarrow>
     hashmap_ok (re_assemblies r) \<and> hashmap_ok (re_pending_per_sender r) \<and>
     (\<forall>(k, a) \<in> set (re_assemblies r). assembly_ok (re_config r) a) \<and>
     (\<forall>s. map_of (re_pending_per_sender r) s =
            (let n = sender_count s (re_assemblies r) in if n = 0 then None else Some n)) \<and>
     length (re_assemblies r) \<le> max_pending (re_config r) \<and>
     (\<forall>s. sender_count s (re_assemblies r) \<le> max_pending_per_sender (re_config r))"

definition buffered_bytes :: "Reassembler \<Rightarrow> nat" where
  "buffered_bytes r = sum_list (map (\<lambda>(_, a). sum_list (map slot_len (as_fragments a)))
                                    (re_assemblies r))"

text \<open>The states an ingress session can bring its reassembler into: \<open>serve_session\<close> creates it,
  feeds it parsed fragments and sweeps it periodically; \<open>clear\<close> is its public reset.\<close>

inductive reassembler_reach :: "(bytes \<Rightarrow> bytes) \<Rightarrow> ReassemblerConfig \<Rightarrow> Reassembler \<Rightarrow> bool"
  for sha cfg where
  reach_new: "reassembler_reach sha cfg (new_reassembler cfg)"
| reach_accept: "reassembler_reach sha cfg r \<Longrightarrow> accept sha now s f r = Some (out, r') \<Longrightarrow>
     reassembler_reach sha cfg r'"
| reach_sweep: "reassembler_reach sha cfg r \<Longrightarrow> reassembler_reach sha cfg (snd (sweep_expired now r))"
| reach_clear: "reassembler_reach sha cfg r \<Longrightarrow> reassembler_reach sha cfg (clear r)"

text \<open>The assembly of a payload of which exactly the fragments with index in \<open>I\<close> arrived.\<close>

definition partial_assembly :: "bytes \<Rightarrow> nat set \<Rightarrow> instant \<Rightarrow> instant \<Rightarrow> Assembly" where
  "partial_assembly raw I created progress =
     (let cs = chunks MAX_FRAGMENT_BODY raw in
      \<lparr>as_count = word_of_nat (length cs),
       as_fragments = map (\<lambda>i. if i \<in> I then Some (cs ! i) else None) [0..<length cs],
       as_received = card I,
       as_total_bytes = (\<Sum>i\<in>I. length (cs ! i)),
       as_created_at = created,
       as_last_progress = progress\<rparr>)"

definition fragmented :: "bytes \<Rightarrow> bool" where
  "fragmented raw \<longleftrightarrow> 2 \<le> length (chunks MAX_FRAGMENT_BODY raw)
     \<and> length (chunks MAX_FRAGMENT_BODY raw) \<le> MAX_FRAGMENT_COUNT"

section \<open>Accounting per sender\<close>

lemma sender_count_Nil [simp]: "sender_count s [] = 0"
  by (simp add: sender_count_def)

lemma sender_count_Cons [simp]:
  "sender_count s (p # m) = (if fst (fst p) = s then 1 else 0) + sender_count s m"
  by (cases p) (simp add: sender_count_def)

lemma sender_count_update_new:
  "map_of m k = None \<Longrightarrow>
     sender_count s (AList.update k a m) = (if fst k = s then 1 else 0) + sender_count s m"
  by (induction m) (auto split: if_splits)

lemma sender_count_update_old:
  "map_of m k = Some b \<Longrightarrow> sender_count s (AList.update k a m) = sender_count s m"
  by (induction m) (auto split: if_splits)

lemma sender_count_delete:
  assumes "hashmap_ok m" and "map_of m k = Some a"
  shows "(if fst k = s then 1 else 0) + sender_count s (AList.delete k m) = sender_count s m"
  using assms
proof (induction m)
  case (Cons p m)
  show ?case
  proof (cases "fst p = k")
    case True
    with Cons.prems(1) have "map_of m k = None"
      by (auto simp: hashmap_ok_def map_of_eq_None_iff)
    then have "AList.delete k m = m"
      by (auto simp: AList.delete_eq filter_id_conv map_of_eq_None_iff rev_image_eqI)
    with True show ?thesis by (cases p) (simp add: AList.delete_eq)
  next
    case False
    with Cons show ?thesis by (cases p) (auto simp: hashmap_ok_def AList.delete_eq)
  qed
qed simp

lemma sender_count_delete_le: "sender_count s (AList.delete k m) \<le> sender_count s m"
  by (induction m) (auto simp: AList.delete_eq)

lemma sender_count_pos: "map_of m k = Some a \<Longrightarrow> 0 < sender_count (fst k) m"
  by (induction m) (auto split: if_splits)

section \<open>The invariant is kept by every operation\<close>

lemma reassembler_okD:
  assumes "reassembler_ok r"
  shows "hashmap_ok (re_assemblies r)" and "hashmap_ok (re_pending_per_sender r)"
    and "\<And>k a. map_of (re_assemblies r) k = Some a \<Longrightarrow> assembly_ok (re_config r) a"
    and "\<And>s. map_of (re_pending_per_sender r) s =
           (if sender_count s (re_assemblies r) = 0 then None
            else Some (sender_count s (re_assemblies r)))"
    and "length (re_assemblies r) \<le> max_pending (re_config r)"
    and "\<And>s. sender_count s (re_assemblies r) \<le> max_pending_per_sender (re_config r)"
  using assms by (auto simp: reassembler_ok_def Let_def dest: map_of_SomeD)

lemma reassembler_okI:
  assumes "hashmap_ok (re_assemblies r)" and "hashmap_ok (re_pending_per_sender r)"
    and "\<And>k a. map_of (re_assemblies r) k = Some a \<Longrightarrow> assembly_ok (re_config r) a"
    and "\<And>s. map_of (re_pending_per_sender r) s =
           (if sender_count s (re_assemblies r) = 0 then None
            else Some (sender_count s (re_assemblies r)))"
    and "length (re_assemblies r) \<le> max_pending (re_config r)"
    and "\<And>s. sender_count s (re_assemblies r) \<le> max_pending_per_sender (re_config r)"
  shows "reassembler_ok r"
  using assms by (auto simp: reassembler_ok_def Let_def map_of_eq_iff_mem)

lemma new_reassembler_ok: "reassembler_ok (new_reassembler cfg)"
  by (rule reassembler_okI) (simp_all add: new_reassembler_def)

lemma clear_ok: "reassembler_ok (clear r)"
  by (rule reassembler_okI) (simp_all add: clear_def)

lemma discard_absent: "map_of (re_assemblies r) k = None \<Longrightarrow> discard k r = r"
  by (simp add: discard_def)

lemma discard_config [simp]: "re_config (discard k r) = re_config r"
  by (simp add: discard_def Let_def split: option.splits)

lemma discard_assemblies [simp]:
  "re_assemblies (discard k r) = AList.delete k (re_assemblies r)"
proof (cases "map_of (re_assemblies r) k")
  case None
  then have "AList.delete k (re_assemblies r) = re_assemblies r"
    by (auto simp: AList.delete_eq filter_id_conv map_of_eq_None_iff rev_image_eqI)
  with None show ?thesis by (simp add: discard_absent)
qed (simp add: discard_def Let_def split: option.splits)

text \<open>What \<open>discard\<close> leaves of the accounting: one less for the sender of a stored key.\<close>

lemma discard_pending:
  assumes "hashmap_ok (re_assemblies r)" and "hashmap_ok (re_pending_per_sender r)"
    and "\<And>s. map_of (re_pending_per_sender r) s =
           (if sender_count s (re_assemblies r) = 0 then None
            else Some (sender_count s (re_assemblies r)))"
  shows "map_of (re_pending_per_sender (discard k r)) s =
    (if sender_count s (re_assemblies (discard k r)) = 0 then None
     else Some (sender_count s (re_assemblies (discard k r))))"
    and "hashmap_ok (re_pending_per_sender (discard k r))"
proof -
  show "hashmap_ok (re_pending_per_sender (discard k r))"
    using assms(2) by (simp add: discard_def Let_def split: option.splits)
  show "map_of (re_pending_per_sender (discard k r)) s =
    (if sender_count s (re_assemblies (discard k r)) = 0 then None
     else Some (sender_count s (re_assemblies (discard k r))))"
  proof (cases "map_of (re_assemblies r) k")
    case None
    then show ?thesis by (simp only: discard_absent assms(3))
  next
    case (Some a)
    note del = sender_count_delete [OF assms(1) Some, of s]
    note del' = sender_count_delete [OF assms(1) Some, of "fst k"]
    from Some have "0 < sender_count (fst k) (re_assemblies r)" by (rule sender_count_pos)
    with Some del del' show ?thesis
      by (auto simp: discard_def Let_def assms(3))
  qed
qed

text \<open>\<open>discard\<close> repairs the accounting even when the assembly it removes is already complete,
  which is how \<open>complete\<close> uses it.\<close>

lemma discard_okI:
  assumes "hashmap_ok (re_assemblies r)" and "hashmap_ok (re_pending_per_sender r)"
    and "\<And>k' a. k' \<noteq> k \<Longrightarrow> map_of (re_assemblies r) k' = Some a \<Longrightarrow> assembly_ok (re_config r) a"
    and "\<And>s. map_of (re_pending_per_sender r) s =
           (if sender_count s (re_assemblies r) = 0 then None
            else Some (sender_count s (re_assemblies r)))"
    and "length (re_assemblies r) \<le> max_pending (re_config r)"
    and "\<And>s. sender_count s (re_assemblies r) \<le> max_pending_per_sender (re_config r)"
  shows "reassembler_ok (discard k r)"
proof (rule reassembler_okI)
  show "length (re_assemblies (discard k r)) \<le> max_pending (re_config (discard k r))"
    using assms(5) length_delete_le [of k "re_assemblies r"] by simp
  show "sender_count s (re_assemblies (discard k r)) \<le> max_pending_per_sender (re_config (discard k r))"
    for s
  proof -
    have "sender_count s (AList.delete k (re_assemblies r)) \<le> sender_count s (re_assemblies r)"
      by (rule sender_count_delete_le)
    with assms(6) [of s] show ?thesis by simp
  qed
qed (use assms in \<open>auto simp: discard_pending split: if_splits\<close>)

lemma discard_ok: "reassembler_ok r \<Longrightarrow> reassembler_ok (discard k r)"
  by (rule discard_okI) (simp_all add: reassembler_okD)

lemma fold_discard_ok: "reassembler_ok r \<Longrightarrow> reassembler_ok (fold discard ks r)"
  by (induction ks arbitrary: r) (auto intro: discard_ok)

lemma sweep_expired_ok: "reassembler_ok r \<Longrightarrow> reassembler_ok (snd (sweep_expired now r))"
  by (simp add: sweep_expired_def Let_def fold_discard_ok)

lemma snd_complete: "map_of (re_assemblies r) k = Some a \<Longrightarrow> snd (complete sha k r) = discard k r"
  by (simp add: complete_def Let_def split: option.splits)

text \<open>Filling an empty slot adds one received fragment and the length of its body.\<close>

lemma filled_slots_update:
  "i < length fs \<Longrightarrow> fs ! i = None \<Longrightarrow>
     filled_slots (fs[i := Some b]) = Suc (filled_slots fs)"
  by (induction fs arbitrary: i) (auto simp: filled_slots_def split: nat.splits)

lemma slot_bytes_update:
  "i < length fs \<Longrightarrow> fs ! i = None \<Longrightarrow>
     sum_list (map slot_len (fs[i := Some b])) = sum_list (map slot_len fs) + length b"
  by (induction fs arbitrary: i) (auto simp: slot_len_def split: nat.splits)

lemma filled_slots_replicate: "filled_slots (replicate n None) = 0"
  by (simp add: filled_slots_def)

lemma slot_bytes_replicate: "sum_list (map slot_len (replicate n None)) = 0"
  by (simp add: slot_len_def)

text \<open>Storing an assembly under a key that is already present keeps the accounting.\<close>

lemma replace_assembly_ok:
  assumes ok: "reassembler_ok r" and old: "map_of (re_assemblies r) k = Some a0"
    and a: "assembly_ok (re_config r) a"
  shows "reassembler_ok (r\<lparr>re_assemblies := AList.update k a (re_assemblies r)\<rparr>)"
  using a old reassembler_okD [OF ok]
  by (intro reassembler_okI)
    (auto simp: length_update_old sender_count_update_old split: if_splits)

lemma replace_assembly_discard_ok:
  assumes ok: "reassembler_ok r" and old: "map_of (re_assemblies r) k = Some a0"
  shows "reassembler_ok (discard k (r\<lparr>re_assemblies := AList.update k a (re_assemblies r)\<rparr>))"
  using old reassembler_okD [OF ok]
  by (intro discard_okI)
    (auto simp: length_update_old sender_count_update_old split: if_splits)

lemma accept_existing_ok:
  assumes ok: "reassembler_ok r" and old: "map_of (re_assemblies r) k = Some a"
    and acc: "accept_existing sha now k a f r = Some (out, r')"
  shows "reassembler_ok r'"
proof -
  let ?idx = "unat (ff_index f)"
  let ?a' = "a\<lparr>as_total_bytes := as_total_bytes a + length (ff_body f),
               as_fragments := (as_fragments a)[?idx := Some (ff_body f)],
               as_received := as_received a + 1, as_last_progress := now\<rparr>"
  let ?r = "r\<lparr>re_assemblies := AList.update k ?a' (re_assemblies r)\<rparr>"
  from acc consider "r' = discard k r" | "r' = r"
    | (fin) "r' = snd (complete sha k ?r)"
    | (more) "r' = ?r" "?idx < length (as_fragments a)" "as_fragments a ! ?idx = None"
        "as_total_bytes a + length (ff_body f) \<le> max_reassembled_bytes (re_config r)"
        "as_received a + 1 \<noteq> unat (as_count a)"
    by (auto simp: accept_existing_def Let_def not_le not_less
        split: if_splits option.splits dest: sym)
  then show ?thesis
  proof cases
    case fin
    have "map_of (re_assemblies ?r) k = Some ?a'" by simp
    then have "r' = discard k ?r" using fin by (simp add: snd_complete)
    then show ?thesis by (simp only: replace_assembly_discard_ok [OF ok old])
  next
    case more
    have "assembly_ok (re_config r) a" using ok old by (rule reassembler_okD)
    with more have "assembly_ok (re_config r) ?a'"
      by (auto simp: assembly_ok_def filled_slots_update slot_bytes_update)
    then show ?thesis using more(1) ok old by (simp only: replace_assembly_ok)
  qed (use ok in \<open>auto intro: discard_ok\<close>)
qed

lemma accept_new_ok:
  assumes ok: "reassembler_ok r" and new: "map_of (re_assemblies r) k = None"
    and acc: "accept_new sha now k f r = Some (out, r')"
  shows "reassembler_ok r'"
proof -
  note inv = reassembler_okD [OF ok]
  let ?n = "case map_of (re_pending_per_sender r) (fst k) of None \<Rightarrow> 0 | Some n \<Rightarrow> n"
  have n: "?n = sender_count (fst k) (re_assemblies r)" by (simp add: inv(4))
  let ?idx = "unat (ff_index f)"
  let ?a = "\<lparr>as_count = ff_count f,
     as_fragments = (replicate (unat (ff_count f)) None)[?idx := Some (ff_body f)],
     as_received = 1, as_total_bytes = length (ff_body f),
     as_created_at = now, as_last_progress = now\<rparr>"
  let ?r = "r\<lparr>re_assemblies := AList.update k ?a (re_assemblies r),
     re_pending_per_sender := AList.update (fst k) (?n + 1) (re_pending_per_sender r)\<rparr>"
  have keys: "hashmap_ok (re_assemblies ?r)" "hashmap_ok (re_pending_per_sender ?r)"
    using inv by auto
  have pend: "map_of (re_pending_per_sender ?r) s =
      (if sender_count s (re_assemblies ?r) = 0 then None
       else Some (sender_count s (re_assemblies ?r)))" for s
    using new inv(4) [of s] by (auto simp: sender_count_update_new n)
  have others: "assembly_ok (re_config ?r) a"
    if "k' \<noteq> k" "map_of (re_assemblies ?r) k' = Some a" for k' a
    using that inv(3) by simp
  from acc consider "r' = r"
    | (stored) "unat (ff_count f) \<le> max_fragments (re_config r)"
        "length (re_assemblies r) < max_pending (re_config r)"
        "?n < max_pending_per_sender (re_config r)"
        "length (ff_body f) \<le> max_reassembled_bytes (re_config r)"
        "?idx < unat (ff_count f)"
        "if ff_count f = 1 then r' = snd (complete sha k ?r) else r' = ?r"
    by (auto simp: accept_new_def Let_def not_le not_less split: if_splits dest: sym)
  then show ?thesis
  proof cases
    case stored
    have len: "length (re_assemblies ?r) \<le> max_pending (re_config ?r)"
      using stored(2) new by (simp add: length_update_new)
    have per: "sender_count s (re_assemblies ?r) \<le> max_pending_per_sender (re_config ?r)" for s
      using stored(3) new inv(6) [of s] by (auto simp: sender_count_update_new n)
    show ?thesis
    proof (cases "ff_count f = 1")
      case True
      have "map_of (re_assemblies ?r) k = Some ?a" by simp
      then have "r' = discard k ?r" using True stored by (simp add: snd_complete)
      moreover have "reassembler_ok (discard k ?r)"
        by (rule discard_okI [OF keys _ pend len per]) (rule others)
      ultimately show ?thesis by (simp only:)
    next
      case False
      then have "1 < unat (ff_count f)"
        using stored(5) by (metis less_one linorder_neqE_nat not_less0 unsigned_1 unsigned_word_eqI)
      then have a: "assembly_ok (re_config ?r) ?a"
        using stored by (auto simp: assembly_ok_def filled_slots_update slot_bytes_update
            slot_bytes_replicate filled_slots_replicate simp del: map_replicate sum_list_replicate)
      have "assembly_ok (re_config ?r) b" if "map_of (re_assemblies ?r) k' = Some b" for k' b
        using that others a by (cases "k' = k") auto
      then have "reassembler_ok ?r" using keys pend len per by (intro reassembler_okI)
      with False stored show ?thesis by simp
    qed
  qed (use ok in simp)
qed

lemma accept_ok:
  "reassembler_ok r \<Longrightarrow> accept sha now s f r = Some (out, r') \<Longrightarrow> reassembler_ok r'"
  by (auto simp: accept_def Let_def split: option.splits
      intro: accept_existing_ok accept_new_ok)

section \<open>Reassembling one payload\<close>

lemma concat_slots_Some: "concat_slots (map Some bs) = Some (concat bs)"
  by (induction bs) auto

lemma card_eq_all: "J \<subseteq> {..<n} \<Longrightarrow> card J = n \<longleftrightarrow> J = {..<n}"
  by (metis card_lessThan card_subset_eq finite_lessThan)

lemma accept_existing_store:
  assumes "as_count a = ff_count f" and "idx = unat (ff_index f)" and "idx < length (as_fragments a)"
    and "as_fragments a ! idx = None"
    and "as_total_bytes a + length (ff_body f) \<le> max_reassembled_bytes (re_config r)"
    and "a' = a\<lparr>as_total_bytes := as_total_bytes a + length (ff_body f),
               as_fragments := (as_fragments a)[idx := Some (ff_body f)],
               as_received := as_received a + 1, as_last_progress := now\<rparr>"
  shows "accept_existing sha now k a f r =
    (let r' = r\<lparr>re_assemblies := AList.update k a' (re_assemblies r)\<rparr>
     in if as_received a' = unat (as_count a') then Some (complete sha k r')
        else Some (Progress, r'))"
  using assms by (simp add: accept_existing_def Let_def not_less not_le)

text \<open>While one payload is being received, it is known to need between 2 and 16 fragments
  (\<open>fragmented\<close>).\<close>

lemma count_nat:
  "fragmented raw \<Longrightarrow> unat (word_of_nat (length (chunks MAX_FRAGMENT_BODY raw)) :: u8)
     = length (chunks MAX_FRAGMENT_BODY raw)"
  by (simp add: unat_of_nat frame_consts fragmented_def)

lemma index_nat:
  "fragmented raw \<Longrightarrow> i < length (chunks MAX_FRAGMENT_BODY raw) \<Longrightarrow> unat (word_of_nat i :: u8) = i"
  by (simp add: unat_of_nat frame_consts fragmented_def)

lemma bytes_le:
  assumes "I \<subseteq> {..<length (chunks MAX_FRAGMENT_BODY raw)}"
  shows "(\<Sum>i\<in>I. length (chunks MAX_FRAGMENT_BODY raw ! i)) \<le> length raw"
proof -
  let ?cs = "chunks MAX_FRAGMENT_BODY raw"
  have "(\<Sum>i\<in>I. length (?cs ! i)) \<le> (\<Sum>i<length ?cs. length (?cs ! i))"
    using assms by (intro sum_mono2) auto
  also have "\<dots> = sum_list (map length ?cs)"
    by (simp add: sum_list_sum_nth atLeast0LessThan)
  also have "\<dots> = length raw"
    by (metis concat_chunks frame_consts(7) length_concat zero_less_numeral)
  finally show ?thesis .
qed

lemma fields:
  assumes "fragmented raw" and "i < length (chunks MAX_FRAGMENT_BODY raw)"
  shows "ff_message_id (fragments_of sha raw ! i) = message_id sha raw"
    and "unat (ff_index (fragments_of sha raw ! i)) = i"
    and "ff_count (fragments_of sha raw ! i) = word_of_nat (length (chunks MAX_FRAGMENT_BODY raw))"
    and "ff_body (fragments_of sha raw ! i) = chunks MAX_FRAGMENT_BODY raw ! i"
  using assms by (simp_all add: nth_fragments_of index_nat)

text \<open>Storing fragment \<open>i\<close> in the partial assembly of \<open>I\<close> gives that of \<open>insert i I\<close>.\<close>

lemma partial_insert:
  assumes "I \<subseteq> {..<length (chunks MAX_FRAGMENT_BODY raw)}"
    and "i < length (chunks MAX_FRAGMENT_BODY raw)" and "i \<notin> I"
  shows "(partial_assembly raw I c p)\<lparr>
      as_total_bytes := as_total_bytes (partial_assembly raw I c p)
        + length (chunks MAX_FRAGMENT_BODY raw ! i),
      as_fragments := (as_fragments (partial_assembly raw I c p))
        [i := Some (chunks MAX_FRAGMENT_BODY raw ! i)],
      as_received := as_received (partial_assembly raw I c p) + 1,
      as_last_progress := now\<rparr> = partial_assembly raw (insert i I) c now"
proof -
  have fin: "finite I" using assms(1) finite_subset by blast
  have "(map (\<lambda>j. if j \<in> I then Some (chunks MAX_FRAGMENT_BODY raw ! j) else None)
         [0..<length (chunks MAX_FRAGMENT_BODY raw)])[i := Some (chunks MAX_FRAGMENT_BODY raw ! i)]
      = map (\<lambda>j. if j \<in> insert i I then Some (chunks MAX_FRAGMENT_BODY raw ! j) else None)
         [0..<length (chunks MAX_FRAGMENT_BODY raw)]"
    by (rule nth_equalityI) (use assms(2) in \<open>auto simp: nth_list_update\<close>)
  with fin assms(3) show ?thesis
    by (simp add: partial_assembly_def Let_def add.commute)
qed

lemma accept_first:
  assumes frg: "fragmented raw" and "i < length (chunks MAX_FRAGMENT_BODY raw)"
    and "map_of (re_assemblies r) (s, message_id sha raw) = None"
    and "length (chunks MAX_FRAGMENT_BODY raw) \<le> max_fragments (re_config r)"
    and "length (re_assemblies r) < max_pending (re_config r)"
    and "(case map_of (re_pending_per_sender r) s of None \<Rightarrow> 0 | Some n \<Rightarrow> n)
           < max_pending_per_sender (re_config r)"
    and "length raw \<le> max_reassembled_bytes (re_config r)"
  shows "accept sha now s (fragments_of sha raw ! i) r = Some (Progress,
    r\<lparr>re_assemblies := AList.update (s, message_id sha raw) (partial_assembly raw {i} now now)
         (re_assemblies r),
       re_pending_per_sender := AList.update s
         ((case map_of (re_pending_per_sender r) s of None \<Rightarrow> 0 | Some n \<Rightarrow> n) + 1)
         (re_pending_per_sender r)\<rparr>)"
proof -
  let ?cs = "chunks MAX_FRAGMENT_BODY raw"
  have slots: "(replicate (length ?cs) None)[i := Some (?cs ! i)]
      = map (\<lambda>j. if j \<in> {i} then Some (?cs ! j) else None) [0..<length ?cs]"
    by (rule nth_equalityI) (use assms(2) in \<open>auto simp: nth_list_update\<close>)
  have "length (?cs ! i) \<le> length raw"
    using bytes_le [of "{i}" raw] assms(2) by simp
  moreover have "(word_of_nat (length ?cs) :: u8) \<noteq> 1"
    using count_nat [OF frg] frg [unfolded fragmented_def] by (metis One_nat_def Suc_1 not_less_eq_eq order_refl unsigned_1)
  ultimately show ?thesis
    using assms
    by (simp add: accept_def accept_new_def Let_def fields count_nat slots
        partial_assembly_def not_less not_le)
qed

lemma accept_more:
  assumes frg: "fragmented raw"
    and st: "map_of (re_assemblies r) (s, message_id sha raw) = Some (partial_assembly raw I c p)"
    and I: "I \<subseteq> {..<length (chunks MAX_FRAGMENT_BODY raw)}"
    and i: "i < length (chunks MAX_FRAGMENT_BODY raw)"
    and fits: "length raw \<le> max_reassembled_bytes (re_config r)"
  shows "accept sha now s (fragments_of sha raw ! i) r =
    (let r' = r\<lparr>re_assemblies := AList.update (s, message_id sha raw)
                 (partial_assembly raw (insert i I) c now) (re_assemblies r)\<rparr>
     in if i \<in> I then Some (DuplicateIgnored, r)
        else if insert i I = {..<length (chunks MAX_FRAGMENT_BODY raw)}
        then Some (complete sha (s, message_id sha raw) r')
        else Some (Progress, r'))"
proof -
  let ?cs = "chunks MAX_FRAGMENT_BODY raw"
  let ?a = "partial_assembly raw I c p"
  have fin: "finite I" using I finite_subset by blast
  have cnt: "as_count ?a = word_of_nat (length ?cs)" and len: "length (as_fragments ?a) = length ?cs"
    and slot: "as_fragments ?a ! i = (if i \<in> I then Some (?cs ! i) else None)"
    using i by (simp_all add: partial_assembly_def Let_def)
  show ?thesis
  proof (cases "i \<in> I")
    case True
    then show ?thesis
      using i st frg by (simp add: accept_def accept_existing_def Let_def fields cnt len slot)
  next
    case False
    have bytes: "as_total_bytes ?a + length (?cs ! i) \<le> length raw"
      using bytes_le [of "insert i I" raw] I i False fin
      by (simp add: partial_assembly_def Let_def add.commute)
    have recv: "as_received (partial_assembly raw (insert i I) c now) = length ?cs
        \<longleftrightarrow> insert i I = {..<length ?cs}"
      using card_eq_all [of "insert i I" "length ?cs"] I i
      by (simp add: partial_assembly_def Let_def)
    have cnt': "unat (as_count (partial_assembly raw (insert i I) c now)) = length ?cs"
      using count_nat [OF frg] by (simp add: partial_assembly_def Let_def)
    have "accept sha now s (fragments_of sha raw ! i) r
        = accept_existing sha now (s, message_id sha raw) ?a (fragments_of sha raw ! i) r"
      using st i frg by (simp add: accept_def fields)
    also have "\<dots> = (let r' = r\<lparr>re_assemblies := AList.update (s, message_id sha raw)
          (partial_assembly raw (insert i I) c now) (re_assemblies r)\<rparr>
        in if insert i I = {..<length ?cs} then Some (complete sha (s, message_id sha raw) r')
           else Some (Progress, r'))"
    proof -
      have store: "accept_existing sha now (s, message_id sha raw) ?a (fragments_of sha raw ! i) r
          = (let r' = r\<lparr>re_assemblies := AList.update (s, message_id sha raw)
               (partial_assembly raw (insert i I) c now) (re_assemblies r)\<rparr>
             in if as_received (partial_assembly raw (insert i I) c now)
                   = unat (as_count (partial_assembly raw (insert i I) c now))
                then Some (complete sha (s, message_id sha raw) r') else Some (Progress, r'))"
      proof (rule accept_existing_store [where idx = i])
        show "partial_assembly raw (insert i I) c now = ?a\<lparr>
            as_total_bytes := as_total_bytes ?a + length (ff_body (fragments_of sha raw ! i)),
            as_fragments := (as_fragments ?a)[i := Some (ff_body (fragments_of sha raw ! i))],
            as_received := as_received ?a + 1, as_last_progress := now\<rparr>"
          unfolding fields [OF frg i] by (rule partial_insert [OF I i False, symmetric])
        show "as_total_bytes ?a + length (ff_body (fragments_of sha raw ! i))
            \<le> max_reassembled_bytes (re_config r)"
          unfolding fields [OF frg i] using fits bytes by linarith
      qed (use False i frg in \<open>simp_all add: fields cnt len slot\<close>)
      show ?thesis unfolding store cnt' recv ..
    qed
    finally show ?thesis using False by (simp only: Let_def if_False)
  qed
qed

lemma complete_full:
  assumes "map_of (re_assemblies r) (s, message_id sha raw)
      = Some (partial_assembly raw {..<length (chunks MAX_FRAGMENT_BODY raw)} c p)"
  shows "complete sha (s, message_id sha raw) r
    = (Complete raw, discard (s, message_id sha raw) r)"
proof -
  let ?cs = "chunks MAX_FRAGMENT_BODY raw"
  have "as_fragments (partial_assembly raw {..<length ?cs} c p) = map Some ?cs"
    by (rule nth_equalityI) (simp_all add: partial_assembly_def Let_def)
  then have "concat_slots (as_fragments (partial_assembly raw {..<length ?cs} c p)) = Some raw"
    by (simp add: concat_slots_Some concat_chunks frame_consts)
  with assms show ?thesis
    by (simp add: complete_def Let_def message_id_def)
qed

text \<open>Arrivals given by fragment index.\<close>

definition arrivals :: "(bytes \<Rightarrow> bytes) \<Rightarrow> bytes \<Rightarrow> (instant \<times> nat) list
    \<Rightarrow> (instant \<times> FragmentFrame) list" where
  "arrivals sha raw xs = map (\<lambda>(t, i). (t, fragments_of sha raw ! i)) xs"

lemma accept_seq_rest:
  assumes "fragmented raw"
    and "map_of (re_assemblies r) (s, message_id sha raw) = Some (partial_assembly raw I c p)"
    and "length raw \<le> max_reassembled_bytes (re_config r)"
    and "I \<union> snd ` set xs \<union> {j} = {..<length (chunks MAX_FRAGMENT_BODY raw)}"
    and "j \<notin> I \<union> snd ` set xs"
  shows "\<exists>outs r'.
    accept_seq sha s (arrivals sha raw (xs @ [(t, j)])) r = Some (outs @ [Complete raw], r')
    \<and> set outs \<subseteq> {Progress, DuplicateIgnored}
    \<and> map_of (re_assemblies r') = (map_of (re_assemblies r))((s, message_id sha raw) := None)"
  using assms
proof (induction xs arbitrary: I c p r)
  case Nil
  let ?n = "length (chunks MAX_FRAGMENT_BODY raw)"
  from Nil.prems(4) have I: "I \<subseteq> {..<?n}" and j: "j < ?n" and all: "insert j I = {..<?n}" by auto
  let ?r = "r\<lparr>re_assemblies := AList.update (s, message_id sha raw)
    (partial_assembly raw {..<?n} c t) (re_assemblies r)\<rparr>"
  have "accept sha t s (fragments_of sha raw ! j) r
      = Some (Complete raw, discard (s, message_id sha raw) ?r)"
    using accept_more [OF Nil.prems(1,2) I j Nil.prems(3), of t] Nil.prems(5) all
      complete_full [of ?r s sha raw c t] by (simp add: Let_def)
  then show ?case by (simp add: arrivals_def fun_eq_iff)
next
  case (Cons x xs)
  obtain u i where x: "x = (u, i)" by (cases x)
  let ?n = "length (chunks MAX_FRAGMENT_BODY raw)"
  let ?r = "r\<lparr>re_assemblies := AList.update (s, message_id sha raw)
    (partial_assembly raw (insert i I) c u) (re_assemblies r)\<rparr>"
  from Cons.prems(4) x have I: "I \<subseteq> {..<?n}" and i: "i < ?n" by auto
  from Cons.prems(4,5) x have part: "insert i I \<noteq> {..<?n}" by auto
  note acc = accept_more [OF Cons.prems(1,2) I i Cons.prems(3), of u]
  show ?case
  proof (cases "i \<in> I")
    case True
    have "\<exists>outs r'.
      accept_seq sha s (arrivals sha raw (xs @ [(t, j)])) r = Some (outs @ [Complete raw], r')
      \<and> set outs \<subseteq> {Progress, DuplicateIgnored}
      \<and> map_of (re_assemblies r') = (map_of (re_assemblies r))((s, message_id sha raw) := None)"
      by (rule Cons.IH [where I = I and c = c and p = p]) (use Cons.prems x True in auto)
    with True acc show ?thesis by (fastforce simp: arrivals_def x)
  next
    case False
    have "\<exists>outs r'.
      accept_seq sha s (arrivals sha raw (xs @ [(t, j)])) ?r = Some (outs @ [Complete raw], r')
      \<and> set outs \<subseteq> {Progress, DuplicateIgnored}
      \<and> map_of (re_assemblies r') = (map_of (re_assemblies ?r))((s, message_id sha raw) := None)"
      by (rule Cons.IH [where I = "insert i I" and c = c and p = u]) (use Cons.prems x in auto)
    then obtain outs r' where rest:
      "accept_seq sha s (arrivals sha raw (xs @ [(t, j)])) ?r = Some (outs @ [Complete raw], r')"
      "set outs \<subseteq> {Progress, DuplicateIgnored}"
      "map_of (re_assemblies r') = (map_of (re_assemblies r))((s, message_id sha raw) := None)"
      by auto
    have "accept sha u s (fragments_of sha raw ! i) r = Some (Progress, ?r)"
      unfolding acc Let_def using False part by (simp only: if_False)
    with rest(1) have "accept_seq sha s (arrivals sha raw ((x # xs) @ [(t, j)])) r
        = Some ((Progress # outs) @ [Complete raw], r')"
      by (simp add: arrivals_def x)
    moreover have "set (Progress # outs) \<subseteq> {Progress, DuplicateIgnored}" using rest(2) by simp
    ultimately show ?thesis using rest(3) by blast
  qed
qed

lemma arrivals_index:
  assumes "fragmented raw" and "snd ` set arr \<subseteq> set (fragments_of sha raw)"
  shows "arrivals sha raw (map (\<lambda>(t, f). (t, unat (ff_index f))) arr) = arr"
proof -
  have "fragments_of sha raw ! unat (ff_index f) = f \<and> unat (ff_index f) < length (fragments_of sha raw)"
    if "f \<in> set (fragments_of sha raw)" for f
    using that assms(1) by (auto simp: in_set_conv_nth nth_fragments_of index_nat)
  with assms(2) show ?thesis
    by (induction arr) (auto simp: arrivals_def)
qed

lemma fragments_of_indices:
  assumes "fragmented raw"
  shows "(\<lambda>f. unat (ff_index f)) ` set (fragments_of sha raw)
    = {..<length (chunks MAX_FRAGMENT_BODY raw)}"
  using assms by (force simp: set_conv_nth nth_fragments_of index_nat image_iff)

lemma fragment_index_inj:
  assumes "fragmented raw"
  shows "inj_on (\<lambda>f. unat (ff_index f)) (set (fragments_of sha raw))"
  using assms by (auto simp: inj_on_def in_set_conv_nth nth_fragments_of index_nat)

section \<open>Progress, bounds and isolation\<close>

lemma complete_config: "re_config (snd (complete sha k r)) = re_config r"
  by (simp add: complete_def Let_def split: option.splits)

lemma accept_config: "accept sha now s f r = Some (out, r') \<Longrightarrow> re_config r' = re_config r"
  using complete_config [of sha "(s, ff_message_id f)"]
  by (auto simp: accept_def accept_new_def accept_existing_def Let_def
      split: option.splits if_splits dest!: arg_cong [where f = snd] arg_cong [where f = re_config])

lemma fold_discard_config [simp]: "re_config (fold discard ks r) = re_config r"
  by (induction ks arbitrary: r) auto

lemma sweep_config [simp]: "re_config (snd (sweep_expired now r)) = re_config r"
  by (simp add: sweep_expired_def Let_def)

lemma new_config [simp]: "re_config (new_reassembler cfg) = cfg"
  by (simp add: new_reassembler_def)

lemma clear_config [simp]: "re_config (clear r) = re_config r"
  by (simp add: clear_def)

lemma accept_total_fragment:
  assumes "reassembler_ok r" and "fragment_ok f"
  shows "\<exists>out r'. accept sha now s f r = Some (out, r')"
proof (cases "map_of (re_assemblies r) (s, ff_message_id f)")
  case None
  from assms(2) have "unat (ff_index f) < unat (ff_count f)" by (simp add: fragment_ok_def)
  with None show ?thesis by (auto simp: accept_def accept_new_def Let_def split: prod.splits)
next
  case (Some a)
  have "assembly_ok (re_config r) a" using assms(1) Some by (rule reassembler_okD)
  with assms(2) have "as_count a = ff_count f \<Longrightarrow> unat (ff_index f) < length (as_fragments a)"
    by (simp add: assembly_ok_def fragment_ok_def)
  with Some show ?thesis
    by (auto simp: accept_def accept_existing_def Let_def split: option.splits prod.splits)
qed

lemma sum_list_le_bound:
  "(\<And>x. x \<in> set xs \<Longrightarrow> f x \<le> (b :: nat)) \<Longrightarrow> sum_list (map f xs) \<le> length xs * b"
  by (induction xs) (auto intro: add_mono)

lemma buffered_bytes_le:
  assumes "reassembler_ok r"
  shows "buffered_bytes r \<le> max_pending (re_config r) * max_reassembled_bytes (re_config r)"
proof -
  have "buffered_bytes r \<le> length (re_assemblies r) * max_reassembled_bytes (re_config r)"
    unfolding buffered_bytes_def
    by (rule sum_list_le_bound) (use assms in \<open>auto simp: reassembler_ok_def assembly_ok_def\<close>)
  also have "\<dots> \<le> max_pending (re_config r) * max_reassembled_bytes (re_config r)"
    using reassembler_okD(5) [OF assms] by (rule mult_le_mono1)
  finally show ?thesis .
qed

lemma complete_Complete:
  assumes "complete sha k r = (Complete b, r')"
  obtains a where "map_of (re_assemblies r) k = Some a" and "concat_slots (as_fragments a) = Some b"
    and "take MESSAGE_ID_LEN (sha b) = snd k"
  using assms by (auto simp: complete_def Let_def split: option.splits if_splits)

lemma length_concat_slots: "concat_slots fs = Some b \<Longrightarrow> length b = sum_list (map slot_len fs)"
  by (induction fs arbitrary: b rule: concat_slots.induct) (auto simp: slot_len_def)

lemma accept_other_key:
  assumes "accept sha now s f r = Some (out, r')" and "k \<noteq> (s, ff_message_id f)"
  shows "map_of (re_assemblies r') k = map_of (re_assemblies r) k"
proof -
  have cmp: "map_of (re_assemblies x') k = map_of (re_assemblies x) k"
    if "complete sha (s, ff_message_id f) x = (out, x')" for x x'
    using that assms(2)
    by (auto simp: complete_def Let_def split: option.splits if_splits)
  from assms show ?thesis
    by (auto simp: accept_def accept_new_def accept_existing_def Let_def
        split: option.splits if_splits dest!: cmp)
qed

lemma map_of_fold_discard:
  "map_of (re_assemblies (fold discard ks r)) =
     (\<lambda>k. if k \<in> set ks then None else map_of (re_assemblies r) k)"
  by (induction ks arbitrary: r) (auto simp: fun_eq_iff)

subsection \<open>Any order of arrival\<close>

lemma reassembly_completes:
  assumes "encode_frames sha raw = Ok frames" and "MAX_SINGLE_BODY < length raw"
    and "set (map snd (arr @ [(t, f)])) = set (fragments_of sha raw)" and "f \<notin> set (map snd arr)"
    and "map_of (re_assemblies r) (s, message_id sha raw) = None"
    and "length (fragments_of sha raw) \<le> max_fragments (re_config r)"
    and "length (re_assemblies r) < max_pending (re_config r)"
    and "(case map_of (re_pending_per_sender r) s of None \<Rightarrow> 0 | Some n \<Rightarrow> n)
           < max_pending_per_sender (re_config r)"
    and "length raw \<le> max_reassembled_bytes (re_config r)"
  shows "\<exists>outs r'. accept_seq sha s (arr @ [(t, f)]) r = Some (outs @ [Complete raw], r')
    \<and> set outs \<subseteq> {Progress, DuplicateIgnored}
    \<and> map_of (re_assemblies r') = map_of (re_assemblies r)"
proof -
  let ?ix = "\<lambda>f. unat (ff_index f)"
  let ?n = "length (chunks MAX_FRAGMENT_BODY raw)"
  have frg: "fragmented raw"
    using assms(1) by (cases rule: encode_frames_Ok_cases) (use assms(2) in \<open>auto simp: fragmented_def\<close>)
  let ?xs = "map (\<lambda>(t, f). (t, ?ix f)) arr"
  have arr: "arrivals sha raw (?xs @ [(t, ?ix f)]) = arr @ [(t, f)]"
    using arrivals_index [OF frg, of "arr @ [(t, f)]" sha] assms(3) by auto
  have all: "snd ` set ?xs \<union> {?ix f} = {..<?n}"
  proof -
    have "snd ` set ?xs \<union> {?ix f} = ?ix ` set (map snd (arr @ [(t, f)]))"
      by (auto simp: image_image case_prod_beta)
    then show ?thesis by (simp only: assms(3) fragments_of_indices [OF frg])
  qed
  have fresh: "?ix f \<notin> snd ` set ?xs"
    using fragment_index_inj [OF frg, of sha] assms(3,4)
    by (auto simp: inj_on_def image_image case_prod_beta image_iff)
  have "?xs \<noteq> []"
  proof
    assume "?xs = []"
    with all have "{..<?n} = {?ix f}" by simp
    then have "?n = 1" by (metis card_lessThan is_singletonI is_singleton_altdef)
    with frg show False by (simp add: fragmented_def)
  qed
  then obtain u i ys where xs: "?xs = (u, i) # ys" by (metis neq_Nil_conv surj_pair)
  with all have i: "i < ?n" by auto
  let ?r = "r\<lparr>re_assemblies := AList.update (s, message_id sha raw) (partial_assembly raw {i} u u)
       (re_assemblies r),
     re_pending_per_sender := AList.update s
       ((case map_of (re_pending_per_sender r) s of None \<Rightarrow> 0 | Some n \<Rightarrow> n) + 1)
       (re_pending_per_sender r)\<rparr>"
  have first: "accept sha u s (fragments_of sha raw ! i) r = Some (Progress, ?r)"
    using assms i by (intro accept_first [OF frg]) simp_all
  have "\<exists>outs r'.
    accept_seq sha s (arrivals sha raw (ys @ [(t, ?ix f)])) ?r = Some (outs @ [Complete raw], r')
    \<and> set outs \<subseteq> {Progress, DuplicateIgnored}
    \<and> map_of (re_assemblies r') = (map_of (re_assemblies ?r))((s, message_id sha raw) := None)"
    by (rule accept_seq_rest [OF frg, of ?r s sha "{i}" u u ys "?ix f" t])
      (use assms(9) all fresh xs in auto)
  then obtain outs r' where
    "accept_seq sha s (arrivals sha raw (ys @ [(t, ?ix f)])) ?r = Some (outs @ [Complete raw], r')"
    "set outs \<subseteq> {Progress, DuplicateIgnored}"
    "map_of (re_assemblies r') = (map_of (re_assemblies ?r))((s, message_id sha raw) := None)"
    by blast
  with first xs arr assms(5) show ?thesis
    by (intro exI [of _ "Progress # outs"] exI [of _ r']) (auto simp: arrivals_def fun_upd_idem)
qed

lemma accept_parsed:
  assumes "reassembler_ok r" and "parse_frame p = Ok (Fragment f)"
  shows "\<exists>out r'. accept sha now s f r = Some (out, r')
    \<and> (\<forall>b. out = Complete b \<longrightarrow>
         take MESSAGE_ID_LEN (sha b) = ff_message_id f
         \<and> length b \<le> max_reassembled_bytes (re_config r)
         \<and> map_of (re_assemblies r') (s, ff_message_id f) = None)"
proof -
  from assms(2) have f: "fragment_ok f" by (rule parse_frame_fragment_ok)
  from accept_total_fragment [OF assms(1) f] obtain out r' where
    acc: "accept sha now s f r = Some (out, r')" by blast
  have "take MESSAGE_ID_LEN (sha b) = ff_message_id f
      \<and> length b \<le> max_reassembled_bytes (re_config r)
      \<and> map_of (re_assemblies r') (s, ff_message_id f) = None" if "out = Complete b" for b
  proof (cases "map_of (re_assemblies r) (s, ff_message_id f)")
    case None
    with acc that f show ?thesis
      by (auto simp: accept_def accept_new_def Let_def fragment_ok_def split: if_splits)
  next
    case (Some a)
    have a: "assembly_ok (re_config r) a" using assms(1) Some by (rule reassembler_okD)
    from acc that Some obtain r1 where
      *: "unat (ff_index f) < length (as_fragments a)" "as_fragments a ! unat (ff_index f) = None"
      "as_total_bytes a + length (ff_body f) \<le> max_reassembled_bytes (re_config r)"
      "complete sha (s, ff_message_id f) r1 = (Complete b, r')"
      "\<exists>a'. map_of (re_assemblies r1) (s, ff_message_id f) = Some a' \<and>
         as_fragments a' = (as_fragments a)[unat (ff_index f) := Some (ff_body f)]"
      by (auto simp: accept_def accept_existing_def Let_def not_le not_less
          split: option.splits if_splits)
    from *(4) obtain a' where a': "map_of (re_assemblies r1) (s, ff_message_id f) = Some a'"
      "concat_slots (as_fragments a') = Some b" "take MESSAGE_ID_LEN (sha b) = ff_message_id f"
      by (auto elim: complete_Complete)
    have "length b = as_total_bytes a + length (ff_body f)"
      using a a' *(1,2,5) by (auto simp: length_concat_slots slot_bytes_update assembly_ok_def)
    moreover have "r' = discard (s, ff_message_id f) r1"
      using snd_complete [OF a'(1), of sha] *(4) by simp
    ultimately show ?thesis using a'(3) *(3) by simp
  qed
  with acc show ?thesis by blast
qed

subsection \<open>Any arrivals at all\<close>

lemma update_update: "AList.update k v' (AList.update k v al) = AList.update k v' al"
  by (induction al) auto

lemma delete_update_absent: "map_of al k = None \<Longrightarrow> AList.delete k (AList.update k v al) = al"
proof (induction al)
  case (Cons p al)
  then show ?case by (cases p) (auto simp: AList.delete_eq split: if_splits)
qed (simp add: AList.delete_eq)

definition sender_pending :: "Reassembler \<Rightarrow> u32 \<Rightarrow> nat" where
  "sender_pending r s = (case map_of (re_pending_per_sender r) s of None \<Rightarrow> 0 | Some n \<Rightarrow> n)"

text \<open>A state reached from \<open>r0\<close> when of one payload exactly the fragments \<open>I\<close> are held.\<close>

definition assembling :: "(bytes \<Rightarrow> bytes) \<Rightarrow> u32 \<Rightarrow> bytes \<Rightarrow> Reassembler \<Rightarrow> nat set \<Rightarrow> Reassembler \<Rightarrow> bool" where
  "assembling sha s raw r0 I r \<longleftrightarrow> re_config r = re_config r0 \<and>
     (if I = {} then re_assemblies r = re_assemblies r0 \<and> sender_pending r s = sender_pending r0 s
      else sender_pending r s = sender_pending r0 s + 1 \<and>
        (\<exists>c p. re_assemblies r = AList.update (s, message_id sha raw) (partial_assembly raw I c p) (re_assemblies r0)))"

lemma discard_sender_pending:
  "map_of (re_assemblies r) (s, mid) = Some a \<Longrightarrow> sender_pending (discard (s, mid) r) s = sender_pending r s - 1"
  by (auto simp: sender_pending_def discard_def Let_def split: option.splits)

lemma accept_assembling:
  assumes frg: "fragmented raw" and absent: "map_of (re_assemblies r0) (s, message_id sha raw) = None"
    and room: "length (chunks MAX_FRAGMENT_BODY raw) \<le> max_fragments (re_config r0)"
      "length (re_assemblies r0) < max_pending (re_config r0)"
      "sender_pending r0 s < max_pending_per_sender (re_config r0)"
      "length raw \<le> max_reassembled_bytes (re_config r0)"
    and I: "I \<subset> {..<length (chunks MAX_FRAGMENT_BODY raw)}" and i: "i < length (chunks MAX_FRAGMENT_BODY raw)"
    and st: "assembling sha s raw r0 I r"
  shows "\<exists>out r'. accept sha now s (fragments_of sha raw ! i) r = Some (out, r') \<and>
    (if insert i I = {..<length (chunks MAX_FRAGMENT_BODY raw)}
     then out = Complete raw \<and> assembling sha s raw r0 {} r'
     else out \<in> {Progress, DuplicateIgnored} \<and> assembling sha s raw r0 (insert i I) r')"
proof (cases "I = {}")
  case True
  have "{i} \<noteq> {..<length (chunks MAX_FRAGMENT_BODY raw)}"
    using frg by (metis card_lessThan fragmented_def is_singletonI is_singleton_altdef numeral_le_one_iff semiring_norm(69))
  moreover have "accept sha now s (fragments_of sha raw ! i) r = Some (Progress,
      r\<lparr>re_assemblies := AList.update (s, message_id sha raw) (partial_assembly raw {i} now now) (re_assemblies r),
        re_pending_per_sender := AList.update s (sender_pending r s + 1) (re_pending_per_sender r)\<rparr>)"
    using st True room absent i unfolding sender_pending_def
    by (intro accept_first [OF frg]) (auto simp: assembling_def sender_pending_def)
  ultimately show ?thesis using st True by (auto simp: assembling_def sender_pending_def)
next
  case False
  let ?key = "(s, message_id sha raw)"
  let ?n = "length (chunks MAX_FRAGMENT_BODY raw)"
  from st False obtain c p where r: "re_config r = re_config r0" "sender_pending r s = sender_pending r0 s + 1"
    "re_assemblies r = AList.update ?key (partial_assembly raw I c p) (re_assemblies r0)"
    by (auto simp: assembling_def)
  define r1 where "r1 = r\<lparr>re_assemblies := AList.update ?key (partial_assembly raw (insert i I) c now) (re_assemblies r)\<rparr>"
  have r1: "re_assemblies r1 = AList.update ?key (partial_assembly raw (insert i I) c now) (re_assemblies r0)"
    "re_config r1 = re_config r0" "sender_pending r1 s = sender_pending r0 s + 1"
    using r by (simp_all add: r1_def update_update sender_pending_def)
  have acc: "accept sha now s (fragments_of sha raw ! i) r =
      (if i \<in> I then Some (DuplicateIgnored, r)
       else if insert i I = {..<?n} then Some (complete sha ?key r1) else Some (Progress, r1))"
    using accept_more [OF frg _ psubset_imp_subset [OF I] i, of r s sha c p now] r(1,3) room(4)
    by (simp add: r1_def Let_def)
  show ?thesis
  proof (cases "i \<in> I")
    case True
    then show ?thesis using acc I st by (auto simp: insert_absorb)
  next
    case new: False
    show ?thesis
    proof (cases "insert i I = {..<?n}")
      case True
      have at: "map_of (re_assemblies r1) ?key = Some (partial_assembly raw {..<?n} c now)" using r1(1) True by simp
      have "assembling sha s raw r0 {} (discard ?key r1)"
        using discard_sender_pending [OF at] r1 absent by (simp add: assembling_def delete_update_absent)
      then show ?thesis using acc new True complete_full [OF at] by simp
    next
      case False
      then show ?thesis using acc new r1 by (auto simp: assembling_def)
    qed
  qed
qed

section \<open>Where the held fragments come from\<close>

text \<open>Every filled slot of a stored assembly holds the body of a fragment that has the property \<open>P\<close> for its key.\<close>

definition slot_from :: "(key \<Rightarrow> FragmentFrame \<Rightarrow> bool) \<Rightarrow> key \<Rightarrow> u8 \<Rightarrow> nat \<Rightarrow> bytes \<Rightarrow> bool" where
  "slot_from P k n i body \<longleftrightarrow>
     (\<exists>f. P k f \<and> ff_message_id f = snd k \<and> unat (ff_index f) = i \<and> ff_count f = n \<and> ff_body f = body)"

definition slots_from :: "(key \<Rightarrow> FragmentFrame \<Rightarrow> bool) \<Rightarrow> Reassembler \<Rightarrow> bool" where
  "slots_from P r \<longleftrightarrow>
     (\<forall>k a i body. map_of (re_assemblies r) k = Some a \<longrightarrow> i < length (as_fragments a) \<longrightarrow>
        as_fragments a ! i = Some body \<longrightarrow> slot_from P k (as_count a) i body)"

lemma slots_fromD:
  "slots_from P r \<Longrightarrow> map_of (re_assemblies r) k = Some a \<Longrightarrow> i < length (as_fragments a) \<Longrightarrow>
   as_fragments a ! i = Some body \<Longrightarrow> slot_from P k (as_count a) i body"
  unfolding slots_from_def by blast

lemma slots_from_new: "slots_from P (new_reassembler cfg)"
  by (simp add: slots_from_def new_reassembler_def)

lemma slots_from_discard: "slots_from P r \<Longrightarrow> slots_from P (discard k r)"
  by (auto simp: slots_from_def split: if_splits)

lemma slots_from_sweep: "slots_from P r \<Longrightarrow> slots_from P (snd (sweep_expired now r))"
proof -
  have "slots_from P r \<Longrightarrow> slots_from P (fold discard ks r)" for ks
    by (induction ks arbitrary: r) (auto intro: slots_from_discard)
  then show "slots_from P r \<Longrightarrow> slots_from P (snd (sweep_expired now r))" by (simp add: sweep_expired_def Let_def)
qed

lemma slots_from_mono: "slots_from P r \<Longrightarrow> (\<And>k f. P k f \<Longrightarrow> Q k f) \<Longrightarrow> slots_from Q r"
  unfolding slots_from_def slot_from_def by meson

lemma concat_slots_eq: "concat_slots fs = Some buf \<Longrightarrow> \<exists>bs. fs = map Some bs \<and> buf = concat bs"
proof (induction fs arbitrary: buf rule: concat_slots.induct)
  case (3 b fs)
  then obtain rest bs where "buf = b @ rest" "fs = map Some bs" "rest = concat bs" by auto
  then show ?case by (intro exI [of _ "b # bs"]) simp
qed auto

text \<open>A payload made of such fragments: one for each index, in order.\<close>

definition made_from :: "(bytes \<Rightarrow> bytes) \<Rightarrow> (FragmentFrame \<Rightarrow> bool) \<Rightarrow> bytes \<Rightarrow> bool" where
  "made_from sha Q raw \<longleftrightarrow>
     (\<exists>fs. concat (map ff_body fs) = raw \<and>
        (\<forall>i < length fs. Q (fs ! i) \<and> ff_message_id (fs ! i) = message_id sha raw \<and>
           unat (ff_index (fs ! i)) = i \<and> unat (ff_count (fs ! i)) = length fs))"

lemma made_from_mono:
  assumes "made_from sha Q raw" and "\<And>f. Q f \<Longrightarrow> R f"
  shows "made_from sha R raw"
proof -
  obtain fs where "concat (map ff_body fs) = raw" "\<forall>i < length fs. Q (fs ! i) \<and>
      ff_message_id (fs ! i) = message_id sha raw \<and> unat (ff_index (fs ! i)) = i \<and> unat (ff_count (fs ! i)) = length fs"
    using assms(1) unfolding made_from_def by blast
  then show ?thesis using assms(2) unfolding made_from_def by (intro exI [of _ fs]) simp
qed

lemma complete_made_from:
  assumes "complete sha k r = (Complete raw, r')" and "slots_from P r"
    and "\<And>a. map_of (re_assemblies r) k = Some a \<Longrightarrow> length (as_fragments a) = unat (as_count a)"
  shows "made_from sha (P k) raw"
proof -
  obtain a where a: "map_of (re_assemblies r) k = Some a" "concat_slots (as_fragments a) = Some raw"
    "take MESSAGE_ID_LEN (sha raw) = snd k" using assms(1) by (auto elim: complete_Complete)
  obtain bs where bs: "as_fragments a = map Some bs" "raw = concat bs" using concat_slots_eq [OF a(2)] by blast
  have "\<forall>i < length bs. slot_from P k (as_count a) i (bs ! i)"
    using slots_fromD [OF assms(2) a(1)] bs(1) by simp
  then obtain g where g: "\<forall>i < length bs. P k (g i) \<and> ff_message_id (g i) = snd k \<and> unat (ff_index (g i)) = i \<and>
      ff_count (g i) = as_count a \<and> ff_body (g i) = bs ! i" unfolding slot_from_def by metis
  have "map ff_body (map g [0..<length bs]) = bs" using g by (intro nth_equalityI) simp_all
  then have "concat (map ff_body (map g [0..<length bs])) = raw" using bs(2) by simp
  then show ?thesis using g a(3) assms(3) [OF a(1)] bs(1) unfolding made_from_def
    by (intro exI [of _ "map g [0..<length bs]"]) (simp add: message_id_def)
qed

lemma slots_from_store:
  assumes "slots_from P r" and "P k f" and "ff_message_id f = snd k" and "as_count a' = ff_count f"
    and "as_fragments a' = fs[unat (ff_index f) := Some (ff_body f)]"
    and "\<And>i body. i < length fs \<Longrightarrow> fs ! i = Some body \<Longrightarrow> slot_from P k (ff_count f) i body"
    and "re_assemblies r' = AList.update k a' (re_assemblies r)"
  shows "slots_from P r'"
  unfolding slots_from_def
proof (intro allI impI)
  fix k' a i body
  assume *: "map_of (re_assemblies r') k' = Some a" "i < length (as_fragments a)" "as_fragments a ! i = Some body"
  show "slot_from P k' (as_count a) i body"
  proof (cases "k' = k")
    case True
    then have a: "a = a'" using *(1) assms(7) by simp
    show ?thesis
    proof (cases "i = unat (ff_index f)")
      case True
      then show ?thesis using *(2,3) a \<open>k' = k\<close> assms(2-5) by (auto simp: slot_from_def)
    next
      case False
      then show ?thesis using *(2,3) a \<open>k' = k\<close> assms(4-6) by simp
    qed
  next
    case False
    then show ?thesis using * slots_fromD [OF assms(1)] assms(7) by simp
  qed
qed

lemma accept_from:
  assumes ok: "reassembler_ok r" and held: "slots_from P r" and f: "P (s, ff_message_id f) f"
    and acc: "accept sha now s f r = Some (out, r')"
  shows "slots_from P r' \<and> (\<forall>raw. out = Complete raw \<longrightarrow> made_from sha (P (s, ff_message_id f)) raw)"
proof -
  let ?k = "(s, ff_message_id f)"
  have finish: "slots_from P (discard ?k r1) \<and> (\<forall>raw. fst (complete sha ?k r1) = Complete raw \<longrightarrow> made_from sha (P ?k) raw)"
    if "slots_from P r1" "map_of (re_assemblies r1) ?k = Some a" "length (as_fragments a) = unat (as_count a)" for r1 a
    using that slots_from_discard complete_made_from [of sha ?k r1 _ _ P] by (metis option.inject prod.collapse)
  show ?thesis
  proof (cases "map_of (re_assemblies r) ?k")
    case None
    define a where "a = \<lparr>as_count = ff_count f,
       as_fragments = (replicate (unat (ff_count f)) None)[unat (ff_index f) := Some (ff_body f)],
       as_received = 1, as_total_bytes = length (ff_body f), as_created_at = now, as_last_progress = now\<rparr>"
    define r1 where "r1 = r\<lparr>re_assemblies := AList.update ?k a (re_assemblies r),
       re_pending_per_sender := AList.update s
         ((case map_of (re_pending_per_sender r) s of None \<Rightarrow> 0 | Some n \<Rightarrow> n) + 1) (re_pending_per_sender r)\<rparr>"
    have r1: "slots_from P r1"
      by (rule slots_from_store [OF held f, of a "replicate (unat (ff_count f)) None"]) (simp_all add: a_def r1_def)
    have a1: "map_of (re_assemblies r1) ?k = Some a" "length (as_fragments a) = unat (as_count a)"
      by (simp_all add: r1_def a_def)
    from acc None consider "r' = r" "\<forall>raw. out \<noteq> Complete raw" | "(out, r') = complete sha ?k r1" | "out = Progress" "r' = r1"
      by (auto simp: accept_def accept_new_def Let_def a_def r1_def split: if_splits)
    then show ?thesis
    proof cases
      case 2
      then show ?thesis using finish [OF r1 a1] snd_complete [OF a1(1), of sha] by (metis fst_conv snd_conv)
    qed (use held r1 in auto)
  next
    case (Some a)
    have len: "length (as_fragments a) = unat (as_count a)"
      using reassembler_okD(3) [OF ok Some] by (simp add: assembly_ok_def)
    define a' where "a' = a\<lparr>as_total_bytes := as_total_bytes a + length (ff_body f),
       as_fragments := (as_fragments a)[unat (ff_index f) := Some (ff_body f)],
       as_received := as_received a + 1, as_last_progress := now\<rparr>"
    define r1 where "r1 = r\<lparr>re_assemblies := AList.update ?k a' (re_assemblies r)\<rparr>"
    from acc Some consider "r' = r \<or> r' = discard ?k r" "\<forall>raw. out \<noteq> Complete raw"
      | "as_count a = ff_count f" "(out, r') = complete sha ?k r1" | "as_count a = ff_count f" "out = Progress" "r' = r1"
      by (auto simp: accept_def accept_existing_def Let_def a'_def r1_def split: if_splits option.splits)
    moreover have "slots_from P r1" if "as_count a = ff_count f"
      by (rule slots_from_store [OF held f, of a' "as_fragments a"])
        (use that slots_fromD [OF held Some] in \<open>simp_all add: a'_def r1_def\<close>)
    moreover have a1: "map_of (re_assemblies r1) ?k = Some a'" "length (as_fragments a') = unat (as_count a')"
      using len by (simp_all add: r1_def a'_def)
    ultimately show ?thesis
    proof cases
      case 2
      then show ?thesis using finish [OF _ a1] \<open>as_count a = ff_count f \<Longrightarrow> slots_from P r1\<close>
          snd_complete [OF a1(1), of sha] by (metis fst_conv snd_conv)
    qed (use held slots_from_discard in auto)
  qed
qed

section \<open>Properties\<close>

text \<open>a fragmented payload is reassembled from its fragments in whatever order they arrive
  and however often they are repeated before the last missing one. Every earlier fragment is
  either progress or an ignored duplicate, the last missing one completes with exactly the
  payload bytes, and afterwards the pending assemblies are the ones there were before.\<close>

lemma reassembly_any_order:
  assumes "encode_frames sha raw = Ok frames" and "MAX_SINGLE_BODY < length raw"
    and "set (map snd (arr @ [(t, f)])) = set (fragments_of sha raw)" and "f \<notin> set (map snd arr)"
    and "map_of (re_assemblies r) (s, message_id sha raw) = None"
    and "length (fragments_of sha raw) \<le> max_fragments (re_config r)"
    and "length (re_assemblies r) < max_pending (re_config r)"
    and "(case map_of (re_pending_per_sender r) s of None \<Rightarrow> 0 | Some n \<Rightarrow> n)
           < max_pending_per_sender (re_config r)"
    and "length raw \<le> max_reassembled_bytes (re_config r)"
  shows "\<exists>outs r'. accept_seq sha s (arr @ [(t, f)]) r = Some (outs @ [Complete raw], r')
    \<and> set outs \<subseteq> {Progress, DuplicateIgnored}
    \<and> map_of (re_assemblies r') = map_of (re_assemblies r)"
  using assms by (rule reassembly_completes)

lemma reach_ok:
  assumes "reassembler_reach sha cfg r"
  shows "reassembler_ok r" and "re_config r = cfg"
proof -
  from assms have "reassembler_ok r \<and> re_config r = cfg"
    by (induction rule: reassembler_reach.induct)
      (auto intro: new_reassembler_ok accept_ok sweep_expired_ok clear_ok dest: accept_config)
  then show "reassembler_ok r" "re_config r = cfg" by simp_all
qed

text \<open>C18: in every state the reassembler can reach from its construction by accepting fragments,
  sweeping and clearing, its invariant holds (well-formed incomplete assemblies, exact
  per-sender accounting, configured limits), and the bytes buffered over all senders are
  bounded by the product of the two configured limits.\<close>

theorem reassembler_invariant:
  assumes "reassembler_reach sha cfg r"
  shows "reassembler_ok r
    \<and> buffered_bytes r \<le> max_pending cfg * max_reassembled_bytes cfg"
  using reach_ok [OF assms] buffered_bytes_le [of r] by simp

text \<open>a fragment that passed the frame parser never makes the reassembler panic, and a
  completed payload is within the size limit and hashes to the message id of its fragments.\<close>

lemma accept_sound:
  assumes "reassembler_ok r" and "parse_frame p = Ok (Fragment f)"
  shows "\<exists>out r'. accept sha now s f r = Some (out, r')
    \<and> (\<forall>b. out = Complete b \<longrightarrow>
         take MESSAGE_ID_LEN (sha b) = ff_message_id f
         \<and> length b \<le> max_reassembled_bytes (re_config r)
         \<and> map_of (re_assemblies r') (s, ff_message_id f) = None)"
  using assms by (rule accept_parsed)

text \<open>assemblies are isolated. A fragment of another sender, or with another message id,
  never changes what is stored for a key.\<close>

lemma accept_isolated:
  assumes "accept sha now s f r = Some (out, r')" and "k \<noteq> (s, ff_message_id f)"
  shows "map_of (re_assemblies r') k = map_of (re_assemblies r) k"
  using assms by (rule accept_other_key)

text \<open>a sweep removes exactly the assemblies past their idle or absolute timeout, keeps the
  others untouched and reports how many it removed.\<close>

lemma sweep_expired_exact:
  assumes "reassembler_ok r" and "sweep_expired now r = (n, r')"
  shows "map_of (re_assemblies r') k =
      (case map_of (re_assemblies r) k of
         None \<Rightarrow> None
       | Some a \<Rightarrow> if expired (re_config r) now a then None else Some a)
    \<and> n = card {k. \<exists>a. map_of (re_assemblies r) k = Some a \<and> expired (re_config r) now a}"
proof -
  let ?m = "re_assemblies r" and ?ex = "\<lambda>a. expired (re_config r) now a"
  let ?ks = "map fst (filter (\<lambda>(_, a). ?ex a) ?m)"
  have hm: "hashmap_ok ?m" using assms(1) by (rule reassembler_okD)
  have r': "r' = fold discard ?ks r" and n: "n = length ?ks"
    using assms(2) by (auto simp: sweep_expired_def Let_def)
  have mem: "x \<in> set ?ks \<longleftrightarrow> (\<exists>a. map_of ?m x = Some a \<and> ?ex a)" for x
    using hm by (force simp: map_of_eq_iff_mem)
  have "distinct ?ks"
    using hm by (auto simp: hashmap_ok_def distinct_map intro: inj_on_subset)
  then have "n = card (set ?ks)" by (simp only: n distinct_card)
  also have "set ?ks = {k. \<exists>a. map_of ?m k = Some a \<and> ?ex a}" using mem by blast
  finally have "n = card {k. \<exists>a. map_of ?m k = Some a \<and> ?ex a}" .
  moreover have "map_of (re_assemblies r') k =
      (case map_of ?m k of None \<Rightarrow> None | Some a \<Rightarrow> if ?ex a then None else Some a)"
    unfolding r' map_of_fold_discard using mem by (auto split: option.splits)
  ultimately show ?thesis by simp
qed

end
