(* ===== verification/StdText.thy ===== *)
theory StdText
  imports Prelude
begin

text \<open>
  The parts of the Rust standard library the sources use on text: trimming, lower case, prefixes,
  splitting, decimal numbers and UTF-8. A \<open>str\<close> is the list of its bytes as characters; trimming and
  lower case are those of ASCII text.
\<close>

section \<open>Strings\<close>

text \<open>\<open>str::trim\<close> on ASCII text.\<close>

definition ascii_space :: "char \<Rightarrow> bool" where
  "ascii_space c \<longleftrightarrow> (let n = of_char c :: nat in n = 32 \<or> 9 \<le> n \<and> n \<le> 13)"

definition trim :: "string \<Rightarrow> string" where
  "trim s = rev (dropWhile ascii_space (rev (dropWhile ascii_space s)))"

text \<open>\<open>to_lowercase\<close> on ASCII text.\<close>

definition ascii_lower :: "string \<Rightarrow> string" where
  "ascii_lower s = map (\<lambda>c. let n = of_char c :: nat in if 65 \<le> n \<and> n \<le> 90 then char_of (n + 32) else c) s"

text \<open>\<open>strip_prefix\<close> and \<open>split_once\<close> on a single character.\<close>

definition strip_prefix :: "string \<Rightarrow> string \<Rightarrow> string option" where
  "strip_prefix p s = (if take (length p) s = p then Some (drop (length p) s) else None)"

definition split_once :: "char \<Rightarrow> string \<Rightarrow> (string \<times> string) option" where
  "split_once c s = (case dropWhile (\<lambda>d. d \<noteq> c) s of [] \<Rightarrow> None | _ # r \<Rightarrow> Some (takeWhile (\<lambda>d. d \<noteq> c) s, r))"

definition strip_prefix_0x :: "string \<Rightarrow> string" where
  "strip_prefix_0x s = (if take 2 s = ''0x'' then drop 2 s else s)"

section \<open>UTF-8\<close>

text \<open>\<open>String::from_utf8\<close>: well-formed UTF-8, by the number of bytes of each character.\<close>

definition utf8_cont :: "nat \<Rightarrow> nat \<Rightarrow> u8 \<Rightarrow> bool" where
  "utf8_cont lo hi b \<longleftrightarrow> lo \<le> unat b \<and> unat b \<le> hi"

fun valid_utf8 :: "bytes \<Rightarrow> bool" where
  "valid_utf8 [] = True"
| "valid_utf8 (a # bs) =
     (let n = unat a in
      if n < 0x80 then valid_utf8 bs
      else if 0xC2 \<le> n \<and> n \<le> 0xDF
      then (case bs of b # r \<Rightarrow> utf8_cont 0x80 0xBF b \<and> valid_utf8 r | _ \<Rightarrow> False)
      else if 0xE0 \<le> n \<and> n \<le> 0xEF
      then (case bs of
              b # c # r \<Rightarrow>
                utf8_cont (if n = 0xE0 then 0xA0 else 0x80) (if n = 0xED then 0x9F else 0xBF) b \<and>
                utf8_cont 0x80 0xBF c \<and> valid_utf8 r
            | _ \<Rightarrow> False)
      else if 0xF0 \<le> n \<and> n \<le> 0xF4
      then (case bs of
              b # c # d # r \<Rightarrow>
                utf8_cont (if n = 0xF0 then 0x90 else 0x80) (if n = 0xF4 then 0x8F else 0xBF) b \<and>
                utf8_cont 0x80 0xBF c \<and> utf8_cont 0x80 0xBF d \<and> valid_utf8 r
            | _ \<Rightarrow> False)
      else False)"

definition from_utf8 :: "bytes \<Rightarrow> string option" where
  "from_utf8 bs = (if valid_utf8 bs then Some (map (\<lambda>b. char_of (unat b)) bs) else None)"

text \<open>\<open>String::from_utf8_lossy\<close>: a well-formed character is kept, a maximal ill-formed start of one becomes
  U+FFFD. \<open>utf8_chunk\<close> tells which of the two comes first, and its length.\<close>

definition utf8_chunk :: "bytes \<Rightarrow> bool \<times> nat" where
  "utf8_chunk bs =
     (case bs of
        [] \<Rightarrow> (False, 1)
      | a # bs \<Rightarrow>
          let n = unat a in
          if n < 0x80 then (True, 1)
          else if 0xC2 \<le> n \<and> n \<le> 0xDF
          then (case bs of b # _ \<Rightarrow> if utf8_cont 0x80 0xBF b then (True, 2) else (False, 1) | _ \<Rightarrow> (False, 1))
          else if 0xE0 \<le> n \<and> n \<le> 0xEF
          then (case bs of
                  b # r \<Rightarrow>
                    if utf8_cont (if n = 0xE0 then 0xA0 else 0x80) (if n = 0xED then 0x9F else 0xBF) b
                    then (case r of c # _ \<Rightarrow> if utf8_cont 0x80 0xBF c then (True, 3) else (False, 2) | _ \<Rightarrow> (False, 2))
                    else (False, 1)
                | _ \<Rightarrow> (False, 1))
          else if 0xF0 \<le> n \<and> n \<le> 0xF4
          then (case bs of
                  b # r \<Rightarrow>
                    if utf8_cont (if n = 0xF0 then 0x90 else 0x80) (if n = 0xF4 then 0x8F else 0xBF) b
                    then (case r of
                            c # q \<Rightarrow>
                              if utf8_cont 0x80 0xBF c
                              then (case q of d # _ \<Rightarrow> if utf8_cont 0x80 0xBF d then (True, 4) else (False, 3) | _ \<Rightarrow> (False, 3))
                              else (False, 2)
                          | _ \<Rightarrow> (False, 2))
                    else (False, 1)
                | _ \<Rightarrow> (False, 1))
          else (False, 1))"

definition REPLACEMENT :: bytes where
  "REPLACEMENT = [0xEF, 0xBF, 0xBD]"

lemma utf8_chunk_pos: "0 < snd (utf8_chunk bs)"
  by (auto simp: utf8_chunk_def Let_def split: list.splits)

function from_utf8_lossy :: "bytes \<Rightarrow> bytes" where
  "from_utf8_lossy bs =
     (if bs = [] then []
      else let (ok, n) = utf8_chunk bs in
           (if ok then take n bs else REPLACEMENT) @ from_utf8_lossy (drop n bs))"
  by pat_completeness auto
termination
proof (relation "measure length")
  fix bs :: bytes and x :: "bool \<times> nat" and ok n
  assume a: "bs \<noteq> []" "x = utf8_chunk bs" "(ok, n) = x"
  then have "0 < n" using utf8_chunk_pos [of bs] by (metis snd_conv)
  then show "(drop n bs, bs) \<in> measure length" using a(1) by simp
qed simp

declare from_utf8_lossy.simps [simp del]

section \<open>Numbers\<close>

text \<open>\<open>str::parse\<close> of an unsigned integer: an optional plus sign and decimal digits, below a bound.\<close>

fun parse_digits :: "nat \<Rightarrow> string \<Rightarrow> nat option" where
  "parse_digits acc [] = Some acc"
| "parse_digits acc (c # cs) =
     (let n = of_char c :: nat in
      if 48 \<le> n \<and> n \<le> 57 then parse_digits (acc * 10 + (n - 48)) cs else None)"

definition parse_unsigned :: "nat \<Rightarrow> string \<Rightarrow> nat option" where
  "parse_unsigned bound s =
     (let digits = (case s of c # cs \<Rightarrow> if c = CHR ''+'' then cs else s | [] \<Rightarrow> s)
      in if digits = [] then None
         else case parse_digits 0 digits of
                None \<Rightarrow> None
              | Some n \<Rightarrow> if n < bound then Some n else None)"

section \<open>Lemmas\<close>

lemma trim_id: "(\<forall>c \<in> set s. \<not> ascii_space c) \<Longrightarrow> trim s = s"
proof -
  assume a: "\<forall>c \<in> set s. \<not> ascii_space c"
  have id: "dropWhile ascii_space t = t" if "\<forall>c \<in> set t. \<not> ascii_space c" for t
    using that by (cases t) auto
  show ?thesis using a by (simp add: trim_def id)
qed

lemma parse_digits_append:
  "parse_digits acc (xs @ ys) = (case parse_digits acc xs of None \<Rightarrow> None | Some a \<Rightarrow> parse_digits a ys)"
  by (induction acc xs rule: parse_digits.induct) (auto simp: Let_def)

lemma digit_char: "d < 10 \<Longrightarrow> (of_char (char_of (48 + d :: nat)) :: nat) = 48 + d"
  by simp

lemma parse_show: "parse_digits 0 (show_nat n) = Some n"
proof (induction n rule: show_nat.induct)
  case (1 n)
  show ?case
  proof (cases "n < 10")
    case True
    then show ?thesis by (subst show_nat.simps) (simp add: Let_def)
  next
    case False
    then show ?thesis using 1 by (subst show_nat.simps) (simp add: parse_digits_append Let_def)
  qed
qed

lemma show_nat_nonempty: "show_nat n \<noteq> []"
  by (subst show_nat.simps) simp

lemma show_nat_hd: "hd (show_nat n) \<noteq> CHR ''+''"
proof (induction n rule: show_nat.induct)
  case (1 n)
  show ?case
  proof (cases "n < 10")
    case True
    have "char_of (48 + n) \<noteq> CHR ''+''"
    proof
      assume "char_of (48 + n) = CHR ''+''"
      then have "(of_char (char_of (48 + n)) :: nat) = of_char (CHR ''+'')" by (simp only:)
      then show False using digit_char [OF True] by simp
    qed
    then show ?thesis using True by (subst show_nat.simps) simp
  next
    case False
    then show ?thesis using 1 show_nat_nonempty by (subst show_nat.simps) (simp add: hd_append)
  qed
qed

lemma as_bytes_roundtrip: "map (\<lambda>b. char_of (unat b)) (as_bytes s) = s"
proof -
  have "char_of (unat (word_of_nat (of_char c) :: u8)) = c" for c :: char
  proof -
    have "(of_char c :: nat) < 256" by (metis nat_of_char_less_256)
    then have "unat (word_of_nat (of_char c) :: u8) = of_char c" by (simp add: unat_of_nat)
    then show ?thesis by simp
  qed
  then show ?thesis by (induction s) (auto simp: as_bytes_def)
qed

lemma from_utf8_as_bytes: "valid_utf8 (as_bytes s) \<Longrightarrow> from_utf8 (as_bytes s) = Some s"
  by (simp add: from_utf8_def as_bytes_roundtrip)

lemma valid_utf8_ascii: "\<forall>b\<in>set bs. unat b < 0x80 \<Longrightarrow> valid_utf8 bs"
  by (induction bs) (auto simp: Let_def)

lemma show_nat_digits: "c \<in> set (show_nat n) \<Longrightarrow> (of_char c :: nat) < 0x80"
proof (induction n arbitrary: c rule: show_nat.induct)
  case (1 n)
  have d: "(of_char (char_of (48 + m mod 10 :: nat)) :: nat) < 128" for m :: nat
    using digit_char [of "m mod 10"] by simp
  show ?case
  proof (cases "n < 10")
    case True
    then show ?thesis using "1.prems" d [of n] by (subst (asm) show_nat.simps) auto
  next
    case False
    have "c \<in> set (show_nat (n div 10)) \<or> c = char_of (48 + n mod 10)"
      using "1.prems" False by (subst (asm) show_nat.simps) auto
    then show ?thesis using "1.IH" [OF False] d [of n] by auto
  qed
qed

lemma valid_utf8_show: "valid_utf8 (as_bytes (show_nat n))"
proof (rule valid_utf8_ascii, rule ballI)
  fix b assume "b \<in> set (as_bytes (show_nat n))"
  then obtain c where "c \<in> set (show_nat n)" and b: "b = word_of_nat (of_char c)"
    by (auto simp: as_bytes_def)
  from show_nat_digits [OF this(1)] show "unat b < 0x80" unfolding b by (simp add: unat_of_nat)
qed

lemma parse_unsigned_show: "n < bound \<Longrightarrow> parse_unsigned bound (show_nat n) = Some n"
proof -
  assume "n < bound"
  moreover have "(case show_nat n of c # cs \<Rightarrow> if c = CHR ''+'' then cs else show_nat n | [] \<Rightarrow> show_nat n) = show_nat n"
    using show_nat_hd [of n] by (auto split: list.splits)
  ultimately show ?thesis using show_nat_nonempty [of n] by (simp add: parse_unsigned_def Let_def parse_show)
qed

lemma strip_prefix_append [simp]: "strip_prefix p (p @ s) = Some s"
  by (simp add: strip_prefix_def)

lemma strip_prefix_Some: "strip_prefix p s = Some r \<longleftrightarrow> s = p @ r"
  by (auto simp: strip_prefix_def) (metis append_take_drop_id)

lemma split_once_Some: "c \<notin> set a \<Longrightarrow> split_once c (a @ c # b) = Some (a, b)"
proof -
  assume "c \<notin> set a"
  then have "dropWhile (\<lambda>d. d \<noteq> c) (a @ c # b) = c # b" "takeWhile (\<lambda>d. d \<noteq> c) (a @ c # b) = a"
    by (induction a) auto
  then show ?thesis by (simp add: split_once_def)
qed

lemma split_once_None: "c \<notin> set s \<Longrightarrow> split_once c s = None"
  unfolding split_once_def by (subst dropWhile_eq_Nil_conv [THEN iffD2]) auto

text \<open>A first byte determines the length of its character, and what a chunk says of the validity of the whole.\<close>

lemma utf8_lead [case_names one two three four bad]:
  obtains "unat (a :: u8) < 0x80" | "0xC2 \<le> unat a" "unat a \<le> 0xDF" | "0xE0 \<le> unat a" "unat a \<le> 0xEF"
    | "0xF0 \<le> unat a" "unat a \<le> 0xF4"
    | "\<not> unat a < 0x80" "\<not> (0xC2 \<le> unat a \<and> unat a \<le> 0xDF)" "\<not> (0xE0 \<le> unat a \<and> unat a \<le> 0xEF)"
      "\<not> (0xF0 \<le> unat a \<and> unat a \<le> 0xF4)"
  by argo

lemma utf8_chunk_both:
  assumes "bs \<noteq> []" and "utf8_chunk bs = (ok, n)"
  shows "(ok \<longrightarrow> (\<forall>ys. valid_utf8 (take n bs @ ys) = valid_utf8 ys)) \<and> (valid_utf8 bs \<longrightarrow> ok \<and> valid_utf8 (drop n bs))"
proof -
  obtain a r where bs: "bs = a # r" using assms(1) by (cases bs) auto
  show ?thesis
  proof (cases a rule: utf8_lead)
    case one
    then show ?thesis using assms(2) by (auto simp: bs utf8_chunk_def Let_def)
  next
    case two
    then have "\<not> unat a < 0x80" by simp
    with two show ?thesis using assms(2) by (cases r) (auto simp: bs utf8_chunk_def Let_def split: if_splits)
  next
    case three
    then have "\<not> unat a < 0x80" "\<not> unat a \<le> 0xDF" by simp_all
    with three show ?thesis using assms(2)
      by (cases r; cases "tl r") (simp_all add: bs utf8_chunk_def Let_def split: if_split_asm)
  next
    case four
    then have "\<not> unat a < 0x80" "\<not> unat a \<le> 0xDF" "\<not> unat a \<le> 0xEF" by simp_all
    with four show ?thesis using assms(2)
      by (cases r; cases "tl r"; cases "tl (tl r)") (simp_all add: bs utf8_chunk_def Let_def split: if_split_asm)
  next
    case bad
    then show ?thesis using assms(2) by (auto simp: bs utf8_chunk_def Let_def)
  qed
qed

lemma utf8_chunk_True: "utf8_chunk bs = (True, n) \<Longrightarrow> bs \<noteq> [] \<Longrightarrow> valid_utf8 (take n bs @ ys) = valid_utf8 ys"
  using utf8_chunk_both by blast

lemma utf8_chunk_valid: "valid_utf8 bs \<Longrightarrow> bs \<noteq> [] \<Longrightarrow> \<exists>n. utf8_chunk bs = (True, n) \<and> valid_utf8 (drop n bs)"
  using utf8_chunk_both [of bs] by (cases "utf8_chunk bs") auto

lemma replacement_valid: "valid_utf8 (REPLACEMENT @ ys) = valid_utf8 ys"
  by (simp add: REPLACEMENT_def Let_def utf8_cont_def)

text \<open>Lossy decoding gives well-formed text, and changes nothing in well-formed text.\<close>

lemma lossy_valid: "valid_utf8 (from_utf8_lossy bs)"
proof (induction bs rule: from_utf8_lossy.induct)
  case (1 bs)
  obtain ok n where "utf8_chunk bs = (ok, n)" by fastforce
  then show ?case using 1 utf8_chunk_True [of bs n]
    by (cases "bs = []") (simp_all add: from_utf8_lossy.simps [of bs] from_utf8_lossy.simps [of "[]"] replacement_valid)
qed

lemma lossy_id: "valid_utf8 bs \<Longrightarrow> from_utf8_lossy bs = bs"
proof (induction bs rule: from_utf8_lossy.induct)
  case (1 bs)
  show ?case
  proof (cases "bs = []")
    case False
    obtain n where n: "utf8_chunk bs = (True, n)" "valid_utf8 (drop n bs)"
      using utf8_chunk_valid [OF 1(2) False] by blast
    then show ?thesis using 1(1) [OF False, of _ True n] False by (simp add: from_utf8_lossy.simps [of bs])
  qed (simp add: from_utf8_lossy.simps)
qed

end
