(* ===== verification/Protocol.thy ===== *)
theory Protocol
  imports StdText
begin

text \<open>
  The Connectivity Protocol layer: \<open>crates/edge/src/protocol/mod.rs\<close> and the envelope types of
  \<open>crates/edge/src/protocol/generated/crypto.v1.rs\<close>.

  Code the repository only calls is a parameter: \<open>vrf sig msg pub\<close> is Ed25519 verification,
  \<open>sign\<close> and \<open>pub\<close> are signing and key derivation of \<open>sp_core\<close>, \<open>sha\<close> is SHA-256, \<open>dec\<close> and
  \<open>enc\<close> are the generated protobuf decoder and encoder, \<open>hex_enc\<close>/\<open>hex_dec\<close> the \<open>hex\<close> crate and
  \<open>ss58_dec\<close>/\<open>ss58_enc\<close> the SS58 codec. What is assumed of them is named where it is used
  (\<open>ed25519_ok\<close>, \<open>hex_ok\<close>). Error messages of those libraries are the strings they return.
  Text is a list of (ASCII) characters.
\<close>

section \<open>Constants, errors and wire types\<close>

definition SENSOR_ID_LEN :: nat where
  "SENSOR_ID_LEN = 32"

definition SIGNATURE_LEN :: nat where
  "SIGNATURE_LEN = 64"

definition SENSOR_SS58_PREFIX :: nat where
  "SENSOR_SS58_PREFIX = 32"

definition DEFAULT_NONCE_LEN :: nat where
  "DEFAULT_NONCE_LEN = 16"

definition MIN_NONCE_LEN :: nat where
  "MIN_NONCE_LEN = 16"

definition MAX_NONCE_LEN :: nat where
  "MAX_NONCE_LEN = 32"

lemmas protocol_consts = SENSOR_ID_LEN_def SIGNATURE_LEN_def SENSOR_SS58_PREFIX_def
  DEFAULT_NONCE_LEN_def MIN_NONCE_LEN_def MAX_NONCE_LEN_def

datatype ProtocolError =
    Decode string
  | BadSignature
  | SensorIdLen nat
  | SensorKey
  | SignatureLen nat
  | NonceLen nat
  | EmptyMessage
  | Hex string

fun exit_code :: "ProtocolError \<Rightarrow> int" where
  "exit_code BadSignature = 1"
| "exit_code (Decode _) = 2"
| "exit_code (SensorIdLen _) = 2"
| "exit_code SensorKey = 2"
| "exit_code (SignatureLen _) = 2"
| "exit_code (NonceLen _) = 2"
| "exit_code EmptyMessage = 2"
| "exit_code (Hex _) = 3"

fun show_protocol_error :: "ProtocolError \<Rightarrow> string" where
  "show_protocol_error (Decode e) = ''malformed envelope: '' @ e"
| "show_protocol_error BadSignature = ''invalid signature''"
| "show_protocol_error (SensorIdLen n) =
     ''invalid sensor_id length: expected '' @ show_nat SENSOR_ID_LEN @ '', got '' @ show_nat n"
| "show_protocol_error SensorKey = ''invalid sensor_id public key''"
| "show_protocol_error (SignatureLen n) =
     ''invalid signature length: expected '' @ show_nat SIGNATURE_LEN @ '', got '' @ show_nat n"
| "show_protocol_error (NonceLen n) =
     ''invalid nonce length: expected '' @ show_nat MIN_NONCE_LEN @ ''..='' @ show_nat MAX_NONCE_LEN
     @ '', got '' @ show_nat n"
| "show_protocol_error EmptyMessage = ''empty message''"
| "show_protocol_error (Hex e) = ''invalid hex: '' @ e"

record SignedEnvelope =
  env_sensor_id :: bytes
  env_nonce :: bytes
  env_message :: bytes
  env_signature :: bytes

type_synonym SignedEnvelopeBatch = "SignedEnvelope list"

section \<open>Sensor identities\<close>

datatype SensorId = SensorId (sensor_bytes: bytes)

definition from_slice :: "bytes \<Rightarrow> ProtocolError + SensorId" where
  "from_slice bs =
     (if length bs = SENSOR_ID_LEN then Ok (SensorId bs) else Err (SensorIdLen (length bs)))"

definition strip_0x :: "string \<Rightarrow> ProtocolError + string" where
  "strip_0x s =
     (if take 2 s = ''0x'' then Ok (drop 2 s)
      else Err (Hex (''hex value must be `0x`-prefixed, got: '' @ s)))"

definition sensor_to_hex :: "(bytes \<Rightarrow> string) \<Rightarrow> SensorId \<Rightarrow> string" where
  "sensor_to_hex hex_enc i = ''0x'' @ hex_enc (sensor_bytes i)"

definition sensor_from_hex ::
  "(string \<Rightarrow> string + bytes) \<Rightarrow> string \<Rightarrow> ProtocolError + SensorId" where
  "sensor_from_hex hex_dec s =
     (case strip_0x (trim s) of
        Err e \<Rightarrow> Err e
      | Ok digits \<Rightarrow>
          (case hex_dec digits of
             Err e \<Rightarrow> Err (Hex e)
           | Ok bs \<Rightarrow> from_slice bs))"

definition sensor_from_ss58 ::
  "(string \<Rightarrow> string + bytes \<times> nat) \<Rightarrow> (nat \<Rightarrow> string) \<Rightarrow> string \<Rightarrow> ProtocolError + SensorId" where
  "sensor_from_ss58 ss58_dec fmt_name address =
     (case ss58_dec (trim address) of
        Err e \<Rightarrow> Err (Hex (''invalid ss58 address: '' @ e))
      | Ok (account, format) \<Rightarrow>
          if format \<noteq> SENSOR_SS58_PREFIX
          then Err (Hex (''unexpected ss58 prefix: expected 32, got '' @ fmt_name format))
          else Ok (SensorId account))"

section \<open>Envelope identifiers, encoding and verification\<close>

datatype EnvelopeId = EnvelopeId (envelope_digest: bytes)

definition envelope_id :: "(bytes \<Rightarrow> bytes) \<Rightarrow> bytes \<Rightarrow> EnvelopeId" where
  "envelope_id sha bs = EnvelopeId (sha bs)"

definition decode_envelope ::
  "(bytes \<Rightarrow> string + SignedEnvelope) \<Rightarrow> bytes \<Rightarrow> ProtocolError + SignedEnvelope" where
  "decode_envelope dec bs = (case dec bs of Err e \<Rightarrow> Err (Decode e) | Ok e \<Rightarrow> Ok e)"

definition signing_payload :: "SignedEnvelope \<Rightarrow> bytes" where
  "signing_payload e = env_sensor_id e @ env_nonce e @ env_message e"

definition validate_envelope :: "SignedEnvelope \<Rightarrow> ProtocolError + SensorId" where
  "validate_envelope e =
     (case from_slice (env_sensor_id e) of
        Err err \<Rightarrow> Err err
      | Ok sid \<Rightarrow>
          if length (env_signature e) \<noteq> SIGNATURE_LEN
          then Err (SignatureLen (length (env_signature e)))
          else if length (env_nonce e) < MIN_NONCE_LEN \<or> length (env_nonce e) > MAX_NONCE_LEN
          then Err (NonceLen (length (env_nonce e)))
          else if env_message e = [] then Err EmptyMessage
          else Ok sid)"

record VerifiedEnvelope =
  ve_sensor_id :: SensorId
  ve_envelope :: SignedEnvelope

definition verify_envelope ::
  "(bytes \<Rightarrow> bytes \<Rightarrow> bytes \<Rightarrow> bool) \<Rightarrow> SignedEnvelope \<Rightarrow> ProtocolError + VerifiedEnvelope" where
  "verify_envelope vrf e =
     (case validate_envelope e of
        Err err \<Rightarrow> Err err
      | Ok sid \<Rightarrow>
          if length (env_signature e) \<noteq> SIGNATURE_LEN
          then Err (SignatureLen (length (env_signature e)))
          else if \<not> vrf (env_signature e) (signing_payload e) (sensor_bytes sid)
          then Err BadSignature
          else Ok \<lparr>ve_sensor_id = sid, ve_envelope = e\<rparr>)"

text \<open>\<open>sign_message\<close>: \<open>rnd\<close> is the random nonce drawn when the options carry none.\<close>

definition sign_message ::
  "('k \<Rightarrow> bytes) \<Rightarrow> ('k \<Rightarrow> bytes \<Rightarrow> bytes) \<Rightarrow> bytes \<Rightarrow> 'k \<Rightarrow> bytes \<Rightarrow> bytes option \<Rightarrow> SignedEnvelope"
  where
  "sign_message pub sign rnd identity message opt_nonce =
     (let nonce = (case opt_nonce of Some n \<Rightarrow> n | None \<Rightarrow> rnd);
          e = \<lparr>env_sensor_id = sensor_bytes (SensorId (pub identity)), env_nonce = nonce,
               env_message = message, env_signature = []\<rparr>
      in e\<lparr>env_signature := sign identity (signing_payload e)\<rparr>)"

section \<open>What is assumed of the libraries\<close>

text \<open>Ed25519: a signature made with a key verifies under its public key, public keys have 32
  bytes and signatures 64.\<close>

definition ed25519_ok ::
  "('k \<Rightarrow> bytes) \<Rightarrow> ('k \<Rightarrow> bytes \<Rightarrow> bytes) \<Rightarrow> (bytes \<Rightarrow> bytes \<Rightarrow> bytes \<Rightarrow> bool) \<Rightarrow> bool" where
  "ed25519_ok pub sign vrf \<longleftrightarrow>
     (\<forall>k m. vrf (sign k m) m (pub k) \<and> length (sign k m) = 64) \<and> (\<forall>k. length (pub k) = 32)"

text \<open>The \<open>hex\<close> crate: decoding inverts encoding, and an encoding contains no white space.\<close>

definition hex_ok :: "(bytes \<Rightarrow> string) \<Rightarrow> (string \<Rightarrow> string + bytes) \<Rightarrow> bool" where
  "hex_ok hex_enc hex_dec \<longleftrightarrow>
     (\<forall>b. hex_dec (hex_enc b) = Ok b \<and> (\<forall>c \<in> set (hex_enc b). \<not> ascii_space c))"

section \<open>Lemmas\<close>

lemma from_slice_Ok [simp]: "from_slice bs = Ok i \<longleftrightarrow> i = SensorId bs \<and> length bs = 32"
  by (auto simp: from_slice_def protocol_consts)

lemma strip_0x_Ok: "strip_0x s = Ok r \<longleftrightarrow> s = ''0x'' @ r"
proof
  assume "strip_0x s = Ok r"
  then have "take 2 s = ''0x''" and "drop 2 s = r"
    by (auto simp: strip_0x_def split: if_splits)
  then show "s = ''0x'' @ r" by (metis append_take_drop_id)
qed (simp add: strip_0x_def)

lemma validate_envelope_Ok:
  "validate_envelope e = Ok i \<longleftrightarrow>
     i = SensorId (env_sensor_id e) \<and> length (env_sensor_id e) = SENSOR_ID_LEN \<and>
     length (env_signature e) = SIGNATURE_LEN \<and>
     MIN_NONCE_LEN \<le> length (env_nonce e) \<and> length (env_nonce e) \<le> MAX_NONCE_LEN \<and>
     env_message e \<noteq> []"
  by (auto simp: validate_envelope_def from_slice_def protocol_consts not_less)

text \<open>Verification succeeds exactly when the structure is valid and the signature covers
  sensor id, nonce and message under the sensor's own key.\<close>

lemma verify_envelope_Ok:
  "verify_envelope vrf e = Ok v \<longleftrightarrow>
     validate_envelope e = Ok (SensorId (env_sensor_id e)) \<and>
     vrf (env_signature e) (signing_payload e) (env_sensor_id e) \<and>
     v = \<lparr>ve_sensor_id = SensorId (env_sensor_id e), ve_envelope = e\<rparr>"
proof (cases "validate_envelope e")
  case (Inr sid)
  then have "sid = SensorId (env_sensor_id e)" and "length (env_signature e) = SIGNATURE_LEN"
    by (simp_all add: validate_envelope_Ok)
  with Inr show ?thesis by (auto simp: verify_envelope_def)
qed (simp add: verify_envelope_def)

lemma sign_message_fields [simp]:
  "env_sensor_id (sign_message pub sign rnd k m n) = pub k"
  "env_nonce (sign_message pub sign rnd k m n) = (case n of Some x \<Rightarrow> x | None \<Rightarrow> rnd)"
  "env_message (sign_message pub sign rnd k m n) = m"
  by (simp_all add: sign_message_def Let_def)

lemma sign_message_signature:
  "env_signature (sign_message pub sign rnd k m n)
     = sign k (signing_payload (sign_message pub sign rnd k m n))"
  by (simp add: sign_message_def Let_def signing_payload_def)

section \<open>Properties\<close>

text \<open>an envelope made by \<open>sign_message\<close> verifies, with the signer's identity, exactly when
  its message is not empty and its nonce has an accepted length; a generated nonce always has.\<close>

lemma sign_verify_roundtrip:
  assumes "ed25519_ok pub sign vrf" and "length rnd = DEFAULT_NONCE_LEN"
  shows "(\<exists>v. verify_envelope vrf (sign_message pub sign rnd k m n) = Ok v
            \<and> ve_sensor_id v = SensorId (pub k))
    \<longleftrightarrow> m \<noteq> [] \<and> (case n of None \<Rightarrow> True
                  | Some x \<Rightarrow> MIN_NONCE_LEN \<le> length x \<and> length x \<le> MAX_NONCE_LEN)"
  using assms
  by (auto simp: verify_envelope_Ok validate_envelope_Ok sign_message_signature ed25519_ok_def
      protocol_consts split: option.splits)

text \<open>verification is sound and reports the first violated rule. Success means the exact
  lengths, a non-empty message and a valid signature over sensor id, nonce and message; each
  failure names the rule, checked in the order sensor id, signature length, nonce, message,
  signature.\<close>

lemma verify_envelope_cases:
  "verify_envelope vrf e =
     (if length (env_sensor_id e) \<noteq> 32 then Err (SensorIdLen (length (env_sensor_id e)))
      else if length (env_signature e) \<noteq> 64 then Err (SignatureLen (length (env_signature e)))
      else if length (env_nonce e) \<notin> {16..32} then Err (NonceLen (length (env_nonce e)))
      else if env_message e = [] then Err EmptyMessage
      else if \<not> vrf (env_signature e) (env_sensor_id e @ env_nonce e @ env_message e)
                   (env_sensor_id e) then Err BadSignature
      else Ok \<lparr>ve_sensor_id = SensorId (env_sensor_id e), ve_envelope = e\<rparr>)"
  by (auto simp: verify_envelope_def validate_envelope_def from_slice_def signing_payload_def
      protocol_consts not_less not_le)

text \<open>the signed byte string does not fix where the nonce ends. Whoever holds a valid
  envelope can move the first message byte into the nonce: the altered envelope, with another
  nonce and a shortened message, still verifies under the same signature and sensor.\<close>

lemma nonce_boundary_malleable:
  assumes "verify_envelope vrf e = Ok v"
    and "env_message e = b # rest" and "rest \<noteq> []" and "length (env_nonce e) < MAX_NONCE_LEN"
  shows "verify_envelope vrf (e\<lparr>env_nonce := env_nonce e @ [b], env_message := rest\<rparr>)
    = Ok \<lparr>ve_sensor_id = ve_sensor_id v,
          ve_envelope = e\<lparr>env_nonce := env_nonce e @ [b], env_message := rest\<rparr>\<rparr>"
  using assms
  by (simp add: verify_envelope_Ok validate_envelope_Ok signing_payload_def protocol_consts)

text \<open>a sensor id survives its hexadecimal form, and a hexadecimal string is accepted only
  with the \<open>0x\<close> prefix and exactly 32 bytes.\<close>

lemma sensor_hex_roundtrip:
  assumes "hex_ok hex_enc hex_dec"
  shows "(length (sensor_bytes i) = SENSOR_ID_LEN \<longrightarrow>
           sensor_from_hex hex_dec (sensor_to_hex hex_enc i) = Ok i)
    \<and> (\<forall>s j. sensor_from_hex hex_dec s = Ok j \<longrightarrow>
           (\<exists>digits. trim s = ''0x'' @ digits \<and> hex_dec digits = Ok (sensor_bytes j))
           \<and> length (sensor_bytes j) = SENSOR_ID_LEN)"
proof (intro conjI allI impI)
  assume len: "length (sensor_bytes i) = SENSOR_ID_LEN"
  have "trim (sensor_to_hex hex_enc i) = sensor_to_hex hex_enc i"
    using assms by (intro trim_id) (auto simp: sensor_to_hex_def hex_ok_def ascii_space_def)
  with len assms show "sensor_from_hex hex_dec (sensor_to_hex hex_enc i) = Ok i"
    by (simp add: sensor_from_hex_def sensor_to_hex_def strip_0x_def hex_ok_def protocol_consts)
next
  fix s j assume "sensor_from_hex hex_dec s = Ok j"
  then show "\<exists>digits. trim s = ''0x'' @ digits \<and> hex_dec digits = Ok (sensor_bytes j)"
    and "length (sensor_bytes j) = SENSOR_ID_LEN"
    by (auto simp: sensor_from_hex_def strip_0x_Ok protocol_consts split: sum.splits)
qed

end
