(* ===== verification/Metrics.thy ===== *)
theory Metrics
  imports Prelude
begin

text \<open>
  The metric names of \<open>crates/edge/src/observability/metrics.rs\<close> and the updates the handlers
  make. A handler of the model returns the counter increments, gauge settings and histogram
  samples it performs, in order, as a list of \<open>metric\<close> values; the Prometheus recorder that
  consumes them is outside the model. Log lines (\<open>tracing\<close>) are not modelled.
\<close>

datatype metric_name =
    INGRESS_RECEIVED_TOTAL
  | VALIDATION_REJECTED_TOTAL
  | DEDUP_DROPPED_TOTAL
  | AUTH_REJECTED_TOTAL
  | AUTH_CPS_CACHE_HIT_TOTAL
  | AUTH_CPS_CACHE_MISS_TOTAL
  | AUTH_CPS_LOOKUP_ERROR_TOTAL
  | AUTH_CPS_CACHE_ENTRIES
  | AUTH_BACKPRESSURE_TOTAL
  | AUTH_PENDING
  | AUTH_LOOKUPS_IN_FLIGHT
  | PUBLISH_TOTAL
  | CONNECTED_PEERS
  | BATCHER_PENDING_MESSAGES
  | BATCHER_READY_BATCHES
  | BATCHER_OLDEST_PENDING_AGE_SECONDS
  | BATCHER_FLUSH_TOTAL
  | BATCHER_SPLIT_TOTAL
  | BATCHER_PAYLOAD_TOO_LARGE_TOTAL
  | BATCHER_SERIALIZED_BYTES
  | BATCHER_PAYLOAD_BYTES
  | BATCHER_COMPRESSION_RATIO
  | ANCHOR_SUBMISSION_TOTAL
  | ANCHOR_RETRY_TOTAL
  | ANCHOR_CONFIRMATION_TOTAL
  | ANCHOR_FAILURE_TOTAL
  | MESHTASTIC_PACKETS_RECEIVED_TOTAL
  | MESHTASTIC_PACKETS_IGNORED_TOTAL
  | MESHTASTIC_FRAMES_INVALID_TOTAL
  | MESHTASTIC_REASSEMBLY_STARTED_TOTAL
  | MESHTASTIC_REASSEMBLY_COMPLETED_TOTAL
  | MESHTASTIC_REASSEMBLY_EXPIRED_TOTAL
  | MESHTASTIC_REASSEMBLY_CONFLICT_TOTAL
  | MESHTASTIC_REASSEMBLY_OVERSIZE_TOTAL
  | MESHTASTIC_REASSEMBLY_PENDING
  | MESHTASTIC_RECONNECTS_TOTAL
  | MESHTASTIC_CONNECTION_UP

fun metric_str :: "metric_name \<Rightarrow> string" where
  "metric_str INGRESS_RECEIVED_TOTAL = ''edge_ingress_received_total''"
| "metric_str VALIDATION_REJECTED_TOTAL = ''edge_validation_rejected_total''"
| "metric_str DEDUP_DROPPED_TOTAL = ''edge_dedup_dropped_total''"
| "metric_str AUTH_REJECTED_TOTAL = ''edge_auth_rejected_total''"
| "metric_str AUTH_CPS_CACHE_HIT_TOTAL = ''edge_auth_cps_cache_hit_total''"
| "metric_str AUTH_CPS_CACHE_MISS_TOTAL = ''edge_auth_cps_cache_miss_total''"
| "metric_str AUTH_CPS_LOOKUP_ERROR_TOTAL = ''edge_auth_cps_lookup_error_total''"
| "metric_str AUTH_CPS_CACHE_ENTRIES = ''edge_auth_cps_cache_entries''"
| "metric_str AUTH_BACKPRESSURE_TOTAL = ''edge_auth_backpressure_total''"
| "metric_str AUTH_PENDING = ''edge_auth_pending''"
| "metric_str AUTH_LOOKUPS_IN_FLIGHT = ''edge_auth_lookups_in_flight''"
| "metric_str PUBLISH_TOTAL = ''edge_publish_total''"
| "metric_str CONNECTED_PEERS = ''edge_connected_peers''"
| "metric_str BATCHER_PENDING_MESSAGES = ''edge_batcher_pending_messages''"
| "metric_str BATCHER_READY_BATCHES = ''edge_batcher_ready_batches''"
| "metric_str BATCHER_OLDEST_PENDING_AGE_SECONDS = ''edge_batcher_oldest_pending_age_seconds''"
| "metric_str BATCHER_FLUSH_TOTAL = ''edge_batcher_flush_total''"
| "metric_str BATCHER_SPLIT_TOTAL = ''edge_batcher_split_total''"
| "metric_str BATCHER_PAYLOAD_TOO_LARGE_TOTAL = ''edge_batcher_payload_too_large_total''"
| "metric_str BATCHER_SERIALIZED_BYTES = ''edge_batcher_serialized_bytes''"
| "metric_str BATCHER_PAYLOAD_BYTES = ''edge_batcher_payload_bytes''"
| "metric_str BATCHER_COMPRESSION_RATIO = ''edge_batcher_compression_ratio''"
| "metric_str ANCHOR_SUBMISSION_TOTAL = ''edge_anchor_submission_total''"
| "metric_str ANCHOR_RETRY_TOTAL = ''edge_anchor_retry_total''"
| "metric_str ANCHOR_CONFIRMATION_TOTAL = ''edge_anchor_confirmation_total''"
| "metric_str ANCHOR_FAILURE_TOTAL = ''edge_anchor_failure_total''"
| "metric_str MESHTASTIC_PACKETS_RECEIVED_TOTAL = ''edge_meshtastic_packets_received_total''"
| "metric_str MESHTASTIC_PACKETS_IGNORED_TOTAL = ''edge_meshtastic_packets_ignored_total''"
| "metric_str MESHTASTIC_FRAMES_INVALID_TOTAL = ''edge_meshtastic_frames_invalid_total''"
| "metric_str MESHTASTIC_REASSEMBLY_STARTED_TOTAL = ''edge_meshtastic_reassembly_started_total''"
| "metric_str MESHTASTIC_REASSEMBLY_COMPLETED_TOTAL = ''edge_meshtastic_reassembly_completed_total''"
| "metric_str MESHTASTIC_REASSEMBLY_EXPIRED_TOTAL = ''edge_meshtastic_reassembly_expired_total''"
| "metric_str MESHTASTIC_REASSEMBLY_CONFLICT_TOTAL = ''edge_meshtastic_reassembly_conflict_total''"
| "metric_str MESHTASTIC_REASSEMBLY_OVERSIZE_TOTAL = ''edge_meshtastic_reassembly_oversize_total''"
| "metric_str MESHTASTIC_REASSEMBLY_PENDING = ''edge_meshtastic_reassembly_pending''"
| "metric_str MESHTASTIC_RECONNECTS_TOTAL = ''edge_meshtastic_reconnects_total''"
| "metric_str MESHTASTIC_CONNECTION_UP = ''edge_meshtastic_connection_up''"

text \<open>One update: a counter increment with its labels, a gauge setting (a ratio for the one
  gauge the code sets to a quotient), or a histogram sample.\<close>

datatype metric =
    Counter metric_name "(string \<times> string) list" nat
  | Gauge metric_name nat
  | GaugeRatio metric_name nat nat
  | Histogram metric_name nat

definition incr :: "metric_name \<Rightarrow> metric" where
  "incr n = Counter n [] 1"

definition incr_transport :: "metric_name \<Rightarrow> string \<Rightarrow> metric" where
  "incr_transport n t = Counter n [(''transport'', t)] 1"

text \<open>How often a counter was incremented by a list of updates, over all labels.\<close>

fun counted :: "metric_name \<Rightarrow> metric list \<Rightarrow> nat" where
  "counted n [] = 0"
| "counted n (Counter m ls k # ms) = (if m = n then k else 0) + counted n ms"
| "counted n (_ # ms) = counted n ms"

lemma counted_append [simp]: "counted n (xs @ ys) = counted n xs + counted n ys"
  by (induction n xs rule: counted.induct) auto

lemma counted_incr [simp]: "counted n [incr m] = (if m = n then 1 else 0)"
  by (simp add: incr_def)

lemma counted_incr_transport [simp]:
  "counted n [incr_transport m t] = (if m = n then 1 else 0)"
  by (simp add: incr_transport_def)

end
