(* ===== verification/Config.thy ===== *)
theory Config
  imports Frame
begin

text \<open>
  The gateway configuration: \<open>crates/edge/src/config.rs\<close> and \<open>crates/edge/src/batcher/config.rs\<close>.

  One record per section, the built-in defaults, and the semantic validation behind
  \<open>edge config check\<close> and daemon start-up. Reading the file and parsing TOML are parameters of
  \<open>config_from_file\<close>. Numbers are naturals (\<open>usize\<close>, \<open>u64\<close>) except the bit-sized \<open>port_num\<close> and the
  CPS node identifiers.
\<close>

section \<open>Sections\<close>

datatype IpAddr = V4 u8 u8 u8 u8 | V6 "128 word"

record SocketAddr =
  sa_ip :: IpAddr
  sa_port :: nat

fun is_loopback :: "IpAddr \<Rightarrow> bool" where
  "is_loopback (V4 a b c d) \<longleftrightarrow> a = 127"
| "is_loopback (V6 w) \<longleftrightarrow> w = 1"

record HttpConfig =
  http_enabled :: bool
  http_listen :: SocketAddr
  http_max_body_bytes :: nat

definition default_http :: HttpConfig where
  "default_http = \<lparr>http_enabled = True, http_listen = \<lparr>sa_ip = V4 127 0 0 1, sa_port = 3000\<rparr>,
                   http_max_body_bytes = 64 * 1024\<rparr>"

definition is_public :: "HttpConfig \<Rightarrow> bool" where
  "is_public h \<longleftrightarrow> \<not> is_loopback (sa_ip (http_listen h))"

datatype AuthMode = AuthNone | AuthWhitelist | AuthCps

record AuthConfig =
  au_mode :: AuthMode
  au_file :: "string option"
  cps_root_node_id :: "u64 option"
  cps_expected_genesis_hash :: "string option"
  cps_cache_capacity :: nat
  cps_negative_ttl_secs :: nat
  cps_query_timeout_secs :: nat
  cps_max_concurrent_lookups :: nat
  cps_max_pending :: nat

definition default_auth :: AuthConfig where
  "default_auth =
     \<lparr>au_mode = AuthNone, au_file = None, cps_root_node_id = None,
      cps_expected_genesis_hash = None, cps_cache_capacity = 8192, cps_negative_ttl_secs = 60,
      cps_query_timeout_secs = 10, cps_max_concurrent_lookups = 8, cps_max_pending = 256\<rparr>"

definition expected_genesis_hash ::
  "(string \<Rightarrow> string + bytes) \<Rightarrow> AuthConfig \<Rightarrow> string + bytes" where
  "expected_genesis_hash hex_dec a =
     (case cps_expected_genesis_hash a of
        None \<Rightarrow> Err ''auth.cps_expected_genesis_hash is required''
      | Some raw \<Rightarrow>
          if take 2 raw \<noteq> ''0x''
          then Err (''auth.cps_expected_genesis_hash must start with '' @ debug_str ''0x'')
          else (case hex_dec (drop 2 raw) of
                  Err e \<Rightarrow> Err (''auth.cps_expected_genesis_hash is not valid hex: '' @ e)
                | Ok bs \<Rightarrow>
                    if length bs = 32 then Ok bs
                    else Err ''auth.cps_expected_genesis_hash must be 32 bytes''))"

record PubsubConfig =
  ps_enabled :: bool
  ps_listen :: "string list"
  ps_topic :: string
  ps_reserved_peers :: "string list"
  ps_min_connected_peers :: nat
  ps_identity_file :: "string option"

definition default_pubsub :: PubsubConfig where
  "default_pubsub =
     \<lparr>ps_enabled = True, ps_listen = [''/ip4/0.0.0.0/tcp/64442''], ps_topic = ''sensors.social/v1'',
      ps_reserved_peers = [], ps_min_connected_peers = 0, ps_identity_file = None\<rparr>"

record MeshtasticConfig =
  mc_enabled :: bool
  mc_transport :: "string option"
  mc_device :: "string option"
  mc_port_num :: u32
  mc_max_reassembled_bytes :: nat
  mc_max_fragments :: nat
  mc_max_pending :: nat
  mc_max_pending_per_sender :: nat
  mc_reassembly_timeout_secs :: nat
  mc_reassembly_absolute_timeout_secs :: nat
  mc_reconnect_min_secs :: nat
  mc_reconnect_max_secs :: nat

definition default_meshtastic :: MeshtasticConfig where
  "default_meshtastic =
     \<lparr>mc_enabled = False, mc_transport = Some ''serial'', mc_device = Some ''/dev/ttyACM0'',
      mc_port_num = 256, mc_max_reassembled_bytes = 4096, mc_max_fragments = 16,
      mc_max_pending = 128, mc_max_pending_per_sender = 8, mc_reassembly_timeout_secs = 60,
      mc_reassembly_absolute_timeout_secs = 300, mc_reconnect_min_secs = 1,
      mc_reconnect_max_secs = 30\<rparr>"

record PinataConfig =
  pin_token_file :: "string option"

record KuboConfig =
  kubo_url :: "string option"

record IpfsConfig =
  ipfs_enabled :: bool
  ipfs_providers :: "string list"
  ipfs_durability :: "string option"
  ipfs_pinata :: "PinataConfig option"
  ipfs_kubo :: "KuboConfig option"

definition default_ipfs :: IpfsConfig where
  "default_ipfs = \<lparr>ipfs_enabled = False, ipfs_providers = [], ipfs_durability = None,
                   ipfs_pinata = None, ipfs_kubo = None\<rparr>"

record BlockchainConfig =
  bc_enabled :: bool
  bc_endpoint :: "string option"
  bc_key_file :: "string option"
  bc_node_id :: "u64 option"
  bc_retry_min_secs :: nat
  bc_retry_max_secs :: nat

definition default_blockchain :: BlockchainConfig where
  "default_blockchain =
     \<lparr>bc_enabled = False, bc_endpoint = None, bc_key_file = None, bc_node_id = None,
      bc_retry_min_secs = 1, bc_retry_max_secs = 60\<rparr>"

record StorageConfig =
  st_path :: "string option"

record MetricsConfig =
  mt_listen :: SocketAddr

definition default_metrics :: MetricsConfig where
  "default_metrics = \<lparr>mt_listen = \<lparr>sa_ip = V4 127 0 0 1, sa_port = 9090\<rparr>\<rparr>"

record PipelineConfig =
  pl_ingress_buffer :: nat
  pl_dedup_capacity :: nat
  pl_dedup_ttl_secs :: nat

definition default_pipeline :: PipelineConfig where
  "default_pipeline =
     \<lparr>pl_ingress_buffer = 1024, pl_dedup_capacity = 8192, pl_dedup_ttl_secs = 300\<rparr>"

section \<open>The batcher section\<close>

datatype Compression = CompressNone | CompressZstd

definition compression_str :: "Compression \<Rightarrow> string" where
  "compression_str c = (case c of CompressNone \<Rightarrow> ''none'' | CompressZstd \<Rightarrow> ''zstd'')"

definition MAX_PAYLOAD_SIZE :: nat where
  "MAX_PAYLOAD_SIZE = 8192"

record BatcherConfig =
  max_batch_age_secs :: nat
  max_batch_size :: nat
  max_messages :: nat
  compression :: Compression

definition default_batcher :: BatcherConfig where
  "default_batcher =
     \<lparr>max_batch_age_secs = 30, max_batch_size = MAX_PAYLOAD_SIZE, max_messages = 100,
      compression = CompressZstd\<rparr>"

definition max_batch_age :: "BatcherConfig \<Rightarrow> duration" where
  "max_batch_age c = from_secs (max_batch_age_secs c)"

definition validate_batcher :: "BatcherConfig \<Rightarrow> string + unit" where
  "validate_batcher c =
     (if max_batch_age_secs c = 0 then Err ''batcher.max_batch_age_secs must be non-zero''
      else if max_messages c = 0 then Err ''batcher.max_messages must be non-zero''
      else if max_batch_size c = 0 then Err ''batcher.max_batch_size must be non-zero''
      else if max_batch_size c > MAX_PAYLOAD_SIZE
      then Err (''batcher.max_batch_size must not exceed the CPS payload limit of ''
                @ show_nat MAX_PAYLOAD_SIZE @ '' bytes'')
      else Ok ())"

section \<open>The whole file\<close>

record Config =
  cf_http :: HttpConfig
  cf_auth :: AuthConfig
  cf_pubsub :: PubsubConfig
  cf_meshtastic :: MeshtasticConfig
  cf_ipfs :: IpfsConfig
  cf_blockchain :: BlockchainConfig
  cf_batcher :: BatcherConfig
  cf_storage :: StorageConfig
  cf_metrics :: MetricsConfig
  cf_pipeline :: PipelineConfig

definition default_config :: Config where
  "default_config =
     \<lparr>cf_http = default_http, cf_auth = default_auth, cf_pubsub = default_pubsub,
      cf_meshtastic = default_meshtastic, cf_ipfs = default_ipfs,
      cf_blockchain = default_blockchain, cf_batcher = default_batcher,
      cf_storage = \<lparr>st_path = None\<rparr>, cf_metrics = default_metrics,
      cf_pipeline = default_pipeline\<rparr>"

datatype 'io ConfigError = ConfigRead string 'io | ConfigParse string | ConfigInvalid string

definition http_open_relay :: "Config \<Rightarrow> bool" where
  "http_open_relay c \<longleftrightarrow>
     http_enabled (cf_http c) \<and> is_public (cf_http c) \<and> au_mode (cf_auth c) = AuthNone"

text \<open>The loop of \<open>validate_cps_auth\<close> over its named values.\<close>

fun reject_zero :: "(string \<times> nat) list \<Rightarrow> 'io ConfigError + unit" where
  "reject_zero [] = Ok ()"
| "reject_zero ((name, v) # rest) =
     (if v = 0 then Err (ConfigInvalid (name @ '' must be greater than zero''))
      else reject_zero rest)"

definition validate_cps_auth ::
  "(string \<Rightarrow> string + bytes) \<Rightarrow> AuthConfig \<Rightarrow> 'io ConfigError + unit" where
  "validate_cps_auth hex_dec auth =
     (if cps_root_node_id auth = None
      then Err (ConfigInvalid (''auth.mode = '' @ debug_str ''cps'' @
                               '' requires auth.cps_root_node_id''))
      else case expected_genesis_hash hex_dec auth of
             Err e \<Rightarrow> Err (ConfigInvalid e)
           | Ok _ \<Rightarrow>
               reject_zero
                 [(''auth.cps_cache_capacity'', cps_cache_capacity auth),
                  (''auth.cps_negative_ttl_secs'', cps_negative_ttl_secs auth),
                  (''auth.cps_query_timeout_secs'', cps_query_timeout_secs auth),
                  (''auth.cps_max_concurrent_lookups'', cps_max_concurrent_lookups auth),
                  (''auth.cps_max_pending'', cps_max_pending auth)])"

fun validate_providers :: "string list \<Rightarrow> 'io ConfigError + unit" where
  "validate_providers [] = Ok ()"
| "validate_providers (p # ps) =
     (if p = ''pinata'' \<or> p = ''kubo'' then validate_providers ps
      else Err (ConfigInvalid (''unknown ipfs provider '' @ debug_str p @ '' (expected '' @
             debug_str ''pinata'' @ '' or '' @ debug_str ''kubo'' @ '')'')))"

text \<open>The blocks of \<open>validate\<close>, in their order.\<close>

definition validate_ipfs :: "IpfsConfig \<Rightarrow> 'io ConfigError + unit" where
  "validate_ipfs i =
     (if \<not> ipfs_enabled i then Ok ()
      else if ipfs_providers i = []
      then Err (ConfigInvalid
             ''ipfs.enabled = true requires at least one entry in ipfs.providers'')
      else case validate_providers (ipfs_providers i) of
             Err e \<Rightarrow> Err e
           | Ok _ \<Rightarrow>
               (case ipfs_durability i of
                  None \<Rightarrow> Ok ()
                | Some policy \<Rightarrow>
                    if policy \<in> {''any'', ''all'', ''quorum''} then Ok ()
                    else Err (ConfigInvalid (''unknown ipfs.durability '' @ debug_str policy @
                           '' (expected any|all|quorum)''))))"

definition validate_meshtastic :: "MeshtasticConfig \<Rightarrow> 'io ConfigError + unit" where
  "validate_meshtastic m =
     (if \<not> mc_enabled m then Ok ()
      else case mc_transport m of
        None \<Rightarrow> Err (ConfigInvalid ''meshtastic.enabled = true requires meshtastic.transport'')
      | Some t \<Rightarrow>
          if t \<noteq> ''serial''
          then Err (ConfigInvalid (''unknown meshtastic.transport '' @ debug_str t @
                 '' (expected '' @ debug_str ''serial'' @ '')''))
          else if mc_device m = None
          then Err (ConfigInvalid ''meshtastic.enabled = true requires meshtastic.device'')
          else if mc_max_reassembled_bytes m = 0
          then Err (ConfigInvalid ''meshtastic.max_reassembled_bytes must be non-zero'')
          else if mc_max_fragments m = 0 \<or> mc_max_fragments m > MAX_FRAGMENT_COUNT
          then Err (ConfigInvalid (''meshtastic.max_fragments must be in 1..='' @
                 show_nat MAX_FRAGMENT_COUNT @ '' (Transport v1 wire limit)''))
          else if mc_max_pending m = 0
          then Err (ConfigInvalid ''meshtastic.max_pending must be non-zero'')
          else if mc_max_pending_per_sender m = 0
          then Err (ConfigInvalid ''meshtastic.max_pending_per_sender must be non-zero'')
          else if mc_reassembly_timeout_secs m = 0
          then Err (ConfigInvalid ''meshtastic.reassembly_timeout_secs must be non-zero'')
          else if mc_reassembly_absolute_timeout_secs m = 0
          then Err (ConfigInvalid ''meshtastic.reassembly_absolute_timeout_secs must be non-zero'')
          else if mc_reconnect_min_secs m = 0
          then Err (ConfigInvalid ''meshtastic.reconnect_min_secs must be non-zero'')
          else if mc_reconnect_max_secs m < mc_reconnect_min_secs m
          then Err (ConfigInvalid
                 ''meshtastic.reconnect_max_secs must be >= meshtastic.reconnect_min_secs'')
          else Ok ())"

definition validate_blockchain :: "BlockchainConfig \<Rightarrow> StorageConfig \<Rightarrow> 'io ConfigError + unit" where
  "validate_blockchain b s =
     (if \<not> bc_enabled b then Ok ()
      else if bc_key_file b = None
      then Err (ConfigInvalid ''blockchain.enabled = true requires blockchain.key_file'')
      else if bc_node_id b = None
      then Err (ConfigInvalid ''blockchain.enabled = true requires blockchain.node_id'')
      else if st_path s = None
      then Err (ConfigInvalid
             ''blockchain.enabled = true requires storage.path (durable batching)'')
      else if bc_retry_min_secs b = 0 \<or> bc_retry_max_secs b < bc_retry_min_secs b
      then Err (ConfigInvalid
             ''blockchain.retry_min_secs must be non-zero and <= blockchain.retry_max_secs'')
      else Ok ())"

definition starts_with :: "string \<Rightarrow> string \<Rightarrow> bool" where
  "starts_with pre s \<longleftrightarrow> take (length pre) s = pre"

definition validate :: "(string \<Rightarrow> string + bytes) \<Rightarrow> Config \<Rightarrow> 'io ConfigError + unit" where
  "validate hex_dec c =
     (let auth = cf_auth c in
      if (case bc_endpoint (cf_blockchain c) of
            None \<Rightarrow> False
          | Some e \<Rightarrow> \<not> (starts_with ''ws://'' e \<or> starts_with ''wss://'' e))
      then Err (ConfigInvalid ''blockchain.endpoint must be a ws:// or wss:// URL'')
      else if au_mode auth = AuthWhitelist \<and> au_file auth = None
      then Err (ConfigInvalid (''auth.mode = '' @ debug_str ''whitelist'' @ '' requires auth.file''))
      else case (if au_mode auth = AuthCps then validate_cps_auth hex_dec auth else Ok ()) of
        Err e \<Rightarrow> Err e
      | Ok _ \<Rightarrow>
          (case validate_ipfs (cf_ipfs c) of
             Err e \<Rightarrow> Err e
           | Ok _ \<Rightarrow>
               (case validate_meshtastic (cf_meshtastic c) of
                  Err e \<Rightarrow> Err e
                | Ok _ \<Rightarrow>
                    (case validate_batcher (cf_batcher c) of
                       Err e \<Rightarrow> Err (ConfigInvalid e)
                     | Ok _ \<Rightarrow> validate_blockchain (cf_blockchain c) (cf_storage c)))))"

definition config_from_file ::
  "(string \<Rightarrow> string + bytes) \<Rightarrow> (string \<Rightarrow> 'io + string) \<Rightarrow> (string \<Rightarrow> string + Config)
    \<Rightarrow> string \<Rightarrow> 'io ConfigError + Config" where
  "config_from_file hex_dec read_to_string from_toml path =
     (case read_to_string path of
        Err e \<Rightarrow> Err (ConfigRead path e)
      | Ok text \<Rightarrow>
          (case from_toml text of
             Err e \<Rightarrow> Err (ConfigParse e)
           | Ok c \<Rightarrow> (case validate hex_dec c of Err e \<Rightarrow> Err e | Ok _ \<Rightarrow> Ok c)))"

section \<open>Specification\<close>

text \<open>A usable configuration, section by section.\<close>

definition auth_config_ok :: "(string \<Rightarrow> string + bytes) \<Rightarrow> AuthConfig \<Rightarrow> bool" where
  "auth_config_ok hex_dec a \<longleftrightarrow>
     (case au_mode a of
        AuthNone \<Rightarrow> True
      | AuthWhitelist \<Rightarrow> au_file a \<noteq> None
      | AuthCps \<Rightarrow>
          cps_root_node_id a \<noteq> None \<and> (\<exists>g. expected_genesis_hash hex_dec a = Ok g) \<and>
          0 < cps_cache_capacity a \<and> 0 < cps_negative_ttl_secs a \<and> 0 < cps_query_timeout_secs a \<and>
          0 < cps_max_concurrent_lookups a \<and> 0 < cps_max_pending a)"

definition meshtastic_config_ok :: "MeshtasticConfig \<Rightarrow> bool" where
  "meshtastic_config_ok m \<longleftrightarrow>
     mc_transport m = Some ''serial'' \<and> mc_device m \<noteq> None \<and> 0 < mc_max_reassembled_bytes m \<and>
     1 \<le> mc_max_fragments m \<and> mc_max_fragments m \<le> 16 \<and> 0 < mc_max_pending m \<and>
     0 < mc_max_pending_per_sender m \<and> 0 < mc_reassembly_timeout_secs m \<and>
     0 < mc_reassembly_absolute_timeout_secs m \<and> 0 < mc_reconnect_min_secs m \<and>
     mc_reconnect_min_secs m \<le> mc_reconnect_max_secs m"

definition batcher_config_ok :: "BatcherConfig \<Rightarrow> bool" where
  "batcher_config_ok c \<longleftrightarrow>
     0 < max_batch_age_secs c \<and> 0 < max_messages c \<and> 0 < max_batch_size c \<and>
     max_batch_size c \<le> MAX_PAYLOAD_SIZE"

definition ipfs_config_ok :: "IpfsConfig \<Rightarrow> bool" where
  "ipfs_config_ok i \<longleftrightarrow>
     ipfs_providers i \<noteq> [] \<and> set (ipfs_providers i) \<subseteq> {''pinata'', ''kubo''} \<and>
     (\<forall>p. ipfs_durability i = Some p \<longrightarrow> p \<in> {''any'', ''all'', ''quorum''})"

definition blockchain_config_ok :: "BlockchainConfig \<Rightarrow> StorageConfig \<Rightarrow> bool" where
  "blockchain_config_ok b s \<longleftrightarrow>
     bc_key_file b \<noteq> None \<and> bc_node_id b \<noteq> None \<and> st_path s \<noteq> None \<and>
     0 < bc_retry_min_secs b \<and> bc_retry_min_secs b \<le> bc_retry_max_secs b"

definition config_ok :: "(string \<Rightarrow> string + bytes) \<Rightarrow> Config \<Rightarrow> bool" where
  "config_ok hex_dec c \<longleftrightarrow>
     (\<forall>e. bc_endpoint (cf_blockchain c) = Some e \<longrightarrow> starts_with ''ws://'' e \<or> starts_with ''wss://'' e) \<and>
     auth_config_ok hex_dec (cf_auth c) \<and>
     (ipfs_enabled (cf_ipfs c) \<longrightarrow> ipfs_config_ok (cf_ipfs c)) \<and>
     (mc_enabled (cf_meshtastic c) \<longrightarrow> meshtastic_config_ok (cf_meshtastic c)) \<and>
     batcher_config_ok (cf_batcher c) \<and>
     (bc_enabled (cf_blockchain c) \<longrightarrow> blockchain_config_ok (cf_blockchain c) (cf_storage c))"

section \<open>Each block decides its section\<close>

lemma reject_zero_Ok: "reject_zero vs = Ok u \<longleftrightarrow> (\<forall>(_, v) \<in> set vs. 0 < v)"
  by (induction vs) (auto split: if_splits)

lemma validate_providers_Ok:
  "validate_providers ps = Ok u \<longleftrightarrow> set ps \<subseteq> {''pinata'', ''kubo''}"
  by (induction ps) auto

lemma validate_batcher_Ok: "validate_batcher c = Ok u \<longleftrightarrow> batcher_config_ok c"
  by (auto simp: validate_batcher_def batcher_config_ok_def)

lemma validate_ipfs_Ok:
  "validate_ipfs i = Ok u \<longleftrightarrow> (ipfs_enabled i \<longrightarrow> ipfs_config_ok i)"
proof (cases "ipfs_enabled i \<and> ipfs_providers i \<noteq> []")
  case True
  show ?thesis
  proof (cases "validate_providers (ipfs_providers i) :: 'a ConfigError + unit")
    case (Inl e)
    then have "\<not> set (ipfs_providers i) \<subseteq> {''pinata'', ''kubo''}"
      using validate_providers_Ok [of "ipfs_providers i" "()", where ?'a = 'a] by auto
    then show ?thesis using True Inl by (simp add: validate_ipfs_def ipfs_config_ok_def)
  next
    case (Inr v)
    then have "set (ipfs_providers i) \<subseteq> {''pinata'', ''kubo''}"
      using validate_providers_Ok [of "ipfs_providers i" v, where ?'a = 'a] by auto
    then show ?thesis using True Inr
      by (simp add: validate_ipfs_def ipfs_config_ok_def split: option.splits)
  qed
qed (auto simp: validate_ipfs_def ipfs_config_ok_def)

lemma validate_meshtastic_Ok:
  "validate_meshtastic m = Ok u \<longleftrightarrow> (mc_enabled m \<longrightarrow> meshtastic_config_ok m)"
  by (cases "mc_transport m")
    (simp_all add: validate_meshtastic_def meshtastic_config_ok_def MAX_FRAGMENT_COUNT_def
      not_less Suc_le_eq)

lemma validate_blockchain_Ok:
  "validate_blockchain b s = Ok u \<longleftrightarrow> (bc_enabled b \<longrightarrow> blockchain_config_ok b s)"
  by (auto simp: validate_blockchain_def blockchain_config_ok_def)

lemma validate_cps_auth_Ok:
  "au_mode a = AuthCps \<Longrightarrow> validate_cps_auth hex_dec a = Ok u \<longleftrightarrow> auth_config_ok hex_dec a"
  by (auto simp: validate_cps_auth_def auth_config_ok_def reject_zero_Ok split: sum.splits)

section \<open>Properties\<close>

text \<open>C27. Validation accepts exactly the usable configurations: the conjunction of the
  requirements of every enabled section, whatever the order of the checks; the built-in defaults
  are usable and never an open relay.\<close>

theorem validate_exact:
  "(validate hex_dec c = (Ok () :: 'io ConfigError + unit) \<longleftrightarrow> config_ok hex_dec c)
   \<and> config_ok hex_dec default_config \<and> \<not> http_open_relay default_config"
proof (intro conjI)
  have auth: "\<not> (au_mode (cf_auth c) = AuthWhitelist \<and> au_file (cf_auth c) = None) \<and>
      (if au_mode (cf_auth c) = AuthCps then validate_cps_auth hex_dec (cf_auth c) else Ok ())
        = (Ok () :: 'io ConfigError + unit) \<longleftrightarrow> auth_config_ok hex_dec (cf_auth c)"
    by (cases "au_mode (cf_auth c)") (simp_all add: validate_cps_auth_Ok, simp_all add: auth_config_ok_def)
  define v1 where "v1 = (if au_mode (cf_auth c) = AuthCps then validate_cps_auth hex_dec (cf_auth c)
     else Ok () :: 'io ConfigError + unit)"
  define v2 where "v2 = (validate_ipfs (cf_ipfs c) :: 'io ConfigError + unit)"
  define v3 where "v3 = (validate_meshtastic (cf_meshtastic c) :: 'io ConfigError + unit)"
  define v5 where
    "v5 = (validate_blockchain (cf_blockchain c) (cf_storage c) :: 'io ConfigError + unit)"
  have chain: "(validate hex_dec c = (Ok () :: 'io ConfigError + unit)) \<longleftrightarrow>
      (\<forall>e. bc_endpoint (cf_blockchain c) = Some e \<longrightarrow> starts_with ''ws://'' e \<or> starts_with ''wss://'' e) \<and>
      (\<not> (au_mode (cf_auth c) = AuthWhitelist \<and> au_file (cf_auth c) = None) \<and> v1 = Ok ()) \<and>
      v2 = Ok () \<and> v3 = Ok () \<and> validate_batcher (cf_batcher c) = Ok () \<and> v5 = Ok ()"
    unfolding validate_def Let_def v1_def [symmetric] v2_def [symmetric] v3_def [symmetric]
      v5_def [symmetric]
    by (auto split: sum.splits option.splits)
  show "validate hex_dec c = (Ok () :: 'io ConfigError + unit) \<longleftrightarrow> config_ok hex_dec c"
    unfolding chain config_ok_def auth [folded v1_def] unfolding v2_def v3_def v5_def
    by (simp only: validate_ipfs_Ok validate_meshtastic_Ok validate_batcher_Ok validate_blockchain_Ok)
qed (simp_all add: config_ok_def default_config_def default_blockchain_def default_auth_def
    default_ipfs_def default_meshtastic_def default_batcher_def default_http_def auth_config_ok_def
    batcher_config_ok_def MAX_PAYLOAD_SIZE_def http_open_relay_def is_public_def)

end
