(* ===== verification/Ingress.thy ===== *)
theory Ingress
  imports Reassembly Protocol Metrics Config
begin

text \<open>
  The ingress adapters: \<open>crates/edge/src/ingress/mod.rs\<close>, \<open>ingress/http.rs\<close> and
  \<open>ingress/meshtastic/mod.rs\<close>.

  Both adapters decode a byte string into an \<open>IngressMessage\<close> and hand it to the bounded channel
  of the pipeline. The protobuf decoder is the parameter \<open>dec\<close>, the channel's \<open>try_send\<close> a
  parameter of \<open>ingest\<close>. A Meshtastic session is a run over the events its \<open>select!\<close> loop reacts
  to (\<open>session_event\<close>): packets, sweep ticks, the end of the serial stream, shutdown; a panic of
  the reassembler would make the run \<open>None\<close>. Metric updates are returned.
\<close>

section \<open>Messages\<close>

text \<open>\<open>SystemTime\<close> in nanoseconds relative to the Unix epoch.\<close>

type_synonym SystemTime = int

datatype Transport = Http | Meshtastic

fun transport_str :: "Transport \<Rightarrow> string" where
  "transport_str Http = ''http''"
| "transport_str Meshtastic = ''meshtastic''"

record TransportMetadata =
  tm_transport :: Transport
  tm_peer :: "string option"

definition http_metadata :: "string option \<Rightarrow> TransportMetadata" where
  "http_metadata peer = \<lparr>tm_transport = Http, tm_peer = peer\<rparr>"

definition meshtastic_metadata :: "u32 \<Rightarrow> TransportMetadata" where
  "meshtastic_metadata mesh_sender =
     \<lparr>tm_transport = Meshtastic, tm_peer = Some (CHR ''!'' # hex_fixed 8 (unat mesh_sender))\<rparr>"

record IngressMessage =
  im_envelope :: SignedEnvelope
  im_raw_envelope :: bytes
  im_transport :: TransportMetadata
  im_received_at :: SystemTime

definition channel_capacity :: "nat \<Rightarrow> nat" where
  "channel_capacity capacity = max capacity 1"

section \<open>HTTP\<close>

datatype TrySend = Sent | Full | Closed

datatype StatusCode = OK | ACCEPTED | BAD_REQUEST | TOO_MANY_REQUESTS | SERVICE_UNAVAILABLE

definition ingest ::
  "(bytes \<Rightarrow> string + SignedEnvelope) \<Rightarrow> (IngressMessage \<Rightarrow> 'ch \<Rightarrow> TrySend \<times> 'ch) \<Rightarrow> SystemTime
    \<Rightarrow> bytes \<Rightarrow> 'ch \<Rightarrow> (StatusCode \<times> string) \<times> 'ch \<times> metric list" where
  "ingest dec try_send now body ch =
     (case decode_envelope dec body of
        Err err \<Rightarrow>
          ((BAD_REQUEST, ''invalid envelope: '' @ show_protocol_error err), ch,
           [Counter VALIDATION_REJECTED_TOTAL
              [(''transport'', transport_str Http), (''stage'', ''decode'')] 1])
      | Ok envelope \<Rightarrow>
          let message = \<lparr>im_envelope = envelope, im_raw_envelope = body,
                         im_transport = http_metadata None, im_received_at = now\<rparr>
          in (case try_send message ch of
                (Sent, ch') \<Rightarrow>
                  ((ACCEPTED, ''accepted''), ch',
                   [incr_transport INGRESS_RECEIVED_TOTAL (transport_str Http)])
              | (Full, ch') \<Rightarrow> ((TOO_MANY_REQUESTS, ''ingress buffer full''), ch', [])
              | (Closed, ch') \<Rightarrow>
                  ((SERVICE_UNAVAILABLE, ''ingress pipeline unavailable''), ch', [])))"

section \<open>Meshtastic\<close>

text \<open>What the adapter reads of the radio's protobuf messages.\<close>

record Data =
  dat_portnum :: int
  dat_payload :: bytes

datatype PacketVariant = Decoded Data | Encrypted bytes

record MeshPacket =
  mp_from :: u32
  mp_pki_encrypted :: bool
  mp_payload_variant :: "PacketVariant option"

datatype RadioVariant = Packet MeshPacket | OtherVariant

record FromRadio =
  fr_payload_variant :: "RadioVariant option"

definition reassembler_config :: "MeshtasticConfig \<Rightarrow> ReassemblerConfig" where
  "reassembler_config c =
     \<lparr>max_reassembled_bytes = mc_max_reassembled_bytes c, max_fragments = mc_max_fragments c,
      max_pending = mc_max_pending c, max_pending_per_sender = mc_max_pending_per_sender c,
      idle_timeout = from_secs (mc_reassembly_timeout_secs c),
      absolute_timeout = from_secs (mc_reassembly_absolute_timeout_secs c)\<rparr>"

text \<open>The frame part of \<open>handle_packet\<close>: the bytes of a complete envelope, if this frame completes
  one.\<close>

definition handle_frame ::
  "(bytes \<Rightarrow> bytes) \<Rightarrow> instant \<Rightarrow> u32 \<Rightarrow> bytes \<Rightarrow> Reassembler
    \<Rightarrow> (bytes option \<times> Reassembler \<times> metric list) option" where
  "handle_frame sha now mesh_sender payload r =
     (case parse_frame payload of
        Err _ \<Rightarrow> Some (None, r, [incr MESHTASTIC_FRAMES_INVALID_TOTAL])
      | Ok (Single bs) \<Rightarrow> Some (Some bs, r, [])
      | Ok (Fragment fragment) \<Rightarrow>
          (case accept sha now mesh_sender fragment r of
             None \<Rightarrow> None
           | Some (Progress, r') \<Rightarrow> Some (None, r', [incr MESHTASTIC_REASSEMBLY_STARTED_TOTAL])
           | Some (DuplicateIgnored, r') \<Rightarrow> Some (None, r', [])
           | Some (Conflict, r') \<Rightarrow> Some (None, r', [incr MESHTASTIC_REASSEMBLY_CONFLICT_TOTAL])
           | Some (Rejected _, r') \<Rightarrow> Some (None, r', [incr MESHTASTIC_REASSEMBLY_OVERSIZE_TOTAL])
           | Some (Complete bs, r') \<Rightarrow>
               Some (Some bs, r', [incr MESHTASTIC_REASSEMBLY_COMPLETED_TOTAL])))"

definition handle_packet ::
  "(bytes \<Rightarrow> bytes) \<Rightarrow> (bytes \<Rightarrow> string + SignedEnvelope) \<Rightarrow> MeshtasticConfig \<Rightarrow> instant \<Rightarrow> SystemTime
    \<Rightarrow> FromRadio \<Rightarrow> Reassembler \<Rightarrow> (IngressMessage option \<times> Reassembler \<times> metric list) option" where
  "handle_packet sha dec config now sys_now packet r =
     (case fr_payload_variant packet of
        Some (Packet mesh_packet) \<Rightarrow>
          (case mp_payload_variant mesh_packet of
             Some (Decoded d) \<Rightarrow>
               if dat_portnum d \<noteq> sint (mc_port_num config) then Some (None, r, [])
               else if \<not> mp_pki_encrypted mesh_packet
               then Some (None, r, [incr MESHTASTIC_PACKETS_RECEIVED_TOTAL,
                                    incr MESHTASTIC_PACKETS_IGNORED_TOTAL])
               else
                 (case handle_frame sha now (mp_from mesh_packet) (dat_payload d) r of
                    None \<Rightarrow> None
                  | Some (None, r', ms) \<Rightarrow>
                      Some (None, r', incr MESHTASTIC_PACKETS_RECEIVED_TOTAL # ms)
                  | Some (Some raw_envelope, r', ms) \<Rightarrow>
                      (case decode_envelope dec raw_envelope of
                         Err _ \<Rightarrow>
                           Some (None, r', incr MESHTASTIC_PACKETS_RECEIVED_TOTAL # ms @
                             [Counter VALIDATION_REJECTED_TOTAL
                                [(''transport'', transport_str Meshtastic), (''stage'', ''decode'')] 1])
                       | Ok envelope \<Rightarrow>
                           Some (Some \<lparr>im_envelope = envelope, im_raw_envelope = raw_envelope,
                                       im_transport = meshtastic_metadata (mp_from mesh_packet),
                                       im_received_at = sys_now\<rparr>,
                                 r', incr MESHTASTIC_PACKETS_RECEIVED_TOTAL # ms @
                                   [incr_transport INGRESS_RECEIVED_TOTAL
                                      (transport_str Meshtastic)])))
           | _ \<Rightarrow> Some (None, r, []))
      | _ \<Rightarrow> Some (None, r, []))"

datatype SessionEnd = SessionShutdown | SessionDisconnected

text \<open>How handing a message to the pipeline's channel ends: it is sent, the channel is closed, or
  shutdown comes first.\<close>

datatype send_outcome = SendOk | SendClosed | SendShutdown

datatype session_event =
    ShutdownEvent
  | SweepTick instant
  | PacketEvent instant SystemTime FromRadio send_outcome
  | StreamClosed

definition pending_gauge :: "Reassembler \<Rightarrow> metric" where
  "pending_gauge r = Gauge MESHTASTIC_REASSEMBLY_PENDING (pending_len r)"

text \<open>One iteration of the session loop: the end of the session if this event ends it, the message
  passed on, the reassembler and the metrics.\<close>

definition session_step ::
  "(bytes \<Rightarrow> bytes) \<Rightarrow> (bytes \<Rightarrow> string + SignedEnvelope) \<Rightarrow> MeshtasticConfig \<Rightarrow> session_event
    \<Rightarrow> Reassembler \<Rightarrow> (SessionEnd option \<times> IngressMessage list \<times> Reassembler \<times> metric list) option" where
  "session_step sha dec config ev r =
     (case ev of
        ShutdownEvent \<Rightarrow> Some (Some SessionShutdown, [], r, [])
      | StreamClosed \<Rightarrow> Some (Some SessionDisconnected, [], r, [])
      | SweepTick now \<Rightarrow>
          let (evicted, r') = sweep_expired now r
          in Some (None, [], r',
               (if evicted > 0 then [Counter MESHTASTIC_REASSEMBLY_EXPIRED_TOTAL [] evicted] else [])
               @ [pending_gauge r'])
      | PacketEvent now sys_now packet outcome \<Rightarrow>
          (case handle_packet sha dec config now sys_now packet r of
             None \<Rightarrow> None
           | Some (None, r', ms) \<Rightarrow> Some (None, [], r', ms @ [pending_gauge r'])
           | Some (Some message, r', ms) \<Rightarrow>
               (case outcome of
                  SendOk \<Rightarrow> Some (None, [message], r', ms @ [pending_gauge r'])
                | SendClosed \<Rightarrow> Some (Some SessionShutdown, [], r', ms @ [pending_gauge r'])
                | SendShutdown \<Rightarrow> Some (Some SessionShutdown, [], r', ms @ [pending_gauge r']))))"

text \<open>The loop over the events of a session; \<open>None\<close> as its end means that it still waits.\<close>

fun session_loop ::
  "(bytes \<Rightarrow> bytes) \<Rightarrow> (bytes \<Rightarrow> string + SignedEnvelope) \<Rightarrow> MeshtasticConfig \<Rightarrow> session_event list
    \<Rightarrow> Reassembler \<Rightarrow> (SessionEnd option \<times> IngressMessage list \<times> Reassembler \<times> metric list) option" where
  "session_loop sha dec config [] r = Some (None, [], r, [])"
| "session_loop sha dec config (ev # evs) r =
     (case session_step sha dec config ev r of
        None \<Rightarrow> None
      | Some (Some ended, sent, r', ms) \<Rightarrow> Some (Some ended, sent, r', ms)
      | Some (None, sent, r', ms) \<Rightarrow>
          (case session_loop sha dec config evs r' of
             None \<Rightarrow> None
           | Some (ended, sent', r'', ms') \<Rightarrow> Some (ended, sent @ sent', r'', ms @ ms')))"

definition serve_session ::
  "(bytes \<Rightarrow> bytes) \<Rightarrow> (bytes \<Rightarrow> string + SignedEnvelope) \<Rightarrow> MeshtasticConfig \<Rightarrow> session_event list
    \<Rightarrow> (SessionEnd option \<times> IngressMessage list \<times> Reassembler \<times> metric list) option" where
  "serve_session sha dec config evs =
     session_loop sha dec config evs (new_reassembler (reassembler_config config))"

subsection \<open>The reconnect loop\<close>

text \<open>One round of \<open>run_reconnect_loop\<close>: whether shutdown was seen at its start, how
  \<open>connect_and_serve\<close> ended, whether it had connected, and whether the back-off sleep was cut
  short by shutdown.\<close>

record attempt =
  at_triggered :: bool
  at_ended :: SessionEnd
  at_connected :: bool
  at_interrupted :: bool

text \<open>The result lists the delays slept; \<open>True\<close> when the loop returned.\<close>

fun reconnect_loop ::
  "duration \<Rightarrow> duration \<Rightarrow> duration \<Rightarrow> attempt list \<Rightarrow> bool \<times> duration list \<times> metric list" where
  "reconnect_loop min_backoff max_backoff backoff [] = (False, [], [])"
| "reconnect_loop min_backoff max_backoff backoff (a # as) =
     (if at_triggered a then (True, [], [])
      else
        let backoff1 = (if at_connected a then min_backoff else backoff) in
        (case at_ended a of
           SessionShutdown \<Rightarrow> (True, [], [])
         | SessionDisconnected \<Rightarrow>
             if at_interrupted a then (True, [backoff1], [incr MESHTASTIC_RECONNECTS_TOTAL])
             else let (ret, ds, ms) =
                        reconnect_loop min_backoff max_backoff (min (backoff1 * 2) max_backoff) as
                  in (ret, backoff1 # ds, incr MESHTASTIC_RECONNECTS_TOTAL # ms)))"

definition run_reconnect_loop :: "MeshtasticConfig \<Rightarrow> attempt list \<Rightarrow> bool \<times> duration list \<times> metric list" where
  "run_reconnect_loop c as =
     (let min_backoff = from_secs (max (mc_reconnect_min_secs c) 1);
          max_backoff = from_secs (max (mc_reconnect_max_secs c) (max (mc_reconnect_min_secs c) 1))
      in reconnect_loop min_backoff max_backoff min_backoff as)"

section \<open>Specification\<close>

text \<open>What \<open>mpsc::Sender::try_send\<close> documents: a sent message is appended, a refused one changes
  nothing.\<close>

definition try_send_ok :: "(IngressMessage \<Rightarrow> 'ch \<Rightarrow> TrySend \<times> 'ch) \<Rightarrow> ('ch \<Rightarrow> IngressMessage list) \<Rightarrow> bool"
  where
  "try_send_ok try_send queue \<longleftrightarrow>
     (\<forall>m ch. queue (snd (try_send m ch)) =
        queue ch @ (if fst (try_send m ch) = Sent then [m] else []))"

text \<open>A packet of the configured port, authenticated by the radio, that carries \<open>w\<close>.\<close>

definition frame_packet :: "MeshtasticConfig \<Rightarrow> u32 \<Rightarrow> bytes \<Rightarrow> FromRadio" where
  "frame_packet config s w =
     \<lparr>fr_payload_variant = Some (Packet \<lparr>mp_from = s, mp_pki_encrypted = True,
        mp_payload_variant = Some (Decoded \<lparr>dat_portnum = sint (mc_port_num config),
                                           dat_payload = w\<rparr>)\<rparr>)\<rparr>"

definition frame_event :: "MeshtasticConfig \<Rightarrow> u32 \<Rightarrow> instant \<times> SystemTime \<times> bytes \<Rightarrow> session_event" where
  "frame_event config s = (\<lambda>(t, sys, w). PacketEvent t sys (frame_packet config s w) SendOk)"

text \<open>A packet the adapter may turn into a message: decoded, on the configured port and
  authenticated.\<close>

definition authentic :: "MeshtasticConfig \<Rightarrow> u32 \<Rightarrow> FromRadio \<Rightarrow> bool" where
  "authentic config s packet \<longleftrightarrow>
     (\<exists>mp d. fr_payload_variant packet = Some (Packet mp) \<and> mp_payload_variant mp = Some (Decoded d) \<and>
        mp_from mp = s \<and> mp_pki_encrypted mp \<and> dat_portnum d = sint (mc_port_num config))"

text \<open>A packet as before that carries the given frame, and a frame that some packet of a session carried.\<close>

definition carries :: "MeshtasticConfig \<Rightarrow> u32 \<Rightarrow> FromRadio \<Rightarrow> Frame \<Rightarrow> bool" where
  "carries config s packet f \<longleftrightarrow>
     (\<exists>mp d. fr_payload_variant packet = Some (Packet mp) \<and> mp_payload_variant mp = Some (Decoded d) \<and>
        mp_from mp = s \<and> mp_pki_encrypted mp \<and> dat_portnum d = sint (mc_port_num config) \<and>
        parse_frame (dat_payload d) = Ok f)"

definition carried :: "MeshtasticConfig \<Rightarrow> session_event list \<Rightarrow> u32 \<Rightarrow> Frame \<Rightarrow> bool" where
  "carried config evs s f \<longleftrightarrow> (\<exists>now sys packet outcome. PacketEvent now sys packet outcome \<in> set evs \<and> carries config s packet f)"

text \<open>What holds of every message a session passes on: it decodes, is not too long, is received with an authentic
  packet of its sender, and its bytes are the body of a frame that this packet carries, or the bodies of
  fragments, one for each index in order and with its message id, that authentic packets of the sender carried.\<close>

definition message_ok ::
  "(bytes \<Rightarrow> bytes) \<Rightarrow> (bytes \<Rightarrow> string + SignedEnvelope) \<Rightarrow> MeshtasticConfig \<Rightarrow> session_event list \<Rightarrow> IngressMessage
    \<Rightarrow> bool" where
  "message_ok sha dec config evs m \<longleftrightarrow>
     dec (im_raw_envelope m) = Ok (im_envelope m) \<and>
     length (im_raw_envelope m) \<le> max MAX_SINGLE_BODY (mc_max_reassembled_bytes config) \<and>
     (\<exists>now packet s. PacketEvent now (im_received_at m) packet SendOk \<in> set evs \<and>
        authentic config s packet \<and> im_transport m = meshtastic_metadata s \<and>
        (carries config s packet (Single (im_raw_envelope m)) \<or>
         made_from sha (\<lambda>f. carried config evs s (Fragment f)) (im_raw_envelope m)))"

text \<open>Frames of one payload, by the time they arrive: a payload completes each time all its frames have arrived
  since it last did. The moments of completion, and what has arrived after the last one.\<close>

fun completions :: "bytes set \<Rightarrow> bytes set \<Rightarrow> (instant \<times> SystemTime \<times> bytes) list \<Rightarrow> SystemTime list" where
  "completions all got [] = []"
| "completions all got ((t, sys, w) # arr) =
     (if insert w got = all then sys # completions all {} arr else completions all (insert w got) arr)"

fun left_over :: "bytes set \<Rightarrow> bytes set \<Rightarrow> (instant \<times> SystemTime \<times> bytes) list \<Rightarrow> bytes set" where
  "left_over all got [] = got"
| "left_over all got ((t, sys, w) # arr) = left_over all (if insert w got = all then {} else insert w got) arr"

section \<open>One packet\<close>

lemma handle_frame_ok:
  assumes "reassembler_ok r" and "slots_from P r"
    and P: "\<And>f. parse_frame payload = Ok (Fragment f) \<Longrightarrow> P (s, ff_message_id f) f"
  shows "\<exists>b r' ms. handle_frame sha now s payload r = Some (b, r', ms) \<and> reassembler_ok r' \<and>
    re_config r' = re_config r \<and> slots_from P r' \<and>
    (\<forall>raw. b = Some raw \<longrightarrow> length raw \<le> max MAX_SINGLE_BODY (max_reassembled_bytes (re_config r)) \<and>
       (parse_frame payload = Ok (Single raw) \<or> (\<exists>mid. made_from sha (P (s, mid)) raw)))"
proof (cases "parse_frame payload")
  case (Inr f)
  show ?thesis
  proof (cases f)
    case (Single bs)
    then have "length bs \<le> MAX_SINGLE_BODY"
      using Inr by (elim parse_frame_Ok_cases)
        (auto simp: parse_single_def Let_def elim!: parse_fragment_Ok split: if_splits)
    then show ?thesis using Inr Single assms by (simp add: handle_frame_def)
  next
    case (Fragment fr)
    from accept_parsed [OF assms(1) Inr [unfolded Fragment], of sha now s] obtain out r' where
      acc: "accept sha now s fr r = Some (out, r')"
      and bound: "\<forall>b. out = Complete b \<longrightarrow> length b \<le> max_reassembled_bytes (re_config r)" by blast
    have "reassembler_ok r'" "re_config r' = re_config r"
      using accept_ok [OF assms(1) acc] accept_config [OF acc] by auto
    moreover have "slots_from P r'" "\<forall>raw. out = Complete raw \<longrightarrow> made_from sha (P (s, ff_message_id fr)) raw"
      using accept_from [OF assms(1,2) P acc] Inr Fragment by auto
    ultimately show ?thesis using Inr Fragment acc bound
      by (cases out) (auto simp: handle_frame_def)
  qed
qed (simp add: handle_frame_def assms)

lemma handle_packet_ok:
  assumes "reassembler_ok r" and "re_config r = reassembler_config config" and "slots_from P r"
    and P: "\<And>s f. carries config s packet (Fragment f) \<Longrightarrow> P (s, ff_message_id f) f"
  shows "\<exists>m r' ms. handle_packet sha dec config now sys packet r = Some (m, r', ms) \<and>
    reassembler_ok r' \<and> re_config r' = re_config r \<and> slots_from P r' \<and>
    (\<forall>msg. m = Some msg \<longrightarrow> dec (im_raw_envelope msg) = Ok (im_envelope msg) \<and> im_received_at msg = sys \<and>
       length (im_raw_envelope msg) \<le> max MAX_SINGLE_BODY (mc_max_reassembled_bytes config) \<and>
       (\<exists>s. authentic config s packet \<and> im_transport msg = meshtastic_metadata s \<and>
          (carries config s packet (Single (im_raw_envelope msg)) \<or>
           (\<exists>mid. made_from sha (P (s, mid)) (im_raw_envelope msg)))))"
proof (cases "\<exists>s. authentic config s packet")
  case False
  then show ?thesis using assms(1,3)
    by (auto simp: handle_packet_def authentic_def
        split: option.splits RadioVariant.splits PacketVariant.splits)
next
  case True
  then obtain mp d where v: "fr_payload_variant packet = Some (Packet mp)"
    "mp_payload_variant mp = Some (Decoded d)" "mp_pki_encrypted mp"
    "dat_portnum d = sint (mc_port_num config)"
    unfolding authentic_def by blast
  then have auth: "authentic config (mp_from mp) packet"
    and car: "parse_frame (dat_payload d) = Ok f \<Longrightarrow> carries config (mp_from mp) packet f" for f
    unfolding authentic_def carries_def by blast+
  obtain b r' ms where h: "handle_frame sha now (mp_from mp) (dat_payload d) r = Some (b, r', ms)"
    "reassembler_ok r'" "re_config r' = re_config r" "slots_from P r'"
    and bound: "\<forall>raw. b = Some raw \<longrightarrow>
      length raw \<le> max MAX_SINGLE_BODY (max_reassembled_bytes (re_config r)) \<and>
      (parse_frame (dat_payload d) = Ok (Single raw) \<or> (\<exists>mid. made_from sha (P (mp_from mp, mid)) raw))"
    using handle_frame_ok [OF assms(1,3) P [OF car]] by blast
  show ?thesis
  proof (cases b)
    case (Some raw)
    have "length raw \<le> max MAX_SINGLE_BODY (mc_max_reassembled_bytes config)"
      using bound Some assms(2) by (simp add: reassembler_config_def)
    moreover have "carries config (mp_from mp) packet (Single raw) \<or> (\<exists>mid. made_from sha (P (mp_from mp, mid)) raw)"
      using bound Some car by blast
    ultimately show ?thesis using v h Some auth
      by (auto simp: handle_packet_def decode_envelope_def split: sum.splits)
  qed (use v h in \<open>simp add: handle_packet_def\<close>)
qed

section \<open>Sessions\<close>

text \<open>The fragments the reassembler holds were carried by packets of the session so far.\<close>

abbreviation from_session :: "MeshtasticConfig \<Rightarrow> session_event list \<Rightarrow> key \<Rightarrow> FragmentFrame \<Rightarrow> bool" where
  "from_session config evs \<equiv> \<lambda>k f. carried config evs (fst k) (Fragment f)"

lemma carried_mono: "carried config evs s f \<Longrightarrow> set evs \<subseteq> set evs' \<Longrightarrow> carried config evs' s f"
  unfolding carried_def by blast

lemma message_ok_mono:
  assumes "message_ok sha dec config evs m" and "set evs \<subseteq> set evs'"
  shows "message_ok sha dec config evs' m"
proof -
  have "made_from sha (\<lambda>f. carried config evs' s (Fragment f)) raw"
    if "made_from sha (\<lambda>f. carried config evs s (Fragment f)) raw" for s raw
    by (rule made_from_mono [OF that carried_mono [OF _ assms(2)]])
  then show ?thesis using assms unfolding message_ok_def by blast
qed

lemma session_step_ok:
  assumes "reassembler_ok r" and "re_config r = reassembler_config config" and "slots_from (from_session config past) r"
  shows "\<exists>e sent r' ms. session_step sha dec config ev r = Some (e, sent, r', ms) \<and>
    reassembler_ok r' \<and> re_config r' = reassembler_config config \<and> slots_from (from_session config (past @ [ev])) r' \<and>
    (\<forall>m\<in>set sent. message_ok sha dec config (past @ [ev]) m)"
proof -
  have held: "slots_from (from_session config (past @ [ev])) r"
    by (rule slots_from_mono [OF assms(3) carried_mono]) auto
  show ?thesis
  proof (cases ev)
    case (SweepTick now)
    have "reassembler_ok (snd (sweep_expired now r))" "re_config (snd (sweep_expired now r)) = re_config r"
      using sweep_expired_ok [OF assms(1)] by (auto simp: sweep_expired_def Let_def)
    then show ?thesis using SweepTick assms(2) slots_from_sweep [OF held, of now]
      by (cases "sweep_expired now r") (simp add: session_step_def)
  next
    case (PacketEvent now sys packet outcome)
    have now: "from_session config (past @ [ev]) (s, ff_message_id f) f" if "carries config s packet (Fragment f)" for s f
      using that PacketEvent unfolding carried_def by auto
    obtain m r' ms where h: "handle_packet sha dec config now sys packet r = Some (m, r', ms)"
      "reassembler_ok r'" "re_config r' = re_config r" "slots_from (from_session config (past @ [ev])) r'"
      and ok: "\<forall>msg. m = Some msg \<longrightarrow> dec (im_raw_envelope msg) = Ok (im_envelope msg) \<and> im_received_at msg = sys \<and>
         length (im_raw_envelope msg) \<le> max MAX_SINGLE_BODY (mc_max_reassembled_bytes config) \<and>
         (\<exists>s. authentic config s packet \<and> im_transport msg = meshtastic_metadata s \<and>
            (carries config s packet (Single (im_raw_envelope msg)) \<or>
             (\<exists>mid. made_from sha (from_session config (past @ [ev]) (s, mid)) (im_raw_envelope msg))))"
      using handle_packet_ok [OF assms(1,2) held now, where sha = sha and dec = dec and now = now and sys = sys] by blast
    show ?thesis
    proof (cases m)
      case (Some msg)
      have "message_ok sha dec config (past @ [ev]) msg" if "outcome = SendOk"
        using ok Some PacketEvent that unfolding message_ok_def by auto
      then show ?thesis using h assms(2) PacketEvent Some
        by (cases outcome) (auto simp: session_step_def)
    qed (use h assms(2) PacketEvent in \<open>simp add: session_step_def\<close>)
  qed (use held in \<open>simp_all add: session_step_def assms\<close>)
qed

lemma session_loop_ok:
  "reassembler_ok r \<Longrightarrow> re_config r = reassembler_config config \<Longrightarrow> slots_from (from_session config past) r \<Longrightarrow>
   \<exists>e sent r' ms. session_loop sha dec config evs r = Some (e, sent, r', ms) \<and>
     reassembler_ok r' \<and> re_config r' = reassembler_config config \<and>
     (\<forall>m\<in>set sent. message_ok sha dec config (past @ evs) m)"
proof (induction evs arbitrary: r past)
  case (Cons ev evs)
  obtain e sent r' ms where step: "session_step sha dec config ev r = Some (e, sent, r', ms)"
    "reassembler_ok r'" "re_config r' = reassembler_config config" "slots_from (from_session config (past @ [ev])) r'"
    and ok: "\<forall>m\<in>set sent. message_ok sha dec config (past @ [ev]) m"
    using session_step_ok [OF Cons.prems] by blast
  have ok': "\<forall>m\<in>set sent. message_ok sha dec config (past @ ev # evs) m"
    using ok message_ok_mono [of sha dec config "past @ [ev]" _ "past @ ev # evs"] by auto
  show ?case
  proof (cases e)
    case None
    obtain e' sent' r'' ms' where "session_loop sha dec config evs r' = Some (e', sent', r'', ms')"
      "reassembler_ok r''" "re_config r'' = reassembler_config config"
      "\<forall>m\<in>set sent'. message_ok sha dec config (past @ ev # evs) m"
      using Cons.IH [OF step(2-4)] by auto
    then show ?thesis using step None ok' by auto
  qed (use step ok' in simp)
qed simp

lemma session_loop_append:
  "session_loop sha dec config xs r = Some (None, s1, r1, m1) \<Longrightarrow>
   session_loop sha dec config ys r1 = Some (e, s2, r2, m2) \<Longrightarrow>
   session_loop sha dec config (xs @ ys) r = Some (e, s1 @ s2, r2, m1 @ m2)"
proof (induction xs arbitrary: r s1 m1)
  case (Cons ev xs)
  from Cons.prems(1) obtain sa ra ma sb mb where
    "session_step sha dec config ev r = Some (None, sa, ra, ma)"
    "session_loop sha dec config xs ra = Some (None, sb, r1, mb)" "s1 = sa @ sb" "m1 = ma @ mb"
    by (auto split: option.splits prod.splits)
  with Cons.IH [OF this(2) Cons.prems(2)] show ?case by simp
qed simp

lemma session_fragment:
  assumes "parse_frame w = Ok (Fragment f)" and "accept sha t s f r = Some (out, r')"
    and "out \<in> {Progress, DuplicateIgnored}"
  shows "\<exists>ms. session_step sha dec config (frame_event config s (t, sys, w)) r = Some (None, [], r', ms)"
  using assms
  by (auto simp: session_step_def frame_event_def handle_packet_def frame_packet_def handle_frame_def)

lemma session_complete:
  assumes "parse_frame w = Ok (Fragment f)" and "accept sha t s f r = Some (Complete raw, r')"
    and "dec raw = Ok env"
  shows "\<exists>ms. session_step sha dec config (frame_event config s (t, sys, w)) r =
    Some (None, [\<lparr>im_envelope = env, im_raw_envelope = raw, im_transport = meshtastic_metadata s,
                  im_received_at = sys\<rparr>], r', ms)"
  using assms
  by (simp add: session_step_def frame_event_def handle_packet_def frame_packet_def handle_frame_def
      decode_envelope_def)

lemma encoded_fragments:
  assumes "digest_len sha" and "encode_frames sha raw = Ok frames" and "MAX_SINGLE_BODY < length raw"
  shows "\<exists>g. (\<forall>w\<in>set frames. parse_frame w = Ok (Fragment (g w))) \<and>
    g ` set frames = set (fragments_of sha raw) \<and> inj_on g (set frames)"
proof -
  have p: "map parse_frame frames = map (\<lambda>f. Ok (Fragment f)) (fragments_of sha raw)"
    using parse_encoded_frames [OF assms(1,2)] assms(3) by auto
  define g where "g w = (case parse_frame w of Ok (Fragment f) \<Rightarrow> f)" for w
  have "parse_frame ` set frames = (\<lambda>f. Ok (Fragment f)) ` set (fragments_of sha raw)"
    using p by (metis set_map)
  then have "\<forall>w\<in>set frames. \<exists>f. parse_frame w = Ok (Fragment f)" by blast
  then have each: "\<forall>w\<in>set frames. parse_frame w = Ok (Fragment (g w))"
    unfolding g_def by force
  moreover have "g ` set frames = set (fragments_of sha raw)"
  proof -
    have "map g frames = fragments_of sha raw"
      using p each by (intro nth_equalityI) (auto dest: map_eq_imp_length_eq simp: list_eq_iff_nth_eq)
    then show ?thesis by (metis set_map)
  qed
  moreover have "inj_on g (set frames)"
    using each parse_frame_inj by (metis inj_onI)
  ultimately show ?thesis by blast
qed

subsection \<open>Back-off\<close>

lemma reconnect_loop_bounds:
  "lo \<le> hi \<Longrightarrow> lo \<le> b \<Longrightarrow> b \<le> hi \<Longrightarrow> reconnect_loop lo hi b as = (ret, ds, ms) \<Longrightarrow>
   (\<forall>d\<in>set ds. lo \<le> d \<and> d \<le> hi) \<and> counted MESHTASTIC_RECONNECTS_TOTAL ms = length ds"
proof (induction as arbitrary: b ret ds ms)
  case (Cons a as)
  define b1 where "b1 = (if at_connected a then lo else b)"
  have b1: "lo \<le> b1" "b1 \<le> hi" "lo \<le> min (b1 * 2) hi" "min (b1 * 2) hi \<le> hi"
    using Cons.prems unfolding b1_def by auto
  obtain ret' ds' ms' where n: "reconnect_loop lo hi (min (b1 * 2) hi) as = (ret', ds', ms')"
    by (cases "reconnect_loop lo hi (min (b1 * 2) hi) as")
  from Cons.IH [OF Cons.prems(1) b1(3,4) n] Cons.prems(4) b1 show ?case
    by (auto simp: b1_def [symmetric] Let_def n incr_def split: if_splits SessionEnd.splits)
qed simp

lemma min_double: "min (min (a * k) h * 2) h = min (a * (2 * k)) (h :: nat)"
  by (auto simp: min_def)

lemma reconnect_loop_exact:
  "\<forall>a\<in>set as. \<not> at_triggered a \<and> \<not> at_connected a \<and> at_ended a = SessionDisconnected \<and>
     \<not> at_interrupted a \<Longrightarrow>
   fst (snd (reconnect_loop lo hi (min (b * 2 ^ k) hi) as)) =
     map (\<lambda>i. min (b * 2 ^ (k + i)) hi) [0..<length as]"
proof (induction as arbitrary: k)
  case (Cons a as)
  have "fst (snd (reconnect_loop lo hi (min (b * 2 ^ Suc k) hi) as)) =
      map (\<lambda>i. min (b * 2 ^ (Suc k + i)) hi) [0..<length as]"
    using Cons.prems by (intro Cons.IH) simp
  then show ?case
    using Cons.prems by (simp add: Let_def case_prod_beta min_double map_upt_Suc del: upt_Suc)
qed simp

subsection \<open>The frames of one payload\<close>

text \<open>A message is passed on as soon as every frame has arrived, and as often at most as the rarest one.\<close>

lemma completions_nonempty:
  "got \<subset> all \<Longrightarrow> set (map (snd \<circ> snd) arr) \<subseteq> all \<Longrightarrow>
   completions all got arr \<noteq> [] \<longleftrightarrow> all \<subseteq> got \<union> set (map (snd \<circ> snd) arr)"
proof (induction all got arr rule: completions.induct)
  case (2 all got t sys w arr)
  show ?case
  proof (cases "insert w got = all")
    case True
    then show ?thesis by auto
  next
    case False
    then have "insert w got \<subset> all" using "2.prems" by auto
    then show ?thesis using "2.IH"(2) [OF False] "2.prems" False by auto
  qed
qed auto

lemma completions_bound:
  "w \<in> all \<Longrightarrow> length (completions all got arr) \<le> (if w \<in> got then 1 else 0) + count_list (map (snd \<circ> snd) arr) w"
proof (induction all got arr rule: completions.induct)
  case (2 all got t sys x arr)
  then show ?case by (cases "insert x got = all") (force split: if_splits)+
qed simp

abbreviation passed_on :: "SignedEnvelope \<Rightarrow> bytes \<Rightarrow> u32 \<Rightarrow> SystemTime \<Rightarrow> IngressMessage" where
  "passed_on env raw s sys \<equiv>
     \<lparr>im_envelope = env, im_raw_envelope = raw, im_transport = meshtastic_metadata s, im_received_at = sys\<rparr>"

lemma single_frames:
  assumes "parse_frame w = Ok (Single raw)" and "dec raw = Ok env"
  shows "set (map (snd \<circ> snd) arr) \<subseteq> {w} \<Longrightarrow> left_over {w} {} arr = {} \<and>
    (\<exists>ms. session_loop sha dec config (map (frame_event config s) arr) r =
       Some (None, map (passed_on env raw s) (completions {w} {} arr), r, ms))"
proof (induction arr)
  case (Cons a arr)
  obtain t sys where a: "a = (t, sys, w)" using Cons.prems by (cases a) auto
  have "\<exists>ms. session_step sha dec config (frame_event config s a) r = Some (None, [passed_on env raw s sys], r, ms)"
    using assms by (simp add: a session_step_def frame_event_def handle_packet_def frame_packet_def handle_frame_def
        decode_envelope_def)
  then show ?case using Cons by (auto simp: a)
qed simp

lemma fragment_frames:
  assumes frg: "fragmented raw" and absent: "map_of (re_assemblies r0) (s, message_id sha raw) = None"
    and room: "length (chunks MAX_FRAGMENT_BODY raw) \<le> max_fragments (re_config r0)"
      "length (re_assemblies r0) < max_pending (re_config r0)"
      "sender_pending r0 s < max_pending_per_sender (re_config r0)"
      "length raw \<le> max_reassembled_bytes (re_config r0)"
    and g: "\<forall>w\<in>all. parse_frame w = Ok (Fragment (fragments_of sha raw ! h w))"
    and h: "inj_on h all" "h ` all = {..<length (chunks MAX_FRAGMENT_BODY raw)}" and dec: "dec raw = Ok env"
  shows "got \<subset> all \<Longrightarrow> set (map (snd \<circ> snd) arr) \<subseteq> all \<Longrightarrow> assembling sha s raw r0 (h ` got) r \<Longrightarrow>
    \<exists>r' ms. session_loop sha dec config (map (frame_event config s) arr) r =
       Some (None, map (passed_on env raw s) (completions all got arr), r', ms) \<and>
     assembling sha s raw r0 (h ` left_over all got arr) r'"
proof (induction arr arbitrary: got r)
  case (Cons a arr)
  obtain t sys w where a: "a = (t, sys, w)" by (cases a)
  have w: "w \<in> all" using Cons.prems(2) a by simp
  have sub: "insert w got \<subseteq> all" using w Cons.prems(1) by auto
  have img: "h ` got \<subset> {..<length (chunks MAX_FRAGMENT_BODY raw)}"
    using Cons.prems(1) inj_on_image_eq_iff [OF h(1), of got all] unfolding h(2) [symmetric] by blast
  have full: "insert (h w) (h ` got) = {..<length (chunks MAX_FRAGMENT_BODY raw)} \<longleftrightarrow> insert w got = all"
    using inj_on_image_eq_iff [OF h(1) sub order_refl] h(2) by simp
  have hw: "h w < length (chunks MAX_FRAGMENT_BODY raw)" using w h(2) by blast
  obtain out r1 where acc: "accept sha t s (fragments_of sha raw ! h w) r = Some (out, r1)"
    and case_out: "if insert w got = all then out = Complete raw \<and> assembling sha s raw r0 {} r1
      else out \<in> {Progress, DuplicateIgnored} \<and> assembling sha s raw r0 (h ` insert w got) r1"
    using accept_assembling [OF frg absent room img hw Cons.prems(3), of t] unfolding full image_insert by blast
  have parse: "parse_frame w = Ok (Fragment (fragments_of sha raw ! h w))" using g w by blast
  show ?case
  proof (cases "insert w got = all")
    case True
    have "{} \<subset> all" using w by auto
    from Cons.IH [OF this, of r1] obtain r' ms where
      rest: "session_loop sha dec config (map (frame_event config s) arr) r1 =
         Some (None, map (passed_on env raw s) (completions all {} arr), r', ms)"
      "assembling sha s raw r0 (h ` left_over all {} arr) r'" using case_out True Cons.prems(2) by auto
    from acc case_out True have "accept sha t s (fragments_of sha raw ! h w) r = Some (Complete raw, r1)" by simp
    from session_complete [where dec = dec and raw = raw and env = env, OF parse this dec, of config sys] rest True
    show ?thesis by (auto simp: a)
  next
    case False
    then have "insert w got \<subset> all" using sub by auto
    from Cons.IH [OF this, of r1] obtain r' ms where
      rest: "session_loop sha dec config (map (frame_event config s) arr) r1 =
         Some (None, map (passed_on env raw s) (completions all (insert w got) arr), r', ms)"
      "assembling sha s raw r0 (h ` left_over all (insert w got) arr) r'" using case_out False Cons.prems(2) by auto
    from session_fragment [OF parse acc, of dec config sys] case_out False rest show ?thesis by (auto simp: a)
  qed
qed auto

lemma frames_arrive:
  assumes "digest_len sha" and "encode_frames sha raw = Ok frames" and "dec raw = Ok env"
    and "set (map (snd \<circ> snd) arr) \<subseteq> set frames"
    and "map_of (re_assemblies r) (s, message_id sha raw) = None"
    and "length (fragments_of sha raw) \<le> max_fragments (re_config r)"
    and "length (re_assemblies r) < max_pending (re_config r)"
    and "sender_pending r s < max_pending_per_sender (re_config r)"
    and "length raw \<le> max_reassembled_bytes (re_config r)"
  shows "(\<exists>r' ms. session_loop sha dec config (map (frame_event config s) arr) r =
      Some (None, map (passed_on env raw s) (completions (set frames) {} arr), r', ms) \<and>
      (\<forall>k. k \<noteq> (s, message_id sha raw) \<longrightarrow> map_of (re_assemblies r') k = map_of (re_assemblies r) k) \<and>
      (if left_over (set frames) {} arr = {} then re_assemblies r' = re_assemblies r
       else map_of (re_assemblies r') (s, message_id sha raw) \<noteq> None)) \<and>
    (completions (set frames) {} arr \<noteq> [] \<longleftrightarrow> set frames \<subseteq> set (map (snd \<circ> snd) arr)) \<and>
    (\<forall>w\<in>set frames. length (completions (set frames) {} arr) \<le> count_list (map (snd \<circ> snd) arr) w)"
proof -
  have "(\<exists>r' ms. session_loop sha dec config (map (frame_event config s) arr) r =
      Some (None, map (passed_on env raw s) (completions (set frames) {} arr), r', ms) \<and>
      (\<forall>k. k \<noteq> (s, message_id sha raw) \<longrightarrow> map_of (re_assemblies r') k = map_of (re_assemblies r) k) \<and>
      (if left_over (set frames) {} arr = {} then re_assemblies r' = re_assemblies r
       else map_of (re_assemblies r') (s, message_id sha raw) \<noteq> None)) \<and> set frames \<noteq> {}"
  proof (cases "length raw \<le> MAX_SINGLE_BODY")
    case True
    then have "map parse_frame frames = [Ok (Single raw)]" using parse_encoded_frames [OF assms(1,2)] by simp
    then obtain w where w: "frames = [w]" "parse_frame w = Ok (Single raw)" by auto
    then show ?thesis using single_frames [where dec = dec, OF w(2) assms(3), of arr sha config s r] assms(4) by auto
  next
    case False
    have frg: "fragmented raw"
      using assms(2) by (cases rule: encode_frames_Ok_cases) (use False in \<open>auto simp: fragmented_def\<close>)
    obtain g where g: "\<forall>w\<in>set frames. parse_frame w = Ok (Fragment (g w))"
      "g ` set frames = set (fragments_of sha raw)" "inj_on g (set frames)"
      using encoded_fragments [OF assms(1,2)] False by auto
    let ?h = "\<lambda>w. unat (ff_index (g w))"
    have nth: "fragments_of sha raw ! unat (ff_index f) = f" if "f \<in> set (fragments_of sha raw)" for f
      using that fields(2) [OF frg, of _ sha] by (auto simp: in_set_conv_nth)
    have all: "\<forall>w\<in>set frames. parse_frame w = Ok (Fragment (fragments_of sha raw ! ?h w))"
      using g(1,2) nth by (metis imageI)
    have inj: "inj_on ?h (set frames)"
      using comp_inj_on [OF g(3)] fragment_index_inj [OF frg, of sha] g(2) by (simp add: comp_def)
    have img: "?h ` set frames = {..<length (chunks MAX_FRAGMENT_BODY raw)}"
      using fragments_of_indices [OF frg, of sha] unfolding g(2) [symmetric] by (simp add: image_image)
    have "card (?h ` set frames) \<noteq> 0" using frg unfolding img by (auto simp: fragmented_def)
    then have "set frames \<noteq> {}" by auto
    moreover have "assembling sha s raw r {} r" by (simp add: assembling_def)
    ultimately obtain r' ms where
      run: "session_loop sha dec config (map (frame_event config s) arr) r =
        Some (None, map (passed_on env raw s) (completions (set frames) {} arr), r', ms)"
      and st: "assembling sha s raw r (?h ` left_over (set frames) {} arr) r'"
      using fragment_frames [where dec = dec and config = config and got = "{}" and arr = arr and r = r,
        OF frg assms(5) _ assms(7-9) all inj img assms(3)] assms(4,6) by auto
    have "(\<forall>k. k \<noteq> (s, message_id sha raw) \<longrightarrow> map_of (re_assemblies r') k = map_of (re_assemblies r) k) \<and>
      (if left_over (set frames) {} arr = {} then re_assemblies r' = re_assemblies r
       else map_of (re_assemblies r') (s, message_id sha raw) \<noteq> None)"
      using st by (auto simp: assembling_def split: if_splits)
    then show ?thesis using run \<open>set frames \<noteq> {}\<close> by blast
  qed
  then show ?thesis using completions_nonempty [of "{}" "set frames" arr] assms(4) completions_bound [of _ "set frames" "{}" arr]
    by auto
qed

section \<open>Properties\<close>

text \<open>C4. A Meshtastic sender reaches the pipeline. Whatever payload the sender's encoder accepts: when frames of it
  arrive, in any order and each any number of times, on the configured port, authenticated, from one node with
  room for an assembly and nothing else in between, the session passes on the decoded envelope with the exact
  bytes of the payload, labelled with the sending node, each time all its frames have arrived since it last did
  and at no other time. So it passes it on if every frame arrives, and no more often than the rarest frame does
  (once, if one comes once); other assemblies are untouched, and no assembly of the payload remains unless frames
  arrived again after the last completion.\<close>

theorem meshtastic_end_to_end:
  assumes "digest_len sha" and "encode_frames sha raw = Ok frames" and "dec raw = Ok env"
    and "set (map (snd \<circ> snd) arr) \<subseteq> set frames"
    and "map_of (re_assemblies r) (s, message_id sha raw) = None"
    and "length (fragments_of sha raw) \<le> max_fragments (re_config r)"
    and "length (re_assemblies r) < max_pending (re_config r)"
    and "sender_pending r s < max_pending_per_sender (re_config r)"
    and "length raw \<le> max_reassembled_bytes (re_config r)"
  shows "(\<exists>r' ms. session_loop sha dec config (map (frame_event config s) arr) r =
      Some (None, map (passed_on env raw s) (completions (set frames) {} arr), r', ms) \<and>
      (\<forall>k. k \<noteq> (s, message_id sha raw) \<longrightarrow> map_of (re_assemblies r') k = map_of (re_assemblies r) k) \<and>
      (if left_over (set frames) {} arr = {} then re_assemblies r' = re_assemblies r
       else map_of (re_assemblies r') (s, message_id sha raw) \<noteq> None)) \<and>
    (completions (set frames) {} arr \<noteq> [] \<longleftrightarrow> set frames \<subseteq> set (map (snd \<circ> snd) arr)) \<and>
    (\<forall>w\<in>set frames. length (completions (set frames) {} arr) \<le> count_list (map (snd \<circ> snd) arr) w)"
  using assms by (rule frames_arrive)

text \<open>C26. A session is safe whatever the radio delivers: over any sequence of packets, ticks and
  shutdown it never panics, its reassembler keeps its invariant, and every message it passes on decodes to the
  envelope it carries, is labelled with the sending node, is within the configured size, and has its bytes, all of
  them, from authenticated packets of that node on the configured port: one frame, or for each index the
  fragment of this message, whatever else arrived in between.\<close>

theorem serve_session_safe:
  "\<exists>e sent r' ms. serve_session sha dec config evs = Some (e, sent, r', ms) \<and> reassembler_ok r' \<and>
     (\<forall>m\<in>set sent. message_ok sha dec config evs m)"
proof -
  have "re_config (new_reassembler (reassembler_config config)) = reassembler_config config"
    by (simp add: new_reassembler_def)
  from session_loop_ok [OF new_reassembler_ok this slots_from_new, where past = "[]" and sha = sha and dec = dec and evs = evs]
  show ?thesis unfolding serve_session_def by auto
qed

text \<open>Reconnecting backs off within its bounds: every delay lies between the (at least one
  second) minimum and the maximum, each is counted, and while the radio stays unreachable the
  delays are the minimum doubled again and again up to the maximum.\<close>

lemma reconnect_backoff:
  "(\<forall>d\<in>set (fst (snd (run_reconnect_loop c as))).
      from_secs (max (mc_reconnect_min_secs c) 1) \<le> d \<and>
      d \<le> from_secs (max (mc_reconnect_max_secs c) (max (mc_reconnect_min_secs c) 1)))
   \<and> counted MESHTASTIC_RECONNECTS_TOTAL (snd (snd (run_reconnect_loop c as))) =
       length (fst (snd (run_reconnect_loop c as)))
   \<and> ((\<forall>a\<in>set as. \<not> at_triggered a \<and> \<not> at_connected a \<and> at_ended a = SessionDisconnected \<and>
         \<not> at_interrupted a) \<longrightarrow>
      fst (snd (run_reconnect_loop c as)) =
        map (\<lambda>i. min (from_secs (max (mc_reconnect_min_secs c) 1) * 2 ^ i)
                     (from_secs (max (mc_reconnect_max_secs c) (max (mc_reconnect_min_secs c) 1))))
          [0..<length as])"
proof -
  define lo where "lo = from_secs (max (mc_reconnect_min_secs c) 1)"
  define hi where "hi = from_secs (max (mc_reconnect_max_secs c) (max (mc_reconnect_min_secs c) 1))"
  have le: "lo \<le> hi" by (simp add: lo_def hi_def from_secs_def)
  have run: "run_reconnect_loop c as = reconnect_loop lo hi lo as"
    by (simp add: run_reconnect_loop_def lo_def hi_def Let_def)
  have "(\<forall>d\<in>set (fst (snd (reconnect_loop lo hi lo as))). lo \<le> d \<and> d \<le> hi) \<and>
      counted MESHTASTIC_RECONNECTS_TOTAL (snd (snd (reconnect_loop lo hi lo as))) =
        length (fst (snd (reconnect_loop lo hi lo as)))"
    using reconnect_loop_bounds [OF le order_refl le, of as] by (metis prod.collapse)
  moreover have "fst (snd (reconnect_loop lo hi lo as)) = map (\<lambda>i. min (lo * 2 ^ i) hi) [0..<length as]"
    if "\<forall>a\<in>set as. \<not> at_triggered a \<and> \<not> at_connected a \<and> at_ended a = SessionDisconnected \<and>
         \<not> at_interrupted a"
    using reconnect_loop_exact [OF that, of lo hi lo 0] le by (simp add: min_def)
  ultimately show ?thesis unfolding run lo_def [symmetric] hi_def [symmetric] by blast
qed

text \<open>The HTTP answer tells the sender the truth: \<open>202\<close> exactly when the message, with the
  exact body bytes and their decoded envelope, was appended to the channel; on \<open>400\<close>, \<open>429\<close> and
  \<open>503\<close> the channel is unchanged; the received counter counts the \<open>202\<close> answers.\<close>

lemma ingest_truthful:
  assumes "try_send_ok try_send queue" and "ingest dec try_send now body ch = ((code, txt), ch', ms)"
  shows "(code = ACCEPTED \<longleftrightarrow>
      (\<exists>e. dec body = Ok e \<and>
         queue ch' = queue ch @ [\<lparr>im_envelope = e, im_raw_envelope = body,
                                  im_transport = http_metadata None, im_received_at = now\<rparr>]))
    \<and> (code \<noteq> ACCEPTED \<longrightarrow> queue ch' = queue ch)
    \<and> (code = BAD_REQUEST \<longleftrightarrow> isl (dec body))
    \<and> counted INGRESS_RECEIVED_TOTAL ms = (if code = ACCEPTED then 1 else 0)"
proof (cases "dec body")
  case (Inl e)
  then show ?thesis using assms(2) by (auto simp: ingest_def decode_envelope_def)
next
  case (Inr e)
  define m where "m = \<lparr>im_envelope = e, im_raw_envelope = body,
    im_transport = http_metadata None, im_received_at = now\<rparr>"
  obtain o1 ch1 where s: "try_send m ch = (o1, ch1)" by (cases "try_send m ch")
  have q: "queue ch1 = queue ch @ (if o1 = Sent then [m] else [])"
    using assms(1) s unfolding try_send_ok_def by (metis fst_conv snd_conv)
  show ?thesis using assms(2) Inr q s
    by (cases o1) (auto simp: ingest_def decode_envelope_def Let_def m_def [symmetric])
qed

end
