(* ===== verification/BatchStore.thy ===== *)
theory BatchStore
  imports Ingress
begin

text \<open>
  The durable queue of pending messages and ready batches: \<open>crates/edge/src/batch_store/model.rs\<close>,
  \<open>batch_store/redb.rs\<close> and \<open>batch_store/mod.rs\<close>.

  The \<open>redb\<close> crate is a parameter: \<open>table_ops\<close> are the operations of an ordered table with \<open>u64\<close> keys
  and \<open>meta_ops\<close> those of the metadata table, with their documented laws \<open>redb_laws\<close>. A write
  transaction works on a copy of the tables that replaces them at \<open>commit\<close> (\<open>write_txn\<close>); dropping it
  changes nothing. Every operation can fail in the database or in the blocking task; the argument
  \<open>io\<close> says so. The contract the pipeline's sink, the batcher and the anchor rely on is the locale
  \<open>batch_store\<close>.
\<close>

section \<open>Data model\<close>

text \<open>Milliseconds since the Unix epoch; \<open>SystemTime\<close> is in nanoseconds.\<close>

type_synonym Timestamp = u64
type_synonym MessageId = u64
type_synonym BatchId = u64

definition timestamp_from :: "SystemTime \<Rightarrow> Timestamp" where
  "timestamp_from time =
     (let millis = (if time < 0 then 0 else nat time div 1000000)
      in if millis < 2 ^ 64 then word_of_nat millis else - 1)"

definition elapsed_until :: "Timestamp \<Rightarrow> Timestamp \<Rightarrow> duration" where
  "elapsed_until since now = from_millis (unat now - unat since)"

record StoredMessage =
  sm_sequence :: MessageId
  sm_received_at :: Timestamp
  sm_envelope :: bytes

record PreparedBatch =
  pb_message_count :: u32
  pb_payload :: bytes

record StoredBatch =
  sb_id :: BatchId
  sb_created_at :: Timestamp
  sb_message_count :: u32
  sb_payload :: bytes

record StoreCounts =
  sc_pending_messages :: nat
  sc_ready_batches :: nat

record FormatDescriptor =
  fd_schema :: string
  fd_schema_version :: u32
  fd_encoding :: string
  fd_compression :: string

datatype StoreError = Database string | Corrupt string | NotPending MessageId | Task string

section \<open>Stored values\<close>

definition TIMESTAMP_LEN :: nat where
  "TIMESTAMP_LEN = 8"

definition BATCH_HEADER_LEN :: nat where
  "BATCH_HEADER_LEN = TIMESTAMP_LEN + 4"

definition encode_message :: "Timestamp \<Rightarrow> bytes \<Rightarrow> bytes" where
  "encode_message received_at envelope = u64_to_le_bytes received_at @ envelope"

definition decode_message :: "u64 \<Rightarrow> bytes \<Rightarrow> StoreError + StoredMessage" where
  "decode_message sequence v =
     (if length v < TIMESTAMP_LEN
      then Err (Corrupt (''pending message '' @ show_nat (unat sequence) @ '' is truncated''))
      else Ok \<lparr>sm_sequence = sequence,
               sm_received_at = u64_from_le_bytes (take TIMESTAMP_LEN v),
               sm_envelope = drop TIMESTAMP_LEN v\<rparr>)"

definition encode_batch :: "Timestamp \<Rightarrow> PreparedBatch \<Rightarrow> bytes" where
  "encode_batch created_at batch =
     u64_to_le_bytes created_at @ u32_to_le_bytes (pb_message_count batch) @ pb_payload batch"

definition decode_batch :: "u64 \<Rightarrow> bytes \<Rightarrow> StoreError + StoredBatch" where
  "decode_batch i v =
     (if length v < BATCH_HEADER_LEN
      then Err (Corrupt (''ready batch '' @ show_nat (unat i) @ '' is truncated''))
      else
        let header = take BATCH_HEADER_LEN v
        in Ok \<lparr>sb_id = i, sb_created_at = u64_from_le_bytes (take TIMESTAMP_LEN header),
               sb_message_count = u32_from_le_bytes (drop TIMESTAMP_LEN header),
               sb_payload = drop BATCH_HEADER_LEN v\<rparr>)"

section \<open>The database\<close>

record 't table_ops =
  tb_insert :: "u64 \<Rightarrow> bytes \<Rightarrow> 't \<Rightarrow> 't"
  tb_remove :: "u64 \<Rightarrow> 't \<Rightarrow> bytes option \<times> 't"
  tb_iter :: "'t \<Rightarrow> (u64 \<times> bytes) list"
  tb_len :: "'t \<Rightarrow> nat"

record 'm meta_ops =
  mt_get :: "string \<Rightarrow> 'm \<Rightarrow> bytes option"
  mt_insert :: "string \<Rightarrow> bytes \<Rightarrow> 'm \<Rightarrow> 'm"

record ('t, 'm) redb_ops =
  ro_table :: "'t table_ops"
  ro_meta :: "'m meta_ops"

record ('t, 'm) RedbBatchStore =
  db_pending :: 't
  db_ready :: 't
  db_meta :: 'm

definition NEXT_SEQUENCE :: string where
  "NEXT_SEQUENCE = ''next_sequence''"

definition NEXT_BATCH_ID :: string where
  "NEXT_BATCH_ID = ''next_batch_id''"

text \<open>How the blocking task and the database behave in one call.\<close>

datatype io_outcome = IoOk | IoDatabase string | IoTask string

definition blocking :: "io_outcome \<Rightarrow> ('d \<Rightarrow> (StoreError + 'a) \<times> 'd) \<Rightarrow> 'd \<Rightarrow> (StoreError + 'a) \<times> 'd" where
  "blocking io f db =
     (case io of
        IoOk \<Rightarrow> f db
      | IoDatabase e \<Rightarrow> (Err (Database e), db)
      | IoTask e \<Rightarrow> (Err (Task e), db))"

definition write_txn :: "('d \<Rightarrow> StoreError + 'a \<times> 'd) \<Rightarrow> 'd \<Rightarrow> (StoreError + 'a) \<times> 'd" where
  "write_txn f db = (case f db of Err e \<Rightarrow> (Err e, db) | Ok (a, db') \<Rightarrow> (Ok a, db'))"

definition read_txn :: "('d \<Rightarrow> StoreError + 'a) \<Rightarrow> 'd \<Rightarrow> (StoreError + 'a) \<times> 'd" where
  "read_txn f db = (f db, db)"

definition next_counter :: "'m meta_ops \<Rightarrow> string \<Rightarrow> 'm \<Rightarrow> StoreError + u64 \<times> 'm" where
  "next_counter ops key m =
     (case mt_get ops key m of
        None \<Rightarrow> Ok (0, mt_insert ops key (u64_to_le_bytes 1) m)
      | Some v \<Rightarrow>
          if length v \<noteq> 8 then Err (Corrupt (''counter '' @ key @ '' is not 8 bytes''))
          else let current = u64_from_le_bytes v
               in Ok (current, mt_insert ops key (u64_to_le_bytes (current + 1)) m))"

section \<open>Operations\<close>

definition push_message ::
  "('t, 'm) redb_ops \<Rightarrow> io_outcome \<Rightarrow> Timestamp \<Rightarrow> bytes \<Rightarrow> ('t, 'm) RedbBatchStore
    \<Rightarrow> (StoreError + MessageId) \<times> ('t, 'm) RedbBatchStore" where
  "push_message ops io received_at envelope =
     blocking io (write_txn (\<lambda>db.
       case next_counter (ro_meta ops) NEXT_SEQUENCE (db_meta db) of
         Err e \<Rightarrow> Err e
       | Ok (sequence, meta) \<Rightarrow>
           Ok (sequence,
               db\<lparr>db_meta := meta,
                  db_pending := tb_insert (ro_table ops) sequence (encode_message received_at envelope)
                                  (db_pending db)\<rparr>)))"

fun collect :: "('a \<Rightarrow> 'e + 'b) \<Rightarrow> 'a list \<Rightarrow> 'e + 'b list" where
  "collect f [] = Ok []"
| "collect f (x # xs) =
     (case f x of
        Err e \<Rightarrow> Err e
      | Ok y \<Rightarrow> (case collect f xs of Err e \<Rightarrow> Err e | Ok ys \<Rightarrow> Ok (y # ys)))"

definition pending_messages ::
  "('t, 'm) redb_ops \<Rightarrow> io_outcome \<Rightarrow> nat \<Rightarrow> ('t, 'm) RedbBatchStore
    \<Rightarrow> (StoreError + StoredMessage list) \<times> ('t, 'm) RedbBatchStore" where
  "pending_messages ops io limit =
     blocking io (read_txn (\<lambda>db.
       collect (\<lambda>(k, v). decode_message k v) (take limit (tb_iter (ro_table ops) (db_pending db)))))"

text \<open>The two loops of \<open>commit_batches\<close>.\<close>

fun remove_consumed :: "'t table_ops \<Rightarrow> MessageId list \<Rightarrow> 't \<Rightarrow> StoreError + 't" where
  "remove_consumed ops [] t = Ok t"
| "remove_consumed ops (message # ms) t =
     (case tb_remove ops message t of
        (None, t') \<Rightarrow> Err (NotPending message)
      | (Some _, t') \<Rightarrow> remove_consumed ops ms t')"

fun insert_prepared ::
  "('t, 'm) redb_ops \<Rightarrow> Timestamp \<Rightarrow> PreparedBatch list \<Rightarrow> 'm \<Rightarrow> 't
    \<Rightarrow> StoreError + BatchId list \<times> 'm \<times> 't" where
  "insert_prepared ops created_at [] meta ready = Ok ([], meta, ready)"
| "insert_prepared ops created_at (batch # bs) meta ready =
     (case next_counter (ro_meta ops) NEXT_BATCH_ID meta of
        Err e \<Rightarrow> Err e
      | Ok (i, meta') \<Rightarrow>
          (case insert_prepared ops created_at bs meta'
                  (tb_insert (ro_table ops) i (encode_batch created_at batch) ready) of
             Err e \<Rightarrow> Err e
           | Ok (ids, meta'', ready') \<Rightarrow> Ok (i # ids, meta'', ready')))"

definition commit_batches ::
  "('t, 'm) redb_ops \<Rightarrow> io_outcome \<Rightarrow> Timestamp \<Rightarrow> MessageId list \<Rightarrow> PreparedBatch list
    \<Rightarrow> ('t, 'm) RedbBatchStore \<Rightarrow> (StoreError + BatchId list) \<times> ('t, 'm) RedbBatchStore" where
  "commit_batches ops io created_at consumed prepared =
     blocking io (write_txn (\<lambda>db.
       case remove_consumed (ro_table ops) consumed (db_pending db) of
         Err e \<Rightarrow> Err e
       | Ok pending \<Rightarrow>
           (case insert_prepared ops created_at prepared (db_meta db) (db_ready db) of
              Err e \<Rightarrow> Err e
            | Ok (ids, meta, ready) \<Rightarrow>
                Ok (ids, \<lparr>db_pending = pending, db_ready = ready, db_meta = meta\<rparr>))))"

definition ready_batches ::
  "('t, 'm) redb_ops \<Rightarrow> io_outcome \<Rightarrow> nat \<Rightarrow> ('t, 'm) RedbBatchStore
    \<Rightarrow> (StoreError + StoredBatch list) \<times> ('t, 'm) RedbBatchStore" where
  "ready_batches ops io limit =
     blocking io (read_txn (\<lambda>db.
       collect (\<lambda>(k, v). decode_batch k v) (take limit (tb_iter (ro_table ops) (db_ready db)))))"

definition confirm_batch ::
  "('t, 'm) redb_ops \<Rightarrow> io_outcome \<Rightarrow> BatchId \<Rightarrow> ('t, 'm) RedbBatchStore
    \<Rightarrow> (StoreError + unit) \<times> ('t, 'm) RedbBatchStore" where
  "confirm_batch ops io i =
     blocking io (write_txn (\<lambda>db.
       Ok ((), db\<lparr>db_ready := snd (tb_remove (ro_table ops) i (db_ready db))\<rparr>)))"

definition store_counts ::
  "('t, 'm) redb_ops \<Rightarrow> io_outcome \<Rightarrow> ('t, 'm) RedbBatchStore
    \<Rightarrow> (StoreError + StoreCounts) \<times> ('t, 'm) RedbBatchStore" where
  "store_counts ops io =
     blocking io (read_txn (\<lambda>db.
       Ok \<lparr>sc_pending_messages = tb_len (ro_table ops) (db_pending db),
           sc_ready_batches = tb_len (ro_table ops) (db_ready db)\<rparr>))"

section \<open>The payload format\<close>

definition parse_u32 :: "string \<Rightarrow> u32 option" where
  "parse_u32 s = map_option word_of_nat (parse_unsigned (2 ^ 32) s)"

definition PAYLOAD_SCHEMA_KEY :: string where
  "PAYLOAD_SCHEMA_KEY = ''payload_schema''"

definition PAYLOAD_SCHEMA_VERSION_KEY :: string where
  "PAYLOAD_SCHEMA_VERSION_KEY = ''payload_schema_version''"

definition PAYLOAD_ENCODING_KEY :: string where
  "PAYLOAD_ENCODING_KEY = ''payload_encoding''"

definition PAYLOAD_COMPRESSION_KEY :: string where
  "PAYLOAD_COMPRESSION_KEY = ''payload_compression''"

lemmas meta_keys = PAYLOAD_SCHEMA_KEY_def PAYLOAD_SCHEMA_VERSION_KEY_def PAYLOAD_ENCODING_KEY_def
  PAYLOAD_COMPRESSION_KEY_def NEXT_SEQUENCE_def NEXT_BATCH_ID_def

definition read_text :: "'m meta_ops \<Rightarrow> string \<Rightarrow> 'm \<Rightarrow> StoreError + string option" where
  "read_text ops key m =
     (case mt_get ops key m of
        None \<Rightarrow> Ok None
      | Some v \<Rightarrow>
          (case from_utf8 v of
             None \<Rightarrow> Err (Corrupt (''metadata key '' @ key @ '' is not UTF-8''))
           | Some s \<Rightarrow> Ok (Some s)))"

definition format_descriptor ::
  "('t, 'm) redb_ops \<Rightarrow> io_outcome \<Rightarrow> ('t, 'm) RedbBatchStore
    \<Rightarrow> (StoreError + FormatDescriptor option) \<times> ('t, 'm) RedbBatchStore" where
  "format_descriptor ops io =
     blocking io (read_txn (\<lambda>db.
       case collect (\<lambda>key. read_text (ro_meta ops) key (db_meta db))
              [PAYLOAD_SCHEMA_KEY, PAYLOAD_SCHEMA_VERSION_KEY, PAYLOAD_ENCODING_KEY,
               PAYLOAD_COMPRESSION_KEY] of
         Err e \<Rightarrow> Err e
       | Ok [Some schema, Some version, Some encoding, Some packing] \<Rightarrow>
           (case parse_u32 version of
              None \<Rightarrow> Err (Corrupt (''invalid '' @ PAYLOAD_SCHEMA_VERSION_KEY @ '': '' @ version))
            | Some v \<Rightarrow> Ok (Some \<lparr>fd_schema = schema, fd_schema_version = v, fd_encoding = encoding,
                                fd_compression = packing\<rparr>))
       | Ok _ \<Rightarrow> Ok None))"

definition set_format_descriptor ::
  "('t, 'm) redb_ops \<Rightarrow> io_outcome \<Rightarrow> FormatDescriptor \<Rightarrow> ('t, 'm) RedbBatchStore
    \<Rightarrow> (StoreError + unit) \<times> ('t, 'm) RedbBatchStore" where
  "set_format_descriptor ops io d =
     blocking io (write_txn (\<lambda>db.
       Ok ((), db\<lparr>db_meta := fold (\<lambda>(key, v). mt_insert (ro_meta ops) key (as_bytes v))
         [(PAYLOAD_SCHEMA_KEY, fd_schema d),
          (PAYLOAD_SCHEMA_VERSION_KEY, show_nat (unat (fd_schema_version d))),
          (PAYLOAD_ENCODING_KEY, fd_encoding d), (PAYLOAD_COMPRESSION_KEY, fd_compression d)]
         (db_meta db)\<rparr>)))"

datatype FormatOutcome = Unchanged | Recorded | Updated FormatDescriptor

datatype FormatError = Incompatible FormatDescriptor FormatDescriptor nat | FormatStore StoreError

text \<open>\<open>ios\<close> are the outcomes of its calls: reading the descriptor, counting, and writing it.\<close>

definition reconcile_format ::
  "('t, 'm) redb_ops \<Rightarrow> io_outcome \<times> io_outcome \<times> io_outcome \<Rightarrow> FormatDescriptor
    \<Rightarrow> ('t, 'm) RedbBatchStore \<Rightarrow> (FormatError + FormatOutcome) \<times> ('t, 'm) RedbBatchStore" where
  "reconcile_format ops = (\<lambda>(io_read, io_count, io_write) configured db.
     case format_descriptor ops io_read db of
       (Err e, db1) \<Rightarrow> (Err (FormatStore e), db1)
     | (Ok None, db1) \<Rightarrow>
         (case set_format_descriptor ops io_write configured db1 of
            (Err e, db2) \<Rightarrow> (Err (FormatStore e), db2)
          | (Ok _, db2) \<Rightarrow> (Ok Recorded, db2))
     | (Ok (Some stored), db1) \<Rightarrow>
         if stored = configured then (Ok Unchanged, db1)
         else (case store_counts ops io_count db1 of
                 (Err e, db2) \<Rightarrow> (Err (FormatStore e), db2)
               | (Ok c, db2) \<Rightarrow>
                   if sc_ready_batches c > 0
                   then (Err (Incompatible stored configured (sc_ready_batches c)), db2)
                   else (case set_format_descriptor ops io_write configured db2 of
                           (Err e, db3) \<Rightarrow> (Err (FormatStore e), db3)
                         | (Ok _, db3) \<Rightarrow> (Ok (Updated stored), db3))))"

section \<open>The trait\<close>

text \<open>\<open>BatchStore\<close> as the record of its queue operations, which the batcher and the anchor call.\<close>

record 's BatchStoreApi =
  api_push :: "io_outcome \<Rightarrow> Timestamp \<Rightarrow> bytes \<Rightarrow> 's \<Rightarrow> (StoreError + MessageId) \<times> 's"
  api_pending :: "io_outcome \<Rightarrow> nat \<Rightarrow> 's \<Rightarrow> (StoreError + StoredMessage list) \<times> 's"
  api_commit :: "io_outcome \<Rightarrow> Timestamp \<Rightarrow> MessageId list \<Rightarrow> PreparedBatch list \<Rightarrow> 's
    \<Rightarrow> (StoreError + BatchId list) \<times> 's"
  api_ready :: "io_outcome \<Rightarrow> nat \<Rightarrow> 's \<Rightarrow> (StoreError + StoredBatch list) \<times> 's"
  api_confirm :: "io_outcome \<Rightarrow> BatchId \<Rightarrow> 's \<Rightarrow> (StoreError + unit) \<times> 's"
  api_counts :: "io_outcome \<Rightarrow> 's \<Rightarrow> (StoreError + StoreCounts) \<times> 's"

definition redb_api :: "('t, 'm) redb_ops \<Rightarrow> ('t, 'm) RedbBatchStore BatchStoreApi" where
  "redb_api ops =
     \<lparr>api_push = push_message ops, api_pending = pending_messages ops,
      api_commit = commit_batches ops, api_ready = ready_batches ops,
      api_confirm = confirm_batch ops, api_counts = store_counts ops\<rparr>"

section \<open>Specification\<close>

text \<open>What \<open>redb\<close> documents: a table iterates over its entries in key order, one per key; insert and
  remove act on the map of entries; \<open>len\<close> counts. The metadata table is a map.\<close>

definition table_laws :: "'t table_ops \<Rightarrow> bool" where
  "table_laws ops \<longleftrightarrow>
     (\<forall>t. sorted (map fst (tb_iter ops t)) \<and> distinct (map fst (tb_iter ops t)) \<and>
          tb_len ops t = length (tb_iter ops t)) \<and>
     (\<forall>t k v. map_of (tb_iter ops (tb_insert ops k v t)) = (map_of (tb_iter ops t))(k \<mapsto> v)) \<and>
     (\<forall>t k. fst (tb_remove ops k t) = map_of (tb_iter ops t) k \<and>
            map_of (tb_iter ops (snd (tb_remove ops k t))) = (map_of (tb_iter ops t))(k := None))"

definition meta_laws :: "'m meta_ops \<Rightarrow> bool" where
  "meta_laws ops \<longleftrightarrow>
     (\<forall>m k v k'. mt_get ops k' (mt_insert ops k v m) = (if k' = k then Some v else mt_get ops k' m))"

definition redb_laws :: "('t, 'm) redb_ops \<Rightarrow> bool" where
  "redb_laws ops \<longleftrightarrow> table_laws (ro_table ops) \<and> meta_laws (ro_meta ops)"

text \<open>The two queues the tables stand for, and the counters.\<close>

definition pending_queue :: "('t, 'm) redb_ops \<Rightarrow> ('t, 'm) RedbBatchStore \<Rightarrow> StoredMessage list" where
  "pending_queue ops db =
     map (\<lambda>(k, v). \<lparr>sm_sequence = k, sm_received_at = u64_from_le_bytes (take 8 v),
                     sm_envelope = drop 8 v\<rparr>) (tb_iter (ro_table ops) (db_pending db))"

definition ready_queue :: "('t, 'm) redb_ops \<Rightarrow> ('t, 'm) RedbBatchStore \<Rightarrow> StoredBatch list" where
  "ready_queue ops db =
     map (\<lambda>(k, v). \<lparr>sb_id = k, sb_created_at = u64_from_le_bytes (take 8 v),
                     sb_message_count = u32_from_le_bytes (take 4 (drop 8 v)),
                     sb_payload = drop 12 v\<rparr>) (tb_iter (ro_table ops) (db_ready db))"

definition counter :: "('t, 'm) redb_ops \<Rightarrow> string \<Rightarrow> ('t, 'm) RedbBatchStore \<Rightarrow> u64" where
  "counter ops key db =
     (case mt_get (ro_meta ops) key (db_meta db) of None \<Rightarrow> 0 | Some v \<Rightarrow> u64_from_le_bytes v)"

definition store_ok :: "('t, 'm) redb_ops \<Rightarrow> ('t, 'm) RedbBatchStore \<Rightarrow> bool" where
  "store_ok ops db \<longleftrightarrow>
     (\<forall>(k, v)\<in>set (tb_iter (ro_table ops) (db_pending db)).
        8 \<le> length v \<and> k < counter ops NEXT_SEQUENCE db) \<and>
     (\<forall>(k, v)\<in>set (tb_iter (ro_table ops) (db_ready db)).
        12 \<le> length v \<and> k < counter ops NEXT_BATCH_ID db) \<and>
     (\<forall>key\<in>{NEXT_SEQUENCE, NEXT_BATCH_ID}. \<forall>v.
        mt_get (ro_meta ops) key (db_meta db) = Some v \<longrightarrow> length v = 8)"

lemma store_ok_code [code]:
  "store_ok ops db \<longleftrightarrow>
     (\<forall>(k, v)\<in>set (tb_iter (ro_table ops) (db_pending db)).
        8 \<le> length v \<and> k < counter ops NEXT_SEQUENCE db) \<and>
     (\<forall>(k, v)\<in>set (tb_iter (ro_table ops) (db_ready db)).
        12 \<le> length v \<and> k < counter ops NEXT_BATCH_ID db) \<and>
     (\<forall>key\<in>{NEXT_SEQUENCE, NEXT_BATCH_ID}.
        case mt_get (ro_meta ops) key (db_meta db) of None \<Rightarrow> True | Some v \<Rightarrow> length v = 8)"
  by (auto simp: store_ok_def split: option.splits)

text \<open>Room for \<open>n\<close> more identifiers in both 64-bit counters.\<close>

definition spare :: "('t, 'm) redb_ops \<Rightarrow> nat \<Rightarrow> ('t, 'm) RedbBatchStore \<Rightarrow> bool" where
  "spare ops n db \<longleftrightarrow>
     unat (counter ops NEXT_SEQUENCE db) + n < 2 ^ 64 \<and> unat (counter ops NEXT_BATCH_ID db) + n < 2 ^ 64"

text \<open>The contract of the \<open>BatchStore\<close> trait, in terms of the two queues.\<close>

locale batch_store =
  fixes push :: "io_outcome \<Rightarrow> Timestamp \<Rightarrow> bytes \<Rightarrow> 's \<Rightarrow> (StoreError + MessageId) \<times> 's"
    and pending :: "io_outcome \<Rightarrow> nat \<Rightarrow> 's \<Rightarrow> (StoreError + StoredMessage list) \<times> 's"
    and commit :: "io_outcome \<Rightarrow> Timestamp \<Rightarrow> MessageId list \<Rightarrow> PreparedBatch list \<Rightarrow> 's
      \<Rightarrow> (StoreError + BatchId list) \<times> 's"
    and ready :: "io_outcome \<Rightarrow> nat \<Rightarrow> 's \<Rightarrow> (StoreError + StoredBatch list) \<times> 's"
    and confirm :: "io_outcome \<Rightarrow> BatchId \<Rightarrow> 's \<Rightarrow> (StoreError + unit) \<times> 's"
    and inv :: "'s \<Rightarrow> bool" and room :: "nat \<Rightarrow> 's \<Rightarrow> bool"
    and pq :: "'s \<Rightarrow> StoredMessage list" and rq :: "'s \<Rightarrow> StoredBatch list"
  assumes push_ok: "inv s \<Longrightarrow> room 1 s \<Longrightarrow> push io ts env s = (Ok i, s') \<Longrightarrow>
      inv s' \<and> pq s' = pq s @ [\<lparr>sm_sequence = i, sm_received_at = ts, sm_envelope = env\<rparr>] \<and> rq s' = rq s"
    and push_err: "push io ts env s = (Err e, s') \<Longrightarrow> s' = s"
    and push_io: "inv s \<Longrightarrow> \<exists>i s'. push IoOk ts env s = (Ok i, s')"
    and pending_ok: "inv s \<Longrightarrow> pending io n s = (r, s') \<Longrightarrow>
      s' = s \<and> (isl r \<or> r = Ok (take n (pq s))) \<and> (io = IoOk \<longrightarrow> \<not> isl r)"
    and commit_ok: "inv s \<Longrightarrow> room (length bs) s \<Longrightarrow> commit io now ms bs s = (Ok ids, s') \<Longrightarrow>
      inv s' \<and> pq s' = filter (\<lambda>m. sm_sequence m \<notin> set ms) (pq s) \<and>
      length ids = length bs \<and>
      rq s' = rq s @ map (\<lambda>(j, b). \<lparr>sb_id = j, sb_created_at = now,
        sb_message_count = pb_message_count b, sb_payload = pb_payload b\<rparr>) (zip ids bs)"
    and commit_err: "commit io now ms bs s = (Err e, s') \<Longrightarrow> s' = s"
    and commit_io: "inv s \<Longrightarrow> room (length bs) s \<Longrightarrow> distinct ms \<Longrightarrow>
      set ms \<subseteq> sm_sequence ` set (pq s) \<Longrightarrow> \<exists>ids s'. commit IoOk now ms bs s = (Ok ids, s')"
    and ready_ok: "inv s \<Longrightarrow> ready io n s = (q, s') \<Longrightarrow>
      s' = s \<and> (isl q \<or> q = Ok (take n (rq s))) \<and> (io = IoOk \<longrightarrow> \<not> isl q)"
    and confirm_ok: "inv s \<Longrightarrow> confirm io j s = (Ok u, s') \<Longrightarrow>
      inv s' \<and> pq s' = pq s \<and> rq s' = filter (\<lambda>b. sb_id b \<noteq> j) (rq s)"
    and confirm_err: "confirm io j s = (Err e, s') \<Longrightarrow> s' = s"
    and sequences: "inv s \<Longrightarrow> sorted (map sm_sequence (pq s)) \<and> distinct (map sm_sequence (pq s))"
    and batch_ids: "inv s \<Longrightarrow> sorted (map sb_id (rq s)) \<and> distinct (map sb_id (rq s))"
    and room_mono: "room n s \<Longrightarrow> m \<le> n \<Longrightarrow> room m s"
    and commit_room: "inv s \<Longrightarrow> room (length bs + n) s \<Longrightarrow> commit io now ms bs s = (Ok ids, s') \<Longrightarrow> room n s'"
    and push_room: "inv s \<Longrightarrow> room (Suc n) s \<Longrightarrow> push io ts env s = (Ok i, s') \<Longrightarrow> room n s'"
    and confirm_room: "room n s \<Longrightarrow> confirm io j s = (Ok u, s') \<Longrightarrow> room n s'"
    and confirm_io: "\<exists>s'. confirm IoOk j s = (Ok (), s')"

section \<open>Tables\<close>

lemma sorted_map_of_eq:
  assumes "sorted (map fst xs)" "distinct (map fst xs)" "sorted (map fst ys)" "distinct (map fst ys)"
    and "map_of xs = map_of ys"
  shows "xs = (ys :: ('k::linorder \<times> 'v) list)"
proof -
  have "set (map fst xs) = set (map fst ys)" using assms(5) by (metis dom_map_of_conv_image_fst set_map)
  then have keys: "map fst xs = map fst ys" using assms(1-4) by (intro sorted_distinct_set_unique) auto
  show ?thesis
  proof (rule nth_equalityI)
    show len: "length xs = length ys" using keys by (metis length_map)
    fix i assume i: "i < length xs"
    have "map_of xs (fst (xs ! i)) = Some (snd (xs ! i))"
      using assms(2) i by (intro map_of_is_SomeI) auto
    moreover have "map_of ys (fst (ys ! i)) = Some (snd (ys ! i))"
      using assms(4) i len by (intro map_of_is_SomeI) auto
    moreover have "fst (xs ! i) = fst (ys ! i)" using keys i len by (metis nth_map)
    ultimately show "xs ! i = ys ! i" using assms(5) by (metis option.inject prod_eqI)
  qed
qed

lemma iter_insert_last:
  assumes laws: "table_laws ops" and last: "\<forall>k'\<in>fst ` set (tb_iter ops t). k' < k"
  shows "tb_iter ops (tb_insert ops k v t) = tb_iter ops t @ [(k, v)]"
proof (rule sorted_map_of_eq)
  have k: "k \<notin> fst ` set (tb_iter ops t)" using last by blast
  show "sorted (map fst (tb_iter ops t @ [(k, v)]))" "distinct (map fst (tb_iter ops t @ [(k, v)]))"
    using laws last k unfolding table_laws_def by (auto simp: sorted_append order.strict_implies_order)
  have "map_of (tb_iter ops t) k = None" using k by (simp add: map_of_eq_None_iff)
  then show "map_of (tb_iter ops (tb_insert ops k v t)) = map_of (tb_iter ops t @ [(k, v)])"
    using laws unfolding table_laws_def by (auto simp: fun_eq_iff map_add_def split: option.splits)
qed (use laws in \<open>auto simp: table_laws_def\<close>)

lemma iter_remove:
  assumes laws: "table_laws ops"
  shows "tb_iter ops (snd (tb_remove ops k t)) = filter (\<lambda>x. fst x \<noteq> k) (tb_iter ops t)"
proof (rule sorted_map_of_eq)
  show "sorted (map fst (filter (\<lambda>x. fst x \<noteq> k) (tb_iter ops t)))"
    "distinct (map fst (filter (\<lambda>x. fst x \<noteq> k) (tb_iter ops t)))"
    using laws unfolding table_laws_def by (auto intro: sorted_filter distinct_map_filter)
  have "map_of (filter (\<lambda>x. fst x \<noteq> k) xs) = (map_of xs)(k := None)" for xs :: "(u64 \<times> bytes) list"
    by (induction xs) auto
  then show "map_of (tb_iter ops (snd (tb_remove ops k t))) =
      map_of (filter (\<lambda>x. fst x \<noteq> k) (tb_iter ops t))"
    using laws unfolding table_laws_def by simp
qed (use laws in \<open>auto simp: table_laws_def\<close>)

lemma remove_result: "table_laws ops \<Longrightarrow> fst (tb_remove ops k t) = map_of (tb_iter ops t) k"
  by (simp add: table_laws_def)

lemma table_len: "table_laws ops \<Longrightarrow> tb_len ops t = length (tb_iter ops t)"
  by (simp add: table_laws_def)

lemma redb_lawsD: "redb_laws ops \<Longrightarrow> table_laws (ro_table ops)" "redb_laws ops \<Longrightarrow> meta_laws (ro_meta ops)"
  by (simp_all add: redb_laws_def)

lemma mt_get_insert:
  "meta_laws ops \<Longrightarrow> mt_get ops k' (mt_insert ops k v m) = (if k' = k then Some v else mt_get ops k' m)"
  unfolding meta_laws_def by blast

subsection \<open>Round trips\<close>

lemma decode_encode_message:
  "decode_message k (encode_message ts env) = Ok \<lparr>sm_sequence = k, sm_received_at = ts, sm_envelope = env\<rparr>"
  by (simp add: decode_message_def encode_message_def TIMESTAMP_LEN_def)

lemma decode_encode_batch:
  "decode_batch k (encode_batch ts b) =
     Ok \<lparr>sb_id = k, sb_created_at = ts, sb_message_count = pb_message_count b, sb_payload = pb_payload b\<rparr>"
  by (simp add: decode_batch_def encode_batch_def BATCH_HEADER_LEN_def TIMESTAMP_LEN_def Let_def)

section \<open>The store meets the contract\<close>

lemma next_counter_Ok:
  assumes "store_ok ops db" and "key \<in> {NEXT_SEQUENCE, NEXT_BATCH_ID}"
  shows "next_counter (ro_meta ops) key (db_meta db) =
    Ok (counter ops key db, mt_insert (ro_meta ops) key (u64_to_le_bytes (counter ops key db + 1)) (db_meta db))"
proof (cases "mt_get (ro_meta ops) key (db_meta db)")
  case None
  then show ?thesis by (simp add: next_counter_def counter_def)
next
  case (Some v)
  then have "length v = 8" using assms unfolding store_ok_def by blast
  then show ?thesis using Some by (simp add: next_counter_def counter_def Let_def)
qed

lemma counter_step: "unat (c :: u64) + 1 < 2 ^ 64 \<Longrightarrow> unat (c + 1) = unat c + 1"
  by (simp add: unat_word_ariths)

lemma less_counter_step: "unat (c :: u64) + 1 < 2 ^ 64 \<Longrightarrow> k < c \<Longrightarrow> k < c + 1"
  using counter_step by (simp add: word_less_nat_alt)

lemma less_counter_self: "unat (c :: u64) + 1 < 2 ^ 64 \<Longrightarrow> c < c + 1"
  using counter_step by (simp add: word_less_nat_alt)

lemma counter_insert:
  assumes "redb_laws ops"
  shows "counter ops key' (db\<lparr>db_meta := mt_insert (ro_meta ops) key (u64_to_le_bytes w) (db_meta db),
      db_pending := p, db_ready := r\<rparr>) = (if key' = key then w else counter ops key' db)"
  by (simp add: counter_def mt_get_insert [OF redb_lawsD(2) [OF assms]])

lemma keys_distinct [simp]: "NEXT_SEQUENCE \<noteq> NEXT_BATCH_ID" "NEXT_BATCH_ID \<noteq> NEXT_SEQUENCE"
  by (simp_all add: meta_keys)

lemma push_message_Ok:
  assumes laws: "redb_laws ops" and ok: "store_ok ops db" and room: "spare ops 1 db"
    and run: "push_message ops io ts env db = (Ok i, db')"
  shows "store_ok ops db' \<and> ready_queue ops db' = ready_queue ops db \<and>
    pending_queue ops db' = pending_queue ops db @ [\<lparr>sm_sequence = i, sm_received_at = ts, sm_envelope = env\<rparr>]"
proof -
  define c where "c = counter ops NEXT_SEQUENCE db"
  have i: "i = c" and db': "db' = db\<lparr>db_meta := mt_insert (ro_meta ops) NEXT_SEQUENCE (u64_to_le_bytes (c + 1)) (db_meta db),
      db_pending := tb_insert (ro_table ops) c (encode_message ts env) (db_pending db)\<rparr>"
    using run next_counter_Ok [OF ok, of NEXT_SEQUENCE]
    by (auto simp: push_message_def blocking_def write_txn_def c_def split: io_outcome.splits)
  have last: "\<forall>k\<in>fst ` set (tb_iter (ro_table ops) (db_pending db)). k < c"
    using ok unfolding store_ok_def c_def by force
  have iter: "tb_iter (ro_table ops) (db_pending db') =
      tb_iter (ro_table ops) (db_pending db) @ [(c, encode_message ts env)]"
    using iter_insert_last [OF redb_lawsD(1) [OF laws] last] by (simp add: db')
  have c1: "unat c + 1 < 2 ^ 64" using room by (simp add: spare_def c_def)
  have cnt: "counter ops key db' = (if key = NEXT_SEQUENCE then c + 1 else counter ops key db)" for key
    by (simp add: counter_def db' mt_get_insert [OF redb_lawsD(2) [OF laws]])
  have "store_ok ops db'"
    unfolding store_ok_def iter cnt
    using ok less_counter_step [OF c1] less_counter_self [OF c1]
    by (auto simp: store_ok_def db' c_def encode_message_def mt_get_insert [OF redb_lawsD(2) [OF laws]])
  then show ?thesis
    by (simp add: i pending_queue_def ready_queue_def iter encode_message_def) (simp add: db')
qed

lemma collect_Ok:
  "\<forall>x\<in>set xs. f x = Ok (g x) \<Longrightarrow> collect f xs = Ok (map g xs)"
  by (induction xs) auto

lemma pending_messages_eq:
  assumes "store_ok ops db"
  shows "pending_messages ops io n db =
    (case io of IoOk \<Rightarrow> Ok (take n (pending_queue ops db)) | IoDatabase e \<Rightarrow> Err (Database e)
     | IoTask e \<Rightarrow> Err (Task e), db)"
proof -
  have "collect (\<lambda>(k, v). decode_message k v) (take n (tb_iter (ro_table ops) (db_pending db))) =
      Ok (take n (pending_queue ops db))"
    unfolding pending_queue_def take_map
    by (rule collect_Ok)
      (use assms in \<open>fastforce simp: store_ok_def decode_message_def TIMESTAMP_LEN_def dest: in_set_takeD\<close>)
  then show ?thesis
    by (simp add: pending_messages_def blocking_def read_txn_def split: io_outcome.splits)
qed

lemma ready_batches_eq:
  assumes "store_ok ops db"
  shows "ready_batches ops io n db =
    (case io of IoOk \<Rightarrow> Ok (take n (ready_queue ops db)) | IoDatabase e \<Rightarrow> Err (Database e)
     | IoTask e \<Rightarrow> Err (Task e), db)"
proof -
  have "collect (\<lambda>(k, v). decode_batch k v) (take n (tb_iter (ro_table ops) (db_ready db))) =
      Ok (take n (ready_queue ops db))"
    unfolding ready_queue_def take_map
    by (rule collect_Ok)
      (use assms in \<open>fastforce simp: store_ok_def decode_batch_def TIMESTAMP_LEN_def BATCH_HEADER_LEN_def
        Let_def drop_take dest: in_set_takeD\<close>)
  then show ?thesis
    by (simp add: ready_batches_def blocking_def read_txn_def split: io_outcome.splits)
qed

lemma remove_consumed_iter:
  "table_laws ops \<Longrightarrow> remove_consumed ops ms t = Ok t' \<Longrightarrow>
   tb_iter ops t' = filter (\<lambda>x. fst x \<notin> set ms) (tb_iter ops t)"
proof (induction ms arbitrary: t)
  case (Cons m ms)
  then have "tb_iter ops t' = filter (\<lambda>x. fst x \<notin> set ms) (tb_iter ops (snd (tb_remove ops m t)))"
    by (auto split: prod.splits option.splits)
  then show ?case by (simp add: iter_remove [OF Cons.prems(1)] conj_commute)
qed simp

lemma remove_consumed_present:
  "table_laws ops \<Longrightarrow> remove_consumed ops ms t = Ok t' \<Longrightarrow> set ms \<subseteq> fst ` set (tb_iter ops t)"
proof (induction ms arbitrary: t)
  case (Cons m ms)
  obtain v t1 where t1: "tb_remove ops m t = (Some v, t1)" "remove_consumed ops ms t1 = Ok t'"
    using Cons.prems(2) by (auto split: prod.splits option.splits)
  have "map_of (tb_iter ops t) m = Some v" using remove_result [OF Cons.prems(1), of m t] t1 by simp
  then have "m \<in> fst ` set (tb_iter ops t)" by (force dest: map_of_SomeD)
  moreover have "fst ` set (tb_iter ops t1) \<subseteq> fst ` set (tb_iter ops t)"
    using iter_remove [OF Cons.prems(1), of m t] t1 by (intro image_mono) auto
  then have "set ms \<subseteq> fst ` set (tb_iter ops t)" using Cons.IH [OF Cons.prems(1) t1(2)] by (rule subset_trans [rotated])
  ultimately show ?case by simp
qed simp

lemma remove_consumed_Ok:
  "table_laws ops \<Longrightarrow> distinct ms \<Longrightarrow> set ms \<subseteq> fst ` set (tb_iter ops t) \<Longrightarrow>
   \<exists>t'. remove_consumed ops ms t = Ok t'"
proof (induction ms arbitrary: t)
  case (Cons m ms)
  obtain v where v: "map_of (tb_iter ops t) m = Some v"
    using Cons.prems(3) by (metis insert_subset list.simps(15) map_of_eq_None_iff not_None_eq)
  obtain t1 where t1: "tb_remove ops m t = (Some v, t1)"
    using remove_result [OF Cons.prems(1), of m t] v by (metis prod.collapse)
  have "tb_iter ops t1 = filter (\<lambda>x. fst x \<noteq> m) (tb_iter ops t)"
    using iter_remove [OF Cons.prems(1), of m t] t1 by simp
  then have "fst ` set (tb_iter ops t1) = fst ` set (tb_iter ops t) - {m}" by auto
  then have "set ms \<subseteq> fst ` set (tb_iter ops t1)" using Cons.prems(2,3) by auto
  with Cons.IH [OF Cons.prems(1), of t1] Cons.prems(2) t1 show ?case by auto
qed simp

lemma insert_prepared_ok:
  assumes laws: "redb_laws ops"
  shows "store_ok ops db \<Longrightarrow> unat (counter ops NEXT_BATCH_ID db) + length bs < 2 ^ 64 \<Longrightarrow>
   \<exists>ids meta rdy. insert_prepared ops now bs (db_meta db) (db_ready db) = Ok (ids, meta, rdy) \<and>
     store_ok ops (db\<lparr>db_meta := meta, db_ready := rdy\<rparr>) \<and>
     counter ops NEXT_SEQUENCE (db\<lparr>db_meta := meta, db_ready := rdy\<rparr>) = counter ops NEXT_SEQUENCE db \<and>
     unat (counter ops NEXT_BATCH_ID (db\<lparr>db_meta := meta, db_ready := rdy\<rparr>)) =
       unat (counter ops NEXT_BATCH_ID db) + length bs \<and>
     length ids = length bs \<and>
     ready_queue ops (db\<lparr>db_meta := meta, db_ready := rdy\<rparr>) = ready_queue ops db @
       map (\<lambda>(j, b). \<lparr>sb_id = j, sb_created_at = now, sb_message_count = pb_message_count b,
                       sb_payload = pb_payload b\<rparr>) (zip ids bs)"
proof (induction bs arbitrary: db)
  case (Cons b bs)
  define c where "c = counter ops NEXT_BATCH_ID db"
  define db1 where "db1 = db\<lparr>db_meta := mt_insert (ro_meta ops) NEXT_BATCH_ID (u64_to_le_bytes (c + 1)) (db_meta db),
      db_ready := tb_insert (ro_table ops) c (encode_batch now b) (db_ready db)\<rparr>"
  have last: "\<forall>k\<in>fst ` set (tb_iter (ro_table ops) (db_ready db)). k < c"
    using Cons.prems(1) unfolding store_ok_def c_def by force
  have iter: "tb_iter (ro_table ops) (db_ready db1) =
      tb_iter (ro_table ops) (db_ready db) @ [(c, encode_batch now b)]"
    using iter_insert_last [OF redb_lawsD(1) [OF laws] last] by (simp add: db1_def)
  have c1: "unat c + 1 < 2 ^ 64" using Cons.prems(2) by (simp add: c_def)
  have cnt: "counter ops key db1 = (if key = NEXT_BATCH_ID then c + 1 else counter ops key db)" for key
    by (simp add: counter_def db1_def mt_get_insert [OF redb_lawsD(2) [OF laws]])
  have ok1: "store_ok ops db1"
    unfolding store_ok_def iter cnt
    using Cons.prems(1) less_counter_step [OF c1] less_counter_self [OF c1]
    by (auto simp: store_ok_def db1_def c_def encode_batch_def mt_get_insert [OF redb_lawsD(2) [OF laws]])
  have rq1: "ready_queue ops db1 = ready_queue ops db @ [\<lparr>sb_id = c, sb_created_at = now,
      sb_message_count = pb_message_count b, sb_payload = pb_payload b\<rparr>]"
    by (simp add: ready_queue_def iter encode_batch_def)
  have "unat (counter ops NEXT_BATCH_ID db1) + length bs < 2 ^ 64"
    using Cons.prems(2) counter_step [OF c1] by (simp add: cnt c_def)
  from Cons.IH [OF ok1 this] obtain ids meta rdy where
    "insert_prepared ops now bs (db_meta db1) (db_ready db1) = Ok (ids, meta, rdy)"
    "store_ok ops (db1\<lparr>db_meta := meta, db_ready := rdy\<rparr>)"
    "counter ops NEXT_SEQUENCE (db1\<lparr>db_meta := meta, db_ready := rdy\<rparr>) = counter ops NEXT_SEQUENCE db1"
    "unat (counter ops NEXT_BATCH_ID (db1\<lparr>db_meta := meta, db_ready := rdy\<rparr>)) =
       unat (counter ops NEXT_BATCH_ID db1) + length bs"
    "length ids = length bs"
    "ready_queue ops (db1\<lparr>db_meta := meta, db_ready := rdy\<rparr>) = ready_queue ops db1 @
       map (\<lambda>(j, b). \<lparr>sb_id = j, sb_created_at = now, sb_message_count = pb_message_count b,
                       sb_payload = pb_payload b\<rparr>) (zip ids bs)" by blast
  moreover have "db1\<lparr>db_meta := meta, db_ready := rdy\<rparr> = db\<lparr>db_meta := meta, db_ready := rdy\<rparr>"
    by (simp add: db1_def)
  moreover have "next_counter (ro_meta ops) NEXT_BATCH_ID (db_meta db) =
      Ok (c, mt_insert (ro_meta ops) NEXT_BATCH_ID (u64_to_le_bytes (c + 1)) (db_meta db))"
    using next_counter_Ok [OF Cons.prems(1), of NEXT_BATCH_ID] by (simp add: c_def)
  ultimately show ?case
    using cnt [of NEXT_SEQUENCE] cnt [of NEXT_BATCH_ID] counter_step [OF c1] rq1 by (auto simp: db1_def c_def)
qed simp

lemma store_ok_filter:
  assumes "store_ok ops db" and "tb_iter (ro_table ops) p = filter P (tb_iter (ro_table ops) (db_pending db))"
  shows "store_ok ops (db\<lparr>db_pending := p\<rparr>)"
  using assms by (auto simp: store_ok_def counter_def)

lemma commit_batches_Ok:
  assumes laws: "redb_laws ops" and ok: "store_ok ops db" and room: "spare ops (length bs) db"
    and run: "commit_batches ops io now ms bs db = (Ok ids, db')"
  shows "store_ok ops db' \<and>
    pending_queue ops db' = filter (\<lambda>m. sm_sequence m \<notin> set ms) (pending_queue ops db) \<and>
    length ids = length bs \<and>
    ready_queue ops db' = ready_queue ops db @ map (\<lambda>(j, b). \<lparr>sb_id = j, sb_created_at = now,
      sb_message_count = pb_message_count b, sb_payload = pb_payload b\<rparr>) (zip ids bs)"
proof -
  obtain p where p: "remove_consumed (ro_table ops) ms (db_pending db) = Ok p"
    using run by (auto simp: commit_batches_def blocking_def write_txn_def split: io_outcome.splits sum.splits)
  have iter: "tb_iter (ro_table ops) p = filter (\<lambda>x. fst x \<notin> set ms) (tb_iter (ro_table ops) (db_pending db))"
    using remove_consumed_iter [OF redb_lawsD(1) [OF laws] p] .
  define db1 where "db1 = db\<lparr>db_pending := p\<rparr>"
  have ok1: "store_ok ops db1" unfolding db1_def using store_ok_filter [OF ok iter] .
  have "unat (counter ops NEXT_BATCH_ID db1) + length bs < 2 ^ 64"
    using room by (simp add: spare_def counter_def db1_def)
  from insert_prepared_ok [OF laws ok1 this, of now] obtain ids' meta rdy where
    ins: "insert_prepared ops now bs (db_meta db1) (db_ready db1) = Ok (ids', meta, rdy)"
    "store_ok ops (db1\<lparr>db_meta := meta, db_ready := rdy\<rparr>)" "length ids' = length bs"
    "ready_queue ops (db1\<lparr>db_meta := meta, db_ready := rdy\<rparr>) = ready_queue ops db1 @
       map (\<lambda>(j, b). \<lparr>sb_id = j, sb_created_at = now, sb_message_count = pb_message_count b,
                       sb_payload = pb_payload b\<rparr>) (zip ids' bs)" by blast
  have res: "ids = ids'" "db' = db1\<lparr>db_meta := meta, db_ready := rdy\<rparr>"
    using run p ins(1) by (auto simp: commit_batches_def blocking_def write_txn_def db1_def split: io_outcome.splits)
  have "pending_queue ops db' = filter (\<lambda>m. sm_sequence m \<notin> set ms) (pending_queue ops db)"
    by (simp add: res(2) pending_queue_def db1_def iter filter_map comp_def case_prod_beta)
  moreover have "ready_queue ops db1 = ready_queue ops db" by (simp add: ready_queue_def db1_def)
  ultimately show ?thesis using ins res by simp
qed

lemma commit_batches_spare:
  assumes laws: "redb_laws ops" and ok: "store_ok ops db" and room: "spare ops (length bs + n) db"
    and run: "commit_batches ops io now ms bs db = (Ok ids, db')"
  shows "spare ops n db'"
proof -
  obtain p where p: "remove_consumed (ro_table ops) ms (db_pending db) = Ok p"
    using run by (auto simp: commit_batches_def blocking_def write_txn_def split: io_outcome.splits sum.splits)
  define db1 where "db1 = db\<lparr>db_pending := p\<rparr>"
  have ok1: "store_ok ops db1" unfolding db1_def
    using store_ok_filter [OF ok remove_consumed_iter [OF redb_lawsD(1) [OF laws] p]] .
  have cnt: "counter ops key db1 = counter ops key db" for key by (simp add: counter_def db1_def)
  have "unat (counter ops NEXT_BATCH_ID db1) + length bs < 2 ^ 64" using room by (simp add: spare_def cnt)
  from insert_prepared_ok [OF laws ok1 this, of now] obtain ids' meta rdy where
    ins: "insert_prepared ops now bs (db_meta db1) (db_ready db1) = Ok (ids', meta, rdy)"
    "counter ops NEXT_SEQUENCE (db1\<lparr>db_meta := meta, db_ready := rdy\<rparr>) = counter ops NEXT_SEQUENCE db1"
    "unat (counter ops NEXT_BATCH_ID (db1\<lparr>db_meta := meta, db_ready := rdy\<rparr>)) =
       unat (counter ops NEXT_BATCH_ID db1) + length bs" by blast
  have "db' = db1\<lparr>db_meta := meta, db_ready := rdy\<rparr>"
    using run p ins(1) by (auto simp: commit_batches_def blocking_def write_txn_def db1_def split: io_outcome.splits)
  then show ?thesis using ins(2,3) room by (simp add: spare_def cnt)
qed

lemma push_message_spare:
  assumes laws: "redb_laws ops" and ok: "store_ok ops db" and room: "spare ops (Suc n) db"
    and run: "push_message ops io ts env db = (Ok i, db')"
  shows "spare ops n db'"
proof -
  define c where "c = counter ops NEXT_SEQUENCE db"
  have db': "db' = db\<lparr>db_meta := mt_insert (ro_meta ops) NEXT_SEQUENCE (u64_to_le_bytes (c + 1)) (db_meta db),
      db_pending := tb_insert (ro_table ops) c (encode_message ts env) (db_pending db)\<rparr>"
    using run next_counter_Ok [OF ok, of NEXT_SEQUENCE]
    by (auto simp: push_message_def blocking_def write_txn_def c_def split: io_outcome.splits)
  have c1: "unat c + 1 < 2 ^ 64" using room by (simp add: spare_def c_def)
  have "counter ops key db' = (if key = NEXT_SEQUENCE then c + 1 else counter ops key db)" for key
    by (simp add: counter_def db' mt_get_insert [OF redb_lawsD(2) [OF laws]])
  then show ?thesis using room counter_step [OF c1] by (simp add: spare_def c_def)
qed

lemma commit_batches_io:
  assumes laws: "redb_laws ops" and ok: "store_ok ops db" and room: "spare ops (length bs) db"
    and "distinct ms" and "set ms \<subseteq> sm_sequence ` set (pending_queue ops db)"
  shows "\<exists>ids db'. commit_batches ops IoOk now ms bs db = (Ok ids, db')"
proof -
  have "set ms \<subseteq> fst ` set (tb_iter (ro_table ops) (db_pending db))"
    using assms(5) by (auto simp: pending_queue_def image_image case_prod_beta)
  then obtain p where p: "remove_consumed (ro_table ops) ms (db_pending db) = Ok p"
    using remove_consumed_Ok [OF redb_lawsD(1) [OF laws] assms(4)] by blast
  have iter: "tb_iter (ro_table ops) p = filter (\<lambda>x. fst x \<notin> set ms) (tb_iter (ro_table ops) (db_pending db))"
    using remove_consumed_iter [OF redb_lawsD(1) [OF laws] p] .
  have "unat (counter ops NEXT_BATCH_ID (db\<lparr>db_pending := p\<rparr>)) + length bs < 2 ^ 64"
    using room by (simp add: spare_def counter_def)
  from insert_prepared_ok [OF laws store_ok_filter [OF ok iter] this, of now] p show ?thesis
    by (auto simp: commit_batches_def blocking_def write_txn_def)
qed

lemma confirm_batch_Ok:
  assumes laws: "redb_laws ops" and ok: "store_ok ops db" and run: "confirm_batch ops io i db = (Ok u, db')"
  shows "store_ok ops db' \<and> pending_queue ops db' = pending_queue ops db \<and>
    ready_queue ops db' = filter (\<lambda>b. sb_id b \<noteq> i) (ready_queue ops db)"
proof -
  have db': "db' = db\<lparr>db_ready := snd (tb_remove (ro_table ops) i (db_ready db))\<rparr>"
    using run by (auto simp: confirm_batch_def blocking_def write_txn_def split: io_outcome.splits)
  note iter = iter_remove [OF redb_lawsD(1) [OF laws], of i "db_ready db"]
  have "store_ok ops db'" using ok by (auto simp: store_ok_def counter_def db' iter)
  then show ?thesis
    by (simp add: pending_queue_def ready_queue_def) (simp add: db' iter filter_map comp_def case_prod_beta)
qed

lemma txn_err: "blocking io (write_txn f) db = (Err e, db') \<Longrightarrow> db' = db"
  by (auto simp: blocking_def write_txn_def split: io_outcome.splits sum.splits prod.splits)

lemma redb_batch_store:
  assumes laws: "redb_laws ops"
  shows "batch_store (push_message ops) (pending_messages ops) (commit_batches ops) (ready_batches ops)
    (confirm_batch ops) (store_ok ops) (spare ops) (pending_queue ops) (ready_queue ops)"
proof
  fix s
  have srt: "sorted (map fst (tb_iter (ro_table ops) t))" "distinct (map fst (tb_iter (ro_table ops) t))" for t
    using redb_lawsD(1) [OF laws] by (auto simp: table_laws_def)
  show "sorted (map sm_sequence (pending_queue ops s)) \<and> distinct (map sm_sequence (pending_queue ops s))"
    using srt [of "db_pending s"] by (simp add: pending_queue_def comp_def case_prod_beta)
  show "sorted (map sb_id (ready_queue ops s)) \<and> distinct (map sb_id (ready_queue ops s))"
    using srt [of "db_ready s"] by (simp add: ready_queue_def comp_def case_prod_beta)
next
  fix s :: "('a, 'b) RedbBatchStore" and io ts env i s'
  assume ok: "store_ok ops s"
  from next_counter_Ok [OF ok, of NEXT_SEQUENCE]
  show "\<exists>i s'. push_message ops IoOk ts env s = (Ok i, s')"
    by (simp add: push_message_def blocking_def write_txn_def)
  assume "spare ops 1 s" and "push_message ops io ts env s = (Ok i, s')"
  from push_message_Ok [OF laws ok this]
  show "store_ok ops s' \<and> pending_queue ops s' = pending_queue ops s @
      [\<lparr>sm_sequence = i, sm_received_at = ts, sm_envelope = env\<rparr>] \<and> ready_queue ops s' = ready_queue ops s"
    by blast
next
  fix s :: "('a, 'b) RedbBatchStore" and io n r s'
  assume "store_ok ops s" and "pending_messages ops io n s = (r, s')"
  then show "s' = s \<and> (isl r \<or> r = Ok (take n (pending_queue ops s))) \<and> (io = IoOk \<longrightarrow> \<not> isl r)"
    by (auto simp: pending_messages_eq split: io_outcome.splits)
next
  fix s :: "('a, 'b) RedbBatchStore" and io n q s'
  assume "store_ok ops s" and "ready_batches ops io n s = (q, s')"
  then show "s' = s \<and> (isl q \<or> q = Ok (take n (ready_queue ops s))) \<and> (io = IoOk \<longrightarrow> \<not> isl q)"
    by (auto simp: ready_batches_eq split: io_outcome.splits)
next
  fix s :: "('a, 'b) RedbBatchStore" and io now ms bs ids s'
  assume "store_ok ops s" and "spare ops (length bs) s" and "commit_batches ops io now ms bs s = (Ok ids, s')"
  from commit_batches_Ok [OF laws this]
  show "store_ok ops s' \<and> pending_queue ops s' = filter (\<lambda>m. sm_sequence m \<notin> set ms) (pending_queue ops s) \<and>
      length ids = length bs \<and> ready_queue ops s' = ready_queue ops s @
      map (\<lambda>(j, b). \<lparr>sb_id = j, sb_created_at = now, sb_message_count = pb_message_count b,
        sb_payload = pb_payload b\<rparr>) (zip ids bs)" .
next
  fix s :: "('a, 'b) RedbBatchStore" and io j u s'
  assume "store_ok ops s" and "confirm_batch ops io j s = (Ok u, s')"
  from confirm_batch_Ok [OF laws this]
  show "store_ok ops s' \<and> pending_queue ops s' = pending_queue ops s \<and>
      ready_queue ops s' = filter (\<lambda>b. sb_id b \<noteq> j) (ready_queue ops s)" .
next
  fix s :: "('a, 'b) RedbBatchStore" and io now ms bs ids s' n
  assume "store_ok ops s" and "spare ops (length bs + n) s" and "commit_batches ops io now ms bs s = (Ok ids, s')"
  then show "spare ops n s'" using commit_batches_spare [OF laws] by blast
next
  fix s :: "('a, 'b) RedbBatchStore" and io ts env i s' n
  assume "store_ok ops s" and "spare ops (Suc n) s" and "push_message ops io ts env s = (Ok i, s')"
  then show "spare ops n s'" using push_message_spare [OF laws] by blast
next
  fix s :: "('a, 'b) RedbBatchStore" and io j u s' n
  assume "spare ops n s" and "confirm_batch ops io j s = (Ok u, s')"
  then show "spare ops n s'"
    by (auto simp: confirm_batch_def blocking_def write_txn_def spare_def counter_def split: io_outcome.splits)
next
  fix s :: "('a, 'b) RedbBatchStore" and j
  show "\<exists>s'. confirm_batch ops IoOk j s = (Ok (), s')"
    by (simp add: confirm_batch_def blocking_def write_txn_def)
next
  fix s :: "('a, 'b) RedbBatchStore" and m n
  assume "spare ops n s" and "m \<le> n"
  then show "spare ops m s" by (simp add: spare_def)
qed (auto simp: push_message_def commit_batches_def confirm_batch_def dest: txn_err
    intro: commit_batches_io [OF laws, unfolded commit_batches_def])

subsection \<open>A table as a sorted association list\<close>

text \<open>An implementation of the laws, which makes the store executable.\<close>

definition list_table :: "(u64 \<times> bytes) list table_ops" where
  "list_table =
     \<lparr>tb_insert = AList.update, tb_remove = (\<lambda>k t. (map_of t k, AList.delete k t)),
      tb_iter = (\<lambda>t. sort_key fst (AList.clearjunk t)), tb_len = (\<lambda>t. length (AList.clearjunk t))\<rparr>"

definition list_meta :: "(string \<times> bytes) list meta_ops" where
  "list_meta = \<lparr>mt_get = (\<lambda>k m. map_of m k), mt_insert = AList.update\<rparr>"

definition list_redb :: "((u64 \<times> bytes) list, (string \<times> bytes) list) redb_ops" where
  "list_redb = \<lparr>ro_table = list_table, ro_meta = list_meta\<rparr>"

lemma map_of_sort_key_fst:
  assumes "distinct (map fst xs)"
  shows "map_of (sort_key fst xs) = map_of xs"
proof -
  have "map_of (sort_key fst xs) k = map_of xs k" for k
  proof (cases "map_of xs k")
    case None
    then show ?thesis by (metis map_of_eq_None_iff set_sort)
  next
    case (Some v)
    have "distinct (map fst (sort_key fst xs))" using assms by (metis distinct_map distinct_sort set_sort)
    then show ?thesis using Some by (metis map_of_SomeD map_of_is_SomeI set_sort)
  qed
  then show ?thesis by blast
qed

lemma list_redb_laws: "redb_laws list_redb"
proof -
  have d: "distinct (map fst (AList.clearjunk t))" for t :: "(u64 \<times> bytes) list"
    by (rule distinct_clearjunk)
  have m: "map_of (sort_key fst (AList.clearjunk t)) = map_of t" for t :: "(u64 \<times> bytes) list"
    using map_of_sort_key_fst [OF d] by (simp add: map_of_clearjunk)
  have s: "distinct (map fst (sort_key fst (AList.clearjunk t)))" for t :: "(u64 \<times> bytes) list"
    using d [of t] by (metis distinct_map distinct_sort set_sort)
  show ?thesis
    by (simp add: redb_laws_def table_laws_def meta_laws_def list_redb_def list_table_def list_meta_def m s
        update_conv' delete_conv')
qed

interpretation redb: batch_store "push_message list_redb" "pending_messages list_redb"
  "commit_batches list_redb" "ready_batches list_redb" "confirm_batch list_redb" "store_ok list_redb"
  "spare list_redb" "pending_queue list_redb" "ready_queue list_redb"
  by (rule redb_batch_store [OF list_redb_laws])

subsection \<open>The format descriptor\<close>

lemma parse_u32_show: "parse_u32 (show_nat (unat (w :: u32))) = Some w"
proof -
  have "unat w < 2 ^ 32" using unsigned_less [of w, where ?'a = nat] by simp
  then show ?thesis by (simp add: parse_u32_def parse_unsigned_show)
qed

text \<open>Rust strings are well-formed UTF-8.\<close>

definition descriptor_ok :: "FormatDescriptor \<Rightarrow> bool" where
  "descriptor_ok d \<longleftrightarrow>
     valid_utf8 (as_bytes (fd_schema d)) \<and> valid_utf8 (as_bytes (fd_encoding d)) \<and>
     valid_utf8 (as_bytes (fd_compression d))"

lemma set_format_descriptor_IoOk:
  assumes "redb_laws ops" and "descriptor_ok d" and "set_format_descriptor ops io d db = (Ok u, db')"
  shows "fst (format_descriptor ops IoOk db') = Ok (Some d)"
    and "db_pending db' = db_pending db" "db_ready db' = db_ready db"
proof -
  have db': "db' = db\<lparr>db_meta := fold (\<lambda>(key, v). mt_insert (ro_meta ops) key (as_bytes v))
         [(PAYLOAD_SCHEMA_KEY, fd_schema d),
          (PAYLOAD_SCHEMA_VERSION_KEY, show_nat (unat (fd_schema_version d))),
          (PAYLOAD_ENCODING_KEY, fd_encoding d), (PAYLOAD_COMPRESSION_KEY, fd_compression d)]
         (db_meta db)\<rparr>"
    using assms(3) by (auto simp: set_format_descriptor_def blocking_def write_txn_def split: io_outcome.splits)
  show "db_pending db' = db_pending db" "db_ready db' = db_ready db" by (simp_all add: db')
  note get = mt_get_insert [OF redb_lawsD(2) [OF assms(1)]]
  have t: "read_text (ro_meta ops) PAYLOAD_SCHEMA_KEY (db_meta db') = Ok (Some (fd_schema d))"
    "read_text (ro_meta ops) PAYLOAD_SCHEMA_VERSION_KEY (db_meta db') =
       Ok (Some (show_nat (unat (fd_schema_version d))))"
    "read_text (ro_meta ops) PAYLOAD_ENCODING_KEY (db_meta db') = Ok (Some (fd_encoding d))"
    "read_text (ro_meta ops) PAYLOAD_COMPRESSION_KEY (db_meta db') = Ok (Some (fd_compression d))"
    using assms(2) from_utf8_as_bytes valid_utf8_show
    by (simp_all add: read_text_def db' get meta_keys descriptor_ok_def)
  show "fst (format_descriptor ops IoOk db') = Ok (Some d)"
    by (simp add: format_descriptor_def blocking_def read_txn_def t parse_u32_show)
qed

section \<open>Properties\<close>

text \<open>The pending queue is durable and ordered: a successful push appends exactly the envelope
  bytes with their receive time under a fresh, larger sequence number and touches nothing else;
  a failed one changes nothing; reading returns the oldest messages first, bit for bit. (Room for
  one more 64-bit identifier is assumed.)\<close>

lemma push_then_pending:
  assumes "redb_laws ops" and "store_ok ops db" and "spare ops 1 db"
    and "push_message ops io ts env db = (r, db')"
  shows "case r of
      Err e \<Rightarrow> db' = db
    | Ok i \<Rightarrow> store_ok ops db' \<and> ready_queue ops db' = ready_queue ops db \<and>
        (\<forall>m\<in>set (pending_queue ops db). sm_sequence m < i) \<and>
        (\<forall>n. fst (pending_messages ops IoOk n db') = Ok (take n (pending_queue ops db @
           [\<lparr>sm_sequence = i, sm_received_at = ts, sm_envelope = env\<rparr>])))"
proof (cases r)
  case (Inl e)
  then show ?thesis using assms(4) txn_err by (fastforce simp: push_message_def)
next
  case (Inr i)
  note p = push_message_Ok [OF assms(1-3) assms(4) [unfolded Inr]]
  then have "sorted (map sm_sequence (pending_queue ops db) @ [i])"
    "distinct (map sm_sequence (pending_queue ops db) @ [i])"
    using batch_store.sequences [OF redb_batch_store [OF assms(1)], of db'] by simp_all
  then have "\<forall>m\<in>set (pending_queue ops db). sm_sequence m < i"
    by (auto simp: sorted_append order.order_iff_strict)
  then show ?thesis using p Inr by (simp add: pending_messages_eq)
qed

text \<open>C7. Committing batches is atomic: on any error, a consumed message that is not pending
  included, the store is unchanged; on success the consumed messages and only they leave the
  pending queue, and the prepared batches enter the ready queue in order, behind the others, with
  exactly their payload bytes and counts.\<close>

theorem commit_batches_atomic:
  assumes "redb_laws ops" and "store_ok ops db" and "spare ops (length bs) db"
    and "commit_batches ops io now ms bs db = (r, db')"
  shows "case r of
      Err e \<Rightarrow> db' = db
    | Ok ids \<Rightarrow> store_ok ops db' \<and> set ms \<subseteq> sm_sequence ` set (pending_queue ops db) \<and>
        pending_queue ops db' = filter (\<lambda>m. sm_sequence m \<notin> set ms) (pending_queue ops db) \<and>
        map sb_payload (ready_queue ops db') = map sb_payload (ready_queue ops db) @ map pb_payload bs \<and>
        map sb_message_count (ready_queue ops db') =
          map sb_message_count (ready_queue ops db) @ map pb_message_count bs \<and>
        map sb_id (ready_queue ops db') = map sb_id (ready_queue ops db) @ ids"
proof (cases r)
  case (Inl e)
  then show ?thesis using assms(4) txn_err by (fastforce simp: commit_batches_def)
next
  case (Inr ids)
  note c = commit_batches_Ok [OF assms(1-3) assms(4) [unfolded Inr]]
  obtain p where p: "remove_consumed (ro_table ops) ms (db_pending db) = Ok p"
    using assms(4) Inr
    by (auto simp: commit_batches_def blocking_def write_txn_def split: io_outcome.splits sum.splits)
  have "set ms \<subseteq> sm_sequence ` set (pending_queue ops db)"
    using remove_consumed_present [OF redb_lawsD(1) [OF assms(1)] p]
    by (auto simp: pending_queue_def image_image case_prod_beta)
  moreover have "map sb_payload (map (\<lambda>(j, b). \<lparr>sb_id = j, sb_created_at = now,
      sb_message_count = pb_message_count b, sb_payload = pb_payload b\<rparr>) (zip ids bs)) = map pb_payload bs"
    "map sb_message_count (map (\<lambda>(j, b). \<lparr>sb_id = j, sb_created_at = now,
      sb_message_count = pb_message_count b, sb_payload = pb_payload b\<rparr>) (zip ids bs)) = map pb_message_count bs"
    "map sb_id (map (\<lambda>(j, b). \<lparr>sb_id = j, sb_created_at = now,
      sb_message_count = pb_message_count b, sb_payload = pb_payload b\<rparr>) (zip ids bs)) = ids"
    using c by (auto intro: nth_equalityI)
  ultimately show ?thesis using c Inr by simp
qed

text \<open>Prepared batches are never relabelled: reconciling the payload format leaves both queues
  alone; it succeeds only with the configured format recorded; while batches prepared under a
  different recorded format wait it refuses and changes nothing.\<close>

lemma reconcile_format_safe:
  assumes "redb_laws ops" and "descriptor_ok configured"
    and "reconcile_format ops ios configured db = (r, db')"
  shows "pending_queue ops db' = pending_queue ops db \<and> ready_queue ops db' = ready_queue ops db \<and>
    (\<forall>out. r = Ok out \<longrightarrow> fst (format_descriptor ops IoOk db') = Ok (Some configured)) \<and>
    (isl r \<longrightarrow> db' = db) \<and>
    (\<forall>stored. fst (format_descriptor ops IoOk db) = Ok (Some stored) \<and> stored \<noteq> configured \<and>
       ready_queue ops db \<noteq> [] \<longrightarrow> isl r)"
proof -
  obtain io1 io2 io3 where ios: "ios = (io1, io2, io3)" by (cases ios)
  have fd: "snd (format_descriptor ops io db) = db" for io
    by (simp add: format_descriptor_def blocking_def read_txn_def split: io_outcome.splits)
  have fd_io: "isl (fst (format_descriptor ops io1 db)) \<or>
      fst (format_descriptor ops io1 db) = fst (format_descriptor ops IoOk db)"
    by (auto simp: format_descriptor_def blocking_def split: io_outcome.splits)
  obtain q where q: "format_descriptor ops io1 db = (q, db)" using fd [of io1] by (metis prod.collapse)
  have cnt: "store_counts ops io2 db = (k, db2) \<Longrightarrow> db2 = db \<and>
      (\<forall>c. k = Ok c \<longrightarrow> (sc_ready_batches c > 0 \<longleftrightarrow> ready_queue ops db \<noteq> []))" for k db2
    using table_len [OF redb_lawsD(1) [OF assms(1)]]
    by (auto simp: store_counts_def blocking_def read_txn_def ready_queue_def split: io_outcome.splits)
  have err: "set_format_descriptor ops io3 configured db = (Err e, db2) \<Longrightarrow> db2 = db" for e db2
    by (auto simp: set_format_descriptor_def dest: txn_err)
  have set: "set_format_descriptor ops io3 configured db = (Ok u, db2) \<Longrightarrow>
      fst (format_descriptor ops IoOk db2) = Ok (Some configured) \<and>
      pending_queue ops db2 = pending_queue ops db \<and> ready_queue ops db2 = ready_queue ops db" for u db2
    using set_format_descriptor_IoOk [OF assms(1,2)] by (simp add: pending_queue_def ready_queue_def)
  obtain w dbw where w: "set_format_descriptor ops io3 configured db = (w, dbw)" by (metis surj_pair)
  obtain k dbk where k: "store_counts ops io2 db = (k, dbk)" by (metis surj_pair)
  note run = assms(3) [unfolded ios reconcile_format_def prod.case q]
  show ?thesis
  proof (cases q)
    case (Inl e)
    then show ?thesis using run by auto
  next
    case (Inr opt)
    have q': "fst (format_descriptor ops IoOk db) = Ok opt" using fd_io q Inr by simp
    show ?thesis
    proof (cases opt)
      case None
      then show ?thesis using run Inr q' w err set by (cases w) auto
    next
      case (Some stored)
      show ?thesis
      proof (cases "stored = configured")
        case True
        then show ?thesis using run Inr Some q' by simp
      next
        case False
        note run' = run [unfolded Inr Some sum.case option.case if_not_P [OF False] k prod.case]
        show ?thesis
        proof (cases k)
          case (Inl e)
          then show ?thesis using run' cnt [OF k] by auto
        next
          case kc: (Inr c)
          have dbk: "dbk = db" "sc_ready_batches c > 0 \<longleftrightarrow> ready_queue ops db \<noteq> []"
            using cnt [OF k] kc by auto
          show ?thesis
          proof (cases "sc_ready_batches c > 0")
            case True
            then show ?thesis using run' kc dbk by auto
          next
            case none: False
            show ?thesis
            proof (cases w)
              case (Inl e)
              then show ?thesis using run' kc dbk none w err by auto
            next
              case (Inr u)
              then show ?thesis using run' kc dbk none w set by auto
            qed
          qed
        qed
      qed
    qed
  qed
qed

end
