(* ===== verification/Batcher.thy ===== *)
theory Batcher
  imports BatchStore
begin

text \<open>
  Durable batching: \<open>crates/edge/src/batcher/mod.rs\<close>, \<open>batcher/worker.rs\<close>, \<open>batcher/compression.rs\<close>.

  One \<open>step\<close> reads the oldest pending messages, decides which of them form the next batch and
  whether it is due (\<open>select\<close>), packs them into payloads below the size limit by halving
  (\<open>pack_into\<close>) and commits the result to the store. The store is a \<open>BatchStoreApi\<close>; protobuf and
  zstd are the parameters of \<open>codec\<close>. A \<open>turn\<close> holds what one step observes: the outcomes of its two
  store calls and the commit time. Wake-up hints (\<open>Notify\<close>) carry no data and are not modelled: the
  loops may run at any time.
\<close>

section \<open>Types\<close>

datatype FlushReason = CountReached | SizeReached | AgeReached | ShutdownFlush

fun flush_reason_str :: "FlushReason \<Rightarrow> string" where
  "flush_reason_str CountReached = ''count''"
| "flush_reason_str SizeReached = ''size''"
| "flush_reason_str AgeReached = ''age''"
| "flush_reason_str ShutdownFlush = ''shutdown''"

datatype BatchError =
    PayloadTooLarge MessageId nat nat nat Compression
  | InvalidEnvelope MessageId string
  | CompressionFailed string
  | BatchStoreFailed StoreError

record DecodedMessage =
  de_id :: MessageId
  de_envelope :: SignedEnvelope

record Packed =
  pk_batches :: "(PreparedBatch \<times> nat) list"
  pk_rejected :: "BatchError list"
  pk_splits :: nat

record Selection =
  se_len :: nat
  se_reason :: "FlushReason option"

datatype Step = Idle | Wait duration | Flushed

record codec =
  cd_decode :: "bytes \<Rightarrow> string + SignedEnvelope"
  cd_encode_batch :: "SignedEnvelope list \<Rightarrow> bytes"
  cd_zstd :: "bytes \<Rightarrow> string + bytes"
  cd_delim_len :: "nat \<Rightarrow> nat"

definition PAYLOAD_SCHEMA :: string where
  "PAYLOAD_SCHEMA = ''SignedEnvelopeBatch''"

definition PAYLOAD_SCHEMA_VERSION :: u32 where
  "PAYLOAD_SCHEMA_VERSION = 1"

definition PAYLOAD_ENCODING :: string where
  "PAYLOAD_ENCODING = ''protobuf''"

definition config_format_descriptor :: "BatcherConfig \<Rightarrow> FormatDescriptor" where
  "config_format_descriptor c =
     \<lparr>fd_schema = PAYLOAD_SCHEMA, fd_schema_version = PAYLOAD_SCHEMA_VERSION,
      fd_encoding = PAYLOAD_ENCODING, fd_compression = compression_str (compression c)\<rparr>"

section \<open>Encoding and packing\<close>

definition compress :: "codec \<Rightarrow> Compression \<Rightarrow> bytes \<Rightarrow> string + bytes" where
  "compress cd c serialized =
     (case c of CompressNone \<Rightarrow> Ok serialized | CompressZstd \<Rightarrow> cd_zstd cd serialized)"

definition decompress :: "(bytes \<Rightarrow> string + bytes) \<Rightarrow> Compression \<Rightarrow> bytes \<Rightarrow> string + bytes" where
  "decompress unzstd c payload =
     (case c of CompressNone \<Rightarrow> Ok payload | CompressZstd \<Rightarrow> unzstd payload)"

definition encode :: "codec \<Rightarrow> BatcherConfig \<Rightarrow> DecodedMessage list \<Rightarrow> BatchError + nat \<times> bytes" where
  "encode cd c messages =
     (let serialized = cd_encode_batch cd (map de_envelope messages)
      in case compress cd (compression c) serialized of
           Err e \<Rightarrow> Err (CompressionFailed e)
         | Ok payload \<Rightarrow> Ok (length serialized, payload))"

text \<open>On an empty slice whose payload is too large the source would not return; \<open>pack\<close> never calls
  it there, and the model leaves \<open>out\<close> as it is.\<close>

function pack_into :: "codec \<Rightarrow> BatcherConfig \<Rightarrow> DecodedMessage list \<Rightarrow> Packed \<Rightarrow> BatchError + Packed" where
  "pack_into cd c messages out =
     (case encode cd c messages of
        Err e \<Rightarrow> Err e
      | Ok (serialized, payload) \<Rightarrow>
          if length payload \<le> max_batch_size c
          then Ok (out\<lparr>pk_batches := pk_batches out @
                 [(\<lparr>pb_message_count = word_of_nat (length messages), pb_payload = payload\<rparr>, serialized)]\<rparr>)
          else if messages = [] then Ok out
          else if length messages = 1
          then Ok (out\<lparr>pk_rejected := pk_rejected out @
                 [PayloadTooLarge (de_id (hd messages)) serialized (length payload) (max_batch_size c)
                    (compression c)]\<rparr>)
          else
            let half = length messages div 2
            in case pack_into cd c (take half messages) (out\<lparr>pk_splits := pk_splits out + 1\<rparr>) of
                 Err e \<Rightarrow> Err e
               | Ok out1 \<Rightarrow> pack_into cd c (drop half messages) out1)"
  by pat_completeness auto
termination
proof (relation "measure (\<lambda>(cd, c, messages, out). length messages)")
  fix cd c and messages :: "DecodedMessage list" and out :: Packed and v payload' serialized payload half
  assume "messages \<noteq> []" "length messages \<noteq> 1" and half: "half = length messages div 2"
  then have "1 \<le> half" "half < length messages" by (cases messages; cases "tl messages"; simp)+
  then show "((cd, c, take half messages, out\<lparr>pk_splits := pk_splits out + 1\<rparr>), cd, c, messages, out)
      \<in> measure (\<lambda>(cd, c, messages, out). length messages)"
    "\<And>out1. ((cd, c, drop half messages, out1), cd, c, messages, out)
      \<in> measure (\<lambda>(cd, c, messages, out). length messages)" by simp_all
qed simp

declare pack_into.simps [simp del]

definition empty_packed :: Packed where
  "empty_packed = \<lparr>pk_batches = [], pk_rejected = [], pk_splits = 0\<rparr>"

definition pack :: "codec \<Rightarrow> BatcherConfig \<Rightarrow> DecodedMessage list \<Rightarrow> BatchError + Packed" where
  "pack cd c messages =
     (if messages \<noteq> [] then pack_into cd c messages empty_packed else Ok empty_packed)"

section \<open>Selecting\<close>

text \<open>The loop of \<open>select\<close>.\<close>

fun select_loop ::
  "codec \<Rightarrow> BatcherConfig \<Rightarrow> StoredMessage list \<Rightarrow> nat \<Rightarrow> nat \<Rightarrow> nat \<times> FlushReason option" where
  "select_loop cd c [] len sz = (len, None)"
| "select_loop cd c (message # ms) len sz =
     (if len = max_messages c then (len, Some CountReached)
      else if compression c = CompressNone
      then let wire = length (sm_envelope message);
               entry = 1 + cd_delim_len cd wire + wire
           in if len > 0 \<and> sz + entry > max_batch_size c then (len, Some SizeReached)
              else select_loop cd c ms (len + 1) (sz + entry)
      else select_loop cd c ms (len + 1) sz)"

definition select :: "codec \<Rightarrow> BatcherConfig \<Rightarrow> StoredMessage list \<Rightarrow> Timestamp \<Rightarrow> Selection" where
  "select cd c pending now =
     (let (len, reason) = select_loop cd c pending 0 0;
          reason1 = (if reason = None \<and> len = max_messages c then Some CountReached else reason);
          reason2 = (if reason1 = None
                     then (case pending of
                             [] \<Rightarrow> None
                           | oldest # _ \<Rightarrow>
                               if elapsed_until (sm_received_at oldest) now \<ge> max_batch_age c
                               then Some AgeReached else None)
                     else reason1)
      in \<lparr>se_len = len, se_reason = reason2\<rparr>)"

section \<open>One step\<close>

text \<open>The decoding loop of \<open>step\<close>: the decoded messages and the rejected ones.\<close>

fun decode_candidate :: "codec \<Rightarrow> StoredMessage list \<Rightarrow> DecodedMessage list \<times> BatchError list" where
  "decode_candidate cd [] = ([], [])"
| "decode_candidate cd (message # ms) =
     (let (ds, rs) = decode_candidate cd ms
      in case decode_envelope (cd_decode cd) (sm_envelope message) of
           Ok envelope \<Rightarrow> (\<lparr>de_id = sm_sequence message, de_envelope = envelope\<rparr> # ds, rs)
         | Err err \<Rightarrow> (ds, InvalidEnvelope (sm_sequence message) (show_protocol_error err) # rs))"

text \<open>What a step decides from the pending messages it read.\<close>

datatype Plan = PlanIdle | PlanWait duration | PlanFlush FlushReason "MessageId list" Packed

definition plan ::
  "codec \<Rightarrow> BatcherConfig \<Rightarrow> Timestamp \<Rightarrow> bool \<Rightarrow> StoredMessage list \<Rightarrow> BatchError + Plan" where
  "plan cd c now force pending =
     (case pending of
        [] \<Rightarrow> Ok PlanIdle
      | oldest # _ \<Rightarrow>
          let selection = select cd c pending now;
              age = elapsed_until (sm_received_at oldest) now
          in (case (case se_reason selection of
                      Some reason \<Rightarrow> Some reason
                    | None \<Rightarrow> if force then Some ShutdownFlush else None) of
                None \<Rightarrow> Ok (PlanWait (max_batch_age c - age))
              | Some reason \<Rightarrow>
                  let candidate = take (se_len selection) pending;
                      consumed = map sm_sequence candidate;
                      (decoded, rejected) = decode_candidate cd candidate
                  in (case pack cd c decoded of
                        Err e \<Rightarrow> Err e
                      | Ok packed \<Rightarrow>
                          Ok (PlanFlush reason consumed
                                (packed\<lparr>pk_rejected := pk_rejected packed @ rejected\<rparr>)))))"

definition too_large :: "BatchError \<Rightarrow> bool" where
  "too_large e = (case e of PayloadTooLarge _ _ _ _ _ \<Rightarrow> True | _ \<Rightarrow> False)"

definition flush_metrics :: "FlushReason \<Rightarrow> Packed \<Rightarrow> BatchId list \<Rightarrow> metric list" where
  "flush_metrics reason packed ids =
     map (\<lambda>_. incr BATCHER_PAYLOAD_TOO_LARGE_TOTAL) (filter too_large (pk_rejected packed)) @
     [Counter BATCHER_FLUSH_TOTAL [(''reason'', flush_reason_str reason)] 1,
      Counter BATCHER_SPLIT_TOTAL [] (pk_splits packed)] @
     concat (map (\<lambda>(i, batch, serialized).
       [Histogram BATCHER_SERIALIZED_BYTES serialized,
        Histogram BATCHER_PAYLOAD_BYTES (length (pb_payload batch))] @
       (if serialized > 0
        then [GaugeRatio BATCHER_COMPRESSION_RATIO (length (pb_payload batch)) serialized] else []))
       (zip ids (pk_batches packed)))"

record turn =
  tn_read :: io_outcome
  tn_commit :: io_outcome
  tn_time :: Timestamp

definition step ::
  "'s BatchStoreApi \<Rightarrow> codec \<Rightarrow> BatcherConfig \<Rightarrow> turn \<Rightarrow> Timestamp \<Rightarrow> bool \<Rightarrow> 's
    \<Rightarrow> (BatchError + Step) \<times> 's \<times> metric list" where
  "step api cd c tn now force s =
     (case api_pending api (tn_read tn) (max_messages c) s of
        (Err e, s1) \<Rightarrow> (Err (BatchStoreFailed e), s1, [])
      | (Ok pending, s1) \<Rightarrow>
          (case plan cd c now force pending of
             Err e \<Rightarrow> (Err e, s1, [])
           | Ok PlanIdle \<Rightarrow> (Ok Idle, s1, [])
           | Ok (PlanWait d) \<Rightarrow> (Ok (Wait d), s1, [])
           | Ok (PlanFlush reason consumed packed) \<Rightarrow>
               (case api_commit api (tn_commit tn) (tn_time tn) consumed (map fst (pk_batches packed)) s1 of
                  (Err e, s2) \<Rightarrow> (Err (BatchStoreFailed e), s2, [])
                | (Ok ids, s2) \<Rightarrow> (Ok Flushed, s2, flush_metrics reason packed ids))))"

section \<open>The loops\<close>

partial_function (option) flush_due ::
  "'s BatchStoreApi \<Rightarrow> codec \<Rightarrow> BatcherConfig \<Rightarrow> (nat \<Rightarrow> turn) \<Rightarrow> nat \<Rightarrow> Timestamp \<Rightarrow> 's
    \<Rightarrow> ((BatchError + duration option) \<times> 's \<times> metric list) option" where
  "flush_due api cd c turns n now s =
     (case step api cd c (turns n) now False s of
        (r, s1, ms) \<Rightarrow>
          if r = Ok Flushed
          then Option.bind (flush_due api cd c turns (Suc n) now s1)
                 (\<lambda>(r2, s2, ms2). Some (r2, s2, ms @ ms2))
          else Some (case r of
                       Err e \<Rightarrow> Err e
                     | Ok (Wait d) \<Rightarrow> Ok (Some d)
                     | Ok _ \<Rightarrow> Ok None, s1, ms))"

text \<open>\<open>flush_all\<close> reads the clock for every step; \<open>clock n\<close> is the reading of step \<open>n\<close>.\<close>

partial_function (option) flush_all ::
  "'s BatchStoreApi \<Rightarrow> codec \<Rightarrow> BatcherConfig \<Rightarrow> (nat \<Rightarrow> turn) \<Rightarrow> (nat \<Rightarrow> Timestamp) \<Rightarrow> nat \<Rightarrow> 's
    \<Rightarrow> ((BatchError + unit) \<times> 's \<times> metric list) option" where
  "flush_all api cd c turns clock n s =
     (case step api cd c (turns n) (clock n) True s of
        (r, s1, ms) \<Rightarrow>
          if isl r then Some (Err (projl r), s1, ms)
          else if r = Ok Idle then Some (Ok (), s1, ms)
          else Option.bind (flush_all api cd c turns clock (Suc n) s1)
                 (\<lambda>(r2, s2, ms2). Some (r2, s2, ms @ ms2)))"

declare flush_due.simps [code] flush_all.simps [code]

definition report_gauges ::
  "'s BatchStoreApi \<Rightarrow> io_outcome \<Rightarrow> io_outcome \<Rightarrow> Timestamp \<Rightarrow> 's \<Rightarrow> 's \<times> metric list" where
  "report_gauges api io1 io2 now s =
     (case api_counts api io1 s of
        (Err _, s1) \<Rightarrow> (s1, [])
      | (Ok n, s1) \<Rightarrow>
          (case api_pending api io2 1 s1 of
             (r, s2) \<Rightarrow>
               (s2, [Gauge BATCHER_PENDING_MESSAGES (sc_pending_messages n),
                     Gauge BATCHER_READY_BATCHES (sc_ready_batches n),
                     GaugeRatio BATCHER_OLDEST_PENDING_AGE_SECONDS
                       (case r of Ok (m # _) \<Rightarrow> elapsed_until (sm_received_at m) now | _ \<Rightarrow> 0)
                       (from_secs 1)])))"

definition STORE_RETRY_DELAY :: duration where
  "STORE_RETRY_DELAY = from_secs 1"

text \<open>One pass of the worker's loop: the batches that are due, then the gauges; the result is the
  instant until which it sleeps unless it is woken (\<open>None\<close>: only when woken).\<close>

definition worker_pass ::
  "'s BatchStoreApi \<Rightarrow> codec \<Rightarrow> BatcherConfig \<Rightarrow> (nat \<Rightarrow> turn) \<Rightarrow> io_outcome \<times> io_outcome
    \<Rightarrow> instant \<Rightarrow> instant \<Rightarrow> Timestamp \<Rightarrow> Timestamp \<Rightarrow> 's \<Rightarrow> (instant option \<times> 's \<times> metric list) option" where
  "worker_pass api cd c turns ios pass_started after now now' s =
     (case flush_due api cd c turns 0 now s of
        None \<Rightarrow> None
      | Some (r, s1, ms) \<Rightarrow>
          let deadline_at = (case r of
                               Ok next_due \<Rightarrow> map_option (\<lambda>delay. pass_started + delay) next_due
                             | Err _ \<Rightarrow> Some (after + STORE_RETRY_DELAY));
              (s2, gs) = report_gauges api (fst ios) (snd ios) now' s1
          in Some (deadline_at, s2, ms @ gs))"

section \<open>Specification\<close>

text \<open>What a reader of the payloads relies on: protobuf and zstd decode what was encoded.\<close>

definition codec_reads :: "codec \<Rightarrow> (bytes \<Rightarrow> string + bytes) \<Rightarrow> (bytes \<Rightarrow> string + SignedEnvelope list) \<Rightarrow> bool"
  where
  "codec_reads cd unzstd dec_batch \<longleftrightarrow>
     (\<forall>es. dec_batch (cd_encode_batch cd es) = Ok es) \<and>
     (\<forall>b z. cd_zstd cd b = Ok z \<longrightarrow> unzstd z = Ok b)"

definition payload_envelopes ::
  "(bytes \<Rightarrow> string + bytes) \<Rightarrow> (bytes \<Rightarrow> string + SignedEnvelope list) \<Rightarrow> BatcherConfig \<Rightarrow> bytes
    \<Rightarrow> SignedEnvelope list" where
  "payload_envelopes unzstd dec_batch c payload =
     (case decompress unzstd (compression c) payload of
        Err _ \<Rightarrow> [] | Ok b \<Rightarrow> (case dec_batch b of Err _ \<Rightarrow> [] | Ok es \<Rightarrow> es))"

text \<open>Packing cuts the messages into consecutive parts; each part became a batch or is a single
  message that is too large.\<close>

datatype part = Fit "DecodedMessage list" nat bytes | TooBig DecodedMessage nat bytes

fun part_messages :: "part \<Rightarrow> DecodedMessage list" where
  "part_messages (Fit ms _ _) = ms"
| "part_messages (TooBig m _ _) = [m]"

fun part_ok :: "codec \<Rightarrow> BatcherConfig \<Rightarrow> part \<Rightarrow> bool" where
  "part_ok cd c (Fit ms ser pay) \<longleftrightarrow> ms \<noteq> [] \<and> encode cd c ms = Ok (ser, pay) \<and> length pay \<le> max_batch_size c"
| "part_ok cd c (TooBig m ser pay) \<longleftrightarrow> encode cd c [m] = Ok (ser, pay) \<and> max_batch_size c < length pay"

fun part_batches :: "part \<Rightarrow> (PreparedBatch \<times> nat) list" where
  "part_batches (Fit ms ser pay) = [(\<lparr>pb_message_count = word_of_nat (length ms), pb_payload = pay\<rparr>, ser)]"
| "part_batches (TooBig _ _ _) = []"

fun part_rejected :: "BatcherConfig \<Rightarrow> part \<Rightarrow> BatchError list" where
  "part_rejected c (Fit _ _ _) = []"
| "part_rejected c (TooBig m ser pay) =
     [PayloadTooLarge (de_id m) ser (length pay) (max_batch_size c) (compression c)]"

fun part_kept :: "part \<Rightarrow> DecodedMessage list" where
  "part_kept (Fit ms _ _) = ms"
| "part_kept (TooBig _ _ _) = []"

definition oversize :: "codec \<Rightarrow> BatcherConfig \<Rightarrow> DecodedMessage \<Rightarrow> bool" where
  "oversize cd c m \<longleftrightarrow>
     (case encode cd c [m] of Err _ \<Rightarrow> False | Ok (_, payload) \<Rightarrow> max_batch_size c < length payload)"

text \<open>A list with some elements of a kind left out, the others kept in order.\<close>

inductive kept_except :: "('a \<Rightarrow> bool) \<Rightarrow> 'a list \<Rightarrow> 'a list \<Rightarrow> bool" for bad where
  kept_Nil: "kept_except bad [] []"
| kept_Cons: "kept_except bad xs ys \<Longrightarrow> kept_except bad (x # xs) (x # ys)"
| left_out: "kept_except bad xs ys \<Longrightarrow> bad x \<Longrightarrow> kept_except bad (x # xs) ys"

text \<open>The envelopes a reader finds in the ready batches, and those that are still pending.\<close>

definition batched_envelopes ::
  "(bytes \<Rightarrow> string + bytes) \<Rightarrow> (bytes \<Rightarrow> string + SignedEnvelope list) \<Rightarrow> BatcherConfig
    \<Rightarrow> StoredBatch list \<Rightarrow> SignedEnvelope list" where
  "batched_envelopes unzstd dec_batch c bs = concat (map (payload_envelopes unzstd dec_batch c \<circ> sb_payload) bs)"

definition pending_envelopes :: "codec \<Rightarrow> StoredMessage list \<Rightarrow> SignedEnvelope list" where
  "pending_envelopes cd ms = map de_envelope (fst (decode_candidate cd ms))"

section \<open>Packing\<close>

lemma pack_into_parts:
  "messages \<noteq> [] \<Longrightarrow> pack_into cd c messages out = Ok out' \<Longrightarrow>
   \<exists>parts. concat (map part_messages parts) = messages \<and> (\<forall>p\<in>set parts. part_ok cd c p) \<and>
     pk_batches out' = pk_batches out @ concat (map part_batches parts) \<and>
     pk_rejected out' = pk_rejected out @ concat (map (part_rejected c) parts) \<and>
     pk_splits out' + 1 = pk_splits out + length parts"
proof (induction cd c messages out arbitrary: out' rule: pack_into.induct)
  case (1 cd c messages out)
  obtain ser pay where enc: "encode cd c messages = Ok (ser, pay)"
    using "1.prems"(2) by (subst (asm) pack_into.simps) (auto split: sum.splits)
  note run = "1.prems"(2) [unfolded pack_into.simps [of cd c messages] enc sum.case prod.case]
  show ?case
  proof (cases "length pay \<le> max_batch_size c")
    case True
    then show ?thesis using run enc "1.prems"(1) by (intro exI [of _ "[Fit messages ser pay]"]) auto
  next
    case big: False
    show ?thesis
    proof (cases "length messages = 1")
      case True
      then obtain m where "messages = [m]" by (cases messages) auto
      then show ?thesis using run enc big by (intro exI [of _ "[TooBig m ser pay]"]) auto
    next
      case False
      define half where "half = length messages div 2"
      have "messages \<noteq> []" using "1.prems"(1) .
      then have half: "1 \<le> half" "half < length messages"
        using False unfolding half_def by (cases messages; cases "tl messages"; simp)+
      obtain out1 where
        l: "pack_into cd c (take half messages) (out\<lparr>pk_splits := pk_splits out + 1\<rparr>) = Ok out1"
        and r: "pack_into cd c (drop half messages) out1 = Ok out'"
        using run big False "1.prems"(1) by (auto simp: Let_def half_def split: sum.splits)
      obtain ps where ps: "concat (map part_messages ps) = take half messages" "\<forall>p\<in>set ps. part_ok cd c p"
        "pk_batches out1 = pk_batches out @ concat (map part_batches ps)"
        "pk_rejected out1 = pk_rejected out @ concat (map (part_rejected c) ps)"
        "pk_splits out1 + 1 = pk_splits out + 1 + length ps"
      proof -
        have "take half messages \<noteq> []" using half by auto
        from "1.IH"(1) [OF enc refl big "1.prems"(1) False half_def this l] that show thesis by auto
      qed
      obtain qs where qs: "concat (map part_messages qs) = drop half messages" "\<forall>p\<in>set qs. part_ok cd c p"
        "pk_batches out' = pk_batches out1 @ concat (map part_batches qs)"
        "pk_rejected out' = pk_rejected out1 @ concat (map (part_rejected c) qs)"
        "pk_splits out' + 1 = pk_splits out1 + length qs"
      proof -
        have "drop half messages \<noteq> []" using half by auto
        from "1.IH"(2) [OF enc refl big "1.prems"(1) False half_def l this r] that show thesis by auto
      qed
      show ?thesis by (rule exI [of _ "ps @ qs"]) (use ps qs in auto)
    qed
  qed
qed

lemma pack_parts:
  assumes "pack cd c messages = Ok packed"
  shows "\<exists>parts. concat (map part_messages parts) = messages \<and> (\<forall>p\<in>set parts. part_ok cd c p) \<and>
     pk_batches packed = concat (map part_batches parts) \<and>
     pk_rejected packed = concat (map (part_rejected c) parts)"
proof (cases "messages = []")
  case True
  then show ?thesis using assms by (intro exI [of _ "[]"]) (auto simp: pack_def empty_packed_def)
next
  case False
  then show ?thesis using pack_into_parts [OF False, of cd c empty_packed packed] assms
    by (auto simp: pack_def empty_packed_def)
qed

lemma pack_into_total:
  assumes "\<forall>ms. \<exists>r. encode cd c ms = Ok r"
  shows "\<exists>out'. pack_into cd c messages out = Ok out'"
  using assms
proof (induction cd c messages out rule: pack_into.induct)
  case (1 cd c messages out)
  obtain ser pay where enc: "encode cd c messages = Ok (ser, pay)" using "1.prems" by (metis surj_pair)
  show ?case
  proof (cases "length pay \<le> max_batch_size c \<or> messages = [] \<or> length messages = 1")
    case True
    then show ?thesis by (subst pack_into.simps) (auto simp: enc)
  next
    case False
    then have f: "\<not> length pay \<le> max_batch_size c" "messages \<noteq> []" "length messages \<noteq> 1" by auto
    obtain out1 where l: "pack_into cd c (take (length messages div 2) messages)
        (out\<lparr>pk_splits := pk_splits out + 1\<rparr>) = Ok out1"
      using "1.IH"(1) [OF enc refl f refl "1.prems"] by blast
    obtain out2 where "pack_into cd c (drop (length messages div 2) messages) out1 = Ok out2"
      using "1.IH"(2) [OF enc refl f refl l "1.prems"] by blast
    with l f show ?thesis by (subst pack_into.simps) (simp add: enc Let_def)
  qed
qed

lemma part_reads:
  assumes "codec_reads cd unzstd dec_batch" and "part_ok cd c p"
  shows "concat (map (payload_envelopes unzstd dec_batch c \<circ> pb_payload \<circ> fst) (part_batches p)) =
    map de_envelope (part_kept p)"
  using assms
  by (cases p; cases "compression c")
    (auto simp: encode_def Let_def compress_def payload_envelopes_def decompress_def codec_reads_def split: sum.splits)

lemma parts_read:
  assumes "codec_reads cd unzstd dec_batch" and "\<forall>p\<in>set parts. part_ok cd c p"
  shows "concat (map (payload_envelopes unzstd dec_batch c \<circ> pb_payload \<circ> fst) (concat (map part_batches parts))) =
    map de_envelope (concat (map part_kept parts))"
  using assms(2)
proof (induction parts)
  case (Cons p parts)
  then show ?case using part_reads [OF assms(1), of c p] by (simp add: comp_def)
qed simp

lemma parts_kept:
  assumes "\<forall>p\<in>set parts. part_ok cd c p"
  shows "\<exists>I. concat (map part_kept parts) = nths (concat (map part_messages parts)) I \<and>
    (\<forall>i < length (concat (map part_messages parts)).
      i \<notin> I \<longrightarrow> oversize cd c (concat (map part_messages parts) ! i))"
  using assms
proof (induction parts)
  case (Cons p parts)
  define ms rest where "ms = part_messages p" and "rest = concat (map part_messages parts)"
  from Cons obtain I where I: "concat (map part_kept parts) = nths rest I"
    "\<forall>i < length rest. i \<notin> I \<longrightarrow> oversize cd c (rest ! i)" by (auto simp: rest_def)
  define A where "A = (case p of Fit _ _ _ \<Rightarrow> {..<length ms} | TooBig _ _ _ \<Rightarrow> {})"
  define J where "J = A \<union> (\<lambda>j. j + length ms) ` I"
  have A: "A \<subseteq> {..<length ms}" by (auto simp: A_def split: part.splits)
  then have sh: "{j. j + length ms \<in> J} = I" by (auto simp: J_def)
  have "nths ms J = nths ms A"
    unfolding nths_def J_def by (rule arg_cong [where f = "map fst"], rule filter_cong) (auto simp: set_zip)
  also have "\<dots> = part_kept p"
    by (cases p) (auto simp: A_def ms_def nths_all)
  finally have hd: "nths ms J = part_kept p" .
  have big: "oversize cd c (ms ! i)" if "i < length ms" "i \<notin> A" for i
    using that Cons.prems by (cases p) (auto simp: A_def ms_def oversize_def)
  have "oversize cd c ((ms @ rest) ! i)" if i: "i < length (ms @ rest)" "i \<notin> J" for i
  proof (cases "i < length ms")
    case True
    then show ?thesis using big i by (auto simp: J_def nth_append)
  next
    case False
    then have "i - length ms \<notin> I" using i(2) by (auto simp: J_def image_iff)
    then show ?thesis using I(2) i(1) False by (auto simp: nth_append)
  qed
  then show ?case using I(1) hd sh
    by (intro exI [of _ J]) (simp add: nths_append ms_def [symmetric] rest_def [symmetric])
qed simp

lemma parts_all_kept:
  assumes "\<forall>p\<in>set parts. part_ok cd c p" and "\<forall>m\<in>set (concat (map part_messages parts)). \<not> oversize cd c m"
  shows "concat (map part_kept parts) = concat (map part_messages parts)"
proof -
  have "part_kept p = part_messages p" if "p \<in> set parts" for p
  proof (cases p)
    case (TooBig m ser pay)
    then have "m \<in> set (concat (map part_messages parts))" using that by force
    with assms(2) have "\<not> oversize cd c m" by blast
    moreover have "part_ok cd c (TooBig m ser pay)" using assms(1) that TooBig by blast
    ultimately show ?thesis by (simp add: oversize_def)
  qed simp
  then show ?thesis by (auto intro!: arg_cong [where f = concat])
qed

lemma part_counts:
  assumes "codec_reads cd unzstd dec_batch" and "\<forall>p\<in>set parts. part_ok cd c p"
    and "b \<in> set (concat (map part_batches parts))"
  shows "pb_message_count (fst b) = word_of_nat (length (payload_envelopes unzstd dec_batch c (pb_payload (fst b)))) \<and>
    length (pb_payload (fst b)) \<le> max_batch_size c"
proof -
  obtain p where p: "p \<in> set parts" "b \<in> set (part_batches p)" using assms(3) by auto
  with assms(2) obtain ms ser pay where f: "p = Fit ms ser pay" "encode cd c ms = Ok (ser, pay)"
    "length pay \<le> max_batch_size c" by (cases p) auto
  have "payload_envelopes unzstd dec_batch c pay = map de_envelope ms"
    using part_reads [OF assms(1), of c p] f assms(2) p(1) by auto
  then show ?thesis using p(2) f by auto
qed

lemma length_batches_le:
  assumes "\<forall>p\<in>set parts. part_ok cd c p"
  shows "length (concat (map part_batches parts)) \<le> length (concat (map part_messages parts))"
  using assms
proof (induction parts)
  case (Cons p parts)
  then have "length (part_batches p) \<le> length (part_messages p)"
    by (cases p) (auto simp: Suc_le_eq)
  with Cons show ?case by simp
qed simp

lemma kept_except_append:
  "kept_except bad xs ys \<Longrightarrow> kept_except bad xs' ys' \<Longrightarrow> kept_except bad (xs @ xs') (ys @ ys')"
  by (induction rule: kept_except.induct) (auto intro: kept_except.intros)

lemma kept_except_refl: "kept_except bad xs xs"
  by (induction xs) (auto intro: kept_except.intros)

lemma kept_except_none: "kept_except bad xs ys \<Longrightarrow> \<forall>x\<in>set xs. \<not> bad x \<Longrightarrow> ys = xs"
  by (induction rule: kept_except.induct) auto

lemma parts_except:
  "\<forall>p\<in>set parts. part_ok cd c p \<Longrightarrow>
   kept_except (oversize cd c) (concat (map part_messages parts)) (concat (map part_kept parts))"
proof (induction parts)
  case (Cons p parts)
  have "kept_except (oversize cd c) (part_messages p) (part_kept p)"
    using Cons.prems by (cases p) (auto simp: oversize_def intro: kept_except.intros kept_except_refl)
  with Cons show ?case by (simp add: kept_except_append)
qed (simp add: kept_Nil)

section \<open>Selecting\<close>

lemma select_loop_bounds:
  "select_loop cd c pending len sz = (n, r) \<Longrightarrow> len \<le> n \<and> n \<le> len + length pending"
  by (induction cd c pending len sz rule: select_loop.induct) (force simp: Let_def split: if_splits)+

lemma select_bounds:
  assumes "pending \<noteq> []" and "0 < max_messages c"
  shows "1 \<le> se_len (select cd c pending now) \<and> se_len (select cd c pending now) \<le> length pending"
proof -
  obtain m ms where p: "pending = m # ms" using assms(1) by (cases pending) auto
  obtain n r where l: "select_loop cd c pending 0 0 = (n, r)" by (metis surj_pair)
  have "\<exists>sz. select_loop cd c ms 1 sz = (n, r)"
    using l assms(2) by (auto simp: p Let_def split: if_splits)
  then have "1 \<le> n" "n \<le> length pending" using select_loop_bounds [of cd c ms] p by force+
  then show ?thesis by (simp add: select_def l Let_def)
qed

lemma select_reason_None:
  assumes "se_reason (select cd c (m # ms) now) = None"
  shows "elapsed_until (sm_received_at m) now < max_batch_age c"
  using assms by (auto simp: select_def Let_def not_le split: prod.splits if_splits)

section \<open>Steps on a store that keeps its contract\<close>

lemma drop_by_filter:
  assumes "distinct (map f xs)"
  shows "filter (\<lambda>x. f x \<notin> set (map f (take k xs))) xs = drop k xs"
proof -
  have d: "distinct (map f (take k xs) @ map f (drop k xs))"
    using assms by (metis append_take_drop_id map_append)
  have "filter (\<lambda>x. f x \<notin> set (map f (take k xs))) (take k xs) = []" by (auto simp: filter_empty_conv)
  moreover have "filter (\<lambda>x. f x \<notin> set (map f (take k xs))) (drop k xs) = drop k xs"
    using d by (intro filter_True) auto
  ultimately show ?thesis by (metis append_Nil append_take_drop_id filter_append)
qed

lemma plan_flush:
  assumes "plan cd c now force pending = Ok (PlanFlush reason consumed packed)" and "0 < max_messages c"
  shows "\<exists>k parts. 1 \<le> k \<and> k \<le> length pending \<and> consumed = map sm_sequence (take k pending) \<and>
    concat (map part_messages parts) = fst (decode_candidate cd (take k pending)) \<and>
    (\<forall>p\<in>set parts. part_ok cd c p) \<and> pk_batches packed = concat (map part_batches parts) \<and>
    pk_rejected packed = concat (map (part_rejected c) parts) @ snd (decode_candidate cd (take k pending))"
proof -
  define k where "k = se_len (select cd c pending now)"
  have ne: "pending \<noteq> []" using assms(1) by (auto simp: plan_def)
  obtain p where p: "pack cd c (fst (decode_candidate cd (take k pending))) = Ok p"
    and pk: "packed = p\<lparr>pk_rejected := pk_rejected p @ snd (decode_candidate cd (take k pending))\<rparr>"
    and con: "consumed = map sm_sequence (take k pending)"
    using assms(1) ne
    by (auto simp: plan_def Let_def k_def split: list.splits option.splits if_splits prod.splits sum.splits)
  obtain parts where "concat (map part_messages parts) = fst (decode_candidate cd (take k pending))"
    "\<forall>p\<in>set parts. part_ok cd c p" "pk_batches p = concat (map part_batches parts)"
    "pk_rejected p = concat (map (part_rejected c) parts)" using pack_parts [OF p] by blast
  then show ?thesis using select_bounds [OF ne assms(2), of cd now] con
    by (intro exI [of _ k] exI [of _ parts]) (auto simp: pk k_def)
qed

lemma decode_candidate_length: "length (fst (decode_candidate cd ms)) \<le> length ms"
  by (induction cd ms rule: decode_candidate.induct) (auto simp: Let_def split: prod.splits sum.splits)

lemma decode_candidate_append:
  "fst (decode_candidate cd (xs @ ys)) = fst (decode_candidate cd xs) @ fst (decode_candidate cd ys)"
  by (induction xs) (auto simp: Let_def split: prod.splits sum.splits)

lemma pending_envelopes_append [simp]:
  "pending_envelopes cd (xs @ ys) = pending_envelopes cd xs @ pending_envelopes cd ys"
  by (simp add: pending_envelopes_def decode_candidate_append)

context batch_store
begin

definition implements :: "'s BatchStoreApi \<Rightarrow> bool" where
  "implements api \<longleftrightarrow> api_push api = push \<and> api_pending api = pending \<and> api_commit api = commit \<and>
     api_ready api = ready \<and> api_confirm api = confirm"

lemma step_unchanged:
  assumes api: "implements api" and i: "inv s" and run: "step api cd c tn now force s = (r, s', ms)"
    and "r \<noteq> Ok Flushed"
  shows "s' = s"
proof -
  obtain p s1 where p: "pending (tn_read tn) (max_messages c) s = (p, s1)" by (metis surj_pair)
  have s1: "s1 = s" using pending_ok [OF i p] by blast
  show ?thesis
    using run [unfolded step_def api [unfolded implements_def, THEN conjunct2, THEN conjunct1]
        api [unfolded implements_def, THEN conjunct2, THEN conjunct2, THEN conjunct1] p prod.case] assms(4) s1
    by (auto split: sum.splits Plan.splits prod.splits dest: commit_err)
qed

lemma step_idle_wait:
  assumes api: "implements api" and i: "inv s" and run: "step api cd c tn now force s = (Ok st, s', ms)"
    and m: "0 < max_messages c"
  shows "st = Idle \<Longrightarrow> pq s = []"
    and "st = Wait d \<Longrightarrow> \<not> force \<and> (\<exists>m ms'. pq s = m # ms' \<and>
      d = max_batch_age c - elapsed_until (sm_received_at m) now \<and>
      se_reason (select cd c (take (max_messages c) (pq s)) now) = None)"
proof -
  obtain p s1 where p: "pending (tn_read tn) (max_messages c) s = (p, s1)" by (metis surj_pair)
  have p': "isl p \<or> p = Ok (take (max_messages c) (pq s))" using pending_ok [OF i p] by blast
  have pok: "p = Ok (take (max_messages c) (pq s))"
    using run p api p' by (auto simp: step_def implements_def isl_def)
  show "pq s = []" if "st = Idle"
    using run that p pok api m
    by (auto simp: step_def implements_def plan_def Let_def
        split: sum.splits Plan.splits prod.splits list.splits option.splits if_splits)
  show "\<not> force \<and> (\<exists>m ms'. pq s = m # ms' \<and>
      d = max_batch_age c - elapsed_until (sm_received_at m) now \<and>
      se_reason (select cd c (take (max_messages c) (pq s)) now) = None)" if "st = Wait d"
  proof -
    have pl: "plan cd c now force (take (max_messages c) (pq s)) = Ok (PlanWait d)"
      using run that p pok api by (auto simp: step_def implements_def split: sum.splits Plan.splits prod.splits)
    obtain m ms' where q: "pq s = m # ms'" using pl by (cases "pq s") (auto simp: plan_def)
    then have t: "take (max_messages c) (pq s) = m # take (max_messages c - 1) ms'"
      using m by (cases "max_messages c") auto
    show ?thesis using pl unfolding t
      by (auto simp: plan_def Let_def q split: option.splits if_splits prod.splits sum.splits)
  qed
qed

lemma step_flushed:
  assumes api: "implements api" and i: "inv s" and rm: "room (max_messages c + n) s"
    and m: "0 < max_messages c" and run: "step api cd c tn now force s = (Ok Flushed, s', ms)"
  shows "\<exists>k parts. 1 \<le> k \<and> k \<le> length (pq s) \<and> inv s' \<and> pq s' = drop k (pq s) \<and>
    concat (map part_messages parts) = fst (decode_candidate cd (take k (pq s))) \<and>
    (\<forall>p\<in>set parts. part_ok cd c p) \<and>
    map sb_payload (rq s') = map sb_payload (rq s) @ map (pb_payload \<circ> fst) (concat (map part_batches parts)) \<and>
    map sb_message_count (rq s') =
      map sb_message_count (rq s) @ map (pb_message_count \<circ> fst) (concat (map part_batches parts))"
proof -
  obtain p s1 where p: "pending (tn_read tn) (max_messages c) s = (p, s1)" by (metis surj_pair)
  have s1: "s1 = s" and p': "isl p \<or> p = Ok (take (max_messages c) (pq s))"
    using pending_ok [OF i p] by blast+
  define cand where "cand = take (max_messages c) (pq s)"
  have pok: "p = Ok cand"
    using run p api p' by (auto simp: step_def implements_def isl_def cand_def)
  obtain reason consumed packed ids where
    pl: "plan cd c now force cand = Ok (PlanFlush reason consumed packed)"
    and cm: "commit (tn_commit tn) (tn_time tn) consumed (map fst (pk_batches packed)) s = (Ok ids, s')"
    using run p pok s1 api
    by (auto simp: step_def implements_def split: sum.splits Plan.splits prod.splits)
  obtain k parts where k: "1 \<le> k" "k \<le> length cand" "consumed = map sm_sequence (take k cand)"
    "concat (map part_messages parts) = fst (decode_candidate cd (take k cand))"
    "\<forall>p\<in>set parts. part_ok cd c p" "pk_batches packed = concat (map part_batches parts)"
    using plan_flush [OF pl m] by blast
  have "k \<le> max_messages c" using k(2) by (simp add: cand_def)
  then have take: "take k cand = take k (pq s)" by (simp add: cand_def min.absorb1)
  have len: "length (map fst (pk_batches packed)) \<le> max_messages c"
    using length_batches_le [OF k(5)] k(2,4,6) decode_candidate_length [of cd "take k cand"]
    by (simp add: cand_def)
  have rm': "room (length (map fst (pk_batches packed))) s"
    using room_mono [OF rm] len by (meson order_trans le_add1)
  from commit_ok [OF i rm' cm]
  have c: "inv s'" "pq s' = filter (\<lambda>m. sm_sequence m \<notin> set consumed) (pq s)"
    "length ids = length (map fst (pk_batches packed))"
    "rq s' = rq s @ map (\<lambda>(j, b). \<lparr>sb_id = j, sb_created_at = tn_time tn,
        sb_message_count = pb_message_count b, sb_payload = pb_payload b\<rparr>) (zip ids (map fst (pk_batches packed)))"
    by blast+
  have "pq s' = drop k (pq s)"
    using c(2) drop_by_filter [of sm_sequence "pq s" k] sequences [OF i] by (simp add: k(3) take)
  moreover have "map sb_payload (rq s') = map sb_payload (rq s) @ map (pb_payload \<circ> fst) (pk_batches packed)"
    "map sb_message_count (rq s') = map sb_message_count (rq s) @ map (pb_message_count \<circ> fst) (pk_batches packed)"
    using c(3) by (auto simp: c(4) intro: nth_equalityI)
  ultimately show ?thesis using k c(1) by (intro exI [of _ k] exI [of _ parts]) (auto simp: take cand_def)
qed

definition fitting :: "codec \<Rightarrow> BatcherConfig \<Rightarrow> 's \<Rightarrow> bool" where
  "fitting cd c s \<longleftrightarrow> (\<forall>m\<in>set (fst (decode_candidate cd (pq s))). \<not> oversize cd c m)"

definition envelopes ::
  "codec \<Rightarrow> (bytes \<Rightarrow> string + bytes) \<Rightarrow> (bytes \<Rightarrow> string + SignedEnvelope list) \<Rightarrow> BatcherConfig \<Rightarrow> 's
    \<Rightarrow> SignedEnvelope list" where
  "envelopes cd unzstd dec_batch c s =
     batched_envelopes unzstd dec_batch c (rq s) @ pending_envelopes cd (pq s)"

lemma step_conserves:
  assumes api: "implements api" and i: "inv s" and rm: "room (max_messages c + n) s"
    and m: "0 < max_messages c" and reads: "codec_reads cd unzstd dec_batch" and fit: "fitting cd c s"
    and run: "step api cd c tn now force s = (Ok Flushed, s', ms)"
  shows "fitting cd c s' \<and> envelopes cd unzstd dec_batch c s' = envelopes cd unzstd dec_batch c s"
proof -
  obtain k parts where k: "pq s' = drop k (pq s)"
    "concat (map part_messages parts) = fst (decode_candidate cd (take k (pq s)))"
    "\<forall>p\<in>set parts. part_ok cd c p"
    "map sb_payload (rq s') = map sb_payload (rq s) @ map (pb_payload \<circ> fst) (concat (map part_batches parts))"
    using step_flushed [OF api i rm m run] by blast
  have split: "fst (decode_candidate cd (pq s)) =
      fst (decode_candidate cd (take k (pq s))) @ fst (decode_candidate cd (drop k (pq s)))"
    by (simp flip: decode_candidate_append)
  have "concat (map part_kept parts) = fst (decode_candidate cd (take k (pq s)))"
    using parts_all_kept [OF k(3)] fit unfolding k(2) fitting_def split by auto
  with parts_read [OF reads k(3)]
  have "concat (map (payload_envelopes unzstd dec_batch c) (map (pb_payload \<circ> fst) (concat (map part_batches parts)))) =
      pending_envelopes cd (take k (pq s))" by (simp add: pending_envelopes_def comp_assoc)
  then have "concat (map (payload_envelopes unzstd dec_batch c) (map sb_payload (rq s'))) =
      batched_envelopes unzstd dec_batch c (rq s) @ pending_envelopes cd (take k (pq s))"
    unfolding k(4) by (simp add: batched_envelopes_def comp_def)
  then have "envelopes cd unzstd dec_batch c s' =
      batched_envelopes unzstd dec_batch c (rq s) @ pending_envelopes cd (take k (pq s) @ drop k (pq s))"
    unfolding envelopes_def k(1) pending_envelopes_append by (simp add: batched_envelopes_def comp_def)
  moreover have "fitting cd c s'" using fit unfolding fitting_def split k(1) by auto
  ultimately show ?thesis by (simp add: envelopes_def)
qed

lemma step_io:
  assumes api: "implements api" and i: "inv s" and rm: "room (max_messages c) s"
    and m: "0 < max_messages c" and enc: "\<forall>ms. \<exists>r. encode cd c ms = Ok r"
    and io: "tn_read tn = IoOk" "tn_commit tn = IoOk"
    and run: "step api cd c tn now force s = (r, s', ms)"
  shows "\<not> isl r"
proof -
  obtain p s1 where p: "pending IoOk (max_messages c) s = (p, s1)" by (metis surj_pair)
  have s1: "s1 = s" and pok: "p = Ok (take (max_messages c) (pq s))"
    using pending_ok [OF i p] by blast+
  define cand where "cand = take (max_messages c) (pq s)"
  have "\<exists>pl. plan cd c now force cand = Ok pl"
  proof (cases cand)
    case (Cons o1 os)
    obtain p where "pack cd c (fst (decode_candidate cd (take (se_len (select cd c cand now)) cand))) = Ok p"
      using pack_into_total [OF enc, of _ empty_packed]
      by (cases "fst (decode_candidate cd (take (se_len (select cd c cand now)) cand)) = []")
        (force simp: pack_def)+
    then show ?thesis unfolding plan_def Cons
      by (auto simp: Let_def Cons split: option.splits prod.splits)
  qed (simp add: plan_def)
  then obtain pl where pl: "plan cd c now force cand = Ok pl" by blast
  show ?thesis
  proof (cases pl)
    case (PlanFlush reason consumed packed)
    obtain k parts where k: "1 \<le> k" "k \<le> length cand" "consumed = map sm_sequence (take k cand)"
      "concat (map part_messages parts) = fst (decode_candidate cd (take k cand))"
      "\<forall>p\<in>set parts. part_ok cd c p" "pk_batches packed = concat (map part_batches parts)"
      using plan_flush [OF pl [unfolded PlanFlush] m] by blast
    have len: "length (map fst (pk_batches packed)) \<le> max_messages c"
      using length_batches_le [OF k(5)] k(2,4,6) decode_candidate_length [of cd "take k cand"]
      by (simp add: cand_def)
    have sub: "set consumed \<subseteq> sm_sequence ` set (pq s)"
      using k(3) unfolding cand_def by (auto dest: in_set_takeD)
    have dist: "distinct consumed" using sequences [OF i] unfolding k(3) cand_def
      by (metis distinct_take take_map)
    obtain ids s2 where "commit IoOk (tn_time tn) consumed (map fst (pk_batches packed)) s = (Ok ids, s2)"
      using commit_io [OF i room_mono [OF rm len] dist sub] by blast
    then show ?thesis using run api p pok s1 pl PlanFlush io
      by (auto simp: step_def implements_def cand_def)
  qed (use run api p pok s1 pl io in \<open>auto simp: step_def implements_def cand_def\<close>)
qed

lemma step_room:
  assumes api: "implements api" and i: "inv s" and rm: "room (max_messages c + n) s"
    and m: "0 < max_messages c" and run: "step api cd c tn now force s = (Ok Flushed, s', ms)"
  shows "room n s'"
proof -
  obtain p s1 where p: "pending (tn_read tn) (max_messages c) s = (p, s1)" by (metis surj_pair)
  have s1: "s1 = s" and p': "isl p \<or> p = Ok (take (max_messages c) (pq s))"
    using pending_ok [OF i p] by blast+
  obtain cand reason consumed packed ids where cand: "cand = take (max_messages c) (pq s)"
    and pl: "plan cd c now force cand = Ok (PlanFlush reason consumed packed)"
    and cm: "commit (tn_commit tn) (tn_time tn) consumed (map fst (pk_batches packed)) s = (Ok ids, s')"
    using run p p' s1 api
    by (auto simp: step_def implements_def isl_def split: sum.splits Plan.splits prod.splits)
  obtain k parts where k: "k \<le> length cand" "concat (map part_messages parts) = fst (decode_candidate cd (take k cand))"
    "\<forall>p\<in>set parts. part_ok cd c p" "pk_batches packed = concat (map part_batches parts)"
    using plan_flush [OF pl m] by blast
  have "length (map fst (pk_batches packed)) \<le> max_messages c"
    using length_batches_le [OF k(3)] k(1,2,4) decode_candidate_length [of cd "take k cand"]
    by (simp add: cand)
  then have "room (length (map fst (pk_batches packed)) + n) s" using room_mono [OF rm] by simp
  from commit_room [OF i this cm] show ?thesis .
qed

lemma flush_due_total:
  assumes api: "implements api" and m: "0 < max_messages c" and enc: "\<forall>ms. \<exists>r. encode cd c ms = Ok r"
    and io: "\<forall>n. tn_read (turns n) = IoOk \<and> tn_commit (turns n) = IoOk"
  shows "inv s \<Longrightarrow> room (max_messages c * Suc (length (pq s))) s \<Longrightarrow>
    \<exists>d s' ms k. flush_due api cd c turns n now s = Some (Ok d, s', ms) \<and> inv s' \<and> pq s' = drop k (pq s) \<and>
      (codec_reads cd unzstd dec_batch \<and> fitting cd c s \<longrightarrow>
         envelopes cd unzstd dec_batch c s' = envelopes cd unzstd dec_batch c s) \<and>
      (case d of None \<Rightarrow> pq s' = []
       | Some w \<Rightarrow> (\<exists>o1 os. pq s' = o1 # os \<and> w = max_batch_age c - elapsed_until (sm_received_at o1) now \<and>
           se_reason (select cd c (take (max_messages c) (pq s')) now) = None))"
proof (induction "length (pq s)" arbitrary: s n rule: less_induct)
  case less
  obtain r s1 ms where st: "step api cd c (turns n) now False s = (r, s1, ms)" by (metis surj_pair)
  have rm: "room (max_messages c) s" using room_mono [OF less.prems(2)] by simp
  have "\<not> isl r" using step_io [OF api less.prems(1) rm m enc _ _ st] io by blast
  then obtain x where r: "r = Ok x" by (cases r) auto
  show ?case
  proof (cases x)
    case Idle
    have "s1 = s" "pq s = []"
      using step_unchanged [OF api less.prems(1) st] step_idle_wait(1) [OF api less.prems(1) st [unfolded r] m] r Idle by auto
    then show ?thesis using st r Idle less.prems(1)
      by (subst flush_due.simps) (auto intro!: exI [of _ 0])
  next
    case (Wait d)
    have s1: "s1 = s" using step_unchanged [OF api less.prems(1) st] r Wait by auto
    from step_idle_wait(2) [OF api less.prems(1) st [unfolded r] m Wait]
    obtain o1 os where "pq s = o1 # os" "d = max_batch_age c - elapsed_until (sm_received_at o1) now"
      "se_reason (select cd c (take (max_messages c) (pq s)) now) = None" by blast
    then show ?thesis using st r Wait less.prems(1) s1
      by (subst flush_due.simps) (auto intro!: exI [of _ 0])
  next
    case Flushed
    have rm': "room (max_messages c + max_messages c * length (pq s)) s"
      using less.prems(2) by simp
    obtain k where k: "1 \<le> k" "k \<le> length (pq s)" "inv s1" "pq s1 = drop k (pq s)"
      using step_flushed [OF api less.prems(1) rm' m st [unfolded r Flushed]] by blast
    have "room (max_messages c * length (pq s)) s1"
      using step_room [OF api less.prems(1) rm' m st [unfolded r Flushed]] .
    moreover have "max_messages c * Suc (length (pq s1)) \<le> max_messages c * length (pq s)"
      using k by (intro mult_le_mono2) simp
    ultimately have rm1: "room (max_messages c * Suc (length (pq s1))) s1" using room_mono by blast
    have "length (pq s1) < length (pq s)" using k by simp
    from less.hyps [OF this k(3) rm1, of "Suc n"] obtain d s' ms' k' where
      rec: "flush_due api cd c turns (Suc n) now s1 = Some (Ok d, s', ms')" "inv s'" "pq s' = drop k' (pq s1)"
      "codec_reads cd unzstd dec_batch \<and> fitting cd c s1 \<longrightarrow>
         envelopes cd unzstd dec_batch c s' = envelopes cd unzstd dec_batch c s1"
      "case d of None \<Rightarrow> pq s' = []
       | Some w \<Rightarrow> (\<exists>o1 os. pq s' = o1 # os \<and> w = max_batch_age c - elapsed_until (sm_received_at o1) now \<and>
           se_reason (select cd c (take (max_messages c) (pq s')) now) = None)" by blast
    have "flush_due api cd c turns n now s = Some (Ok d, s', ms @ ms')"
      using st r Flushed rec(1) by (subst flush_due.simps) simp
    moreover have "envelopes cd unzstd dec_batch c s' = envelopes cd unzstd dec_batch c s"
      if "codec_reads cd unzstd dec_batch \<and> fitting cd c s"
      using step_conserves [OF api less.prems(1) rm' m _ _ st [unfolded r Flushed]] rec(4) that by auto
    ultimately show ?thesis using rec(2,3,5) k(4)
      by (intro exI [of _ d] exI [of _ s'] exI [of _ "ms @ ms'"] exI [of _ "k' + k"]) simp
  qed
qed

text \<open>What a step has moved, and what a whole flush has.\<close>

lemma step_moves:
  assumes api: "implements api" and i: "inv s" and rm: "room (max_messages c + n) s"
    and m: "0 < max_messages c" and reads: "codec_reads cd unzstd dec_batch"
    and run: "step api cd c tn now force s = (Ok Flushed, s', ms)"
  shows "\<exists>k es. 1 \<le> k \<and> k \<le> length (pq s) \<and> inv s' \<and> pq s' = drop k (pq s) \<and>
    kept_except (oversize cd c) (fst (decode_candidate cd (take k (pq s)))) es \<and>
    batched_envelopes unzstd dec_batch c (rq s') = batched_envelopes unzstd dec_batch c (rq s) @ map de_envelope es"
proof -
  obtain k parts where k: "1 \<le> k" "k \<le> length (pq s)" "inv s'" "pq s' = drop k (pq s)"
    "concat (map part_messages parts) = fst (decode_candidate cd (take k (pq s)))"
    "\<forall>p\<in>set parts. part_ok cd c p"
    "map sb_payload (rq s') = map sb_payload (rq s) @ map (pb_payload \<circ> fst) (concat (map part_batches parts))"
    using step_flushed [OF api i rm m run] by blast
  have "concat (map (payload_envelopes unzstd dec_batch c) (map sb_payload (rq s'))) =
      concat (map (payload_envelopes unzstd dec_batch c) (map sb_payload (rq s))) @
      map de_envelope (concat (map part_kept parts))"
    unfolding k(7) using parts_read [OF reads k(6)] by (simp add: comp_assoc)
  then show ?thesis using k(1-4) parts_except [OF k(6)] unfolding k(5)
    by (intro exI [of _ k] exI [of _ "concat (map part_kept parts)"]) (simp add: batched_envelopes_def comp_def)
qed

lemma flush_all_moves:
  assumes api: "implements api" and m: "0 < max_messages c" and reads: "codec_reads cd unzstd dec_batch"
  shows "inv s \<Longrightarrow> room (max_messages c * Suc (length (pq s))) s \<Longrightarrow>
    \<exists>r s' ms k es. flush_all api cd c turns clock n s = Some (r, s', ms) \<and> inv s' \<and> k \<le> length (pq s) \<and>
      pq s' = drop k (pq s) \<and> kept_except (oversize cd c) (fst (decode_candidate cd (take k (pq s)))) es \<and>
      batched_envelopes unzstd dec_batch c (rq s') = batched_envelopes unzstd dec_batch c (rq s) @ map de_envelope es \<and>
      (r = Ok () \<longrightarrow> pq s' = []) \<and>
      ((\<forall>ms. \<exists>x. encode cd c ms = Ok x) \<and> (\<forall>n. tn_read (turns n) = IoOk \<and> tn_commit (turns n) = IoOk) \<longrightarrow> r = Ok ())"
proof (induction "length (pq s)" arbitrary: s n rule: less_induct)
  case less
  obtain r s1 ms where st: "step api cd c (turns n) (clock n) True s = (r, s1, ms)" by (metis surj_pair)
  show ?case
  proof (cases r)
    case (Inl e)
    have "s1 = s" using step_unchanged [OF api less.prems(1) st] Inl by simp
    moreover have "\<not> ((\<forall>ms. \<exists>x. encode cd c ms = Ok x) \<and> (\<forall>n. tn_read (turns n) = IoOk \<and> tn_commit (turns n) = IoOk))"
    proof
      assume fine: "(\<forall>ms. \<exists>x. encode cd c ms = Ok x) \<and> (\<forall>n. tn_read (turns n) = IoOk \<and> tn_commit (turns n) = IoOk)"
      have "room (max_messages c) s" using room_mono [OF less.prems(2)] by simp
      from step_io [OF api less.prems(1) this m conjunct1 [OF fine] _ _ st] fine Inl show False by simp
    qed
    ultimately show ?thesis using st Inl less.prems(1)
      by (subst flush_all.simps) (auto intro!: exI [of _ 0] kept_Nil)
  next
    case r: (Inr x)
    show ?thesis
    proof (cases x)
      case Idle
      have "s1 = s" "pq s = []"
        using step_unchanged [OF api less.prems(1) st] step_idle_wait(1) [OF api less.prems(1) st [unfolded r] m] r Idle by auto
      then show ?thesis using st r Idle less.prems(1)
        by (subst flush_all.simps) (auto intro!: exI [of _ 0] kept_Nil)
    next
      case (Wait d)
      then show ?thesis using step_idle_wait(2) [OF api less.prems(1) st [unfolded r] m Wait] by simp
    next
      case Flushed
      have rm': "room (max_messages c + max_messages c * length (pq s)) s" using less.prems(2) by simp
      obtain k es where k: "1 \<le> k" "k \<le> length (pq s)" "inv s1" "pq s1 = drop k (pq s)"
        "kept_except (oversize cd c) (fst (decode_candidate cd (take k (pq s)))) es"
        "batched_envelopes unzstd dec_batch c (rq s1) = batched_envelopes unzstd dec_batch c (rq s) @ map de_envelope es"
        using step_moves [OF api less.prems(1) rm' m reads st [unfolded r Flushed]] by blast
      have "max_messages c * Suc (length (pq s1)) \<le> max_messages c * length (pq s)"
        using k by (intro mult_le_mono2) simp
      then have rm1: "room (max_messages c * Suc (length (pq s1))) s1"
        using room_mono step_room [OF api less.prems(1) rm' m st [unfolded r Flushed]] by blast
      have "length (pq s1) < length (pq s)" using k by simp
      from less.hyps [OF this k(3) rm1, of "Suc n"] obtain r' s' ms' k' es' where
        rec: "flush_all api cd c turns clock (Suc n) s1 = Some (r', s', ms')" "inv s'" "k' \<le> length (pq s1)"
        "pq s' = drop k' (pq s1)" "kept_except (oversize cd c) (fst (decode_candidate cd (take k' (pq s1)))) es'"
        "batched_envelopes unzstd dec_batch c (rq s') = batched_envelopes unzstd dec_batch c (rq s1) @ map de_envelope es'"
        "r' = Ok () \<longrightarrow> pq s' = []"
        "(\<forall>ms. \<exists>x. encode cd c ms = Ok x) \<and> (\<forall>n. tn_read (turns n) = IoOk \<and> tn_commit (turns n) = IoOk) \<longrightarrow> r' = Ok ()"
        by blast
      have "flush_all api cd c turns clock n s = Some (r', s', ms @ ms')"
        using st r Flushed rec(1) by (subst flush_all.simps) simp
      moreover have "take (k + k') (pq s) = take k (pq s) @ take k' (pq s1)" using k(4) by (simp add: take_add)
      then have "kept_except (oversize cd c) (fst (decode_candidate cd (take (k + k') (pq s)))) (es @ es')"
        using kept_except_append [OF k(5) rec(5)] by (simp add: decode_candidate_append)
      moreover have "k + k' \<le> length (pq s)" "pq s' = drop (k + k') (pq s)"
        using k(2,4) rec(3,4) by (auto simp: add.commute)
      moreover have "batched_envelopes unzstd dec_batch c (rq s') =
          batched_envelopes unzstd dec_batch c (rq s) @ map de_envelope (es @ es')"
        using k(6) rec(6) by simp
      ultimately show ?thesis using rec(2,7,8) by blast
    qed
  qed
qed

end

section \<open>The batcher on the redb store\<close>

lemma redb_implements:
  "redb_laws ops \<Longrightarrow> batch_store.implements (push_message ops) (pending_messages ops) (commit_batches ops)
     (ready_batches ops) (confirm_batch ops) (redb_api ops)"
  by (simp add: batch_store.implements_def [OF redb_batch_store] redb_api_def)

text \<open>
  C6. A step is lossless and all-or-nothing. Unless it returns \<open>Flushed\<close> it leaves the store as it was,
  errors included. If it returns \<open>Flushed\<close> it has removed a non-empty prefix of the pending messages and
  appended payloads, none above \<open>max_batch_size\<close>, that decode to exactly the removed envelopes in
  their order, less those that do not decode and those that alone exceed the limit; each batch states
  how many envelopes it holds.
\<close>

theorem batch_step_lossless:
  assumes "redb_laws ops" and "store_ok ops db" and "spare ops (max_messages c) db" and "0 < max_messages c"
    and "codec_reads cd unzstd dec_batch" and "step (redb_api ops) cd c tn now force db = (r, db', ms)"
  shows "if r = Ok Flushed
    then store_ok ops db' \<and> (\<exists>k I (new :: PreparedBatch list) ds. 1 \<le> k \<and> k \<le> length (pending_queue ops db) \<and>
      pending_queue ops db' = drop k (pending_queue ops db) \<and>
      ds = fst (decode_candidate cd (take k (pending_queue ops db))) \<and>
      map sb_payload (ready_queue ops db') = map sb_payload (ready_queue ops db) @ map pb_payload new \<and>
      map sb_message_count (ready_queue ops db') =
        map sb_message_count (ready_queue ops db) @ map pb_message_count new \<and>
      concat (map (payload_envelopes unzstd dec_batch c \<circ> pb_payload) new) = map de_envelope (nths ds I) \<and>
      (\<forall>i < length ds. i \<notin> I \<longrightarrow> oversize cd c (ds ! i)) \<and>
      (\<forall>b\<in>set new. length (pb_payload b) \<le> max_batch_size c \<and>
         pb_message_count b = word_of_nat (length (payload_envelopes unzstd dec_batch c (pb_payload b)))))
    else db' = db"
proof (cases "r = Ok Flushed")
  case True
  note st = redb_batch_store [OF assms(1)] and api = redb_implements [OF assms(1)]
  from batch_store.step_flushed [OF st api assms(2) _ assms(4) assms(6) [unfolded True], of 0] assms(3)
  obtain k parts where k: "1 \<le> k" "k \<le> length (pending_queue ops db)" "store_ok ops db'"
    "pending_queue ops db' = drop k (pending_queue ops db)"
    "concat (map part_messages parts) = fst (decode_candidate cd (take k (pending_queue ops db)))"
    "\<forall>p\<in>set parts. part_ok cd c p"
    "map sb_payload (ready_queue ops db') =
       map sb_payload (ready_queue ops db) @ map (pb_payload \<circ> fst) (concat (map part_batches parts))"
    "map sb_message_count (ready_queue ops db') =
       map sb_message_count (ready_queue ops db) @ map (pb_message_count \<circ> fst) (concat (map part_batches parts))"
    by auto
  obtain I where I: "concat (map part_kept parts) = nths (concat (map part_messages parts)) I"
    "\<forall>i < length (concat (map part_messages parts)).
      i \<notin> I \<longrightarrow> oversize cd c (concat (map part_messages parts) ! i)" using parts_kept [OF k(6)] by blast
  define new where "new = map fst (concat (map part_batches parts))"
  have "concat (map (payload_envelopes unzstd dec_batch c \<circ> pb_payload) new) =
      map de_envelope (nths (fst (decode_candidate cd (take k (pending_queue ops db)))) I)"
    using parts_read [OF assms(5) k(6)] I(1) k(5) by (simp add: new_def comp_assoc)
  moreover have "\<forall>b\<in>set new. length (pb_payload b) \<le> max_batch_size c \<and>
      pb_message_count b = word_of_nat (length (payload_envelopes unzstd dec_batch c (pb_payload b)))"
    using part_counts [OF assms(5) k(6)] unfolding new_def by auto
  moreover have "map sb_payload (ready_queue ops db') = map sb_payload (ready_queue ops db) @ map pb_payload new"
    "map sb_message_count (ready_queue ops db') =
       map sb_message_count (ready_queue ops db) @ map pb_message_count new"
    using k(7,8) by (simp_all add: new_def)
  ultimately show ?thesis unfolding if_P [OF True] using k(1-4) I(2) [unfolded k(5)]
    by (intro conjI [OF k(3)] exI [of _ k] exI [of _ I] exI [of _ new]
        exI [of _ "fst (decode_candidate cd (take k (pending_queue ops db)))"]) (intro conjI refl; assumption)
next
  case False
  then show ?thesis
    using batch_store.step_unchanged [OF redb_batch_store [OF assms(1)] redb_implements [OF assms(1)] assms(2,6)]
    by simp
qed

text \<open>
  Draining terminates: with a store that answers and room for the batch ids, \<open>flush_due\<close> returns,
  the messages still pending are a suffix of what was pending and are not due (the delay it returns is
  what is left of the oldest one's age limit), and when no pending message alone exceeds the limit the
  envelopes readable from the ready batches followed by the pending ones are the same as before.
\<close>

lemma flush_due_returns:
  assumes "redb_laws ops" and "store_ok ops db" and "0 < max_messages c"
    and "spare ops (max_messages c * Suc (length (pending_queue ops db))) db"
    and "\<forall>ms. \<exists>r. encode cd c ms = Ok r" and "\<forall>n. tn_read (turns n) = IoOk \<and> tn_commit (turns n) = IoOk"
    and "codec_reads cd unzstd dec_batch"
    and "\<forall>m\<in>set (fst (decode_candidate cd (pending_queue ops db))). \<not> oversize cd c m"
  shows "\<exists>d db' ms k. flush_due (redb_api ops) cd c turns 0 now db = Some (Ok d, db', ms) \<and>
    store_ok ops db' \<and> pending_queue ops db' = drop k (pending_queue ops db) \<and>
    batched_envelopes unzstd dec_batch c (ready_queue ops db') @ pending_envelopes cd (pending_queue ops db') =
      batched_envelopes unzstd dec_batch c (ready_queue ops db) @ pending_envelopes cd (pending_queue ops db) \<and>
    (case d of
       None \<Rightarrow> pending_queue ops db' = []
     | Some w \<Rightarrow> \<exists>o1 os. pending_queue ops db' = o1 # os \<and> elapsed_until (sm_received_at o1) now < max_batch_age c \<and>
         w = max_batch_age c - elapsed_until (sm_received_at o1) now)"
proof -
  note st = redb_batch_store [OF assms(1)] and api = redb_implements [OF assms(1)]
  have "batch_store.fitting (pending_queue ops) cd c db"
    using assms(8) by (simp add: batch_store.fitting_def [OF st])
  with batch_store.flush_due_total [OF st api assms(3,5,6,2,4), where n = 0 and now = now] assms(7)
  obtain d db' ms k where r: "flush_due (redb_api ops) cd c turns 0 now db = Some (Ok d, db', ms)"
    "store_ok ops db'" "pending_queue ops db' = drop k (pending_queue ops db)"
    "batch_store.envelopes (pending_queue ops) (ready_queue ops) cd unzstd dec_batch c db' =
     batch_store.envelopes (pending_queue ops) (ready_queue ops) cd unzstd dec_batch c db"
    "case d of None \<Rightarrow> pending_queue ops db' = []
       | Some w \<Rightarrow> (\<exists>o1 os. pending_queue ops db' = o1 # os \<and>
           w = max_batch_age c - elapsed_until (sm_received_at o1) now \<and>
           se_reason (select cd c (take (max_messages c) (pending_queue ops db')) now) = None)" by blast
  have "case d of None \<Rightarrow> pending_queue ops db' = []
       | Some w \<Rightarrow> \<exists>o1 os. pending_queue ops db' = o1 # os \<and> elapsed_until (sm_received_at o1) now < max_batch_age c \<and>
         w = max_batch_age c - elapsed_until (sm_received_at o1) now"
  proof (cases d)
    case (Some w)
    with r(5) obtain o1 os where o: "pending_queue ops db' = o1 # os"
      "w = max_batch_age c - elapsed_until (sm_received_at o1) now"
      "se_reason (select cd c (take (max_messages c) (o1 # os)) now) = None" by auto
    moreover have "take (max_messages c) (o1 # os) = o1 # take (max_messages c - 1) os"
      using assms(3) by (cases "max_messages c") auto
    ultimately show ?thesis using Some select_reason_None [of cd c o1 "take (max_messages c - 1) os" now] by auto
  qed (use r(5) in simp)
  then show ?thesis using r(1-4) unfolding batch_store.envelopes_def [OF st] by blast
qed

text \<open>
  C5. The final flush always returns and loses nothing. Whatever the outcomes of I/O and compression, \<open>flush_all\<close>
  returns; it has taken some of the oldest pending messages, and the ready batches decode to what they held
  before followed by the decodable ones of these, in order and once, but for envelopes that alone exceed the
  limit, which are left out. It reports success only when nothing is pending any more, and it does report it when
  neither I/O nor compression fails; then, if no envelope alone exceeds the limit, every decodable one is in.
\<close>

theorem flush_all_empties:
  assumes "redb_laws ops" and "store_ok ops db" and "0 < max_messages c"
    and "spare ops (max_messages c * Suc (length (pending_queue ops db))) db" and "codec_reads cd unzstd dec_batch"
  shows "\<exists>r db' ms k es. flush_all (redb_api ops) cd c turns clock 0 db = Some (r, db', ms) \<and> store_ok ops db' \<and>
    k \<le> length (pending_queue ops db) \<and> pending_queue ops db' = drop k (pending_queue ops db) \<and>
    kept_except (oversize cd c) (fst (decode_candidate cd (take k (pending_queue ops db)))) es \<and>
    batched_envelopes unzstd dec_batch c (ready_queue ops db') =
      batched_envelopes unzstd dec_batch c (ready_queue ops db) @ map de_envelope es \<and>
    (r = Ok () \<longrightarrow> pending_queue ops db' = []) \<and>
    ((\<forall>ms. \<exists>x. encode cd c ms = Ok x) \<and> (\<forall>n. tn_read (turns n) = IoOk \<and> tn_commit (turns n) = IoOk) \<longrightarrow>
      r = Ok () \<and>
      ((\<forall>m\<in>set (fst (decode_candidate cd (pending_queue ops db))). \<not> oversize cd c m) \<longrightarrow>
        map de_envelope es = pending_envelopes cd (pending_queue ops db)))"
proof -
  note st = redb_batch_store [OF assms(1)] and api = redb_implements [OF assms(1)]
  from batch_store.flush_all_moves [OF st api assms(3,5,2,4), of turns clock 0]
  obtain r db' ms k es where r: "flush_all (redb_api ops) cd c turns clock 0 db = Some (r, db', ms)" "store_ok ops db'"
    "k \<le> length (pending_queue ops db)" "pending_queue ops db' = drop k (pending_queue ops db)"
    "kept_except (oversize cd c) (fst (decode_candidate cd (take k (pending_queue ops db)))) es"
    "batched_envelopes unzstd dec_batch c (ready_queue ops db') =
      batched_envelopes unzstd dec_batch c (ready_queue ops db) @ map de_envelope es"
    "r = Ok () \<longrightarrow> pending_queue ops db' = []"
    "(\<forall>ms. \<exists>x. encode cd c ms = Ok x) \<and> (\<forall>n. tn_read (turns n) = IoOk \<and> tn_commit (turns n) = IoOk) \<longrightarrow> r = Ok ()"
    by blast
  have "map de_envelope es = pending_envelopes cd (pending_queue ops db)"
    if "r = Ok ()" and fit: "\<forall>m\<in>set (fst (decode_candidate cd (pending_queue ops db))). \<not> oversize cd c m"
  proof -
    have "take k (pending_queue ops db) = pending_queue ops db" using r(4,7) that(1) by simp
    then show ?thesis using kept_except_none [OF r(5)] fit by (simp add: pending_envelopes_def)
  qed
  with r show ?thesis by blast
qed

end
