(* ===== verification/LibcpsError.thy ===== *)
theory LibcpsError
  imports Prelude
begin

text \<open>
  The error types of \<open>libcps\<close>: \<open>crates/libcps/src/error.rs\<close> and \<open>light/error.rs\<close>, with their
  messages and the classification of failed transactions.

  A boxed source error is its message. The subxt errors a classification receives are their
  message and, for \<open>outcome\<close>, whether they are a dispatch failure.
\<close>

section \<open>Identifiers and helpers\<close>

type_synonym NodeId = u64

definition show_node :: "NodeId \<Rightarrow> string" where
  "show_node n = show_nat (unat n)"

definition map_err :: "('e \<Rightarrow> 'f) \<Rightarrow> 'e + 'a \<Rightarrow> 'f + 'a" where
  "map_err f r = (case r of Err e \<Rightarrow> Err (f e) | Ok a \<Rightarrow> Ok a)"

definition map_ok :: "('a \<Rightarrow> 'b) \<Rightarrow> 'e + 'a \<Rightarrow> 'e + 'b" where
  "map_ok f r = (case r of Err e \<Rightarrow> Err e | Ok x \<Rightarrow> Ok (f x))"

text \<open>\<open>str::contains\<close>.\<close>

fun contains_str :: "string \<Rightarrow> string \<Rightarrow> bool" where
  "contains_str needle [] = (needle = [])"
| "contains_str needle (c # s) = (take (length needle) (c # s) = needle \<or> contains_str needle s)"

section \<open>Errors\<close>

datatype IdentityError =
    AlreadyInUse
  | NotSet
  | PermitRequired
  | PermitExpired
  | PermitTooLong
  | InvalidPermit
  | RootIdentityMustBeCaller

fun show_identity_error :: "IdentityError \<Rightarrow> string" where
  "show_identity_error AlreadyInUse = ''identity is already in use''"
| "show_identity_error NotSet = ''node has no identity''"
| "show_identity_error PermitRequired = ''permit required''"
| "show_identity_error PermitExpired = ''permit expired''"
| "show_identity_error PermitTooLong = ''permit valid for too long''"
| "show_identity_error InvalidPermit = ''invalid permit''"
| "show_identity_error RootIdentityMustBeCaller = ''root identity must be the signer''"

datatype CpsError =
    CpsConnection string
  | CpsRpc string
  | CpsRuntime string
  | CpsTransaction string
  | CpsDispatch string
  | CpsNodeNotFound NodeId
  | CpsMetaTooLarge nat nat
  | CpsPayloadTooLarge nat nat
  | CpsAccessDenied
  | CpsScopeAlreadyExists NodeId
  | CpsIdentityNotFound string
  | CpsMissingProjectedIdentity
  | CpsIdentity IdentityError
  | CpsCrypto string

fun show_cps_error :: "CpsError \<Rightarrow> string" where
  "show_cps_error (CpsConnection e) = ''connection failed: '' @ e"
| "show_cps_error (CpsRpc e) = ''RPC request failed: '' @ e"
| "show_cps_error (CpsRuntime e) = ''runtime query failed: '' @ e"
| "show_cps_error (CpsTransaction e) = ''transaction failed: '' @ e"
| "show_cps_error (CpsDispatch e) = ''transaction dispatch failed: '' @ e"
| "show_cps_error (CpsNodeNotFound n) = ''node '' @ show_node n @ '' not found''"
| "show_cps_error (CpsMetaTooLarge actual limit) =
     ''metadata is '' @ show_nat actual @ '' bytes, the maximum is '' @ show_nat limit"
| "show_cps_error (CpsPayloadTooLarge actual limit) =
     ''payload is '' @ show_nat actual @ '' bytes, the maximum is '' @ show_nat limit"
| "show_cps_error CpsAccessDenied = ''access denied''"
| "show_cps_error (CpsScopeAlreadyExists n) = ''node '' @ show_node n @ '' is already a scope root''"
| "show_cps_error (CpsIdentityNotFound account) = ''account '' @ account @ '' is not the identity of any node''"
| "show_cps_error CpsMissingProjectedIdentity = ''a node in the result has no identity''"
| "show_cps_error (CpsIdentity e) = ''identity operation rejected: '' @ show_identity_error e"
| "show_cps_error (CpsCrypto e) = ''crypto error: '' @ e"

section \<open>Classification\<close>

definition IDENTITY_NAMES :: "(string \<times> IdentityError) list" where
  "IDENTITY_NAMES =
     [(''IdentityAlreadyInUse'', AlreadyInUse), (''IdentityNotSet'', NotSet),
      (''IdentityPermitRequired'', PermitRequired), (''IdentityPermitExpired'', PermitExpired),
      (''IdentityPermitTooLong'', PermitTooLong), (''InvalidIdentityPermit'', InvalidPermit),
      (''RootIdentityMustBeCaller'', RootIdentityMustBeCaller)]"

definition identity_classify :: "string \<Rightarrow> IdentityError option" where
  "identity_classify msg = map_option snd (find (\<lambda>(name, _). contains_str name msg) IDENTITY_NAMES)"

definition cps_transaction :: "string \<Rightarrow> CpsError" where
  "cps_transaction msg =
     (if contains_str ''AccessDenied'' msg \<or> contains_str ''NotScopeOwner'' msg then CpsAccessDenied
      else case identity_classify msg of
             Some identity \<Rightarrow> CpsIdentity identity
           | None \<Rightarrow> CpsTransaction msg)"

definition cps_outcome :: "bool \<Rightarrow> string \<Rightarrow> CpsError" where
  "cps_outcome dispatched msg =
     (case cps_transaction msg of
        CpsTransaction source \<Rightarrow> if dispatched then CpsDispatch source else CpsTransaction source
      | e \<Rightarrow> e)"

section \<open>The light node\<close>

datatype LightError =
    LightConfig string
  | LightInvalidChainSpec string
  | LightBootstrap string
  | LightBind string string
  | LightServer string
  | LightShutdown string

fun show_light_error :: "LightError \<Rightarrow> string" where
  "show_light_error (LightConfig e) = ''invalid light node configuration: '' @ e"
| "show_light_error (LightInvalidChainSpec e) = ''invalid chain specification: '' @ e"
| "show_light_error (LightBootstrap e) = ''chain bootstrap failed: '' @ e"
| "show_light_error (LightBind addr e) = ''cannot listen on '' @ addr @ '': '' @ e"
| "show_light_error (LightServer e) = ''RPC server failed: '' @ e"
| "show_light_error (LightShutdown e) = ''light node shutdown failed: '' @ e"

section \<open>Lemmas\<close>

text \<open>A finalized dispatch failure is never reported as a retryable transaction failure.\<close>

lemma outcome_dispatched: "cps_outcome True msg \<noteq> CpsTransaction e"
  by (auto simp: cps_outcome_def cps_transaction_def split: CpsError.splits if_splits option.splits)

lemma outcome_not_dispatched: "cps_outcome False msg = cps_transaction msg"
  by (auto simp: cps_outcome_def split: CpsError.splits)

lemma contains_str_prefix: "take (length needle) s = needle \<Longrightarrow> contains_str needle s"
  by (cases s) auto

lemma contains_str_append: "contains_str needle (pre @ needle @ post)"
  by (induction pre) (auto intro: contains_str_prefix)

end
