(* ===== verification/Chain.thy ===== *)
theory Chain
  imports LibcpsError
begin

text \<open>
  The shared chain connections: \<open>crates/edge/src/chain.rs\<close>.

  The registry keeps one \<open>Slot\<close> per endpoint (\<open>None\<close>: the embedded light client) with the state its
  supervisor publishes. \<open>slot\<close> starts the supervisor on first use; \<open>supervise_step\<close> is one event of
  the supervisor's loop (an attempt that ended, a lost connection, a delay that elapsed), so that
  requests and supervisors of several endpoints interleave freely in \<open>registry_run\<close>. A connection
  is of type \<open>'c\<close>; what libcps and the light node do is a parameter of \<open>chain_connect\<close>.
\<close>

section \<open>Connections\<close>

definition RETRY_MIN :: duration where
  "RETRY_MIN = from_secs 1"

definition RETRY_MAX :: duration where
  "RETRY_MAX = from_secs 30"

datatype ChainError = ChainTransient string | ChainPermanent string

fun show_chain_error :: "ChainError \<Rightarrow> string" where
  "show_chain_error (ChainTransient e) = ''transient chain error: '' @ e"
| "show_chain_error (ChainPermanent e) = ''permanent chain error: '' @ e"

definition classify_light :: "LightError \<Rightarrow> ChainError" where
  "classify_light e =
     (case e of
        LightConfig _ \<Rightarrow> ChainPermanent (show_light_error e)
      | LightInvalidChainSpec _ \<Rightarrow> ChainPermanent (show_light_error e)
      | _ \<Rightarrow> ChainTransient (show_light_error e))"

definition classify :: "CpsError \<Rightarrow> ChainError" where
  "classify e =
     (case e of
        CpsConnection _ \<Rightarrow> ChainTransient (show_cps_error e)
      | CpsRpc _ \<Rightarrow> ChainTransient (show_cps_error e)
      | CpsRuntime _ \<Rightarrow> ChainTransient (show_cps_error e)
      | _ \<Rightarrow> ChainPermanent (show_cps_error e))"

record ('cps, 'l) Chain =
  ch_cps :: 'cps
  ch_light :: "'l option"

text \<open>\<open>start\<close> and \<open>wait_ready\<close> are the light node's, \<open>cps_connect\<close> is \<open>Cps::connect\<close>.\<close>

definition chain_connect ::
  "LightError + 'l \<Rightarrow> ('l \<Rightarrow> LightError + unit) \<Rightarrow> ('l \<Rightarrow> string) \<Rightarrow> (string \<Rightarrow> CpsError + 'cps)
    \<Rightarrow> string option \<Rightarrow> ChainError + ('cps, 'l) Chain" where
  "chain_connect start wait_ready rpc_url cps_connect endpoint =
     (case (case endpoint of
              Some url \<Rightarrow> Ok (None, url)
            | None \<Rightarrow>
                (case map_err classify_light start of
                   Err e \<Rightarrow> Err e
                 | Ok light \<Rightarrow>
                     (case map_err classify_light (wait_ready light) of
                        Err e \<Rightarrow> Err e
                      | Ok _ \<Rightarrow> Ok (Some light, rpc_url light)))) of
        Err e \<Rightarrow> Err e
      | Ok (light, url) \<Rightarrow>
          (case map_err classify (cps_connect url) of
             Err e \<Rightarrow> Err e
           | Ok cps \<Rightarrow> Ok \<lparr>ch_cps = cps, ch_light = light\<rparr>))"

definition chain_in_sync :: "('l \<Rightarrow> bool) \<Rightarrow> ('cps, 'l) Chain \<Rightarrow> bool" where
  "chain_in_sync is_ready c = (case ch_light c of None \<Rightarrow> True | Some light \<Rightarrow> is_ready light)"

section \<open>The registry\<close>

datatype 'c State = Connecting | Retrying string | Ready 'c | StateFailed string

fun state_resolve :: "'c State \<Rightarrow> ChainError + 'c" where
  "state_resolve (Ready chain) = Ok chain"
| "state_resolve Connecting = Err (ChainTransient ''chain is still connecting or synchronizing'')"
| "state_resolve (Retrying msg) = Err (ChainTransient msg)"
| "state_resolve (StateFailed msg) = Err (ChainPermanent msg)"

text \<open>The published state and the supervisor's count of failures.\<close>

record 'c Slot =
  sl_state :: "'c State"
  sl_failures :: nat

record 'c ChainRegistry =
  cr_retry :: "duration \<times> duration"
  cr_slots :: "string option \<Rightarrow> 'c Slot option"

definition new_registry :: "'c ChainRegistry" where
  "new_registry = \<lparr>cr_retry = (RETRY_MIN, RETRY_MAX), cr_slots = (\<lambda>_. None)\<rparr>"

definition slot :: "string option \<Rightarrow> 'c ChainRegistry \<Rightarrow> 'c Slot \<times> 'c ChainRegistry" where
  "slot endpoint r =
     (case cr_slots r endpoint of
        Some s \<Rightarrow> (s, r)
      | None \<Rightarrow>
          let s = \<lparr>sl_state = Connecting, sl_failures = 0\<rparr>
          in (s, r\<lparr>cr_slots := (cr_slots r)(endpoint := Some s)\<rparr>))"

definition prefetch :: "string option \<Rightarrow> 'c ChainRegistry \<Rightarrow> 'c ChainRegistry" where
  "prefetch endpoint r = snd (slot endpoint r)"

text \<open>\<open>get\<close> waits for a settled state; \<open>None\<close> while the state is \<open>Connecting\<close>, when it keeps waiting.\<close>

definition registry_get ::
  "string option \<Rightarrow> 'c ChainRegistry \<Rightarrow> (ChainError + 'c) option \<times> 'c ChainRegistry" where
  "registry_get endpoint r =
     (case slot endpoint r of
        (s, r') \<Rightarrow> (case sl_state s of Connecting \<Rightarrow> (None, r') | st \<Rightarrow> (Some (state_resolve st), r')))"

definition try_get ::
  "('c \<Rightarrow> bool) \<Rightarrow> string option \<Rightarrow> 'c ChainRegistry \<Rightarrow> (ChainError + 'c) \<times> 'c ChainRegistry" where
  "try_get in_sync endpoint r =
     (case slot endpoint r of
        (s, r') \<Rightarrow>
          (case state_resolve (sl_state s) of
             Err e \<Rightarrow> (Err e, r')
           | Ok chain \<Rightarrow>
               if in_sync chain then (Ok chain, r')
               else (Err (ChainTransient ''chain is synchronizing again''), r')))"

section \<open>The supervisor\<close>

text \<open>\<open>saturating_mul\<close> of a duration, whose largest value is \<open>DURATION_MAX\<close>, and \<open>saturating_pow\<close> of a
  \<open>u32\<close>.\<close>

definition DURATION_MAX :: duration where
  "DURATION_MAX = (2 ^ 64 - 1) * 1000000000 + 999999999"

definition saturating_mul :: "duration \<Rightarrow> nat \<Rightarrow> duration" where
  "saturating_mul d n = min (d * n) DURATION_MAX"

definition pow2_u32 :: "nat \<Rightarrow> nat" where
  "pow2_u32 n = min (2 ^ n) (2 ^ 32 - 1)"

definition u32_incr :: "nat \<Rightarrow> nat" where
  "u32_incr n = min (n + 1) (2 ^ 32 - 1)"

definition supervise_delay :: "duration \<times> duration \<Rightarrow> nat \<Rightarrow> duration" where
  "supervise_delay retry failures = min (saturating_mul (fst retry) (pow2_u32 failures)) (snd retry)"

datatype 'c supervise_event = Attempted "ChainError + 'c" | Lost | DelayElapsed

text \<open>One event of the loop; the delay it schedules, if any. \<open>None\<close>: the supervisor does not wait for
  that event in this state.\<close>

definition supervise_step ::
  "duration \<times> duration \<Rightarrow> 'c supervise_event \<Rightarrow> 'c Slot \<Rightarrow> ('c Slot \<times> duration option) option" where
  "supervise_step retry ev s =
     (case (sl_state s, ev) of
        (Connecting, Attempted (Ok chain)) \<Rightarrow> Some (\<lparr>sl_state = Ready chain, sl_failures = 0\<rparr>, None)
      | (Connecting, Attempted (Err (ChainPermanent msg))) \<Rightarrow> Some (s\<lparr>sl_state := StateFailed msg\<rparr>, None)
      | (Connecting, Attempted (Err (ChainTransient msg))) \<Rightarrow>
          Some (\<lparr>sl_state = Retrying msg, sl_failures = u32_incr (sl_failures s)\<rparr>,
                Some (supervise_delay retry (sl_failures s)))
      | (Ready chain, Lost) \<Rightarrow> Some (s\<lparr>sl_state := Connecting\<rparr>, None)
      | (Retrying msg, DelayElapsed) \<Rightarrow> Some (s\<lparr>sl_state := Connecting\<rparr>, None)
      | _ \<Rightarrow> None)"

datatype 'c chain_event = Requested "string option" | Supervised "string option" "'c supervise_event"

definition registry_step :: "'c chain_event \<Rightarrow> 'c ChainRegistry \<Rightarrow> 'c ChainRegistry option" where
  "registry_step ev r =
     (case ev of
        Requested endpoint \<Rightarrow> Some (prefetch endpoint r)
      | Supervised endpoint sev \<Rightarrow>
          (case cr_slots r endpoint of
             None \<Rightarrow> None
           | Some s \<Rightarrow>
               (case supervise_step (cr_retry r) sev s of
                  None \<Rightarrow> None
                | Some (s', _) \<Rightarrow> Some (r\<lparr>cr_slots := (cr_slots r)(endpoint := Some s')\<rparr>))))"

fun registry_run :: "'c chain_event list \<Rightarrow> 'c ChainRegistry \<Rightarrow> 'c ChainRegistry option" where
  "registry_run [] r = Some r"
| "registry_run (ev # evs) r =
     (case registry_step ev r of None \<Rightarrow> None | Some r' \<Rightarrow> registry_run evs r')"

section \<open>Specification\<close>

text \<open>The connection of an endpoint as the history tells it: the last one established, unless it was
  lost since.\<close>

definition link_after :: "string option \<Rightarrow> 'c option \<Rightarrow> 'c chain_event \<Rightarrow> 'c option" where
  "link_after endpoint cur ev =
     (case ev of
        Supervised ep (Attempted (Ok chain)) \<Rightarrow> if ep = endpoint then Some chain else cur
      | Supervised ep Lost \<Rightarrow> if ep = endpoint then None else cur
      | _ \<Rightarrow> cur)"

definition current_link :: "string option \<Rightarrow> 'c chain_event list \<Rightarrow> 'c option" where
  "current_link endpoint evs = foldl (link_after endpoint) None evs"

definition slot_link :: "'c ChainRegistry \<Rightarrow> string option \<Rightarrow> 'c option" where
  "slot_link r endpoint =
     (case cr_slots r endpoint of
        None \<Rightarrow> None
      | Some s \<Rightarrow> (case sl_state s of Ready c \<Rightarrow> Some c | _ \<Rightarrow> None))"

section \<open>Lemmas\<close>

lemma supervise_step_cases:
  assumes "supervise_step retry ev s = Some (s', d)"
  obtains c where "sl_state s = Connecting" "ev = Attempted (Ok c)" "s' = \<lparr>sl_state = Ready c, sl_failures = 0\<rparr>" "d = None"
  | m where "sl_state s = Connecting" "ev = Attempted (Err (ChainPermanent m))" "s' = s\<lparr>sl_state := StateFailed m\<rparr>" "d = None"
  | m where "sl_state s = Connecting" "ev = Attempted (Err (ChainTransient m))"
      "s' = \<lparr>sl_state = Retrying m, sl_failures = u32_incr (sl_failures s)\<rparr>"
      "d = Some (supervise_delay retry (sl_failures s))"
  | c where "sl_state s = Ready c" "ev = Lost" "s' = s\<lparr>sl_state := Connecting\<rparr>" "d = None"
  | m where "sl_state s = Retrying m" "ev = DelayElapsed" "s' = s\<lparr>sl_state := Connecting\<rparr>" "d = None"
  using assms unfolding supervise_step_def
  by (auto split: State.splits supervise_event.splits sum.splits ChainError.splits)

lemma registry_step_link:
  assumes "registry_step ev r = Some r'"
  shows "slot_link r' endpoint = link_after endpoint (slot_link r endpoint) ev"
proof (cases ev)
  case (Requested ep)
  then show ?thesis using assms
    by (auto simp: registry_step_def prefetch_def slot_def slot_link_def link_after_def Let_def split: option.splits if_splits)
next
  case (Supervised ep sev)
  then obtain s s' d where s: "cr_slots r ep = Some s" "supervise_step (cr_retry r) sev s = Some (s', d)"
    "r' = r\<lparr>cr_slots := (cr_slots r)(ep := Some s')\<rparr>"
    using assms by (auto simp: registry_step_def split: option.splits)
  from s(2) show ?thesis
    by (cases rule: supervise_step_cases) (auto simp: Supervised s slot_link_def link_after_def split: option.splits)
qed

lemma registry_run_link:
  "registry_run evs r = Some r' \<Longrightarrow> slot_link r' endpoint = foldl (link_after endpoint) (slot_link r endpoint) evs"
  by (induction evs arbitrary: r) (auto simp: registry_step_link split: option.splits)

lemma registry_step_failed:
  assumes "registry_step ev r = Some r'" and "cr_slots r endpoint = Some s" and "sl_state s = StateFailed m"
  shows "cr_slots r' endpoint = Some s"
proof (cases ev)
  case (Requested ep)
  then show ?thesis using assms
    by (auto simp: registry_step_def prefetch_def slot_def Let_def split: option.splits)
next
  case (Supervised ep sev)
  then show ?thesis using assms
    by (auto simp: registry_step_def supervise_step_def split: option.splits)
qed

lemma registry_run_failed:
  "registry_run evs r = Some r' \<Longrightarrow> cr_slots r endpoint = Some s \<Longrightarrow> sl_state s = StateFailed m \<Longrightarrow>
   cr_slots r' endpoint = Some s"
  by (induction evs arbitrary: r) (auto dest: registry_step_failed split: option.splits)

lemma try_get_iff: "fst (try_get in_sync ep r) = Ok c \<longleftrightarrow> slot_link r ep = Some c \<and> in_sync c"
  by (auto simp: try_get_def slot_def slot_link_def Let_def split: option.splits State.splits)

lemma registry_get_iff: "fst (registry_get ep r) = Some (Ok c) \<longleftrightarrow> slot_link r ep = Some c"
  by (auto simp: registry_get_def slot_def slot_link_def Let_def split: option.splits State.splits)

lemma registry_get_failed:
  "fst (registry_get ep r) = Some (Err (ChainPermanent m)) \<longleftrightarrow>
   (\<exists>s. cr_slots r ep = Some s \<and> sl_state s = StateFailed m)"
  by (auto simp: registry_get_def slot_def Let_def split: option.splits State.splits)

lemma supervise_delay_bounds:
  "supervise_delay retry n \<le> snd retry"
  "fst retry \<le> snd retry \<Longrightarrow> snd retry \<le> DURATION_MAX \<Longrightarrow> n < 32 \<Longrightarrow>
   supervise_delay retry n = min (fst retry * 2 ^ n) (snd retry)"
proof -
  show "supervise_delay retry n \<le> snd retry" by (simp add: supervise_delay_def)
  assume "snd retry \<le> DURATION_MAX" "n < 32"
  then have "(2 :: nat) ^ n \<le> 2 ^ 31" by (intro power_increasing) auto
  then have "pow2_u32 n = 2 ^ n" by (simp add: pow2_u32_def)
  then show "supervise_delay retry n = min (fst retry * 2 ^ n) (snd retry)"
    using \<open>snd retry \<le> DURATION_MAX\<close> by (auto simp: supervise_delay_def saturating_mul_def)
qed

section \<open>The registry hands out live connections\<close>

text \<open>
  C21. Whatever the interleaving of requests and supervisor events over all endpoints, the registry
  hands out, by \<open>get\<close> and (while in sync) by \<open>try_get\<close>, exactly the connection of that endpoint that was
  established last and not lost since; and a permanent failure is final, whatever happens after it.
\<close>

theorem chain_registry_current:
  assumes "registry_run evs new_registry = Some r"
  shows "(fst (try_get in_sync ep r) = Ok c \<longleftrightarrow> current_link ep evs = Some c \<and> in_sync c) \<and>
    (fst (registry_get ep r) = Some (Ok c) \<longleftrightarrow> current_link ep evs = Some c) \<and>
    (\<forall>evs' r' m. fst (registry_get ep r) = Some (Err (ChainPermanent m)) \<and> registry_run evs' r = Some r' \<longrightarrow>
       fst (registry_get ep r') = Some (Err (ChainPermanent m)))"
proof -
  have "slot_link r ep = current_link ep evs"
    using registry_run_link [OF assms] by (simp add: current_link_def slot_link_def new_registry_def)
  then show ?thesis unfolding try_get_iff registry_get_iff registry_get_failed
    by (auto dest: registry_run_failed)
qed

end
