(* ===== verification/Auth.thy ===== *)
theory Auth
  imports Protocol Metrics Config Chain
begin

text \<open>
  The authorization policies: \<open>crates/edge/src/auth/mod.rs\<close>, \<open>auth/whitelist.rs\<close> and
  \<open>auth/cps.rs\<close>.

  A policy has a state and two operations: \<open>try_authorize\<close> (the decision known without I/O) and
  \<open>authorize\<close>. \<open>NoneAuth\<close> has no state; \<open>Whitelist\<close> is a fixed set; \<open>CpsAuth\<close> keeps a bounded LRU
  cache of decisions and asks the chain on a miss. The chain is the record \<open>CpsReader\<close>, a
  parameter of each lookup (one record per lookup, since the chain changes between them); the
  \<open>lru\<close> crate is the record \<open>lru_ops\<close> with the documented laws \<open>lru_laws\<close>. Clock readings are
  arguments. The contract every policy offers the pipeline is the locale \<open>auth_policy\<close>.
\<close>

section \<open>Errors and the open policy\<close>

datatype AuthError =
    Unavailable string
  | Lookup string
  | Timeout
  | ChainMismatch string string
  | RootMissing NodeId
  | Inconsistent string

definition none_try_authorize :: "SensorId \<Rightarrow> bool option" where
  "none_try_authorize _ = Some True"

definition none_authorize :: "SensorId \<Rightarrow> AuthError + bool" where
  "none_authorize _ = Ok True"

section \<open>The whitelist\<close>

record Whitelist =
  wl_allowed :: "SensorId set"

definition parse_sensor_id ::
  "(string \<Rightarrow> string + bytes \<times> nat) \<Rightarrow> (nat \<Rightarrow> string) \<Rightarrow> (string \<Rightarrow> string + bytes)
    \<Rightarrow> string \<Rightarrow> string + SensorId" where
  "parse_sensor_id ss58_dec fmt_name hex_dec entry =
     (case sensor_from_ss58 ss58_dec fmt_name entry of
        Ok i \<Rightarrow> Ok i
      | Err _ \<Rightarrow>
          (case sensor_from_hex hex_dec entry of
             Ok i \<Rightarrow> Ok i
           | Err err \<Rightarrow>
               Err (''not a valid ss58 or hex sensor_id ('' @ show_protocol_error err @ '')'')))"

text \<open>The loop of \<open>from_str_lines\<close>; \<open>n\<close> is the number of the first line of \<open>ls\<close>.\<close>

fun whitelist_lines ::
  "(string \<Rightarrow> string + SensorId) \<Rightarrow> nat \<Rightarrow> string list \<Rightarrow> SensorId set \<Rightarrow> string + SensorId set" where
  "whitelist_lines parse n [] allowed = Ok allowed"
| "whitelist_lines parse n (raw # ls) allowed =
     (let line = trim (split_first (CHR ''#'') raw) in
      if line = [] then whitelist_lines parse (Suc n) ls allowed
      else case parse line of
             Err err \<Rightarrow> Err (''line '' @ show_nat n @ '': '' @ err)
           | Ok i \<Rightarrow> whitelist_lines parse (Suc n) ls (insert i allowed))"

definition from_str_lines :: "(string \<Rightarrow> string + SensorId) \<Rightarrow> string \<Rightarrow> string + Whitelist" where
  "from_str_lines parse contents =
     (case whitelist_lines parse 1 (lines contents) {} of
        Err e \<Rightarrow> Err e
      | Ok allowed \<Rightarrow> Ok \<lparr>wl_allowed = allowed\<rparr>)"

definition whitelist_try_authorize :: "SensorId \<Rightarrow> Whitelist \<Rightarrow> bool option" where
  "whitelist_try_authorize s w = Some (s \<in> wl_allowed w)"

definition whitelist_authorize :: "SensorId \<Rightarrow> Whitelist \<Rightarrow> AuthError + bool" where
  "whitelist_authorize s w = Ok (s \<in> wl_allowed w)"

section \<open>The CPS policy\<close>

definition MAX_ANCESTOR_DEPTH :: nat where
  "MAX_ANCESTOR_DEPTH = 256"

datatype Lineage = Missing | Root | Parent NodeId

record CpsSnapshot =
  snap_node_of :: "SensorId \<Rightarrow> AuthError + NodeId option"
  snap_lineage :: "NodeId \<Rightarrow> AuthError + Lineage"

record CpsReader =
  rd_verify :: "AuthError + unit"
  rd_snapshot :: "AuthError + CpsSnapshot"

record Entry =
  en_allowed :: bool
  en_expires :: "instant option"

text \<open>The operations of \<open>lru::LruCache\<close> the policy uses, over an abstract cache type.\<close>

record 'c lru_ops =
  lru_get :: "'c \<Rightarrow> bytes \<Rightarrow> Entry option \<times> 'c"
  lru_pop :: "'c \<Rightarrow> bytes \<Rightarrow> 'c"
  lru_put :: "'c \<Rightarrow> bytes \<Rightarrow> Entry \<Rightarrow> 'c"
  lru_len :: "'c \<Rightarrow> nat"

record 'c CpsAuth =
  ca_root :: NodeId
  ca_negative_ttl :: duration
  ca_verified :: bool
  ca_cache :: 'c

definition new_cps_auth :: "NodeId \<Rightarrow> 'c \<Rightarrow> duration \<Rightarrow> 'c CpsAuth" where
  "new_cps_auth root empty_cache negative_ttl =
     \<lparr>ca_root = root, ca_negative_ttl = negative_ttl, ca_verified = False,
      ca_cache = empty_cache\<rparr>"

definition cached ::
  "'c lru_ops \<Rightarrow> instant \<Rightarrow> bytes \<Rightarrow> 'c CpsAuth \<Rightarrow> bool option \<times> 'c CpsAuth \<times> metric list" where
  "cached ops now key p =
     (case lru_get ops (ca_cache p) key of
        (None, c) \<Rightarrow> (None, p\<lparr>ca_cache := c\<rparr>, [])
      | (Some entry, c) \<Rightarrow>
          (case en_expires entry of
             Some expires \<Rightarrow>
               if expires \<le> now
               then let c' = lru_pop ops c key
                    in (None, p\<lparr>ca_cache := c'\<rparr>, [Gauge AUTH_CPS_CACHE_ENTRIES (lru_len ops c')])
               else (Some (en_allowed entry), p\<lparr>ca_cache := c\<rparr>, [])
           | None \<Rightarrow> (Some (en_allowed entry), p\<lparr>ca_cache := c\<rparr>, [])))"

definition store ::
  "'c lru_ops \<Rightarrow> instant \<Rightarrow> bytes \<Rightarrow> bool \<Rightarrow> 'c CpsAuth \<Rightarrow> 'c CpsAuth \<times> metric list" where
  "store ops now key allowed p =
     (let expires = (if allowed then None else Some (now + ca_negative_ttl p));
          c' = lru_put ops (ca_cache p) key \<lparr>en_allowed = allowed, en_expires = expires\<rparr>
      in (p\<lparr>ca_cache := c'\<rparr>, [Gauge AUTH_CPS_CACHE_ENTRIES (lru_len ops c')]))"

text \<open>The ancestor loop of \<open>lookup\<close>: \<open>n\<close> iterations are left.\<close>

fun cps_walk ::
  "nat \<Rightarrow> CpsSnapshot \<Rightarrow> NodeId \<Rightarrow> NodeId \<Rightarrow> NodeId set \<Rightarrow> AuthError + bool" where
  "cps_walk 0 snapshot root current visited =
     Err (Inconsistent (''more than '' @ show_nat MAX_ANCESTOR_DEPTH @ '' ancestors''))"
| "cps_walk (Suc n) snapshot root current visited =
     (case snap_lineage snapshot current of
        Err e \<Rightarrow> Err e
      | Ok Missing \<Rightarrow>
          Err (Inconsistent (''node '' @ show_node current @ '' is missing from the tree''))
      | Ok Root \<Rightarrow> Ok False
      | Ok (Parent parent) \<Rightarrow>
          if parent = root then Ok True
          else if parent \<in> visited
          then Err (Inconsistent (''ancestor cycle at node '' @ show_node parent))
          else cps_walk n snapshot root parent (insert parent visited))"

definition lookup ::
  "CpsReader \<Rightarrow> SensorId \<Rightarrow> 'c CpsAuth \<Rightarrow> (AuthError + bool) \<times> 'c CpsAuth" where
  "lookup reader sensor_id p =
     (case (if ca_verified p then Ok () else rd_verify reader) of
        Err e \<Rightarrow> (Err e, p)
      | Ok _ \<Rightarrow>
          let p' = p\<lparr>ca_verified := True\<rparr> in
          (case rd_snapshot reader of
             Err e \<Rightarrow> (Err e, p')
           | Ok snapshot \<Rightarrow>
               (case snap_node_of snapshot sensor_id of
                  Err e \<Rightarrow> (Err e, p')
                | Ok None \<Rightarrow> (Ok False, p')
                | Ok (Some current) \<Rightarrow>
                    if current = ca_root p then (Ok False, p')
                    else (cps_walk MAX_ANCESTOR_DEPTH snapshot (ca_root p) current {current}, p'))))"

definition cps_try_authorize ::
  "'c lru_ops \<Rightarrow> instant \<Rightarrow> SensorId \<Rightarrow> 'c CpsAuth \<Rightarrow> bool option \<times> 'c CpsAuth \<times> metric list" where
  "cps_try_authorize ops now sensor_id p =
     (case cached ops now (sensor_bytes sensor_id) p of
        (None, p', ms) \<Rightarrow> (None, p', ms)
      | (Some allowed, p', ms) \<Rightarrow>
          (Some allowed, p', ms @ [Counter AUTH_CPS_CACHE_HIT_TOTAL
             [(''decision'', if allowed then ''allow'' else ''deny'')] 1]))"

text \<open>How the race of a lookup against its timeout ends: the lookup wins and stores its decision
  at the given instant, or the timeout wins, with the chain check done by then or not.\<close>

datatype race = InTime instant | TimedOut bool

definition cps_authorize ::
  "'c lru_ops \<Rightarrow> instant \<Rightarrow> race \<Rightarrow> CpsReader \<Rightarrow> SensorId \<Rightarrow> 'c CpsAuth
    \<Rightarrow> (AuthError + bool) \<times> 'c CpsAuth \<times> metric list" where
  "cps_authorize ops now race reader sensor_id p =
     (case cps_try_authorize ops now sensor_id p of
        (Some allowed, p1, ms) \<Rightarrow> (Ok allowed, p1, ms)
      | (None, p1, ms) \<Rightarrow>
          let ms1 = ms @ [incr AUTH_CPS_CACHE_MISS_TOTAL] in
          (case race of
             TimedOut checked \<Rightarrow>
               (Err Timeout,
                p1\<lparr>ca_verified := ca_verified p1 \<or> checked \<and> rd_verify reader = Ok ()\<rparr>, ms1)
           | InTime now' \<Rightarrow>
               (case lookup reader sensor_id p1 of
                  (Err e, p2) \<Rightarrow> (Err e, p2, ms1)
                | (Ok allowed, p2) \<Rightarrow>
                    let (p3, ms2) = store ops now' (sensor_bytes sensor_id) allowed p2
                    in (Ok allowed, p3, ms1 @ ms2))))"

section \<open>The reader backed by libcps\<close>

text \<open>\<open>LibcpsReader\<close> over the connection the chain registry hands out. \<open>LibChain\<close> is what the code
  reads of a connection: the genesis hash, and whether the finalized block can be pinned; a
  pinned block answers \<open>node info\<close> (the parent of an existing node) and \<open>address node id\<close>. The
  connection itself is the registry's answer to \<open>try_get\<close>.\<close>

record LibBlock =
  blk_node_parent :: "NodeId \<Rightarrow> CpsError + NodeId option option"
  blk_node_of :: "bytes \<Rightarrow> CpsError + NodeId option"

record LibChain =
  lc_genesis :: bytes
  lc_finalized :: "CpsError + LibBlock"

definition lookup_error :: "CpsError \<Rightarrow> AuthError" where
  "lookup_error e = Lookup (show_cps_error e)"

definition reader_chain :: "ChainError + LibChain \<Rightarrow> AuthError + LibChain" where
  "reader_chain answer = map_err (\<lambda>e. Unavailable (show_chain_error e)) answer"

definition libcps_node_of :: "LibBlock \<Rightarrow> SensorId \<Rightarrow> AuthError + NodeId option" where
  "libcps_node_of b s = map_err lookup_error (blk_node_of b (sensor_bytes s))"

definition libcps_lineage :: "LibBlock \<Rightarrow> NodeId \<Rightarrow> AuthError + Lineage" where
  "libcps_lineage b n =
     (case map_err lookup_error (blk_node_parent b n) of
        Err e \<Rightarrow> Err e
      | Ok info \<Rightarrow> Ok (case info of
                        None \<Rightarrow> Missing
                      | Some parent \<Rightarrow> (case parent of None \<Rightarrow> Root | Some p \<Rightarrow> Parent p)))"

definition libcps_verify ::
  "(bytes \<Rightarrow> string) \<Rightarrow> bytes \<Rightarrow> NodeId \<Rightarrow> ChainError + LibChain \<Rightarrow> AuthError + unit" where
  "libcps_verify hex_enc expected_genesis root answer =
     (case reader_chain answer of
        Err e \<Rightarrow> Err e
      | Ok chain \<Rightarrow>
          let actual = lc_genesis chain in
          if actual \<noteq> expected_genesis
          then Err (ChainMismatch (hex_enc expected_genesis) (hex_enc actual))
          else case map_err lookup_error (lc_finalized chain) of
                 Err e \<Rightarrow> Err e
               | Ok block \<Rightarrow>
                   (case map_err lookup_error (blk_node_parent block root) of
                      Err e \<Rightarrow> Err e
                    | Ok (Some _) \<Rightarrow> Ok ()
                    | Ok None \<Rightarrow> Err (RootMissing root)))"

definition libcps_snapshot :: "ChainError + LibChain \<Rightarrow> AuthError + CpsSnapshot" where
  "libcps_snapshot answer =
     (case reader_chain answer of
        Err e \<Rightarrow> Err e
      | Ok chain \<Rightarrow>
          (case map_err lookup_error (lc_finalized chain) of
             Err e \<Rightarrow> Err e
           | Ok block \<Rightarrow> Ok \<lparr>snap_node_of = libcps_node_of block, snap_lineage = libcps_lineage block\<rparr>))"

definition libcps_reader ::
  "(bytes \<Rightarrow> string) \<Rightarrow> bytes \<Rightarrow> NodeId \<Rightarrow> ChainError + LibChain \<Rightarrow> ChainError + LibChain \<Rightarrow> CpsReader" where
  "libcps_reader hex_enc expected_genesis root at_verify at_snapshot =
     \<lparr>rd_verify = libcps_verify hex_enc expected_genesis root at_verify,
      rd_snapshot = libcps_snapshot at_snapshot\<rparr>"

section \<open>Building the configured policy\<close>

text \<open>An I/O error is its kind and message; \<open>read\<close> is \<open>read_to_string\<close>, \<open>lru_new\<close> is \<open>LruCache::new\<close> and
  \<open>parse\<close> the parser of whitelist entries.\<close>

datatype IoError = InvalidData string | InvalidInput string | OtherIo string

definition whitelist_from_file ::
  "(string \<Rightarrow> IoError + string) \<Rightarrow> (string \<Rightarrow> string + SensorId) \<Rightarrow> string \<Rightarrow> IoError + Whitelist" where
  "whitelist_from_file read parse path =
     (case read path of
        Err e \<Rightarrow> Err e
      | Ok contents \<Rightarrow>
          map_err (\<lambda>err. InvalidData (''invalid whitelist '' @ path @ '': '' @ err)) (from_str_lines parse contents))"

record LibcpsReader =
  lr_endpoint :: "string option"
  lr_expected_genesis :: bytes
  lr_root :: NodeId

definition cps_from_config ::
  "(nat \<Rightarrow> 'c) \<Rightarrow> (string \<Rightarrow> string + bytes) \<Rightarrow> AuthConfig \<Rightarrow> string option
    \<Rightarrow> string + LibcpsReader \<times> 'c CpsAuth \<times> duration" where
  "cps_from_config lru_new hex_dec config endpoint =
     (case cps_root_node_id config of
        None \<Rightarrow> Err (''auth.mode = '' @ debug_str ''cps'' @ '' requires auth.cps_root_node_id'')
      | Some root \<Rightarrow>
          (case expected_genesis_hash hex_dec config of
             Err e \<Rightarrow> Err e
           | Ok expected_genesis \<Rightarrow>
               if cps_cache_capacity config = 0 then Err ''auth.cps_cache_capacity must be greater than zero''
               else Ok (\<lparr>lr_endpoint = endpoint, lr_expected_genesis = expected_genesis, lr_root = root\<rparr>,
                        new_cps_auth root (lru_new (cps_cache_capacity config))
                          (from_secs (cps_negative_ttl_secs config)),
                        from_secs (cps_query_timeout_secs config))))"

text \<open>The boxed policy, by its implementation.\<close>

datatype 'c BuiltPolicy =
    BuiltNone
  | BuiltWhitelist Whitelist
  | BuiltCps LibcpsReader "'c CpsAuth" duration

definition auth_from_config ::
  "(string \<Rightarrow> IoError + string) \<Rightarrow> (string \<Rightarrow> string + SensorId) \<Rightarrow> (nat \<Rightarrow> 'c) \<Rightarrow> (string \<Rightarrow> string + bytes)
    \<Rightarrow> AuthConfig \<Rightarrow> string option \<Rightarrow> IoError + 'c BuiltPolicy" where
  "auth_from_config read parse lru_new hex_dec config endpoint =
     (case au_mode config of
        AuthNone \<Rightarrow> Ok BuiltNone
      | AuthWhitelist \<Rightarrow>
          (case au_file config of
             None \<Rightarrow> Err (InvalidInput (''auth mode '' @ [char_of (39 :: nat)] @ ''whitelist'' @ [char_of (39 :: nat)] @
                      '' requires '' @ [char_of (39 :: nat)] @ ''[auth] file'' @ [char_of (39 :: nat)]))
           | Some path \<Rightarrow>
               (case whitelist_from_file read parse path of Err e \<Rightarrow> Err e | Ok w \<Rightarrow> Ok (BuiltWhitelist w)))
      | AuthCps \<Rightarrow>
          (case map_err InvalidInput (cps_from_config lru_new hex_dec config endpoint) of
             Err e \<Rightarrow> Err e
           | Ok (reader, policy, timeout) \<Rightarrow> Ok (BuiltCps reader policy timeout)))"

section \<open>The trait the pipeline sees\<close>

text \<open>\<open>AuthPolicy\<close> as the record of its operations. \<open>'p\<close> is the policy's state and \<open>'r\<close> what a call
  observes of its surroundings: nothing for the first two policies; the clock, the race against
  the timeout and the chain for the third.\<close>

record ('p, 'r) AuthPolicy =
  pol_mode :: AuthMode
  pol_try :: "'r \<Rightarrow> SensorId \<Rightarrow> 'p \<Rightarrow> bool option \<times> 'p \<times> metric list"
  pol_authorize :: "'r \<Rightarrow> SensorId \<Rightarrow> 'p \<Rightarrow> (AuthError + bool) \<times> 'p \<times> metric list"

definition none_policy :: "(unit, unit) AuthPolicy" where
  "none_policy =
     \<lparr>pol_mode = AuthNone, pol_try = (\<lambda>_ s p. (none_try_authorize s, p, [])),
      pol_authorize = (\<lambda>_ s p. (none_authorize s, p, []))\<rparr>"

definition whitelist_policy :: "(Whitelist, unit) AuthPolicy" where
  "whitelist_policy =
     \<lparr>pol_mode = AuthWhitelist, pol_try = (\<lambda>_ s p. (whitelist_try_authorize s p, p, [])),
      pol_authorize = (\<lambda>_ s p. (whitelist_authorize s p, p, []))\<rparr>"

record cps_env =
  ce_now :: instant
  ce_race :: race
  ce_reader :: CpsReader

definition cps_policy :: "'c lru_ops \<Rightarrow> ('c CpsAuth, cps_env) AuthPolicy" where
  "cps_policy ops =
     \<lparr>pol_mode = AuthCps,
      pol_try = (\<lambda>r s p. cps_try_authorize ops (ce_now r) s p),
      pol_authorize = (\<lambda>r s p. cps_authorize ops (ce_now r) (ce_race r) (ce_reader r) s p)\<rparr>"

section \<open>Specification\<close>

text \<open>The documented behaviour of \<open>lru::LruCache\<close> with capacity \<open>cap\<close>, through the map \<open>view\<close> of the
  entries it holds: \<open>get\<close> returns the entry and keeps the contents; \<open>pop\<close> removes; \<open>put\<close> stores and
  evicts other entries only when a new key meets a full cache; \<open>len\<close> counts and never exceeds
  \<open>cap\<close>.\<close>

definition lru_laws :: "'c lru_ops \<Rightarrow> ('c \<Rightarrow> bytes \<Rightarrow> Entry option) \<Rightarrow> nat \<Rightarrow> bool" where
  "lru_laws ops view cap \<longleftrightarrow>
     (\<forall>c k. fst (lru_get ops c k) = view c k \<and> view (snd (lru_get ops c k)) = view c) \<and>
     (\<forall>c k. view (lru_pop ops c k) = (view c)(k := None)) \<and>
     (\<forall>c k e. view (lru_put ops c k e) k = Some e \<and>
              view (lru_put ops c k e) \<subseteq>\<^sub>m (view c)(k \<mapsto> e)) \<and>
     (\<forall>c k e. k \<in> dom (view c) \<or> lru_len ops c < cap \<longrightarrow>
              view (lru_put ops c k e) = (view c)(k \<mapsto> e)) \<and>
     (\<forall>c. finite (dom (view c)) \<and> lru_len ops c = card (dom (view c)) \<and> lru_len ops c \<le> cap)"

text \<open>\<open>ancestor sn k n\<close> is the node \<open>k\<close> steps above \<open>n\<close>, if the snapshot has one.\<close>

fun ancestor :: "CpsSnapshot \<Rightarrow> nat \<Rightarrow> NodeId \<Rightarrow> NodeId option" where
  "ancestor sn 0 n = Some n"
| "ancestor sn (Suc k) n =
     (case snap_lineage sn n of Ok (Parent p) \<Rightarrow> ancestor sn k p | _ \<Rightarrow> None)"

text \<open>A sensor is below \<open>root\<close>: bound to a node other than \<open>root\<close> that has \<open>root\<close> among its first 256
  ancestors.\<close>

definition below_root :: "CpsSnapshot \<Rightarrow> NodeId \<Rightarrow> SensorId \<Rightarrow> bool" where
  "below_root sn root s \<longleftrightarrow>
     (\<exists>n. snap_node_of sn s = Ok (Some n) \<and> n \<noteq> root \<and>
        (\<exists>k\<in>{1..MAX_ANCESTOR_DEPTH}. ancestor sn k n = Some root))"

definition on_chain :: "NodeId \<Rightarrow> cps_env \<Rightarrow> SensorId \<Rightarrow> bool" where
  "on_chain root r s \<longleftrightarrow> (\<exists>sn. rd_snapshot (ce_reader r) = Ok sn \<and> below_root sn root s)"

text \<open>A run of calls of a policy, with the sensors answered positively; the flag tells
  \<open>authorize\<close> from \<open>try_authorize\<close>.\<close>

fun calls :: "('p, 'r) AuthPolicy \<Rightarrow> ('r \<times> bool \<times> SensorId) list \<Rightarrow> 'p \<Rightarrow> SensorId list \<times> 'p" where
  "calls pol [] p = ([], p)"
| "calls pol ((r, blocking, s) # cs) p =
     (let (ok, p') = (if blocking then (case pol_authorize pol r s p of (d, p', _) \<Rightarrow> (d = Ok True, p'))
                      else (case pol_try pol r s p of (d, p', _) \<Rightarrow> (d = Some True, p')));
          (ss, p'') = calls pol cs p'
      in (if ok then s # ss else ss, p''))"

text \<open>The contract of a policy: with \<open>G\<close> the sensors it was ever given evidence for, a positive
  answer names a sensor of \<open>G\<close> or one with evidence now; answers without I/O only name \<open>G\<close>.\<close>

locale auth_policy =
  fixes pol :: "('p, 'r) AuthPolicy"
    and evidence :: "'r \<Rightarrow> SensorId \<Rightarrow> bool"
    and granted :: "SensorId set \<Rightarrow> 'p \<Rightarrow> bool"
  assumes try_sound: "granted G p \<Longrightarrow> pol_try pol r s p = (Some True, p', ms) \<Longrightarrow> s \<in> G"
    and try_granted: "granted G p \<Longrightarrow> pol_try pol r s p = (d, p', ms) \<Longrightarrow> granted G p'"
    and authorize_sound:
      "granted G p \<Longrightarrow> pol_authorize pol r s p = (Ok True, p', ms) \<Longrightarrow> s \<in> G \<or> evidence r s"
    and authorize_granted:
      "granted G p \<Longrightarrow> pol_authorize pol r s p = (a, p', ms) \<Longrightarrow>
       granted (if a = Ok True then insert s G else G) p'"
begin

lemma calls_sound:
  "granted G p \<Longrightarrow> calls pol cs p = (ss, p') \<Longrightarrow>
   set ss \<subseteq> G \<union> {s. \<exists>r. (r, True, s) \<in> set cs \<and> evidence r s}"
proof (induction cs arbitrary: G p ss p')
  case (Cons c cs)
  obtain r b s where c: "c = (r, b, s)" by (cases c)
  show ?case
  proof (cases b)
    case True
    obtain d p1 ms where a: "pol_authorize pol r s p = (d, p1, ms)" by (cases "pol_authorize pol r s p")
    obtain ss1 p2 where n: "calls pol cs p1 = (ss1, p2)" by (cases "calls pol cs p1")
    have "granted (if d = Ok True then insert s G else G) p1"
      using authorize_granted [OF Cons.prems(1) a] .
    then have "set ss1 \<subseteq> (if d = Ok True then insert s G else G) \<union>
        {s. \<exists>r. (r, True, s) \<in> set cs \<and> evidence r s}"
      using Cons.IH n by blast
    moreover have "d = Ok True \<longrightarrow> s \<in> G \<or> evidence r s"
      using authorize_sound [OF Cons.prems(1)] a by blast
    ultimately show ?thesis
      using Cons.prems(2) n True unfolding c by (fastforce simp: a split: if_splits)
  next
    case False
    obtain d p1 ms where a: "pol_try pol r s p = (d, p1, ms)" by (cases "pol_try pol r s p")
    obtain ss1 p2 where n: "calls pol cs p1 = (ss1, p2)" by (cases "calls pol cs p1")
    have "granted G p1" using try_granted [OF Cons.prems(1) a] .
    then have "set ss1 \<subseteq> G \<union> {s. \<exists>r. (r, True, s) \<in> set cs \<and> evidence r s}"
      using Cons.IH n by blast
    moreover have "d = Some True \<longrightarrow> s \<in> G"
      using try_sound [OF Cons.prems(1)] a by blast
    ultimately show ?thesis
      using Cons.prems(2) n False unfolding c by (auto simp: a split: if_splits)
  qed
qed simp

end

definition none_granted :: "SensorId set \<Rightarrow> unit \<Rightarrow> bool" where
  "none_granted G _ \<longleftrightarrow> G = UNIV"

definition whitelist_granted :: "SensorId set \<Rightarrow> Whitelist \<Rightarrow> bool" where
  "whitelist_granted G w \<longleftrightarrow> wl_allowed w \<subseteq> G"

definition cps_granted ::
  "('c \<Rightarrow> bytes \<Rightarrow> Entry option) \<Rightarrow> NodeId \<Rightarrow> SensorId set \<Rightarrow> 'c CpsAuth \<Rightarrow> bool" where
  "cps_granted view root G p \<longleftrightarrow>
     ca_root p = root \<and> (\<forall>k e. view (ca_cache p) k = Some e \<and> en_allowed e \<longrightarrow> SensorId k \<in> G)"

text \<open>Allowed entries have no expiry, denied ones have one.\<close>

definition cache_ok :: "('c \<Rightarrow> bytes \<Rightarrow> Entry option) \<Rightarrow> 'c CpsAuth \<Rightarrow> bool" where
  "cache_ok view p \<longleftrightarrow>
     (\<forall>k e. view (ca_cache p) k = Some e \<longrightarrow> (en_allowed e \<longleftrightarrow> en_expires e = None))"

text \<open>The entries of a whitelist file, with their line numbers.\<close>

definition whitelist_entries :: "string \<Rightarrow> (nat \<times> string) list" where
  "whitelist_entries contents =
     filter (\<lambda>(n, l). l \<noteq> [])
       (map (\<lambda>(n, raw). (n, trim (split_first (CHR ''#'') raw))) (enumerate 1 (lines contents)))"

section \<open>The policies meet the contract\<close>

interpretation none_auth: auth_policy none_policy "\<lambda>_ _. True" none_granted
  by unfold_locales (auto simp: none_granted_def none_policy_def)

interpretation whitelist_auth: auth_policy whitelist_policy "\<lambda>_ _. False" whitelist_granted
  by unfold_locales
    (auto simp: whitelist_granted_def whitelist_policy_def whitelist_try_authorize_def
      whitelist_authorize_def)

lemma lru_get_view:
  "lru_laws ops view cap \<Longrightarrow> lru_get ops c k = (r, c') \<Longrightarrow> r = view c k \<and> view c' = view c"
  unfolding lru_laws_def by (metis fst_conv snd_conv)

lemma lru_pop_view: "lru_laws ops view cap \<Longrightarrow> view (lru_pop ops c k) = (view c)(k := None)"
  unfolding lru_laws_def by blast

lemma lru_put_view:
  "lru_laws ops view cap \<Longrightarrow> view (lru_put ops c k e) k = Some e"
  "lru_laws ops view cap \<Longrightarrow> view (lru_put ops c k e) \<subseteq>\<^sub>m (view c)(k \<mapsto> e)"
  unfolding lru_laws_def by blast+

lemma lru_put_view_other:
  assumes "lru_laws ops view cap" and "view (lru_put ops c k e) k' = Some e'"
  shows "if k' = k then e' = e else view c k' = Some e'"
  using lru_put_view(1) [OF assms(1), of c k e] lru_put_view(2) [OF assms(1), of c k e] assms(2)
  by (auto simp: map_le_def dom_def split: if_splits)

lemma cached_view:
  assumes "lru_laws ops view cap" and "cached ops now key p = (d, p', ms)"
  shows "d = (case view (ca_cache p) key of
                None \<Rightarrow> None
              | Some e \<Rightarrow> if \<exists>x. en_expires e = Some x \<and> x \<le> now then None else Some (en_allowed e))"
    and "view (ca_cache p') = (if d = None then (view (ca_cache p))(key := None) else view (ca_cache p))"
    and "ca_root p' = ca_root p" "ca_verified p' = ca_verified p"
      "ca_negative_ttl p' = ca_negative_ttl p"
proof -
  obtain r c where g: "lru_get ops (ca_cache p) key = (r, c)" by (cases "lru_get ops (ca_cache p) key")
  note v = lru_get_view [OF assms(1) g] and pv = lru_pop_view [OF assms(1)]
  show "d = (case view (ca_cache p) key of
                None \<Rightarrow> None
              | Some e \<Rightarrow> if \<exists>x. en_expires e = Some x \<and> x \<le> now then None else Some (en_allowed e))"
    "view (ca_cache p') = (if d = None then (view (ca_cache p))(key := None) else view (ca_cache p))"
    "ca_root p' = ca_root p" "ca_verified p' = ca_verified p"
    "ca_negative_ttl p' = ca_negative_ttl p"
    using assms(2) v pv
    by (auto simp: cached_def g Let_def fun_upd_idem split: option.splits if_splits)
qed

lemma store_view:
  assumes "lru_laws ops view cap" and "store ops now key allowed p = (p', ms)"
  shows "view (ca_cache p') key =
           Some \<lparr>en_allowed = allowed,
                 en_expires = (if allowed then None else Some (now + ca_negative_ttl p))\<rparr>"
    and "k \<noteq> key \<Longrightarrow> view (ca_cache p') k = Some e \<Longrightarrow> view (ca_cache p) k = Some e"
    and "ca_root p' = ca_root p" "ca_verified p' = ca_verified p"
proof -
  define e0 where "e0 = \<lparr>en_allowed = allowed,
                 en_expires = (if allowed then None else Some (now + ca_negative_ttl p))\<rparr>"
  have p': "p' = p\<lparr>ca_cache := lru_put ops (ca_cache p) key e0\<rparr>"
    using assms(2) by (simp add: store_def Let_def e0_def)
  show "view (ca_cache p') key =
           Some \<lparr>en_allowed = allowed,
                 en_expires = (if allowed then None else Some (now + ca_negative_ttl p))\<rparr>"
    using lru_put_view(1) [OF assms(1)] unfolding p' e0_def by simp
  show "view (ca_cache p) k = Some e" if "k \<noteq> key" "view (ca_cache p') k = Some e"
    using lru_put_view_other [OF assms(1), of "ca_cache p" key e0 k e] that unfolding p' by simp
  show "ca_root p' = ca_root p" "ca_verified p' = ca_verified p" unfolding p' by simp_all
qed

lemma lookup_frame:
  "lookup reader s p = (r, p') \<Longrightarrow>
   ca_root p' = ca_root p \<and> ca_cache p' = ca_cache p \<and> ca_negative_ttl p' = ca_negative_ttl p"
  by (auto simp: lookup_def Let_def split: sum.splits option.splits if_splits)

subsection \<open>The ancestor loop\<close>

text \<open>The loop invariant: the nodes visited are the start and its first ancestors, none of them
  the root, so a node seen again proves that the root is no ancestor at all.\<close>

lemma ancestor_add:
  "ancestor sn (i + j) n = (case ancestor sn i n of None \<Rightarrow> None | Some m \<Rightarrow> ancestor sn j m)"
  by (induction i arbitrary: n) (auto split: sum.splits Lineage.splits)

lemma ancestor_prefix: "ancestor sn k n = Some m \<Longrightarrow> i \<le> k \<Longrightarrow> \<exists>m'. ancestor sn i n = Some m'"
  using ancestor_add [of sn i "k - i" n] by (auto split: option.splits)

lemma ancestor_cycle:
  assumes "ancestor sn i n = Some m" and "ancestor sn (i + Suc d) n = Some m"
  shows "\<exists>j < i + Suc d. ancestor sn k n = ancestor sn j n"
proof (induction k rule: less_induct)
  case (less k)
  show ?case
  proof (cases "k < i + Suc d")
    case False
    then have k: "k = (i + Suc d) + (k - (i + Suc d))" and k': "k - Suc d = i + (k - (i + Suc d))"
      by linarith+
    have "ancestor sn k n = ancestor sn (k - (i + Suc d)) m"
      by (subst k, subst ancestor_add) (simp only: assms(2) option.case)
    also have "\<dots> = ancestor sn (k - Suc d) n"
      by (subst k', subst ancestor_add) (simp only: assms(1) option.case)
    finally show ?thesis using less.IH [of "k - Suc d"] False by force
  qed blast
qed

lemma cps_walk_allow:
  "cps_walk n sn root current visited = Ok True \<Longrightarrow> \<exists>k\<in>{1..n}. ancestor sn k current = Some root"
proof (induction n sn root current visited rule: cps_walk.induct)
  case (2 n sn root current visited)
  from "2.prems" show ?case
  proof (cases "snap_lineage sn current")
    case (Inr l)
    with "2.prems" obtain p where p: "l = Parent p" by (cases l) auto
    show ?thesis
    proof (cases "p = root")
      case True
      then show ?thesis using Inr p by (intro bexI [of _ 1]) auto
    next
      case False
      then obtain k where "k \<in> {1..n}" "ancestor sn k p = Some root"
        using 2 Inr p by (auto split: if_splits)
      then show ?thesis using Inr p by (intro bexI [of _ "Suc k"]) auto
    qed
  qed simp
qed simp

lemma cps_walk_complete:
  assumes "ancestor sn k start = Some root" and "i < k" and "k \<le> i + n"
    and "ancestor sn i start = Some current"
    and "visited = {m. \<exists>j\<le>i. ancestor sn j start = Some m}"
    and "\<forall>j < k. ancestor sn j start \<noteq> Some root"
  shows "cps_walk n sn root current visited = Ok True"
  using assms
proof (induction n arbitrary: i current visited)
  case (Suc n)
  obtain m where m: "ancestor sn (Suc i) start = Some m"
    using ancestor_prefix [OF Suc.prems(1), of "Suc i"] Suc.prems(2) by auto
  have l: "snap_lineage sn current = Ok (Parent m)"
    using m ancestor_add [of sn i 1 start] Suc.prems(4) by (auto split: sum.splits Lineage.splits)
  show ?case
  proof (cases "m = root")
    case False
    have "m \<notin> visited"
    proof
      assume "m \<in> visited"
      then obtain j where j: "j \<le> i" "ancestor sn j start = Some m" using Suc.prems(5) by blast
      then have "\<exists>j' < j + Suc (i - j). ancestor sn k start = ancestor sn j' start"
        using m by (intro ancestor_cycle) auto
      moreover have "j + Suc (i - j) = Suc i" using j(1) by simp
      ultimately show False using Suc.prems(1,2,6) by (metis Suc_leI order_less_le_trans)
    qed
    moreover have "Suc i < k" using m False Suc.prems(1,2) by (metis Suc_lessI option.inject)
    moreover have "insert m visited = {x. \<exists>j\<le>Suc i. ancestor sn j start = Some x}"
      using m Suc.prems(5) by (auto simp: le_Suc_eq)
    ultimately show ?thesis
      using Suc.IH [of "Suc i" m "insert m visited"] l False m Suc.prems(1,3,6) by simp
  qed (simp add: l)
qed simp

lemma cps_walk_iff:
  assumes "current \<noteq> root"
  shows "cps_walk n sn root current {current} = Ok True \<longleftrightarrow>
         (\<exists>k\<in>{1..n}. ancestor sn k current = Some root)"
proof
  assume "\<exists>k\<in>{1..n}. ancestor sn k current = Some root"
  then have ex: "\<exists>k. ancestor sn k current = Some root" by blast
  define k where "k = (LEAST k. ancestor sn k current = Some root)"
  have k: "ancestor sn k current = Some root" "\<forall>j<k. ancestor sn j current \<noteq> Some root"
    unfolding k_def using LeastI_ex [OF ex] not_less_Least by blast+
  have "k \<le> n" using \<open>\<exists>k\<in>{1..n}. _\<close> unfolding k_def
    by (meson Least_le atLeastAtMost_iff order_trans)
  moreover have "0 < k" using k(1) assms by (cases k) auto
  ultimately show "cps_walk n sn root current {current} = Ok True"
    using k by (intro cps_walk_complete [of sn k current root 0]) auto
qed (rule cps_walk_allow)

lemma cps_walk_deny:
  "cps_walk n sn root current visited = Ok False \<Longrightarrow>
   \<exists>k<n. \<exists>m. ancestor sn k current = Some m \<and> snap_lineage sn m = Ok Root \<and>
     (\<forall>j\<in>{1..k}. ancestor sn j current \<noteq> Some root)"
proof (induction n arbitrary: current visited)
  case (Suc n)
  then obtain l where l: "snap_lineage sn current = Ok l" by (auto split: sum.splits)
  show ?case
  proof (cases l)
    case Root
    then show ?thesis using l by (intro exI [of _ 0]) auto
  next
    case (Parent p)
    then have "p \<noteq> root" "cps_walk n sn root p (insert p visited) = Ok False"
      using Suc.prems l by (auto split: if_splits)
    with Suc.IH obtain k m where "k < n" "ancestor sn k p = Some m" "snap_lineage sn m = Ok Root"
      "\<forall>j\<in>{1..k}. ancestor sn j p \<noteq> Some root" by blast
    moreover have "ancestor sn j current \<noteq> Some root" if "j \<in> {1..Suc k}" for j
      using that calculation(4) l Parent \<open>p \<noteq> root\<close> by (cases j; cases "j = 1") auto
    ultimately show ?thesis using l Parent by (intro exI [of _ "Suc k"]) auto
  qed (use Suc.prems l in auto)
qed simp

lemma lookup_cases:
  "lookup reader s p = (r, p') \<Longrightarrow> r = Ok b \<Longrightarrow>
   (ca_verified p \<or> rd_verify reader = Ok ()) \<and> (\<exists>sn. rd_snapshot reader = Ok sn \<and>
     (\<exists>nd. snap_node_of sn s = Ok nd \<and>
        (case nd of None \<Rightarrow> \<not> b
         | Some n \<Rightarrow> if n = ca_root p then \<not> b
                    else cps_walk MAX_ANCESTOR_DEPTH sn (ca_root p) n {n} = Ok b)))"
  by (auto simp: lookup_def Let_def split: sum.splits option.splits if_splits)

lemma lookup_allow_iff:
  "fst (lookup reader s p) = Ok True \<longleftrightarrow>
     (ca_verified p \<or> rd_verify reader = Ok ()) \<and>
     (\<exists>sn. rd_snapshot reader = Ok sn \<and> below_root sn (ca_root p) s)"
proof
  assume "fst (lookup reader s p) = Ok True"
  from lookup_cases [OF prod.collapse [symmetric] this] obtain sn nd where
    v: "ca_verified p \<or> rd_verify reader = Ok ()" and sn: "rd_snapshot reader = Ok sn"
    and nd: "snap_node_of sn s = Ok nd"
    and c: "case nd of None \<Rightarrow> \<not> True
         | Some n \<Rightarrow> if n = ca_root p then \<not> True
                    else cps_walk MAX_ANCESTOR_DEPTH sn (ca_root p) n {n} = Ok True"
    by blast
  then obtain n where "nd = Some n" "n \<noteq> ca_root p"
    "cps_walk MAX_ANCESTOR_DEPTH sn (ca_root p) n {n} = Ok True"
    by (auto split: option.splits if_splits)
  then have "below_root sn (ca_root p) s"
    using nd cps_walk_iff unfolding below_root_def by auto
  with v sn show "(ca_verified p \<or> rd_verify reader = Ok ()) \<and>
     (\<exists>sn. rd_snapshot reader = Ok sn \<and> below_root sn (ca_root p) s)" by blast
next
  assume "(ca_verified p \<or> rd_verify reader = Ok ()) \<and>
     (\<exists>sn. rd_snapshot reader = Ok sn \<and> below_root sn (ca_root p) s)"
  then obtain sn where v: "ca_verified p \<or> rd_verify reader = Ok ()"
    and sn: "rd_snapshot reader = Ok sn" and b: "below_root sn (ca_root p) s" by blast
  from b obtain n where n: "snap_node_of sn s = Ok (Some n)" "n \<noteq> ca_root p"
    "cps_walk MAX_ANCESTOR_DEPTH sn (ca_root p) n {n} = Ok True"
    unfolding below_root_def using cps_walk_iff by blast
  from v sn n show "fst (lookup reader s p) = Ok True"
    unfolding lookup_def Let_def by (cases "ca_verified p") auto
qed

lemma ancestor_past_Root:
  assumes "ancestor sn k n = Some m" and "snap_lineage sn m = Ok Root" and "k < j"
  shows "ancestor sn j n = None"
proof -
  obtain d where "j = k + Suc d" using \<open>k < j\<close> less_iff_Suc_add by auto
  then show ?thesis by (simp only: ancestor_add assms(1) option.case) (simp add: assms(2))
qed

lemma cps_try_view:
  assumes "lru_laws ops view cap" and "cps_try_authorize ops now s p = (d, p', ms)"
  shows "d = (case view (ca_cache p) (sensor_bytes s) of
                None \<Rightarrow> None
              | Some e \<Rightarrow> if \<exists>x. en_expires e = Some x \<and> x \<le> now then None else Some (en_allowed e))"
    and "view (ca_cache p') =
           (if d = None then (view (ca_cache p))(sensor_bytes s := None) else view (ca_cache p))"
    and "ca_root p' = ca_root p" "ca_verified p' = ca_verified p"
      "ca_negative_ttl p' = ca_negative_ttl p"
proof -
  obtain ms' where "cached ops now (sensor_bytes s) p = (d, p', ms')"
    using assms(2) by (auto simp: cps_try_authorize_def split: prod.splits option.splits)
  note v = cached_view [OF assms(1) this]
  show "d = (case view (ca_cache p) (sensor_bytes s) of
                None \<Rightarrow> None
              | Some e \<Rightarrow> if \<exists>x. en_expires e = Some x \<and> x \<le> now then None else Some (en_allowed e))"
    "view (ca_cache p') =
           (if d = None then (view (ca_cache p))(sensor_bytes s := None) else view (ca_cache p))"
    "ca_root p' = ca_root p" "ca_verified p' = ca_verified p"
    "ca_negative_ttl p' = ca_negative_ttl p"
    by (rule v)+
qed

text \<open>The four ways through \<open>authorize\<close>: a hit, a timeout, a failed lookup, a decision stored.\<close>

lemma cps_authorize_cases:
  assumes run: "cps_authorize ops now race reader s p = (r, p', ms)"
    and tr: "cps_try_authorize ops now s p = (d, p1, ms1)"
  shows "(\<exists>b. d = Some b \<and> r = Ok b \<and> p' = p1) \<or>
    (d = None \<and> r = Err Timeout \<and> ca_cache p' = ca_cache p1 \<and> ca_root p' = ca_root p1) \<or>
    (\<exists>e p2. d = None \<and> lookup reader s p1 = (Err e, p2) \<and> r = Err e \<and> p' = p2) \<or>
    (\<exists>b p2 now' ms2. d = None \<and> lookup reader s p1 = (Ok b, p2) \<and> r = Ok b \<and> race = InTime now' \<and>
       store ops now' (sensor_bytes s) b p2 = (p', ms2))"
  using run tr
  by (auto simp: cps_authorize_def Let_def split: option.splits race.splits prod.splits sum.splits)

lemma map_le_Some: "m \<subseteq>\<^sub>m m' \<Longrightarrow> m k = Some e \<Longrightarrow> m' k = Some e"
  by (simp add: map_le_def dom_def)

lemma cache_ok_mono:
  "cache_ok view p \<Longrightarrow> view (ca_cache p') \<subseteq>\<^sub>m view (ca_cache p) \<Longrightarrow> cache_ok view p'"
  unfolding cache_ok_def using map_le_Some by metis

lemma map_le_delete: "m(k := None) \<subseteq>\<^sub>m m"
  by (simp add: map_le_def)

lemma cps_try_view_le:
  "lru_laws ops view cap \<Longrightarrow> cps_try_authorize ops now s p = (d, p', ms) \<Longrightarrow>
   view (ca_cache p') \<subseteq>\<^sub>m view (ca_cache p)"
  using cps_try_view(2) by (metis map_le_delete map_le_refl)

lemma cps_granted_mono:
  "cps_granted view root G p \<Longrightarrow> ca_root p' = ca_root p \<Longrightarrow>
   view (ca_cache p') \<subseteq>\<^sub>m view (ca_cache p) \<Longrightarrow> cps_granted view root G p'"
  unfolding cps_granted_def using map_le_Some by metis

lemma cps_granted_store:
  assumes "lru_laws ops view cap" and "cps_granted view root G p"
    and "store ops now (sensor_bytes s) b p = (p', ms)"
  shows "cps_granted view root (if b then insert s G else G) p'"
proof -
  note v = store_view [OF assms(1,3)]
  have "SensorId k \<in> (if b then insert s G else G)"
    if k: "view (ca_cache p') k = Some e" "en_allowed e" for k e
  proof (cases "k = sensor_bytes s")
    case True
    then show ?thesis using v(1) k by auto
  next
    case False
    then show ?thesis using v(2) [OF False k(1)] k(2) assms(2) unfolding cps_granted_def by auto
  qed
  then show ?thesis using v(3) assms(2) unfolding cps_granted_def by auto
qed

lemma cps_try_sound:
  assumes "lru_laws ops view cap" and "cps_granted view root G p"
    and "cps_try_authorize ops now s p = (Some True, p', ms)"
  shows "s \<in> G"
proof -
  obtain e where "view (ca_cache p) (sensor_bytes s) = Some e" "en_allowed e"
    using cps_try_view(1) [OF assms(1,3)] by (auto split: option.splits if_splits)
  then show ?thesis using assms(2) unfolding cps_granted_def by force
qed

lemma cps_auth_policy:
  assumes laws: "lru_laws ops view cap"
  shows "auth_policy (cps_policy ops) (on_chain root) (cps_granted view root)"
proof
  fix G p r s p' ms d a
  assume g: "cps_granted view root G p"
  show "s \<in> G" if "pol_try (cps_policy ops) r s p = (Some True, p', ms)"
    using cps_try_sound [OF laws g] that by (simp add: cps_policy_def)
  show "cps_granted view root G p'" if "pol_try (cps_policy ops) r s p = (d, p', ms)"
    using that cps_try_view(3) [OF laws] cps_try_view_le [OF laws] cps_granted_mono [OF g]
    by (simp add: cps_policy_def)
  obtain d1 p1 ms1 where tr: "cps_try_authorize ops (ce_now r) s p = (d1, p1, ms1)"
    by (cases "cps_try_authorize ops (ce_now r) s p")
  have g1: "cps_granted view root G p1"
    using cps_granted_mono [OF g] cps_try_view(3) [OF laws tr] cps_try_view_le [OF laws tr] by blast
  have root: "ca_root p1 = root" using g1 unfolding cps_granted_def by blast
  show "s \<in> G \<or> on_chain root r s" if "pol_authorize (cps_policy ops) r s p = (Ok True, p', ms)"
  proof -
    have "cps_authorize ops (ce_now r) (ce_race r) (ce_reader r) s p = (Ok True, p', ms)"
      using that by (simp add: cps_policy_def)
    from cps_authorize_cases [OF this tr] consider "d1 = Some True"
      | "fst (lookup (ce_reader r) s p1) = Ok True" by auto
    then show ?thesis
      using cps_try_sound [OF laws g] tr root unfolding on_chain_def lookup_allow_iff by cases blast+
  qed
  show "cps_granted view root (if a = Ok True then insert s G else G) p'"
    if "pol_authorize (cps_policy ops) r s p = (a, p', ms)"
  proof -
    have run: "cps_authorize ops (ce_now r) (ce_race r) (ce_reader r) s p = (a, p', ms)"
      using that by (simp add: cps_policy_def)
    from cps_authorize_cases [OF this tr]
    consider b where "a = Ok b" "d1 = Some b" "p' = p1"
      | e where "a = Err e" "ca_root p' = ca_root p1" "ca_cache p' = ca_cache p1"
      | b p2 now' ms2 where "a = Ok b" "ca_root p2 = ca_root p1" "ca_cache p2 = ca_cache p1"
          "store ops now' (sensor_bytes s) b p2 = (p', ms2)"
      using lookup_frame by (smt (verit, best))
    then show ?thesis
    proof cases
      case (1 b)
      then show ?thesis using g1 by (auto simp: cps_granted_def)
    next
      case (2 e)
      then show ?thesis using cps_granted_mono [OF g1, of p'] by simp
    next
      case (3 b p2 now' ms2)
      then have "cps_granted view root G p2" using cps_granted_mono [OF g1, of p2] by simp
      from cps_granted_store [OF laws this 3(4)] 3(1) show ?thesis by simp
    qed
  qed
qed

lemma whitelist_lines_eq:
  "whitelist_lines parse n ls allowed =
     (let es = filter (\<lambda>(n, l). l \<noteq> [])
                 (map (\<lambda>(n, raw). (n, trim (split_first (CHR ''#'') raw))) (enumerate n ls))
      in case find (\<lambda>(n, l). isl (parse l)) es of
           Some (m, l) \<Rightarrow> Err (''line '' @ show_nat m @ '': '' @ projl (parse l))
         | None \<Rightarrow> Ok (allowed \<union> set (map (\<lambda>(n, l). projr (parse l)) es)))"
  by (induction ls arbitrary: n allowed)
    (auto simp: Let_def split: sum.splits option.splits)

section \<open>Properties\<close>

text \<open>C20. The CPS policy grants exactly the strict descendants of the configured root: a lookup
  answers \<open>Ok(true)\<close> iff the chain check passed (now or before), a finalized snapshot could be
  pinned, and in it the sensor is bound to a node other than the root that has the root among its
  first 256 ancestors. The visited set and the early exits of the loop lose no descendant.\<close>

theorem cps_lookup_grants_descendants:
  "fst (lookup reader s p) = Ok True \<longleftrightarrow>
     (ca_verified p \<or> rd_verify reader = Ok ()) \<and>
     (\<exists>sn. rd_snapshot reader = Ok sn \<and> below_root sn (ca_root p) s)"
  by (rule lookup_allow_iff)

text \<open>A denial is a fact about the tree, never a failed query: when a lookup answers
  \<open>Ok(false)\<close>, the snapshot was read, and the sensor is unbound, or bound to the root itself, or
  bound to a node below another top-level node, with the configured root an ancestor at no depth
  whatsoever.\<close>

lemma cps_lookup_denies_outsiders:
  assumes "fst (lookup reader s p) = Ok False"
  shows "\<exists>sn. rd_snapshot reader = Ok sn \<and>
    (snap_node_of sn s = Ok None \<or> snap_node_of sn s = Ok (Some (ca_root p)) \<or>
     (\<exists>n. snap_node_of sn s = Ok (Some n) \<and> (\<forall>k. ancestor sn k n \<noteq> Some (ca_root p)) \<and>
       (\<exists>k m. ancestor sn k n = Some m \<and> snap_lineage sn m = Ok Root)))"
proof -
  from lookup_cases [OF prod.collapse [symmetric] assms] obtain sn nd where
    sn: "rd_snapshot reader = Ok sn" and nd: "snap_node_of sn s = Ok nd"
    and c: "case nd of None \<Rightarrow> \<not> False
         | Some n \<Rightarrow> if n = ca_root p then \<not> False
                    else cps_walk MAX_ANCESTOR_DEPTH sn (ca_root p) n {n} = Ok False"
    by blast
  show ?thesis
  proof (cases "nd = None \<or> nd = Some (ca_root p)")
    case False
    then obtain n where n: "nd = Some n" "n \<noteq> ca_root p" by auto
    with c obtain k m where k: "ancestor sn k n = Some m" "snap_lineage sn m = Ok Root"
      "\<forall>j\<in>{1..k}. ancestor sn j n \<noteq> Some (ca_root p)" using cps_walk_deny by fastforce
    have "ancestor sn j n \<noteq> Some (ca_root p)" for j
    proof (cases "j \<le> k")
      case True
      then show ?thesis using k(3) n(2) by (cases "j = 0") auto
    qed (use ancestor_past_Root [OF k(1,2)] in simp)
    then show ?thesis using sn nd n k by blast
  qed (use sn nd in auto)
qed

text \<open>What the CPS cache remembers. An error (chain unreachable, wrong chain, timeout, corrupt
  tree) adds nothing to it; a grant is stored without expiry; a denial is stored with an expiry
  that is either still ahead (a hit) or the storing time plus \<open>negative_ttl\<close>. A stored grant is
  answered from the cache whatever the clock, the chain and the timeout do.\<close>

lemma cps_authorize_caching:
  assumes laws: "lru_laws ops view cap" and ok: "cache_ok view p"
    and run: "cps_authorize ops now race reader s p = (r, p', ms)"
  shows "cache_ok view p' \<and>
    (case r of
       Err e \<Rightarrow> view (ca_cache p') \<subseteq>\<^sub>m view (ca_cache p)
     | Ok b \<Rightarrow> (\<exists>x. view (ca_cache p') (sensor_bytes s) =
                   Some \<lparr>en_allowed = b, en_expires = (if b then None else Some x)\<rparr> \<and>
                 (b \<or> now < x \<or> (\<exists>now'. race = InTime now' \<and> x = now' + ca_negative_ttl p)))) \<and>
    (view (ca_cache p) (sensor_bytes s) = Some \<lparr>en_allowed = True, en_expires = None\<rparr> \<longrightarrow> r = Ok True)"
proof -
  obtain d p1 ms1 where tr: "cps_try_authorize ops now s p = (d, p1, ms1)"
    by (cases "cps_try_authorize ops now s p")
  note v = cps_try_view [OF laws tr] and le = cps_try_view_le [OF laws tr]
  have ok1: "cache_ok view p1" using cache_ok_mono [OF ok le] .
  have hit: "\<exists>e. view (ca_cache p1) (sensor_bytes s) = Some e \<and> en_allowed e = b \<and>
      (\<forall>x. en_expires e = Some x \<longrightarrow> now < x)" if "d = Some b" for b
    using v(1,2) that by (fastforce split: option.splits if_splits)
  have hit': "\<exists>x. view (ca_cache p1) (sensor_bytes s) =
      Some \<lparr>en_allowed = b, en_expires = (if b then None else Some x)\<rparr> \<and> (b \<or> now < x)"
    if b: "d = Some b" for b
  proof -
    obtain e where e: "view (ca_cache p1) (sensor_bytes s) = Some e" "en_allowed e = b"
      "\<forall>x. en_expires e = Some x \<longrightarrow> now < x" using hit [OF b] by blast
    then show ?thesis using ok1 unfolding cache_ok_def
      by (cases e; cases b; cases "en_expires e") force+
  qed
  have keep: "view (ca_cache p) (sensor_bytes s) = Some \<lparr>en_allowed = True, en_expires = None\<rparr> \<Longrightarrow>
      d = Some True" using v(1) by simp
  from cps_authorize_cases [OF run tr]
  consider b where "d = Some b" "r = Ok b" "p' = p1"
    | e where "d = None" "r = Err e" "ca_cache p' = ca_cache p1"
    | b p2 now' ms2 where "d = None" "r = Ok b" "ca_cache p2 = ca_cache p1"
        "ca_negative_ttl p2 = ca_negative_ttl p1" "race = InTime now'"
        "store ops now' (sensor_bytes s) b p2 = (p', ms2)"
    using lookup_frame by (smt (verit, best))
  then show ?thesis
  proof cases
    case (1 b)
    then show ?thesis using hit' [OF 1(1)] ok1 keep by auto
  next
    case (2 e)
    then show ?thesis using le ok1 keep by (auto simp: cache_ok_def)
  next
    case (3 b p2 now' ms2)
    note st = store_view [OF laws 3(6)]
    have "cache_ok view p'" unfolding cache_ok_def
    proof (intro allI impI)
      fix k e assume k: "view (ca_cache p') k = Some e"
      show "en_allowed e \<longleftrightarrow> en_expires e = None"
      proof (cases "k = sensor_bytes s")
        case False
        then show ?thesis using st(2) [OF False k] ok1 3(3) unfolding cache_ok_def by simp
      qed (use st(1) k in \<open>auto split: if_splits\<close>)
    qed
    then show ?thesis using st(1) 3 v(5) keep by auto
  qed
qed

text \<open>Over any run of calls on a fresh CPS policy, with any chain states, clock readings and
  timeouts in between, every positive answer names a sensor that some lookup of the run found
  below the configured root in a finalized snapshot.\<close>

lemma cps_grants_have_evidence:
  assumes laws: "lru_laws ops view cap" and empty: "view c0 = Map.empty"
    and run: "calls (cps_policy ops) cs (new_cps_auth root c0 ttl) = (granted, p')"
  shows "\<forall>s\<in>set granted. \<exists>r. (r, True, s) \<in> set cs \<and> on_chain root r s"
proof -
  have "cps_granted view root {} (new_cps_auth root c0 ttl)"
    by (simp add: cps_granted_def new_cps_auth_def empty)
  from auth_policy.calls_sound [OF cps_auth_policy [OF laws] this run] show ?thesis by blast
qed

text \<open>Loading a whitelist is all or nothing: comments and blank lines are skipped; when every
  entry parses, exactly the parsed identities are authorized; otherwise the load fails with the
  number of the first offending line and its parse error.\<close>

lemma whitelist_load:
  "case find (\<lambda>(n, l). isl (parse l)) (whitelist_entries contents) of
     Some (n, l) \<Rightarrow> from_str_lines parse contents =
       Err (''line '' @ show_nat n @ '': '' @ projl (parse l))
   | None \<Rightarrow> \<exists>w. from_str_lines parse contents = Ok w \<and>
       (\<forall>s. whitelist_authorize s w = Ok (\<exists>(n, l)\<in>set (whitelist_entries contents). parse l = Ok s))"
proof (cases "find (\<lambda>(n, l). isl (parse l)) (whitelist_entries contents)")
  case None
  then have p: "\<And>n l. (n, l) \<in> set (whitelist_entries contents) \<Longrightarrow> \<exists>i. parse l = Ok i"
    by (auto simp: find_None_iff isl_def) (metis sum.exhaust)
  define w where "w = \<lparr>wl_allowed = set (map (\<lambda>(n, l). projr (parse l)) (whitelist_entries contents))\<rparr>"
  have load: "from_str_lines parse contents = Ok w"
    using None unfolding from_str_lines_def whitelist_lines_eq Let_def whitelist_entries_def w_def
    by simp
  have "s \<in> wl_allowed w \<longleftrightarrow> (\<exists>(n, l)\<in>set (whitelist_entries contents). parse l = Ok s)" for s
  proof
    assume "s \<in> wl_allowed w"
    then obtain n l where "(n, l) \<in> set (whitelist_entries contents)" "s = projr (parse l)"
      unfolding w_def by auto
    with p [of n l] show "\<exists>(n, l)\<in>set (whitelist_entries contents). parse l = Ok s" by force
  next
    assume "\<exists>(n, l)\<in>set (whitelist_entries contents). parse l = Ok s"
    then show "s \<in> wl_allowed w" unfolding w_def by force
  qed
  then show ?thesis using None load by (simp add: whitelist_authorize_def)
next
  case (Some e)
  then show ?thesis unfolding from_str_lines_def whitelist_lines_eq Let_def whitelist_entries_def
    by (cases e) simp
qed

text \<open>A validated configuration builds its policy unless the whitelist file is unreadable or malformed:
  the checks of \<open>from_config\<close> repeat those of \<open>validate\<close>.\<close>

lemma validated_auth_builds:
  assumes "auth_config_ok hex_dec config" and "au_mode config \<noteq> AuthWhitelist"
  shows "\<exists>b. auth_from_config read parse lru_new hex_dec config endpoint = Ok b"
  using assms
  by (cases "au_mode config") (auto simp: auth_config_ok_def auth_from_config_def cps_from_config_def map_err_def
      split: option.splits sum.splits)

end
