(* ===== verification/AuthStage.thy ===== *)
theory AuthStage
  imports Auth Ingress
begin

text \<open>
  The asynchronous authorization stage: \<open>crates/edge/src/pipeline/authorize.rs\<close>.

  The stage parks messages whose sensor needs a lookup, runs at most \<open>max_concurrent\<close> lookups in
  the tasks of a \<open>JoinSet\<close>, and hands the messages back when their lookup is joined. A task of the
  model is \<open>Running\<close>, or \<open>Done\<close> with its decision, or \<open>Panicked\<close>: \<open>task_finish\<close> is the task's own
  step (it calls the policy), \<open>task_panic\<close> its failure, \<open>next_resolution\<close> the stage joining it.
  Tasks finish and are joined in any order, interleaved with admissions. Task identifiers come
  from the runtime; the parameter \<open>fresh\<close> picks one that no unjoined task has (\<open>fresh_ok\<close>).
\<close>

section \<open>State\<close>

record AuthLimits =
  al_max_concurrent :: nat
  al_max_pending :: nat

definition DEFAULT_MAX_CONCURRENT_LOOKUPS :: nat where
  "DEFAULT_MAX_CONCURRENT_LOOKUPS = 8"

definition DEFAULT_MAX_PENDING :: nat where
  "DEFAULT_MAX_PENDING = 256"

definition default_auth_limits :: AuthLimits where
  "default_auth_limits = \<lparr>al_max_concurrent = DEFAULT_MAX_CONCURRENT_LOOKUPS,
                          al_max_pending = DEFAULT_MAX_PENDING\<rparr>"

record Verified =
  vf_message :: IngressMessage
  vf_verified :: VerifiedEnvelope

abbreviation sensor_of :: "Verified \<Rightarrow> SensorId" where
  "sensor_of v \<equiv> ve_sensor_id (vf_verified v)"

datatype Admission = Decided bool Verified | Parked | Overflow Verified

record Resolution =
  rs_decision :: "AuthError + bool"
  rs_messages :: "Verified list"

type_synonym task_id = nat

datatype task_state = Running | Done "AuthError + bool" | Panicked

record 'p AuthStage =
  sg_policy :: 'p
  sg_limits :: AuthLimits
  sg_parked :: "(SensorId, Verified list) hashmap"
  sg_queued :: "SensorId list"
  sg_running :: "(task_id \<times> SensorId \<times> task_state) list"
  sg_running_ids :: "(task_id, SensorId) hashmap"
  sg_pending :: nat

section \<open>Operations\<close>

definition new_auth_stage :: "'p \<Rightarrow> AuthLimits \<Rightarrow> 'p AuthStage" where
  "new_auth_stage policy limits =
     \<lparr>sg_policy = policy,
      sg_limits = \<lparr>al_max_concurrent = max (al_max_concurrent limits) 1,
                   al_max_pending = max (al_max_pending limits) 1\<rparr>,
      sg_parked = [], sg_queued = [], sg_running = [], sg_running_ids = [], sg_pending = 0\<rparr>"

definition is_busy :: "'p AuthStage \<Rightarrow> bool" where
  "is_busy st \<longleftrightarrow> sg_pending st > 0"

text \<open>The loop of \<open>start_queued\<close>.\<close>

fun start_loop ::
  "(task_id list \<Rightarrow> task_id) \<Rightarrow> nat \<Rightarrow> SensorId list \<Rightarrow> (task_id \<times> SensorId \<times> task_state) list
    \<Rightarrow> (task_id, SensorId) hashmap
    \<Rightarrow> SensorId list \<times> (task_id \<times> SensorId \<times> task_state) list \<times> (task_id, SensorId) hashmap" where
  "start_loop fresh limit [] running ids = ([], running, ids)"
| "start_loop fresh limit (sensor_id # queued) running ids =
     (if length running < limit
      then let tid = fresh (map fst running)
           in start_loop fresh limit queued (running @ [(tid, sensor_id, Running)])
                (AList.update tid sensor_id ids)
      else (sensor_id # queued, running, ids))"

definition start_queued :: "(task_id list \<Rightarrow> task_id) \<Rightarrow> 'p AuthStage \<Rightarrow> 'p AuthStage" where
  "start_queued fresh st =
     (let (queued, running, ids) =
            start_loop fresh (al_max_concurrent (sg_limits st)) (sg_queued st) (sg_running st)
              (sg_running_ids st)
      in st\<lparr>sg_queued := queued, sg_running := running, sg_running_ids := ids\<rparr>)"

definition publish :: "'p AuthStage \<Rightarrow> metric list" where
  "publish st = [Gauge AUTH_PENDING (sg_pending st),
                 Gauge AUTH_LOOKUPS_IN_FLIGHT (length (sg_running st))]"

definition admit ::
  "(task_id list \<Rightarrow> task_id) \<Rightarrow> ('p, 'r) AuthPolicy \<Rightarrow> 'r \<Rightarrow> Verified \<Rightarrow> 'p AuthStage
    \<Rightarrow> Admission \<times> 'p AuthStage \<times> metric list" where
  "admit fresh pol r message st =
     (case pol_try pol r (sensor_of message) (sg_policy st) of
        (Some allowed, p', ms) \<Rightarrow> (Decided allowed message, st\<lparr>sg_policy := p'\<rparr>, ms)
      | (None, p', ms) \<Rightarrow>
          let st1 = st\<lparr>sg_policy := p'\<rparr> in
          if sg_pending st1 \<ge> al_max_pending (sg_limits st1) then (Overflow message, st1, ms)
          else
            let st2 = st1\<lparr>sg_pending := sg_pending st1 + 1\<rparr>;
                sensor_id = sensor_of message;
                st3 = (case map_of (sg_parked st2) sensor_id of
                         Some waiting \<Rightarrow>
                           st2\<lparr>sg_parked := AList.update sensor_id (waiting @ [message]) (sg_parked st2)\<rparr>
                       | None \<Rightarrow>
                           start_queued fresh
                             (st2\<lparr>sg_parked := AList.update sensor_id [message] (sg_parked st2),
                                  sg_queued := sg_queued st2 @ [sensor_id]\<rparr>))
            in (Parked, st3, ms @ publish st3))"

text \<open>The body of a spawned task: it asks the policy and keeps the answer for whoever joins it.\<close>

definition set_task :: "task_id \<Rightarrow> task_state \<Rightarrow> 'p AuthStage \<Rightarrow> 'p AuthStage" where
  "set_task tid state st =
     st\<lparr>sg_running := map (\<lambda>(t, s, ts). if t = tid then (t, s, state) else (t, s, ts)) (sg_running st)\<rparr>"

definition task_finish ::
  "('p, 'r) AuthPolicy \<Rightarrow> 'r \<Rightarrow> task_id \<Rightarrow> 'p AuthStage \<Rightarrow> ('p AuthStage \<times> metric list) option" where
  "task_finish pol r tid st =
     (case map_of (sg_running st) tid of
        Some (sensor_id, Running) \<Rightarrow>
          (case pol_authorize pol r sensor_id (sg_policy st) of
             (decision, p', ms) \<Rightarrow> Some (set_task tid (Done decision) (st\<lparr>sg_policy := p'\<rparr>), ms))
      | _ \<Rightarrow> None)"

definition task_panic :: "task_id \<Rightarrow> 'p AuthStage \<Rightarrow> 'p AuthStage option" where
  "task_panic tid st =
     (case map_of (sg_running st) tid of
        Some (_, Running) \<Rightarrow> Some (set_task tid Panicked st)
      | _ \<Rightarrow> None)"

text \<open>\<open>join_next_with_id\<close> returns some finished task; \<open>tid\<close> says which. \<open>None\<close> means that the call
  waits.\<close>

definition next_resolution ::
  "(task_id list \<Rightarrow> task_id) \<Rightarrow> task_id \<Rightarrow> 'p AuthStage
    \<Rightarrow> (Resolution \<times> 'p AuthStage \<times> metric list) option" where
  "next_resolution fresh tid st =
     (let joined = (case map_of (sg_running st) tid of
                      None \<Rightarrow> None
                    | Some (_, Running) \<Rightarrow> None
                    | Some (sensor_id, Done decision) \<Rightarrow> Some (sensor_id, decision)
                    | Some (_, Panicked) \<Rightarrow>
                        (case map_of (sg_running_ids st) tid of
                           None \<Rightarrow> None
                         | Some sensor_id \<Rightarrow> Some (sensor_id, Err (Lookup ''lookup task failed''))))
      in case joined of
           None \<Rightarrow> None
         | Some (sensor_id, decision) \<Rightarrow>
             let messages = (case map_of (sg_parked st) sensor_id of None \<Rightarrow> [] | Some ms \<Rightarrow> ms);
                 st1 = st\<lparr>sg_running := AList.delete tid (sg_running st),
                          sg_running_ids := AList.delete tid (sg_running_ids st),
                          sg_parked := AList.delete sensor_id (sg_parked st),
                          sg_pending := sg_pending st - length messages\<rparr>;
                 st2 = start_queued fresh st1
             in Some (\<lparr>rs_decision = decision, rs_messages = messages\<rparr>, st2, publish st2))"

section \<open>Specification\<close>

definition fresh_ok :: "(task_id list \<Rightarrow> task_id) \<Rightarrow> bool" where
  "fresh_ok fresh \<longleftrightarrow> (\<forall>xs. fresh xs \<notin> set xs)"

abbreviation task_sensors :: "'p AuthStage \<Rightarrow> SensorId list" where
  "task_sensors st \<equiv> map (fst \<circ> snd) (sg_running st)"

text \<open>The invariant: \<open>pending\<close> counts the parked messages; every parked sensor has exactly one
  lookup, queued or running; the bounds hold; a queue only forms when all slots are taken; the
  table of task identifiers names the unjoined tasks.\<close>

definition stage_ok :: "'p AuthStage \<Rightarrow> bool" where
  "stage_ok st \<longleftrightarrow>
     hashmap_ok (sg_parked st) \<and> hashmap_ok (sg_running_ids st) \<and> distinct (map fst (sg_running st)) \<and>
     (\<forall>(s, ms) \<in> set (sg_parked st). ms \<noteq> [] \<and> (\<forall>m\<in>set ms. sensor_of m = s)) \<and>
     sg_pending st = sum_list (map (length \<circ> snd) (sg_parked st)) \<and>
     distinct (sg_queued st @ task_sensors st) \<and>
     set (sg_queued st @ task_sensors st) = fst ` set (sg_parked st) \<and>
     map_of (sg_running_ids st) = map_of (map (\<lambda>(t, s, ts). (t, s)) (sg_running st)) \<and>
     1 \<le> al_max_concurrent (sg_limits st) \<and> 1 \<le> al_max_pending (sg_limits st) \<and>
     sg_pending st \<le> al_max_pending (sg_limits st) \<and>
     length (sg_running st) \<le> al_max_concurrent (sg_limits st) \<and>
     (sg_queued st \<noteq> [] \<longrightarrow> length (sg_running st) = al_max_concurrent (sg_limits st))"

text \<open>The abstract view: per sensor, the messages that wait, in arrival order.\<close>

definition waiting :: "'p AuthStage \<Rightarrow> SensorId \<Rightarrow> Verified list" where
  "waiting st s = (case map_of (sg_parked st) s of None \<Rightarrow> [] | Some ms \<Rightarrow> ms)"

text \<open>The states the stage goes through.\<close>

inductive stage_step ::
  "(task_id list \<Rightarrow> task_id) \<Rightarrow> ('p, 'r) AuthPolicy \<Rightarrow> 'p AuthStage \<Rightarrow> 'p AuthStage \<Rightarrow> bool"
  for fresh pol where
  step_admit: "admit fresh pol r m st = (a, st', ms) \<Longrightarrow> stage_step fresh pol st st'"
| step_finish: "task_finish pol r tid st = Some (st', ms) \<Longrightarrow> stage_step fresh pol st st'"
| step_panic: "task_panic tid st = Some st' \<Longrightarrow> stage_step fresh pol st st'"
| step_join: "next_resolution fresh tid st = Some (res, st', ms) \<Longrightarrow> stage_step fresh pol st st'"

inductive_cases stage_stepE: "stage_step fresh pol st st'"

section \<open>Starting lookups\<close>

lemma start_loop_sensors:
  "start_loop fresh limit q run ids = (q', run', ids') \<Longrightarrow>
   \<exists>k. q' = drop k q \<and> map (fst \<circ> snd) run' = map (fst \<circ> snd) run @ take k q"
proof (induction fresh limit q run ids rule: start_loop.induct)
  case (2 fresh limit s q run ids)
  show ?case
  proof (cases "length run < limit")
    case True
    then obtain k where "q' = drop k q"
      "map (fst \<circ> snd) run' = map (fst \<circ> snd) (run @ [(fresh (map fst run), s, Running)]) @ take k q"
      using 2 by (metis start_loop.simps(2))
    then show ?thesis by (intro exI [of _ "Suc k"]) (simp add: comp_def)
  next
    case False
    then show ?thesis using "2.prems" by (intro exI [of _ 0]) auto
  qed
qed auto

lemma start_loop_bounds:
  "start_loop fresh limit q run ids = (q', run', ids') \<Longrightarrow> length run \<le> limit \<Longrightarrow>
   length run' \<le> limit \<and> (q' \<noteq> [] \<longrightarrow> length run' = limit)"
  by (induction fresh limit q run ids rule: start_loop.induct) (auto simp: Let_def split: if_splits)

lemma start_loop_ids:
  "start_loop fresh limit q run ids = (q', run', ids') \<Longrightarrow> fresh_ok fresh \<Longrightarrow>
   distinct (map fst run) \<Longrightarrow> hashmap_ok ids \<Longrightarrow>
   map_of ids = map_of (map (\<lambda>(t, s, ts). (t, s)) run) \<Longrightarrow>
   distinct (map fst run') \<and> hashmap_ok ids' \<and>
   map_of ids' = map_of (map (\<lambda>(t, s, ts). (t, s)) run')"
proof (induction fresh limit q run ids rule: start_loop.induct)
  case (2 fresh limit s q run ids)
  show ?case
  proof (cases "length run < limit")
    case True
    define tid where "tid = fresh (map fst run)"
    have new: "tid \<notin> set (map fst run)"
      using "2.prems"(2) unfolding fresh_ok_def tid_def by blast
    have "map_of (map (\<lambda>(t, s, ts). (t, s)) run) tid = None"
      using new by (force simp: map_of_eq_None_iff)
    then have "map_of (AList.update tid s ids) =
        map_of (map (\<lambda>(t, s, ts). (t, s)) (run @ [(tid, s, Running)]))"
      using "2.prems"(5) by (auto simp: update_conv fun_eq_iff map_add_def split: option.splits)
    moreover have "hashmap_ok (AList.update tid s ids)"
      using "2.prems"(4) by (simp add: hashmap_ok_def distinct_update)
    moreover have "distinct (map fst (run @ [(tid, s, Running)]))"
      using "2.prems"(3) new by auto
    moreover have "start_loop fresh limit q (run @ [(tid, s, Running)]) (AList.update tid s ids) = (q', run', ids')"
      using "2.prems"(1) True by (simp add: tid_def Let_def)
    ultimately show ?thesis using "2.IH" [OF True tid_def] "2.prems"(2) by blast
  qed (use "2.prems" in auto)
qed auto

text \<open>What \<open>start_queued\<close> needs and restores.\<close>

definition stage_core :: "'p AuthStage \<Rightarrow> bool" where
  "stage_core st \<longleftrightarrow>
     hashmap_ok (sg_parked st) \<and> hashmap_ok (sg_running_ids st) \<and> distinct (map fst (sg_running st)) \<and>
     (\<forall>(s, ms) \<in> set (sg_parked st). ms \<noteq> [] \<and> (\<forall>m\<in>set ms. sensor_of m = s)) \<and>
     sg_pending st = sum_list (map (length \<circ> snd) (sg_parked st)) \<and>
     distinct (sg_queued st @ task_sensors st) \<and>
     set (sg_queued st @ task_sensors st) = fst ` set (sg_parked st) \<and>
     map_of (sg_running_ids st) = map_of (map (\<lambda>(t, s, ts). (t, s)) (sg_running st)) \<and>
     1 \<le> al_max_concurrent (sg_limits st) \<and> 1 \<le> al_max_pending (sg_limits st) \<and>
     sg_pending st \<le> al_max_pending (sg_limits st) \<and>
     length (sg_running st) \<le> al_max_concurrent (sg_limits st)"

lemma stage_ok_core:
  "stage_ok st \<longleftrightarrow> stage_core st \<and>
     (sg_queued st \<noteq> [] \<longrightarrow> length (sg_running st) = al_max_concurrent (sg_limits st))"
  unfolding stage_ok_def stage_core_def by blast

lemma start_queued_frame [simp]:
  "sg_parked (start_queued fresh st) = sg_parked st" "sg_pending (start_queued fresh st) = sg_pending st"
  "sg_limits (start_queued fresh st) = sg_limits st" "sg_policy (start_queued fresh st) = sg_policy st"
  by (simp_all add: start_queued_def split: prod.splits)

lemma start_queued_ok:
  assumes "stage_core st" and "fresh_ok fresh"
  shows "stage_ok (start_queued fresh st)"
proof -
  obtain q run ids where l: "start_loop fresh (al_max_concurrent (sg_limits st)) (sg_queued st)
      (sg_running st) (sg_running_ids st) = (q, run, ids)" by (metis surj_pair)
  obtain k where k: "q = drop k (sg_queued st)"
    "map (fst \<circ> snd) run = task_sensors st @ take k (sg_queued st)"
    using start_loop_sensors [OF l] by blast
  have perm: "mset (q @ map (fst \<circ> snd) run) = mset (sg_queued st @ task_sensors st)"
  proof -
    have "mset (sg_queued st) = mset (take k (sg_queued st)) + mset (drop k (sg_queued st))"
      by (metis append_take_drop_id mset_append)
    then show ?thesis unfolding k mset_append by simp
  qed
  note c = assms(1) [unfolded stage_core_def]
  have "distinct (q @ map (fst \<circ> snd) run)" "set (q @ map (fst \<circ> snd) run) = fst ` set (sg_parked st)"
    using c mset_eq_setD [OF perm] mset_eq_imp_distinct_iff [OF perm] by auto
  moreover have "distinct (map fst run)" "hashmap_ok ids"
    "map_of ids = map_of (map (\<lambda>(t, s, ts). (t, s)) run)"
    using start_loop_ids [OF l assms(2)] c by auto
  moreover have "length run \<le> al_max_concurrent (sg_limits st)"
    "q \<noteq> [] \<longrightarrow> length run = al_max_concurrent (sg_limits st)"
    using start_loop_bounds [OF l] c by auto
  ultimately show ?thesis using c unfolding stage_ok_def start_queued_def l by simp
qed

section \<open>The operations keep the invariant\<close>

lemma new_auth_stage_ok: "stage_ok (new_auth_stage p limits)"
  by (simp add: stage_ok_def new_auth_stage_def hashmap_ok_def)

lemma sum_list_update_old:
  "distinct (map fst m) \<Longrightarrow> map_of m k = Some v \<Longrightarrow>
   sum_list (map (length \<circ> snd) (AList.update k v' m)) + length v =
   sum_list (map (length \<circ> snd) m) + length v'"
proof (induction m)
  case (Cons x m)
  then show ?case by (cases x; cases "fst x = k") auto
qed simp

lemma sum_list_update_new:
  "map_of m k = None \<Longrightarrow>
   sum_list (map (length \<circ> snd) (AList.update k v m)) = sum_list (map (length \<circ> snd) m) + length v"
  by (induction m) (auto split: if_splits)

lemma sum_list_delete:
  "distinct (map fst m) \<Longrightarrow> map_of m k = Some v \<Longrightarrow>
   sum_list (map (length \<circ> snd) (AList.delete k m)) + length v = sum_list (map (length \<circ> snd) m)"
proof (induction m)
  case (Cons x m)
  show ?case
  proof (cases "fst x = k")
    case True
    then have "AList.delete k m = m" using Cons.prems(1) by (auto intro: delete_id)
    then show ?thesis using Cons.prems True by (cases x) auto
  next
    case False
    then show ?thesis using Cons by (cases x) auto
  qed
qed simp

lemma stage_ok_policy [simp]: "stage_ok (st\<lparr>sg_policy := p\<rparr>) = stage_ok st"
  by (simp add: stage_ok_def)

lemma admit_cases:
  assumes "admit fresh pol r m st = (a, st', ms)"
  obtains (decided) d p ms' where "pol_try pol r (sensor_of m) (sg_policy st) = (Some d, p, ms')"
      "a = Decided d m" "st' = st\<lparr>sg_policy := p\<rparr>"
  | (overflow) p where "a = Overflow m" "st' = st\<lparr>sg_policy := p\<rparr>"
      "al_max_pending (sg_limits st) \<le> sg_pending st"
  | (join) p ws where "a = Parked" "sg_pending st < al_max_pending (sg_limits st)"
      "map_of (sg_parked st) (sensor_of m) = Some ws"
      "st' = st\<lparr>sg_policy := p, sg_pending := sg_pending st + 1,
        sg_parked := AList.update (sensor_of m) (ws @ [m]) (sg_parked st)\<rparr>"
  | (park) p where "a = Parked" "sg_pending st < al_max_pending (sg_limits st)"
      "map_of (sg_parked st) (sensor_of m) = None"
      "st' = start_queued fresh (st\<lparr>sg_policy := p, sg_pending := sg_pending st + 1,
        sg_parked := AList.update (sensor_of m) [m] (sg_parked st),
        sg_queued := sg_queued st @ [sensor_of m]\<rparr>)"
  using assms
  by (auto simp: admit_def Let_def not_le split: prod.splits option.splits if_splits)

lemma stage_okD:
  assumes "stage_ok st"
  shows "hashmap_ok (sg_parked st)" "hashmap_ok (sg_running_ids st)" "distinct (map fst (sg_running st))"
    and "\<And>s ms. map_of (sg_parked st) s = Some ms \<Longrightarrow> ms \<noteq> [] \<and> (\<forall>m\<in>set ms. sensor_of m = s)"
    and "sg_pending st = sum_list (map (length \<circ> snd) (sg_parked st))"
    and "distinct (sg_queued st @ task_sensors st)"
    and "set (sg_queued st @ task_sensors st) = fst ` set (sg_parked st)"
    and "map_of (sg_running_ids st) = map_of (map (\<lambda>(t, s, ts). (t, s)) (sg_running st))"
    and "1 \<le> al_max_concurrent (sg_limits st)" "1 \<le> al_max_pending (sg_limits st)"
    and "sg_pending st \<le> al_max_pending (sg_limits st)"
    and "length (sg_running st) \<le> al_max_concurrent (sg_limits st)"
    and "sg_queued st \<noteq> [] \<Longrightarrow> length (sg_running st) = al_max_concurrent (sg_limits st)"
  using assms map_of_SomeD [of "sg_parked st"] unfolding stage_ok_def by (blast, blast, blast, fast, blast+)

lemma parked_update_ok:
  assumes "\<forall>(s, ms) \<in> set m. ms \<noteq> [] \<and> (\<forall>x\<in>set ms. sensor_of x = s)"
    and "hashmap_ok m" "vs \<noteq> []" and "\<forall>x\<in>set vs. sensor_of x = k"
  shows "\<forall>(s, ms) \<in> set (AList.update k vs m). ms \<noteq> [] \<and> (\<forall>x\<in>set ms. sensor_of x = s)"
proof -
  have "ms \<noteq> [] \<and> (\<forall>x\<in>set ms. sensor_of x = s)" if "(s, ms) \<in> set (AList.update k vs m)" for s ms
  proof -
    have "map_of (AList.update k vs m) s = Some ms"
      using that assms(2) by (intro map_of_is_SomeI) (simp_all add: hashmap_ok_def distinct_update)
    then show ?thesis using assms(1,3,4) by (auto simp: update_conv split: if_splits dest!: map_of_SomeD)
  qed
  then show ?thesis by blast
qed

lemma admit_ok:
  assumes ok: "stage_ok st" and fr: "fresh_ok fresh" and run: "admit fresh pol r m st = (a, st', ms)"
  shows "stage_ok st'"
  using run
proof (cases rule: admit_cases)
  case (join p ws)
  note inv = stage_okD [OF ok]
  have keys: "fst ` set (AList.update (sensor_of m) (ws @ [m]) (sg_parked st)) = fst ` set (sg_parked st)"
    using join(3) by (simp add: dom_map_of_conv_image_fst [symmetric] update_conv' insert_absorb domI)
  have "\<forall>(s, ms) \<in> set (sg_parked st). ms \<noteq> [] \<and> (\<forall>m\<in>set ms. sensor_of m = s)"
    using ok unfolding stage_ok_def by blast
  from parked_update_ok [OF this inv(1), of "ws @ [m]" "sensor_of m"]
  have "\<forall>(s, ms) \<in> set (AList.update (sensor_of m) (ws @ [m]) (sg_parked st)).
      ms \<noteq> [] \<and> (\<forall>x\<in>set ms. sensor_of x = s)" using inv(4) [OF join(3)] by auto
  moreover have "sg_pending st + 1 =
      sum_list (map (length \<circ> snd) (AList.update (sensor_of m) (ws @ [m]) (sg_parked st)))"
    using sum_list_update_old [OF inv(1) [unfolded hashmap_ok_def] join(3), of "ws @ [m]"] inv(5) by simp
  moreover have "hashmap_ok (AList.update (sensor_of m) (ws @ [m]) (sg_parked st))"
    using inv(1) by (simp add: hashmap_ok_def distinct_update)
  ultimately show ?thesis
    using inv join(2) keys unfolding join(4) stage_ok_def by simp
next
  case (park p)
  note inv = stage_okD [OF ok]
  have new: "sensor_of m \<notin> fst ` set (sg_parked st)" using park(3) by (simp add: map_of_eq_None_iff)
  then have new': "sensor_of m \<notin> set (sg_queued st @ task_sensors st)" using inv(7) by simp
  have keys: "fst ` set (AList.update (sensor_of m) [m] (sg_parked st)) =
      insert (sensor_of m) (fst ` set (sg_parked st))"
    by (simp add: dom_map_of_conv_image_fst [symmetric] update_conv')
  have "\<forall>(s, ms) \<in> set (sg_parked st). ms \<noteq> [] \<and> (\<forall>m\<in>set ms. sensor_of m = s)"
    using ok unfolding stage_ok_def by blast
  from parked_update_ok [OF this inv(1), of "[m]" "sensor_of m"]
  have vals: "\<forall>(s, ms) \<in> set (AList.update (sensor_of m) [m] (sg_parked st)).
      ms \<noteq> [] \<and> (\<forall>x\<in>set ms. sensor_of x = s)" by auto
  have sum: "sg_pending st + 1 =
      sum_list (map (length \<circ> snd) (AList.update (sensor_of m) [m] (sg_parked st)))"
    using sum_list_update_new [OF park(3), of "[m]"] inv(5) by simp
  have hm: "hashmap_ok (AList.update (sensor_of m) [m] (sg_parked st))"
    using inv(1) by (simp add: hashmap_ok_def distinct_update)
  show ?thesis unfolding park(4)
    by (rule start_queued_ok [OF _ fr], unfold stage_core_def)
      (use inv park(2) new' keys vals sum hm in \<open>auto simp del: comp_apply\<close>)
qed (use ok in auto)

lemma set_task_simps [simp]:
  "map fst (sg_running (set_task tid ts st)) = map fst (sg_running st)"
  "task_sensors (set_task tid ts st) = task_sensors st"
  "map (\<lambda>(t, s, x). (t, s)) (sg_running (set_task tid ts st)) = map (\<lambda>(t, s, x). (t, s)) (sg_running st)"
  "length (sg_running (set_task tid ts st)) = length (sg_running st)"
  "sg_parked (set_task tid ts st) = sg_parked st" "sg_pending (set_task tid ts st) = sg_pending st"
  "sg_queued (set_task tid ts st) = sg_queued st" "sg_limits (set_task tid ts st) = sg_limits st"
  "sg_running_ids (set_task tid ts st) = sg_running_ids st" "sg_policy (set_task tid ts st) = sg_policy st"
  by (auto simp: set_task_def case_prod_beta)

lemma set_task_ok: "stage_ok st \<Longrightarrow> stage_ok (set_task tid ts st)"
  unfolding stage_ok_def by simp

lemma task_finish_ok: "stage_ok st \<Longrightarrow> task_finish pol r tid st = Some (st', ms) \<Longrightarrow> stage_ok st'"
  by (auto simp: task_finish_def intro!: set_task_ok split: option.splits prod.splits task_state.splits)

lemma task_panic_ok: "stage_ok st \<Longrightarrow> task_panic tid st = Some st' \<Longrightarrow> stage_ok st'"
  by (auto simp: task_panic_def intro!: set_task_ok split: option.splits prod.splits task_state.splits)

text \<open>The decision of a finished task.\<close>

definition task_decision :: "task_state \<Rightarrow> AuthError + bool" where
  "task_decision ts = (case ts of Done d \<Rightarrow> d | _ \<Rightarrow> Err (Lookup ''lookup task failed''))"

lemma running_id:
  assumes "stage_ok st" and "map_of (sg_running st) tid = Some (s, ts)"
  shows "map_of (sg_running_ids st) tid = Some s"
proof -
  have "map_of (map (\<lambda>(t, s, ts). (t, s)) run) tid = map_option fst (map_of run tid)"
    for run :: "(task_id \<times> SensorId \<times> task_state) list"
    by (induction run) auto
  then show ?thesis using assms(2) by (simp add: stage_okD(8) [OF assms(1)])
qed

lemma running_parked:
  assumes "stage_ok st" and "map_of (sg_running st) tid = Some (s, ts)"
  shows "\<exists>ws. map_of (sg_parked st) s = Some ws"
proof -
  have "s \<in> set (task_sensors st)" using map_of_SomeD [OF assms(2)] by force
  then have "s \<in> fst ` set (sg_parked st)" using stage_okD(7) [OF assms(1)] by auto
  then show ?thesis by (metis map_of_eq_None_iff not_None_eq)
qed

lemma next_resolution_eq:
  assumes "stage_ok st" and "map_of (sg_running st) tid = Some (s, ts)" and "ts \<noteq> Running"
    and "map_of (sg_parked st) s = Some ws"
  shows "next_resolution fresh tid st =
    (let st' = start_queued fresh
       (st\<lparr>sg_running := AList.delete tid (sg_running st),
           sg_running_ids := AList.delete tid (sg_running_ids st),
           sg_parked := AList.delete s (sg_parked st), sg_pending := sg_pending st - length ws\<rparr>)
     in Some (\<lparr>rs_decision = task_decision ts, rs_messages = ws\<rparr>, st', publish st'))"
  using assms(2-4) running_id [OF assms(1,2)]
  by (cases ts) (simp_all add: next_resolution_def task_decision_def Let_def)

lemma next_resolution_task:
  assumes "next_resolution fresh tid st = Some (res, st', ms)"
  shows "\<exists>s ts. map_of (sg_running st) tid = Some (s, ts) \<and> ts \<noteq> Running"
  using assms
  by (auto simp: next_resolution_def Let_def split: option.splits task_state.splits prod.splits)

lemma delete_task_sensors:
  assumes "distinct (map fst run)" and "map_of run tid = Some (s, ts)"
    and "distinct (map (fst \<circ> snd) run)"
  shows "set (map (fst \<circ> snd) (AList.delete tid run)) = set (map (fst \<circ> snd) run) - {s}"
    and "distinct (map (fst \<circ> snd) (AList.delete tid run))"
proof -
  have del: "AList.delete tid run = filter (\<lambda>x. fst x \<noteq> tid) run"
    unfolding AList.delete_eq by (rule filter_cong) auto
  show "distinct (map (fst \<circ> snd) (AList.delete tid run))"
    unfolding del using assms(3) by (rule distinct_map_filter)
  have in_run: "(tid, s, ts) \<in> set run" using assms(2) by (rule map_of_SomeD)
  have "fst x = tid \<longleftrightarrow> fst (snd x) = s" if "x \<in> set run" for x
    using that in_run assms(1,3) by (metis (no_types, lifting) comp_apply distinct_map fst_conv inj_onD snd_conv)
  then show "set (map (fst \<circ> snd) (AList.delete tid run)) = set (map (fst \<circ> snd) run) - {s}"
    unfolding del by auto
qed

lemma delete_running_ids:
  "map_of ids = map_of (map (\<lambda>(t, s, ts). (t, s)) run) \<Longrightarrow>
   map_of (AList.delete tid ids) = map_of (map (\<lambda>(t, s, ts). (t, s)) (AList.delete tid run))"
proof -
  assume h: "map_of ids = map_of (map (\<lambda>(t, s, ts). (t, s)) run)"
  have "map (\<lambda>(t, s, ts). (t, s)) (AList.delete tid run) =
      AList.delete tid (map (\<lambda>(t, s, ts). (t, s)) run)"
    by (induction run) auto
  then show ?thesis using h by (simp add: delete_conv')
qed

lemma next_resolution_ok:
  assumes ok: "stage_ok st" and fr: "fresh_ok fresh"
    and join: "next_resolution fresh tid st = Some (res, st', ms)"
  shows "stage_ok st'"
proof -
  obtain s ts where t: "map_of (sg_running st) tid = Some (s, ts)" "ts \<noteq> Running"
    using next_resolution_task [OF join] by blast
  obtain ws where ws: "map_of (sg_parked st) s = Some ws" using running_parked [OF ok t(1)] by blast
  note inv = stage_okD [OF ok]
  define st1 where "st1 = st\<lparr>sg_running := AList.delete tid (sg_running st),
           sg_running_ids := AList.delete tid (sg_running_ids st),
           sg_parked := AList.delete s (sg_parked st), sg_pending := sg_pending st - length ws\<rparr>"
  have st': "st' = start_queued fresh st1"
    using join next_resolution_eq [OF ok t ws] by (simp add: st1_def Let_def)
  have ds: "distinct (task_sensors st)" "s \<notin> set (sg_queued st)"
    using inv(6) map_of_SomeD [OF t(1)] by force+
  note del = delete_task_sensors [OF inv(3) t(1) ds(1)]
  have "set (sg_queued st @ map (fst \<circ> snd) (AList.delete tid (sg_running st))) =
      fst ` set (AList.delete s (sg_parked st))"
  proof -
    have "fst ` set (AList.delete s (sg_parked st)) = fst ` set (sg_parked st) - {s}"
      by (metis AList.delete_keys set_map set_removeAll)
    then show ?thesis using inv(7) ds(2) del(1) by auto
  qed
  moreover have "distinct (sg_queued st @ map (fst \<circ> snd) (AList.delete tid (sg_running st)))"
    using inv(6) del by auto
  moreover have "sg_pending st - length ws = sum_list (map (length \<circ> snd) (AList.delete s (sg_parked st)))"
    using sum_list_delete [OF inv(1) [unfolded hashmap_ok_def] ws] inv(5) by simp
  moreover have "length (AList.delete tid (sg_running st)) \<le> al_max_concurrent (sg_limits st)"
    using inv(12) length_delete_le [of tid "sg_running st"] by linarith
  moreover have "\<forall>(s, ms) \<in> set (AList.delete s (sg_parked st)). ms \<noteq> [] \<and> (\<forall>m\<in>set ms. sensor_of m = s)"
    using ok by (auto simp: stage_ok_def AList.delete_eq)
  moreover have "hashmap_ok (AList.delete s (sg_parked st))"
    "hashmap_ok (AList.delete tid (sg_running_ids st))" "distinct (map fst (AList.delete tid (sg_running st)))"
    using inv(1,2,3) by (auto simp: hashmap_ok_def intro: distinct_delete)
  ultimately have "stage_core st1"
    using inv(9,10,11) delete_running_ids [OF inv(8)] unfolding stage_core_def st1_def by simp
  then show ?thesis unfolding st' by (rule start_queued_ok [OF _ fr])
qed

lemma stage_step_ok: "stage_step fresh pol st st' \<Longrightarrow> fresh_ok fresh \<Longrightarrow> stage_ok st \<Longrightarrow> stage_ok st'"
  by (auto elim!: stage_stepE intro: admit_ok task_finish_ok task_panic_ok next_resolution_ok)

lemma busy_running: "stage_ok st \<Longrightarrow> is_busy st \<Longrightarrow> sg_running st \<noteq> []"
proof
  assume ok: "stage_ok st" and "is_busy st" and "sg_running st = []"
  note inv = stage_okD [OF ok]
  have "sg_queued st = []" using inv(9,13) \<open>sg_running st = []\<close> by force
  then have "sg_parked st = []" using inv(7) \<open>sg_running st = []\<close> by simp
  then show False using inv(5) \<open>is_busy st\<close> by (simp add: is_busy_def)
qed

section \<open>Properties\<close>

text \<open>In every state the stage can reach, by any interleaving of admissions, finishing and
  panicking lookups and joins, its invariant holds: at most \<open>max_concurrent\<close> lookups, at most
  \<open>max_pending\<close> parked messages, one lookup per waiting sensor, no slot idle while a sensor is
  queued. In particular a stage that holds messages always has a lookup to wait for, so a paused
  pipeline is woken.\<close>

lemma auth_stage_invariant:
  assumes "fresh_ok fresh" and "(stage_step fresh pol)\<^sup>*\<^sup>* (new_auth_stage p limits) st"
  shows "stage_ok st \<and> (is_busy st \<longrightarrow> sg_running st \<noteq> [])
    \<and> (\<forall>m. admit fresh pol r m st = (Overflow m, st', ms) \<longrightarrow> sg_running st' \<noteq> [])"
proof -
  have ok: "stage_ok st"
    using assms(2) by (induction rule: rtranclp_induct)
      (auto intro: new_auth_stage_ok stage_step_ok [OF _ assms(1)])
  have "sg_running st' \<noteq> []" if a: "admit fresh pol r m st = (Overflow m, st', ms)" for m
    using a
  proof (cases rule: admit_cases)
    case (overflow p)
    then have "is_busy st" using stage_okD(10) [OF ok] by (simp add: is_busy_def)
    then show ?thesis using busy_running [OF ok] overflow(2) by simp
  qed simp_all
  then show ?thesis using ok busy_running by blast
qed

text \<open>C19. The stage implements per-sensor waiting lists. An admitted message is either answered at
  once, or appended to the list of its sensor, or handed back because \<open>max_pending\<close> messages wait,
  and in the first and last case nothing else changes; joining a finished lookup hands out the
  whole list of that sensor, in arrival order and never empty, and clears it; no other sensor is
  affected.\<close>

theorem auth_stage_waiting_lists:
  assumes "stage_ok st"
  shows "(\<forall>m a st' ms. admit fresh pol r m st = (a, st', ms) \<longrightarrow>
      (case a of
         Parked \<Rightarrow> waiting st' = (waiting st)(sensor_of m := waiting st (sensor_of m) @ [m])
       | Decided d m' \<Rightarrow> m' = m \<and> waiting st' = waiting st
       | Overflow m' \<Rightarrow> m' = m \<and> waiting st' = waiting st \<and>
           sg_pending st = al_max_pending (sg_limits st)))
    \<and> (\<forall>tid res st' ms. next_resolution fresh tid st = Some (res, st', ms) \<longrightarrow>
      (\<exists>s ts. map_of (sg_running st) tid = Some (s, ts) \<and> rs_decision res = task_decision ts \<and>
        rs_messages res = waiting st s \<and> waiting st s \<noteq> [] \<and> waiting st' = (waiting st)(s := [])))"
proof (intro conjI allI impI)
  fix m a st' ms
  assume run: "admit fresh pol r m st = (a, st', ms)"
  show "case a of
         Parked \<Rightarrow> waiting st' = (waiting st)(sensor_of m := waiting st (sensor_of m) @ [m])
       | Decided d m' \<Rightarrow> m' = m \<and> waiting st' = waiting st
       | Overflow m' \<Rightarrow> m' = m \<and> waiting st' = waiting st \<and>
           sg_pending st = al_max_pending (sg_limits st)"
    using run
  proof (cases rule: admit_cases)
    case (overflow p)
    then show ?thesis using stage_okD(11) [OF assms] by (simp add: waiting_def fun_eq_iff)
  qed (auto simp: waiting_def fun_eq_iff update_conv')
next
  fix tid res st' ms
  assume join: "next_resolution fresh tid st = Some (res, st', ms)"
  obtain s ts where t: "map_of (sg_running st) tid = Some (s, ts)" "ts \<noteq> Running"
    using next_resolution_task [OF join] by blast
  obtain ws where ws: "map_of (sg_parked st) s = Some ws" using running_parked [OF assms t(1)] by blast
  have "ws \<noteq> []" using stage_okD(4) [OF assms ws] by blast
  with next_resolution_eq [OF assms t ws, of fresh] join t ws
  show "\<exists>s ts. map_of (sg_running st) tid = Some (s, ts) \<and> rs_decision res = task_decision ts \<and>
        rs_messages res = waiting st s \<and> waiting st s \<noteq> [] \<and> waiting st' = (waiting st)(s := [])"
    by (intro exI [of _ s] exI [of _ ts]) (auto simp: waiting_def fun_eq_iff delete_conv' Let_def)
qed

end
