(* ===== verification/Dedup.thy ===== *)
theory Dedup
  imports Protocol
begin

text \<open>
  The bounded, time-to-live deduplication cache: \<open>crates/edge/src/pipeline/dedup.rs\<close>.

  \<open>DedupCache\<close> keeps the membership set \<open>dc_seen\<close> and the insertion-ordered queue \<open>dc_order\<close> of
  identifiers with their expiry. \<open>insert_if_new_at\<close> takes the clock as an argument, as in the
  source (\<open>insert_if_new\<close> calls it with the current instant).
\<close>

section \<open>State and operations\<close>

record DedupCache =
  dc_capacity :: nat
  dc_ttl :: duration
  dc_seen :: "EnvelopeId set"
  dc_order :: "(EnvelopeId \<times> instant) list"

definition new_dedup :: "nat \<Rightarrow> duration \<Rightarrow> DedupCache" where
  "new_dedup capacity ttl =
     \<lparr>dc_capacity = max capacity 1, dc_ttl = ttl, dc_seen = {}, dc_order = []\<rparr>"

definition dedup_len :: "DedupCache \<Rightarrow> nat" where
  "dedup_len c = card (dc_seen c)"

definition forget :: "EnvelopeId \<Rightarrow> DedupCache \<Rightarrow> DedupCache" where
  "forget i c =
     (if i \<in> dc_seen c
      then c\<lparr>dc_seen := dc_seen c - {i}, dc_order := filter (\<lambda>(entry, _). entry \<noteq> i) (dc_order c)\<rparr>
      else c)"

text \<open>The loops \<open>prune_expired\<close> and \<open>enforce_capacity\<close>, on the queue and the membership set.\<close>

fun prune_loop :: "instant \<Rightarrow> (EnvelopeId \<times> instant) list \<Rightarrow> EnvelopeId set
    \<Rightarrow> (EnvelopeId \<times> instant) list \<times> EnvelopeId set" where
  "prune_loop now [] seen = ([], seen)"
| "prune_loop now ((i, expiry) # order) seen =
     (if expiry > now then ((i, expiry) # order, seen)
      else prune_loop now order (seen - {i}))"

definition prune_expired :: "instant \<Rightarrow> DedupCache \<Rightarrow> DedupCache" where
  "prune_expired now c =
     (let (order, seen) = prune_loop now (dc_order c) (dc_seen c)
      in c\<lparr>dc_order := order, dc_seen := seen\<rparr>)"

fun capacity_loop :: "nat \<Rightarrow> (EnvelopeId \<times> instant) list \<Rightarrow> EnvelopeId set
    \<Rightarrow> (EnvelopeId \<times> instant) list \<times> EnvelopeId set" where
  "capacity_loop cap [] seen = ([], seen)"
| "capacity_loop cap ((i, expiry) # order) seen =
     (if card seen > cap then capacity_loop cap order (seen - {i})
      else ((i, expiry) # order, seen))"

definition enforce_capacity :: "DedupCache \<Rightarrow> DedupCache" where
  "enforce_capacity c =
     (let (order, seen) = capacity_loop (dc_capacity c) (dc_order c) (dc_seen c)
      in c\<lparr>dc_order := order, dc_seen := seen\<rparr>)"

definition insert_if_new_at :: "EnvelopeId \<Rightarrow> instant \<Rightarrow> DedupCache \<Rightarrow> bool \<times> DedupCache" where
  "insert_if_new_at i now c0 =
     (let c = prune_expired now c0 in
      if i \<in> dc_seen c then (False, c)
      else (True, enforce_capacity
                    (c\<lparr>dc_seen := insert i (dc_seen c),
                       dc_order := dc_order c @ [(i, now + dc_ttl c)]\<rparr>)))"

section \<open>Vocabulary of the specification\<close>

text \<open>A sequence of insertions with their instants.\<close>

fun dedup_run :: "(EnvelopeId \<times> instant) list \<Rightarrow> DedupCache \<Rightarrow> DedupCache" where
  "dedup_run [] c = c"
| "dedup_run ((i, now) # xs) c = dedup_run xs (snd (insert_if_new_at i now c))"

text \<open>The invariant: the set mirrors the queue, an identifier is queued once, and the cache
  holds at most \<open>dc_capacity\<close> entries.\<close>

definition dedup_ok :: "DedupCache \<Rightarrow> bool" where
  "dedup_ok c \<longleftrightarrow>
     1 \<le> dc_capacity c \<and> dc_seen c = fst ` set (dc_order c) \<and> distinct (map fst (dc_order c)) \<and>
     length (dc_order c) \<le> dc_capacity c"

text \<open>What one insertion does to the queue, as a specification without loops: expired entries at
  the front go, a new identifier is appended, and only the newest \<open>dc_capacity\<close> entries stay.\<close>

definition live :: "instant \<Rightarrow> DedupCache \<Rightarrow> (EnvelopeId \<times> instant) list" where
  "live now c = dropWhile (\<lambda>(_, expiry). expiry \<le> now) (dc_order c)"

definition keep_newest :: "nat \<Rightarrow> 'a list \<Rightarrow> 'a list" where
  "keep_newest n xs = drop (length xs - n) xs"

section \<open>The loops meet their specification\<close>

lemma prune_loop_spec:
  assumes "distinct (map fst order)" and "seen = fst ` set order"
  shows "prune_loop now order seen =
    (let l = dropWhile (\<lambda>(_, expiry). expiry \<le> now) order in (l, fst ` set l))"
  using assms
proof (induction now order seen rule: prune_loop.induct)
  case (2 now i expiry order seen)
  then have "seen - {i} = fst ` set order" by auto
  with 2 show ?case by auto
qed simp

lemma capacity_loop_spec:
  assumes "distinct (map fst order)" and "seen = fst ` set order"
  shows "capacity_loop cap order seen =
    (let l = keep_newest cap order in (l, fst ` set l))"
  using assms
proof (induction cap order seen rule: capacity_loop.induct)
  case (2 cap i expiry order seen)
  then have rest: "seen - {i} = fst ` set order" by auto
  have "card seen = length ((i, expiry) # order)"
    using 2 by (metis distinct_card length_map set_map)
  with 2 rest show ?case by (auto simp: keep_newest_def Let_def Suc_diff_le)
qed (simp add: keep_newest_def)

lemma dedup_okD:
  assumes "dedup_ok c"
  shows "1 \<le> dc_capacity c" and "dc_seen c = fst ` set (dc_order c)"
    and "distinct (map fst (dc_order c))" and "length (dc_order c) \<le> dc_capacity c"
  using assms by (simp_all add: dedup_ok_def)

lemma prune_expired_eq:
  "dedup_ok c \<Longrightarrow> prune_expired now c = c\<lparr>dc_order := live now c, dc_seen := fst ` set (live now c)\<rparr>"
  using prune_loop_spec [of "dc_order c" "dc_seen c" now]
  by (simp add: prune_expired_def live_def Let_def dedup_ok_def)

lemma distinct_live: "dedup_ok c \<Longrightarrow> distinct (map fst (live now c))"
  by (metis dedup_okD(3) distinct_drop drop_map dropWhile_eq_drop live_def)

lemma length_live: "length (live now c) \<le> length (dc_order c)"
  by (simp add: live_def length_dropWhile_le)

lemma length_keep_newest [simp]: "length (keep_newest n xs) = min n (length xs)"
  by (auto simp: keep_newest_def)

lemma distinct_keep_newest: "distinct (map f xs) \<Longrightarrow> distinct (map f (keep_newest n xs))"
  by (metis distinct_drop drop_map keep_newest_def)

lemma keep_newest_snoc: "0 < n \<Longrightarrow> x \<in> set (keep_newest n (xs @ [x]))"
  by (simp add: keep_newest_def)

lemma keep_newest_suffix: "\<exists>pre. xs = pre @ keep_newest n xs"
  by (metis append_take_drop_id keep_newest_def)

text \<open>One insertion, closed form.\<close>

lemma insert_if_new_at_eq:
  assumes "dedup_ok c"
  shows "insert_if_new_at i now c =
    (if i \<in> fst ` set (live now c)
     then (False, c\<lparr>dc_order := live now c, dc_seen := fst ` set (live now c)\<rparr>)
     else (let l = keep_newest (dc_capacity c) (live now c @ [(i, now + dc_ttl c)])
           in (True, c\<lparr>dc_order := l, dc_seen := fst ` set l\<rparr>)))"
proof (cases "i \<in> fst ` set (live now c)")
  case True
  with assms show ?thesis by (simp add: insert_if_new_at_def prune_expired_eq)
next
  case False
  then have "distinct (map fst (live now c @ [(i, now + dc_ttl c)]))"
    using distinct_live [OF assms] by auto
  then have "capacity_loop (dc_capacity c) (live now c @ [(i, now + dc_ttl c)])
      (insert i (fst ` set (live now c)))
      = (let l = keep_newest (dc_capacity c) (live now c @ [(i, now + dc_ttl c)]) in (l, fst ` set l))"
    by (rule capacity_loop_spec) auto
  with False assms show ?thesis
    by (simp add: insert_if_new_at_def prune_expired_eq enforce_capacity_def Let_def)
qed

lemma insert_if_new_at_ok:
  assumes "dedup_ok c"
  shows "dedup_ok (snd (insert_if_new_at i now c))"
proof -
  have "length (live now c) \<le> dc_capacity c"
    using length_live [of now c] dedup_okD(4) [OF assms] by linarith
  moreover have "distinct (map fst (live now c @ [(i, now + dc_ttl c)]))"
    if "i \<notin> fst ` set (live now c)"
    using that distinct_live [OF assms] by auto
  then have "distinct (map fst (keep_newest (dc_capacity c) (live now c @ [(i, now + dc_ttl c)])))"
    if "i \<notin> fst ` set (live now c)"
    using that by (intro distinct_keep_newest)
  ultimately show ?thesis
    using assms distinct_live [OF assms, of now]
    by (simp add: insert_if_new_at_eq [OF assms] Let_def dedup_ok_def)
qed

lemma insert_if_new_at_capacity [simp]:
  "dc_capacity (snd (insert_if_new_at i now c)) = dc_capacity c"
  "dc_ttl (snd (insert_if_new_at i now c)) = dc_ttl c"
  by (simp_all add: insert_if_new_at_def enforce_capacity_def prune_expired_def Let_def
      split: prod.splits)

lemma forget_ok: "dedup_ok c \<Longrightarrow> dedup_ok (forget i c)"
  by (auto simp: dedup_ok_def forget_def distinct_map_filter intro: le_trans [OF length_filter_le])

lemma new_dedup_ok: "dedup_ok (new_dedup capacity ttl)"
  by (simp add: dedup_ok_def new_dedup_def)

lemma dedup_run_ok: "dedup_ok c \<Longrightarrow> dedup_ok (dedup_run xs c)"
  by (induction xs c rule: dedup_run.induct) (auto intro: insert_if_new_at_ok)

lemma dedup_len_le: "dedup_ok c \<Longrightarrow> dedup_len c \<le> dc_capacity c"
  by (metis dedup_len_def dedup_okD distinct_card length_map set_map)

section \<open>Suppression window\<close>

text \<open>The entry of \<open>i\<close> is in the queue with at most \<open>n\<close> newer entries behind it.\<close>

definition remembered :: "EnvelopeId \<Rightarrow> instant \<Rightarrow> nat \<Rightarrow> DedupCache \<Rightarrow> bool" where
  "remembered i e n c \<longleftrightarrow> (\<exists>pre post. dc_order c = pre @ (i, e) # post \<and> length post \<le> n)"

lemma remembered_live:
  assumes "remembered i e n c" and "now < e"
  shows "\<exists>pre post. live now c = pre @ (i, e) # post \<and> length post \<le> n"
proof -
  from assms(1) obtain pre post where o: "dc_order c = pre @ (i, e) # post" "length post \<le> n"
    by (auto simp: remembered_def)
  show ?thesis
  proof (cases "\<forall>x \<in> set pre. snd x \<le> now")
    case True
    then have "live now c = (i, e) # post"
      using o assms(2) by (auto simp: live_def dropWhile_append2 case_prod_beta)
    with o show ?thesis by (metis append_Nil)
  next
    case False
    then have "live now c = dropWhile (\<lambda>(_, x). x \<le> now) pre @ (i, e) # post"
      using o by (auto simp: live_def case_prod_beta intro!: dropWhile_append1)
    with o show ?thesis by blast
  qed
qed

lemma remembered_suppresses:
  assumes "dedup_ok c" and "remembered i e n c" and "now < e"
  shows "fst (insert_if_new_at i now c) = False"
  using remembered_live [OF assms(2,3)] assms(1) by (auto simp: insert_if_new_at_eq)

lemma remembered_insert:
  assumes "dedup_ok c" and "remembered i e n c" and "now < e" and "Suc n < dc_capacity c"
  shows "remembered i e (Suc n) (snd (insert_if_new_at j now c))"
proof -
  from remembered_live [OF assms(2,3)] obtain pre post where
    l: "live now c = pre @ (i, e) # post" "length post \<le> n" by blast
  have "\<exists>pre'. keep_newest (dc_capacity c) (live now c @ [(j, now + dc_ttl c)])
      = pre' @ (i, e) # post @ [(j, now + dc_ttl c)]"
    using l assms(4) by (simp add: keep_newest_def drop_Cons' le_diff_conv)
  then obtain pre' where new: "keep_newest (dc_capacity c) (live now c @ [(j, now + dc_ttl c)])
      = pre' @ (i, e) # post @ [(j, now + dc_ttl c)]" by blast
  have "dc_order (snd (insert_if_new_at j now c)) = (if j \<in> fst ` set (live now c)
      then pre @ (i, e) # post else pre' @ (i, e) # post @ [(j, now + dc_ttl c)])"
    using new l(1) by (simp add: insert_if_new_at_eq [OF assms(1)] Let_def)
  moreover have "length (post @ [(j, now + dc_ttl c)]) \<le> Suc n" "length post \<le> Suc n"
    using l(2) by simp_all
  ultimately show ?thesis unfolding remembered_def by (metis (no_types))
qed

lemma remembered_run:
  assumes "dedup_ok c" and "remembered i e n c" and "n + length xs < dc_capacity c"
    and "\<forall>(_, t) \<in> set xs. t < e"
  shows "remembered i e (n + length xs) (dedup_run xs c)"
  using assms
proof (induction xs arbitrary: c n)
  case (Cons x xs)
  obtain j t where x: "x = (j, t)" by (cases x)
  let ?c = "snd (insert_if_new_at j t c)"
  have "remembered i e (Suc n) ?c"
    using Cons.prems x by (intro remembered_insert) auto
  then have "remembered i e (Suc n + length xs) (dedup_run xs ?c)"
    using Cons.prems x by (intro Cons.IH) (auto intro: insert_if_new_at_ok)
  then show ?case by (simp add: x)
qed simp

lemma insert_remembered:
  assumes "dedup_ok c" and "insert_if_new_at i now c = (True, c')"
  shows "remembered i (now + dc_ttl c) 0 c'"
proof -
  have "c' = c\<lparr>dc_order := keep_newest (dc_capacity c) (live now c @ [(i, now + dc_ttl c)]),
      dc_seen := fst ` set (keep_newest (dc_capacity c) (live now c @ [(i, now + dc_ttl c)]))\<rparr>"
    using assms by (auto simp: insert_if_new_at_eq Let_def split: if_splits)
  moreover have "\<exists>pre. keep_newest (dc_capacity c) (live now c @ [(i, now + dc_ttl c)])
      = pre @ [(i, now + dc_ttl c)]"
    using dedup_okD(1) [OF assms(1)] by (simp add: keep_newest_def)
  ultimately show ?thesis by (auto simp: remembered_def)
qed

lemma forget_new:
  assumes "dedup_ok c"
  shows "fst (insert_if_new_at i now (forget i c))"
proof -
  have "i \<notin> fst ` set (dc_order (forget i c))"
    using assms by (auto simp: forget_def dedup_ok_def)
  then have "i \<notin> fst ` set (live now (forget i c))"
    by (auto simp: live_def dest: set_dropWhileD)
  with forget_ok [OF assms] show ?thesis by (auto simp: insert_if_new_at_eq Let_def)
qed

lemma insert_new_seen:
  assumes "dedup_ok c" and "insert_if_new_at i now c = (True, c')"
  shows "i \<in> dc_seen c'"
proof -
  have "(i, now + dc_ttl c) \<in> set (keep_newest (dc_capacity c) (live now c @ [(i, now + dc_ttl c)]))"
    using dedup_okD(1) [OF assms(1)] by (simp add: keep_newest_def)
  then show ?thesis
    using assms by (auto simp: insert_if_new_at_eq Let_def image_iff split: if_splits) force
qed

section \<open>Properties\<close>

text \<open>one insertion does what its specification says. It reports a duplicate exactly when the
  identifier is among the entries left after dropping the expired front, otherwise it appends
  the identifier with its expiry and keeps the newest entries up to the capacity; set and queue
  agree throughout and the capacity is never exceeded.\<close>

lemma dedup_insert_refines:
  assumes "dedup_ok c"
  shows "fst (insert_if_new_at i now c) = (i \<notin> fst ` set (live now c))
    \<and> dc_order (snd (insert_if_new_at i now c)) =
        (if i \<in> fst ` set (live now c) then live now c
         else keep_newest (dc_capacity c) (live now c @ [(i, now + dc_ttl c)]))
    \<and> dedup_ok (snd (insert_if_new_at i now c))
    \<and> dedup_len (snd (insert_if_new_at i now c)) \<le> dc_capacity c"
proof (intro conjI)
  show ok: "dedup_ok (snd (insert_if_new_at i now c))" using assms by (rule insert_if_new_at_ok)
  then show "dedup_len (snd (insert_if_new_at i now c)) \<le> dc_capacity c"
    using dedup_len_le by fastforce
qed (simp_all add: insert_if_new_at_eq [OF assms] Let_def)

text \<open>C24: replay suppression. Once an identifier was accepted, every repetition before its
  time-to-live ends is a duplicate, as long as fewer than \<open>capacity\<close> other insertions came in
  between.\<close>

theorem dedup_suppresses_replay:
  assumes "dedup_ok c" and "insert_if_new_at i now c = (True, c')"
    and "length xs < dc_capacity c"
    and "\<forall>(_, t) \<in> set xs. t < now + dc_ttl c" and "later < now + dc_ttl c"
  shows "fst (insert_if_new_at i later (dedup_run xs c')) = False"
proof -
  have c': "c' = snd (insert_if_new_at i now c)" using assms(2) by simp
  have ok: "dedup_ok c'" unfolding c' using assms(1) by (rule insert_if_new_at_ok)
  have "remembered i (now + dc_ttl c) (0 + length xs) (dedup_run xs c')"
    using assms ok by (intro remembered_run insert_remembered) (simp_all add: c')
  then show ?thesis using ok assms(5) by (intro remembered_suppresses) (auto intro: dedup_run_ok)
qed

text \<open>a forgotten identifier is new again: after \<open>forget\<close> its next sighting is accepted,
  and all other entries are unaffected.\<close>

lemma dedup_forget:
  assumes "dedup_ok c"
  shows "dedup_ok (forget i c)
    \<and> fst (insert_if_new_at i now (forget i c)) = True
    \<and> (\<forall>j. j \<noteq> i \<longrightarrow> (j \<in> dc_seen (forget i c)) = (j \<in> dc_seen c))"
  using assms forget_ok forget_new by (auto simp: forget_def)

end
