(* ===== verification/Pipeline.thy ===== *)
theory Pipeline
  imports AuthStage Dedup
begin

text \<open>
  The acceptance pipeline: \<open>crates/edge/src/pipeline/mod.rs\<close>.

  \<open>'e\<close> is everything around the pipeline: the sinks' state, the clock, the chain. A sink's
  \<open>deliver\<close> and the wait between retries act on it; \<open>clock\<close> reads the instant for deduplication and
  \<open>observe\<close> what the policy sees. The loop of \<open>run\<close> is the event-driven \<open>pipeline_step\<close>: an ingress
  message, a finished lookup to join, the closing of the channel, shutdown, and, between them, the
  steps of the lookup tasks and any change of the environment. While \<open>process\<close> waits for a full
  stage the message is in \<open>pi_waiting\<close> and only joins and shutdown are possible (shutdown first ends
  \<open>process\<close>, dropping the message, then the loop of \<open>run\<close>). The result of a step lists the messages handed to the sinks, the lookups made and the metric updates. The retry
  loop of a required sink may not end; it is a partial function and \<open>None\<close> then.
\<close>

section \<open>Messages and sinks\<close>

record AcceptedMessage =
  am_sensor_id :: SensorId
  am_envelope :: SignedEnvelope
  am_raw_envelope :: bytes
  am_envelope_id :: EnvelopeId
  am_transport :: TransportMetadata
  am_received_at :: SystemTime

datatype SinkError = SinkClosed string | SinkDelivery string string

record 'e MessageSink =
  sk_name :: string
  sk_required :: bool
  sk_deliver :: "AcceptedMessage \<Rightarrow> 'e \<Rightarrow> (SinkError + unit) \<times> 'e"

text \<open>A sink that forwards over a bounded channel; \<open>send\<close> fails when the receiver is gone.\<close>

definition channel_sink :: "string \<Rightarrow> (AcceptedMessage \<Rightarrow> 'e \<Rightarrow> bool \<times> 'e) \<Rightarrow> 'e MessageSink" where
  "channel_sink name send =
     \<lparr>sk_name = name, sk_required = False,
      sk_deliver = (\<lambda>m e. case send m e of (True, e') \<Rightarrow> (Ok (), e') | (False, e') \<Rightarrow> (Err (SinkClosed name), e'))\<rparr>"

definition REQUIRED_RETRY_INITIAL :: duration where
  "REQUIRED_RETRY_INITIAL = from_millis 100"

definition REQUIRED_RETRY_MAX :: duration where
  "REQUIRED_RETRY_MAX = from_secs 5"

section \<open>Pipeline state\<close>

record ('p, 'r, 'e) Pipeline =
  pp_auth :: "('p, 'r) AuthPolicy"
  pp_auth_limits :: AuthLimits
  pp_sinks :: "'e MessageSink list"
  pp_required_retry :: "duration \<times> duration"

definition new_pipeline :: "('p, 'r) AuthPolicy \<Rightarrow> 'e MessageSink list \<Rightarrow> ('p, 'r, 'e) Pipeline" where
  "new_pipeline auth sinks =
     \<lparr>pp_auth = auth, pp_auth_limits = default_auth_limits, pp_sinks = sinks,
      pp_required_retry = (REQUIRED_RETRY_INITIAL, REQUIRED_RETRY_MAX)\<rparr>"

definition with_auth_limits :: "AuthLimits \<Rightarrow> ('p, 'r, 'e) Pipeline \<Rightarrow> ('p, 'r, 'e) Pipeline" where
  "with_auth_limits limits p = p\<lparr>pp_auth_limits := limits\<rparr>"

text \<open>The libraries and the surroundings: SHA-256, Ed25519 verification, task identifiers, the
  clock, what the policy sees, and the wait for a duration or shutdown (\<open>True\<close>).\<close>

record ('r, 'e) surroundings =
  su_sha :: "bytes \<Rightarrow> bytes"
  su_vrf :: "bytes \<Rightarrow> bytes \<Rightarrow> bytes \<Rightarrow> bool"
  su_fresh :: "task_id list \<Rightarrow> task_id"
  su_clock :: "'e \<Rightarrow> instant"
  su_observe :: "'e \<Rightarrow> 'r"
  su_wait :: "duration \<Rightarrow> 'e \<Rightarrow> bool \<times> 'e"

record ('p, 'e) PipelineState =
  pi_stage :: "'p AuthStage"
  pi_dedup :: DedupCache
  pi_env :: 'e
  pi_waiting :: "Verified option"
  pi_open :: bool
  pi_stopped :: bool

record 'r outputs =
  ou_fanned :: "(AcceptedMessage \<times> bool) list"
  ou_lookups :: "('r \<times> SensorId \<times> (AuthError + bool)) list"
  ou_metrics :: "metric list"

definition no_output :: "'r outputs" where
  "no_output = \<lparr>ou_fanned = [], ou_lookups = [], ou_metrics = []\<rparr>"

definition metrics_only :: "metric list \<Rightarrow> 'r outputs" where
  "metrics_only ms = \<lparr>ou_fanned = [], ou_lookups = [], ou_metrics = ms\<rparr>"

definition add_output :: "'r outputs \<Rightarrow> 'r outputs \<Rightarrow> 'r outputs" where
  "add_output a b = \<lparr>ou_fanned = ou_fanned a @ ou_fanned b, ou_lookups = ou_lookups a @ ou_lookups b,
                     ou_metrics = ou_metrics a @ ou_metrics b\<rparr>"

section \<open>Fan-out\<close>

text \<open>The inner loop of \<open>fan_out\<close> for one sink: \<open>False\<close> when shutdown interrupted a required sink.\<close>

partial_function (option) deliver_loop ::
  "(duration \<Rightarrow> 'e \<Rightarrow> bool \<times> 'e) \<Rightarrow> duration \<Rightarrow> 'e MessageSink \<Rightarrow> AcceptedMessage \<Rightarrow> duration \<Rightarrow> 'e
    \<Rightarrow> (bool \<times> 'e) option" where
  "deliver_loop wait hi sink message delay e =
     (case sk_deliver sink message e of
        (Ok _, e1) \<Rightarrow> Some (True, e1)
      | (Err err, e1) \<Rightarrow>
          if \<not> sk_required sink then Some (True, e1)
          else (case wait delay e1 of
                  (stop, e2) \<Rightarrow>
                    if stop then Some (False, e2)
                    else deliver_loop wait hi sink message (min (delay * 2) hi) e2))"

declare deliver_loop.simps [code]

fun fan_out_loop ::
  "(duration \<Rightarrow> 'e \<Rightarrow> bool \<times> 'e) \<Rightarrow> duration \<times> duration \<Rightarrow> AcceptedMessage \<Rightarrow> 'e MessageSink list
    \<Rightarrow> bool \<Rightarrow> 'e \<Rightarrow> (bool \<times> 'e) option" where
  "fan_out_loop wait retry message [] whole e = Some (whole, e)"
| "fan_out_loop wait retry message (sink # sinks) whole e =
     (case deliver_loop wait (snd retry) sink message (fst retry) e of
        None \<Rightarrow> None
      | Some (delivered, e') \<Rightarrow> fan_out_loop wait retry message sinks (whole \<and> delivered) e')"

definition fan_out ::
  "('r, 'e) surroundings \<Rightarrow> ('p, 'r, 'e) Pipeline \<Rightarrow> AcceptedMessage \<Rightarrow> 'e \<Rightarrow> (bool \<times> 'e) option" where
  "fan_out su pl message e =
     fan_out_loop (su_wait su) (pp_required_retry pl) message (pp_sinks pl) True e"

section \<open>The steps of the pipeline\<close>

abbreviation transport_of :: "Verified \<Rightarrow> string" where
  "transport_of v \<equiv> transport_str (tm_transport (im_transport (vf_message v)))"

definition accept_verified ::
  "('r, 'e) surroundings \<Rightarrow> ('p, 'r, 'e) Pipeline \<Rightarrow> Verified \<Rightarrow> ('p, 'e) PipelineState
    \<Rightarrow> (('p, 'e) PipelineState \<times> 'r outputs) option" where
  "accept_verified su pl v st =
     (let message = vf_message v;
          i = envelope_id (su_sha su) (im_raw_envelope message);
          (new, dedup) = insert_if_new_at i (su_clock su (pi_env st)) (pi_dedup st)
      in
      if \<not> new
      then Some (st\<lparr>pi_dedup := dedup\<rparr>, metrics_only [incr_transport DEDUP_DROPPED_TOTAL (transport_of v)])
      else
        let accepted = \<lparr>am_sensor_id = ve_sensor_id (vf_verified v),
                        am_envelope = ve_envelope (vf_verified v),
                        am_raw_envelope = im_raw_envelope message, am_envelope_id = i,
                        am_transport = im_transport message,
                        am_received_at = im_received_at message\<rparr>
        in (case fan_out su pl accepted (pi_env st) of
              None \<Rightarrow> None
            | Some (whole, e) \<Rightarrow>
                Some (st\<lparr>pi_dedup := (if whole then dedup else forget i dedup), pi_env := e\<rparr>,
                      \<lparr>ou_fanned = [(accepted, whole)], ou_lookups = [], ou_metrics = []\<rparr>)))"

definition decide ::
  "('r, 'e) surroundings \<Rightarrow> ('p, 'r, 'e) Pipeline \<Rightarrow> bool \<Rightarrow> Verified \<Rightarrow> ('p, 'e) PipelineState
    \<Rightarrow> (('p, 'e) PipelineState \<times> 'r outputs) option" where
  "decide su pl allowed v st =
     (if allowed then accept_verified su pl v st
      else Some (st, metrics_only [incr_transport AUTH_REJECTED_TOTAL (transport_of v)]))"

fun resolve ::
  "('r, 'e) surroundings \<Rightarrow> ('p, 'r, 'e) Pipeline \<Rightarrow> AuthError + bool \<Rightarrow> Verified list
    \<Rightarrow> ('p, 'e) PipelineState \<Rightarrow> (('p, 'e) PipelineState \<times> 'r outputs) option" where
  "resolve su pl decision [] st = Some (st, no_output)"
| "resolve su pl decision (v # vs) st =
     (case (case decision of
              Ok allowed \<Rightarrow> decide su pl allowed v st
            | Err _ \<Rightarrow>
                Some (st, metrics_only [incr_transport AUTH_CPS_LOOKUP_ERROR_TOTAL (transport_of v)])) of
        None \<Rightarrow> None
      | Some (st1, o1) \<Rightarrow>
          (case resolve su pl decision vs st1 of
             None \<Rightarrow> None
           | Some (st2, o2) \<Rightarrow> Some (st2, add_output o1 o2)))"

text \<open>One turn of the loop in \<open>process\<close>: \<open>paused\<close> says whether the message already waited.\<close>

definition process_turn ::
  "('r, 'e) surroundings \<Rightarrow> ('p, 'r, 'e) Pipeline \<Rightarrow> bool \<Rightarrow> Verified \<Rightarrow> ('p, 'e) PipelineState
    \<Rightarrow> (('p, 'e) PipelineState \<times> 'r outputs) option" where
  "process_turn su pl paused v st =
     (case admit (su_fresh su) (pp_auth pl) (su_observe su (pi_env st)) v (pi_stage st) of
        (Decided allowed v', stage, ms) \<Rightarrow>
          (case decide su pl allowed v' (st\<lparr>pi_stage := stage, pi_waiting := None\<rparr>) of
             None \<Rightarrow> None
           | Some (st', ou) \<Rightarrow> Some (st', add_output (metrics_only ms) ou))
      | (Parked, stage, ms) \<Rightarrow> Some (st\<lparr>pi_stage := stage, pi_waiting := None\<rparr>, metrics_only ms)
      | (Overflow v', stage, ms) \<Rightarrow>
          Some (st\<lparr>pi_stage := stage, pi_waiting := Some v'\<rparr>,
                metrics_only (ms @ (if paused then []
                  else [incr_transport AUTH_BACKPRESSURE_TOTAL (transport_of v')]))))"

definition process ::
  "('r, 'e) surroundings \<Rightarrow> ('p, 'r, 'e) Pipeline \<Rightarrow> IngressMessage \<Rightarrow> ('p, 'e) PipelineState
    \<Rightarrow> (('p, 'e) PipelineState \<times> 'r outputs) option" where
  "process su pl message st =
     (case verify_envelope (su_vrf su) (im_envelope message) of
        Err _ \<Rightarrow>
          Some (st, metrics_only [incr_transport VALIDATION_REJECTED_TOTAL
                                    (transport_str (tm_transport (im_transport message)))])
      | Ok verified \<Rightarrow>
          process_turn su pl False \<lparr>vf_message = message, vf_verified = verified\<rparr> st)"

section \<open>The run loop\<close>

datatype 'e pipeline_event =
    IngressEvent IngressMessage
  | IngressClosed
  | Joined task_id
  | TaskFinished task_id
  | TaskPanicked task_id
  | Shutdown
  | EnvChange 'e

definition pipeline_start ::
  "('p, 'r, 'e) Pipeline \<Rightarrow> 'p \<Rightarrow> DedupCache \<Rightarrow> 'e \<Rightarrow> ('p, 'e) PipelineState" where
  "pipeline_start pl policy dedup e =
     \<lparr>pi_stage = new_auth_stage policy (pp_auth_limits pl), pi_dedup = dedup, pi_env = e,
      pi_waiting = None, pi_open = True, pi_stopped = False\<rparr>"

text \<open>Whether \<open>run\<close> has returned: the loop condition, or the \<open>break\<close> at shutdown.\<close>

definition pipeline_done :: "('p, 'e) PipelineState \<Rightarrow> bool" where
  "pipeline_done st \<longleftrightarrow>
     pi_stopped st \<or> pi_waiting st = None \<and> \<not> pi_open st \<and> \<not> is_busy (pi_stage st)"

text \<open>\<open>None\<close>: the event cannot happen in this state, or a required sink never accepts.\<close>

definition pipeline_step ::
  "('r, 'e) surroundings \<Rightarrow> ('p, 'r, 'e) Pipeline \<Rightarrow> 'e pipeline_event \<Rightarrow> ('p, 'e) PipelineState
    \<Rightarrow> (('p, 'e) PipelineState \<times> 'r outputs) option" where
  "pipeline_step su pl ev st =
     (if pipeline_done st then None
      else case ev of
        IngressEvent message \<Rightarrow>
          if pi_waiting st = None \<and> pi_open st then process su pl message st else None
      | IngressClosed \<Rightarrow>
          if pi_waiting st = None \<and> pi_open st then Some (st\<lparr>pi_open := False\<rparr>, no_output) else None
      | Joined tid \<Rightarrow>
          if pi_waiting st = None \<and> \<not> is_busy (pi_stage st) then None
          else (case next_resolution (su_fresh su) tid (pi_stage st) of
                  None \<Rightarrow> None
                | Some (res, stage, ms) \<Rightarrow>
                    (case resolve su pl (rs_decision res) (rs_messages res) (st\<lparr>pi_stage := stage\<rparr>) of
                       None \<Rightarrow> None
                     | Some (st1, o1) \<Rightarrow>
                         (case pi_waiting st1 of
                            None \<Rightarrow> Some (st1, add_output (metrics_only ms) o1)
                          | Some v \<Rightarrow>
                              (case process_turn su pl True v st1 of
                                 None \<Rightarrow> None
                               | Some (st2, o2) \<Rightarrow>
                                   Some (st2, add_output (metrics_only ms) (add_output o1 o2))))))
      | TaskFinished tid \<Rightarrow>
          (case map_of (sg_running (pi_stage st)) tid of
             Some (sensor_id, Running) \<Rightarrow>
               (case pol_authorize (pp_auth pl) (su_observe su (pi_env st)) sensor_id
                       (sg_policy (pi_stage st)) of
                  (decision, _, _) \<Rightarrow>
                    (case task_finish (pp_auth pl) (su_observe su (pi_env st)) tid (pi_stage st) of
                       None \<Rightarrow> None
                     | Some (stage, ms) \<Rightarrow>
                         Some (st\<lparr>pi_stage := stage\<rparr>,
                               \<lparr>ou_fanned = [],
                                ou_lookups = [(su_observe su (pi_env st), sensor_id, decision)],
                                ou_metrics = ms\<rparr>)))
           | _ \<Rightarrow> None)
      | TaskPanicked tid \<Rightarrow>
          (case task_panic tid (pi_stage st) of
             None \<Rightarrow> None
           | Some stage \<Rightarrow> Some (st\<lparr>pi_stage := stage\<rparr>, no_output))
      | Shutdown \<Rightarrow>
          (case pi_waiting st of
             None \<Rightarrow> Some (st\<lparr>pi_stopped := True\<rparr>, no_output)
           | Some _ \<Rightarrow> Some (st\<lparr>pi_waiting := None\<rparr>, no_output))
      | EnvChange e \<Rightarrow> Some (st\<lparr>pi_env := e\<rparr>, no_output))"

fun pipeline_run ::
  "('r, 'e) surroundings \<Rightarrow> ('p, 'r, 'e) Pipeline \<Rightarrow> 'e pipeline_event list \<Rightarrow> ('p, 'e) PipelineState
    \<Rightarrow> (('p, 'e) PipelineState \<times> 'r outputs) option" where
  "pipeline_run su pl [] st = Some (st, no_output)"
| "pipeline_run su pl (ev # evs) st =
     (case pipeline_step su pl ev st of
        None \<Rightarrow> None
      | Some (st1, o1) \<Rightarrow>
          (case pipeline_run su pl evs st1 of
             None \<Rightarrow> None
           | Some (st2, o2) \<Rightarrow> Some (st2, add_output o1 o2)))"

section \<open>Specification\<close>

text \<open>A verified message that stems from one of the ingress messages \<open>M\<close>.\<close>

definition from_ingress :: "('r, 'e) surroundings \<Rightarrow> IngressMessage set \<Rightarrow> Verified \<Rightarrow> bool" where
  "from_ingress su M v \<longleftrightarrow>
     vf_message v \<in> M \<and> verify_envelope (su_vrf su) (im_envelope (vf_message v)) = Ok (vf_verified v)"

text \<open>What the pipeline promises of a message it hands to the sinks: it arrived, its signature
  verifies under the sensor it names, that sensor is in \<open>G\<close>, and its identifier is the hash of the
  exact bytes received.\<close>

definition accepted_ok :: "('r, 'e) surroundings \<Rightarrow> IngressMessage set \<Rightarrow> SensorId set \<Rightarrow> AcceptedMessage \<Rightarrow> bool"
  where
  "accepted_ok su M G am \<longleftrightarrow>
     am_sensor_id am \<in> G \<and>
     verify_envelope (su_vrf su) (am_envelope am) =
       Ok \<lparr>ve_sensor_id = am_sensor_id am, ve_envelope = am_envelope am\<rparr> \<and>
     am_envelope_id am = envelope_id (su_sha su) (am_raw_envelope am) \<and>
     (\<exists>m\<in>M. im_envelope m = am_envelope am \<and> im_raw_envelope m = am_raw_envelope am \<and>
        im_transport m = am_transport am \<and> im_received_at m = am_received_at am)"

definition pipe_inv ::
  "('r, 'e) surroundings \<Rightarrow> IngressMessage set \<Rightarrow> SensorId set \<Rightarrow> ('p, 'e) PipelineState \<Rightarrow> bool" where
  "pipe_inv su M G st \<longleftrightarrow>
     stage_ok (pi_stage st) \<and>
     (\<forall>s ms. map_of (sg_parked (pi_stage st)) s = Some ms \<longrightarrow> (\<forall>v\<in>set ms. from_ingress su M v)) \<and>
     (\<forall>v. pi_waiting st = Some v \<longrightarrow> from_ingress su M v) \<and>
     (\<forall>t s. (t, s, Done (Ok True)) \<in> set (sg_running (pi_stage st)) \<longrightarrow> s \<in> G)"

definition ingested :: "'e pipeline_event list \<Rightarrow> IngressMessage set" where
  "ingested evs = {m. IngressEvent m \<in> set evs}"

definition granted_by :: "('r \<times> SensorId \<times> (AuthError + bool)) list \<Rightarrow> SensorId set" where
  "granted_by los = {s. \<exists>r. (r, s, Ok True) \<in> set los}"

text \<open>Every ingress message is answered for: rejected, dropped as a duplicate or for want of a
  decision, or fanned out (\<open>answered\<close>), or still held by the pipeline (\<open>held\<close>). A policy is \<open>quiet\<close>
  when it does not touch the counters that say so.\<close>

definition answered :: "'r outputs \<Rightarrow> nat" where
  "answered ou =
     counted VALIDATION_REJECTED_TOTAL (ou_metrics ou) + counted AUTH_REJECTED_TOTAL (ou_metrics ou) +
     counted DEDUP_DROPPED_TOTAL (ou_metrics ou) + counted AUTH_CPS_LOOKUP_ERROR_TOTAL (ou_metrics ou) +
     length (ou_fanned ou)"

definition held :: "('p, 'e) PipelineState \<Rightarrow> nat" where
  "held st = sg_pending (pi_stage st) + (case pi_waiting st of None \<Rightarrow> 0 | Some _ \<Rightarrow> 1)"

definition silent :: "metric list \<Rightarrow> bool" where
  "silent ms \<longleftrightarrow> (\<forall>n\<in>{VALIDATION_REJECTED_TOTAL, AUTH_REJECTED_TOTAL, DEDUP_DROPPED_TOTAL,
     AUTH_CPS_LOOKUP_ERROR_TOTAL}. counted n ms = 0)"

definition quiet :: "('p, 'r) AuthPolicy \<Rightarrow> bool" where
  "quiet pol \<longleftrightarrow> (\<forall>r s p. silent (snd (snd (pol_try pol r s p))) \<and> silent (snd (snd (pol_authorize pol r s p))))"

section \<open>Fan-out\<close>

text \<open>The environment of attempt \<open>n\<close> at a sink, when the \<open>n\<close> attempts before it failed and shutdown
  did not come.\<close>

fun attempts ::
  "(duration \<Rightarrow> 'e \<Rightarrow> bool \<times> 'e) \<Rightarrow> duration \<Rightarrow> 'e MessageSink \<Rightarrow> AcceptedMessage \<Rightarrow> nat \<Rightarrow> duration \<Rightarrow> 'e
    \<Rightarrow> (duration \<times> 'e) option" where
  "attempts wait hi sink m 0 delay e = Some (delay, e)"
| "attempts wait hi sink m (Suc n) delay e =
     (case sk_deliver sink m e of
        (Ok _, e1) \<Rightarrow> None
      | (Err err, e1) \<Rightarrow>
          (case wait delay e1 of
             (True, e2) \<Rightarrow> None
           | (False, e2) \<Rightarrow> attempts wait hi sink m n (min (delay * 2) hi) e2))"

lemma deliver_loop_attempts:
  assumes "sk_required sink" and "attempts wait hi sink m n delay e = Some (d, e1)"
  shows "deliver_loop wait hi sink m delay e = deliver_loop wait hi sink m d e1"
  using assms
proof (induction n arbitrary: delay e)
  case (Suc n)
  then obtain err e2 e3 where "sk_deliver sink m e = (Err err, e2)" "wait delay e2 = (False, e3)"
    "attempts wait hi sink m n (min (delay * 2) hi) e3 = Some (d, e1)"
    by (auto split: prod.splits sum.splits bool.splits)
  with Suc.IH [OF Suc.prems(1) this(3)] Suc.prems(1) show ?case
    by (subst deliver_loop.simps) simp
qed simp

definition loop_result ::
  "(duration \<Rightarrow> 'e \<Rightarrow> bool \<times> 'e) \<Rightarrow> 'e MessageSink \<Rightarrow> AcceptedMessage \<Rightarrow> bool \<times> 'e \<Rightarrow> bool" where
  "loop_result wait sink m y \<longleftrightarrow>
     (fst y \<longrightarrow> sk_required sink \<longrightarrow> (\<exists>e0 u. sk_deliver sink m e0 = (Ok u, snd y))) \<and>
     (\<not> fst y \<longrightarrow> sk_required sink \<and> (\<exists>d e0. wait d e0 = (True, snd y)))"

lemma deliver_loop_result:
  assumes run: "deliver_loop wait hi sink m delay e = Some y"
  shows "loop_result wait sink m y"
proof (rule deliver_loop.raw_induct
    [where P = "\<lambda>wait hi sink m delay e y. loop_result wait sink m y", OF _ run])
  fix loop :: "(duration \<Rightarrow> 'a \<Rightarrow> bool \<times> 'a) \<Rightarrow> duration \<Rightarrow> 'a MessageSink \<Rightarrow> AcceptedMessage \<Rightarrow> duration
      \<Rightarrow> 'a \<Rightarrow> (bool \<times> 'a) option"
    and wait hi sink m delay e y
  assume IH: "\<And>wait hi sink m delay e y. loop wait hi sink m delay e = Some y \<Longrightarrow> loop_result wait sink m y"
    and eq: "(case sk_deliver sink m e of
        (Ok _, e1) \<Rightarrow> Some (True, e1)
      | (Err err, e1) \<Rightarrow>
          if \<not> sk_required sink then Some (True, e1)
          else (case wait delay e1 of
                  (stop, e2) \<Rightarrow>
                    if stop then Some (False, e2)
                    else loop wait hi sink m (min (delay * 2) hi) e2)) = Some y"
  obtain res e1 where d: "sk_deliver sink m e = (res, e1)" by (cases "sk_deliver sink m e")
  obtain stop e2 where w: "wait delay e1 = (stop, e2)" by (cases "wait delay e1")
  show "loop_result wait sink m y"
  proof (cases "isl res \<and> sk_required sink")
    case True
    show ?thesis
    proof (cases stop)
      case True
      then have "y = (False, e2)" using eq d w \<open>isl res \<and> sk_required sink\<close> by (cases res) auto
      then show ?thesis using w True \<open>isl res \<and> sk_required sink\<close> unfolding loop_result_def by auto
    next
      case False
      then have "loop wait hi sink m (min (delay * 2) hi) e2 = Some y"
        using eq d w True by (cases res) auto
      then show ?thesis by (rule IH)
    qed
  next
    case False
    then show ?thesis using eq d by (cases res) (auto simp: loop_result_def split: if_splits)
  qed
qed

section \<open>Accepting\<close>

lemma add_output_simps [simp]:
  "ou_fanned (add_output a b) = ou_fanned a @ ou_fanned b"
  "ou_lookups (add_output a b) = ou_lookups a @ ou_lookups b"
  "ou_metrics (add_output a b) = ou_metrics a @ ou_metrics b"
  "ou_fanned no_output = []" "ou_lookups no_output = []" "ou_metrics no_output = []"
  "ou_fanned (metrics_only ms) = []" "ou_lookups (metrics_only ms) = []" "ou_metrics (metrics_only ms) = ms"
  by (simp_all add: add_output_def no_output_def metrics_only_def)

lemma accept_verified_ok:
  assumes "from_ingress su M v" and "sensor_of v \<in> G" and "accept_verified su pl v st = Some (st', ou)"
  shows "(\<forall>(am, c)\<in>set (ou_fanned ou). accepted_ok su M G am) \<and> ou_lookups ou = [] \<and>
    pi_stage st' = pi_stage st \<and> pi_waiting st' = pi_waiting st"
proof -
  have "ve_envelope (vf_verified v) = im_envelope (vf_message v)"
    using assms(1) verify_envelope_Ok by (fastforce simp: from_ingress_def)
  with assms show ?thesis
    by (auto simp: accept_verified_def Let_def accepted_ok_def from_ingress_def
        split: prod.splits if_splits option.splits)
qed

lemma decide_ok:
  assumes "from_ingress su M v" and "allowed \<longrightarrow> sensor_of v \<in> G" and "decide su pl allowed v st = Some (st', ou)"
  shows "(\<forall>(am, c)\<in>set (ou_fanned ou). accepted_ok su M G am) \<and> ou_lookups ou = [] \<and>
    pi_stage st' = pi_stage st \<and> pi_waiting st' = pi_waiting st"
proof (cases allowed)
  case True
  then show ?thesis using accept_verified_ok [of su M v G pl st st' ou] assms by (simp add: decide_def)
qed (use assms in \<open>auto simp: decide_def\<close>)

lemma resolve_ok:
  "\<forall>v\<in>set vs. from_ingress su M v \<and> (decision = Ok True \<longrightarrow> sensor_of v \<in> G) \<Longrightarrow>
   resolve su pl decision vs st = Some (st', ou) \<Longrightarrow>
   (\<forall>(am, c)\<in>set (ou_fanned ou). accepted_ok su M G am) \<and> ou_lookups ou = [] \<and>
   pi_stage st' = pi_stage st \<and> pi_waiting st' = pi_waiting st"
proof (induction vs arbitrary: st st' ou)
  case (Cons v vs)
  then obtain st1 o1 o2 where
    d: "(case decision of
              Ok allowed \<Rightarrow> decide su pl allowed v st
            | Err _ \<Rightarrow>
                Some (st, metrics_only [incr_transport AUTH_CPS_LOOKUP_ERROR_TOTAL (transport_of v)])) = Some (st1, o1)"
    and r: "resolve su pl decision vs st1 = Some (st', o2)" and ou: "ou = add_output o1 o2"
    by (auto split: option.splits)
  have "(\<forall>(am, c)\<in>set (ou_fanned o1). accepted_ok su M G am) \<and> ou_lookups o1 = [] \<and>
      pi_stage st1 = pi_stage st \<and> pi_waiting st1 = pi_waiting st"
    using d Cons.prems(1) decide_ok [of su M v _ G pl st st1 o1] by (cases decision) auto
  moreover have "(\<forall>(am, c)\<in>set (ou_fanned o2). accepted_ok su M G am) \<and> ou_lookups o2 = [] \<and>
      pi_stage st' = pi_stage st1 \<and> pi_waiting st' = pi_waiting st1"
    using Cons.IH [OF _ r] Cons.prems(1) by auto
  ultimately show ?case unfolding ou by auto
qed simp

lemma start_loop_done:
  "start_loop fresh limit q run ids = (q', run', ids') \<Longrightarrow> (t, s, Done d) \<in> set run' \<Longrightarrow>
   (t, s, Done d) \<in> set run"
  by (induction fresh limit q run ids rule: start_loop.induct) (auto simp: Let_def split: if_splits)

lemma start_queued_done:
  "(t, s, Done d) \<in> set (sg_running (start_queued fresh st)) \<Longrightarrow> (t, s, Done d) \<in> set (sg_running st)"
  by (auto simp: start_queued_def split: prod.splits dest: start_loop_done)

lemma admit_frame:
  assumes "admit fresh pol r v st = (a, st', ms)"
  shows "\<exists>d ms'. pol_try pol r (sensor_of v) (sg_policy st) = (d, sg_policy st', ms') \<and>
      (\<forall>b v'. a = Decided b v' \<longrightarrow> d = Some b \<and> v' = v) \<and> (\<forall>v'. a = Overflow v' \<longrightarrow> v' = v)"
    and "(t, s, Done x) \<in> set (sg_running st') \<Longrightarrow> (t, s, Done x) \<in> set (sg_running st)"
    and "map_of (sg_parked st') s = Some vs \<Longrightarrow> w \<in> set vs \<Longrightarrow>
      w = v \<or> (\<exists>vs0. map_of (sg_parked st) s = Some vs0 \<and> w \<in> set vs0)"
  using assms
  by (auto simp: admit_def Let_def update_conv' split: prod.splits option.splits if_splits
      dest!: start_queued_done)

section \<open>The invariant of a run\<close>

lemma pipe_inv_admit:
  assumes "pipe_inv su M G st" and "from_ingress su M v" and "fresh_ok fresh"
    and "admit fresh pol r v (pi_stage st) = (a, stage, ms)"
    and "w = None \<or> w = Some v"
  shows "pipe_inv su M G (st\<lparr>pi_stage := stage, pi_waiting := w\<rparr>)"
proof -
  have "stage_ok stage" using admit_ok [OF _ assms(3,4)] assms(1) by (simp add: pipe_inv_def)
  moreover have "from_ingress su M x" if "map_of (sg_parked stage) s = Some vs" "x \<in> set vs" for s vs x
    using admit_frame(3) [OF assms(4) that] assms(1,2) unfolding pipe_inv_def by blast
  moreover have "s \<in> G" if "(t, s, Done (Ok True)) \<in> set (sg_running stage)" for t s
    using admit_frame(2) [OF assms(4) that] assms(1) unfolding pipe_inv_def by blast
  ultimately show ?thesis using assms(2,5) unfolding pipe_inv_def by auto
qed

lemma pipe_inv_stage_eq:
  "pipe_inv su M G st \<Longrightarrow> pi_stage st' = pi_stage st \<Longrightarrow> pi_waiting st' = pi_waiting st \<Longrightarrow>
   pipe_inv su M G st'"
  by (simp add: pipe_inv_def)

lemma pipe_inv_join:
  assumes inv: "pipe_inv su M G st" and fr: "fresh_ok fresh"
    and join: "next_resolution fresh tid (pi_stage st) = Some (res, stage, ms)"
  shows "pipe_inv su M G (st\<lparr>pi_stage := stage\<rparr>)"
    and "\<forall>v\<in>set (rs_messages res). from_ingress su M v \<and>
          (rs_decision res = Ok True \<longrightarrow> sensor_of v \<in> G)"
    and "sg_policy stage = sg_policy (pi_stage st)"
proof -
  let ?st = "pi_stage st"
  have ok: "stage_ok ?st" using inv by (simp add: pipe_inv_def)
  obtain s ts where t: "map_of (sg_running ?st) tid = Some (s, ts)" "ts \<noteq> Running"
    using next_resolution_task [OF join] by blast
  obtain ws where ws: "map_of (sg_parked ?st) s = Some ws" using running_parked [OF ok t(1)] by blast
  have res: "res = \<lparr>rs_decision = task_decision ts, rs_messages = ws\<rparr>"
    and stage: "stage = start_queued fresh (?st\<lparr>sg_running := AList.delete tid (sg_running ?st),
           sg_running_ids := AList.delete tid (sg_running_ids ?st),
           sg_parked := AList.delete s (sg_parked ?st), sg_pending := sg_pending ?st - length ws\<rparr>)"
    using next_resolution_eq [OF ok t ws, of fresh] join by (simp_all add: Let_def)
  show "sg_policy stage = sg_policy ?st" by (simp add: stage)
  have "s \<in> G" if "task_decision ts = Ok True"
    using that inv map_of_SomeD [OF t(1)] t(2) unfolding pipe_inv_def
    by (cases ts) (auto simp: task_decision_def)
  then show "\<forall>v\<in>set (rs_messages res). from_ingress su M v \<and>
          (rs_decision res = Ok True \<longrightarrow> sensor_of v \<in> G)"
    using inv ws stage_okD(4) [OF ok ws] unfolding res pipe_inv_def by auto
  have "stage_ok stage" using next_resolution_ok [OF ok fr join] .
  moreover have "\<forall>s' ms. map_of (sg_parked stage) s' = Some ms \<longrightarrow> (\<forall>v\<in>set ms. from_ingress su M v)"
    using inv unfolding pipe_inv_def by (auto simp: stage delete_conv' split: if_splits)
  moreover have "s' \<in> G" if "(t', s', Done (Ok True)) \<in> set (sg_running stage)" for t' s'
    using that inv unfolding pipe_inv_def stage by (auto simp: AList.delete_eq dest!: start_queued_done)
  ultimately show "pipe_inv su M G (st\<lparr>pi_stage := stage\<rparr>)"
    using inv unfolding pipe_inv_def by auto
qed

lemma pipe_inv_mono:
  "pipe_inv su M G st \<Longrightarrow> M \<subseteq> M' \<Longrightarrow> G \<subseteq> G' \<Longrightarrow> pipe_inv su M' G' st"
  unfolding pipe_inv_def from_ingress_def by blast

lemma accepted_ok_mono: "accepted_ok su M G am \<Longrightarrow> M \<subseteq> M' \<Longrightarrow> G \<subseteq> G' \<Longrightarrow> accepted_ok su M' G' am"
  unfolding accepted_ok_def by blast

context auth_policy
begin

text \<open>The invariant with the policy's share of it, and what one step adds to the sensors granted.\<close>

lemma process_turn_ok:
  assumes "pp_auth pl = pol" and "pipe_inv su M G st" and "granted G (sg_policy (pi_stage st))"
    and "fresh_ok (su_fresh su)" and "from_ingress su M v"
    and run: "process_turn su pl paused v st = Some (st', ou)"
  shows "pipe_inv su M G st' \<and> granted G (sg_policy (pi_stage st')) \<and> ou_lookups ou = [] \<and>
    (\<forall>(am, c)\<in>set (ou_fanned ou). accepted_ok su M G am)"
proof -
  obtain a stage ms where adm: "admit (su_fresh su) pol (su_observe su (pi_env st)) v (pi_stage st) = (a, stage, ms)"
    by (metis surj_pair)
  obtain d ms' where d: "pol_try pol (su_observe su (pi_env st)) (sensor_of v) (sg_policy (pi_stage st))
      = (d, sg_policy stage, ms')" "\<forall>b v'. a = Decided b v' \<longrightarrow> d = Some b \<and> v' = v"
      "\<forall>v'. a = Overflow v' \<longrightarrow> v' = v"
    using admit_frame(1) [OF adm] by blast
  have g: "granted G (sg_policy stage)" using try_granted [OF assms(3) d(1)] .
  note inv = pipe_inv_admit [OF assms(2,5,4) adm]
  show ?thesis
  proof (cases a)
    case (Decided b v')
    then have v': "v' = v" "d = Some b" using d(2) by auto
    have "b \<longrightarrow> sensor_of v \<in> G" using try_sound [OF assms(3)] d(1) v'(2) by (cases b) auto
    moreover obtain o1 where dec: "decide su pl b v (st\<lparr>pi_stage := stage, pi_waiting := None\<rparr>) = Some (st', o1)"
      and ou: "ou = add_output (metrics_only ms) o1"
      using run adm Decided v' assms(1) by (auto simp: process_turn_def split: option.splits)
    ultimately have "(\<forall>(am, c)\<in>set (ou_fanned o1). accepted_ok su M G am) \<and> ou_lookups o1 = [] \<and>
        pi_stage st' = stage \<and> pi_waiting st' = None"
      using decide_ok [OF assms(5) _ dec, of G] by simp
    then show ?thesis using inv [of None] g ou
      by (auto intro: pipe_inv_stage_eq [of su M G "st\<lparr>pi_stage := stage, pi_waiting := None\<rparr>"])
  next
    case Parked
    then show ?thesis using run adm assms(1) inv [of None] g by (auto simp: process_turn_def)
  next
    case (Overflow v')
    then show ?thesis using run adm assms(1) inv [of "Some v"] g d(3) by (auto simp: process_turn_def)
  qed
qed

lemma step_ok:
  assumes pl: "pp_auth pl = pol" and fr: "fresh_ok (su_fresh su)" and inv: "pipe_inv su M G st"
    and g: "granted G (sg_policy (pi_stage st))" and run: "pipeline_step su pl ev st = Some (st', ou)"
    and M: "\<forall>m. ev = IngressEvent m \<longrightarrow> m \<in> M"
  shows "pipe_inv su M (G \<union> granted_by (ou_lookups ou)) st' \<and>
    granted (G \<union> granted_by (ou_lookups ou)) (sg_policy (pi_stage st')) \<and>
    (\<forall>(am, c)\<in>set (ou_fanned ou). accepted_ok su M G am) \<and>
    (\<forall>(r, s, d)\<in>set (ou_lookups ou). d = Ok True \<longrightarrow> s \<in> G \<or> evidence r s)"
proof (cases ev)
  case (IngressEvent m)
  then have p: "process su pl m st = Some (st', ou)" using run by (auto simp: pipeline_step_def split: if_splits)
  show ?thesis
  proof (cases "verify_envelope (su_vrf su) (im_envelope m)")
    case (Inl e)
    then show ?thesis using p inv g by (auto simp: process_def granted_by_def)
  next
    case (Inr vf)
    then have "from_ingress su M \<lparr>vf_message = m, vf_verified = vf\<rparr>"
      using M IngressEvent by (simp add: from_ingress_def)
    from process_turn_ok [OF pl inv g fr this] p Inr show ?thesis
      by (simp add: process_def granted_by_def)
  qed
next
  case (Joined tid)
  obtain res stage ms st1 o1 where
    nr: "next_resolution (su_fresh su) tid (pi_stage st) = Some (res, stage, ms)"
    and rs: "resolve su pl (rs_decision res) (rs_messages res) (st\<lparr>pi_stage := stage\<rparr>) = Some (st1, o1)"
    and rest: "case pi_waiting st1 of None \<Rightarrow> st' = st1 \<and> ou = add_output (metrics_only ms) o1
       | Some v \<Rightarrow> \<exists>o2. process_turn su pl True v st1 = Some (st', o2) \<and>
           ou = add_output (metrics_only ms) (add_output o1 o2)"
    using run Joined by (auto simp: pipeline_step_def split: if_splits option.splits)
  note j = pipe_inv_join [OF inv fr nr]
  from resolve_ok [OF j(2) rs] have r: "\<forall>(am, c)\<in>set (ou_fanned o1). accepted_ok su M G am"
    "ou_lookups o1 = []" "pi_stage st1 = stage" "pi_waiting st1 = pi_waiting st" by auto
  have inv1: "pipe_inv su M G st1" using pipe_inv_stage_eq [OF j(1), of st1] r by simp
  have g1: "granted G (sg_policy (pi_stage st1))" using g j(3) r(3) by simp
  show ?thesis
  proof (cases "pi_waiting st1")
    case None
    then show ?thesis using rest inv1 g1 r by (auto simp: granted_by_def)
  next
    case (Some v)
    then obtain o2 where t: "process_turn su pl True v st1 = Some (st', o2)"
      and ou: "ou = add_output (metrics_only ms) (add_output o1 o2)" using rest by auto
    have "from_ingress su M v" using inv1 Some unfolding pipe_inv_def by blast
    from process_turn_ok [OF pl inv1 g1 fr this t] r show ?thesis unfolding ou
      by (auto simp: granted_by_def)
  qed
next
  case (TaskFinished tid)
  obtain s where t: "map_of (sg_running (pi_stage st)) tid = Some (s, Running)"
    using run TaskFinished
    by (auto simp: pipeline_step_def split: if_splits option.splits prod.splits task_state.splits)
  obtain d p ms where a: "pol_authorize pol (su_observe su (pi_env st)) s (sg_policy (pi_stage st)) = (d, p, ms)"
    by (metis surj_pair)
  define stage where "stage = set_task tid (Done d) ((pi_stage st)\<lparr>sg_policy := p\<rparr>)"
  have tf: "task_finish pol (su_observe su (pi_env st)) tid (pi_stage st) = Some (stage, ms)"
    by (simp add: task_finish_def t a stage_def)
  have st': "st' = st\<lparr>pi_stage := stage\<rparr>"
    and ou: "ou = \<lparr>ou_fanned = [], ou_lookups = [(su_observe su (pi_env st), s, d)], ou_metrics = ms\<rparr>"
    using run TaskFinished t a pl tf by (auto simp: pipeline_step_def split: if_splits)
  have G': "(if d = Ok True then insert s G else G) = G \<union> granted_by (ou_lookups ou)"
    by (auto simp: ou granted_by_def)
  have g': "granted (G \<union> granted_by (ou_lookups ou)) (sg_policy (pi_stage st'))"
    using authorize_granted [OF g a] unfolding G' by (simp add: st' stage_def)
  have ok: "stage_ok stage" using task_finish_ok [OF _ tf] inv by (simp add: pipe_inv_def)
  have "s' \<in> G \<union> granted_by (ou_lookups ou)" if "(t', s', Done (Ok True)) \<in> set (sg_running stage)" for t' s'
  proof (cases "t' = tid")
    case True
    have "distinct (map fst (sg_running (pi_stage st)))"
      using inv stage_okD(3) unfolding pipe_inv_def by blast
    then have "s' = s" "d = Ok True"
      using that True t unfolding stage_def set_task_def
      by (auto split: if_splits dest: map_of_SomeD eq_key_imp_eq_value)
    then show ?thesis by (auto simp: ou granted_by_def)
  next
    case False
    then have "(t', s', Done (Ok True)) \<in> set (sg_running (pi_stage st))"
      using that unfolding stage_def set_task_def by (auto split: if_splits)
    then show ?thesis using inv unfolding pipe_inv_def by blast
  qed
  then have "pipe_inv su M (G \<union> granted_by (ou_lookups ou)) st'"
    using inv ok unfolding pipe_inv_def st' by (auto simp: stage_def)
  then show ?thesis using g' authorize_sound [OF g] a by (auto simp: ou)
next
  case (TaskPanicked tid)
  then obtain stage where t: "task_panic tid (pi_stage st) = Some stage" and st': "st' = st\<lparr>pi_stage := stage\<rparr>"
    and ou: "ou = no_output"
    using run by (auto simp: pipeline_step_def split: if_splits option.splits)
  have "stage_ok stage" using task_panic_ok [OF _ t] inv by (simp add: pipe_inv_def)
  moreover have st: "stage = set_task tid Panicked (pi_stage st)"
    using t by (auto simp: task_panic_def split: option.splits prod.splits task_state.splits)
  moreover have "s' \<in> G" if "(t', s', Done (Ok True)) \<in> set (sg_running stage)" for t' s'
    using that inv unfolding st set_task_def pipe_inv_def by (auto split: if_splits)
  ultimately show ?thesis using inv g by (auto simp: st' ou granted_by_def pipe_inv_def)
qed (use run inv g in \<open>auto simp: pipeline_step_def granted_by_def pipe_inv_def split: if_splits option.splits\<close>)

lemma run_ok:
  "pp_auth pl = pol \<Longrightarrow> fresh_ok (su_fresh su) \<Longrightarrow> pipe_inv su M G st \<Longrightarrow>
   granted G (sg_policy (pi_stage st)) \<Longrightarrow> pipeline_run su pl evs st = Some (st', ou) \<Longrightarrow>
   ingested evs \<subseteq> M \<Longrightarrow>
   (\<forall>(am, c)\<in>set (ou_fanned ou). accepted_ok su M (G \<union> granted_by (ou_lookups ou)) am) \<and>
   (\<forall>s\<in>granted_by (ou_lookups ou). s \<in> G \<or> (\<exists>r. (r, s, Ok True) \<in> set (ou_lookups ou) \<and> evidence r s)) \<and>
   stage_ok (pi_stage st')"
proof (induction evs arbitrary: G st ou)
  case Nil
  then show ?case by (simp add: granted_by_def pipe_inv_def)
next
  case (Cons ev evs)
  from Cons.prems(5) obtain st1 o1 o2 where step: "pipeline_step su pl ev st = Some (st1, o1)"
    and rest: "pipeline_run su pl evs st1 = Some (st', o2)" and ou: "ou = add_output o1 o2"
    by (auto split: option.splits)
  have M: "\<forall>m. ev = IngressEvent m \<longrightarrow> m \<in> M" "ingested evs \<subseteq> M"
    using Cons.prems(6) by (auto simp: ingested_def)
  define G1 where "G1 = G \<union> granted_by (ou_lookups o1)"
  from step_ok [OF Cons.prems(1-4) step M(1)]
  have s1: "pipe_inv su M G1 st1" "granted G1 (sg_policy (pi_stage st1))"
    "\<forall>(am, c)\<in>set (ou_fanned o1). accepted_ok su M G am"
    "\<forall>(r, s, d)\<in>set (ou_lookups o1). d = Ok True \<longrightarrow> s \<in> G \<or> evidence r s"
    unfolding G1_def by blast+
  from Cons.IH [OF Cons.prems(1,2) s1(1,2) rest M(2)]
  have s2: "\<forall>(am, c)\<in>set (ou_fanned o2). accepted_ok su M (G1 \<union> granted_by (ou_lookups o2)) am"
    "\<forall>s\<in>granted_by (ou_lookups o2). s \<in> G1 \<or> (\<exists>r. (r, s, Ok True) \<in> set (ou_lookups o2) \<and> evidence r s)"
    "stage_ok (pi_stage st')" by blast+
  have split: "granted_by (ou_lookups ou) = granted_by (ou_lookups o1) \<union> granted_by (ou_lookups o2)"
    by (auto simp: ou granted_by_def)
  have e1: "s \<in> G \<or> (\<exists>r. (r, s, Ok True) \<in> set (ou_lookups o1) \<and> evidence r s)"
    if "s \<in> granted_by (ou_lookups o1)" for s
    using that s1(4) unfolding granted_by_def by fast
  have "s \<in> G \<or> (\<exists>r. (r, s, Ok True) \<in> set (ou_lookups ou) \<and> evidence r s)"
    if "s \<in> granted_by (ou_lookups ou)" for s
    using that e1 s2(2) unfolding split G1_def by (auto simp: ou)
  moreover have "accepted_ok su M (G \<union> granted_by (ou_lookups ou)) am"
    if "(am, c) \<in> set (ou_fanned ou)" for am c
    using that s1(3) s2(1) unfolding ou split
    by (auto simp: G1_def Un_assoc granted_by_def intro: accepted_ok_mono)
  ultimately show ?case using s2(3) by blast
qed

lemma pipeline_safe:
  assumes "pp_auth pl = pol" and "fresh_ok (su_fresh su)" and "granted G p"
    and run: "pipeline_run su pl evs (pipeline_start pl p dedup e) = Some (st', ou)"
    and am: "(am, c) \<in> set (ou_fanned ou)"
  shows "accepted_ok su (ingested evs)
    (G \<union> {s. \<exists>r. (r, s, Ok True) \<in> set (ou_lookups ou) \<and> evidence r s}) am"
proof -
  have inv: "pipe_inv su (ingested evs) G (pipeline_start pl p dedup e)"
    "granted G (sg_policy (pi_stage (pipeline_start pl p dedup e)))"
    using assms(3) new_auth_stage_ok by (auto simp: pipe_inv_def pipeline_start_def) (auto simp: new_auth_stage_def)
  from run_ok [OF assms(1,2) inv run order_refl] am show ?thesis
    by (fastforce intro: accepted_ok_mono)
qed

end

section \<open>Accounting\<close>

lemma silent_simps [simp]:
  "silent []" "silent (xs @ ys) \<longleftrightarrow> silent xs \<and> silent ys" "silent (publish st)"
  by (auto simp: silent_def publish_def)

lemma answered_simps [simp]:
  "answered no_output = 0" "answered (add_output a b) = answered a + answered b"
  "silent ms \<Longrightarrow> answered (metrics_only ms) = 0"
  "answered (metrics_only [incr_transport VALIDATION_REJECTED_TOTAL t]) = 1"
  "answered (metrics_only [incr_transport AUTH_REJECTED_TOTAL t]) = 1"
  "answered (metrics_only [incr_transport DEDUP_DROPPED_TOTAL t]) = 1"
  "answered (metrics_only [incr_transport AUTH_CPS_LOOKUP_ERROR_TOTAL t]) = 1"
  "answered \<lparr>ou_fanned = [x], ou_lookups = [], ou_metrics = []\<rparr> = 1"
  "silent ms \<Longrightarrow> answered \<lparr>ou_fanned = [], ou_lookups = l, ou_metrics = ms\<rparr> = 0"
  by (simp_all add: answered_def silent_def)

lemma decide_answers:
  "decide su pl allowed v st = Some (st', ou) \<Longrightarrow>
   answered ou = 1 \<and> pi_stage st' = pi_stage st \<and> pi_waiting st' = pi_waiting st"
  by (auto simp: decide_def accept_verified_def Let_def split: if_splits prod.splits option.splits)

lemma resolve_answers:
  "resolve su pl d vs st = Some (st', ou) \<Longrightarrow>
   answered ou = length vs \<and> pi_stage st' = pi_stage st \<and> pi_waiting st' = pi_waiting st"
proof (induction vs arbitrary: st st' ou)
  case (Cons v vs)
  obtain st1 o1 o2 where
    d: "(case d of Ok allowed \<Rightarrow> decide su pl allowed v st
            | Err _ \<Rightarrow> Some (st, metrics_only [incr_transport AUTH_CPS_LOOKUP_ERROR_TOTAL (transport_of v)]))
        = Some (st1, o1)"
    and r: "resolve su pl d vs st1 = Some (st', o2)" and ou: "ou = add_output o1 o2"
    using Cons.prems by (auto split: option.splits)
  have "answered o1 = 1 \<and> pi_stage st1 = pi_stage st \<and> pi_waiting st1 = pi_waiting st"
    using d decide_answers by (cases d) fastforce+
  with Cons.IH [OF r] show ?case unfolding ou by simp
qed simp

lemma admit_pending:
  assumes "admit fresh pol r v st = (a, st', ms)" and "quiet pol"
  shows "silent ms" and "sg_pending st' = sg_pending st + (if a = Parked then 1 else 0)"
proof -
  obtain d p ms' where t: "pol_try pol r (sensor_of v) (sg_policy st) = (d, p, ms')" by (metis surj_pair)
  have "silent ms'" using assms(2) t unfolding quiet_def by (metis snd_conv)
  then show "silent ms" and "sg_pending st' = sg_pending st + (if a = Parked then 1 else 0)"
    using assms(1) t by (auto simp: admit_def Let_def split: option.splits if_splits)
qed

lemma process_turn_answers:
  assumes "process_turn su pl paused v st = Some (st', ou)" and "quiet (pp_auth pl)"
  shows "answered ou + held st' = sg_pending (pi_stage st) + 1"
proof -
  obtain a stage ms where adm:
    "admit (su_fresh su) (pp_auth pl) (su_observe su (pi_env st)) v (pi_stage st) = (a, stage, ms)"
    by (metis surj_pair)
  note p = admit_pending [OF adm assms(2)]
  have bp: "silent [incr_transport AUTH_BACKPRESSURE_TOTAL t]" for t by (simp add: silent_def)
  show ?thesis
  proof (cases a)
    case (Decided b v')
    then obtain o1 where "decide su pl b v' (st\<lparr>pi_stage := stage, pi_waiting := None\<rparr>) = Some (st', o1)"
      "ou = add_output (metrics_only ms) o1"
      using assms(1) adm by (auto simp: process_turn_def split: option.splits)
    then show ?thesis using decide_answers p Decided by (fastforce simp: held_def)
  next
    case Parked
    then show ?thesis using assms(1) adm p by (auto simp: process_turn_def held_def)
  next
    case (Overflow v')
    then show ?thesis using assms(1) adm p bp by (auto simp: process_turn_def held_def)
  qed
qed

lemma step_answers:
  assumes run: "pipeline_step su pl ev st = Some (st', ou)" and q: "quiet (pp_auth pl)"
    and ok: "stage_ok (pi_stage st)" and "ev \<noteq> Shutdown"
  shows "answered ou + held st' = held st + (case ev of IngressEvent m \<Rightarrow> 1 | _ \<Rightarrow> 0)"
proof (cases ev)
  case (IngressEvent m)
  then have p: "process su pl m st = Some (st', ou)" "pi_waiting st = None"
    using run by (auto simp: pipeline_step_def split: if_splits)
  then show ?thesis
    using process_turn_answers [OF _ q] IngressEvent by (fastforce simp: process_def held_def split: sum.splits)
next
  case (Joined tid)
  obtain res stage ms st1 o1 where
    nr: "next_resolution (su_fresh su) tid (pi_stage st) = Some (res, stage, ms)"
    and rs: "resolve su pl (rs_decision res) (rs_messages res) (st\<lparr>pi_stage := stage\<rparr>) = Some (st1, o1)"
    and rest: "case pi_waiting st1 of None \<Rightarrow> st' = st1 \<and> ou = add_output (metrics_only ms) o1
       | Some v \<Rightarrow> \<exists>o2. process_turn su pl True v st1 = Some (st', o2) \<and>
           ou = add_output (metrics_only ms) (add_output o1 o2)"
    using run Joined by (auto simp: pipeline_step_def split: if_splits option.splits)
  obtain s ts where t: "map_of (sg_running (pi_stage st)) tid = Some (s, ts)" "ts \<noteq> Running"
    using next_resolution_task [OF nr] by blast
  obtain ws where ws: "map_of (sg_parked (pi_stage st)) s = Some ws" using running_parked [OF ok t(1)] by blast
  have m: "rs_messages res = ws" "ms = publish stage" "sg_pending stage = sg_pending (pi_stage st) - length ws"
    using next_resolution_eq [OF ok t ws, of "su_fresh su"] nr by (auto simp: Let_def)
  have "length ws \<le> sg_pending (pi_stage st)"
    using sum_list_delete [OF stage_okD(1) [OF ok, unfolded hashmap_ok_def] ws] stage_okD(5) [OF ok] by simp
  with m have pend: "sg_pending stage + length (rs_messages res) = sg_pending (pi_stage st)" by simp
  note r = resolve_answers [OF rs]
  show ?thesis
  proof (cases "pi_waiting st1")
    case None
    then show ?thesis using rest r pend m(2) Joined by (simp add: held_def)
  next
    case (Some v)
    then show ?thesis using rest r pend m(2) Joined process_turn_answers [OF _ q]
      by (fastforce simp: held_def)
  qed
next
  case (TaskFinished tid)
  obtain s where t: "map_of (sg_running (pi_stage st)) tid = Some (s, Running)"
    using run TaskFinished
    by (auto simp: pipeline_step_def split: if_splits option.splits prod.splits task_state.splits)
  obtain d p ms where a: "pol_authorize (pp_auth pl) (su_observe su (pi_env st)) s (sg_policy (pi_stage st)) = (d, p, ms)"
    by (metis surj_pair)
  have "silent ms" using q a unfolding quiet_def by (metis snd_conv)
  then show ?thesis using run TaskFinished t a
    by (auto simp: pipeline_step_def task_finish_def held_def split: if_splits)
next
  case (TaskPanicked tid)
  then show ?thesis using run
    by (auto simp: pipeline_step_def task_panic_def held_def
        split: if_splits option.splits prod.splits task_state.splits)
qed (use run assms(4) in \<open>auto simp: pipeline_step_def held_def split: if_splits\<close>)

text \<open>Every policy meets the contract that promises nothing, which gives the stage's invariant.\<close>

lemma any_auth_policy: "auth_policy pol (\<lambda>_ _. True) (\<lambda>G _. G = UNIV)"
  by unfold_locales auto

lemma step_stage_ok:
  assumes "fresh_ok (su_fresh su)" and "pipe_inv su UNIV UNIV st"
    and "pipeline_step su pl ev st = Some (st', ou)"
  shows "pipe_inv su UNIV UNIV st'"
  using auth_policy.step_ok [OF any_auth_policy [of "pp_auth pl"] refl assms(1,2) refl assms(3)] by simp

lemma run_answers:
  "fresh_ok (su_fresh su) \<Longrightarrow> quiet (pp_auth pl) \<Longrightarrow> pipe_inv su UNIV UNIV st \<Longrightarrow> Shutdown \<notin> set evs \<Longrightarrow>
   pipeline_run su pl evs st = Some (st', ou) \<Longrightarrow>
   answered ou + held st' = held st + length (filter (\<lambda>ev. \<exists>m. ev = IngressEvent m) evs)"
proof (induction evs arbitrary: st ou)
  case (Cons ev evs)
  from Cons.prems(5) obtain st1 o1 o2 where step: "pipeline_step su pl ev st = Some (st1, o1)"
    and rest: "pipeline_run su pl evs st1 = Some (st', o2)" and ou: "ou = add_output o1 o2"
    by (auto split: option.splits)
  have inv1: "pipe_inv su UNIV UNIV st1" using step_stage_ok [OF Cons.prems(1,3) step] .
  have "answered o1 + held st1 = held st + (case ev of IngressEvent m \<Rightarrow> 1 | _ \<Rightarrow> 0)"
    using step_answers [OF step Cons.prems(2)] Cons.prems(3,4) by (auto simp: pipe_inv_def)
  moreover have "answered o2 + held st' = held st1 + length (filter (\<lambda>ev. \<exists>m. ev = IngressEvent m) evs)"
    using Cons.IH [OF Cons.prems(1,2) inv1 _ rest] Cons.prems(4) by simp
  ultimately show ?case unfolding ou by (cases ev) auto
qed simp

lemma attempts_delay:
  "attempts wait hi sink m n (min (b * 2 ^ k) hi) e = Some (d, e1) \<Longrightarrow> d = min (b * 2 ^ (k + n)) hi"
proof (induction n arbitrary: k e)
  case (Suc n)
  then obtain e2 where "attempts wait hi sink m n (min (b * 2 ^ Suc k) hi) e2 = Some (d, e1)"
    by (auto simp: min_double split: prod.splits sum.splits bool.splits)
  from Suc.IH [OF this] show ?case by simp
qed simp

section \<open>Properties\<close>

text \<open>C1. With a whitelist, nothing unauthorized or unverified passes: over any run of the pipeline,
  with any messages, interleavings, sink failures and changes around it, every message handed to
  the sinks arrived as an ingress message, carries a valid signature of the sensor it names, that
  sensor is on the whitelist, and its identifier is the hash of the exact bytes received.\<close>

theorem pipeline_whitelist_safe:
  assumes "fresh_ok (su_fresh su)" and "pp_auth pl = whitelist_policy"
    and "pipeline_run su pl evs (pipeline_start pl w dedup e) = Some (st', ou)"
    and "(am, c) \<in> set (ou_fanned ou)"
  shows "accepted_ok su (ingested evs) (wl_allowed w) am"
  using whitelist_auth.pipeline_safe [OF assms(2,1) _ assms(3,4), of "wl_allowed w"]
  by (simp add: whitelist_granted_def)

text \<open>C2. With the CPS policy and an empty cache, every message handed to the sinks likewise arrived,
  is verified and correctly identified, and its sensor was found below the configured root node
  by a lookup of this run; errors, timeouts and panics of lookups never let a message pass.\<close>

theorem pipeline_cps_safe:
  assumes "lru_laws ops view cap" and "view c0 = Map.empty" and "fresh_ok (su_fresh su)"
    and "pp_auth pl = cps_policy ops"
    and "pipeline_run su pl evs (pipeline_start pl (new_cps_auth root c0 ttl) dedup e) = Some (st', ou)"
    and "(am, c) \<in> set (ou_fanned ou)"
  shows "accepted_ok su (ingested evs)
    {s. \<exists>r. (r, s, Ok True) \<in> set (ou_lookups ou) \<and> on_chain root r s} am"
proof -
  have "cps_granted view root {} (new_cps_auth root c0 ttl)"
    by (simp add: cps_granted_def new_cps_auth_def assms(2))
  from auth_policy.pipeline_safe [OF cps_auth_policy [OF assms(1)] assms(4,3) this assms(5,6)]
  show ?thesis by simp
qed

text \<open>C3. No message disappears: as long as shutdown has not begun, the messages taken from the
  channel are exactly those counted as invalid, unauthorized, duplicate or undecidable, those
  handed to the sinks, and those the pipeline still holds (parked or paused).\<close>

theorem pipeline_accounts_for_all:
  assumes "fresh_ok (su_fresh su)" and "quiet (pp_auth pl)" and "Shutdown \<notin> set evs"
    and "pipeline_run su pl evs (pipeline_start pl p dedup e) = Some (st', ou)"
  shows "length (filter (\<lambda>ev. \<exists>m. ev = IngressEvent m) evs) =
    counted VALIDATION_REJECTED_TOTAL (ou_metrics ou) + counted AUTH_REJECTED_TOTAL (ou_metrics ou) +
    counted DEDUP_DROPPED_TOTAL (ou_metrics ou) + counted AUTH_CPS_LOOKUP_ERROR_TOTAL (ou_metrics ou) +
    length (ou_fanned ou) + sg_pending (pi_stage st') + (case pi_waiting st' of None \<Rightarrow> 0 | Some _ \<Rightarrow> 1)"
proof -
  have "pipe_inv su UNIV UNIV (pipeline_start pl p dedup e)"
    using new_auth_stage_ok by (auto simp: pipe_inv_def pipeline_start_def) (auto simp: new_auth_stage_def)
  from run_answers [OF assms(1,2) this assms(3,4)] show ?thesis
    by (simp add: answered_def held_def pipeline_start_def new_auth_stage_def)
qed

text \<open>A required sink is retried until it accepts: if it accepts at its \<open>n\<close>-th attempt and
  shutdown does not come before, the loop ends with that delivery; the wait before attempt \<open>n\<close> is
  the initial delay doubled each time up to the maximum; and whenever the loop ends, either the
  last attempt was accepted or shutdown interrupted it.\<close>

lemma required_sink_retried:
  assumes "sk_required sink" and "delay \<le> hi"
  shows "(\<forall>n d e1 u e2. attempts wait hi sink m n delay e = Some (d, e1) \<and>
        sk_deliver sink m e1 = (Ok u, e2) \<longrightarrow>
      deliver_loop wait hi sink m delay e = Some (True, e2) \<and> d = min (delay * 2 ^ n) hi)
    \<and> (\<forall>e'. deliver_loop wait hi sink m delay e = Some (True, e') \<longrightarrow>
        (\<exists>e0 u. sk_deliver sink m e0 = (Ok u, e')))
    \<and> (\<forall>e'. deliver_loop wait hi sink m delay e = Some (False, e') \<longrightarrow>
        (\<exists>d e0. wait d e0 = (True, e')))"
proof (intro conjI allI impI)
  fix n d e1 u e2
  assume "attempts wait hi sink m n delay e = Some (d, e1) \<and> sk_deliver sink m e1 = (Ok u, e2)"
  then have a: "attempts wait hi sink m n delay e = Some (d, e1)" "sk_deliver sink m e1 = (Ok u, e2)" by auto
  show "deliver_loop wait hi sink m delay e = Some (True, e2)"
    unfolding deliver_loop_attempts [OF assms(1) a(1)] by (subst deliver_loop.simps) (simp add: a(2))
  show "d = min (delay * 2 ^ n) hi"
    using attempts_delay [of wait hi sink m n delay 0 e d e1] a(1) assms(2) by (simp add: min_def)
next
  fix e' assume "deliver_loop wait hi sink m delay e = Some (True, e')"
  from deliver_loop_result [OF this] assms(1) show "\<exists>e0 u. sk_deliver sink m e0 = (Ok u, e')"
    by (simp add: loop_result_def)
next
  fix e' assume "deliver_loop wait hi sink m delay e = Some (False, e')"
  from deliver_loop_result [OF this] show "\<exists>d e0. wait d e0 = (True, e')" by (simp add: loop_result_def)
qed

text \<open>Deduplication and delivery agree: a message is handed to the sinks exactly when its
  identifier is not live in the cache; after a complete delivery the identifier is remembered,
  after an interrupted one it is forgotten, so that a retransmission is accepted again.\<close>

lemma accept_dedup:
  assumes "dedup_ok (pi_dedup st)" and "accept_verified su pl v st = Some (st', ou)"
    and "i = envelope_id (su_sha su) (im_raw_envelope (vf_message v))"
  shows "dedup_ok (pi_dedup st')
    \<and> (ou_fanned ou \<noteq> [] \<longleftrightarrow> i \<notin> fst ` set (live (su_clock su (pi_env st)) (pi_dedup st)))
    \<and> (\<forall>am. (am, True) \<in> set (ou_fanned ou) \<longrightarrow> i \<in> dc_seen (pi_dedup st'))
    \<and> (\<forall>am now. (am, False) \<in> set (ou_fanned ou) \<longrightarrow> fst (insert_if_new_at i now (pi_dedup st')))"
proof -
  obtain new dedup where ins: "insert_if_new_at i (su_clock su (pi_env st)) (pi_dedup st) = (new, dedup)"
    by (metis surj_pair)
  have ok: "dedup_ok dedup" using insert_if_new_at_ok [OF assms(1)] ins by (metis snd_conv)
  have new: "new \<longleftrightarrow> i \<notin> fst ` set (live (su_clock su (pi_env st)) (pi_dedup st))"
    using ins insert_if_new_at_eq [OF assms(1)] by (auto simp: Let_def split: if_splits)
  show ?thesis
  proof (cases new)
    case False
    then show ?thesis using assms(2) ins ok new
      by (auto simp: accept_verified_def Let_def assms(3) [symmetric])
  next
    case True
    then obtain am w e where "ou_fanned ou = [(am, w)]" "pi_dedup st' = (if w then dedup else forget i dedup)"
      using assms(2) ins by (auto simp: accept_verified_def Let_def assms(3) [symmetric] split: option.splits)
    then show ?thesis
      using True new ok forget_ok [OF ok] forget_new [OF ok] insert_new_seen [OF assms(1)] ins by auto
  qed
qed

end
