(* ===== verification/Witnesses.thy ===== *)
theory Witnesses
  imports Batcher Pipeline
begin

text \<open>
  Concrete inputs at which the theorems of the other theories apply. Each witness takes small
  executable stand-ins for the libraries (a constant digest, a signature scheme that always
  accepts, a cache of one entry, redb tables as association lists), shows that every hypothesis of
  its theorem holds there and states what the theorem then gives.
\<close>

section \<open>Framing\<close>

definition sha0 :: "bytes \<Rightarrow> bytes" where
  "sha0 b = replicate 32 0"

definition raw300 :: bytes where
  "raw300 = replicate 300 7"

lemma digest_sha0: "digest_len sha0"
  by (simp add: digest_len_def sha0_def)

lemma raw300_frames: "encode_frames sha0 raw300 = Ok (projr (encode_frames sha0 raw300))"
  by code_simp

theorem encode_frames_total_witness:
  "digest_len sha0 \<and> (encode_frames sha0 [] = Err EncodeEmptyPayload) \<and>
   ((\<exists>n. encode_frames sha0 raw300 = Err (EncodeTooManyFragments n)) \<longleftrightarrow> MAX_REASSEMBLED_BYTES < length raw300)"
  using digest_sha0 encode_frames_total [OF digest_sha0, of "[]"] encode_frames_total [OF digest_sha0, of raw300]
  by blast

section \<open>Reassembly\<close>

definition cfg0 :: ReassemblerConfig where
  "cfg0 = \<lparr>max_reassembled_bytes = 1000, max_fragments = 4, max_pending = 2, max_pending_per_sender = 1,
           idle_timeout = 5, absolute_timeout = 9\<rparr>"

abbreviation frag0 :: "nat \<Rightarrow> FragmentFrame" where
  "frag0 i \<equiv> fragments_of sha0 raw300 ! i"

lemma reach0: "reassembler_reach sha0 cfg0 (snd (the (accept sha0 3 7 (frag0 1) (new_reassembler cfg0))))"
proof -
  have "accept sha0 3 7 (frag0 1) (new_reassembler cfg0) =
      Some (Progress, snd (the (accept sha0 3 7 (frag0 1) (new_reassembler cfg0))))" by code_simp
  then show ?thesis by (rule reach_accept [OF reach_new])
qed

abbreviation half0 :: Reassembler where
  "half0 \<equiv> snd (the (accept sha0 3 7 (frag0 1) (new_reassembler cfg0)))"

theorem reassembler_invariant_witness:
  "reassembler_reach sha0 cfg0 half0 \<and> reassembler_ok half0 \<and>
   buffered_bytes half0 \<le> max_pending cfg0 * max_reassembled_bytes cfg0"
  by (rule conjI [OF reach0 reassembler_invariant [OF reach0]])

section \<open>Envelopes\<close>

text \<open>A signature scheme whose signatures all verify, and the hexadecimal coding.\<close>

definition pub0 :: "nat \<Rightarrow> bytes" where
  "pub0 k = replicate 32 (word_of_nat k)"

definition sign0 :: "nat \<Rightarrow> bytes \<Rightarrow> bytes" where
  "sign0 k m = replicate 64 0"

definition vrf0 :: "bytes \<Rightarrow> bytes \<Rightarrow> bytes \<Rightarrow> bool" where
  "vrf0 s m k = True"

lemma ed25519_ok0: "ed25519_ok pub0 sign0 vrf0"
  by (simp add: ed25519_ok_def pub0_def sign0_def vrf0_def)

definition env0 :: SignedEnvelope where
  "env0 = sign_message pub0 sign0 (replicate 16 5) 1 [1, 2, 3] None"

definition sensor0 :: SensorId where
  "sensor0 = SensorId (pub0 1)"

lemma verify_env0: "verify_envelope vrf0 env0 = Ok \<lparr>ve_sensor_id = sensor0, ve_envelope = env0\<rparr>"
  by code_simp

definition hex_enc0 :: "bytes \<Rightarrow> string" where
  "hex_enc0 b = concat (map (\<lambda>x. [hex_digit (unat x div 16), hex_digit (unat x mod 16)]) b)"

definition hex_val0 :: "char \<Rightarrow> nat" where
  "hex_val0 c = (let n = of_char c in if n < 58 then n - 48 else n - 87)"

fun hex_dec0 :: "string \<Rightarrow> string + bytes" where
  "hex_dec0 [] = Ok []"
| "hex_dec0 [c] = Err ''odd''"
| "hex_dec0 (c # d # s) =
     (case hex_dec0 s of Err e \<Rightarrow> Err e | Ok b \<Rightarrow> Ok (word_of_nat (16 * hex_val0 c + hex_val0 d) # b))"

lemma hex_val_digit: "d < 16 \<Longrightarrow> hex_val0 (hex_digit d) = d"
  by (auto simp: hex_val0_def hex_digit_def Let_def)

lemma hex_ok0: "hex_ok hex_enc0 hex_dec0"
proof -
  have "hex_dec0 (hex_enc0 b) = Ok b" for b
  proof (induction b)
    case (Cons x b)
    have "unat x < 256" using unsigned_less [of x] by simp
    then have "hex_val0 (hex_digit (unat x div 16)) = unat x div 16" "hex_val0 (hex_digit (unat x mod 16)) = unat x mod 16"
      by (simp_all add: hex_val_digit)
    with Cons show ?case by (simp add: hex_enc0_def)
  qed (simp add: hex_enc0_def)
  moreover have "\<not> ascii_space (hex_digit d)" if "d < 16" for d
  proof -
    have "(of_char (hex_digit d) :: nat) \<ge> 48" using that by (simp add: hex_digit_def)
    then show ?thesis by (auto simp: ascii_space_def)
  qed
  moreover have "unat x div 16 < 16" for x :: u8
    using unsigned_less [where 'a = nat, of x] by (simp add: less_mult_imp_div_less)
  ultimately show ?thesis by (auto simp: hex_ok_def hex_enc0_def)
qed

section \<open>Deduplication\<close>

definition dedup0 :: DedupCache where
  "dedup0 = new_dedup 3 10"

lemma dedup0_ok: "dedup_ok dedup0"
  by code_simp

abbreviation id0 :: EnvelopeId where
  "id0 \<equiv> EnvelopeId [1]"

theorem dedup_suppresses_replay_witness:
  "dedup_ok dedup0 \<and> insert_if_new_at id0 4 dedup0 = (True, snd (insert_if_new_at id0 4 dedup0)) \<and>
   fst (insert_if_new_at id0 9 (dedup_run [(EnvelopeId [2], 5), (EnvelopeId [3], 6)]
     (snd (insert_if_new_at id0 4 dedup0)))) = False"
proof -
  have ins: "insert_if_new_at id0 4 dedup0 = (True, snd (insert_if_new_at id0 4 dedup0))" by code_simp
  have h: "length [(EnvelopeId [2], 5), (EnvelopeId [3], 6)] < dc_capacity dedup0"
    "\<forall>(_, t)\<in>set [(EnvelopeId [2], 5), (EnvelopeId [3], 6)]. t < 4 + dc_ttl dedup0" "9 < 4 + dc_ttl dedup0"
    by code_simp+
  from conjI [OF dedup0_ok conjI [OF ins dedup_suppresses_replay [OF dedup0_ok ins h]]] show ?thesis .
qed

section \<open>Authorization\<close>

text \<open>A cache of one entry, and a chain on which \<open>sensor0\<close> is bound to node 5 below root 1 and no
  other sensor is bound.\<close>

type_synonym one = "(bytes \<times> Entry) option"

definition view1 :: "one \<Rightarrow> bytes \<Rightarrow> Entry option" where
  "view1 c = (case c of None \<Rightarrow> Map.empty | Some (k, e) \<Rightarrow> [k \<mapsto> e])"

definition lru1 :: "one lru_ops" where
  "lru1 = \<lparr>lru_get = (\<lambda>c k. (view1 c k, c)),
           lru_pop = (\<lambda>c k. case c of None \<Rightarrow> None | Some (k', e) \<Rightarrow> if k' = k then None else c),
           lru_put = (\<lambda>c k e. Some (k, e)),
           lru_len = (\<lambda>c. case c of None \<Rightarrow> 0 | Some _ \<Rightarrow> 1)\<rparr>"

lemma lru1_laws: "lru_laws lru1 view1 1"
  by (auto simp: lru_laws_def lru1_def view1_def map_le_def split: option.splits if_splits)

definition snap0 :: CpsSnapshot where
  "snap0 = \<lparr>snap_node_of = (\<lambda>s. Ok (if s = sensor0 then Some 5 else None)),
            snap_lineage = (\<lambda>n. Ok (if n = 5 then Parent 1 else if n = 1 then Root else Missing))\<rparr>"

definition reader0 :: CpsReader where
  "reader0 = \<lparr>rd_verify = Ok (), rd_snapshot = Ok snap0\<rparr>"

definition auth0 :: "one CpsAuth" where
  "auth0 = new_cps_auth 1 None 30"

definition stranger :: SensorId where
  "stranger = SensorId (pub0 2)"

abbreviation authorized0 :: "(AuthError + bool) \<times> one CpsAuth \<times> metric list" where
  "authorized0 \<equiv> cps_authorize lru1 7 (InTime 8) reader0 sensor0 auth0"

definition env_cps0 :: cps_env where
  "env_cps0 = \<lparr>ce_now = 7, ce_race = InTime 8, ce_reader = reader0\<rparr>"

abbreviation calls0 :: "SensorId list \<times> one CpsAuth" where
  "calls0 \<equiv> calls (cps_policy lru1) [(env_cps0, True, sensor0), (env_cps0, True, stranger)] (new_cps_auth 1 None 30)"

section \<open>Ingress\<close>

definition dec0 :: "bytes \<Rightarrow> string + SignedEnvelope" where
  "dec0 b = (if b = [] then Err ''empty'' else Ok env0)"

abbreviation wire0 :: "nat \<Rightarrow> bytes" where
  "wire0 i \<equiv> projr (encode_frames sha0 raw300) ! i"

text \<open>The second frame comes twice before the first one and once more afterwards.\<close>

abbreviation arr0 :: "(instant \<times> SystemTime \<times> bytes) list" where
  "arr0 \<equiv> [(3, 100, wire0 1), (4, 101, wire0 1), (5, 102, wire0 0), (6, 103, wire0 1)]"

theorem meshtastic_end_to_end_witness:
  "dec0 raw300 = Ok env0 \<and>
   (\<exists>r' ms. session_loop sha0 dec0 default_meshtastic (map (frame_event default_meshtastic 7) arr0) (new_reassembler cfg0) =
      Some (None, [\<lparr>im_envelope = env0, im_raw_envelope = raw300,
                    im_transport = meshtastic_metadata 7, im_received_at = 102\<rparr>], r', ms)
    \<and> map_of (re_assemblies r') (7, message_id sha0 raw300) \<noteq> None)"
proof -
  have d: "dec0 raw300 = Ok env0" by code_simp
  have s: "set (map (snd \<circ> snd) arr0) \<subseteq> set (projr (encode_frames sha0 raw300))"
    "completions (set (projr (encode_frames sha0 raw300))) {} arr0 = [102]"
    "left_over (set (projr (encode_frames sha0 raw300))) {} arr0 \<noteq> {}" by code_simp+
  have a: "map_of (re_assemblies (new_reassembler cfg0)) (7, message_id sha0 raw300) = None" by code_simp
  have l: "length (fragments_of sha0 raw300) \<le> max_fragments (re_config (new_reassembler cfg0))"
    "length (re_assemblies (new_reassembler cfg0)) < max_pending (re_config (new_reassembler cfg0))"
    "sender_pending (new_reassembler cfg0) 7 < max_pending_per_sender (re_config (new_reassembler cfg0))"
    "length raw300 \<le> max_reassembled_bytes (re_config (new_reassembler cfg0))" by code_simp+
  from meshtastic_end_to_end [where dec = dec0 and config = default_meshtastic, OF digest_sha0 raw300_frames d s(1) a l]
  show ?thesis using d s(3) unfolding s(2) by auto
qed

theorem serve_session_safe_witness:
  "\<exists>e sent r' ms. serve_session sha0 dec0 default_meshtastic
       (map (frame_event default_meshtastic 7) [(3, 100, wire0 1), (4, 101, wire0 0)]) = Some (e, sent, r', ms) \<and>
     reassembler_ok r' \<and>
     (\<forall>m\<in>set sent. message_ok sha0 dec0 default_meshtastic
       (map (frame_event default_meshtastic 7) [(3, 100, wire0 1), (4, 101, wire0 0)]) m)"
  by (rule serve_session_safe)

definition send0 :: "IngressMessage \<Rightarrow> IngressMessage list \<Rightarrow> TrySend \<times> IngressMessage list" where
  "send0 m ch = (if length ch < 2 then (Sent, ch @ [m]) else (Full, ch))"

definition im0 :: IngressMessage where
  "im0 = \<lparr>im_envelope = env0, im_raw_envelope = [9], im_transport = http_metadata None, im_received_at = 50\<rparr>"

abbreviation ingest0 :: "(StatusCode \<times> string) \<times> IngressMessage list \<times> metric list" where
  "ingest0 \<equiv> ingest dec0 send0 50 [9] []"

section \<open>The authorization stage\<close>

definition fresh0 :: "task_id list \<Rightarrow> task_id" where
  "fresh0 xs = Suc (sum_list xs)"

lemma fresh_ok0: "fresh_ok fresh0"
proof -
  have "x \<le> sum_list xs" if "x \<in> set xs" for x and xs :: "nat list"
    using that by (simp add: member_le_sum_list)
  then show ?thesis by (fastforce simp: fresh_ok_def fresh0_def)
qed

definition limits0 :: AuthLimits where
  "limits0 = \<lparr>al_max_concurrent = 1, al_max_pending = 1\<rparr>"

definition verified0 :: Verified where
  "verified0 = \<lparr>vf_message = im0, vf_verified = \<lparr>ve_sensor_id = sensor0, ve_envelope = env0\<rparr>\<rparr>"

abbreviation stage0 :: "one CpsAuth AuthStage" where
  "stage0 \<equiv> fst (snd (admit fresh0 (cps_policy lru1) env_cps0 verified0 (new_auth_stage auth0 limits0)))"

lemma reach_stage0: "(stage_step fresh0 (cps_policy lru1))\<^sup>*\<^sup>* (new_auth_stage auth0 limits0) stage0"
  by (rule r_into_rtranclp, rule step_admit [where r = env_cps0 and m = verified0], rule prod_eqI)
    (simp_all add: prod_eq_iff)

theorem auth_stage_waiting_lists_witness:
  "stage_ok (new_auth_stage auth0 limits0) \<and>
   admit fresh0 (cps_policy lru1) env_cps0 verified0 (new_auth_stage auth0 limits0) = (Parked, stage0,
     snd (snd (admit fresh0 (cps_policy lru1) env_cps0 verified0 (new_auth_stage auth0 limits0)))) \<and>
   waiting stage0 = (waiting (new_auth_stage auth0 limits0))
     (sensor0 := waiting (new_auth_stage auth0 limits0) sensor0 @ [verified0])"
proof -
  have ok: "stage_ok (new_auth_stage auth0 limits0)" by (rule new_auth_stage_ok)
  have run: "admit fresh0 (cps_policy lru1) env_cps0 verified0 (new_auth_stage auth0 limits0) = (Parked, stage0,
     snd (snd (admit fresh0 (cps_policy lru1) env_cps0 verified0 (new_auth_stage auth0 limits0))))" by code_simp
  have s: "sensor_of verified0 = sensor0" by (simp add: verified0_def)
  from auth_stage_waiting_lists [OF ok, THEN conjunct1, THEN spec, THEN spec, THEN spec, THEN spec, THEN mp, OF run]
  show ?thesis using ok run by (simp only: s Admission.case)
qed

section \<open>The pipeline\<close>

text \<open>One optional sink that counts deliveries in the environment, and one required sink that
  accepts from its third attempt on.\<close>

definition log_sink :: "nat MessageSink" where
  "log_sink = channel_sink ''log'' (\<lambda>m e. (True, Suc e))"

definition slow_sink :: "nat MessageSink" where
  "slow_sink = \<lparr>sk_name = ''slow'', sk_required = True,
     sk_deliver = (\<lambda>m e. if e < 2 then (Err (SinkDelivery ''slow'' ''busy''), e) else (Ok (), e))\<rparr>"

definition wait0 :: "duration \<Rightarrow> nat \<Rightarrow> bool \<times> nat" where
  "wait0 d e = (False, Suc e)"

definition surround :: "'r \<Rightarrow> ('r, nat) surroundings" where
  "surround r = \<lparr>su_sha = sha0, su_vrf = vrf0, su_fresh = fresh0, su_clock = (\<lambda>_. 5),
                 su_observe = (\<lambda>_. r), su_wait = wait0\<rparr>"

lemma fresh_surround: "fresh_ok (su_fresh (surround r))"
  using fresh_ok0 by (simp add: surround_def)

definition pipe_w :: "(Whitelist, unit, nat) Pipeline" where
  "pipe_w = \<lparr>pp_auth = whitelist_policy, pp_auth_limits = limits0, pp_sinks = [log_sink, slow_sink],
             pp_required_retry = (1, 8)\<rparr>"

definition start_w :: "(Whitelist, nat) PipelineState" where
  "start_w = pipeline_start pipe_w \<lparr>wl_allowed = {sensor0}\<rparr> dedup0 0"

abbreviation run_w :: "((Whitelist, nat) PipelineState \<times> unit outputs) option" where
  "run_w \<equiv> pipeline_run (surround ()) pipe_w [IngressEvent im0, IngressEvent im0] start_w"

definition accepted0 :: AcceptedMessage where
  "accepted0 = \<lparr>am_sensor_id = sensor0, am_envelope = env0, am_raw_envelope = [9],
     am_envelope_id = envelope_id sha0 [9], am_transport = http_metadata None, am_received_at = 50\<rparr>"

lemma some_the: "\<not> Option.is_none x \<Longrightarrow> x = Some (fst (the x), snd (the x))"
  by (cases x) auto

lemma run_w: "run_w = Some (fst (the run_w), snd (the run_w))"
  by (rule some_the) code_simp

lemma run_w_fanned: "ou_fanned (snd (the run_w)) = [(accepted0, True)]"
  by code_simp

theorem pipeline_whitelist_safe_witness:
  "(accepted0, True) \<in> set (ou_fanned (snd (the run_w))) \<and>
   accepted_ok (surround ()) (ingested [IngressEvent im0, IngressEvent im0 :: nat pipeline_event]) {sensor0} accepted0"
proof -
  have m: "(accepted0, True) \<in> set (ou_fanned (snd (the run_w)))" by (simp only: run_w_fanned list.set_intros)
  have p: "pp_auth pipe_w = whitelist_policy" by (simp add: pipe_w_def)
  from pipeline_whitelist_safe [OF fresh_surround p run_w [unfolded start_w_def] m [unfolded start_w_def]] m
  show ?thesis by simp
qed

definition pipe_c :: "(one CpsAuth, cps_env, nat) Pipeline" where
  "pipe_c = \<lparr>pp_auth = cps_policy lru1, pp_auth_limits = limits0, pp_sinks = [log_sink],
             pp_required_retry = (1, 8)\<rparr>"

abbreviation run_c :: "((one CpsAuth, nat) PipelineState \<times> cps_env outputs) option" where
  "run_c \<equiv> pipeline_run (surround env_cps0) pipe_c [IngressEvent im0, TaskFinished 1, Joined 1]
     (pipeline_start pipe_c (new_cps_auth 1 None 30) dedup0 0)"

lemma run_c: "run_c = Some (fst (the run_c), snd (the run_c))"
  by (rule some_the) code_simp

lemma run_c_fanned: "(accepted0, True) \<in> set (ou_fanned (snd (the run_c)))"
  by code_simp

theorem pipeline_cps_safe_witness:
  "(accepted0, True) \<in> set (ou_fanned (snd (the run_c))) \<and>
   accepted_ok (surround env_cps0) (ingested [IngressEvent im0, TaskFinished 1, Joined 1 :: nat pipeline_event])
     {s. \<exists>r. (r, s, Ok True) \<in> set (ou_lookups (snd (the run_c))) \<and> on_chain 1 r s} accepted0"
proof -
  have v: "view1 None = Map.empty" by (simp add: view1_def)
  have p: "pp_auth pipe_c = cps_policy lru1" by (simp add: pipe_c_def)
  from conjI [OF run_c_fanned pipeline_cps_safe [OF lru1_laws v fresh_surround p run_c run_c_fanned]]
  show ?thesis .
qed

theorem pipeline_accounts_for_all_witness:
  "quiet (pp_auth pipe_w) \<and>
   length (filter (\<lambda>ev. \<exists>m. ev = IngressEvent m) [IngressEvent im0, IngressEvent im0 :: nat pipeline_event]) =
    counted VALIDATION_REJECTED_TOTAL (ou_metrics (snd (the run_w))) +
    counted AUTH_REJECTED_TOTAL (ou_metrics (snd (the run_w))) +
    counted DEDUP_DROPPED_TOTAL (ou_metrics (snd (the run_w))) +
    counted AUTH_CPS_LOOKUP_ERROR_TOTAL (ou_metrics (snd (the run_w))) +
    length (ou_fanned (snd (the run_w))) + sg_pending (pi_stage (fst (the run_w))) +
    (case pi_waiting (fst (the run_w)) of None \<Rightarrow> 0 | Some _ \<Rightarrow> 1)"
proof -
  have q: "quiet (pp_auth pipe_w)"
    by (simp add: quiet_def silent_def pipe_w_def whitelist_policy_def)
  have s: "Shutdown \<notin> set [IngressEvent im0, IngressEvent im0 :: nat pipeline_event]" by simp
  from conjI [OF q pipeline_accounts_for_all [OF fresh_surround q s run_w [unfolded start_w_def]]]
  show ?thesis unfolding start_w_def .
qed

section \<open>The batch store and the batcher\<close>

type_synonym list_db = "((u64 \<times> bytes) list, (string \<times> bytes) list) RedbBatchStore"

definition db0 :: list_db where
  "db0 = \<lparr>db_pending = [], db_ready = [], db_meta = []\<rparr>"

abbreviation db1 :: list_db where
  "db1 \<equiv> snd (push_message list_redb IoOk 40 [9] db0)"

lemma db0_ok: "store_ok list_redb db0"
  by code_simp

lemma counters0: "counter list_redb NEXT_SEQUENCE db0 = 0" "counter list_redb NEXT_BATCH_ID db0 = 0"
  "counter list_redb NEXT_SEQUENCE db1 = 1" "counter list_redb NEXT_BATCH_ID db1 = 0"
  by code_simp+

lemma spare0: "n < 100 \<Longrightarrow> spare list_redb n db0" "n < 100 \<Longrightarrow> spare list_redb n db1"
  by (simp_all add: spare_def counters0)

lemma db0_spare: "spare list_redb 1 db0"
  by (simp add: spare0)

lemma db1_ok: "store_ok list_redb db1"
  by code_simp

lemma push_db0: "push_message list_redb IoOk 40 [9] db0 = (Ok 0, db1)"
  by code_simp

definition prepared0 :: PreparedBatch where
  "prepared0 = \<lparr>pb_message_count = 1, pb_payload = [4, 4]\<rparr>"

abbreviation commit0 :: "(StoreError + BatchId list) \<times> list_db" where
  "commit0 \<equiv> commit_batches list_redb IoOk 41 [0] [prepared0] db1"

theorem commit_batches_atomic_witness:
  "commit0 = (Ok [0], snd commit0) \<and> store_ok list_redb (snd commit0) \<and>
   map sb_id (ready_queue list_redb (snd commit0)) = map sb_id (ready_queue list_redb db1) @ [0]"
proof -
  have run: "commit0 = (Ok [0], snd commit0)" by code_simp
  have "spare list_redb (length [prepared0]) db1" by (simp add: spare0)
  from commit_batches_atomic [OF list_redb_laws db1_ok this run] run show ?thesis by simp
qed

definition format0 :: FormatDescriptor where
  "format0 = config_format_descriptor default_batcher"

abbreviation reconcile0 :: "(FormatError + FormatOutcome) \<times> list_db" where
  "reconcile0 \<equiv> reconcile_format list_redb (IoOk, IoOk, IoOk) format0 db1"

text \<open>A stand-in for protobuf: each byte of a field after a 1, a 0 at its end, four fields per
  envelope.\<close>

definition field0 :: "bytes \<Rightarrow> bytes" where
  "field0 b = concat (map (\<lambda>x. [1, x]) b) @ [0]"

fun fields0 :: "bytes \<Rightarrow> bytes list" where
  "fields0 [] = []"
| "fields0 (t # s) =
     (if t = 0 then [] # fields0 s
      else case s of
             [] \<Rightarrow> []
           | x # r \<Rightarrow> (case fields0 r of [] \<Rightarrow> [[x]] | f # fs \<Rightarrow> (x # f) # fs))"

fun group0 :: "bytes list \<Rightarrow> SignedEnvelope list" where
  "group0 (a # b # c # d # r) =
     \<lparr>env_sensor_id = a, env_nonce = b, env_message = c, env_signature = d\<rparr> # group0 r"
| "group0 _ = []"

definition enc0 :: "SignedEnvelope list \<Rightarrow> bytes" where
  "enc0 es = concat (map (\<lambda>e. field0 (env_sensor_id e) @ field0 (env_nonce e) @ field0 (env_message e) @
     field0 (env_signature e)) es)"

lemma fields_field: "fields0 (field0 b @ s) = b # fields0 s"
  by (induction b) (simp_all add: field0_def)

lemma group_enc: "group0 (fields0 (enc0 es)) = es"
  by (induction es) (simp_all add: enc0_def fields_field)

definition codec0 :: codec where
  "codec0 = \<lparr>cd_decode = dec0, cd_encode_batch = enc0, cd_zstd = Ok, cd_delim_len = (\<lambda>_. 1)\<rparr>"

definition bcfg0 :: BatcherConfig where
  "bcfg0 = \<lparr>max_batch_age_secs = 1, max_batch_size = 500, max_messages = 1, compression = CompressNone\<rparr>"

lemma codec0_reads: "codec_reads codec0 Ok (\<lambda>b. Ok (group0 (fields0 b)))"
  by (simp add: codec_reads_def codec0_def group_enc)

definition turn0 :: turn where
  "turn0 = \<lparr>tn_read = IoOk, tn_commit = IoOk, tn_time = 42\<rparr>"

abbreviation step0 :: "(BatchError + Step) \<times> list_db \<times> metric list" where
  "step0 \<equiv> step (redb_api list_redb) codec0 bcfg0 turn0 41 False db1"

lemma max_messages0: "0 < max_messages bcfg0" "max_messages bcfg0 = 1"
  by (simp_all add: bcfg0_def)

lemma encode0: "\<forall>ms. \<exists>r. encode codec0 bcfg0 ms = Ok r"
  by (simp add: encode_def compress_def codec0_def bcfg0_def Let_def)

lemma pending1: "pending_queue list_redb db1 = [\<lparr>sm_sequence = 0, sm_received_at = 40, sm_envelope = [9]\<rparr>]"
  by code_simp

lemma select1: "select codec0 bcfg0 (pending_queue list_redb db1) 41 = \<lparr>se_len = 1, se_reason = Some CountReached\<rparr>"
  by (simp add: select_def bcfg0_def codec0_def pending1 Let_def)

lemma step0_flushes: "fst step0 = Ok Flushed"
proof -
  note st = redb_batch_store [OF list_redb_laws] and api = redb_implements [OF list_redb_laws]
  obtain r s' ms where run: "step0 = (r, s', ms)" by (metis surj_pair)
  have "spare list_redb (max_messages bcfg0) db1" by (simp add: spare0 max_messages0)
  then have "\<not> isl r"
    using batch_store.step_io [OF st api db1_ok _ max_messages0(1) encode0 _ _ run] by (simp add: turn0_def)
  then obtain x where x: "r = Ok x" by (cases r) auto
  have "x \<noteq> Idle" "x \<noteq> Wait d" for d
    using batch_store.step_idle_wait [OF st api db1_ok run [unfolded x] max_messages0(1)]
      select1 unfolding max_messages0(2) by (auto simp: pending1)
  then show ?thesis using run x by (cases x) auto
qed

theorem batch_step_lossless_witness:
  "fst step0 = Ok Flushed \<and> store_ok list_redb (fst (snd step0)) \<and>
   (\<exists>k. 1 \<le> k \<and> k \<le> length (pending_queue list_redb db1) \<and>
      pending_queue list_redb (fst (snd step0)) = drop k (pending_queue list_redb db1))"
proof -
  note r = step0_flushes
  have run: "step0 = (fst step0, fst (snd step0), snd (snd step0))" by (simp only: prod.collapse)
  have sp: "spare list_redb (max_messages bcfg0) db1" by (simp add: spare0 max_messages0)
  from batch_step_lossless [OF list_redb_laws db1_ok sp max_messages0(1) codec0_reads run] r show ?thesis
    by auto
qed

lemma small0: "\<forall>m\<in>set (fst (decode_candidate codec0 (pending_queue list_redb db1))). \<not> oversize codec0 bcfg0 m"
  by code_simp

lemma spare1: "spare list_redb (max_messages bcfg0 * Suc (length (pending_queue list_redb db1))) db1"
  by (simp add: pending1 max_messages0 spare0)

lemma turns0: "\<forall>n. tn_read ((\<lambda>_. turn0) n) = IoOk \<and> tn_commit ((\<lambda>_. turn0) n) = IoOk"
  by (simp add: turn0_def)

theorem flush_all_empties_witness:
  "\<exists>db' ms. flush_all (redb_api list_redb) codec0 bcfg0 (\<lambda>_. turn0) (\<lambda>_. 41) 0 db1 = Some (Ok (), db', ms) \<and>
     store_ok list_redb db' \<and> pending_queue list_redb db' = [] \<and>
     batched_envelopes Ok (\<lambda>b. Ok (group0 (fields0 b))) bcfg0 (ready_queue list_redb db') =
     batched_envelopes Ok (\<lambda>b. Ok (group0 (fields0 b))) bcfg0 (ready_queue list_redb db1) @
       pending_envelopes codec0 (pending_queue list_redb db1)"
proof -
  from flush_all_empties [OF list_redb_laws db1_ok max_messages0(1) spare1 codec0_reads, of "\<lambda>_. turn0" "\<lambda>_. 41"]
    encode0 turns0 small0
  show ?thesis by (elim exE conjE) auto
qed

end
