(* ===== verification/BatchSink.thy ===== *)
theory BatchSink
  imports Pipeline Batcher
begin

text \<open>
  The durable sink: \<open>crates/edge/src/pipeline/batch_sink.rs\<close>. It writes each accepted envelope to the
  batch store before delivery counts as done. The environment of the pipeline holds the store: \<open>get\<close>
  and \<open>put\<close> read and replace it, and \<open>io\<close> tells how the next store call goes. The wake-up of the
  batcher carries no data.
\<close>

section \<open>The sink\<close>

fun show_store_error :: "StoreError \<Rightarrow> string" where
  "show_store_error (Database e) = ''batch store database error: '' @ e"
| "show_store_error (Corrupt e) = ''batch store contains corrupt data: '' @ e"
| "show_store_error (NotPending i) = ''message '' @ show_nat (unat i) @ '' is not pending''"
| "show_store_error (Task e) = ''batch store task failed: '' @ e"

definition batch_sink ::
  "'s BatchStoreApi \<Rightarrow> ('e \<Rightarrow> io_outcome) \<Rightarrow> ('e \<Rightarrow> 's) \<Rightarrow> ('s \<Rightarrow> 'e \<Rightarrow> 'e) \<Rightarrow> 'e MessageSink" where
  "batch_sink api io get put =
     \<lparr>sk_name = ''batch'', sk_required = True,
      sk_deliver = (\<lambda>m e.
        case api_push api (io e) (timestamp_from (am_received_at m)) (am_raw_envelope m) (get e) of
          (Err source, s) \<Rightarrow> (Err (SinkDelivery ''batch'' (show_store_error source)), put s e)
        | (Ok _, s) \<Rightarrow> (Ok (), put s e))\<rparr>"

section \<open>Lemmas\<close>

text \<open>A delivery that counts as done ends with an accepted attempt, reached through failed ones.\<close>

definition loop_trace ::
  "(duration \<Rightarrow> 'e \<Rightarrow> bool \<times> 'e) \<Rightarrow> duration \<Rightarrow> 'e MessageSink \<Rightarrow> AcceptedMessage \<Rightarrow> duration \<Rightarrow> 'e \<Rightarrow> bool \<times> 'e
    \<Rightarrow> bool" where
  "loop_trace wait hi sink m delay e y \<longleftrightarrow>
     (sk_required sink \<and> fst y \<longrightarrow>
      (\<exists>n d e0 u. attempts wait hi sink m n delay e = Some (d, e0) \<and> sk_deliver sink m e0 = (Ok u, snd y)))"

lemma deliver_loop_trace:
  assumes run: "deliver_loop wait hi sink m delay e = Some y"
  shows "loop_trace wait hi sink m delay e y"
proof (rule deliver_loop.raw_induct [where P = loop_trace, OF _ run])
  fix loop :: "(duration \<Rightarrow> 'a \<Rightarrow> bool \<times> 'a) \<Rightarrow> duration \<Rightarrow> 'a MessageSink \<Rightarrow> AcceptedMessage \<Rightarrow> duration
      \<Rightarrow> 'a \<Rightarrow> (bool \<times> 'a) option"
    and wait hi sink m delay e y
  assume IH: "\<And>wait hi sink m delay e y. loop wait hi sink m delay e = Some y \<Longrightarrow> loop_trace wait hi sink m delay e y"
    and eq: "(case sk_deliver sink m e of
        (Ok _, e1) \<Rightarrow> Some (True, e1)
      | (Err err, e1) \<Rightarrow>
          if \<not> sk_required sink then Some (True, e1)
          else (case wait delay e1 of
                  (stop, e2) \<Rightarrow>
                    if stop then Some (False, e2)
                    else loop wait hi sink m (min (delay * 2) hi) e2)) = Some y"
  obtain res e1 where d: "sk_deliver sink m e = (res, e1)" by (cases "sk_deliver sink m e")
  obtain stop e2 where w: "wait delay e1 = (stop, e2)" by (cases "wait delay e1")
  show "loop_trace wait hi sink m delay e y"
  proof (cases "isl res \<and> sk_required sink \<and> \<not> stop")
    case True
    then obtain err where res: "res = Err err" by (cases res) auto
    have "loop wait hi sink m (min (delay * 2) hi) e2 = Some y" using eq d w True res by simp
    then have "loop_trace wait hi sink m (min (delay * 2) hi) e2 y" by (rule IH)
    then have ih: "\<exists>n d e0 u. attempts wait hi sink m n (min (delay * 2) hi) e2 = Some (d, e0) \<and>
        sk_deliver sink m e0 = (Ok u, snd y)" if "fst y"
      using True that by (auto simp: loop_trace_def)
    show ?thesis unfolding loop_trace_def
    proof
      assume "sk_required sink \<and> fst y"
      with ih obtain n d' e0 u where "attempts wait hi sink m n (min (delay * 2) hi) e2 = Some (d', e0)"
        and acc: "sk_deliver sink m e0 = (Ok u, snd y)" by blast
      then have "attempts wait hi sink m (Suc n) delay e = Some (d', e0)" using d res w True by simp
      with acc show "\<exists>n d e0 u. attempts wait hi sink m n delay e = Some (d, e0) \<and> sk_deliver sink m e0 = (Ok u, snd y)"
        by blast
    qed
  next
    case False
    show ?thesis
    proof (cases res)
      case (Inr u)
      then have "y = (True, e1)" using eq d by simp
      moreover have "attempts wait hi sink m 0 delay e = Some (delay, e)" by simp
      ultimately show ?thesis using d Inr unfolding loop_trace_def by (metis snd_conv)
    next
      case (Inl err)
      then show ?thesis using eq d w False by (auto simp: loop_trace_def split: if_splits)
    qed
  qed
qed

lemma sink_stores:
  assumes "redb_laws ops" and "\<forall>s e. get (put s e) = s"
    and "deliver_loop wait hi (batch_sink (redb_api ops) io get put) m delay e = Some (True, e')"
    and "\<forall>n d e0. attempts wait hi (batch_sink (redb_api ops) io get put) m n delay e = Some (d, e0) \<longrightarrow>
      store_ok ops (get e0) \<and> spare ops 1 (get e0)"
  shows "\<exists>n d e0 i. attempts wait hi (batch_sink (redb_api ops) io get put) m n delay e = Some (d, e0) \<and>
    store_ok ops (get e') \<and> ready_queue ops (get e') = ready_queue ops (get e0) \<and>
    pending_queue ops (get e') = pending_queue ops (get e0) @
      [\<lparr>sm_sequence = i, sm_received_at = timestamp_from (am_received_at m), sm_envelope = am_raw_envelope m\<rparr>]"
proof -
  let ?sink = "batch_sink (redb_api ops) io get put"
  note st = redb_batch_store [OF assms(1)]
  have "sk_required ?sink" by (simp add: batch_sink_def)
  with deliver_loop_trace [OF assms(3)] obtain n d e0 u where
    a: "attempts wait hi ?sink m n delay e = Some (d, e0)" and acc: "sk_deliver ?sink m e0 = (Ok u, e')"
    by (auto simp: loop_trace_def)
  obtain r s where push: "push_message ops (io e0) (timestamp_from (am_received_at m)) (am_raw_envelope m) (get e0) = (r, s)"
    by (metis surj_pair)
  with acc obtain i where i: "r = Ok i" "e' = put s e0"
    by (cases r) (auto simp: batch_sink_def redb_api_def)
  have "store_ok ops (get e0)" "spare ops 1 (get e0)" using assms(4) a by blast+
  from batch_store.push_ok [OF st this push [unfolded i(1)]]
  have "store_ok ops (get e')" "ready_queue ops (get e') = ready_queue ops (get e0)"
    "pending_queue ops (get e') = pending_queue ops (get e0) @
      [\<lparr>sm_sequence = i, sm_received_at = timestamp_from (am_received_at m), sm_envelope = am_raw_envelope m\<rparr>]"
    using assms(2) i(2) by auto
  then show ?thesis using a by blast
qed

lemma sink_failure_keeps:
  assumes "redb_laws ops" and "\<forall>s e. get (put s e) = s"
    and "sk_deliver (batch_sink (redb_api ops) io get put) m e1 = (Err err, e2)"
  shows "get e2 = get e1"
  using assms batch_store.push_err [OF redb_batch_store [OF assms(1)]]
  by (auto simp: batch_sink_def redb_api_def split: sum.splits prod.splits)

section \<open>Delivered means stored\<close>

text \<open>
  Once delivery to the durable sink counts as done, the envelope is in the store: the last attempt
  appended exactly the envelope's bytes with its receive time to the pending messages and left the
  ready batches alone, and the failed attempts before it wrote nothing.
\<close>

lemma batch_sink_durable:
  assumes "redb_laws ops" and "\<forall>s e. get (put s e) = s"
    and "deliver_loop wait hi (batch_sink (redb_api ops) io get put) m delay e = Some (True, e')"
    and "\<forall>n d e0. attempts wait hi (batch_sink (redb_api ops) io get put) m n delay e = Some (d, e0) \<longrightarrow>
      store_ok ops (get e0) \<and> spare ops 1 (get e0)"
  shows "\<exists>n d e0 i. attempts wait hi (batch_sink (redb_api ops) io get put) m n delay e = Some (d, e0) \<and>
    store_ok ops (get e') \<and> ready_queue ops (get e') = ready_queue ops (get e0) \<and>
    pending_queue ops (get e') = pending_queue ops (get e0) @
      [\<lparr>sm_sequence = i, sm_received_at = timestamp_from (am_received_at m), sm_envelope = am_raw_envelope m\<rparr>] \<and>
    (\<forall>e1 err e2. sk_deliver (batch_sink (redb_api ops) io get put) m e1 = (Err err, e2) \<longrightarrow> get e2 = get e1)"
  using sink_stores [OF assms] sink_failure_keeps [OF assms(1,2)] by blast

end
