(* ===== verification/Gossip.thy ===== *)
theory Gossip
  imports BatchSink "HOL-Library.Char_ord" "HOL-Library.List_Lexorder"
begin

text \<open>
  The gossip publisher and the operations endpoints: \<open>crates/edge/src/p2p/mod.rs\<close>,
  \<open>p2p/peers.rs\<close>, \<open>observability/health.rs\<close> and \<open>observability/server.rs\<close>.

  libp2p is a parameter: peer ids and addresses are type variables, each event of the swarm and the
  outcome of each publication is an input of the node's loop, and what the node asks of the swarm
  (dialling, publishing) is an output. One call of \<open>gossip_step\<close> is one round of the \<open>select!\<close>.
\<close>

section \<open>Health\<close>

record Health =
  h_live :: bool
  h_ready :: bool

definition new_health :: Health where
  "new_health = \<lparr>h_live = True, h_ready = False\<rparr>"

definition set_live :: "bool \<Rightarrow> Health \<Rightarrow> Health" where
  "set_live alive h = h\<lparr>h_live := alive\<rparr>"

definition set_ready :: "bool \<Rightarrow> Health \<Rightarrow> Health" where
  "set_ready ready h = h\<lparr>h_ready := ready\<rparr>"

section \<open>Connected peers\<close>

record PeerInfo =
  pi_peer_id :: string
  pi_address :: "string option"
  pi_connected_since_ms :: u64

record 'a PeerEntry =
  pe_connections :: nat
  pe_address :: "'a option"
  pe_since_ms :: u64

type_synonym ('p, 'a) PeerRegistry = "('p, 'a PeerEntry) hashmap"

text \<open>The cast to \<open>u64\<close> truncates.\<close>

definition now_ms :: "SystemTime \<Rightarrow> u64" where
  "now_ms now = (if now < 0 then 0 else word_of_nat (nat now div 1000000))"

definition on_connected ::
  "SystemTime \<Rightarrow> 'p \<Rightarrow> 'a option \<Rightarrow> ('p, 'a) PeerRegistry \<Rightarrow> ('p, 'a) PeerRegistry" where
  "on_connected now peer address table =
     (case map_of table peer of
        Some entry \<Rightarrow>
          let entry' = entry\<lparr>pe_connections := pe_connections entry + 1\<rparr>
          in AList.update peer (if address \<noteq> None then entry'\<lparr>pe_address := address\<rparr> else entry') table
      | None \<Rightarrow>
          AList.update peer \<lparr>pe_connections = 1, pe_address = address, pe_since_ms = now_ms now\<rparr> table)"

definition on_disconnected :: "'p \<Rightarrow> ('p, 'a) PeerRegistry \<Rightarrow> ('p, 'a) PeerRegistry" where
  "on_disconnected peer table =
     (case map_of table peer of
        None \<Rightarrow> table
      | Some entry \<Rightarrow>
          let n = pe_connections entry - 1
          in if n = 0 then AList.delete peer table
             else AList.update peer (entry\<lparr>pe_connections := n\<rparr>) table)"

definition connected_count :: "('p, 'a) PeerRegistry \<Rightarrow> nat" where
  "connected_count table = length table"

text \<open>\<open>base58\<close> and \<open>show_addr\<close> print peer ids and addresses.\<close>

definition snapshot ::
  "('p \<Rightarrow> string) \<Rightarrow> ('a \<Rightarrow> string) \<Rightarrow> ('p, 'a) PeerRegistry \<Rightarrow> PeerInfo list" where
  "snapshot base58 show_addr table =
     sort_key pi_peer_id
       (map (\<lambda>(peer, entry). \<lparr>pi_peer_id = base58 peer, pi_address = map_option show_addr (pe_address entry),
                              pi_connected_since_ms = pe_since_ms entry\<rparr>) table)"

section \<open>The operations endpoints\<close>

definition health_handler :: "Health \<Rightarrow> StatusCode \<times> string" where
  "health_handler h = (if h_live h then (OK, ''ok'') else (SERVICE_UNAVAILABLE, ''unhealthy''))"

definition ready_handler :: "Health \<Rightarrow> StatusCode \<times> string" where
  "ready_handler h = (if h_ready h then (OK, ''ready'') else (SERVICE_UNAVAILABLE, ''not ready''))"

definition peers_handler ::
  "('p \<Rightarrow> string) \<Rightarrow> ('a \<Rightarrow> string) \<Rightarrow> ('p, 'a) PeerRegistry option \<Rightarrow> PeerInfo list" where
  "peers_handler base58 show_addr peers =
     (case peers of None \<Rightarrow> [] | Some table \<Rightarrow> snapshot base58 show_addr table)"

section \<open>Configuration and identity\<close>

definition SECRET_LEN :: nat where
  "SECRET_LEN = 32"

definition quoted :: "string \<Rightarrow> string" where
  "quoted s = char_of (39 :: nat) # s @ [char_of (39 :: nat)]"

record 'a GossipConfig =
  gc_topic :: string
  gc_listen :: "'a list"
  gc_reserved_peers :: "'a list"
  gc_min_connected_peers :: nat

definition parse_multiaddrs :: "(string \<Rightarrow> string + 'a) \<Rightarrow> string list \<Rightarrow> IoError + 'a list" where
  "parse_multiaddrs parse_addr values =
     collect (\<lambda>v. map_err (\<lambda>err. InvalidInput (''invalid multiaddr '' @ quoted v @ '': '' @ err)) (parse_addr v)) values"

definition from_pubsub :: "(string \<Rightarrow> string + 'a) \<Rightarrow> PubsubConfig \<Rightarrow> IoError + 'a GossipConfig" where
  "from_pubsub parse_addr config =
     (case parse_multiaddrs parse_addr (ps_listen config) of
        Err e \<Rightarrow> Err e
      | Ok listen \<Rightarrow>
          (case parse_multiaddrs parse_addr (ps_reserved_peers config) of
             Err e \<Rightarrow> Err e
           | Ok reserved_peers \<Rightarrow>
               Ok \<lparr>gc_topic = ps_topic config, gc_listen = listen, gc_reserved_peers = reserved_peers,
                   gc_min_connected_peers = ps_min_connected_peers config\<rparr>))"

text \<open>The identity file is its path and contents, \<open>None\<close> when it does not exist. \<open>read\<close> and \<open>write\<close> are
  the file operations: what reading the contents gives, and the error of a write with what the file
  holds afterwards. \<open>from_bytes\<close> is \<open>ed25519_from_bytes\<close>; \<open>generated\<close> and \<open>seed\<close> are the random choices.\<close>

record file_io =
  fi_read :: "string \<Rightarrow> IoError + string"
  fi_write :: "string \<Rightarrow> IoError option \<times> string option"

definition load_or_create_identity ::
  "(bytes \<Rightarrow> string) \<Rightarrow> (string \<Rightarrow> string + bytes) \<Rightarrow> (bytes \<Rightarrow> string + 'k) \<Rightarrow> file_io \<Rightarrow> 'k \<Rightarrow> bytes
    \<Rightarrow> string option \<Rightarrow> string option \<Rightarrow> (IoError + 'k) \<times> string option" where
  "load_or_create_identity hex_enc hex_dec from_bytes io generated seed identity_file contents =
     (case identity_file of
        None \<Rightarrow> (Ok generated, contents)
      | Some path \<Rightarrow>
          (case contents of
             Some text \<Rightarrow>
               (case fi_read io text of
                  Err e \<Rightarrow> (Err e, contents)
                | Ok encoded \<Rightarrow>
                    (case strip_0x (trim encoded) of
                       Err err \<Rightarrow> (Err (InvalidData (''invalid identity hex in '' @ path @ '': '' @ show_protocol_error err)),
                                  contents)
                     | Ok stripped \<Rightarrow>
                         (case hex_dec stripped of
                            Err err \<Rightarrow> (Err (InvalidData (''invalid identity hex in '' @ path @ '': '' @ err)), contents)
                          | Ok bytes \<Rightarrow>
                              if length bytes \<noteq> SECRET_LEN
                              then (Err (InvalidData (''identity '' @ path @ '' must be '' @ show_nat SECRET_LEN @
                                      '' bytes, got '' @ show_nat (length bytes))), contents)
                              else (map_err (\<lambda>err. InvalidData (''invalid ed25519 identity in '' @ path @ '': '' @ err))
                                      (from_bytes bytes), contents))))
           | None \<Rightarrow>
               (case fi_write io (''0x'' @ hex_enc seed) of
                  (Some e, contents') \<Rightarrow> (Err e, contents')
                | (None, contents') \<Rightarrow>
                    (map_err (\<lambda>err. OtherIo (''failed to build ed25519 identity: '' @ err)) (from_bytes seed),
                     contents'))))"

section \<open>The node\<close>

record ('p, 'a) GossipNode =
  gn_topic :: string
  gn_reserved_peers :: "'a list"
  gn_min_connected_peers :: nat
  gn_peers :: "('p, 'a) PeerRegistry"
  gn_health :: "Health option"
  gn_inbound :: bool

text \<open>What the node asks of the swarm, sends to its observers and reports.\<close>

datatype ('p, 'a) gossip_output =
    Dial 'a
  | PublishTo string bytes
  | ListenAddr 'a
  | Inbound "'p option" bytes
  | Report metric

text \<open>\<open>build\<close> is the error of building the swarm, if any; \<open>subscribe\<close> and \<open>listen_on\<close> are those of the swarm.\<close>

definition new_gossip_node ::
  "string option \<Rightarrow> string option \<Rightarrow> ('a \<Rightarrow> string option) \<Rightarrow> ('a \<Rightarrow> string) \<Rightarrow> 'a GossipConfig \<Rightarrow> ('p, 'a) PeerRegistry
    \<Rightarrow> Health option \<Rightarrow> bool \<Rightarrow> IoError + ('p, 'a) GossipNode" where
  "new_gossip_node build subscribe listen_on show_addr config peers health inbound =
     (case build of Some err \<Rightarrow> Err (OtherIo err) | None \<Rightarrow>
      case subscribe of
        Some err \<Rightarrow> Err (OtherIo (''failed to subscribe to '' @ quoted (gc_topic config) @ '': '' @ err))
      | None \<Rightarrow>
          (case collect (\<lambda>addr. case listen_on addr of
                  Some err \<Rightarrow> Err (OtherIo (''failed to listen on '' @ show_addr addr @ '': '' @ err))
                | None \<Rightarrow> Ok ()) (gc_listen config) of
             Err e \<Rightarrow> Err e
           | Ok _ \<Rightarrow>
               Ok \<lparr>gn_topic = gc_topic config, gn_reserved_peers = gc_reserved_peers config,
                   gn_min_connected_peers = gc_min_connected_peers config, gn_peers = peers,
                   gn_health = health, gn_inbound = inbound\<rparr>))"

definition dial_reserved :: "('p, 'a) GossipNode \<Rightarrow> ('p, 'a) gossip_output list" where
  "dial_reserved node = map Dial (gn_reserved_peers node)"

definition refresh_readiness ::
  "('p, 'a) GossipNode \<Rightarrow> ('p, 'a) GossipNode \<times> ('p, 'a) gossip_output list" where
  "refresh_readiness node =
     (let count = connected_count (gn_peers node)
      in (node\<lparr>gn_health := map_option (set_ready (gn_min_connected_peers node \<le> count)) (gn_health node)\<rparr>,
          [Report (Gauge CONNECTED_PEERS count)]))"

datatype PublishOutcome = PublishDone | NoPeersSubscribedToTopic | PublishDuplicate | PublishFailed string

definition gossip_publish ::
  "PublishOutcome \<Rightarrow> AcceptedMessage \<Rightarrow> ('p, 'a) GossipNode \<Rightarrow> ('p, 'a) gossip_output list" where
  "gossip_publish outcome message node =
     PublishTo (gn_topic node) (am_raw_envelope message) #
       (case outcome of PublishDone \<Rightarrow> [Report (incr PUBLISH_TOTAL)] | _ \<Rightarrow> [])"

datatype ('p, 'a) SwarmEvent =
    NewListenAddr 'a
  | ConnectionEstablished 'p 'a
  | ConnectionClosed 'p
  | GossipMessage "'p option" bytes
  | OtherSwarmEvent

definition on_swarm_event ::
  "SystemTime \<Rightarrow> bool \<Rightarrow> ('p, 'a) SwarmEvent \<Rightarrow> ('p, 'a) GossipNode
    \<Rightarrow> ('p, 'a) GossipNode \<times> ('p, 'a) gossip_output list" where
  "on_swarm_event now listen_addrs event node =
     (case event of
        NewListenAddr address \<Rightarrow> (node, if listen_addrs then [ListenAddr address] else [])
      | ConnectionEstablished peer address \<Rightarrow>
          refresh_readiness (node\<lparr>gn_peers := on_connected now peer (Some address) (gn_peers node)\<rparr>)
      | ConnectionClosed peer \<Rightarrow> refresh_readiness (node\<lparr>gn_peers := on_disconnected peer (gn_peers node)\<rparr>)
      | GossipMessage source data \<Rightarrow> (node, if gn_inbound node then [Inbound source data] else [])
      | OtherSwarmEvent \<Rightarrow> (node, []))"

text \<open>\<open>PublishRequest None\<close>: the publish channel is closed.\<close>

datatype ('p, 'a) gossip_event =
    GossipShutdown
  | ReconnectTick
  | PublishRequest "AcceptedMessage option" PublishOutcome
  | Swarm SystemTime "('p, 'a) SwarmEvent"

text \<open>Whether the loop goes on, the node and its outputs.\<close>

definition gossip_step ::
  "bool \<Rightarrow> ('p, 'a) gossip_event \<Rightarrow> ('p, 'a) GossipNode
    \<Rightarrow> bool \<times> ('p, 'a) GossipNode \<times> ('p, 'a) gossip_output list" where
  "gossip_step listen_addrs ev node =
     (case ev of
        GossipShutdown \<Rightarrow> (False, node, [])
      | ReconnectTick \<Rightarrow> (True, node, dial_reserved node)
      | PublishRequest (Some message) outcome \<Rightarrow> (True, node, gossip_publish outcome message node)
      | PublishRequest None _ \<Rightarrow> (False, node, [])
      | Swarm now event \<Rightarrow> (True, on_swarm_event now listen_addrs event node))"

fun gossip_loop ::
  "bool \<Rightarrow> ('p, 'a) gossip_event list \<Rightarrow> ('p, 'a) GossipNode
    \<Rightarrow> bool \<times> ('p, 'a) GossipNode \<times> ('p, 'a) gossip_output list" where
  "gossip_loop listen_addrs [] node = (True, node, [])"
| "gossip_loop listen_addrs (ev # evs) node =
     (case gossip_step listen_addrs ev node of
        (False, node', outs) \<Rightarrow> (False, node', outs)
      | (True, node', outs) \<Rightarrow>
          (case gossip_loop listen_addrs evs node' of (running, node'', outs') \<Rightarrow> (running, node'', outs @ outs')))"

definition gossip_run ::
  "bool \<Rightarrow> ('p, 'a) gossip_event list \<Rightarrow> ('p, 'a) GossipNode
    \<Rightarrow> bool \<times> ('p, 'a) GossipNode \<times> ('p, 'a) gossip_output list" where
  "gossip_run listen_addrs evs node =
     (case refresh_readiness node of
        (node', outs) \<Rightarrow>
          (case gossip_loop listen_addrs evs node' of
             (running, node'', outs') \<Rightarrow> (running, node'', dial_reserved node @ outs @ outs')))"

section \<open>Specification\<close>

text \<open>The open connections of a peer as the swarm reported them.\<close>

definition open_after :: "'p \<Rightarrow> nat \<Rightarrow> ('p, 'a) gossip_event \<Rightarrow> nat" where
  "open_after peer n ev =
     (case ev of
        Swarm _ (ConnectionEstablished q _) \<Rightarrow> if q = peer then n + 1 else n
      | Swarm _ (ConnectionClosed q) \<Rightarrow> if q = peer then n - 1 else n
      | _ \<Rightarrow> n)"

definition open_connections :: "('p, 'a) gossip_event list \<Rightarrow> 'p \<Rightarrow> nat" where
  "open_connections evs peer = foldl (open_after peer) 0 evs"

definition connected_peers :: "('p, 'a) gossip_event list \<Rightarrow> 'p set" where
  "connected_peers evs = {peer. 0 < open_connections evs peer}"

definition table_counts :: "('p \<Rightarrow> nat) \<Rightarrow> ('p, 'a) PeerRegistry \<Rightarrow> bool" where
  "table_counts n table \<longleftrightarrow>
     hashmap_ok table \<and>
     (\<forall>p. map_option pe_connections (map_of table p) = (if n p = 0 then None else Some (n p)))"

definition ready_exact :: "('p, 'a) GossipNode \<Rightarrow> bool" where
  "ready_exact node \<longleftrightarrow>
     (\<forall>h. gn_health node = Some h \<longrightarrow> (h_ready h \<longleftrightarrow> gn_min_connected_peers node \<le> connected_count (gn_peers node)))"

fun messages_in :: "('p, 'a) gossip_event list \<Rightarrow> (AcceptedMessage \<times> PublishOutcome) list" where
  "messages_in [] = []"
| "messages_in (PublishRequest (Some m) r # evs) = (m, r) # messages_in evs"
| "messages_in (_ # evs) = messages_in evs"

fun published :: "('p, 'a) gossip_output list \<Rightarrow> (string \<times> bytes) list" where
  "published [] = []"
| "published (PublishTo t d # outs) = (t, d) # published outs"
| "published (_ # outs) = published outs"

fun reports :: "('p, 'a) gossip_output list \<Rightarrow> metric list" where
  "reports [] = []"
| "reports (Report m # outs) = m # reports outs"
| "reports (_ # outs) = reports outs"

section \<open>Lemmas\<close>

lemma on_connected_counts:
  assumes "table_counts n table"
  shows "table_counts (n(peer := n peer + 1)) (on_connected now peer address table)"
proof -
  have "map_option pe_connections (map_of table peer) = (if n peer = 0 then None else Some (n peer))"
    using assms by (simp add: table_counts_def)
  then show ?thesis using assms
    by (cases "map_of table peer") (auto simp: table_counts_def on_connected_def Let_def split: if_splits, (metis neq0_conv)+)
qed

lemma on_disconnected_counts:
  assumes "table_counts n table"
  shows "table_counts (n(peer := n peer - 1)) (on_disconnected peer table)"
proof -
  have "map_option pe_connections (map_of table peer) = (if n peer = 0 then None else Some (n peer))"
    using assms by (simp add: table_counts_def)
  then show ?thesis using assms
    by (cases "map_of table peer") (auto simp: table_counts_def on_disconnected_def Let_def split: if_splits, (metis neq0_conv)+)
qed

lemma table_counts_card:
  assumes "table_counts n table"
  shows "connected_count table = card {p. 0 < n p}"
proof -
  have "{p. 0 < n p} = fst ` set table"
  proof (rule set_eqI)
    fix p
    have "p \<in> fst ` set table \<longleftrightarrow> map_of table p \<noteq> None" by (metis map_of_eq_None_iff)
    also have "\<dots> \<longleftrightarrow> map_option pe_connections (map_of table p) \<noteq> None" by simp
    also have "\<dots> \<longleftrightarrow> 0 < n p" using assms by (simp add: table_counts_def)
    finally show "p \<in> {p. 0 < n p} \<longleftrightarrow> p \<in> fst ` set table" by simp
  qed
  then show ?thesis
    using assms by (simp add: connected_count_def table_counts_def hashmap_ok_def distinct_card flip: set_map)
qed

lemma refresh_readiness_exact:
  "refresh_readiness node = (node', outs) \<Longrightarrow>
   ready_exact node' \<and> gn_peers node' = gn_peers node \<and> gn_min_connected_peers node' = gn_min_connected_peers node \<and>
   gn_topic node' = gn_topic node \<and> (gn_health node' = None \<longleftrightarrow> gn_health node = None) \<and>
   outs = [Report (Gauge CONNECTED_PEERS (connected_count (gn_peers node)))]"
  by (auto simp: refresh_readiness_def ready_exact_def set_ready_def Let_def)

lemma gossip_step_counts:
  assumes "gossip_step la ev node = (True, node', outs)" and "table_counts n (gn_peers node)" and "ready_exact node"
  shows "table_counts (\<lambda>p. open_after p (n p) ev) (gn_peers node') \<and> ready_exact node' \<and>
    gn_min_connected_peers node' = gn_min_connected_peers node \<and> gn_topic node' = gn_topic node \<and>
    (gn_health node' = None \<longleftrightarrow> gn_health node = None)"
proof (cases "\<exists>now e. ev = Swarm now e")
  case True
  then obtain now e where ev: "ev = Swarm now e" by blast
  have upd: "(\<lambda>p. if q = p then f (n p) else n p) = n(q := f (n q))" for q and f :: "nat \<Rightarrow> nat" by auto
  have run: "on_swarm_event now la e node = (node', outs)" using assms(1) ev by (simp add: gossip_step_def)
  show ?thesis
  proof (cases e)
    case (ConnectionEstablished q a)
    then have "refresh_readiness (node\<lparr>gn_peers := on_connected now q (Some a) (gn_peers node)\<rparr>) = (node', outs)"
      using run by (simp add: on_swarm_event_def)
    from refresh_readiness_exact [OF this] on_connected_counts [OF assms(2), of q now "Some a"] show ?thesis
      by (simp add: ev ConnectionEstablished open_after_def upd [of q "\<lambda>k. k + 1", simplified])
  next
    case (ConnectionClosed q)
    then have "refresh_readiness (node\<lparr>gn_peers := on_disconnected q (gn_peers node)\<rparr>) = (node', outs)"
      using run by (simp add: on_swarm_event_def)
    from refresh_readiness_exact [OF this] on_disconnected_counts [OF assms(2), of q] show ?thesis
      by (simp add: ev ConnectionClosed open_after_def upd [of q "\<lambda>k. k - 1", simplified])
  qed (use run assms(2,3) ev in \<open>auto simp: on_swarm_event_def open_after_def\<close>)
next
  case False
  then show ?thesis using assms
    by (cases ev) (auto simp: gossip_step_def open_after_def split: option.splits)
qed

lemma gossip_loop_counts:
  "gossip_loop la evs node = (True, node', outs) \<Longrightarrow> table_counts n (gn_peers node) \<Longrightarrow> ready_exact node \<Longrightarrow>
   table_counts (\<lambda>p. foldl (open_after p) (n p) evs) (gn_peers node') \<and> ready_exact node' \<and>
   gn_min_connected_peers node' = gn_min_connected_peers node \<and> (gn_health node' = None \<longleftrightarrow> gn_health node = None)"
proof (induction evs arbitrary: node n outs)
  case (Cons ev evs)
  obtain node1 outs1 outs2 where s: "gossip_step la ev node = (True, node1, outs1)"
    "gossip_loop la evs node1 = (True, node', outs2)"
    using Cons.prems(1) by (auto split: prod.splits bool.splits)
  from gossip_step_counts [OF s(1) Cons.prems(2,3)] Cons.IH [OF s(2)] show ?case by fastforce
qed auto

lemma published_append [simp]: "published (xs @ ys) = published xs @ published ys"
  by (induction xs rule: published.induct) auto

lemma reports_append [simp]: "reports (xs @ ys) = reports xs @ reports ys"
  by (induction xs rule: reports.induct) auto

lemma dials_silent: "published (map Dial as) = []" "reports (map Dial as) = []"
  by (induction as) auto

lemma dial_published [simp]: "published (dial_reserved node) = []" "reports (dial_reserved node) = []"
  by (simp_all add: dial_reserved_def dials_silent)

lemma gossip_step_publishes:
  assumes "gossip_step la ev node = (True, node', outs)"
  shows "published outs = map (\<lambda>(m, r). (gn_topic node, am_raw_envelope m)) (messages_in [ev]) \<and>
    counted PUBLISH_TOTAL (reports outs) = length (filter (\<lambda>(m, r). r = PublishDone) (messages_in [ev])) \<and>
    gn_topic node' = gn_topic node"
proof (cases ev)
  case (PublishRequest m r)
  then show ?thesis using assms
    by (cases m; cases r) (auto simp: gossip_step_def gossip_publish_def incr_def)
next
  case (Swarm now e)
  then show ?thesis using assms
    by (cases e) (auto simp: gossip_step_def on_swarm_event_def refresh_readiness_def Let_def)
qed (use assms in \<open>auto simp: gossip_step_def\<close>)

lemma messages_in_Cons: "messages_in (ev # evs) = messages_in [ev] @ messages_in evs"
  by (cases "[ev]" rule: messages_in.cases) auto

lemma gossip_loop_publishes:
  "gossip_loop la evs node = (True, node', outs) \<Longrightarrow>
   published outs = map (\<lambda>(m, r). (gn_topic node, am_raw_envelope m)) (messages_in evs) \<and>
   counted PUBLISH_TOTAL (reports outs) = length (filter (\<lambda>(m, r). r = PublishDone) (messages_in evs))"
proof (induction evs arbitrary: node outs)
  case (Cons ev evs)
  obtain node1 outs1 outs2 where s: "gossip_step la ev node = (True, node1, outs1)"
    "gossip_loop la evs node1 = (True, node', outs2)" "outs = outs1 @ outs2"
    using Cons.prems by (auto split: prod.splits bool.splits)
  from gossip_step_publishes [OF s(1)] Cons.IH [OF s(2)] show ?case
    by (subst (1 2) messages_in_Cons) (simp add: s(3))
qed simp

lemma trim_0x_hex: "hex_ok hex_enc hex_dec \<Longrightarrow> trim (''0x'' @ hex_enc b) = ''0x'' @ hex_enc b"
  by (rule trim_id) (auto simp: hex_ok_def ascii_space_def)

section \<open>Properties\<close>

text \<open>
  C23. Readiness is exact. After any events of a running node, the peer table holds exactly the peers
  with an open connection, each with the number of its open connections, and \<open>/ready\<close> answers 200
  exactly when at least \<open>min_connected_peers\<close> distinct peers are connected.
\<close>

theorem gossip_readiness_exact:
  assumes "gossip_run la evs node = (True, node', outs)" and "gn_peers node = []" and "gn_health node = Some h"
  shows "(\<forall>p. map_option pe_connections (map_of (gn_peers node') p) =
        (if open_connections evs p = 0 then None else Some (open_connections evs p))) \<and>
    connected_count (gn_peers node') = card (connected_peers evs) \<and>
    (\<exists>h'. gn_health node' = Some h' \<and>
       (fst (ready_handler h') = OK \<longleftrightarrow> gn_min_connected_peers node \<le> card (connected_peers evs)))"
proof -
  obtain node1 outs1 outs2 where r: "refresh_readiness node = (node1, outs1)"
    "gossip_loop la evs node1 = (True, node', outs2)"
    using assms(1) by (auto simp: gossip_run_def split: prod.splits)
  note f = refresh_readiness_exact [OF r(1)]
  have "table_counts (\<lambda>_. 0) (gn_peers node1)" using f assms(2) by (simp add: table_counts_def)
  note c = gossip_loop_counts [OF r(2) this]
  then have t: "table_counts (open_connections evs) (gn_peers node')"
    using f by (simp add: open_connections_def [abs_def])
  moreover from table_counts_card [OF t] have n: "connected_count (gn_peers node') = card (connected_peers evs)"
    by (simp add: connected_peers_def)
  moreover obtain h' where "gn_health node' = Some h'" using c f assms(3) by auto
  ultimately show ?thesis using c f by (auto simp: table_counts_def ready_exact_def ready_handler_def)
qed

text \<open>
  Publication is exact: a running node has published, to the configured topic, the unchanged bytes
  of every message it took from the channel, in order and once each, and the publish counter is the
  number of publications that succeeded.
\<close>

lemma gossip_publishes_exact:
  assumes "gossip_run la evs node = (True, node', outs)"
  shows "published outs = map (\<lambda>(m, r). (gn_topic node, am_raw_envelope m)) (messages_in evs) \<and>
    counted PUBLISH_TOTAL (reports outs) = length (filter (\<lambda>(m, r). r = PublishDone) (messages_in evs))"
proof -
  obtain node1 outs1 outs2 where r: "refresh_readiness node = (node1, outs1)"
    "gossip_loop la evs node1 = (True, node', outs2)" "outs = dial_reserved node @ outs1 @ outs2"
    using assms by (auto simp: gossip_run_def split: prod.splits)
  from refresh_readiness_exact [OF r(1)] gossip_loop_publishes [OF r(2)] show ?thesis
    by (simp add: r(3))
qed

text \<open>
  The node keeps its identity across restarts: the secret written on the first run is read back as
  the same key on every later run, whatever random choices that run makes, and a file that exists is
  never changed.
\<close>

lemma identity_stable:
  assumes "hex_ok hex_enc hex_dec" and "length seed = SECRET_LEN" and "from_bytes seed = Ok key"
    and "\<forall>t. fi_read io t = Ok t" and "\<forall>t. fi_write io t = (None, Some t)"
  shows "\<exists>text.
    load_or_create_identity hex_enc hex_dec from_bytes io g seed (Some path) None = (Ok key, Some text) \<and>
    (\<forall>g' seed'. load_or_create_identity hex_enc hex_dec from_bytes io g' seed' (Some path) (Some text) = (Ok key, Some text)) \<and>
    (\<forall>io' g' seed' old.
       snd (load_or_create_identity hex_enc hex_dec from_bytes io' g' seed' (Some path) (Some old)) = Some old)"
proof (intro exI conjI allI)
  show "load_or_create_identity hex_enc hex_dec from_bytes io g seed (Some path) None = (Ok key, Some (''0x'' @ hex_enc seed))"
    using assms by (simp add: load_or_create_identity_def map_err_def)
  fix g' seed'
  have "strip_0x (trim (''0x'' @ hex_enc seed)) = Ok (hex_enc seed)"
    unfolding trim_0x_hex [OF assms(1)] by (simp add: strip_0x_Ok)
  then show "load_or_create_identity hex_enc hex_dec from_bytes io g' seed' (Some path) (Some (''0x'' @ hex_enc seed)) =
      (Ok key, Some (''0x'' @ hex_enc seed))"
    using assms by (simp add: load_or_create_identity_def map_err_def hex_ok_def)
next
  fix io' g' seed' old
  show "snd (load_or_create_identity hex_enc hex_dec from_bytes io' g' seed' (Some path) (Some old)) = Some old"
    by (auto simp: load_or_create_identity_def split: sum.splits)
qed

end
