(* ===== verification/Anchor.thy ===== *)
theory Anchor
  imports BatchStore Chain
begin

text \<open>
  The anchor: \<open>crates/edge/src/anchor/mod.rs\<close>, \<open>anchor/worker.rs\<close>, \<open>anchor/config.rs\<close> and
  \<open>anchor/cps.rs\<close>.

  \<open>anchor_step\<close> is one event of the run loop: an attempt of \<open>retry_transient\<close> at the operation the
  anchor is at (loading a page of ready batches, submitting one, removing it), a wake-up, or a store
  call another component makes meanwhile. The state records where the loop is (\<open>AnchorPc\<close>), the
  store, and the calls made to the chain with their answers. An attempt observes whether shutdown was
  triggered before it, how its operation went, whether the drain period ended before the answer, and
  whether shutdown interrupted the delay after it.
\<close>

section \<open>Configuration\<close>

record RetryPolicy =
  rp_min :: duration
  rp_max :: duration

definition retry_delay :: "RetryPolicy \<Rightarrow> nat \<Rightarrow> duration" where
  "retry_delay p attempt = min (saturating_mul (rp_min p) (2 ^ min attempt 16)) (rp_max p)"

definition default_retry :: RetryPolicy where
  "default_retry = \<lparr>rp_min = from_secs 1, rp_max = from_secs 60\<rparr>"

record ChainConfig =
  cc_endpoint :: "string option"
  cc_suri :: string
  cc_node :: NodeId
  cc_retry :: RetryPolicy
  cc_max_payload :: nat

section \<open>Errors and the target\<close>

record Confirmation =
  cf_extrinsic_hash :: string
  cf_block_hash :: string

datatype AnchorError = AnchorTransient string | AnchorPermanent string | AnchorStore StoreError

fun is_transient :: "AnchorError \<Rightarrow> bool" where
  "is_transient (AnchorTransient _) = True"
| "is_transient (AnchorStore _) = True"
| "is_transient (AnchorPermanent _) = False"

fun anchor_from_chain :: "ChainError \<Rightarrow> AnchorError" where
  "anchor_from_chain (ChainTransient msg) = AnchorTransient msg"
| "anchor_from_chain (ChainPermanent msg) = AnchorPermanent msg"

definition anchor_classify :: "CpsError \<Rightarrow> AnchorError" where
  "anchor_classify e =
     (case e of
        CpsConnection _ \<Rightarrow> AnchorTransient (show_cps_error e)
      | CpsRpc _ \<Rightarrow> AnchorTransient (show_cps_error e)
      | CpsRuntime _ \<Rightarrow> AnchorTransient (show_cps_error e)
      | CpsTransaction _ \<Rightarrow> AnchorTransient (show_cps_error e)
      | _ \<Rightarrow> AnchorPermanent (show_cps_error e))"

text \<open>The libcps-backed target. \<open>signer\<close> is \<open>Signer::from_suri\<close>, \<open>account\<close> prints a signer's account,
  \<open>answer\<close> is what the chain registry's \<open>get\<close> returned, \<open>can_write\<close>, \<open>build\<close> and \<open>submit\<close> are the calls
  into libcps.\<close>

definition connect_target ::
  "(string \<Rightarrow> string + 'k) \<Rightarrow> ('k \<Rightarrow> string) \<Rightarrow> ChainError + 'c \<Rightarrow> ('c \<Rightarrow> 'k \<Rightarrow> CpsError + bool) \<Rightarrow> ChainConfig
    \<Rightarrow> AnchorError + 'k" where
  "connect_target signer account answer can_write chain =
     (case signer (cc_suri chain) of
        Err e \<Rightarrow> Err (AnchorPermanent (''invalid signing key: '' @ e))
      | Ok k \<Rightarrow>
          (case map_err anchor_from_chain answer of
             Err e \<Rightarrow> Err e
           | Ok c \<Rightarrow>
               (case map_err anchor_classify (can_write c k) of
                  Err e \<Rightarrow> Err e
                | Ok allowed \<Rightarrow>
                    if \<not> allowed
                    then Err (AnchorPermanent (''account '' @ account k @ '' has no write access to CPS node '' @
                           show_node (cc_node chain)))
                    else Ok k)))"

definition libcps_set_payload ::
  "ChainError + 'c \<Rightarrow> ('c \<Rightarrow> bytes \<Rightarrow> CpsError + 'tx) \<Rightarrow> ('c \<Rightarrow> 'tx \<Rightarrow> CpsError + Confirmation) \<Rightarrow> bytes
    \<Rightarrow> AnchorError + Confirmation" where
  "libcps_set_payload answer build submit payload =
     (case map_err anchor_from_chain answer of
        Err e \<Rightarrow> Err e
      | Ok c \<Rightarrow>
          (case map_err anchor_classify (build c payload) of
             Err e \<Rightarrow> Err e
           | Ok tx \<Rightarrow> map_err anchor_classify (submit c tx)))"

text \<open>\<open>submit_batch\<close>: the answer of the target to the payload, and the calls made so far.\<close>

type_synonym chain_calls = "(StoredBatch \<times> (AnchorError + Confirmation)) list"

definition submit_batch ::
  "nat \<Rightarrow> AnchorError + Confirmation \<Rightarrow> StoredBatch \<Rightarrow> chain_calls \<Rightarrow> (AnchorError + Confirmation) \<times> chain_calls" where
  "submit_batch max_payload response batch calls =
     (if length (sb_payload batch) > max_payload
      then (Err (AnchorPermanent (''batch '' @ show_nat (unat (sb_id batch)) @ '' payload is '' @
              show_nat (length (sb_payload batch)) @ '' bytes, above the '' @ show_nat max_payload @ '' byte limit'')),
            calls)
      else (response, calls @ [(batch, response)]))"

section \<open>Retrying\<close>

record 'x attempt_obs =
  ao_triggered :: bool
  ao_outcome :: 'x
  ao_drained :: bool
  ao_interrupted :: bool

datatype 'a Retried = RetryDone 'a | RetryShutdown | RetryAgain nat duration | RetryFailed AnchorError

text \<open>One round of the loop of \<open>retry_transient\<close>.\<close>

definition retry_turn ::
  "RetryPolicy \<Rightarrow> nat \<Rightarrow> 'x attempt_obs \<Rightarrow> ('x \<Rightarrow> 's \<Rightarrow> (AnchorError + 'a) \<times> 's \<times> metric list) \<Rightarrow> 's
    \<Rightarrow> 'a Retried \<times> 's \<times> metric list" where
  "retry_turn policy attempt obs op s =
     (if ao_triggered obs then (RetryShutdown, s, [])
      else case op (ao_outcome obs) s of
             (result, s', ms) \<Rightarrow>
               if ao_drained obs then (RetryShutdown, s', ms)
               else (case result of
                       Ok v \<Rightarrow> (RetryDone v, s', ms)
                     | Err error \<Rightarrow>
                         if is_transient error
                         then (if ao_interrupted obs then RetryShutdown
                               else RetryAgain (u32_incr attempt) (retry_delay policy attempt),
                               s', ms @ [incr ANCHOR_RETRY_TOTAL])
                         else (RetryFailed error, s', ms @ [incr ANCHOR_FAILURE_TOTAL])))"

section \<open>The run loop\<close>

definition READY_PAGE :: nat where
  "READY_PAGE = 4"

datatype AnchorPc =
    Loading nat
  | IdleWait
  | Submitting StoredBatch "StoredBatch list" nat
  | Confirming StoredBatch "StoredBatch list" nat
  | Stopped "AnchorError + unit"

record 's anchor_state =
  an_pc :: AnchorPc
  an_store :: 's
  an_calls :: chain_calls

definition anchor_start :: "'s \<Rightarrow> 's anchor_state" where
  "anchor_start s = \<lparr>an_pc = Loading 0, an_store = s, an_calls = []\<rparr>"

datatype anchor_event =
    StoreTurn "io_outcome attempt_obs"
  | ChainTurn "(AnchorError + Confirmation) attempt_obs"
  | IdleWake bool
  | OtherPush io_outcome Timestamp bytes
  | OtherCommit io_outcome Timestamp "MessageId list" "PreparedBatch list"

text \<open>The next batch of the page, or the next page.\<close>

definition next_batch :: "StoredBatch list \<Rightarrow> AnchorPc" where
  "next_batch batches = (case batches of [] \<Rightarrow> Loading 0 | b # bs \<Rightarrow> Submitting b bs 0)"

definition load_step ::
  "'s BatchStoreApi \<Rightarrow> RetryPolicy \<Rightarrow> io_outcome attempt_obs \<Rightarrow> nat \<Rightarrow> 's anchor_state
    \<Rightarrow> 's anchor_state \<times> metric list" where
  "load_step api policy obs attempt st =
     (case retry_turn policy attempt obs
             (\<lambda>io s. case api_ready api io READY_PAGE s of (r, s') \<Rightarrow> (map_err AnchorStore r, s', []))
             (an_store st) of
        (r, s, ms) \<Rightarrow>
          (st\<lparr>an_store := s,
              an_pc := (case r of
                          RetryDone batches \<Rightarrow> if batches = [] then IdleWait else next_batch batches
                        | RetryShutdown \<Rightarrow> Stopped (Ok ())
                        | RetryAgain n _ \<Rightarrow> Loading n
                        | RetryFailed e \<Rightarrow> Stopped (Err e))\<rparr>, ms))"

definition submit_step ::
  "RetryPolicy \<Rightarrow> nat \<Rightarrow> (AnchorError + Confirmation) attempt_obs \<Rightarrow> StoredBatch \<Rightarrow> StoredBatch list \<Rightarrow> nat
    \<Rightarrow> 's anchor_state \<Rightarrow> 's anchor_state \<times> metric list" where
  "submit_step policy max_payload obs batch rest attempt st =
     (case retry_turn policy attempt obs
             (\<lambda>response calls. case submit_batch max_payload response batch calls of
                (r, calls') \<Rightarrow> (r, calls', [incr ANCHOR_SUBMISSION_TOTAL]))
             (an_calls st) of
        (r, calls, ms) \<Rightarrow>
          (case r of
             RetryDone _ \<Rightarrow>
               (st\<lparr>an_calls := calls, an_pc := Confirming batch rest 0\<rparr>, ms @ [incr ANCHOR_CONFIRMATION_TOTAL])
           | RetryShutdown \<Rightarrow> (st\<lparr>an_calls := calls, an_pc := Stopped (Ok ())\<rparr>, ms)
           | RetryAgain n _ \<Rightarrow> (st\<lparr>an_calls := calls, an_pc := Submitting batch rest n\<rparr>, ms)
           | RetryFailed e \<Rightarrow> (st\<lparr>an_calls := calls, an_pc := Stopped (Err e)\<rparr>, ms)))"

definition confirm_step ::
  "'s BatchStoreApi \<Rightarrow> RetryPolicy \<Rightarrow> io_outcome attempt_obs \<Rightarrow> StoredBatch \<Rightarrow> StoredBatch list \<Rightarrow> nat
    \<Rightarrow> 's anchor_state \<Rightarrow> 's anchor_state \<times> metric list" where
  "confirm_step api policy obs batch rest attempt st =
     (case retry_turn policy attempt obs
             (\<lambda>io s. case api_confirm api io (sb_id batch) s of (r, s') \<Rightarrow> (map_err AnchorStore r, s', []))
             (an_store st) of
        (r, s, ms) \<Rightarrow>
          (st\<lparr>an_store := s,
              an_pc := (case r of
                          RetryDone _ \<Rightarrow> next_batch rest
                        | RetryShutdown \<Rightarrow> Stopped (Ok ())
                        | RetryAgain n _ \<Rightarrow> Confirming batch rest n
                        | RetryFailed e \<Rightarrow> Stopped (Err e))\<rparr>, ms))"

text \<open>\<open>None\<close>: the anchor does not wait for that event where it is.\<close>

definition anchor_step ::
  "'s BatchStoreApi \<Rightarrow> RetryPolicy \<Rightarrow> nat \<Rightarrow> anchor_event \<Rightarrow> 's anchor_state
    \<Rightarrow> ('s anchor_state \<times> metric list) option" where
  "anchor_step api policy max_payload ev st =
     (case ev of
        StoreTurn obs \<Rightarrow>
          (case an_pc st of
             Loading attempt \<Rightarrow> Some (load_step api policy obs attempt st)
           | Confirming batch rest attempt \<Rightarrow> Some (confirm_step api policy obs batch rest attempt st)
           | _ \<Rightarrow> None)
      | ChainTurn obs \<Rightarrow>
          (case an_pc st of
             Submitting batch rest attempt \<Rightarrow> Some (submit_step policy max_payload obs batch rest attempt st)
           | _ \<Rightarrow> None)
      | IdleWake stop \<Rightarrow>
          (case an_pc st of
             IdleWait \<Rightarrow> Some (st\<lparr>an_pc := (if stop then Stopped (Ok ()) else Loading 0)\<rparr>, [])
           | _ \<Rightarrow> None)
      | OtherPush io ts env \<Rightarrow> Some (st\<lparr>an_store := snd (api_push api io ts env (an_store st))\<rparr>, [])
      | OtherCommit io now ms bs \<Rightarrow> Some (st\<lparr>an_store := snd (api_commit api io now ms bs (an_store st))\<rparr>, []))"

fun anchor_run ::
  "'s BatchStoreApi \<Rightarrow> RetryPolicy \<Rightarrow> nat \<Rightarrow> anchor_event list \<Rightarrow> 's anchor_state
    \<Rightarrow> ('s anchor_state \<times> metric list) option" where
  "anchor_run api policy max_payload [] st = Some (st, [])"
| "anchor_run api policy max_payload (ev # evs) st =
     (case anchor_step api policy max_payload ev st of
        None \<Rightarrow> None
      | Some (st1, ms1) \<Rightarrow>
          (case anchor_run api policy max_payload evs st1 of
             None \<Rightarrow> None
           | Some (st2, ms2) \<Rightarrow> Some (st2, ms1 @ ms2)))"

section \<open>Connecting\<close>

text \<open>The loop of \<open>run_chain_anchor\<close> before the anchor runs: \<open>ca_result\<close> is \<open>None\<close> when shutdown came
  first. \<open>Some (Ok k)\<close> of the result starts the anchor; \<open>None\<close> means it still tries.\<close>

record 'k connect_attempt =
  ca_result :: "(AnchorError + 'k) option"
  ca_interrupted :: bool

fun connect_loop ::
  "RetryPolicy \<Rightarrow> 'k connect_attempt list \<Rightarrow> nat \<Rightarrow> 'k option option \<times> duration list \<times> metric list" where
  "connect_loop policy [] attempt = (None, [], [])"
| "connect_loop policy (a # as) attempt =
     (case ca_result a of
        None \<Rightarrow> (Some None, [], [])
      | Some (Ok target) \<Rightarrow> (Some (Some target), [], [])
      | Some (Err error) \<Rightarrow>
          if is_transient error
          then (if ca_interrupted a then (Some None, [], [incr ANCHOR_RETRY_TOTAL])
                else case connect_loop policy as (u32_incr attempt) of
                       (r, ds, ms) \<Rightarrow> (r, retry_delay policy attempt # ds, incr ANCHOR_RETRY_TOTAL # ms))
          else (Some None, [], [incr ANCHOR_FAILURE_TOTAL]))"

section \<open>Specification\<close>

text \<open>Identifiers an event may take from the store's counters.\<close>

fun event_cost :: "anchor_event \<Rightarrow> nat" where
  "event_cost (OtherPush _ _ _) = 1"
| "event_cost (OtherCommit _ _ _ bs) = length bs"
| "event_cost _ = 0"

text \<open>Batches removed from the store were finalized with exactly their bytes, and the chain was only
  given stored payloads within the limit. \<open>all\<close> are the batches ready at the start followed by those
  added since, of which the first \<open>k\<close> are gone.\<close>

definition calls_sound :: "nat \<Rightarrow> StoredBatch list \<Rightarrow> nat \<Rightarrow> chain_calls \<Rightarrow> bool" where
  "calls_sound max_payload all k calls \<longleftrightarrow>
     (\<forall>b\<in>set (take k all). \<exists>c. (b, Ok c) \<in> set calls) \<and>
     (\<forall>(b, r)\<in>set calls. b \<in> set all \<and> length (sb_payload b) \<le> max_payload)"

fun page_ok :: "StoredBatch list \<Rightarrow> chain_calls \<Rightarrow> AnchorPc \<Rightarrow> bool" where
  "page_ok queue calls (Submitting b rest _) \<longleftrightarrow> (\<exists>later. queue = b # rest @ later)"
| "page_ok queue calls (Confirming b rest _) \<longleftrightarrow> (\<exists>later. queue = b # rest @ later) \<and> (\<exists>c. (b, Ok c) \<in> set calls)"
| "page_ok queue calls _ \<longleftrightarrow> True"

text \<open>The run in which nothing fails: the chain answers every call with \<open>c\<close>.\<close>

definition ok_obs :: "'x \<Rightarrow> 'x attempt_obs" where
  "ok_obs x = \<lparr>ao_triggered = False, ao_outcome = x, ao_drained = False, ao_interrupted = False\<rparr>"

fun good_event :: "Confirmation \<Rightarrow> AnchorPc \<Rightarrow> anchor_event" where
  "good_event c (Submitting _ _ _) = ChainTurn (ok_obs (Ok c))"
| "good_event c IdleWait = IdleWake False"
| "good_event c _ = StoreTurn (ok_obs IoOk)"

fun good_run ::
  "'s BatchStoreApi \<Rightarrow> RetryPolicy \<Rightarrow> nat \<Rightarrow> Confirmation \<Rightarrow> nat \<Rightarrow> 's anchor_state \<Rightarrow> 's anchor_state" where
  "good_run api policy max_payload c 0 st = st"
| "good_run api policy max_payload c (Suc n) st =
     (case anchor_step api policy max_payload (good_event c (an_pc st)) st of
        None \<Rightarrow> st
      | Some (st', _) \<Rightarrow> good_run api policy max_payload c n st')"

section \<open>Lemmas\<close>

lemma retry_turn_ok:
  "op x s = (Ok v, s', ms) \<Longrightarrow> retry_turn policy n (ok_obs x) op s = (RetryDone v, s', ms)"
  by (simp add: retry_turn_def ok_obs_def)

lemma retry_delay_bounds:
  "retry_delay p n \<le> rp_max p"
  "rp_min p \<le> rp_max p \<Longrightarrow> rp_max p \<le> DURATION_MAX \<Longrightarrow> rp_min p \<le> retry_delay p n"
proof -
  show "retry_delay p n \<le> rp_max p" by (simp add: retry_delay_def)
  assume "rp_min p \<le> rp_max p" "rp_max p \<le> DURATION_MAX"
  then show "rp_min p \<le> retry_delay p n" by (simp add: retry_delay_def saturating_mul_def)
qed

lemma retry_turn_cases:
  assumes "retry_turn policy attempt obs op s = (r, s', ms)"
  obtains "r = RetryShutdown" "s' = s"
  | x ms' where "op (ao_outcome obs) s = (x, s', ms')" "r = RetryShutdown"
  | v ms' where "op (ao_outcome obs) s = (Ok v, s', ms')" "r = RetryDone v"
  | e ms' n d where "op (ao_outcome obs) s = (Err e, s', ms')" "is_transient e" "r = RetryAgain n d"
  | e ms' where "op (ao_outcome obs) s = (Err e, s', ms')" "\<not> is_transient e" "r = RetryFailed e"
  using assms unfolding retry_turn_def by (auto split: if_splits prod.splits sum.splits)

lemma calls_sound_more:
  "calls_sound max_payload all k calls \<Longrightarrow> k \<le> length all \<Longrightarrow> calls_sound max_payload (all @ new) k calls"
  by (auto simp: calls_sound_def)

lemma page_ok_more: "page_ok queue calls pc \<Longrightarrow> page_ok (queue @ new) calls pc"
  by (cases pc) auto

lemma page_ok_next: "page_ok (bs @ later) calls (next_batch bs)"
  by (auto simp: next_batch_def split: list.splits)

lemma submit_batch_sound:
  assumes "submit_batch max_payload response b calls = (r, calls')"
    and "calls_sound max_payload all k calls" and "b \<in> set all"
  shows "calls_sound max_payload all k calls' \<and> set calls \<subseteq> set calls' \<and> (\<forall>c. r = Ok c \<longrightarrow> (b, Ok c) \<in> set calls')"
  using assms by (fastforce simp: submit_batch_def calls_sound_def split: if_splits)

context batch_store
begin

definition anchors :: "'s BatchStoreApi \<Rightarrow> bool" where
  "anchors api \<longleftrightarrow> api_push api = push \<and> api_commit api = commit \<and> api_ready api = ready \<and> api_confirm api = confirm"

definition anchor_inv :: "nat \<Rightarrow> StoredBatch list \<Rightarrow> nat \<Rightarrow> 's anchor_state \<Rightarrow> bool" where
  "anchor_inv max_payload all k st \<longleftrightarrow>
     inv (an_store st) \<and> k \<le> length all \<and> rq (an_store st) = drop k all \<and>
     calls_sound max_payload all k (an_calls st) \<and> page_ok (drop k all) (an_calls st) (an_pc st)"

lemma other_push_inv:
  assumes "inv s" "room (Suc n) s"
  shows "inv (snd (push io ts env s)) \<and> room n (snd (push io ts env s)) \<and> rq (snd (push io ts env s)) = rq s"
proof (cases "push io ts env s")
  case (Pair r s')
  show ?thesis
  proof (cases r)
    case (Inl e)
    then have "s' = s" using Pair push_err by blast
    then show ?thesis using Pair assms room_mono [OF assms(2), of n] by simp
  next
    case (Inr i)
    have "room 1 s" using room_mono [OF assms(2)] by simp
    then show ?thesis using Pair Inr push_ok [OF assms(1)] push_room [OF assms] by fastforce
  qed
qed

lemma other_commit_inv:
  assumes "inv s" "room (length bs + n) s"
  shows "inv (snd (commit io now ms bs s)) \<and> room n (snd (commit io now ms bs s)) \<and>
    (\<exists>new. rq (snd (commit io now ms bs s)) = rq s @ new)"
proof (cases "commit io now ms bs s")
  case (Pair r s')
  show ?thesis
  proof (cases r)
    case (Inl e)
    then have "s' = s" using Pair commit_err by blast
    then show ?thesis using Pair assms room_mono [OF assms(2), of n] by simp
  next
    case (Inr ids)
    have "room (length bs) s" using room_mono [OF assms(2)] by simp
    then show ?thesis using Pair Inr commit_ok [OF assms(1)] commit_room [OF assms] by fastforce
  qed
qed

lemma confirm_head:
  assumes "inv s" "rq s = b # bs" "confirm io (sb_id b) s = (Ok u, s')"
  shows "inv s' \<and> rq s' = bs"
proof -
  have "distinct (map sb_id (b # bs))" using batch_ids [OF assms(1)] assms(2) by simp
  then have "filter (\<lambda>x. sb_id x \<noteq> sb_id b) (b # bs) = bs"
    by (auto simp: filter_id_conv) (metis image_eqI)
  then show ?thesis using confirm_ok [OF assms(1,3)] assms(2) by simp
qed

lemma load_step_inv:
  assumes api: "anchors api" and i: "anchor_inv max_payload all k st" and pc: "an_pc st = Loading attempt"
    and run: "load_step api policy obs attempt st = (st', ms)" and rm: "room n (an_store st)"
  shows "anchor_inv max_payload all k st' \<and> room n (an_store st')"
proof -
  let ?op = "\<lambda>io s. case api_ready api io READY_PAGE s of (r, s') \<Rightarrow> (map_err AnchorStore r, s', [])"
  obtain r s rms where t: "retry_turn policy attempt obs ?op (an_store st) = (r, s, rms)" by (metis surj_pair)
  have st': "st' = st\<lparr>an_store := s, an_pc := (case r of
      RetryDone batches \<Rightarrow> if batches = [] then IdleWait else next_batch batches
    | RetryShutdown \<Rightarrow> Stopped (Ok ()) | RetryAgain n _ \<Rightarrow> Loading n | RetryFailed e \<Rightarrow> Stopped (Err e))\<rparr>"
    using run t by (simp add: load_step_def)
  have ops: "s' = an_store st \<and> (\<forall>v. x = Ok v \<longrightarrow> v = take READY_PAGE (rq (an_store st)))"
    if op: "?op io (an_store st) = (x, s', m)" for io x s' m
  proof -
    obtain q s2 where q: "ready io READY_PAGE (an_store st) = (q, s2)" by (metis surj_pair)
    have "inv (an_store st)" using i by (simp add: anchor_inv_def)
    from ready_ok [OF this q] op q api show ?thesis
      by (auto simp: anchors_def map_err_def split: sum.splits)
  qed
  from t have s: "s = an_store st" by (cases rule: retry_turn_cases) (use ops in blast)+
  from t have "page_ok (rq (an_store st)) (an_calls st) (an_pc st')"
  proof (cases rule: retry_turn_cases)
    case (3 v ms')
    then have "v = take READY_PAGE (rq (an_store st))" using ops by blast
    then show ?thesis using page_ok_next [of v "drop READY_PAGE (rq (an_store st))"] 3 by (auto simp: st')
  qed (simp_all add: st')
  then show ?thesis using i rm by (simp add: anchor_inv_def st' s)
qed

lemma submit_step_inv:
  assumes i: "anchor_inv max_payload all k st" and pc: "an_pc st = Submitting b rest attempt"
    and run: "submit_step policy max_payload obs b rest attempt st = (st', ms)" and rm: "room n (an_store st)"
  shows "anchor_inv max_payload all k st' \<and> room n (an_store st')"
proof -
  let ?op = "\<lambda>response calls. case submit_batch max_payload response b calls of
                (r, calls') \<Rightarrow> (r, calls', [incr ANCHOR_SUBMISSION_TOTAL])"
  obtain r calls rms where t: "retry_turn policy attempt obs ?op (an_calls st) = (r, calls, rms)" by (metis surj_pair)
  obtain later where q: "drop k all = b # rest @ later" using i pc by (auto simp: anchor_inv_def)
  then have b: "b \<in> set all" by (metis in_set_dropD list.set_intros(1))
  have snd: "calls_sound max_payload all k (an_calls st)" using i by (simp add: anchor_inv_def)
  have ops: "calls_sound max_payload all k calls' \<and> (\<forall>c. x = Ok c \<longrightarrow> (b, Ok c) \<in> set calls')"
    if "?op resp (an_calls st) = (x, calls', m)" for resp x calls' m
    using that submit_batch_sound [OF _ snd b] by (auto split: prod.splits)
  from t have "calls_sound max_payload all k calls" by (cases rule: retry_turn_cases) (use ops snd in blast)+
  moreover from t have "page_ok (drop k all) (an_calls st') (an_pc st') \<and> an_calls st' = calls \<and> an_store st' = an_store st"
  proof (cases rule: retry_turn_cases)
    case (3 v ms')
    then have "(b, Ok v) \<in> set calls" using ops by blast
    then show ?thesis using run t q 3(2) by (auto simp: submit_step_def)
  qed (use run t q in \<open>auto simp: submit_step_def\<close>)
  ultimately show ?thesis using i rm unfolding anchor_inv_def by metis
qed

lemma confirm_step_inv:
  assumes api: "anchors api" and i: "anchor_inv max_payload all k st" and pc: "an_pc st = Confirming b rest attempt"
    and run: "confirm_step api policy obs b rest attempt st = (st', ms)" and rm: "room n (an_store st)"
  shows "(anchor_inv max_payload all k st' \<or> anchor_inv max_payload all (Suc k) st') \<and> room n (an_store st')"
proof -
  let ?op = "\<lambda>io s. case api_confirm api io (sb_id b) s of (r, s') \<Rightarrow> (map_err AnchorStore r, s', [])"
  obtain r s rms where t: "retry_turn policy attempt obs ?op (an_store st) = (r, s, rms)" by (metis surj_pair)
  obtain later c where q: "drop k all = b # rest @ later" and c: "(b, Ok c) \<in> set (an_calls st)"
    using i pc by (auto simp: anchor_inv_def)
  have k: "Suc k \<le> length all" "drop (Suc k) all = rest @ later" "take (Suc k) all = take k all @ [b]"
  proof -
    have "k < length all" using q by (metis drop_all list.distinct(1) not_le)
    then show "Suc k \<le> length all" "drop (Suc k) all = rest @ later" "take (Suc k) all = take k all @ [b]"
      using q by (simp_all add: Cons_nth_drop_Suc [symmetric] take_Suc_conv_app_nth)
  qed
  have ops: "if isl x then s' = an_store st else inv s' \<and> rq s' = rest @ later \<and> room n s'"
    if op: "?op io (an_store st) = (x, s', m)" for io x s' m
  proof -
    obtain y s2 where y: "confirm io (sb_id b) (an_store st) = (y, s2)" by (metis surj_pair)
    have st: "inv (an_store st)" "rq (an_store st) = b # rest @ later" using i q by (auto simp: anchor_inv_def)
    show ?thesis
    proof (cases y)
      case (Inl e)
      then show ?thesis using confirm_err y op api by (auto simp: anchors_def map_err_def)
    next
      case (Inr u)
      then show ?thesis using confirm_head [OF st y [unfolded Inr]] confirm_room [OF rm y [unfolded Inr]] y op api
        by (auto simp: anchors_def map_err_def)
    qed
  qed
  have st': "an_store st' = s" "an_calls st' = an_calls st" using run t by (auto simp: confirm_step_def)
  have more: "calls_sound max_payload all (Suc k) (an_calls st)"
    using i c k(3) by (auto simp: anchor_inv_def calls_sound_def)
  from t consider "s = an_store st" "page_ok (b # rest @ later) (an_calls st) (an_pc st')"
    | "inv s" "rq s = rest @ later" "room n s" "page_ok (rest @ later) (an_calls st) (an_pc st')"
  proof (cases rule: retry_turn_cases)
    case (2 x ms')
    with ops [OF 2(1)] that run t show ?thesis by (cases x) (auto simp: confirm_step_def)
  next
    case (3 v ms')
    with ops [OF 3(1)] that run t page_ok_next [of rest later] show ?thesis by (auto simp: confirm_step_def)
  next
    case (4 e ms' m d)
    have "page_ok (b # rest @ later) (an_calls st) (Confirming b rest m)" using c by auto
    moreover have "an_pc st' = Confirming b rest m" using run t 4(3) by (auto simp: confirm_step_def)
    ultimately show ?thesis using ops [OF 4(1)] that(1) by simp
  next
    case (5 e ms')
    with ops [OF 5(1)] that run t show ?thesis by (auto simp: confirm_step_def)
  qed (use that run t in \<open>auto simp: confirm_step_def\<close>)
  then show ?thesis
  proof cases
    case 1
    then have "anchor_inv max_payload all k st'" using i q by (simp add: anchor_inv_def st')
    then show ?thesis using 1 rm by (simp add: st')
  next
    case 2
    then have "anchor_inv max_payload all (Suc k) st'" using k more by (simp add: anchor_inv_def st')
    then show ?thesis using 2 by (simp add: st')
  qed
qed

lemma anchor_step_inv:
  assumes api: "anchors api" and i: "anchor_inv max_payload all k st"
    and run: "anchor_step api policy max_payload ev st = Some (st', ms)" and rm: "room (event_cost ev + n) (an_store st)"
  shows "\<exists>new k'. k \<le> k' \<and> anchor_inv max_payload (all @ new) k' st' \<and> room n (an_store st')"
proof (cases ev)
  case (StoreTurn obs)
  show ?thesis
  proof (cases "an_pc st")
    case (Loading attempt)
    then show ?thesis using load_step_inv [OF api i Loading, of policy obs st' ms n] run rm StoreTurn
      by (intro exI [of _ "[]"] exI [of _ k]) (auto simp: anchor_step_def)
  next
    case (Confirming b rest attempt)
    from confirm_step_inv [OF api i Confirming, of policy obs st' ms n] run rm StoreTurn Confirming
    have "(anchor_inv max_payload all k st' \<or> anchor_inv max_payload all (Suc k) st') \<and> room n (an_store st')"
      by (auto simp: anchor_step_def)
    then show ?thesis by (metis append_Nil2 le_SucI order_refl)
  qed (use run StoreTurn in \<open>simp_all add: anchor_step_def\<close>)
next
  case (ChainTurn obs)
  show ?thesis
  proof (cases "an_pc st")
    case (Submitting b rest attempt)
    then show ?thesis using submit_step_inv [OF i Submitting, of policy obs st' ms n] run rm ChainTurn
      by (intro exI [of _ "[]"] exI [of _ k]) (auto simp: anchor_step_def)
  qed (use run ChainTurn in \<open>simp_all add: anchor_step_def\<close>)
next
  case (IdleWake stop)
  then show ?thesis using run i rm
    by (intro exI [of _ "[]"] exI [of _ k]) (auto simp: anchor_step_def anchor_inv_def split: AnchorPc.splits)
next
  case (OtherPush io ts env)
  then have st': "st' = st\<lparr>an_store := snd (push io ts env (an_store st))\<rparr>"
    using run api by (auto simp: anchor_step_def anchors_def)
  have "inv (an_store st)" "room (Suc n) (an_store st)" using i rm OtherPush by (auto simp: anchor_inv_def)
  from other_push_inv [OF this, of io ts env] i show ?thesis
    by (intro exI [of _ "[]"] exI [of _ k]) (auto simp: st' anchor_inv_def)
next
  case (OtherCommit io now ids bs)
  then have st': "st' = st\<lparr>an_store := snd (commit io now ids bs (an_store st))\<rparr>"
    using run api by (auto simp: anchor_step_def anchors_def)
  have "inv (an_store st)" "room (length bs + n) (an_store st)" using i rm OtherCommit by (auto simp: anchor_inv_def)
  from other_commit_inv [OF this, of io now ids] obtain new where
    "inv (an_store st')" "room n (an_store st')" "rq (an_store st') = rq (an_store st) @ new" by (auto simp: st')
  then have "anchor_inv max_payload (all @ new) k st'"
    using i by (auto simp: anchor_inv_def st' calls_sound_more page_ok_more)
  then show ?thesis using \<open>room n (an_store st')\<close> by blast
qed

lemma anchor_run_inv:
  assumes api: "anchors api"
  shows "anchor_inv max_payload all k st \<Longrightarrow> anchor_run api policy max_payload evs st = Some (st', ms) \<Longrightarrow>
    room (sum_list (map event_cost evs)) (an_store st) \<Longrightarrow>
    \<exists>new k'. k \<le> k' \<and> anchor_inv max_payload (all @ new) k' st'"
proof (induction evs arbitrary: all k st ms)
  case Nil
  then show ?case by (intro exI [of _ "[]"] exI [of _ k]) auto
next
  case (Cons ev evs)
  obtain st1 ms1 ms2 where s: "anchor_step api policy max_payload ev st = Some (st1, ms1)"
    and r: "anchor_run api policy max_payload evs st1 = Some (st', ms2)"
    using Cons.prems(2) by (auto split: option.splits)
  obtain new k1 where "k \<le> k1" "anchor_inv max_payload (all @ new) k1 st1" "room (sum_list (map event_cost evs)) (an_store st1)"
    using anchor_step_inv [OF api Cons.prems(1) s, where n = "sum_list (map event_cost evs)"] Cons.prems(3) by auto
  with Cons.IH [OF _ r] show ?case by (metis append_assoc le_trans)
qed

lemma good_page:
  assumes api: "anchors api"
  shows "inv s \<Longrightarrow> rq s = bs @ later \<Longrightarrow> \<forall>b\<in>set bs. length (sb_payload b) \<le> max_payload \<Longrightarrow>
    \<exists>s'. inv s' \<and> rq s' = later \<and>
      (\<forall>m. good_run api policy max_payload c (2 * length bs + m) \<lparr>an_pc = next_batch bs, an_store = s, an_calls = cs\<rparr> =
        good_run api policy max_payload c m
          \<lparr>an_pc = Loading 0, an_store = s', an_calls = cs @ map (\<lambda>b. (b, Ok c)) bs\<rparr>)"
proof (induction bs arbitrary: s cs)
  case Nil
  then show ?case by (auto simp: next_batch_def)
next
  case (Cons b bs)
  obtain s1 where s1: "confirm IoOk (sb_id b) s = (Ok (), s1)" using confirm_io by blast
  have q: "inv s1" "rq s1 = bs @ later" using confirm_head [OF Cons.prems(1) _ s1] Cons.prems(2) by auto
  let ?a = "\<lparr>an_pc = Submitting b bs 0, an_store = s, an_calls = cs\<rparr>"
  let ?b = "\<lparr>an_pc = Confirming b bs 0, an_store = s, an_calls = cs @ [(b, Ok c)]\<rparr>"
  have submit: "fst (the (anchor_step api policy max_payload (good_event c (an_pc ?a)) ?a)) = ?b"
    "anchor_step api policy max_payload (good_event c (an_pc ?a)) ?a \<noteq> None"
    using Cons.prems(3) by (simp_all add: anchor_step_def submit_step_def submit_batch_def retry_turn_def ok_obs_def)
  have conf: "fst (the (anchor_step api policy max_payload (good_event c (an_pc ?b)) ?b)) =
      \<lparr>an_pc = next_batch bs, an_store = s1, an_calls = cs @ [(b, Ok c)]\<rparr>"
    "anchor_step api policy max_payload (good_event c (an_pc ?b)) ?b \<noteq> None"
    using api s1 by (simp_all add: anchor_step_def confirm_step_def anchors_def retry_turn_def ok_obs_def map_err_def)
  from Cons.IH [OF q] Cons.prems(3) obtain s' where s': "inv s'" "rq s' = later"
    "\<And>m. good_run api policy max_payload c (2 * length bs + m)
        \<lparr>an_pc = next_batch bs, an_store = s1, an_calls = cs @ [(b, Ok c)]\<rparr> =
      good_run api policy max_payload c m
        \<lparr>an_pc = Loading 0, an_store = s', an_calls = cs @ (b, Ok c) # map (\<lambda>b. (b, Ok c)) bs\<rparr>"
    by (metis (no_types, lifting) append.assoc append_Cons append_Nil list.set_intros(2))
  have "good_run api policy max_payload c (2 * length (b # bs) + m) ?a =
      good_run api policy max_payload c (2 * length bs + m)
        \<lparr>an_pc = next_batch bs, an_store = s1, an_calls = cs @ [(b, Ok c)]\<rparr>" for m
    using submit conf by (auto split: option.splits)
  then show ?case using s' by (auto simp: next_batch_def)
qed

lemma good_drain:
  assumes api: "anchors api"
  shows "inv s \<Longrightarrow> \<forall>b\<in>set (rq s). length (sb_payload b) \<le> max_payload \<Longrightarrow>
    \<exists>n s'. n \<le> 3 * length (rq s) + 1 \<and> inv s' \<and> rq s' = [] \<and>
      good_run api policy max_payload c n \<lparr>an_pc = Loading 0, an_store = s, an_calls = cs\<rparr> =
        \<lparr>an_pc = IdleWait, an_store = s', an_calls = cs @ map (\<lambda>b. (b, Ok c)) (rq s)\<rparr>"
proof (induction "length (rq s)" arbitrary: s cs rule: less_induct)
  case less
  let ?a = "\<lparr>an_pc = Loading 0, an_store = s, an_calls = cs\<rparr>"
  define page where "page = take READY_PAGE (rq s)"
  obtain q s1 where q: "ready IoOk READY_PAGE s = (q, s1)" by (metis surj_pair)
  then have r: "ready IoOk READY_PAGE s = (Ok page, s)" using ready_ok [OF less.prems(1) q] by (auto simp: page_def isl_def)
  have load: "anchor_step api policy max_payload (good_event c (an_pc ?a)) ?a =
      Some (\<lparr>an_pc = (if page = [] then IdleWait else next_batch page), an_store = s, an_calls = cs\<rparr>, [])"
    using api r by (simp add: anchor_step_def load_step_def anchors_def retry_turn_def ok_obs_def map_err_def)
  show ?case
  proof (cases "rq s = []")
    case True
    then show ?thesis using load less.prems(1)
      by (intro exI [of _ 1] exI [of _ s]) (simp add: page_def)
  next
    case False
    then have ne: "page \<noteq> []" by (simp add: page_def READY_PAGE_def)
    have split: "rq s = page @ drop READY_PAGE (rq s)" by (simp add: page_def)
    have "\<forall>b\<in>set page. length (sb_payload b) \<le> max_payload"
      using less.prems(2) by (auto simp: page_def dest: in_set_takeD)
    from good_page [OF api less.prems(1) split this, of policy c cs]
    obtain s' where s': "inv s'" "rq s' = drop READY_PAGE (rq s)"
      "\<And>m. good_run api policy max_payload c (2 * length page + m) \<lparr>an_pc = next_batch page, an_store = s, an_calls = cs\<rparr> =
        good_run api policy max_payload c m
          \<lparr>an_pc = Loading 0, an_store = s', an_calls = cs @ map (\<lambda>b. (b, Ok c)) page\<rparr>" by blast
    have "length (rq s') < length (rq s)" using s'(2) False by (simp add: READY_PAGE_def)
    moreover have "\<forall>b\<in>set (rq s'). length (sb_payload b) \<le> max_payload"
      using less.prems(2) s'(2) by (auto dest: in_set_dropD)
    ultimately obtain n s2 where n: "n \<le> 3 * length (rq s') + 1" "inv s2" "rq s2 = []"
      "good_run api policy max_payload c n \<lparr>an_pc = Loading 0, an_store = s', an_calls = cs @ map (\<lambda>b. (b, Ok c)) page\<rparr> =
        \<lparr>an_pc = IdleWait, an_store = s2,
         an_calls = (cs @ map (\<lambda>b. (b, Ok c)) page) @ map (\<lambda>b. (b, Ok c)) (rq s')\<rparr>"
      using less.hyps [OF _ s'(1)] by blast
    have calls: "map (\<lambda>b. (b, Ok c)) (rq s) = map (\<lambda>b. (b, Ok c)) page @ map (\<lambda>b. (b, Ok c)) (rq s')"
      using split s'(2) by (metis map_append)
    have "good_run api policy max_payload c (Suc (2 * length page + n)) ?a =
        \<lparr>an_pc = IdleWait, an_store = s2, an_calls = cs @ map (\<lambda>b. (b, Ok c)) (rq s)\<rparr>"
      unfolding calls using load ne s'(3) n(4) by simp
    moreover have "Suc (2 * length page + n) \<le> 3 * length (rq s) + 1"
    proof -
      have "length (rq s) = length page + length (rq s')" using split s'(2) by (metis length_append)
      moreover have "1 \<le> length page" using ne by (cases page) auto
      ultimately show ?thesis using n(1) by linarith
    qed
    ultimately show ?thesis using n(2,3) by blast
  qed
qed

end

section \<open>Anchoring on the redb store\<close>

lemma redb_anchors:
  "redb_laws ops \<Longrightarrow> batch_store.anchors (push_message ops) (commit_batches ops) (ready_batches ops)
     (confirm_batch ops) (redb_api ops)"
  by (simp add: batch_store.anchors_def [OF redb_batch_store] redb_api_def)

text \<open>
  C8. Anchoring is at-least-once and in order. Over any interleaving of attempts, failures, shutdown
  and store calls of the other components, the ready batches at the end are a suffix of those at the
  start and those added since; every batch that is gone was finalized on chain with exactly its stored
  bytes; and the chain was only ever given payloads of stored batches within the size limit.
\<close>

theorem anchor_at_least_once:
  assumes "redb_laws ops" and "store_ok ops db" and "spare ops (sum_list (map event_cost evs)) db"
    and "anchor_run (redb_api ops) policy max_payload evs (anchor_start db) = Some (st, ms)"
  shows "\<exists>new k. store_ok ops (an_store st) \<and> k \<le> length (ready_queue ops db @ new) \<and>
    ready_queue ops (an_store st) = drop k (ready_queue ops db @ new) \<and>
    (\<forall>b\<in>set (take k (ready_queue ops db @ new)). \<exists>c. (b, Ok c) \<in> set (an_calls st)) \<and>
    (\<forall>(b, r)\<in>set (an_calls st). b \<in> set (ready_queue ops db @ new) \<and> length (sb_payload b) \<le> max_payload)"
proof -
  note st = redb_batch_store [OF assms(1)]
  have "batch_store.anchor_inv (store_ok ops) (ready_queue ops) max_payload (ready_queue ops db) 0 (anchor_start db)"
    using assms(2) by (simp add: batch_store.anchor_inv_def [OF st] anchor_start_def calls_sound_def)
  from batch_store.anchor_run_inv [OF st redb_anchors [OF assms(1)] this assms(4)] assms(3)
  show ?thesis
    by (auto simp: anchor_start_def batch_store.anchor_inv_def [OF st] calls_sound_def)
qed

text \<open>
  C17. Anchoring makes progress: when nothing fails, the anchor submits every ready batch once, oldest
  first, empties the queue and goes idle, within three events per batch and one more.
\<close>

theorem anchor_drains:
  assumes "redb_laws ops" and "store_ok ops db"
    and "\<forall>b\<in>set (ready_queue ops db). length (sb_payload b) \<le> max_payload"
  shows "\<exists>n db'. n \<le> 3 * length (ready_queue ops db) + 1 \<and> ready_queue ops db' = [] \<and>
    good_run (redb_api ops) policy max_payload c n (anchor_start db) =
      \<lparr>an_pc = IdleWait, an_store = db', an_calls = map (\<lambda>b. (b, Ok c)) (ready_queue ops db)\<rparr>"
  using batch_store.good_drain [OF redb_batch_store [OF assms(1)] redb_anchors [OF assms(1)] assms(2,3),
      of policy c "[]"]
  unfolding anchor_start_def by auto

end
