(* ===== verification/App.thy ===== *)
theory App
  imports Gossip Anchor
begin

text \<open>
  The daemon: \<open>crates/edge/src/app.rs\<close>. \<open>start\<close> assembles the components from a configuration. Files,
  sockets, the database and libp2p answer through \<open>app_io\<close>; every early return of the source is an
  error with its contexts, the outermost first. A started daemon is described by what it owns: its
  sinks in the order the pipeline sees them, its tasks in the order they were spawned, and the initial
  state of each component.
\<close>

section \<open>Errors\<close>

datatype AppCause = MsgCause string | IoCause IoError | StoreCause StoreError | FormatCause FormatError

type_synonym AppError = "string list \<times> AppCause"

definition in_context :: "string \<Rightarrow> AppError + 'x \<Rightarrow> AppError + 'x" where
  "in_context c = map_err (\<lambda>(cs, e). (c # cs, e))"

definition cause :: "AppCause \<Rightarrow> AppError" where
  "cause e = ([], e)"

definition required :: "string \<Rightarrow> 'x option \<Rightarrow> AppError + 'x" where
  "required msg x = (case x of None \<Rightarrow> Err (cause (MsgCause msg)) | Some v \<Rightarrow> Ok v)"

section \<open>The outside\<close>

text \<open>\<open>io_create_parent\<close> creates the directory of a path and answers the directory and the error;
  \<open>io_open_store\<close> is the blocking task around \<open>RedbBatchStore::open\<close>; \<open>io_bind\<close> binds a listener and
  reads its address.\<close>

record ('k, 'a, 'c, 't, 'm) app_io =
  io_parse_addr :: "string \<Rightarrow> string + 'a"
  io_show_addr :: "'a \<Rightarrow> string"
  io_hex_enc :: "bytes \<Rightarrow> string"
  io_hex_dec :: "string \<Rightarrow> string + bytes"
  io_from_bytes :: "bytes \<Rightarrow> string + 'k"
  io_identity :: file_io
  io_identity_contents :: "string \<Rightarrow> string option"
  io_generated :: 'k
  io_seed :: bytes
  io_build_swarm :: "'k \<Rightarrow> string option"
  io_subscribe :: "string option"
  io_listen_on :: "'a \<Rightarrow> string option"
  io_read :: "string \<Rightarrow> IoError + string"
  io_parse_sensor :: "string \<Rightarrow> string + SensorId"
  io_lru_new :: "nat \<Rightarrow> 'c"
  io_create_parent :: "string \<Rightarrow> (string \<times> IoError) option"
  io_open_store :: "string \<Rightarrow> string + (StoreError + ('t, 'm) RedbBatchStore)"
  io_reconcile :: "io_outcome \<times> io_outcome \<times> io_outcome"
  io_counts :: io_outcome
  io_show_socket :: "SocketAddr \<Rightarrow> string"
  io_bind :: "SocketAddr \<Rightarrow> IoError + (IoError + SocketAddr)"

section \<open>What is started\<close>

datatype AppSink = DurableSink | GossipSink

datatype AppTask =
    GossipTask
  | BatcherTask BatcherConfig
  | AnchorTask ChainConfig
  | PipelineTask
  | HttpTask SocketAddr nat
  | MeshtasticTask MeshtasticConfig
  | OpsTask SocketAddr

record ('p, 'a, 'c, 't, 'm) EdgeApp =
  ap_http_addr :: "SocketAddr option"
  ap_ops_addr :: SocketAddr
  ap_node :: "('p, 'a) GossipNode option"
  ap_identity :: "string option"
  ap_health :: Health
  ap_store :: "('t, 'm) RedbBatchStore option"
  ap_policy :: "'c BuiltPolicy"
  ap_prefetched :: "string option option"
  ap_dedup :: DedupCache
  ap_limits :: AuthLimits
  ap_sinks :: "AppSink list"
  ap_tasks :: "AppTask list"

section \<open>Starting\<close>

text \<open>The gossip part: the node and the identity file afterwards.\<close>

definition start_gossip ::
  "('k, 'a, 'c, 't, 'm) app_io \<Rightarrow> PubsubConfig \<Rightarrow> Health \<Rightarrow> AppError + (('p, 'a) GossipNode \<times> string option)" where
  "start_gossip io config health =
     (case in_context ''invalid [pubsub] configuration''
             (map_err (cause \<circ> IoCause) (from_pubsub (io_parse_addr io) config)) of
        Err e \<Rightarrow> Err e
      | Ok gossip_config \<Rightarrow>
          (case load_or_create_identity (io_hex_enc io) (io_hex_dec io) (io_from_bytes io) (io_identity io)
                  (io_generated io) (io_seed io) (ps_identity_file config)
                  (case ps_identity_file config of None \<Rightarrow> None | Some path \<Rightarrow> io_identity_contents io path) of
             (Err e, _) \<Rightarrow> Err ([''failed to load gossip identity''], IoCause e)
           | (Ok keypair, contents) \<Rightarrow>
               (case in_context ''failed to build gossip node''
                       (map_err (cause \<circ> IoCause)
                         (new_gossip_node (io_build_swarm io keypair) (io_subscribe io) (io_listen_on io)
                           (io_show_addr io) gossip_config [] (Some health) False)) of
                  Err e \<Rightarrow> Err e
                | Ok node \<Rightarrow> Ok (node, contents))))"

text \<open>\<open>spawn_anchoring\<close>: the store, and what it adds to the sinks and tasks.\<close>

definition spawn_anchoring ::
  "('t, 'm) redb_ops \<Rightarrow> ('k, 'a, 'c, 't, 'm) app_io \<Rightarrow> Config \<Rightarrow> AppSink list \<Rightarrow> AppTask list
    \<Rightarrow> AppError + (('t, 'm) RedbBatchStore \<times> AppSink list \<times> AppTask list)" where
  "spawn_anchoring ops io config sinks tasks =
     (case required ''blockchain.enabled = true requires storage.path'' (st_path (cf_storage config)) of
        Err e \<Rightarrow> Err e
      | Ok storage_path \<Rightarrow>
     (case required ''blockchain.enabled = true requires blockchain.key_file'' (bc_key_file (cf_blockchain config)) of
        Err e \<Rightarrow> Err e
      | Ok key_file \<Rightarrow>
     (case required ''blockchain.enabled = true requires blockchain.node_id'' (bc_node_id (cf_blockchain config)) of
        Err e \<Rightarrow> Err e
      | Ok node_id \<Rightarrow>
     (case validate_batcher (cf_batcher config) of
        Err msg \<Rightarrow> Err (cause (MsgCause msg))
      | Ok _ \<Rightarrow>
     (case io_read io key_file of
        Err e \<Rightarrow> Err ([''failed to read blockchain key file '' @ key_file], IoCause e)
      | Ok secret \<Rightarrow>
     (case io_create_parent io storage_path of
        Some (parent, e) \<Rightarrow> Err ([''failed to create '' @ parent], IoCause e)
      | None \<Rightarrow>
     (case io_open_store io storage_path of
        Err e \<Rightarrow> Err ([''storage open task failed''], MsgCause e)
      | Ok (Err e) \<Rightarrow> Err ([''failed to open batch store '' @ storage_path], StoreCause e)
      | Ok (Ok db0) \<Rightarrow>
     (case reconcile_format ops (io_reconcile io) (config_format_descriptor (cf_batcher config)) db0 of
        (Err e, _) \<Rightarrow> Err (cause (FormatCause e))
      | (Ok _, db1) \<Rightarrow>
     (case store_counts ops (io_counts io) db1 of
        (Err e, _) \<Rightarrow> Err (cause (StoreCause e))
      | (Ok _, db2) \<Rightarrow>
          Ok (db2, DurableSink # sinks,
              tasks @ [BatcherTask (cf_batcher config),
                       AnchorTask \<lparr>cc_endpoint = bc_endpoint (cf_blockchain config), cc_suri = trim secret,
                         cc_node = node_id,
                         cc_retry = \<lparr>rp_min = from_secs (bc_retry_min_secs (cf_blockchain config)),
                                     rp_max = from_secs (bc_retry_max_secs (cf_blockchain config))\<rparr>,
                         cc_max_payload = MAX_PAYLOAD_SIZE\<rparr>]))))))))))"

definition spawn_listener ::
  "('k, 'a, 'c, 't, 'm) app_io \<Rightarrow> string \<Rightarrow> SocketAddr \<Rightarrow> AppError + SocketAddr" where
  "spawn_listener io what listen =
     (case io_bind io listen of
        Err e \<Rightarrow> Err ([''failed to bind '' @ what @ '' on '' @ io_show_socket io listen], IoCause e)
      | Ok (Err e) \<Rightarrow> Err (cause (IoCause e))
      | Ok (Ok addr) \<Rightarrow> Ok addr)"

text \<open>The blocks of \<open>start\<close> for \<open>[pubsub]\<close>, \<open>[blockchain]\<close> and \<open>[http]\<close>.\<close>

definition start_pubsub ::
  "('k, 'a, 'c, 't, 'm) app_io \<Rightarrow> PubsubConfig
    \<Rightarrow> AppError + (('p, 'a) GossipNode option \<times> string option \<times> Health \<times> AppSink list \<times> AppTask list)" where
  "start_pubsub io config =
     (if ps_enabled config
      then (case start_gossip io config new_health of
              Err e \<Rightarrow> Err e
            | Ok (node, contents) \<Rightarrow> Ok (Some node, contents, new_health, [GossipSink], [GossipTask]))
      else Ok (None, None, set_ready True new_health, [], []))"

definition start_blockchain ::
  "('t, 'm) redb_ops \<Rightarrow> ('k, 'a, 'c, 't, 'm) app_io \<Rightarrow> Config \<Rightarrow> AppSink list \<Rightarrow> AppTask list
    \<Rightarrow> AppError + (('t, 'm) RedbBatchStore option \<times> AppSink list \<times> AppTask list)" where
  "start_blockchain ops io config sinks tasks =
     (if bc_enabled (cf_blockchain config)
      then (case in_context ''failed to start durable batching and anchoring''
                   (spawn_anchoring ops io config sinks tasks) of
              Err e \<Rightarrow> Err e
            | Ok (db, sinks', tasks') \<Rightarrow> Ok (Some db, sinks', tasks'))
      else Ok (None, sinks, tasks))"

definition start_http ::
  "('k, 'a, 'c, 't, 'm) app_io \<Rightarrow> HttpConfig \<Rightarrow> AppError + (SocketAddr option \<times> AppTask list)" where
  "start_http io config =
     (if http_enabled config
      then (case in_context ''failed to start HTTP ingress'' (spawn_listener io ''HTTP ingress'' (http_listen config)) of
              Err e \<Rightarrow> Err e
            | Ok addr \<Rightarrow> Ok (Some addr, [HttpTask addr (http_max_body_bytes config)]))
      else Ok (None, []))"

definition start ::
  "('t, 'm) redb_ops \<Rightarrow> ('k, 'a, 'c, 't, 'm) app_io \<Rightarrow> Config \<Rightarrow> AppError + ('p, 'a, 'c, 't, 'm) EdgeApp" where
  "start ops io config =
     (case start_pubsub io (cf_pubsub config) of
        Err e \<Rightarrow> Err e
      | Ok (node, identity, health, sinks, tasks) \<Rightarrow>
     (case start_blockchain ops io config sinks tasks of
        Err e \<Rightarrow> Err e
      | Ok (opened, sinks, tasks) \<Rightarrow>
     (case auth_from_config (io_read io) (io_parse_sensor io) (io_lru_new io) (io_hex_dec io) (cf_auth config)
             (bc_endpoint (cf_blockchain config)) of
        Err e \<Rightarrow> Err ([''failed to build auth policy''], IoCause e)
      | Ok policy \<Rightarrow>
     (case start_http io (cf_http config) of
        Err e \<Rightarrow> Err e
      | Ok (http_addr, http_tasks) \<Rightarrow>
     (case in_context ''failed to start operations server''
             (spawn_listener io ''ops server'' (mt_listen (cf_metrics config))) of
        Err e \<Rightarrow> Err e
      | Ok ops_addr \<Rightarrow>
          Ok \<lparr>ap_http_addr = http_addr, ap_ops_addr = ops_addr, ap_node = node, ap_identity = identity,
              ap_health = health, ap_store = opened, ap_policy = policy,
              ap_prefetched = (if au_mode (cf_auth config) = AuthCps
                               then Some (bc_endpoint (cf_blockchain config)) else None),
              ap_dedup = new_dedup (pl_dedup_capacity (cf_pipeline config))
                           (from_secs (pl_dedup_ttl_secs (cf_pipeline config))),
              ap_limits = \<lparr>al_max_concurrent = cps_max_concurrent_lookups (cf_auth config),
                           al_max_pending = cps_max_pending (cf_auth config)\<rparr>,
              ap_sinks = sinks,
              ap_tasks = tasks @ [PipelineTask] @ http_tasks @
                (if mc_enabled (cf_meshtastic config) then [MeshtasticTask (cf_meshtastic config)] else []) @
                [OpsTask ops_addr]\<rparr>)))))"

text \<open>The sinks of the pipeline: \<open>send\<close> is the channel to the gossip node.\<close>

definition app_sink ::
  "'s BatchStoreApi \<Rightarrow> ('e \<Rightarrow> io_outcome) \<Rightarrow> ('e \<Rightarrow> 's) \<Rightarrow> ('s \<Rightarrow> 'e \<Rightarrow> 'e) \<Rightarrow> (AcceptedMessage \<Rightarrow> 'e \<Rightarrow> bool \<times> 'e)
    \<Rightarrow> AppSink \<Rightarrow> 'e MessageSink" where
  "app_sink api io get put send s =
     (case s of DurableSink \<Rightarrow> batch_sink api io get put | GossipSink \<Rightarrow> channel_sink ''gossip'' send)"

section \<open>Specification\<close>

text \<open>Everything outside the daemon works for this configuration.\<close>

definition outside_ok :: "('t, 'm) redb_ops \<Rightarrow> ('k, 'a, 'c, 't, 'm) app_io \<Rightarrow> Config \<Rightarrow> bool" where
  "outside_ok ops io config \<longleftrightarrow>
     (ps_enabled (cf_pubsub config) \<longrightarrow>
        (\<exists>g. from_pubsub (io_parse_addr io) (cf_pubsub config) = Ok g) \<and>
        (\<exists>k c. load_or_create_identity (io_hex_enc io) (io_hex_dec io) (io_from_bytes io) (io_identity io)
           (io_generated io) (io_seed io) (ps_identity_file (cf_pubsub config))
           (case ps_identity_file (cf_pubsub config) of None \<Rightarrow> None | Some path \<Rightarrow> io_identity_contents io path) = (Ok k, c)) \<and>
        io_subscribe io = None \<and> (\<forall>k. io_build_swarm io k = None) \<and> (\<forall>a. io_listen_on io a = None)) \<and>
     (bc_enabled (cf_blockchain config) \<longrightarrow>
        (\<forall>path. \<exists>text. io_read io path = Ok text) \<and> (\<forall>path. io_create_parent io path = None) \<and>
        (\<forall>path. \<exists>db out db1 n db2. io_open_store io path = Ok (Ok db) \<and>
           reconcile_format ops (io_reconcile io) (config_format_descriptor (cf_batcher config)) db = (Ok out, db1) \<and>
           store_counts ops (io_counts io) db1 = (Ok n, db2))) \<and>
     (au_mode (cf_auth config) = AuthWhitelist \<longrightarrow>
        (\<forall>path. \<exists>w. whitelist_from_file (io_read io) (io_parse_sensor io) path = Ok w)) \<and>
     (\<forall>s. \<exists>addr. io_bind io s = Ok (Ok addr))"

definition tasks_agree :: "AppTask list \<Rightarrow> bool" where
  "tasks_agree tasks \<longleftrightarrow>
     (\<forall>b c. BatcherTask b \<in> set tasks \<and> AnchorTask c \<in> set tasks \<longrightarrow>
        max_batch_size b \<le> cc_max_payload c \<and> 0 < rp_min (cc_retry c) \<and> rp_min (cc_retry c) \<le> rp_max (cc_retry c))"

section \<open>Lemmas\<close>

lemma in_context_Ok [simp]: "in_context c r = Ok x \<longleftrightarrow> r = Ok x" "in_context c (Ok x) = Ok x"
  by (cases r) (auto simp: in_context_def map_err_def)

lemma required_Some [simp]: "required msg (Some v) = Ok v" "required msg x = Ok v \<longleftrightarrow> x = Some v"
  by (auto simp: required_def split: option.splits)

lemma try_Ok: "(case r of Err e \<Rightarrow> Err (g e) | Ok x \<Rightarrow> f x) = Ok y \<longleftrightarrow> (\<exists>x. r = Ok x \<and> f x = Ok y)"
  by (cases r) auto

lemma map_err_Ok [simp]: "map_err f (Ok x) = Ok x"
  by (simp add: map_err_def)

lemma collect_unit: "\<forall>x\<in>set xs. f x = Ok () \<Longrightarrow> \<exists>us. collect f xs = Ok us"
  by (induction xs) auto

lemma start_gossip_ok:
  assumes "outside_ok ops io config" and "ps_enabled (cf_pubsub config)"
  shows "\<exists>node contents. start_gossip io (cf_pubsub config) health = Ok (node, contents)"
proof -
  obtain g k c where g: "from_pubsub (io_parse_addr io) (cf_pubsub config) = Ok g"
    "load_or_create_identity (io_hex_enc io) (io_hex_dec io) (io_from_bytes io) (io_identity io)
       (io_generated io) (io_seed io) (ps_identity_file (cf_pubsub config))
       (case ps_identity_file (cf_pubsub config) of None \<Rightarrow> None | Some path \<Rightarrow> io_identity_contents io path) = (Ok k, c)"
    "io_subscribe io = None" "\<forall>k. io_build_swarm io k = None" "\<forall>a. io_listen_on io a = None"
    using assms unfolding outside_ok_def by blast
  then show ?thesis
    using collect_unit [of "gc_listen g" "\<lambda>addr. case io_listen_on io addr of
        Some err \<Rightarrow> Err (OtherIo (''failed to listen on '' @ io_show_addr io addr @ '': '' @ err)) | None \<Rightarrow> Ok ()"]
    by (auto simp: start_gossip_def new_gossip_node_def)
qed

lemma spawn_anchoring_ok:
  assumes "outside_ok ops io config" and "bc_enabled (cf_blockchain config)"
    and "blockchain_config_ok (cf_blockchain config) (cf_storage config)" and "batcher_config_ok (cf_batcher config)"
  shows "\<exists>db chain. spawn_anchoring ops io config sinks tasks =
      Ok (db, DurableSink # sinks, tasks @ [BatcherTask (cf_batcher config), AnchorTask chain]) \<and>
    0 < rp_min (cc_retry chain) \<and> rp_min (cc_retry chain) \<le> rp_max (cc_retry chain) \<and>
    max_batch_size (cf_batcher config) \<le> cc_max_payload chain"
proof -
  obtain path key node where c: "st_path (cf_storage config) = Some path" "bc_key_file (cf_blockchain config) = Some key"
    "bc_node_id (cf_blockchain config) = Some node"
    using assms(3) by (auto simp: blockchain_config_ok_def)
  have v: "validate_batcher (cf_batcher config) = Ok ()" using assms(4) by (simp add: validate_batcher_Ok)
  obtain secret where r: "io_read io key = Ok secret" using assms(1,2) unfolding outside_ok_def by blast
  have p: "io_create_parent io path = None" using assms(1,2) unfolding outside_ok_def by blast
  obtain db out db1 n db2 where d: "io_open_store io path = Ok (Ok db)"
    "reconcile_format ops (io_reconcile io) (config_format_descriptor (cf_batcher config)) db = (Ok out, db1)"
    "store_counts ops (io_counts io) db1 = (Ok n, db2)"
    using assms(1,2) unfolding outside_ok_def by blast
  show ?thesis
    using c v r p d assms(3,4)
    by (auto simp: spawn_anchoring_def blockchain_config_ok_def batcher_config_ok_def from_secs_def)
qed

lemma listener_ok: "outside_ok ops io config \<Longrightarrow> \<exists>addr. spawn_listener io what s = Ok addr"
proof -
  assume "outside_ok ops io config"
  then obtain addr where "io_bind io s = Ok (Ok addr)" unfolding outside_ok_def by blast
  then show ?thesis by (simp add: spawn_listener_def)
qed

lemma start_pubsub_ok:
  assumes "outside_ok ops io config"
  shows "\<exists>(node :: ('p, 'a) GossipNode option) contents health sinks tasks.
    start_pubsub io (cf_pubsub config) = Ok (node, contents, health, sinks, tasks) \<and>
    h_ready health = (\<not> ps_enabled (cf_pubsub config)) \<and> set tasks \<subseteq> {GossipTask}"
proof (cases "ps_enabled (cf_pubsub config)")
  case True
  obtain node :: "('p, 'a) GossipNode" and contents where "start_gossip io (cf_pubsub config) new_health = Ok (node, contents)"
    using start_gossip_ok [OF assms True] by blast
  with True show ?thesis by (simp add: start_pubsub_def) (simp add: new_health_def)
qed (simp add: start_pubsub_def set_ready_def)

lemma start_blockchain_ok:
  assumes "outside_ok ops io config" and "batcher_config_ok (cf_batcher config)"
    and "bc_enabled (cf_blockchain config) \<Longrightarrow> blockchain_config_ok (cf_blockchain config) (cf_storage config)"
    and "set tasks \<subseteq> {GossipTask}"
  shows "\<exists>store sinks' tasks'. start_blockchain ops io config sinks tasks = Ok (store, sinks', tasks') \<and> tasks_agree tasks'"
proof (cases "bc_enabled (cf_blockchain config)")
  case True
  from spawn_anchoring_ok [OF assms(1) True assms(3) [OF True] assms(2), of sinks tasks]
  obtain db chain where s: "spawn_anchoring ops io config sinks tasks =
      Ok (db, DurableSink # sinks, tasks @ [BatcherTask (cf_batcher config), AnchorTask chain])"
    "0 < rp_min (cc_retry chain)" "rp_min (cc_retry chain) \<le> rp_max (cc_retry chain)"
    "max_batch_size (cf_batcher config) \<le> cc_max_payload chain" by blast
  then have "tasks_agree (tasks @ [BatcherTask (cf_batcher config), AnchorTask chain])"
    using assms(4) by (auto simp: tasks_agree_def)
  then show ?thesis using True s(1) by (simp add: start_blockchain_def)
qed (use assms(4) in \<open>auto simp: start_blockchain_def tasks_agree_def\<close>)

lemma start_http_ok:
  assumes "outside_ok ops io config"
  shows "\<exists>addr tasks. start_http io (cf_http config) = Ok (addr, tasks) \<and> (\<forall>t\<in>set tasks. \<exists>a n. t = HttpTask a n)"
  using listener_ok [OF assms, of "''HTTP ingress''" "http_listen (cf_http config)"] by (auto simp: start_http_def)

lemma validate_parts:
  assumes "validate hex_dec config = Ok ()"
  shows "batcher_config_ok (cf_batcher config)"
    and "bc_enabled (cf_blockchain config) \<Longrightarrow> blockchain_config_ok (cf_blockchain config) (cf_storage config)"
    and "auth_config_ok hex_dec (cf_auth config)"
proof -
  note v = assms [unfolded validate_def Let_def]
  show "batcher_config_ok (cf_batcher config)"
    using v by (auto simp: validate_batcher_Ok split: if_splits sum.splits)
  show "blockchain_config_ok (cf_blockchain config) (cf_storage config)" if "bc_enabled (cf_blockchain config)"
    using v that by (auto simp: validate_blockchain_Ok split: if_splits sum.splits)
  show "auth_config_ok hex_dec (cf_auth config)"
    using v validate_cps_auth_Ok [of "cf_auth config" hex_dec]
    by (cases "au_mode (cf_auth config)") (auto simp: auth_config_ok_def split: if_splits sum.splits)
qed

lemma auth_ok:
  assumes "outside_ok ops io config" and "auth_config_ok (io_hex_dec io) (cf_auth config)"
  shows "\<exists>b. auth_from_config (io_read io) (io_parse_sensor io) (io_lru_new io) (io_hex_dec io) (cf_auth config) endpoint = Ok b"
proof (cases "au_mode (cf_auth config) = AuthWhitelist")
  case True
  then obtain path where "au_file (cf_auth config) = Some path" using assms(2) by (auto simp: auth_config_ok_def)
  moreover obtain w where "whitelist_from_file (io_read io) (io_parse_sensor io) path = Ok w"
    using assms(1) True unfolding outside_ok_def by blast
  ultimately show ?thesis using True by (simp add: auth_from_config_def)
qed (rule validated_auth_builds [OF assms(2)])

lemma spawn_anchoring_sinks:
  "spawn_anchoring ops io config sinks tasks = Ok (db, sinks', tasks') \<Longrightarrow> sinks' = DurableSink # sinks"
  by (auto simp: spawn_anchoring_def try_Ok try_Ok [where g = "\<lambda>e. e"] split: option.splits prod.splits) (metis surj_pair)

lemma start_sinks:
  "start ops io config = Ok app \<Longrightarrow>
   ap_sinks app = (if bc_enabled (cf_blockchain config) then [DurableSink] else []) @
     (if ps_enabled (cf_pubsub config) then [GossipSink] else [])"
  by (auto simp: start_def start_pubsub_def start_blockchain_def try_Ok try_Ok [where g = "\<lambda>e. e"] dest!: spawn_anchoring_sinks split: if_splits)

lemma gossip_delivers:
  "deliver_loop wait hi (app_sink api sio get put send GossipSink) m d e = Some (True, snd (send m e))"
  by (subst deliver_loop.simps) (auto simp: app_sink_def channel_sink_def split: prod.splits bool.splits)

lemma start_succeeds:
  assumes "validate (io_hex_dec io) config = (Ok () :: IoError ConfigError + unit)" and "outside_ok ops io config"
  shows "\<exists>app :: ('p, 'a, 'c, 't, 'm) EdgeApp. start ops io config = Ok app \<and>
    h_ready (ap_health app) = (\<not> ps_enabled (cf_pubsub config)) \<and> dedup_ok (ap_dedup app) \<and> tasks_agree (ap_tasks app)"
proof -
  note parts = validate_parts [OF assms(1)]
  obtain node :: "('p, 'a) GossipNode option" and contents health sinks tasks where
    g: "start_pubsub io (cf_pubsub config) = Ok (node, contents, health, sinks, tasks)"
    and h: "h_ready health = (\<not> ps_enabled (cf_pubsub config))" "set tasks \<subseteq> {GossipTask}"
    using start_pubsub_ok [OF assms(2)] by blast
  obtain store sinks' tasks' where b: "start_blockchain ops io config sinks tasks = Ok (store, sinks', tasks')"
    and c: "tasks_agree tasks'"
    using start_blockchain_ok [OF assms(2) parts(1,2) h(2)] by blast
  obtain policy where p: "auth_from_config (io_read io) (io_parse_sensor io) (io_lru_new io) (io_hex_dec io) (cf_auth config)
      (bc_endpoint (cf_blockchain config)) = Ok policy" using auth_ok [OF assms(2) parts(3)] by blast
  obtain ha hts where ht: "start_http io (cf_http config) = Ok (ha, hts)" "\<forall>t\<in>set hts. \<exists>a n. t = HttpTask a n"
    using start_http_ok [OF assms(2)] by blast
  obtain oa where oa: "spawn_listener io ''ops server'' (mt_listen (cf_metrics config)) = Ok oa"
    using listener_ok [OF assms(2)] by blast
  obtain app :: "('p, 'a, 'c, 't, 'm) EdgeApp" where app: "start ops io config = Ok app" "ap_health app = health"
    "ap_dedup app = new_dedup (pl_dedup_capacity (cf_pipeline config)) (from_secs (pl_dedup_ttl_secs (cf_pipeline config)))"
    "ap_tasks app = tasks' @ [PipelineTask] @ hts @
      (if mc_enabled (cf_meshtastic config) then [MeshtasticTask (cf_meshtastic config)] else []) @ [OpsTask oa]"
    unfolding start_def by (simp add: g b p ht(1) oa)
  have "tasks_agree (ap_tasks app)" using c ht(2) by (auto simp: tasks_agree_def app(4))
  then show ?thesis using app(1-3) h(1) new_dedup_ok by metis
qed

section \<open>Properties\<close>

text \<open>
  C22. A validated configuration starts. When nothing outside fails, \<open>start\<close> succeeds; the durable sink
  comes before the gossip sink; the daemon is ready at once exactly when there is no gossip node to wait
  for; the deduplication cache is well-formed; and batcher and anchor agree: the anchor takes every
  payload the batcher may produce and retries with a positive delay.
\<close>

theorem validated_config_starts:
  assumes "validate (io_hex_dec io) config = (Ok () :: IoError ConfigError + unit)" and "outside_ok ops io config"
  shows "\<exists>app :: ('p, 'a, 'c, 't, 'm) EdgeApp. start ops io config = Ok app \<and>
    ap_sinks app = (if bc_enabled (cf_blockchain config) then [DurableSink] else []) @
      (if ps_enabled (cf_pubsub config) then [GossipSink] else []) \<and>
    h_ready (ap_health app) = (\<not> ps_enabled (cf_pubsub config)) \<and> dedup_ok (ap_dedup app) \<and>
    (\<forall>b c. BatcherTask b \<in> set (ap_tasks app) \<and> AnchorTask c \<in> set (ap_tasks app) \<longrightarrow>
       max_batch_size b \<le> cc_max_payload c \<and> 0 < rp_min (cc_retry c) \<and> rp_min (cc_retry c) \<le> rp_max (cc_retry c))"
  using start_succeeds [OF assms] start_sinks [of ops io config] unfolding tasks_agree_def by metis

text \<open>
  C9. With both sinks enabled an accepted message is on disk before the gossip node sees it, as long as
  delivery is complete: the message is offered to the gossip channel in a state whose store holds it as
  the newest pending message. When shutdown interrupts the durable sink, delivery counts as incomplete
  but the message is offered to the gossip channel all the same.
\<close>

theorem durable_before_gossip:
  assumes "start ops aio config = Ok app" and "bc_enabled (cf_blockchain config)" and "ps_enabled (cf_pubsub config)"
    and "redb_laws ops" and "\<forall>s e. get (put s e) = s"
    and "fan_out_loop wait retry m (map (app_sink (redb_api ops) io get put send) (ap_sinks app)) True e = Some (whole, e')"
    and "\<forall>n d e0. attempts wait (snd retry) (batch_sink (redb_api ops) io get put) m n (fst retry) e = Some (d, e0) \<longrightarrow>
      store_ok ops (get e0) \<and> spare ops 1 (get e0)"
  shows "\<exists>e1. e' = snd (send m e1) \<and>
    (whole \<longrightarrow> store_ok ops (get e1) \<and>
      (\<exists>older i. pending_queue ops (get e1) = older @
        [\<lparr>sm_sequence = i, sm_received_at = timestamp_from (am_received_at m), sm_envelope = am_raw_envelope m\<rparr>]))"
proof -
  have sinks: "ap_sinks app = [DurableSink, GossipSink]" using start_sinks [OF assms(1)] assms(2,3) by simp
  obtain e1 where run: "deliver_loop wait (snd retry) (batch_sink (redb_api ops) io get put) m (fst retry) e = Some (whole, e1)"
    and e': "e' = snd (send m e1)"
    using assms(6) by (auto simp: sinks gossip_delivers split: option.splits) (auto simp: app_sink_def)
  have "whole \<longrightarrow> store_ok ops (get e1) \<and>
      (\<exists>older i. pending_queue ops (get e1) = older @
        [\<lparr>sm_sequence = i, sm_received_at = timestamp_from (am_received_at m), sm_envelope = am_raw_envelope m\<rparr>])"
    using sink_stores [OF assms(4,5) _ assms(7), of e1] run by (cases whole) auto
  with e' show ?thesis by blast
qed

end
