(* ===== verification/WitnessesChain.thy ===== *)
theory WitnessesChain
  imports Witnesses App
begin

text \<open>
  Concrete inputs for the theorems on the chain connections, the durable sink, the anchor, the gossip
  node and the daemon, on the stand-ins of the theory before it.
\<close>

section \<open>Chain connections\<close>

text \<open>A light client that fails once, connects, is lost and connects again; an endpoint that is
  misconfigured.\<close>

definition chain_history :: "nat chain_event list" where
  "chain_history =
     [Requested None, Requested (Some ''ws''), Supervised None (Attempted (Err (ChainTransient ''down''))),
      Supervised (Some ''ws'') (Attempted (Err (ChainPermanent ''bad url''))), Supervised None DelayElapsed,
      Supervised None (Attempted (Ok 1)), Supervised None Lost, Supervised None (Attempted (Ok 2))]"

abbreviation registry0 :: "nat ChainRegistry" where
  "registry0 \<equiv> the (registry_run chain_history new_registry)"

lemma chain_history_runs: "registry_run chain_history new_registry = Some registry0"
  by (simp add: chain_history_def registry_step_def prefetch_def slot_def new_registry_def supervise_step_def Let_def)

theorem chain_registry_current_witness:
  "registry_run chain_history new_registry = Some registry0 \<and>
   fst (try_get (\<lambda>_. True) None registry0) = Ok 2 \<and> fst (registry_get None registry0) = Some (Ok 2)"
proof -
  have "current_link None chain_history = Some 2"
    by (simp add: current_link_def link_after_def chain_history_def)
  then show ?thesis
    using chain_history_runs chain_registry_current [OF chain_history_runs, of "\<lambda>_. True" None 2] by simp
qed

section \<open>The durable sink\<close>

text \<open>The environment counts the pauses and holds the store, whose first write fails.\<close>

type_synonym sink_env = "nat \<times> list_db"

definition sink_io :: "sink_env \<Rightarrow> io_outcome" where
  "sink_io e = (if fst e = 0 then IoDatabase ''disk'' else IoOk)"

definition sink_put :: "list_db \<Rightarrow> sink_env \<Rightarrow> sink_env" where
  "sink_put s e = (fst e, s)"

definition sink_wait :: "duration \<Rightarrow> sink_env \<Rightarrow> bool \<times> sink_env" where
  "sink_wait d e = (False, Suc (fst e), snd e)"

abbreviation sink0 :: "sink_env MessageSink" where
  "sink0 \<equiv> batch_sink (redb_api list_redb) sink_io snd sink_put"

abbreviation push0 :: list_db where
  "push0 \<equiv> snd (push_message list_redb IoOk (timestamp_from 50) [9] db0)"

lemma sink0_deliver:
  "sk_deliver sink0 accepted0 (0, db0) = (Err (SinkDelivery ''batch'' (show_store_error (Database ''disk''))), 0, db0)"
  "sk_deliver sink0 accepted0 (Suc 0, db0) = (Ok (), Suc 0, push0)"
  "sk_required sink0"
proof -
  show "sk_deliver sink0 accepted0 (0, db0) = (Err (SinkDelivery ''batch'' (show_store_error (Database ''disk''))), 0, db0)"
    by (simp add: batch_sink_def redb_api_def sink_io_def sink_put_def push_message_def blocking_def)
  obtain i s where "push_message list_redb IoOk (timestamp_from 50) [9] db0 = (Ok i, s)"
    using redb.push_io [OF db0_ok] by blast
  then show "sk_deliver sink0 accepted0 (Suc 0, db0) = (Ok (), Suc 0, push0)"
    by (simp add: batch_sink_def redb_api_def sink_io_def sink_put_def accepted0_def)
qed (simp add: batch_sink_def)

lemma sink0_run: "deliver_loop sink_wait 8 sink0 accepted0 1 (0, db0) = Some (True, Suc 0, push0)"
  by (simp add: deliver_loop.simps sink0_deliver sink_wait_def)

lemma sink0_attempts:
  "\<forall>n d e0. attempts sink_wait 8 sink0 accepted0 n 1 (0, db0) = Some (d, e0) \<longrightarrow>
     store_ok list_redb (snd e0) \<and> spare list_redb 1 (snd e0)"
proof (intro allI impI)
  fix n d e0
  assume a: "attempts sink_wait 8 sink0 accepted0 n 1 (0, db0) = Some (d, e0)"
  consider "n = 0" | "n = 1" | k where "n = Suc (Suc k)" by (metis One_nat_def not0_implies_Suc)
  then have "snd e0 = db0"
    by cases (use a in \<open>auto simp: sink0_deliver sink_wait_def\<close>)
  then show "store_ok list_redb (snd e0) \<and> spare list_redb 1 (snd e0)" using db0_ok db0_spare by simp
qed

section \<open>The anchor\<close>

abbreviation db2 :: list_db where
  "db2 \<equiv> snd commit0"

definition confirmed0 :: Confirmation where
  "confirmed0 = \<lparr>cf_extrinsic_hash = ''0xab'', cf_block_hash = ''0xcd''\<rparr>"

definition policy0 :: RetryPolicy where
  "policy0 = \<lparr>rp_min = 1, rp_max = 8\<rparr>"

text \<open>A message is pushed while the batch is submitted.\<close>

definition anchor_events :: "anchor_event list" where
  "anchor_events =
     [StoreTurn (ok_obs IoOk), OtherPush IoOk 60 [7], ChainTurn (ok_obs (Ok confirmed0)),
      StoreTurn (ok_obs IoOk)]"

abbreviation anchor0 :: "(list_db anchor_state \<times> metric list) option" where
  "anchor0 \<equiv> anchor_run (redb_api list_redb) policy0 100 anchor_events (anchor_start db2)"

lemma db2_ok: "store_ok list_redb db2"
  by code_simp

lemma db2_counters: "counter list_redb NEXT_SEQUENCE db2 = 1" "counter list_redb NEXT_BATCH_ID db2 = 1"
  by code_simp+

lemma db2_spare: "spare list_redb (sum_list (map event_cost anchor_events)) db2"
  by (simp add: spare_def db2_counters anchor_events_def)

lemma db2_ready: "ready_queue list_redb db2 = [\<lparr>sb_id = 0, sb_created_at = 41, sb_message_count = 1, sb_payload = [4, 4]\<rparr>]"
  by code_simp

lemma anchor0_runs: "anchor0 = Some (fst (the anchor0), snd (the anchor0))"
proof -
  have "\<not> Option.is_none anchor0" by code_simp
  then show ?thesis by (rule some_the)
qed

theorem anchor_at_least_once_witness:
  "anchor0 = Some (fst (the anchor0), snd (the anchor0)) \<and> store_ok list_redb (an_store (fst (the anchor0))) \<and>
   (\<exists>new k. ready_queue list_redb (an_store (fst (the anchor0))) = drop k (ready_queue list_redb db2 @ new) \<and>
      set (map fst (an_calls (fst (the anchor0)))) \<subseteq> set (ready_queue list_redb db2 @ new))"
  using anchor0_runs anchor_at_least_once [OF list_redb_laws db2_ok db2_spare anchor0_runs] by fastforce

theorem anchor_drains_witness:
  "\<exists>n db'. n \<le> 4 \<and> ready_queue list_redb db' = [] \<and>
     good_run (redb_api list_redb) policy0 100 confirmed0 n (anchor_start db2) =
       \<lparr>an_pc = IdleWait, an_store = db',
        an_calls = [(\<lparr>sb_id = 0, sb_created_at = 41, sb_message_count = 1, sb_payload = [4, 4]\<rparr>, Ok confirmed0)]\<rparr>"
proof -
  have small: "\<forall>b\<in>set (ready_queue list_redb db2). length (sb_payload b) \<le> 100" by (simp add: db2_ready)
  from anchor_drains [OF list_redb_laws db2_ok small, of policy0 confirmed0] show ?thesis
    unfolding db2_ready by auto
qed

section \<open>The gossip node\<close>

text \<open>Two connections to one peer, one of them closed, and a second peer.\<close>

definition gossip_events :: "(nat, string) gossip_event list" where
  "gossip_events =
     [Swarm 5 (ConnectionEstablished 1 ''a''), Swarm 6 (ConnectionEstablished 1 ''b''), ReconnectTick,
      PublishRequest (Some accepted0) PublishDone, Swarm 7 (ConnectionClosed 1), Swarm 8 (ConnectionEstablished 2 ''c'')]"

definition node0 :: "(nat, string) GossipNode" where
  "node0 = \<lparr>gn_topic = ''t'', gn_reserved_peers = [''r''], gn_min_connected_peers = 2, gn_peers = [],
            gn_health = Some new_health, gn_inbound = False\<rparr>"

abbreviation gossip0 :: "bool \<times> (nat, string) GossipNode \<times> (nat, string) gossip_output list" where
  "gossip0 \<equiv> gossip_run False gossip_events node0"

lemma gossip0_runs: "gossip0 = (True, fst (snd gossip0), snd (snd gossip0))"
proof -
  have "fst gossip0"
    by (simp add: gossip_run_def gossip_events_def gossip_step_def split: prod.splits)
  then show ?thesis by (metis prod.collapse)
qed

lemma gossip0_open: "open_connections gossip_events p = (if p = 1 \<or> p = 2 then 1 else 0)"
  by (simp add: open_connections_def gossip_events_def open_after_def)

theorem gossip_readiness_exact_witness:
  "gossip0 = (True, fst (snd gossip0), snd (snd gossip0)) \<and> connected_count (gn_peers (fst (snd gossip0))) = 2 \<and>
   (\<exists>h'. gn_health (fst (snd gossip0)) = Some h' \<and> fst (ready_handler h') = OK)"
proof -
  have "connected_peers gossip_events = {1, 2}" by (auto simp: connected_peers_def gossip0_open)
  then have card: "card (connected_peers gossip_events) = 2" by simp
  have h: "gn_peers node0 = []" "gn_health node0 = Some new_health" "gn_min_connected_peers node0 = 2"
    by (simp_all add: node0_def)
  from gossip0_runs gossip_readiness_exact [OF gossip0_runs h(1,2)] show ?thesis
    unfolding card h(3) by auto
qed

definition file0 :: file_io where
  "file0 = \<lparr>fi_read = Ok, fi_write = (\<lambda>t. (None, Some t))\<rparr>"

section \<open>The daemon\<close>

text \<open>The default configuration with anchoring switched on, and an outside that works.\<close>

definition config1 :: Config where
  "config1 = default_config\<lparr>
     cf_blockchain := default_blockchain\<lparr>bc_enabled := True, bc_key_file := Some ''key'', bc_node_id := Some 5\<rparr>,
     cf_storage := \<lparr>st_path = Some ''db''\<rparr>\<rparr>"

definition app_io0 :: "(bytes, string, one, (u64 \<times> bytes) list, (string \<times> bytes) list) app_io" where
  "app_io0 =
     \<lparr>io_parse_addr = Ok, io_show_addr = (\<lambda>a. a), io_hex_enc = hex_enc0, io_hex_dec = hex_dec0, io_from_bytes = Ok,
      io_identity = file0, io_identity_contents = (\<lambda>_. None), io_generated = [1], io_seed = [2],
      io_build_swarm = (\<lambda>_. None), io_subscribe = None, io_listen_on = (\<lambda>_. None), io_read = Ok,
      io_parse_sensor = (\<lambda>_. Err ''entry''), io_lru_new = (\<lambda>_. None), io_create_parent = (\<lambda>_. None),
      io_open_store = (\<lambda>_. Ok (Ok db0)), io_reconcile = (IoOk, IoOk, IoOk), io_counts = IoOk,
      io_show_socket = (\<lambda>_. ''addr''), io_bind = (\<lambda>s. Ok (Ok s))\<rparr>"

lemma config1_sections:
  "ps_enabled (cf_pubsub config1)" "bc_enabled (cf_blockchain config1)" "au_mode (cf_auth config1) = AuthNone"
  "cf_batcher config1 = default_batcher" "ps_identity_file (cf_pubsub config1) = None"
  by (simp_all add: config1_def default_config_def default_pubsub_def default_blockchain_def default_auth_def)

lemma config1_valid: "validate (io_hex_dec app_io0) config1 = (Ok () :: IoError ConfigError + unit)"
  by (simp add: validate_def config1_def default_config_def default_blockchain_def default_auth_def default_ipfs_def
      default_meshtastic_def default_batcher_def validate_ipfs_def validate_meshtastic_def validate_batcher_def
      validate_blockchain_def MAX_PAYLOAD_SIZE_def)

lemma reconcile_db0:
  "reconcile_format list_redb (IoOk, IoOk, IoOk) format0 db0 =
     (Ok Recorded, snd (reconcile_format list_redb (IoOk, IoOk, IoOk) format0 db0))"
  by code_simp

lemma app_io0_ok: "outside_ok list_redb app_io0 config1"
proof -
  have "\<exists>g. from_pubsub Ok (cf_pubsub config1) = Ok g"
    by (simp add: from_pubsub_def parse_multiaddrs_def config1_def default_config_def default_pubsub_def map_err_def)
  moreover have "\<exists>n db2. store_counts list_redb IoOk db = (Ok n, db2)" for db :: list_db
    by (simp add: store_counts_def blocking_def read_txn_def)
  ultimately show ?thesis
    using reconcile_db0
    by (auto simp: outside_ok_def app_io0_def config1_sections load_or_create_identity_def format0_def)
qed

theorem validated_config_starts_witness:
  "\<exists>app :: (nat, string, one, (u64 \<times> bytes) list, (string \<times> bytes) list) EdgeApp.
     start list_redb app_io0 config1 = Ok app \<and> ap_sinks app = [DurableSink, GossipSink] \<and> \<not> h_ready (ap_health app)"
  using validated_config_starts [OF config1_valid app_io0_ok] config1_sections(1,2) by auto

abbreviation app0 :: "(nat, string, one, (u64 \<times> bytes) list, (string \<times> bytes) list) EdgeApp" where
  "app0 \<equiv> projr (start list_redb app_io0 config1)"

lemma app0_starts: "start list_redb app_io0 config1 = Ok app0"
proof -
  obtain app where "start list_redb app_io0 config1 = (Ok app :: AppError + (nat, string, one, (u64 \<times> bytes) list, (string \<times> bytes) list) EdgeApp)"
    using start_succeeds [OF config1_valid app_io0_ok] by blast
  then show ?thesis by simp
qed

text \<open>The gossip channel counts what it takes in the first component of the environment.\<close>

definition send1 :: "AcceptedMessage \<Rightarrow> sink_env \<Rightarrow> bool \<times> sink_env" where
  "send1 m e = (True, fst e + 10, snd e)"

lemma fan_out0:
  "fan_out_loop sink_wait (1, 8) accepted0 (map (app_sink (redb_api list_redb) sink_io snd sink_put send1) (ap_sinks app0)) True
     (0, db0) = Some (True, 11, push0)"
proof -
  have sinks: "ap_sinks app0 = [DurableSink, GossipSink]" using start_sinks [OF app0_starts] config1_sections by simp
  have "app_sink (redb_api list_redb) sink_io snd sink_put send1 DurableSink = sink0" by (simp add: app_sink_def)
  then show ?thesis using sink0_run by (simp add: sinks gossip_delivers send1_def)
qed

theorem durable_before_gossip_witness:
  "fan_out_loop sink_wait (1, 8) accepted0 (map (app_sink (redb_api list_redb) sink_io snd sink_put send1) (ap_sinks app0)) True
     (0, db0) = Some (True, 11, push0) \<and>
   (\<exists>e1. (11, push0) = snd (send1 accepted0 e1) \<and>
      (\<exists>older i. pending_queue list_redb (snd e1) = older @
         [\<lparr>sm_sequence = i, sm_received_at = timestamp_from 50, sm_envelope = [9]\<rparr>]))"
proof -
  have get: "\<forall>s e. snd (sink_put s e) = s" by (simp add: sink_put_def)
  have att: "\<forall>n d e0. attempts sink_wait (snd (1, 8)) sink0 accepted0 n (fst (1, 8)) (0, db0) = Some (d, e0) \<longrightarrow>
      store_ok list_redb (snd e0) \<and> spare list_redb 1 (snd e0)" using sink0_attempts by simp
  have m: "am_received_at accepted0 = 50" "am_raw_envelope accepted0 = [9]" by (simp_all add: accepted0_def)
  from durable_before_gossip [OF app0_starts config1_sections(2,1) list_redb_laws get fan_out0 att] fan_out0
  show ?thesis unfolding m by blast
qed

end
