(* ===== verification/LibcpsCrypto.thy ===== *)
theory LibcpsCrypto
  imports Protocol LibcpsError
begin

text \<open>
  The cryptography of libcps: \<open>crates/libcps/src/crypto/\<close> (algorithms, key agreement, the cipher),
  \<open>identity.rs\<close> (identity keys and their signatures) and \<open>permit.rs\<close> (identity permits).

  Curve operations, hashes, HKDF, the AEAD ciphers, the signature schemes and the JSON codec are
  parameters; random nonces are inputs. Fixed-size arrays are byte lists whose length the operations
  check or produce.
\<close>

section \<open>Algorithms\<close>

datatype EncryptionAlgorithm = XChaCha20Poly1305 | AesGcm256 | ChaCha20Poly1305

fun info_string :: "EncryptionAlgorithm \<Rightarrow> string" where
  "info_string XChaCha20Poly1305 = ''xchacha20poly1305''"
| "info_string AesGcm256 = ''aesgcm256''"
| "info_string ChaCha20Poly1305 = ''chacha20poly1305''"

fun nonce_size :: "EncryptionAlgorithm \<Rightarrow> nat" where
  "nonce_size XChaCha20Poly1305 = 24"
| "nonce_size AesGcm256 = 12"
| "nonce_size ChaCha20Poly1305 = 12"

definition algorithm_from_str :: "string \<Rightarrow> string + EncryptionAlgorithm" where
  "algorithm_from_str s =
     (let l = ascii_lower s in
      if l \<in> {''xchacha20'', ''xchacha20poly1305'', ''xchacha20-poly1305''} then Ok XChaCha20Poly1305
      else if l \<in> {''aesgcm256'', ''aes-256-gcm'', ''aes256gcm'', ''aesgcm''} then Ok AesGcm256
      else if l \<in> {''chacha20'', ''chacha20poly1305'', ''chacha20-poly1305''} then Ok ChaCha20Poly1305
      else Err (''Unknown encryption algorithm: '' @ [char_of (39 :: nat)] @ s @ [char_of (39 :: nat)] @
             ''. Supported: xchacha20, aesgcm256, chacha20''))"

datatype EncryptedMessage = EncV1 EncryptionAlgorithm bytes bytes bytes

section \<open>Key agreement\<close>

text \<open>A curve: decompression of points, multiplication by the scalar of 32 bytes, compression.\<close>

record 'g curve =
  cv_decompress :: "bytes \<Rightarrow> 'g option"
  cv_mul :: "bytes \<Rightarrow> 'g \<Rightarrow> 'g"
  cv_compress :: "'g \<Rightarrow> bytes"

definition sr_derive_shared ::
  "(bytes \<Rightarrow> bytes) \<Rightarrow> 'g curve \<Rightarrow> bytes \<Rightarrow> bytes \<Rightarrow> string + bytes" where
  "sr_derive_shared sha512 ristretto secret receiver_public =
     (case cv_decompress ristretto receiver_public of
        None \<Rightarrow> Err ''Failed to decompress Ristretto255 public key''
      | Some public_point \<Rightarrow>
          Ok (take 32 (sha512 (as_bytes ''robonomics-cps-ecdh'' @
                cv_compress ristretto (cv_mul ristretto secret public_point)))))"

definition clamp :: "bytes \<Rightarrow> bytes" where
  "clamp b = b[0 := and (b ! 0) 248, 31 := or (and (b ! 31) 127) 64]"

text \<open>The curve is Curve25519, reached from the Edwards form of the public key.\<close>

definition ed_derive_shared ::
  "(bytes \<Rightarrow> bytes) \<Rightarrow> 'g curve \<Rightarrow> bytes \<Rightarrow> bytes \<Rightarrow> string + bytes" where
  "ed_derive_shared sha512 x25519 secret receiver_public =
     (case cv_decompress x25519 receiver_public of
        None \<Rightarrow> Err ''Failed to decompress ED25519 public key''
      | Some point \<Rightarrow> Ok (cv_compress x25519 (cv_mul x25519 (clamp (take 32 (sha512 secret))) point)))"

text \<open>\<open>Signer<S>\<close> by its scheme and secret; \<open>public\<close> gives the public key of a secret.\<close>

datatype Scheme = Sr25519 | Ed25519

record SharedSecret =
  ss_public :: bytes
  ss_derive :: "bytes \<Rightarrow> string + bytes"

definition signer ::
  "Scheme \<Rightarrow> (bytes \<Rightarrow> bytes) \<Rightarrow> 'g curve \<Rightarrow> (bytes \<Rightarrow> bytes) \<Rightarrow> bytes \<Rightarrow> SharedSecret" where
  "signer scheme sha512 cv public secret =
     \<lparr>ss_public = public secret,
      ss_derive = (case scheme of Sr25519 \<Rightarrow> sr_derive_shared sha512 cv secret
                   | Ed25519 \<Rightarrow> ed_derive_shared sha512 cv secret)\<rparr>"

definition scheme_NAME :: "Scheme \<Rightarrow> string" where
  "scheme_NAME scheme = (case scheme of Sr25519 \<Rightarrow> ''SR25519'' | Ed25519 \<Rightarrow> ''ED25519'')"

text \<open>\<open>pairs\<close> is \<open>Pair::from_string\<close> of each scheme, with the signer of the pair.\<close>

definition signer_from_suri :: "(Scheme \<Rightarrow> string \<Rightarrow> string + SharedSecret) \<Rightarrow> Scheme \<Rightarrow> string \<Rightarrow> CpsError + SharedSecret" where
  "signer_from_suri pairs scheme suri =
     map_err (\<lambda>e. CpsCrypto (''failed to parse '' @ scheme_NAME scheme @ '' keypair: '' @ e)) (pairs scheme suri)"

section \<open>The cipher\<close>

definition HKDF_SALT :: bytes where
  "HKDF_SALT = as_bytes ''robonomics-network''"

text \<open>\<open>hkdf salt secret info\<close> gives 32 bytes; \<open>seal\<close> and \<open>unseal\<close> are the AEAD of each algorithm.\<close>

record cipher_ops =
  co_hkdf :: "bytes \<Rightarrow> bytes \<Rightarrow> bytes \<Rightarrow> string + bytes"
  co_seal :: "EncryptionAlgorithm \<Rightarrow> bytes \<Rightarrow> bytes \<Rightarrow> bytes \<Rightarrow> string + bytes"
  co_unseal :: "EncryptionAlgorithm \<Rightarrow> bytes \<Rightarrow> bytes \<Rightarrow> bytes \<Rightarrow> string + bytes"

fun cipher_name :: "EncryptionAlgorithm \<Rightarrow> string" where
  "cipher_name XChaCha20Poly1305 = ''XChaCha20''"
| "cipher_name AesGcm256 = ''AES-GCM''"
| "cipher_name ChaCha20Poly1305 = ''ChaCha20''"

definition derive_key :: "cipher_ops \<Rightarrow> EncryptionAlgorithm \<Rightarrow> bytes \<Rightarrow> string + bytes" where
  "derive_key ops algorithm shared_secret =
     map_err (\<lambda>e. ''HKDF expansion failed: '' @ e) (co_hkdf ops HKDF_SALT shared_secret (as_bytes (info_string algorithm)))"

definition encrypt ::
  "cipher_ops \<Rightarrow> bytes \<Rightarrow> SharedSecret \<Rightarrow> bytes \<Rightarrow> bytes \<Rightarrow> EncryptionAlgorithm \<Rightarrow> string + EncryptedMessage" where
  "encrypt ops nonce self plaintext receiver_public algorithm =
     (case ss_derive self receiver_public of
        Err e \<Rightarrow> Err e
      | Ok shared_secret \<Rightarrow>
          (case derive_key ops algorithm shared_secret of
             Err e \<Rightarrow> Err e
           | Ok key \<Rightarrow>
               (case map_err (\<lambda>e. cipher_name algorithm @ '' encryption failed: '' @ e)
                       (co_seal ops algorithm key nonce plaintext) of
                  Err e \<Rightarrow> Err e
                | Ok ciphertext \<Rightarrow> Ok (EncV1 algorithm (ss_public self) nonce ciphertext))))"

fun decrypt ::
  "cipher_ops \<Rightarrow> SharedSecret \<Rightarrow> EncryptedMessage \<Rightarrow> bytes option \<Rightarrow> string + bytes" where
  "decrypt ops self (EncV1 algorithm from nonce ciphertext) expected_sender =
     (if (case expected_sender of None \<Rightarrow> False | Some expected_pk \<Rightarrow> from \<noteq> expected_pk)
      then Err ''Sender public key mismatch: message from unexpected sender''
      else
        (case ss_derive self from of
           Err e \<Rightarrow> Err e
         | Ok shared_secret \<Rightarrow>
             (case derive_key ops algorithm shared_secret of
                Err e \<Rightarrow> Err e
              | Ok key \<Rightarrow>
                  if length nonce \<noteq> nonce_size algorithm
                  then Err (''Invalid '' @ cipher_name algorithm @ '' nonce length: expected '' @
                         show_nat (nonce_size algorithm) @ '' bytes'')
                  else map_err (\<lambda>e. cipher_name algorithm @ '' decryption failed: '' @ e)
                         (co_unseal ops algorithm key nonce ciphertext))))"

text \<open>The derived SCALE codec of messages: the index of the variant, that of the algorithm, the array as it is
  and the two vectors by the codec of byte vectors, which gives the rest of the input too.\<close>

fun algorithm_index :: "EncryptionAlgorithm \<Rightarrow> u8" where
  "algorithm_index XChaCha20Poly1305 = 0"
| "algorithm_index AesGcm256 = 1"
| "algorithm_index ChaCha20Poly1305 = 2"

fun scale_encode :: "(bytes \<Rightarrow> bytes) \<Rightarrow> EncryptedMessage \<Rightarrow> bytes" where
  "scale_encode vec_enc (EncV1 algorithm from nonce ciphertext) =
     0 # algorithm_index algorithm # from @ vec_enc nonce @ vec_enc ciphertext"

definition decode_algorithm :: "u8 \<Rightarrow> EncryptionAlgorithm option" where
  "decode_algorithm b =
     (if b = 0 then Some XChaCha20Poly1305 else if b = 1 then Some AesGcm256
      else if b = 2 then Some ChaCha20Poly1305 else None)"

definition scale_decode_rest :: "(bytes \<Rightarrow> string + bytes \<times> bytes) \<Rightarrow> bytes \<Rightarrow> (EncryptedMessage \<times> bytes) option" where
  "scale_decode_rest vec_dec input =
     (case input of
        v # a # rest \<Rightarrow>
          if v \<noteq> 0 then None
          else (case decode_algorithm a of
                  None \<Rightarrow> None
                | Some algorithm \<Rightarrow>
                    if length rest < 32 then None
                    else (case vec_dec (drop 32 rest) of
                            Err _ \<Rightarrow> None
                          | Ok (nonce, remaining) \<Rightarrow>
                              (case vec_dec remaining of
                                 Err _ \<Rightarrow> None
                               | Ok (ciphertext, after) \<Rightarrow> Some (EncV1 algorithm (take 32 rest) nonce ciphertext, after))))
      | _ \<Rightarrow> None)"

definition scale_decode :: "(bytes \<Rightarrow> string + bytes \<times> bytes) \<Rightarrow> bytes \<Rightarrow> EncryptedMessage option" where
  "scale_decode vec_dec input = map_option fst (scale_decode_rest vec_dec input)"

section \<open>Identity keys\<close>

type_synonym AccountId = bytes

datatype IdentityScheme = SchemeSr25519 | SchemeEd25519 | SchemeEcdsa

fun show_scheme :: "IdentityScheme \<Rightarrow> string" where
  "show_scheme SchemeSr25519 = ''sr25519''"
| "show_scheme SchemeEd25519 = ''ed25519''"
| "show_scheme SchemeEcdsa = ''ecdsa''"

definition scheme_from_str :: "string \<Rightarrow> CpsError + IdentityScheme" where
  "scheme_from_str s =
     (let l = ascii_lower s in
      if l \<in> {''sr25519'', ''sr''} then Ok SchemeSr25519
      else if l \<in> {''ed25519'', ''ed''} then Ok SchemeEd25519
      else if l = ''ecdsa'' then Ok SchemeEcdsa
      else Err (CpsCrypto (''unknown scheme `'' @ l @ ''`, expected sr25519, ed25519 or ecdsa'')))"

datatype PermitSignature = SigEd25519 bytes | SigSr25519 bytes | SigEcdsa bytes

datatype ('sr, 'ed, 'ec) KeyPair = KpSr25519 'sr | KpEd25519 'ed | KpEcdsa 'ec

text \<open>The signature libraries; \<open>recover\<close> gives the public key an ECDSA signature was made with.\<close>

record ('sr, 'ed, 'ec) sig_ops =
  so_sr_public :: "'sr \<Rightarrow> bytes"
  so_sr_sign :: "'sr \<Rightarrow> bytes \<Rightarrow> bytes"
  so_sr_verify :: "bytes \<Rightarrow> bytes \<Rightarrow> bytes \<Rightarrow> bool"
  so_ed_public :: "'ed \<Rightarrow> bytes"
  so_ed_sign :: "'ed \<Rightarrow> bytes \<Rightarrow> bytes"
  so_ed_verify :: "bytes \<Rightarrow> bytes \<Rightarrow> bytes \<Rightarrow> bool"
  so_ec_public :: "'ec \<Rightarrow> bytes"
  so_ec_sign :: "'ec \<Rightarrow> bytes \<Rightarrow> bytes"
  so_ec_recover :: "bytes \<Rightarrow> bytes \<Rightarrow> bytes option"
  so_blake2_256 :: "bytes \<Rightarrow> bytes"

text \<open>Keys from secret URIs: \<open>sr\<close>, \<open>ed\<close> and \<open>ec\<close> parse them, a failure is its debug text. A random key comes
  with the phrase it was made from.\<close>

definition key_from_suri ::
  "(string \<Rightarrow> string + 'sr) \<Rightarrow> (string \<Rightarrow> string + 'ed) \<Rightarrow> (string \<Rightarrow> string + 'ec) \<Rightarrow> IdentityScheme \<Rightarrow> string
    \<Rightarrow> CpsError + ('sr, 'ed, 'ec) KeyPair" where
  "key_from_suri sr ed ec scheme suri =
     (case scheme of
        SchemeSr25519 \<Rightarrow> map_ok KpSr25519 (map_err CpsCrypto (sr suri))
      | SchemeEd25519 \<Rightarrow> map_ok KpEd25519 (map_err CpsCrypto (ed suri))
      | SchemeEcdsa \<Rightarrow> map_ok KpEcdsa (map_err CpsCrypto (ec suri)))"

definition key_generate ::
  "'sr \<times> string \<Rightarrow> 'ed \<times> string \<Rightarrow> 'ec \<times> string \<Rightarrow> IdentityScheme \<Rightarrow> ('sr, 'ed, 'ec) KeyPair \<times> string" where
  "key_generate sr ed ec scheme =
     (case scheme of
        SchemeSr25519 \<Rightarrow> (KpSr25519 (fst sr), snd sr)
      | SchemeEd25519 \<Rightarrow> (KpEd25519 (fst ed), snd ed)
      | SchemeEcdsa \<Rightarrow> (KpEcdsa (fst ec), snd ec))"

fun key_scheme :: "('sr, 'ed, 'ec) KeyPair \<Rightarrow> IdentityScheme" where
  "key_scheme (KpSr25519 _) = SchemeSr25519"
| "key_scheme (KpEd25519 _) = SchemeEd25519"
| "key_scheme (KpEcdsa _) = SchemeEcdsa"

fun key_public :: "('sr, 'ed, 'ec) sig_ops \<Rightarrow> ('sr, 'ed, 'ec) KeyPair \<Rightarrow> bytes" where
  "key_public ops (KpSr25519 p) = so_sr_public ops p"
| "key_public ops (KpEd25519 p) = so_ed_public ops p"
| "key_public ops (KpEcdsa p) = so_ec_public ops p"

fun key_account_id :: "('sr, 'ed, 'ec) sig_ops \<Rightarrow> ('sr, 'ed, 'ec) KeyPair \<Rightarrow> AccountId" where
  "key_account_id ops (KpEcdsa p) = so_blake2_256 ops (so_ec_public ops p)"
| "key_account_id ops k = key_public ops k"

fun key_sign :: "('sr, 'ed, 'ec) sig_ops \<Rightarrow> ('sr, 'ed, 'ec) KeyPair \<Rightarrow> bytes \<Rightarrow> PermitSignature" where
  "key_sign ops (KpSr25519 p) message = SigSr25519 (so_sr_sign ops p message)"
| "key_sign ops (KpEd25519 p) message = SigEd25519 (so_ed_sign ops p message)"
| "key_sign ops (KpEcdsa p) message = SigEcdsa (so_ec_sign ops p message)"

fun signature_scheme :: "PermitSignature \<Rightarrow> IdentityScheme" where
  "signature_scheme (SigSr25519 _) = SchemeSr25519"
| "signature_scheme (SigEd25519 _) = SchemeEd25519"
| "signature_scheme (SigEcdsa _) = SchemeEcdsa"

fun signature_to_bytes :: "PermitSignature \<Rightarrow> bytes" where
  "signature_to_bytes (SigSr25519 s) = s"
| "signature_to_bytes (SigEd25519 s) = s"
| "signature_to_bytes (SigEcdsa s) = s"

definition signature_from_bytes :: "IdentityScheme \<Rightarrow> bytes \<Rightarrow> CpsError + PermitSignature" where
  "signature_from_bytes scheme bytes =
     (let wrong = (\<lambda>expected. CpsCrypto (show_scheme scheme @ '' signature must be '' @ show_nat expected @
                     '' bytes, got '' @ show_nat (length bytes))) in
      case scheme of
        SchemeSr25519 \<Rightarrow> if length bytes = 64 then Ok (SigSr25519 bytes) else Err (wrong 64)
      | SchemeEd25519 \<Rightarrow> if length bytes = 64 then Ok (SigEd25519 bytes) else Err (wrong 64)
      | SchemeEcdsa \<Rightarrow> if length bytes = 65 then Ok (SigEcdsa bytes) else Err (wrong 65))"

text \<open>\<open>ss58\<close> parses SS58 addresses.\<close>

definition parse_account ::
  "(string \<Rightarrow> string + AccountId) \<Rightarrow> (string \<Rightarrow> string + bytes) \<Rightarrow> string \<Rightarrow> CpsError + AccountId" where
  "parse_account ss58 hex_dec s =
     (case ss58 s of
        Ok account \<Rightarrow> Ok account
      | Err _ \<Rightarrow>
          (case hex_dec (strip_prefix_0x s) of
             Err _ \<Rightarrow> Err (CpsCrypto (''`'' @ s @ ''` is neither an SS58 address nor hex''))
           | Ok bytes \<Rightarrow>
               if length bytes = 32 then Ok bytes
               else Err (CpsCrypto (''public key must be 32 bytes, got '' @ show_nat (length bytes)))))"

section \<open>Permits\<close>

definition IDENTITY_PERMIT_DOMAIN :: bytes where
  "IDENTITY_PERMIT_DOMAIN = as_bytes ''robonomics:cps:node-identity:v1''"

definition PERMIT_ARTIFACT_VERSION :: nat where
  "PERMIT_ARTIFACT_VERSION = 1"

record IdentityPermitPayload =
  ip_genesis_hash :: bytes
  ip_scope :: u64
  ip_valid_until :: u32

text \<open>The SCALE encoding of the tuple: a byte string has its compact length first, arrays and integers
  are their bytes. \<open>compact\<close> encodes lengths.\<close>

definition signing_bytes :: "(nat \<Rightarrow> bytes) \<Rightarrow> IdentityPermitPayload \<Rightarrow> bytes" where
  "signing_bytes compact p =
     compact (length IDENTITY_PERMIT_DOMAIN) @ IDENTITY_PERMIT_DOMAIN @ ip_genesis_hash p @
     u64_to_le_bytes (ip_scope p) @ u32_to_le_bytes (ip_valid_until p)"

record IdentityPermit =
  pt_valid_until :: u32
  pt_signature :: PermitSignature

record IdentityAssignment =
  ia_account :: AccountId
  ia_permit :: "IdentityPermit option"

record PermitArtifact =
  pa_payload :: IdentityPermitPayload
  pa_identity :: AccountId
  pa_signature :: PermitSignature

definition sign_permit ::
  "(nat \<Rightarrow> bytes) \<Rightarrow> ('sr, 'ed, 'ec) sig_ops \<Rightarrow> ('sr, 'ed, 'ec) KeyPair \<Rightarrow> IdentityPermitPayload \<Rightarrow> PermitArtifact" where
  "sign_permit compact ops key p =
     \<lparr>pa_payload = p, pa_identity = key_account_id ops key, pa_signature = key_sign ops key (signing_bytes compact p)\<rparr>"

definition into_assignment :: "PermitArtifact \<Rightarrow> IdentityAssignment" where
  "into_assignment a =
     \<lparr>ia_account = pa_identity a,
      ia_permit = Some \<lparr>pt_valid_until = ip_valid_until (pa_payload a), pt_signature = pa_signature a\<rparr>\<rparr>"

definition verify_permit :: "(nat \<Rightarrow> bytes) \<Rightarrow> ('sr, 'ed, 'ec) sig_ops \<Rightarrow> PermitArtifact \<Rightarrow> bool" where
  "verify_permit compact ops a =
     (let message = signing_bytes compact (pa_payload a) in
      case pa_signature a of
        SigSr25519 s \<Rightarrow> so_sr_verify ops s message (pa_identity a)
      | SigEd25519 s \<Rightarrow> so_ed_verify ops s message (pa_identity a)
      | SigEcdsa s \<Rightarrow>
          (case so_ec_recover ops s message of
             None \<Rightarrow> False
           | Some pk \<Rightarrow> so_blake2_256 ops pk = pa_identity a))"

text \<open>The JSON form. \<open>render\<close> and \<open>parse\<close> are the codec of \<open>Repr\<close>.\<close>

record Repr =
  rp_version :: nat
  rp_identity :: string
  rp_scheme :: IdentityScheme
  rp_genesis_hash :: string
  rp_scope :: u64
  rp_valid_until :: u32
  rp_signature :: string

definition to_json ::
  "(Repr \<Rightarrow> string) \<Rightarrow> (bytes \<Rightarrow> string) \<Rightarrow> (AccountId \<Rightarrow> string) \<Rightarrow> PermitArtifact \<Rightarrow> string" where
  "to_json render hex_enc show_account a =
     render \<lparr>rp_version = PERMIT_ARTIFACT_VERSION, rp_identity = show_account (pa_identity a),
             rp_scheme = signature_scheme (pa_signature a),
             rp_genesis_hash = ''0x'' @ hex_enc (ip_genesis_hash (pa_payload a)),
             rp_scope = ip_scope (pa_payload a), rp_valid_until = ip_valid_until (pa_payload a),
             rp_signature = ''0x'' @ hex_enc (signature_to_bytes (pa_signature a))\<rparr>"

definition bad_permit :: "string \<Rightarrow> CpsError" where
  "bad_permit what = CpsCrypto (''invalid permit: '' @ what)"

definition from_json ::
  "(string \<Rightarrow> string + Repr) \<Rightarrow> (string \<Rightarrow> string + bytes) \<Rightarrow> (string \<Rightarrow> string + AccountId) \<Rightarrow> string
    \<Rightarrow> CpsError + PermitArtifact" where
  "from_json parse hex_dec ss58 json =
     (case parse json of
        Err e \<Rightarrow> Err (bad_permit e)
      | Ok repr \<Rightarrow>
          if rp_version repr \<noteq> PERMIT_ARTIFACT_VERSION
          then Err (bad_permit (''unsupported version '' @ show_nat (rp_version repr)))
          else (case hex_dec (strip_prefix_0x (rp_genesis_hash repr)) of
                  Err _ \<Rightarrow> Err (bad_permit ''genesis_hash must be 32 bytes of hex'')
                | Ok genesis \<Rightarrow>
                    if length genesis \<noteq> 32 then Err (bad_permit ''genesis_hash must be 32 bytes of hex'')
                    else (case hex_dec (strip_prefix_0x (rp_signature repr)) of
                            Err _ \<Rightarrow> Err (bad_permit ''signature is not hex'')
                          | Ok raw \<Rightarrow>
                              (case ss58 (rp_identity repr) of
                                 Err _ \<Rightarrow> Err (bad_permit ''identity is not an SS58 address'')
                               | Ok account \<Rightarrow>
                                   (case signature_from_bytes (rp_scheme repr) raw of
                                      Err e \<Rightarrow> Err e
                                    | Ok sig \<Rightarrow>
                                        Ok \<lparr>pa_payload = \<lparr>ip_genesis_hash = genesis, ip_scope = rp_scope repr,
                                                          ip_valid_until = rp_valid_until repr\<rparr>,
                                            pa_identity = account, pa_signature = sig\<rparr>)))))"

section \<open>Documented behaviour of the libraries\<close>

text \<open>Authenticated encryption opens what it sealed.\<close>

definition aead_ok :: "cipher_ops \<Rightarrow> bool" where
  "aead_ok ops \<longleftrightarrow> (\<forall>alg key nonce pt ct. co_seal ops alg key nonce pt = Ok ct \<longrightarrow> co_unseal ops alg key nonce ct = Ok pt)"

text \<open>Public keys are points, and scalar multiplication commutes.\<close>

definition scheme_scalar :: "Scheme \<Rightarrow> (bytes \<Rightarrow> bytes) \<Rightarrow> bytes \<Rightarrow> bytes" where
  "scheme_scalar scheme sha512 secret = (case scheme of Sr25519 \<Rightarrow> secret | Ed25519 \<Rightarrow> clamp (take 32 (sha512 secret)))"

definition curve_ok :: "'g curve \<Rightarrow> (bytes \<Rightarrow> bytes) \<Rightarrow> (bytes \<Rightarrow> bytes) \<Rightarrow> bool" where
  "curve_ok cv scalar public \<longleftrightarrow>
     (\<forall>a b. \<exists>A B. cv_decompress cv (public a) = Some A \<and> cv_decompress cv (public b) = Some B \<and>
        cv_compress cv (cv_mul cv (scalar a) B) = cv_compress cv (cv_mul cv (scalar b) A))"

text \<open>Signatures verify under the signer's key and have the length of their scheme.\<close>

definition sig_ok :: "('sr, 'ed, 'ec) sig_ops \<Rightarrow> bool" where
  "sig_ok ops \<longleftrightarrow>
     (\<forall>k m. so_sr_verify ops (so_sr_sign ops k m) m (so_sr_public ops k) \<and> length (so_sr_sign ops k m) = 64) \<and>
     (\<forall>k m. so_ed_verify ops (so_ed_sign ops k m) m (so_ed_public ops k) \<and> length (so_ed_sign ops k m) = 64) \<and>
     (\<forall>k m. so_ec_recover ops (so_ec_sign ops k m) m = Some (so_ec_public ops k) \<and> length (so_ec_sign ops k m) = 65)"

definition json_ok :: "(Repr \<Rightarrow> string) \<Rightarrow> (string \<Rightarrow> string + Repr) \<Rightarrow> bool" where
  "json_ok render parse \<longleftrightarrow> (\<forall>r. parse (render r) = Ok r)"

definition ss58_ok :: "(AccountId \<Rightarrow> string) \<Rightarrow> (string \<Rightarrow> string + AccountId) \<Rightarrow> bool" where
  "ss58_ok show_account ss58 \<longleftrightarrow> (\<forall>a. ss58 (show_account a) = Ok a)"

text \<open>The codec of byte vectors reads what it wrote, whatever follows.\<close>

definition vec_ok :: "(bytes \<Rightarrow> bytes) \<Rightarrow> (bytes \<Rightarrow> string + bytes \<times> bytes) \<Rightarrow> bool" where
  "vec_ok vec_enc vec_dec \<longleftrightarrow> (\<forall>v r. vec_dec (vec_enc v @ r) = Ok (v, r))"

section \<open>Lemmas\<close>

fun message_from :: "EncryptedMessage \<Rightarrow> bytes" where
  "message_from (EncV1 _ from _ _) = from"

lemma scale_decode_rest_encode:
  assumes "vec_ok vec_enc vec_dec" and "length (message_from m) = 32"
  shows "scale_decode_rest vec_dec (scale_encode vec_enc m @ r) = Some (m, r)"
proof (cases m)
  case (EncV1 a f n c)
  have "vec_dec (vec_enc c @ r) = Ok (c, r)" "vec_dec (vec_enc n @ vec_enc c @ r) = Ok (n, vec_enc c @ r)"
    using assms(1) by (simp_all add: vec_ok_def)
  then show ?thesis using assms(2) EncV1 by (cases a) (simp_all add: scale_decode_rest_def decode_algorithm_def)
qed

lemma scale_decode_encode:
  assumes "vec_ok vec_enc vec_dec" and "length (message_from m) = 32"
  shows "scale_decode vec_dec (scale_encode vec_enc m @ r) = Some m"
  using scale_decode_rest_encode [OF assms] by (simp add: scale_decode_def)

lemma map_err_Ok_iff: "map_err f r = Ok x \<longleftrightarrow> r = Ok x"
  by (cases r) (auto simp: map_err_def)

text \<open>Both parties derive the same secret.\<close>

lemma signer_agree:
  assumes "curve_ok cv (scheme_scalar scheme sha512) public"
  shows "\<exists>k. ss_derive (signer scheme sha512 cv public a) (public b) = Ok k \<and>
    ss_derive (signer scheme sha512 cv public b) (public a) = Ok k"
proof -
  obtain A B where "cv_decompress cv (public a) = Some A" "cv_decompress cv (public b) = Some B"
    "cv_compress cv (cv_mul cv (scheme_scalar scheme sha512 a) B) =
     cv_compress cv (cv_mul cv (scheme_scalar scheme sha512 b) A)"
    using assms unfolding curve_ok_def by blast
  then show ?thesis
    by (cases scheme) (simp_all add: signer_def sr_derive_shared_def ed_derive_shared_def scheme_scalar_def)
qed

lemma algorithm_names_parse: "algorithm_from_str (info_string a) = Ok a"
  by (cases a) (simp_all add: algorithm_from_str_def ascii_lower_def)

lemma scheme_names_parse: "scheme_from_str (show_scheme s) = Ok s"
  by (cases s) (simp_all add: scheme_from_str_def ascii_lower_def)

lemma key_from_suri_scheme: "key_from_suri sr ed ec scheme suri = Ok k \<Longrightarrow> key_scheme k = scheme"
  by (cases scheme) (auto simp: key_from_suri_def map_ok_def split: sum.splits)

text \<open>A generated key is recreated by its phrase when the library recreates its pairs.\<close>

lemma key_generate_recreates:
  assumes "sr (snd g1) = Ok (fst g1)" and "ed (snd g2) = Ok (fst g2)" and "ec (snd g3) = Ok (fst g3)"
    and "key_generate g1 g2 g3 scheme = (k, phrase)"
  shows "key_from_suri sr ed ec scheme phrase = Ok k"
  using assms by (cases scheme) (auto simp: key_generate_def key_from_suri_def map_err_def map_ok_def)

lemma signing_bytes_inj:
  assumes "signing_bytes compact p = signing_bytes compact q"
    and "length (ip_genesis_hash p) = 32" and "length (ip_genesis_hash q) = 32"
  shows "p = q"
proof -
  have "ip_genesis_hash p = ip_genesis_hash q" "u64_to_le_bytes (ip_scope p) = u64_to_le_bytes (ip_scope q)"
    "u32_to_le_bytes (ip_valid_until p) = u32_to_le_bytes (ip_valid_until q)"
    using assms by (simp_all add: signing_bytes_def)
  then have "ip_scope p = ip_scope q" "ip_valid_until p = ip_valid_until q"
    by (metis u64_le_bytes_roundtrip, metis u32_le_bytes_roundtrip)
  with \<open>ip_genesis_hash p = ip_genesis_hash q\<close> show ?thesis by simp
qed

lemma signature_roundtrip:
  "sig_ok ops \<Longrightarrow> signature_from_bytes (signature_scheme (key_sign ops key m)) (signature_to_bytes (key_sign ops key m)) =
     Ok (key_sign ops key m)"
  by (cases key) (simp_all add: sig_ok_def signature_from_bytes_def)

lemma sign_permit_verifies: "sig_ok ops \<Longrightarrow> verify_permit compact ops (sign_permit compact ops key p)"
  by (cases key) (simp_all add: sig_ok_def verify_permit_def sign_permit_def)

lemma cipher_inverse:
  assumes "aead_ok ops" and "curve_ok cv (scheme_scalar scheme sha512) public"
    and "length nonce = nonce_size algorithm"
    and "encrypt ops nonce (signer scheme sha512 cv public a) plaintext (public b) algorithm = Ok message"
  shows "decrypt ops (signer scheme sha512 cv public b) message None = Ok plaintext \<and>
    decrypt ops (signer scheme sha512 cv public b) message (Some (public a)) = Ok plaintext \<and>
    (\<forall>other. other \<noteq> public a \<longrightarrow> isl (decrypt ops (signer scheme sha512 cv public b) message (Some other)))"
proof -
  obtain k where k: "ss_derive (signer scheme sha512 cv public a) (public b) = Ok k"
    "ss_derive (signer scheme sha512 cv public b) (public a) = Ok k"
    using signer_agree [OF assms(2)] by blast
  obtain key ct where key: "derive_key ops algorithm k = Ok key" "co_seal ops algorithm key nonce plaintext = Ok ct"
    "message = EncV1 algorithm (public a) nonce ct"
    using assms(4) k(1) by (auto simp: encrypt_def map_err_Ok_iff split: sum.splits) (simp add: signer_def)
  have "co_unseal ops algorithm key nonce ct = Ok plaintext" using assms(1) key(2) unfolding aead_ok_def by blast
  then show ?thesis using k(2) key(1,3) assms(3) by (simp add: map_err_def)
qed

section \<open>Properties\<close>

text \<open>
  Encryption and decryption are inverse: what one signer encrypts for another, the other decrypts to
  the same bytes, under either scheme and every algorithm, with or without naming the sender; naming
  any other sender is refused.
\<close>

lemma cipher_roundtrip:
  assumes "aead_ok ops" and "curve_ok cv (scheme_scalar scheme sha512) public"
    and "length nonce = nonce_size algorithm"
    and "encrypt ops nonce (signer scheme sha512 cv public a) plaintext (public b) algorithm = Ok message"
  shows "decrypt ops (signer scheme sha512 cv public b) message None = Ok plaintext \<and>
    decrypt ops (signer scheme sha512 cv public b) message (Some (public a)) = Ok plaintext \<and>
    (\<forall>other. other \<noteq> public a \<longrightarrow> isl (decrypt ops (signer scheme sha512 cv public b) message (Some other)))"
  using cipher_inverse [OF assms] .

text \<open>
  Identity permits: a signed permit verifies, its JSON form reads back as the same permit, and the
  signed bytes determine the chain, the scope and the expiry, so a signature for one is none for another.
\<close>

lemma permit_roundtrip:
  assumes "sig_ok ops" and "hex_ok hex_enc hex_dec" and "json_ok render parse" and "ss58_ok show_account ss58"
    and "length (ip_genesis_hash p) = 32"
  shows "verify_permit compact ops (sign_permit compact ops key p) \<and>
    from_json parse hex_dec ss58 (to_json render hex_enc show_account (sign_permit compact ops key p)) =
      Ok (sign_permit compact ops key p) \<and>
    (\<forall>q. length (ip_genesis_hash q) = 32 \<and> signing_bytes compact q = signing_bytes compact p \<longrightarrow> q = p)"
proof (intro conjI allI impI)
  show "verify_permit compact ops (sign_permit compact ops key p)" by (rule sign_permit_verifies [OF assms(1)])
  show "from_json parse hex_dec ss58 (to_json render hex_enc show_account (sign_permit compact ops key p)) =
      Ok (sign_permit compact ops key p)"
    using assms signature_roundtrip [OF assms(1)]
    by (simp add: from_json_def to_json_def json_ok_def hex_ok_def ss58_ok_def strip_prefix_0x_def sign_permit_def)
  show "q = p" if "length (ip_genesis_hash q) = 32 \<and> signing_bytes compact q = signing_bytes compact p" for q
    using signing_bytes_inj that assms(5) by blast
qed

end
