(* ===== verification/LibcpsClient.thy ===== *)
theory LibcpsClient
  imports LibcpsCrypto Config
begin

text \<open>
  The chain client of libcps: \<open>crates/libcps/src/types.rs\<close>, \<open>transaction.rs\<close>, \<open>read.rs\<close>, \<open>cps.rs\<close>,
  \<open>node/mod.rs\<close>, \<open>node/watch.rs\<close> and \<open>scope.rs\<close>.

  The chain is a parameter. A block state (\<open>CpsAt\<close>) answers every storage read and view call, with the
  message of subxt's error when it fails; a connection (\<open>Cps\<close>) gives the finalized block, sends calls and
  reports their progress. Submitting returns the calls that were sent beside the result.
\<close>

section \<open>Types\<close>

type_synonym ScopeId = u64
type_synonym Hash = bytes

definition MAX_META_SIZE :: nat where
  "MAX_META_SIZE = 1024"

datatype Capability = CapCreateScope | CapWrite

datatype GrantMode = GrantOnNode | GrantSubtree

record Grant =
  gr_capability :: Capability
  gr_mode :: GrantMode

record NodeInfo =
  ni_parent :: "NodeId option"
  ni_scope :: "ScopeId option"

record ScopeInfo =
  si_owner :: AccountId
  si_access_count :: u32

record ResolvedScope =
  rs_id :: ScopeId
  rs_root :: NodeId
  rs_owner :: AccountId
  rs_path :: "NodeId list"

record CreateNode =
  cn_meta :: "bytes option"
  cn_payload :: "bytes option"
  cn_identity :: "IdentityAssignment option"

record NodeSnapshot =
  ns_id :: NodeId
  ns_parent :: "NodeId option"
  ns_scope :: "ScopeId option"
  ns_identity :: "AccountId option"
  ns_meta :: "bytes option"
  ns_payload :: "bytes option"

section \<open>Transactions\<close>

datatype Call =
    CallCreateNode "NodeId option" "bytes option" "bytes option" "IdentityAssignment option"
  | CallSetMeta NodeId "bytes option"
  | CallSetPayload NodeId "bytes option"
  | CallDeleteNode NodeId
  | CallCreateScope NodeId
  | CallGrantAccess NodeId AccountId Grant
  | CallRevokeAccess NodeId AccountId Capability
  | CallSetIdentity NodeId IdentityAssignment
  | CallClearIdentity NodeId

datatype Precondition = NotScopeRoot NodeId

text \<open>The events of an extrinsic: the first \<open>NodeCreated\<close> and \<open>ScopeCreated\<close>, if any, as decoded.\<close>

record ExtrinsicEvents =
  ee_node_created :: "(string + NodeId) option"
  ee_scope_created :: "(string + ScopeId) option"

datatype TxResult = ResUnit | ResNode NodeId | ResScope ScopeId

definition no_result :: "ExtrinsicEvents \<Rightarrow> CpsError + TxResult" where
  "no_result events = Ok ResUnit"

definition created_node :: "ExtrinsicEvents \<Rightarrow> CpsError + TxResult" where
  "created_node events =
     (case ee_node_created events of
        None \<Rightarrow> Err (CpsRuntime ''NodeCreated event not found'')
      | Some (Ok n) \<Rightarrow> Ok (ResNode n)
      | Some (Err e) \<Rightarrow> Err (CpsRuntime e))"

definition created_scope :: "ExtrinsicEvents \<Rightarrow> CpsError + TxResult" where
  "created_scope events =
     (case ee_scope_created events of
        None \<Rightarrow> Err (CpsRuntime ''ScopeCreated event not found'')
      | Some (Ok s) \<Rightarrow> Ok (ResScope s)
      | Some (Err e) \<Rightarrow> Err (CpsRuntime e))"

record Transaction =
  tx_call :: Call
  tx_precondition :: "Precondition option"
  tx_decode :: "ExtrinsicEvents \<Rightarrow> CpsError + TxResult"

definition new_transaction :: "Call \<Rightarrow> (ExtrinsicEvents \<Rightarrow> CpsError + TxResult) \<Rightarrow> Transaction" where
  "new_transaction call decode = \<lparr>tx_call = call, tx_precondition = None, tx_decode = decode\<rparr>"

definition check_meta :: "bytes option \<Rightarrow> CpsError + unit" where
  "check_meta meta =
     (case meta of
        None \<Rightarrow> Ok ()
      | Some m \<Rightarrow> if length m > MAX_META_SIZE then Err (CpsMetaTooLarge (length m) MAX_META_SIZE) else Ok ())"

definition check_payload :: "bytes option \<Rightarrow> CpsError + unit" where
  "check_payload payload =
     (case payload of
        None \<Rightarrow> Ok ()
      | Some p \<Rightarrow> if length p > MAX_PAYLOAD_SIZE then Err (CpsPayloadTooLarge (length p) MAX_PAYLOAD_SIZE) else Ok ())"

definition create_node ::
  "NodeId option \<Rightarrow> bytes option \<Rightarrow> bytes option \<Rightarrow> IdentityAssignment option \<Rightarrow> CpsError + Transaction" where
  "create_node parent meta payload identity =
     (case check_meta meta of
        Err e \<Rightarrow> Err e
      | Ok _ \<Rightarrow>
          (case check_payload payload of
             Err e \<Rightarrow> Err e
           | Ok _ \<Rightarrow> Ok (new_transaction (CallCreateNode parent meta payload identity) created_node)))"

definition set_meta :: "NodeId \<Rightarrow> bytes option \<Rightarrow> CpsError + Transaction" where
  "set_meta i meta =
     (case check_meta meta of Err e \<Rightarrow> Err e | Ok _ \<Rightarrow> Ok (new_transaction (CallSetMeta i meta) no_result))"

definition set_payload :: "NodeId \<Rightarrow> bytes option \<Rightarrow> CpsError + Transaction" where
  "set_payload i payload =
     (case check_payload payload of Err e \<Rightarrow> Err e | Ok _ \<Rightarrow> Ok (new_transaction (CallSetPayload i payload) no_result))"

definition delete_node :: "NodeId \<Rightarrow> Transaction" where
  "delete_node i = new_transaction (CallDeleteNode i) no_result"

definition create_scope :: "NodeId \<Rightarrow> Transaction" where
  "create_scope i = (new_transaction (CallCreateScope i) created_scope)\<lparr>tx_precondition := Some (NotScopeRoot i)\<rparr>"

definition grant_access :: "NodeId \<Rightarrow> AccountId \<Rightarrow> Grant \<Rightarrow> Transaction" where
  "grant_access i account access = new_transaction (CallGrantAccess i account access) no_result"

definition revoke_access :: "NodeId \<Rightarrow> AccountId \<Rightarrow> Capability \<Rightarrow> Transaction" where
  "revoke_access i account capability = new_transaction (CallRevokeAccess i account capability) no_result"

definition set_identity :: "NodeId \<Rightarrow> IdentityAssignment \<Rightarrow> Transaction" where
  "set_identity i assignment = new_transaction (CallSetIdentity i assignment) no_result"

definition clear_identity :: "NodeId \<Rightarrow> Transaction" where
  "clear_identity i = new_transaction (CallClearIdentity i) no_result"

definition create_child :: "NodeId \<Rightarrow> CreateNode \<Rightarrow> CpsError + Transaction" where
  "create_child i params = create_node (Some i) (cn_meta params) (cn_payload params) (cn_identity params)"

definition create_root :: "CreateNode \<Rightarrow> CpsError + Transaction" where
  "create_root params = create_node None (cn_meta params) (cn_payload params) (cn_identity params)"

text \<open>\<open>clear_meta\<close> and \<open>clear_payload\<close> unwrap the result: \<open>None\<close> is a panic.\<close>

definition clear_meta :: "NodeId \<Rightarrow> Transaction option" where
  "clear_meta i = (case set_meta i None of Err _ \<Rightarrow> None | Ok tx \<Rightarrow> Some tx)"

definition clear_payload :: "NodeId \<Rightarrow> Transaction option" where
  "clear_payload i = (case set_payload i None of Err _ \<Rightarrow> None | Ok tx \<Rightarrow> Some tx)"

section \<open>Reads at a block\<close>

datatype NodeViewError = PalletNodeNotFound | PalletOther string

datatype AddressViewError = ViewIdentityNotFound | ViewMissingProjectedIdentity

text \<open>What the block answers: a failed read or view call is the message of its error, and a view call
  may answer with an error of its own.\<close>

record CpsAt =
  at_block_number :: nat
  at_permit_ttl :: "string + u32"
  at_info :: "NodeId \<Rightarrow> string + NodeInfo option"
  at_meta :: "NodeId \<Rightarrow> string + bytes option"
  at_payload :: "NodeId \<Rightarrow> string + bytes option"
  at_children :: "NodeId \<Rightarrow> string + NodeId list option"
  at_scopes :: "ScopeId \<Rightarrow> string + ScopeInfo option"
  at_identity_of :: "NodeId \<Rightarrow> string + AccountId option"
  at_resolve_scope :: "NodeId \<Rightarrow> string + (NodeViewError + ResolvedScope)"
  at_has_capability :: "NodeId \<Rightarrow> AccountId \<Rightarrow> Capability \<Rightarrow> string + (NodeViewError + bool)"
  at_node_by_identity :: "AccountId \<Rightarrow> string + NodeId option"
  at_address_parent :: "AccountId \<Rightarrow> string + (AddressViewError + AccountId option)"
  at_address_children :: "AccountId \<Rightarrow> string + (AddressViewError + AccountId list)"
  at_address_meta :: "AccountId \<Rightarrow> string + (AddressViewError + bytes option)"
  at_address_payload :: "AccountId \<Rightarrow> string + (AddressViewError + bytes option)"
  at_address_scope :: "AccountId \<Rightarrow> string + (AddressViewError + ScopeId)"
  at_address_capability :: "AccountId \<Rightarrow> AccountId \<Rightarrow> Capability \<Rightarrow> string + (AddressViewError + bool)"

definition node_view :: "NodeId \<Rightarrow> NodeViewError + 'x \<Rightarrow> CpsError + 'x" where
  "node_view node result =
     map_err (\<lambda>e. case e of
                PalletNodeNotFound \<Rightarrow> CpsNodeNotFound node
              | PalletOther other \<Rightarrow> CpsRuntime (''CPS view function failed: '' @ other)) result"

definition address_view :: "(AccountId \<Rightarrow> string) \<Rightarrow> AccountId \<Rightarrow> AddressViewError + 'x \<Rightarrow> CpsError + 'x" where
  "address_view show_account account result =
     map_err (\<lambda>e. case e of
                ViewIdentityNotFound \<Rightarrow> CpsIdentityNotFound (show_account account)
              | ViewMissingProjectedIdentity \<Rightarrow> CpsMissingProjectedIdentity) result"

definition read_info :: "CpsAt \<Rightarrow> NodeId \<Rightarrow> CpsError + NodeInfo option" where
  "read_info at node = map_err CpsRuntime (at_info at node)"

definition read_meta :: "CpsAt \<Rightarrow> NodeId \<Rightarrow> CpsError + bytes option" where
  "read_meta at node = map_err CpsRuntime (at_meta at node)"

definition read_payload :: "CpsAt \<Rightarrow> NodeId \<Rightarrow> CpsError + bytes option" where
  "read_payload at node = map_err CpsRuntime (at_payload at node)"

definition read_children :: "CpsAt \<Rightarrow> NodeId \<Rightarrow> CpsError + NodeId list" where
  "read_children at node =
     (case map_err CpsRuntime (at_children at node) of
        Err e \<Rightarrow> Err e
      | Ok None \<Rightarrow> Ok []
      | Ok (Some ids) \<Rightarrow> Ok ids)"

definition resolve_scope :: "CpsAt \<Rightarrow> NodeId \<Rightarrow> CpsError + ResolvedScope" where
  "resolve_scope at node =
     (case map_err CpsRuntime (at_resolve_scope at node) of Err e \<Rightarrow> Err e | Ok r \<Rightarrow> node_view node r)"

definition has_capability :: "CpsAt \<Rightarrow> NodeId \<Rightarrow> AccountId \<Rightarrow> Capability \<Rightarrow> CpsError + bool" where
  "has_capability at node account capability =
     (case map_err CpsRuntime (at_has_capability at node account capability) of
        Err e \<Rightarrow> Err e
      | Ok r \<Rightarrow> node_view node r)"

definition identity_of :: "CpsAt \<Rightarrow> NodeId \<Rightarrow> CpsError + AccountId option" where
  "identity_of at node = map_err CpsRuntime (at_identity_of at node)"

definition node_by_identity :: "CpsAt \<Rightarrow> AccountId \<Rightarrow> CpsError + NodeId option" where
  "node_by_identity at account = map_err CpsRuntime (at_node_by_identity at account)"

definition address_parent ::
  "(AccountId \<Rightarrow> string) \<Rightarrow> CpsAt \<Rightarrow> AccountId \<Rightarrow> CpsError + AccountId option" where
  "address_parent show_account at account =
     (case map_err CpsRuntime (at_address_parent at account) of
        Err e \<Rightarrow> Err e
      | Ok r \<Rightarrow> address_view show_account account r)"

definition address_children ::
  "(AccountId \<Rightarrow> string) \<Rightarrow> CpsAt \<Rightarrow> AccountId \<Rightarrow> CpsError + AccountId list" where
  "address_children show_account at account =
     (case map_err CpsRuntime (at_address_children at account) of
        Err e \<Rightarrow> Err e
      | Ok r \<Rightarrow> address_view show_account account r)"

definition address_meta ::
  "(AccountId \<Rightarrow> string) \<Rightarrow> CpsAt \<Rightarrow> AccountId \<Rightarrow> CpsError + bytes option" where
  "address_meta show_account at account =
     (case map_err CpsRuntime (at_address_meta at account) of
        Err e \<Rightarrow> Err e
      | Ok r \<Rightarrow> address_view show_account account r)"

definition address_payload ::
  "(AccountId \<Rightarrow> string) \<Rightarrow> CpsAt \<Rightarrow> AccountId \<Rightarrow> CpsError + bytes option" where
  "address_payload show_account at account =
     (case map_err CpsRuntime (at_address_payload at account) of
        Err e \<Rightarrow> Err e
      | Ok r \<Rightarrow> address_view show_account account r)"

definition address_scope ::
  "(AccountId \<Rightarrow> string) \<Rightarrow> CpsAt \<Rightarrow> AccountId \<Rightarrow> CpsError + ScopeId" where
  "address_scope show_account at account =
     (case map_err CpsRuntime (at_address_scope at account) of
        Err e \<Rightarrow> Err e
      | Ok r \<Rightarrow> address_view show_account account r)"

definition address_capability ::
  "(AccountId \<Rightarrow> string) \<Rightarrow> CpsAt \<Rightarrow> AccountId \<Rightarrow> AccountId \<Rightarrow> Capability \<Rightarrow> CpsError + bool" where
  "address_capability show_account at caller target capability =
     (case map_err CpsRuntime (at_address_capability at caller target capability) of
        Err e \<Rightarrow> Err e
      | Ok r \<Rightarrow> address_view show_account target r)"

text \<open>The wire format of a view call: \<open>check_metadata\<close>, \<open>encode_args\<close>, \<open>call_raw\<close> and \<open>decode\<close> are subxt's, \<open>vec_enc\<close> and
  \<open>vec_dec\<close> the SCALE codec of byte vectors. None is the panic of \<open>split_at\<close> on an encoding shorter than
  the identifier of the function.\<close>

definition view_call ::
  "('p \<Rightarrow> string + unit) \<Rightarrow> ('p \<Rightarrow> string + bytes) \<Rightarrow> (bytes \<Rightarrow> string + bytes) \<Rightarrow> ('p \<Rightarrow> bytes \<Rightarrow> string + 'r)
    \<Rightarrow> (bytes \<Rightarrow> bytes) \<Rightarrow> (bytes \<Rightarrow> string + bytes \<times> bytes) \<Rightarrow> ('p \<Rightarrow> string) \<Rightarrow> 'p \<Rightarrow> (string + 'r) option" where
  "view_call check_metadata encode_args call_raw decode vec_enc vec_dec name payload =
     (case check_metadata payload of
        Err e \<Rightarrow> Some (Err e)
      | Ok _ \<Rightarrow>
          (case encode_args payload of
             Err e \<Rightarrow> Some (Err e)
           | Ok encoded \<Rightarrow>
               if length encoded < 32 then None
               else (case call_raw (take 32 encoded @ vec_enc (drop 32 encoded)) of
                       Err e \<Rightarrow> Some (Err e)
                     | Ok [] \<Rightarrow> Some (Err ''Not enough data to fill buffer'')
                     | Ok (tag # reply) \<Rightarrow>
                         if tag \<noteq> 0
                         then Some (Err (''runtime rejected view function '' @ name payload @
                                ''(the runtime and the client metadata disagree about it)''))
                         else (case vec_dec reply of
                                 Err e \<Rightarrow> Some (Err e)
                               | Ok (output, _) \<Rightarrow> Some (decode payload output)))))"

text \<open>The call reaches the function with its whole arguments and reads back what it answered.\<close>

lemma view_call_transports:
  assumes "check_metadata payload = Ok ()" and "encode_args payload = Ok (query @ args)" and "length query = 32"
    and "call_raw (query @ vec_enc args) = Ok (0 # vec_enc reply)" and "vec_dec (vec_enc reply) = Ok (reply, [])"
  shows "view_call check_metadata encode_args call_raw decode vec_enc vec_dec name payload = Some (decode payload reply)"
  using assms by (simp add: view_call_def)

definition scope_info :: "CpsAt \<Rightarrow> ScopeId \<Rightarrow> CpsError + ScopeInfo option" where
  "scope_info at scope = map_err CpsRuntime (at_scopes at scope)"

definition node_parent :: "CpsAt \<Rightarrow> NodeId \<Rightarrow> CpsError + NodeId option" where
  "node_parent at node =
     (case read_info at node of
        Err e \<Rightarrow> Err e
      | Ok info \<Rightarrow> Ok (Option.bind info ni_parent))"

definition node_snapshot :: "CpsAt \<Rightarrow> NodeId \<Rightarrow> CpsError + NodeSnapshot option" where
  "node_snapshot at node =
     (case read_info at node of
        Err e \<Rightarrow> Err e
      | Ok None \<Rightarrow> Ok None
      | Ok (Some info) \<Rightarrow>
          (case identity_of at node of
             Err e \<Rightarrow> Err e
           | Ok identity \<Rightarrow>
               (case read_meta at node of
                  Err e \<Rightarrow> Err e
                | Ok meta \<Rightarrow>
                    (case read_payload at node of
                       Err e \<Rightarrow> Err e
                     | Ok payload \<Rightarrow>
                         Ok (Some \<lparr>ns_id = node, ns_parent = ni_parent info, ns_scope = ni_scope info,
                                   ns_identity = identity, ns_meta = meta, ns_payload = payload\<rparr>)))))"

section \<open>The connection\<close>

record in_block =
  ib_block_hash :: Hash
  ib_extrinsic_hash :: Hash

datatype TransactionStatus =
    InBestBlock in_block
  | InFinalizedBlock in_block
  | StatusError string
  | StatusInvalid string
  | StatusDropped string
  | StatusOther

text \<open>\<open>cx_success\<close> is \<open>wait_for_success\<close>: the events, or the message of the error and whether the runtime
  rejected the call. \<open>cx_statuses\<close> is the stream of a sent call's statuses; \<open>cx_show_status\<close> and
  \<open>cx_stream_end\<close> are the messages of subxt's errors for a failed status and for the end of the stream.\<close>

record Cps =
  cx_finalized :: "string + CpsAt"
  cx_genesis_hash :: Hash
  cx_send :: "Call \<Rightarrow> string + Hash"
  cx_wait_finalized :: "Hash \<Rightarrow> string + in_block"
  cx_statuses :: "Hash \<Rightarrow> (string + TransactionStatus) list"
  cx_show_status :: "TransactionStatus \<Rightarrow> string"
  cx_stream_end :: string
  cx_success :: "in_block \<Rightarrow> (bool \<times> string) + ExtrinsicEvents"

record TxReceipt =
  tr_extrinsic_hash :: Hash
  tr_block_hash :: Hash
  tr_result :: TxResult

definition cps_finalized :: "Cps \<Rightarrow> CpsError + CpsAt" where
  "cps_finalized cx = map_err CpsRuntime (cx_finalized cx)"

text \<open>The handles \<open>Node\<close>, \<open>Address\<close> and \<open>Scope\<close> read at the finalized block.\<close>

definition node_read :: "Cps \<Rightarrow> (CpsAt \<Rightarrow> NodeId \<Rightarrow> CpsError + 'x) \<Rightarrow> NodeId \<Rightarrow> CpsError + 'x" where
  "node_read cx read i = (case cps_finalized cx of Err e \<Rightarrow> Err e | Ok at \<Rightarrow> read at i)"

definition address_read :: "Cps \<Rightarrow> (CpsAt \<Rightarrow> AccountId \<Rightarrow> CpsError + 'x) \<Rightarrow> AccountId \<Rightarrow> CpsError + 'x" where
  "address_read cx read account = (case cps_finalized cx of Err e \<Rightarrow> Err e | Ok at \<Rightarrow> read at account)"

definition scope_read :: "Cps \<Rightarrow> ScopeId \<Rightarrow> CpsError + ScopeInfo option" where
  "scope_read cx i = (case cps_finalized cx of Err e \<Rightarrow> Err e | Ok at \<Rightarrow> scope_info at i)"

definition check_precondition :: "Cps \<Rightarrow> Transaction \<Rightarrow> CpsError + unit" where
  "check_precondition cx tx =
     (case tx_precondition tx of
        None \<Rightarrow> Ok ()
      | Some (NotScopeRoot i) \<Rightarrow>
          (case cps_finalized cx of
             Err e \<Rightarrow> Err e
           | Ok at \<Rightarrow>
               (case read_info at i of
                  Err e \<Rightarrow> Err e
                | Ok None \<Rightarrow> Err (CpsNodeNotFound i)
                | Ok (Some info) \<Rightarrow>
                    (case ni_scope info of Some _ \<Rightarrow> Err (CpsScopeAlreadyExists i) | None \<Rightarrow> Ok ()))))"

text \<open>A call counts as sent once it is handed to the chain, even if the answer is an error.\<close>

definition submit :: "Cps \<Rightarrow> Transaction \<Rightarrow> (CpsError + Hash) \<times> Call list" where
  "submit cx tx =
     (case check_precondition cx tx of
        Err e \<Rightarrow> (Err e, [])
      | Ok _ \<Rightarrow> (map_err cps_transaction (cx_send cx (tx_call tx)), [tx_call tx]))"

definition receipt :: "Cps \<Rightarrow> Transaction \<Rightarrow> in_block \<Rightarrow> CpsError + TxReceipt" where
  "receipt cx tx ib =
     (case map_err (\<lambda>(dispatched, msg). cps_outcome dispatched msg) (cx_success cx ib) of
        Err e \<Rightarrow> Err e
      | Ok events \<Rightarrow>
          (case tx_decode tx events of
             Err e \<Rightarrow> Err e
           | Ok result \<Rightarrow>
               Ok \<lparr>tr_extrinsic_hash = ib_extrinsic_hash ib, tr_block_hash = ib_block_hash ib, tr_result = result\<rparr>))"

definition wait_finalized :: "Cps \<Rightarrow> Transaction \<Rightarrow> Hash \<Rightarrow> CpsError + TxReceipt" where
  "wait_finalized cx tx progress =
     (case map_err cps_transaction (cx_wait_finalized cx progress) of
        Err e \<Rightarrow> Err e
      | Ok ib \<Rightarrow> receipt cx tx ib)"

fun wait_block :: "Cps \<Rightarrow> (string + TransactionStatus) list \<Rightarrow> CpsError + in_block" where
  "wait_block cx [] = Err (cps_transaction (cx_stream_end cx))"
| "wait_block cx (Err e # ss) = Err (cps_transaction e)"
| "wait_block cx (Ok s # ss) =
     (case s of
        InBestBlock b \<Rightarrow> Ok b
      | InFinalizedBlock b \<Rightarrow> Ok b
      | StatusOther \<Rightarrow> wait_block cx ss
      | _ \<Rightarrow> Err (cps_transaction (cx_show_status cx s)))"

definition wait_in_block :: "Cps \<Rightarrow> Transaction \<Rightarrow> Hash \<Rightarrow> CpsError + TxReceipt" where
  "wait_in_block cx tx progress =
     (case wait_block cx (cx_statuses cx progress) of Err e \<Rightarrow> Err e | Ok ib \<Rightarrow> receipt cx tx ib)"

definition submit_finalized :: "Cps \<Rightarrow> Transaction \<Rightarrow> (CpsError + TxReceipt) \<times> Call list" where
  "submit_finalized cx tx =
     (case submit cx tx of
        (Err e, sent) \<Rightarrow> (Err e, sent)
      | (Ok progress, sent) \<Rightarrow> (wait_finalized cx tx progress, sent))"

text \<open>\<open>u32::try_from(..).unwrap_or(u32::MAX)\<close>.\<close>

definition block_number_u32 :: "CpsAt \<Rightarrow> u32" where
  "block_number_u32 at = (if at_block_number at < 2 ^ 32 then word_of_nat (at_block_number at) else - 1)"

definition identity_permit_payload :: "Cps \<Rightarrow> ScopeId \<Rightarrow> u32 \<Rightarrow> CpsError + IdentityPermitPayload" where
  "identity_permit_payload cx scope valid_until =
     (case cps_finalized cx of
        Err e \<Rightarrow> Err e
      | Ok at \<Rightarrow>
          let now = block_number_u32 at in
          (case map_err CpsRuntime (at_permit_ttl at) of
             Err e \<Rightarrow> Err e
           | Ok ttl \<Rightarrow>
               if valid_until < now
               then Err (CpsCrypto (''permit validity '' @ show_nat (unat valid_until) @
                      '' is before the current block '' @ show_nat (unat now)))
               else if (ucast valid_until :: u64) > ucast now + ucast ttl
               then Err (CpsCrypto (''permit validity '' @ show_nat (unat valid_until) @
                      '' exceeds the runtime limit: at most '' @ show_nat (unat ttl) @ '' blocks after block '' @
                      show_nat (unat now)))
               else Ok \<lparr>ip_genesis_hash = cx_genesis_hash cx, ip_scope = scope, ip_valid_until = valid_until\<rparr>))"

section \<open>Watching a node\<close>

datatype Field = FieldMeta | FieldPayload

record Change =
  wc_block_hash :: Hash
  wc_block_number :: nat
  wc_value :: "bytes option"

text \<open>A block of the stream: its state, the nodes its decodable \<open>MetaSet\<close> and \<open>PayloadSet\<close> events name.\<close>

record block =
  bl_hash :: Hash
  bl_number :: nat
  bl_at :: "string + CpsAt"
  bl_events :: "string + (NodeId list \<times> NodeId list)"

definition change_in :: "NodeId \<Rightarrow> Field \<Rightarrow> block \<Rightarrow> CpsError + Change option" where
  "change_in node field b =
     (case map_err CpsRuntime (bl_at b) of
        Err e \<Rightarrow> Err e
      | Ok at \<Rightarrow>
          (case map_err CpsRuntime (bl_events b) of
             Err e \<Rightarrow> Err e
           | Ok (metas, payloads) \<Rightarrow>
               if node \<notin> set (case field of FieldMeta \<Rightarrow> metas | FieldPayload \<Rightarrow> payloads) then Ok None
               else (case (case field of FieldMeta \<Rightarrow> read_meta at node | FieldPayload \<Rightarrow> read_payload at node) of
                       Err e \<Rightarrow> Err e
                     | Ok value \<Rightarrow>
                         Ok (Some \<lparr>wc_block_hash = bl_hash b, wc_block_number = bl_number b, wc_value = value\<rparr>))))"

text \<open>\<open>next\<close> on the rest of the stream: \<open>None\<close> when it has ended.\<close>

fun watcher_next ::
  "NodeId \<Rightarrow> Field \<Rightarrow> (string + block) list \<Rightarrow> ((CpsError + Change) \<times> (string + block) list) option" where
  "watcher_next node field [] = None"
| "watcher_next node field (Err e # bs) = Some (Err (CpsRpc e), bs)"
| "watcher_next node field (Ok b # bs) =
     (case change_in node field b of
        Ok (Some change) \<Rightarrow> Some (Ok change, bs)
      | Ok None \<Rightarrow> watcher_next node field bs
      | Err e \<Rightarrow> Some (Err e, bs))"

section \<open>Specification\<close>

text \<open>The transactions a client can build.\<close>

inductive built :: "Transaction \<Rightarrow> bool" where
  "create_root params = Ok tx \<Longrightarrow> built tx"
| "create_child i params = Ok tx \<Longrightarrow> built tx"
| "set_meta i meta = Ok tx \<Longrightarrow> built tx"
| "set_payload i payload = Ok tx \<Longrightarrow> built tx"
| "built (delete_node i)"
| "built (create_scope i)"
| "built (grant_access i account access)"
| "built (revoke_access i account capability)"
| "built (set_identity i assignment)"
| "built (clear_identity i)"

definition within :: "nat \<Rightarrow> bytes option \<Rightarrow> bool" where
  "within limit data = (case data of None \<Rightarrow> True | Some d \<Rightarrow> length d \<le> limit)"

text \<open>A call respects the pallet's limits.\<close>

fun call_within :: "Call \<Rightarrow> bool" where
  "call_within (CallCreateNode _ meta payload _) \<longleftrightarrow> within MAX_META_SIZE meta \<and> within MAX_PAYLOAD_SIZE payload"
| "call_within (CallSetMeta _ meta) \<longleftrightarrow> within MAX_META_SIZE meta"
| "call_within (CallSetPayload _ payload) \<longleftrightarrow> within MAX_PAYLOAD_SIZE payload"
| "call_within _ \<longleftrightarrow> True"

text \<open>A scope may be requested for a node: it exists in the finalized state and is no scope root there.\<close>

definition scope_free :: "Cps \<Rightarrow> NodeId \<Rightarrow> bool" where
  "scope_free cx i \<longleftrightarrow> (\<exists>at info. cx_finalized cx = Ok at \<and> at_info at i = Ok (Some info) \<and> ni_scope info = None)"

text \<open>What a successful call results in, told by its events.\<close>

fun call_result :: "Call \<Rightarrow> ExtrinsicEvents \<Rightarrow> TxResult option" where
  "call_result (CallCreateNode _ _ _ _) events =
     (case ee_node_created events of Some (Ok n) \<Rightarrow> Some (ResNode n) | _ \<Rightarrow> None)"
| "call_result (CallCreateScope _) events =
     (case ee_scope_created events of Some (Ok s) \<Rightarrow> Some (ResScope s) | _ \<Rightarrow> None)"
| "call_result _ events = Some ResUnit"

text \<open>What a watcher of a field of a node reports for one item of the stream.\<close>

inductive block_reports :: "NodeId \<Rightarrow> Field \<Rightarrow> string + block \<Rightarrow> (CpsError + Change) list \<Rightarrow> bool" for node where
  stream_error: "block_reports node field (Err e) [Err (CpsRpc e)]"
| no_state: "bl_at b = Err e \<Longrightarrow> block_reports node field (Ok b) [Err (CpsRuntime e)]"
| no_events: "bl_at b = Ok at \<Longrightarrow> bl_events b = Err e \<Longrightarrow> block_reports node field (Ok b) [Err (CpsRuntime e)]"
| meta_silent: "bl_at b = Ok at \<Longrightarrow> bl_events b = Ok (metas, payloads) \<Longrightarrow> node \<notin> set metas \<Longrightarrow>
    block_reports node FieldMeta (Ok b) []"
| payload_silent: "bl_at b = Ok at \<Longrightarrow> bl_events b = Ok (metas, payloads) \<Longrightarrow> node \<notin> set payloads \<Longrightarrow>
    block_reports node FieldPayload (Ok b) []"
| meta_set: "bl_at b = Ok at \<Longrightarrow> bl_events b = Ok (metas, payloads) \<Longrightarrow> node \<in> set metas \<Longrightarrow> at_meta at node = Ok v \<Longrightarrow>
    block_reports node FieldMeta (Ok b) [Ok \<lparr>wc_block_hash = bl_hash b, wc_block_number = bl_number b, wc_value = v\<rparr>]"
| payload_set: "bl_at b = Ok at \<Longrightarrow> bl_events b = Ok (metas, payloads) \<Longrightarrow> node \<in> set payloads \<Longrightarrow>
    at_payload at node = Ok v \<Longrightarrow>
    block_reports node FieldPayload (Ok b) [Ok \<lparr>wc_block_hash = bl_hash b, wc_block_number = bl_number b, wc_value = v\<rparr>]"
| meta_unread: "bl_at b = Ok at \<Longrightarrow> bl_events b = Ok (metas, payloads) \<Longrightarrow> node \<in> set metas \<Longrightarrow> at_meta at node = Err e \<Longrightarrow>
    block_reports node FieldMeta (Ok b) [Err (CpsRuntime e)]"
| payload_unread: "bl_at b = Ok at \<Longrightarrow> bl_events b = Ok (metas, payloads) \<Longrightarrow> node \<in> set payloads \<Longrightarrow>
    at_payload at node = Err e \<Longrightarrow>
    block_reports node FieldPayload (Ok b) [Err (CpsRuntime e)]"

section \<open>Lemmas\<close>

lemma check_meta_Ok: "check_meta meta = Ok u \<longleftrightarrow> within MAX_META_SIZE meta"
  by (auto simp: check_meta_def within_def split: option.splits)

lemma check_payload_Ok: "check_payload payload = Ok u \<longleftrightarrow> within MAX_PAYLOAD_SIZE payload"
  by (auto simp: check_payload_def within_def split: option.splits)

lemmas builders = create_root_def create_child_def create_node_def set_meta_def set_payload_def delete_node_def
  create_scope_def grant_access_def revoke_access_def set_identity_def clear_identity_def new_transaction_def

lemma built_within: "built tx \<Longrightarrow> call_within (tx_call tx)"
proof (induction rule: built.induct)
qed (auto simp: builders check_meta_Ok check_payload_Ok split: sum.splits)

text \<open>The precondition and the decoder of a transaction are those of its call.\<close>

lemma built_pinned:
  "built tx \<Longrightarrow>
     (tx_precondition tx = Some (NotScopeRoot i) \<longleftrightarrow> tx_call tx = CallCreateScope i) \<and>
     (tx_decode tx events = Ok result \<longleftrightarrow> call_result (tx_call tx) events = Some result)"
proof (induction rule: built.induct)
qed (auto simp: builders no_result_def created_node_def created_scope_def split: sum.splits option.splits)

text \<open>Clearing never panics.\<close>

lemma clear_total: "clear_meta i \<noteq> None" "clear_payload i \<noteq> None"
  by (simp_all add: clear_meta_def clear_payload_def set_meta_def set_payload_def check_meta_def check_payload_def)

lemma check_precondition_Ok:
  "check_precondition cx tx = Ok u \<longleftrightarrow>
   (\<forall>i. tx_precondition tx = Some (NotScopeRoot i) \<longrightarrow>
      (\<exists>at info. cx_finalized cx = Ok at \<and> at_info at i = Ok (Some info) \<and> ni_scope info = None))"
  by (auto simp: check_precondition_def cps_finalized_def read_info_def map_err_def
      split: option.splits Precondition.splits sum.splits)

lemma watcher_next_shorter: "watcher_next node field bs = Some (u, rest) \<Longrightarrow> length rest < length bs"
  by (induction node field bs rule: watcher_next.induct) (auto split: sum.splits option.splits)

text \<open>Calling \<open>next\<close> until the stream ends.\<close>

function watcher_run :: "NodeId \<Rightarrow> Field \<Rightarrow> (string + block) list \<Rightarrow> (CpsError + Change) list" where
  "watcher_run node field bs =
     (case watcher_next node field bs of None \<Rightarrow> [] | Some (u, rest) \<Rightarrow> u # watcher_run node field rest)"
  by pat_completeness auto
termination
  by (relation "measure (\<lambda>(_, _, bs). length bs)") (auto dest: watcher_next_shorter)

declare watcher_run.simps [simp del]

text \<open>One block, as \<open>change_in\<close> treats it.\<close>

lemma change_in_reports:
  "block_reports node field (Ok b)
     (case change_in node field b of Err e \<Rightarrow> [Err e] | Ok None \<Rightarrow> [] | Ok (Some c) \<Rightarrow> [Ok c])"
proof (cases "bl_at b")
  case (Inl e)
  then show ?thesis by (simp add: change_in_def map_err_def block_reports.intros)
next
  case at: (Inr at)
  show ?thesis
  proof (cases "bl_events b")
    case (Inl e)
    then show ?thesis using at by (simp add: change_in_def map_err_def block_reports.intros)
  next
    case (Inr named)
    then obtain metas payloads where ev: "bl_events b = Ok (metas, payloads)" by (cases named) simp
    show ?thesis
    proof (cases field)
      case FieldMeta
      then show ?thesis using at ev
        by (cases "node \<in> set metas"; cases "at_meta at node")
          (auto simp: change_in_def map_err_def read_meta_def intro: block_reports.intros)
    next
      case FieldPayload
      then show ?thesis using at ev
        by (cases "node \<in> set payloads"; cases "at_payload at node")
          (auto simp: change_in_def map_err_def read_payload_def intro: block_reports.intros)
    qed
  qed
qed

lemma block_reports_Nil: "block_reports node field (Ok b) [] \<longleftrightarrow> change_in node field b = Ok None"
proof
  assume "block_reports node field (Ok b) []"
  then show "change_in node field b = Ok None"
    by (cases rule: block_reports.cases) (simp_all add: change_in_def map_err_def)
next
  assume "change_in node field b = Ok None"
  then show "block_reports node field (Ok b) []" using change_in_reports [of node field b] by simp
qed

text \<open>What \<open>next\<close> skips and what it returns.\<close>

lemma watcher_next_reports:
  "watcher_next node field bs = None \<Longrightarrow> list_all2 (block_reports node field) bs (map (\<lambda>_. []) bs)"
  "watcher_next node field bs = Some (u, rest) \<Longrightarrow>
     \<exists>skipped x. bs = skipped @ x # rest \<and> list_all2 (block_reports node field) skipped (map (\<lambda>_. []) skipped) \<and>
       block_reports node field x [u]"
proof (induction node field bs rule: watcher_next.induct)
  case (3 node field b bs)
  {
    case 1
    then show ?case using "3.IH" block_reports_Nil [of node field b]
      by (auto split: sum.splits option.splits)
  next
    case 2
    show ?case
    proof (cases "change_in node field b = Ok None")
      case True
      then obtain skipped x where "bs = skipped @ x # rest"
        "list_all2 (block_reports node field) skipped (map (\<lambda>_. []) skipped)" "block_reports node field x [u]"
        using "3.IH"(2) 2 by auto
      then show ?thesis using True block_reports_Nil [of node field b]
        by (intro exI [of _ "Ok b # skipped"] exI [of _ x]) simp
    next
      case False
      then have "rest = bs \<and> block_reports node field (Ok b) [u]"
        using 2 change_in_reports [of node field b] by (auto split: sum.splits option.splits)
      then show ?thesis by (intro exI [of _ "[]"] exI [of _ "Ok b"]) simp
    qed
  }
qed (auto intro: block_reports.intros exI [of _ "[]"])

lemma widen_u32: "unat (ucast (a :: u32) :: u64) = unat a"
proof -
  have "unat a < 2 ^ 64" using unsigned_less [of a, where ?'a = nat] by simp
  then show ?thesis by (simp add: unsigned_ucast_eq take_bit_nat_eq_self)
qed

lemma permit_sum: "unat ((ucast (a :: u32) :: u64) + ucast (b :: u32)) = unat a + unat b"
proof -
  have "unat a < 2 ^ 32" "unat b < 2 ^ 32"
    using unsigned_less [of a, where ?'a = nat] unsigned_less [of b, where ?'a = nat] by simp_all
  then show ?thesis by (simp add: unat_word_ariths widen_u32)
qed

section \<open>Properties\<close>

text \<open>
  C28. A receipt is evidence. Every call the client sends respects the pallet's size limits, and it sends
  exactly the transaction's own call, once, unless that requests a scope for a node that does not exist or is
  a scope root already in the finalized state: then it sends nothing. A receipt is returned exactly when the
  call was sent, its extrinsic is in a finalized block, the runtime reported success and the events have what
  the call results in: the node that was created, the scope that was created, or nothing for other calls; it
  names that block and that result.
\<close>

theorem submit_finalized_sound:
  assumes "built tx" and "submit_finalized cx tx = (res, sent)"
  shows "sent = (if \<exists>i. tx_call tx = CallCreateScope i \<and> \<not> scope_free cx i then [] else [tx_call tx]) \<and>
    (\<forall>call\<in>set sent. call_within call) \<and>
    (\<forall>r. res = Ok r \<longleftrightarrow> sent = [tx_call tx] \<and>
       (\<exists>h ib events result. cx_send cx (tx_call tx) = Ok h \<and> cx_wait_finalized cx h = Ok ib \<and>
          cx_success cx ib = Ok events \<and> call_result (tx_call tx) events = Some result \<and>
          r = \<lparr>tr_extrinsic_hash = ib_extrinsic_hash ib, tr_block_hash = ib_block_hash ib, tr_result = result\<rparr>))"
proof -
  have pre: "check_precondition cx tx = Ok u \<longleftrightarrow> \<not> (\<exists>i. tx_call tx = CallCreateScope i \<and> \<not> scope_free cx i)" for u
    unfolding check_precondition_Ok using built_pinned [OF assms(1)] by (auto simp: scope_free_def)
  have decoded: "call_result (tx_call tx) events = Some result \<longleftrightarrow> tx_decode tx events = Ok result" for events result
    using built_pinned [OF assms(1)] by blast
  show ?thesis
  proof (cases "check_precondition cx tx")
    case (Inl e)
    then show ?thesis using assms(2) pre by (auto simp: submit_finalized_def submit_def)
  next
    case (Inr u)
    then have sent: "sent = [tx_call tx]"
      using assms(2) by (auto simp: submit_finalized_def submit_def split: sum.splits)
    have "res = Ok r \<longleftrightarrow>
       (\<exists>h ib events result. cx_send cx (tx_call tx) = Ok h \<and> cx_wait_finalized cx h = Ok ib \<and>
          cx_success cx ib = Ok events \<and> call_result (tx_call tx) events = Some result \<and>
          r = \<lparr>tr_extrinsic_hash = ib_extrinsic_hash ib, tr_block_hash = ib_block_hash ib, tr_result = result\<rparr>)" for r
      using assms(2) Inr unfolding decoded
      by (auto simp: submit_finalized_def submit_def wait_finalized_def receipt_def map_err_def split: sum.splits)
    then show ?thesis using sent built_within [OF assms(1)] Inr pre by auto
  qed
qed

text \<open>
  C29. Watching misses nothing: calling \<open>next\<close> until the stream ends gives, in order, for every item of the stream
  what it calls for: exactly one update for a finalized block whose events name the node for the watched field,
  with the value of that field in that block; nothing for another block; and one error for a block that could
  not be read.
\<close>

theorem watcher_in_order:
  "\<exists>reports. list_all2 (block_reports node field) bs reports \<and> watcher_run node field bs = concat reports"
proof (induction node field bs rule: watcher_run.induct)
  case (1 node field bs)
  have silent: "concat (map (\<lambda>_. []) xs) = []" for xs :: "'b list" by simp
  show ?case
  proof (cases "watcher_next node field bs")
    case None
    then show ?thesis using watcher_next_reports(1) [OF None] silent
      by (intro exI [of _ "map (\<lambda>_. []) bs"]) (simp add: watcher_run.simps)
  next
    case (Some y)
    then obtain u rest where y: "watcher_next node field bs = Some (u, rest)" by (cases y) auto
    obtain skipped x where bs: "bs = skipped @ x # rest"
      and sk: "list_all2 (block_reports node field) skipped (map (\<lambda>_. []) skipped)" and x: "block_reports node field x [u]"
      using watcher_next_reports(2) [OF y] by blast
    obtain reports where rs: "list_all2 (block_reports node field) rest reports" "watcher_run node field rest = concat reports"
      using 1 [OF y refl] by blast
    have "list_all2 (block_reports node field) bs (map (\<lambda>_. []) skipped @ [u] # reports)"
      unfolding bs using sk x rs(1) by (intro list_all2_appendI) simp_all
    moreover have "watcher_run node field bs = concat (map (\<lambda>_. []) skipped @ [u] # reports)"
      using y rs(2) by (simp add: watcher_run.simps)
    ultimately show ?thesis by blast
  qed
qed

text \<open>A permit is issued exactly for an expiry between the current block and the runtime's limit.\<close>

lemma permit_window_exact:
  assumes "cx_finalized cx = Ok at" and "at_permit_ttl at = Ok ttl"
  shows "(\<exists>p. identity_permit_payload cx scope valid_until = Ok p) \<longleftrightarrow>
    unat (block_number_u32 at) \<le> unat valid_until \<and> unat valid_until \<le> unat (block_number_u32 at) + unat ttl"
proof -
  have "(ucast valid_until :: u64) > ucast (block_number_u32 at) + ucast ttl \<longleftrightarrow>
      unat valid_until > unat (block_number_u32 at) + unat ttl"
    using permit_sum [of "block_number_u32 at" ttl] by (simp add: word_less_nat_alt widen_u32)
  then show ?thesis
    using assms
    by (auto simp: identity_permit_payload_def cps_finalized_def map_err_def Let_def word_less_nat_alt not_less)
qed

end
