(* ===== verification/WitnessesLibcps.thy ===== *)
theory WitnessesLibcps
  imports Witnesses LibcpsClient
begin

text \<open>
  Concrete inputs for the theorems on libcps: a commutative group, a cipher that prepends its key, a
  signature scheme that always verifies and a codec of field lists stand in for the libraries.
\<close>

section \<open>The cipher\<close>

definition curve0 :: "bytes curve" where
  "curve0 = \<lparr>cv_decompress = Some, cv_mul = (\<lambda>a p. [sum_list a + sum_list p]), cv_compress = (\<lambda>p. p)\<rparr>"

definition sha512_0 :: "bytes \<Rightarrow> bytes" where
  "sha512_0 b = b @ replicate 64 0"

definition cipher0 :: cipher_ops where
  "cipher0 = \<lparr>co_hkdf = (\<lambda>salt secret info. Ok (secret @ info)),
              co_seal = (\<lambda>alg key nonce pt. Ok (key @ pt)),
              co_unseal = (\<lambda>alg key nonce ct. if take (length key) ct = key then Ok (drop (length key) ct) else Err ''tag'')\<rparr>"

lemma cipher0_ok: "aead_ok cipher0"
  by (simp add: aead_ok_def cipher0_def)

lemma curve0_ok: "curve_ok curve0 (scheme_scalar Sr25519 sha512_0) (\<lambda>s. s)"
  by (simp add: curve_ok_def curve0_def scheme_scalar_def add.commute)

abbreviation alice :: SharedSecret where
  "alice \<equiv> signer Sr25519 sha512_0 curve0 (\<lambda>s. s) [1, 2]"

abbreviation bob :: SharedSecret where
  "bob \<equiv> signer Sr25519 sha512_0 curve0 (\<lambda>s. s) [3]"

abbreviation message0 :: "string + EncryptedMessage" where
  "message0 \<equiv> encrypt cipher0 (replicate 24 0) alice [9, 9] [3] XChaCha20Poly1305"

lemma message0_Ok: "message0 = Ok (projr message0)"
  by (simp add: encrypt_def signer_def sr_derive_shared_def curve0_def derive_key_def cipher0_def map_err_def)

text \<open>Vectors, byte by byte with a final mark.\<close>

definition vec0 :: "bytes \<Rightarrow> bytes" where
  "vec0 v = concat (map (\<lambda>b. [1, b]) v) @ [0]"

fun unvec0 :: "bytes \<Rightarrow> string + bytes \<times> bytes" where
  "unvec0 (t # s) =
     (if t = 0 then Ok ([], s)
      else case s of
             [] \<Rightarrow> Err ''end''
           | b # r \<Rightarrow> map_ok (\<lambda>(v, q). (b # v, q)) (unvec0 r))"
| "unvec0 [] = Err ''end''"

lemma vec0_ok: "vec_ok vec0 unvec0"
proof -
  have "unvec0 (vec0 v @ r) = Ok (v, r)" for v r
    by (induction v) (simp_all add: vec0_def map_ok_def)
  then show ?thesis by (simp add: vec_ok_def)
qed

section \<open>Permits\<close>

definition sigs0 :: "(bytes, bytes, unit) sig_ops" where
  "sigs0 = \<lparr>so_sr_public = (\<lambda>k. k), so_sr_sign = (\<lambda>k m. replicate 64 1), so_sr_verify = (\<lambda>_ _ _. True),
            so_ed_public = (\<lambda>k. k), so_ed_sign = (\<lambda>k m. replicate 64 2), so_ed_verify = (\<lambda>_ _ _. True),
            so_ec_public = (\<lambda>_. [1]), so_ec_sign = (\<lambda>k m. replicate 65 3), so_ec_recover = (\<lambda>_ _. Some [1]),
            so_blake2_256 = (\<lambda>b. b)\<rparr>"

lemma sigs0_ok: "sig_ok sigs0"
  by (simp add: sig_ok_def sigs0_def)

text \<open>A text of fields: each character after a 1, a 0 at the end of a field; numbers in unary.\<close>

definition put0 :: "string \<Rightarrow> string" where
  "put0 s = concat (map (\<lambda>c. [CHR ''1'', c]) s) @ [CHR ''0'']"

fun get0 :: "string \<Rightarrow> string list" where
  "get0 [] = []"
| "get0 (t # s) =
     (if t = CHR ''0'' then [] # get0 s
      else case s of
             [] \<Rightarrow> []
           | c # r \<Rightarrow> (case get0 r of [] \<Rightarrow> [[c]] | f # fs \<Rightarrow> (c # f) # fs))"

lemma get_put: "get0 (put0 f @ s) = f # get0 s"
  by (induction f) (simp_all add: put0_def)

definition unary :: "nat \<Rightarrow> string" where
  "unary n = replicate n CHR ''x''"

definition render0 :: "Repr \<Rightarrow> string" where
  "render0 r = concat (map put0 [unary (rp_version r), rp_identity r, show_scheme (rp_scheme r), rp_genesis_hash r,
     unary (unat (rp_scope r)), unary (unat (rp_valid_until r)), rp_signature r])"

definition parse0 :: "string \<Rightarrow> string + Repr" where
  "parse0 s =
     (case get0 s of
        [v, i, k, g, sc, u, sg] \<Rightarrow>
          Ok \<lparr>rp_version = length v, rp_identity = i, rp_scheme = projr (scheme_from_str k), rp_genesis_hash = g,
              rp_scope = word_of_nat (length sc), rp_valid_until = word_of_nat (length u), rp_signature = sg\<rparr>
      | _ \<Rightarrow> Err ''json'')"

lemma json0: "json_ok render0 parse0"
proof -
  have "parse0 (render0 r) = Ok r" for r
    using get_put [of "rp_signature r" "[]"]
    by (simp add: parse0_def render0_def get_put unary_def scheme_names_parse)
  then show ?thesis by (simp add: json_ok_def)
qed

lemma ss58_0: "ss58_ok hex_enc0 hex_dec0"
  using hex_ok0 by (simp add: ss58_ok_def hex_ok_def)

definition payload0 :: IdentityPermitPayload where
  "payload0 = \<lparr>ip_genesis_hash = replicate 32 7, ip_scope = 7, ip_valid_until = 1000\<rparr>"

section \<open>The client\<close>

text \<open>A chain on which node 5 exists and is no scope root.\<close>

definition at0 :: CpsAt where
  "at0 = \<lparr>at_block_number = 9, at_permit_ttl = Ok 100,
          at_info = (\<lambda>n. Ok (if n = 5 then Some \<lparr>ni_parent = None, ni_scope = None\<rparr> else None)),
          at_meta = (\<lambda>_. Ok None), at_payload = (\<lambda>_. Ok None), at_children = (\<lambda>_. Ok None), at_scopes = (\<lambda>_. Ok None),
          at_identity_of = (\<lambda>_. Ok None), at_resolve_scope = (\<lambda>_. Err ''no''), at_has_capability = (\<lambda>_ _ _. Ok (Ok True)),
          at_node_by_identity = (\<lambda>_. Ok None), at_address_parent = (\<lambda>_. Ok (Ok None)), at_address_children = (\<lambda>_. Ok (Ok [])),
          at_address_meta = (\<lambda>_. Ok (Ok None)), at_address_payload = (\<lambda>_. Ok (Ok None)),
          at_address_scope = (\<lambda>_. Ok (Ok 0)), at_address_capability = (\<lambda>_ _ _. Ok (Ok False))\<rparr>"

definition cx0 :: Cps where
  "cx0 = \<lparr>cx_finalized = Ok at0, cx_genesis_hash = replicate 32 7, cx_send = (\<lambda>_. Ok [1]),
          cx_wait_finalized = (\<lambda>h. Ok \<lparr>ib_block_hash = [2], ib_extrinsic_hash = h\<rparr>), cx_statuses = (\<lambda>_. []),
          cx_show_status = (\<lambda>_. ''failed''), cx_stream_end = ''end'',
          cx_success = (\<lambda>_. Ok \<lparr>ee_node_created = None, ee_scope_created = Some (Ok 8)\<rparr>)\<rparr>"

lemma submit0:
  "submit_finalized cx0 (create_scope 5) =
     (Ok \<lparr>tr_extrinsic_hash = [1], tr_block_hash = [2], tr_result = ResScope 8\<rparr>, [CallCreateScope 5])"
  by (simp add: submit_finalized_def submit_def check_precondition_def cps_finalized_def read_info_def wait_finalized_def
      receipt_def create_scope_def new_transaction_def created_scope_def cx0_def at0_def map_err_def)

theorem submit_finalized_sound_witness:
  "submit_finalized cx0 (create_scope 5) =
     (Ok \<lparr>tr_extrinsic_hash = [1], tr_block_hash = [2], tr_result = ResScope 8\<rparr>, [CallCreateScope 5]) \<and>
   scope_free cx0 5 \<and> call_within (CallCreateScope 5)"
  using submit0 submit_finalized_sound [OF built.intros(6) submit0] by (auto simp: create_scope_def new_transaction_def split: if_splits)

end
