(* ===== verification/MqttBridge.thy ===== *)
theory MqttBridge
  imports LibcpsClient
begin

text \<open>
  The MQTT bridge: \<open>crates/mqtt-bridge/src/bridge.rs\<close> with the commands of \<open>commands.rs\<close> and \<open>main.rs\<close>. A
  subscribe bridge writes each MQTT message, encrypted or as text, into the payload of a node; a publish
  bridge sends each new payload of a node, decrypted or as text, to a topic.

  The MQTT client and the chain are the environment: an event comes with the connection to the chain as it
  is then and the random nonce an encryption would draw. What a bridge does is a list of effects. Errors
  are their texts (\<open>anyhow\<close>); a panic is the result \<open>None\<close>.
\<close>

section \<open>Configuration\<close>

type_synonym u16 = "16 word"

record SubscribeConfig =
  sub_topic :: string
  sub_node_id :: u64
  sub_receiver_public :: "string option"
  sub_cipher :: "string option"
  sub_scheme :: "string option"

record PublishConfig =
  pub_topic :: string
  pub_node_id :: u64
  pub_decrypt :: bool

record BlockchainConfig_mqtt =
  bc_ws_url :: "string option"
  bc_suri :: "string option"

definition endpoint :: "BlockchainConfig_mqtt \<Rightarrow> string" where
  "endpoint cfg = (case bc_ws_url cfg of Some url \<Rightarrow> url | None \<Rightarrow> ''embedded light client'')"

text \<open>\<open>rpc\<close> connects to an endpoint; \<open>light\<close> starts the light node and gives the endpoint it serves.\<close>

definition connect_chain ::
  "(string \<Rightarrow> CpsError + 'c) \<Rightarrow> LightError + string \<Rightarrow> BlockchainConfig_mqtt \<Rightarrow> string + 'c" where
  "connect_chain rpc light cfg =
     (case bc_ws_url cfg of
        Some url \<Rightarrow> map_err show_cps_error (rpc url)
      | None \<Rightarrow>
          (case light of
             Err e \<Rightarrow> Err (show_light_error e)
           | Ok url \<Rightarrow> map_err show_cps_error (rpc url)))"

record BlockchainConfigData =
  bd_ws_url :: "string option"
  bd_suri :: "string option"

record Config_mqtt =
  mq_broker :: string
  mq_username :: "string option"
  mq_password :: "string option"
  mq_client_id :: "string option"
  mq_blockchain :: "BlockchainConfigData option"
  mq_subscribe :: "SubscribeConfig list"
  mq_publish :: "PublishConfig list"

definition from_file ::
  "(string \<Rightarrow> string + string) \<Rightarrow> (string \<Rightarrow> string + Config_mqtt) \<Rightarrow> string \<Rightarrow> string + Config_mqtt" where
  "from_file read_to_string toml path =
     (case map_err (\<lambda>e. ''Failed to read config file '' @ [char_of (39 :: nat)] @ path @ [char_of (39 :: nat)] @ '': '' @ e)
             (read_to_string path) of
        Err e \<Rightarrow> Err e
      | Ok contents \<Rightarrow> map_err (\<lambda>e. ''Failed to parse TOML config: '' @ e) (toml contents))"

section \<open>Parsing\<close>

definition MQTT_RECONNECT_DELAY_SECS :: nat where
  "MQTT_RECONNECT_DELAY_SECS = 5"

definition parse_receiver_public_key ::
  "(string \<Rightarrow> string + AccountId) \<Rightarrow> (string \<Rightarrow> string + bytes) \<Rightarrow> string \<Rightarrow> string + bytes" where
  "parse_receiver_public_key ss58 hex_dec addr_or_hex =
     (case ss58 addr_or_hex of
        Ok account_id \<Rightarrow> Ok account_id
      | Err _ \<Rightarrow>
          (case map_err (\<lambda>e. ''Invalid receiver address (not valid SS58 or hex): '' @ e)
                  (hex_dec (strip_prefix_0x addr_or_hex)) of
             Err e \<Rightarrow> Err e
           | Ok bytes \<Rightarrow>
               if length bytes \<noteq> 32
               then Err (''Invalid receiver public key: expected 32 bytes, got '' @ show_nat (length bytes))
               else Ok bytes))"

definition parse_mqtt_url :: "string \<Rightarrow> string + string \<times> u16" where
  "parse_mqtt_url url =
     (let url = trim url;
          url = (case strip_prefix ''mqtt://'' url of
                   Some rest \<Rightarrow> rest
                 | None \<Rightarrow> (case strip_prefix ''mqtts://'' url of Some rest \<Rightarrow> rest | None \<Rightarrow> url))
      in case split_once CHR '':'' url of
           Some (host, port_str) \<Rightarrow>
             (case parse_unsigned (2 ^ 16) port_str of
                None \<Rightarrow> Err (''Invalid port in MQTT URL: '' @ port_str)
              | Some port \<Rightarrow> Ok (host, word_of_nat port))
         | None \<Rightarrow> Ok (url, 1883))"

datatype CryptoScheme = CsSr25519 | CsEd25519

definition crypto_scheme_from_str :: "string \<Rightarrow> string + CryptoScheme" where
  "crypto_scheme_from_str s =
     (let l = ascii_lower s in
      if l \<in> {''sr25519'', ''sr''} then Ok CsSr25519
      else if l \<in> {''ed25519'', ''ed''} then Ok CsEd25519
      else Err (''Invalid cryptographic scheme: '' @ [char_of (39 :: nat)] @ s @ [char_of (39 :: nat)] @
             ''. Supported: sr25519, ed25519''))"

fun with_scheme :: "CryptoScheme \<Rightarrow> Scheme" where
  "with_scheme CsSr25519 = Sr25519"
| "with_scheme CsEd25519 = Ed25519"

text \<open>\<open>signer\<close> of the bridge: the account that signs transactions.\<close>

definition bridge_signer :: "(Scheme \<Rightarrow> string \<Rightarrow> string + SharedSecret) \<Rightarrow> BlockchainConfig_mqtt \<Rightarrow> string + SharedSecret" where
  "bridge_signer pairs cfg =
     (case bc_suri cfg of
        None \<Rightarrow> Err ''This operation requires an account. Please provide a SURI.''
      | Some suri \<Rightarrow> map_err show_cps_error (signer_from_suri pairs Sr25519 suri))"

definition ensure_can_write :: "(AccountId \<Rightarrow> string) \<Rightarrow> Cps \<Rightarrow> NodeId \<Rightarrow> AccountId \<Rightarrow> string + unit" where
  "ensure_can_write show_account cps node account =
     (case node_read cps (\<lambda>at i. has_capability at i account CapWrite) node of
        Err e \<Rightarrow> Err (show_cps_error e)
      | Ok True \<Rightarrow> Ok ()
      | Ok False \<Rightarrow> Err (''Account '' @ show_account account @ '' has no write access to node '' @ show_node node))"

section \<open>The MQTT client\<close>

record MqttOptions =
  mo_client_id :: string
  mo_host :: string
  mo_port :: u16
  mo_keep_alive :: nat
  mo_credentials :: "(string \<times> string) option"

definition mqtt_options :: "Config_mqtt \<Rightarrow> string \<Rightarrow> u64 \<Rightarrow> string \<Rightarrow> u16 \<Rightarrow> MqttOptions" where
  "mqtt_options cfg prefix node_id host port =
     \<lparr>mo_client_id = (case mq_client_id cfg of Some i \<Rightarrow> i | None \<Rightarrow> prefix @ show_nat (unat node_id)),
      mo_host = host, mo_port = port, mo_keep_alive = 30,
      mo_credentials = (case mq_username cfg of
                          None \<Rightarrow> None
                        | Some username \<Rightarrow> Some (username, case mq_password cfg of Some p \<Rightarrow> p | None \<Rightarrow> []))\<rparr>"

datatype MqttEvent = IncomingPublish bytes | IncomingConnAck | IncomingSubAck | MqttOther | MqttError

datatype Effect =
    Handled string bytes
  | Sent Call
  | Slept nat
  | Published string bytes
  | Notified string nat bytes

section \<open>The subscribe bridge\<close>

text \<open>The arguments of \<open>subscribe\<close>.\<close>

record Subscription =
  su_topic :: string
  su_node :: NodeId
  su_cipher :: "SharedSecret option"
  su_receiver :: "bytes option"
  su_algorithm :: "EncryptionAlgorithm option"
  su_handler :: bool

text \<open>Up to the event loop: the connection, the options of the client and the accepted subscription.
  \<open>accept\<close> is the client's answer to \<open>subscribe(topic)\<close>.\<close>

definition subscribe_start ::
  "(string \<Rightarrow> CpsError + Cps) \<Rightarrow> LightError + string \<Rightarrow> (Scheme \<Rightarrow> string \<Rightarrow> string + SharedSecret) \<Rightarrow> (AccountId \<Rightarrow> string)
    \<Rightarrow> (string \<Rightarrow> string + unit) \<Rightarrow> Config_mqtt \<Rightarrow> BlockchainConfig_mqtt \<Rightarrow> Subscription \<Rightarrow> string + Cps \<times> MqttOptions" where
  "subscribe_start rpc light pairs show_account accept cfg chain_cfg su =
     (case connect_chain rpc light chain_cfg of
        Err e \<Rightarrow> Err e
      | Ok cps \<Rightarrow>
          (case bridge_signer pairs chain_cfg of
             Err e \<Rightarrow> Err e
           | Ok account \<Rightarrow>
               (case ensure_can_write show_account cps (su_node su) (ss_public account) of
                  Err e \<Rightarrow> Err e
                | Ok _ \<Rightarrow>
                    (case parse_mqtt_url (mq_broker cfg) of
                       Err e \<Rightarrow> Err e
                     | Ok (host, port) \<Rightarrow>
                         (case map_err (\<lambda>e. ''Failed to subscribe to topic: '' @ e) (accept (su_topic su)) of
                            Err e \<Rightarrow> Err e
                          | Ok _ \<Rightarrow> Ok (cps, mqtt_options cfg ''cps-sub-'' (su_node su) host port))))))"

text \<open>What is written for a message: \<open>Some (Err e)\<close> when encryption fails, \<open>None\<close> for the \<open>unreachable!\<close>.\<close>

definition node_data ::
  "cipher_ops \<Rightarrow> (bytes \<Rightarrow> bytes) \<Rightarrow> Subscription \<Rightarrow> bytes \<Rightarrow> bytes \<Rightarrow> (string + bytes) option" where
  "node_data ops vec_enc su nonce payload =
     (case (su_receiver su, su_cipher su, su_algorithm su) of
        (Some receiver, Some cipher, Some algorithm) \<Rightarrow>
          Some (map_ok (scale_encode vec_enc) (encrypt ops nonce cipher payload receiver algorithm))
      | (Some _, _, _) \<Rightarrow> None
      | _ \<Rightarrow> Some (Ok (from_utf8_lossy payload)))"

fun on_mqtt_event ::
  "cipher_ops \<Rightarrow> (bytes \<Rightarrow> bytes) \<Rightarrow> Subscription \<Rightarrow> Cps \<times> bytes \<Rightarrow> MqttEvent \<Rightarrow> Effect list option" where
  "on_mqtt_event ops vec_enc su (cps, nonce) (IncomingPublish payload) =
     (let handled = (if su_handler su then [Handled (su_topic su) payload] else []) in
      case node_data ops vec_enc su nonce payload of
        None \<Rightarrow> None
      | Some (Err _) \<Rightarrow> Some handled
      | Some (Ok data) \<Rightarrow>
          (case set_payload (su_node su) (Some data) of
             Err _ \<Rightarrow> Some handled
           | Ok tx \<Rightarrow> Some (handled @ map Sent (snd (submit_finalized cps tx)))))"
| "on_mqtt_event ops vec_enc su env MqttError = Some [Slept MQTT_RECONNECT_DELAY_SECS]"
| "on_mqtt_event ops vec_enc su env _ = Some []"

text \<open>The event loop over what the client reports; it does not end by itself.\<close>

fun subscribe_run ::
  "cipher_ops \<Rightarrow> (bytes \<Rightarrow> bytes) \<Rightarrow> Subscription \<Rightarrow> ((Cps \<times> bytes) \<times> MqttEvent) list \<Rightarrow> Effect list option" where
  "subscribe_run ops vec_enc su [] = Some []"
| "subscribe_run ops vec_enc su ((env, ev) # evs) =
     (case on_mqtt_event ops vec_enc su env ev of
        None \<Rightarrow> None
      | Some effects \<Rightarrow> map_option ((@) effects) (subscribe_run ops vec_enc su evs))"

section \<open>The publish bridge\<close>

text \<open>\<open>json\<close> is the JSON form of a message, \<open>utf8_error\<close> the message for ill-formed text.\<close>

definition node_data_to_string ::
  "cipher_ops \<Rightarrow> (bytes \<Rightarrow> string + bytes \<times> bytes) \<Rightarrow> (EncryptedMessage \<Rightarrow> string + bytes) \<Rightarrow> (bytes \<Rightarrow> string)
    \<Rightarrow> SharedSecret option \<Rightarrow> bytes \<Rightarrow> string + bytes" where
  "node_data_to_string ops vec_dec json utf8_error cipher data =
     (let text = (\<lambda>b. if valid_utf8 b then Ok b else Err (''Invalid UTF-8 character: '' @ utf8_error b)) in
      case scale_decode vec_dec data of
        Some message \<Rightarrow>
          (case cipher of
             Some c \<Rightarrow>
               (case map_err (\<lambda>e. ''Failed to decrypt message: '' @ e) (decrypt ops c message None) of
                  Err e \<Rightarrow> Err e
                | Ok decrypted \<Rightarrow> text decrypted)
           | None \<Rightarrow> map_err (\<lambda>e. ''Failed to convert encrypted message into JSON: '' @ e) (json message))
      | None \<Rightarrow> text data)"

text \<open>An update of the watcher, with the client's answer to publishing.\<close>

definition on_update ::
  "(bytes \<Rightarrow> string + bytes) \<Rightarrow> string \<Rightarrow> bool \<Rightarrow> string + unit \<Rightarrow> CpsError + Change \<Rightarrow> Effect list" where
  "on_update to_string topic handler answer update =
     (case update of
        Err _ \<Rightarrow> []
      | Ok change \<Rightarrow>
          (case wc_value change of
             None \<Rightarrow> []
           | Some payload \<Rightarrow>
               (case to_string payload of
                  Err _ \<Rightarrow> []
                | Ok data \<Rightarrow>
                    (case answer of
                       Err _ \<Rightarrow> []
                     | Ok _ \<Rightarrow>
                         Published topic data # (if handler then [Notified topic (wc_block_number change) data] else [])))))"

text \<open>The bridge from connecting to the end of the watcher. \<open>watch\<close> is the subscription to finalized blocks
  and \<open>answers\<close> the client's answers, one per update.\<close>

definition publish_bridge ::
  "(string \<Rightarrow> CpsError + Cps) \<Rightarrow> LightError + string \<Rightarrow> (bytes \<Rightarrow> string + bytes) \<Rightarrow> CpsError + (string + block) list
    \<Rightarrow> (nat \<Rightarrow> string + unit) \<Rightarrow> Config_mqtt \<Rightarrow> BlockchainConfig_mqtt \<Rightarrow> string \<Rightarrow> u64 \<Rightarrow> bool \<Rightarrow> (string + unit) \<times> Effect list" where
  "publish_bridge rpc light to_string watch answers cfg chain_cfg topic node_id handler =
     (case connect_chain rpc light chain_cfg of
        Err e \<Rightarrow> (Err e, [])
      | Ok client \<Rightarrow>
          (case parse_mqtt_url (mq_broker cfg) of
             Err e \<Rightarrow> (Err e, [])
           | Ok _ \<Rightarrow>
               (case map_err (\<lambda>e. ''Failed to subscribe to finalized blocks: '' @ show_cps_error e) watch of
                  Err e \<Rightarrow> (Err e, [])
                | Ok blocks \<Rightarrow>
                    let updates = watcher_run node_id FieldPayload blocks in
                    (Ok (), concat (map (\<lambda>(i, u). on_update to_string topic handler (answers i) u)
                              (zip [0..<length updates] updates))))))"

section \<open>Starting from a configuration file\<close>

text \<open>The part of a subscribe task before \<open>subscribe\<close>.\<close>

definition subscribe_task ::
  "(Scheme \<Rightarrow> string \<Rightarrow> string + SharedSecret) \<Rightarrow> (string \<Rightarrow> string + AccountId) \<Rightarrow> (string \<Rightarrow> string + bytes)
    \<Rightarrow> BlockchainConfig_mqtt \<Rightarrow> SubscribeConfig \<Rightarrow> string + Subscription" where
  "subscribe_task pairs ss58 hex_dec chain_cfg sub =
     (let quote = [char_of (39 :: nat)];
          cipher_name = (case sub_cipher sub of Some c \<Rightarrow> c | None \<Rightarrow> ''xchacha20'');
          scheme_name = (case sub_scheme sub of Some s \<Rightarrow> s | None \<Rightarrow> ''sr25519'') in
      case sub_receiver_public sub of
        None \<Rightarrow>
          Ok \<lparr>su_topic = sub_topic sub, su_node = sub_node_id sub, su_cipher = None, su_receiver = None,
              su_algorithm = None, su_handler = False\<rparr>
      | Some addr_or_hex \<Rightarrow>
          (case parse_receiver_public_key ss58 hex_dec addr_or_hex of
             Err e \<Rightarrow> Err e
           | Ok receiver \<Rightarrow>
               (case map_err (\<lambda>e. ''Invalid cipher '' @ quote @ cipher_name @ quote @ '': '' @ e) (algorithm_from_str cipher_name) of
                  Err e \<Rightarrow> Err e
                | Ok algorithm \<Rightarrow>
                    (case map_err (\<lambda>e. ''Invalid scheme '' @ quote @ scheme_name @ quote @ '': '' @ e)
                            (crypto_scheme_from_str scheme_name) of
                       Err e \<Rightarrow> Err e
                     | Ok scheme \<Rightarrow>
                         (case bc_suri chain_cfg of
                            None \<Rightarrow> Err ''SURI required for encryption''
                          | Some suri \<Rightarrow>
                              (case map_err show_cps_error (signer_from_suri pairs (with_scheme scheme) suri) of
                                 Err e \<Rightarrow> Err e
                               | Ok cipher \<Rightarrow>
                                   Ok \<lparr>su_topic = sub_topic sub, su_node = sub_node_id sub, su_cipher = Some cipher,
                                       su_receiver = Some receiver, su_algorithm = Some algorithm, su_handler = False\<rparr>))))))"

text \<open>The decryption key of a publish task: always the Sr25519 key of the secret.\<close>

definition publish_cipher ::
  "(Scheme \<Rightarrow> string \<Rightarrow> string + SharedSecret) \<Rightarrow> BlockchainConfig_mqtt \<Rightarrow> bool \<Rightarrow> string + SharedSecret option" where
  "publish_cipher pairs chain_cfg should_decrypt =
     (if should_decrypt
      then (case bc_suri chain_cfg of
              None \<Rightarrow> Err ''SURI required for decryption''
            | Some suri \<Rightarrow> map_ok Some (map_err show_cps_error (signer_from_suri pairs Sr25519 suri)))
      else Ok None)"

definition chain_config_of :: "BlockchainConfigData \<Rightarrow> BlockchainConfig_mqtt" where
  "chain_config_of data = \<lparr>bc_ws_url = bd_ws_url data, bc_suri = bd_suri data\<rparr>"

text \<open>\<open>start\<close>: \<open>sub_end\<close> and \<open>pub_end\<close> are how the spawned tasks end, an outer error being a panic; the errors
  that are logged come with the result.\<close>

definition bridge_start ::
  "(BlockchainConfig_mqtt \<Rightarrow> SubscribeConfig \<Rightarrow> string + (string + unit)) \<Rightarrow> (BlockchainConfig_mqtt \<Rightarrow> PublishConfig \<Rightarrow> string + (string + unit))
    \<Rightarrow> Config_mqtt \<Rightarrow> (string + unit) \<times> string list" where
  "bridge_start sub_end pub_end cfg =
     (case mq_blockchain cfg of
        None \<Rightarrow> (Err ''Blockchain configuration required in config file'', [])
      | Some data \<Rightarrow>
          let chain_cfg = chain_config_of data;
              ends = map (sub_end chain_cfg) (mq_subscribe cfg) @ map (pub_end chain_cfg) (mq_publish cfg) in
          (Ok (), concat (map (\<lambda>r. case r of Err e \<Rightarrow> [''Bridge task failed: '' @ e] | Ok _ \<Rightarrow> []) ends)))"

section \<open>The commands\<close>

text \<open>\<open>main\<close> and \<open>commands::subscribe\<close> up to \<open>subscribe\<close>: the options of the command line become its arguments.\<close>

definition commands_subscribe :: "Config_mqtt \<Rightarrow> Subscription \<Rightarrow> string + unit" where
  "commands_subscribe cfg su =
     (case parse_mqtt_url (mq_broker cfg) of
        Err e \<Rightarrow> Err e
      | Ok _ \<Rightarrow>
          (case su_receiver su of
             None \<Rightarrow> Ok ()
           | Some _ \<Rightarrow>
               (case (su_cipher su, su_algorithm su) of
                  (Some _, Some _) \<Rightarrow> Ok ()
                | (None, _) \<Rightarrow> Err ''Encryption requested but cipher is missing. Provide --suri to enable encryption.''
                | (_, None) \<Rightarrow> Err ''Encryption requested but algorithm is missing. Provide --cipher to specify algorithm.'')))"

definition main_subscribe ::
  "(Scheme \<Rightarrow> string \<Rightarrow> string + SharedSecret) \<Rightarrow> (string \<Rightarrow> string + AccountId) \<Rightarrow> (string \<Rightarrow> string + bytes) \<Rightarrow> Config_mqtt
    \<Rightarrow> string option \<Rightarrow> string \<Rightarrow> u64 \<Rightarrow> string option \<Rightarrow> string \<Rightarrow> CryptoScheme \<Rightarrow> string + Subscription" where
  "main_subscribe pairs ss58 hex_dec cfg suri topic node_id receiver_public cipher scheme =
     (case (case receiver_public of
              None \<Rightarrow> Ok None
            | Some addr_or_hex \<Rightarrow> map_ok Some (parse_receiver_public_key ss58 hex_dec addr_or_hex)) of
        Err e \<Rightarrow> Err e
      | Ok receiver \<Rightarrow>
          (case (if receiver_public \<noteq> None
                 then map_ok Some (map_err (\<lambda>e. ''Invalid cipher: '' @ e) (algorithm_from_str cipher))
                 else Ok None) of
             Err e \<Rightarrow> Err e
           | Ok algorithm \<Rightarrow>
               (case (if receiver_public \<noteq> None
                      then (case suri of
                              None \<Rightarrow> Err ''SURI required for encryption''
                            | Some s \<Rightarrow> map_ok Some (map_err show_cps_error (signer_from_suri pairs (with_scheme scheme) s)))
                      else Ok None) of
                  Err e \<Rightarrow> Err e
                | Ok keypair \<Rightarrow>
                    let su = \<lparr>su_topic = topic, su_node = node_id, su_cipher = keypair, su_receiver = receiver,
                              su_algorithm = algorithm, su_handler = True\<rparr> in
                    map_ok (\<lambda>_. su) (commands_subscribe cfg su))))"

text \<open>\<open>start\<close> on the command line; the configuration must name the chain before anything starts.\<close>

definition main_start ::
  "(string \<Rightarrow> string + string) \<Rightarrow> (string \<Rightarrow> string + Config_mqtt)
    \<Rightarrow> (BlockchainConfig_mqtt \<Rightarrow> SubscribeConfig \<Rightarrow> string + (string + unit)) \<Rightarrow> (BlockchainConfig_mqtt \<Rightarrow> PublishConfig \<Rightarrow> string + (string + unit))
    \<Rightarrow> string \<Rightarrow> (string + unit) \<times> string list" where
  "main_start read_to_string toml sub_end pub_end path =
     (case from_file read_to_string toml path of
        Err e \<Rightarrow> (Err e, [])
      | Ok cfg \<Rightarrow>
          if mq_blockchain cfg = None then (Err ''Configuration file must include [blockchain] section'', [])
          else bridge_start sub_end pub_end cfg)"

section \<open>Lemmas\<close>

text \<open>A receiver comes with a key and an algorithm; this is what the \<open>unreachable!\<close> relies on.\<close>

definition subscription_ok :: "Subscription \<Rightarrow> bool" where
  "subscription_ok su \<longleftrightarrow> (su_receiver su \<noteq> None \<longrightarrow> su_cipher su \<noteq> None \<and> su_algorithm su \<noteq> None)"

lemma subscribe_task_Ok:
  assumes "subscribe_task pairs ss58 hex_dec chain_cfg sub = Ok su"
  shows "subscription_ok su" "su_topic su = sub_topic sub" "su_node su = sub_node_id sub"
    "sub_receiver_public sub = None \<Longrightarrow> su_receiver su = None"
    "sub_receiver_public sub = Some addr \<Longrightarrow>
       (\<exists>receiver. parse_receiver_public_key ss58 hex_dec addr = Ok receiver \<and> su_receiver su = Some receiver)"
  using assms by (auto simp: subscribe_task_def subscription_ok_def Let_def split: option.splits sum.splits)

lemma main_subscribe_Ok:
  assumes "main_subscribe pairs ss58 hex_dec cfg suri topic node_id receiver_public cipher scheme = Ok su"
  shows "subscription_ok su" "su_topic su = topic" "su_node su = node_id"
  using assms by (auto simp: main_subscribe_def subscription_ok_def Let_def map_ok_def commands_subscribe_def
      split: option.splits sum.splits if_splits)

lemma node_data_ok:
  assumes "subscription_ok su"
  shows "node_data ops vec_enc su nonce payload \<noteq> None"
    and "node_data ops vec_enc su nonce payload = Some (Ok data) \<Longrightarrow>
      (case su_receiver su of
         None \<Rightarrow> data = from_utf8_lossy payload
       | Some receiver \<Rightarrow>
           \<exists>cipher algorithm message. su_cipher su = Some cipher \<and> su_algorithm su = Some algorithm \<and>
             encrypt ops nonce cipher payload receiver algorithm = Ok message \<and> data = scale_encode vec_enc message)"
  using assms by (auto simp: node_data_def subscription_ok_def map_ok_def split: option.splits sum.splits)

lemma set_payload_Ok:
  "set_payload node (Some data) = Ok tx \<Longrightarrow>
     tx_call tx = CallSetPayload node (Some data) \<and> length data \<le> MAX_PAYLOAD_SIZE"
  by (auto simp: set_payload_def new_transaction_def check_payload_Ok within_def split: sum.splits)

lemma submit_finalized_sent: "call \<in> set (snd (submit_finalized cps tx)) \<Longrightarrow> call = tx_call tx"
  by (auto simp: submit_finalized_def submit_def split: sum.splits)

lemma on_mqtt_event_ok:
  assumes "subscription_ok su"
  shows "\<exists>effects. on_mqtt_event ops vec_enc su env ev = Some effects"
proof (cases ev)
  case (IncomingPublish payload)
  then show ?thesis using node_data_ok(1) [OF assms, of ops vec_enc "snd env" payload]
    by (cases env) (auto simp: Let_def split: option.splits sum.splits)
qed simp_all

lemma on_mqtt_event_sent:
  assumes "on_mqtt_event ops vec_enc su (cps, nonce) ev = Some effects" and "Sent call \<in> set effects"
  shows "\<exists>payload data. ev = IncomingPublish payload \<and> node_data ops vec_enc su nonce payload = Some (Ok data) \<and>
    call = CallSetPayload (su_node su) (Some data) \<and> length data \<le> MAX_PAYLOAD_SIZE"
proof (cases ev)
  case (IncomingPublish payload)
  then show ?thesis using assms
    by (auto simp: Let_def split: option.splits sum.splits if_splits dest!: submit_finalized_sent dest: set_payload_Ok)
qed (use assms in auto)

lemma subscribe_run_ok: "subscription_ok su \<Longrightarrow> \<exists>effects. subscribe_run ops vec_enc su evs = Some effects"
proof (induction evs)
  case (Cons x evs)
  then show ?case using on_mqtt_event_ok [of su ops vec_enc "fst x" "snd x"] by (cases x) auto
qed simp

lemma subscribe_run_member:
  "subscribe_run ops vec_enc su evs = Some effects \<Longrightarrow> e \<in> set effects \<Longrightarrow>
     \<exists>env ev effs. (env, ev) \<in> set evs \<and> on_mqtt_event ops vec_enc su env ev = Some effs \<and> e \<in> set effs"
proof (induction evs arbitrary: effects)
  case (Cons x evs)
  obtain env ev where x: "x = (env, ev)" by (cases x)
  from Cons.prems(1) obtain e1 e2 where e: "on_mqtt_event ops vec_enc su env ev = Some e1"
    "subscribe_run ops vec_enc su evs = Some e2" "effects = e1 @ e2"
    by (auto simp: x split: option.splits)
  show ?case
  proof (cases "e \<in> set e1")
    case True
    then show ?thesis using e(1) x by (metis list.set_intros(1))
  next
    case False
    then have "e \<in> set e2" using Cons.prems(2) e(3) by simp
    from Cons.IH [OF e(2) this] show ?thesis by (metis list.set_intros(2))
  qed
qed simp

lemma on_update_published:
  assumes "Published t d \<in> set (on_update to_string topic handler answer u)"
  shows "t = topic \<and> (\<exists>change payload. u = Ok change \<and> wc_value change = Some payload \<and> to_string payload = Ok d)"
proof (cases u)
  case (Inr change)
  then show ?thesis using assms
    by (cases "wc_value change"; cases "to_string (the (wc_value change))"; cases answer) (auto simp: on_update_def split: if_splits)
qed (use assms in \<open>simp add: on_update_def\<close>)

lemma node_data_to_string_valid:
  assumes "\<forall>m s. json m = Ok s \<longrightarrow> valid_utf8 s" and "node_data_to_string ops vec_dec json utf8_error cipher data = Ok d"
  shows "valid_utf8 d"
  using assms by (auto simp: node_data_to_string_def Let_def map_err_Ok_iff split: option.splits sum.splits if_splits)

lemma encrypt_from: "encrypt ops nonce self plaintext receiver algorithm = Ok m \<Longrightarrow> message_from m = ss_public self"
  by (auto simp: encrypt_def split: sum.splits)

text \<open>Trimming leaves a prefix that begins and ends with visible characters.\<close>

lemma trim_prefix:
  assumes "p \<noteq> []" "\<not> ascii_space (hd p)" "\<not> ascii_space (last p)"
  shows "trim (p @ s) = p @ rev (dropWhile ascii_space (rev s))"
proof -
  have "dropWhile ascii_space (p @ s) = p @ s" "dropWhile ascii_space (rev p) = rev p"
    using assms by (cases p, auto) (cases p rule: rev_cases, auto)
  then show ?thesis by (auto simp: trim_def dropWhile_append dropWhile_eq_Nil_conv)
qed

text \<open>An encrypted connection is not told from a plain one.\<close>

lemma mqtts_is_plain: "parse_mqtt_url (''mqtts://'' @ s) = parse_mqtt_url (''mqtt://'' @ s)"
proof -
  have "trim (''mqtts://'' @ s) = ''mqtts://'' @ rev (dropWhile ascii_space (rev s))"
    "trim (''mqtt://'' @ s) = ''mqtt://'' @ rev (dropWhile ascii_space (rev s))"
    by (rule trim_prefix; simp add: ascii_space_def)+
  then show ?thesis by (simp add: parse_mqtt_url_def strip_prefix_def)
qed

text \<open>Tasks that end with an error leave no trace: the result is \<open>Ok\<close> and nothing is logged.\<close>

lemma failed_tasks_silent:
  "bridge_start (\<lambda>_ _. Ok (Err e)) (\<lambda>_ _. Ok (Err e')) cfg = (Ok (), []) \<or> mq_blockchain cfg = None"
proof (cases "mq_blockchain cfg")
  case (Some data)
  have "concat (map (case_sum f (\<lambda>_. [])) (map (\<lambda>_. Ok (Err e)) xs @ map (\<lambda>_. Ok (Err e')) ys)) = []"
    for f :: "string \<Rightarrow> string list" and xs :: "SubscribeConfig list" and ys :: "PublishConfig list"
    by simp
  then show ?thesis using Some by (simp add: bridge_start_def)
qed simp

lemma watcher_run_updates: "u \<in> set (watcher_run node field bs) \<Longrightarrow>
   (\<exists>e. u = Err e) \<or> (\<exists>b c. Ok b \<in> set bs \<and> change_in node field b = Ok (Some c) \<and> u = Ok c)"
proof (induction node field bs rule: watcher_run.induct)
  case (1 node field bs)
  obtain v rest where v: "watcher_next node field bs = Some (v, rest)" "u = v \<or> u \<in> set (watcher_run node field rest)"
    using "1.prems" watcher_run.simps [of node field bs] by (auto split: option.splits)
  have next_src: "(\<exists>e. v = Err e) \<or> (\<exists>b c. Ok b \<in> set bs \<and> change_in node field b = Ok (Some c) \<and> v = Ok c)"
    "set rest \<subseteq> set bs"
    using v(1) by (induction node field bs rule: watcher_next.induct) (auto split: sum.splits option.splits)
  show ?case
  proof (cases "u = v")
    case False
    then have "u \<in> set (watcher_run node field rest)" using v(2) by simp
    from "1.IH" [OF v(1) refl this] next_src(2) show ?thesis by blast
  qed (use next_src in blast)
qed

section \<open>Properties\<close>

text \<open>
  C30. What a configured subscription may write. A subscribe bridge started from its configuration never
  panics, whatever arrives, and each call it sends sets the payload of its own node, within the limit: to the
  text of a received message when no receiver is configured, and to an encryption of a received message for
  the configured receiver when one is, never to the message itself.
\<close>

theorem bridge_writes_as_configured:
  assumes "subscribe_task pairs ss58 hex_dec chain_cfg sub = Ok su"
  shows "\<exists>effects. subscribe_run ops vec_enc su evs = Some effects \<and>
    (\<forall>call. Sent call \<in> set effects \<longrightarrow>
       (\<exists>cps nonce payload data. ((cps, nonce), IncomingPublish payload) \<in> set evs \<and>
          call = CallSetPayload (sub_node_id sub) (Some data) \<and> length data \<le> MAX_PAYLOAD_SIZE \<and>
          (case sub_receiver_public sub of
             None \<Rightarrow> data = from_utf8_lossy payload
           | Some addr \<Rightarrow>
               \<exists>receiver cipher algorithm message.
                 parse_receiver_public_key ss58 hex_dec addr = Ok receiver \<and>
                 encrypt ops nonce cipher payload receiver algorithm = Ok message \<and>
                 data = scale_encode vec_enc message)))"
proof -
  note su = subscribe_task_Ok [OF assms]
  obtain effects where run: "subscribe_run ops vec_enc su evs = Some effects" using subscribe_run_ok [OF su(1)] by blast
  have "\<exists>cps nonce payload data. ((cps, nonce), IncomingPublish payload) \<in> set evs \<and>
      call = CallSetPayload (sub_node_id sub) (Some data) \<and> length data \<le> MAX_PAYLOAD_SIZE \<and>
      (case sub_receiver_public sub of
         None \<Rightarrow> data = from_utf8_lossy payload
       | Some addr \<Rightarrow>
           \<exists>receiver cipher algorithm message. parse_receiver_public_key ss58 hex_dec addr = Ok receiver \<and>
             encrypt ops nonce cipher payload receiver algorithm = Ok message \<and> data = scale_encode vec_enc message)"
    if sent: "Sent call \<in> set effects" for call
  proof -
    obtain cps nonce ev effs where ev: "((cps, nonce), ev) \<in> set evs"
      "on_mqtt_event ops vec_enc su (cps, nonce) ev = Some effs" "Sent call \<in> set effs"
      using subscribe_run_member [OF run sent] by (metis surj_pair)
    obtain payload data where d: "ev = IncomingPublish payload" "node_data ops vec_enc su nonce payload = Some (Ok data)"
      "call = CallSetPayload (su_node su) (Some data)" "length data \<le> MAX_PAYLOAD_SIZE"
      using on_mqtt_event_sent [OF ev(2,3)] by blast
    note nd = node_data_ok(2) [OF su(1) d(2)]
    show ?thesis
    proof (cases "sub_receiver_public sub")
      case None
      then show ?thesis using ev(1) d nd su(3,4) by fastforce
    next
      case (Some addr)
      then obtain receiver where "parse_receiver_public_key ss58 hex_dec addr = Ok receiver" "su_receiver su = Some receiver"
        using su(5) by blast
      then show ?thesis using ev(1) d nd su(3) Some by fastforce
    qed
  qed
  with run show ?thesis by blast
qed

text \<open>
  C31. Two bridges are inverse: what a subscribe bridge with Sr25519 encryption writes for a message, a
  publish bridge holding the receiver's key sends to its topic as the same bytes, if they are text, and it
  sends nothing if they are not; under every algorithm.
\<close>

theorem bridge_roundtrip:
  assumes "aead_ok ops" and "curve_ok cv (scheme_scalar Sr25519 sha512) public" and "vec_ok vec_enc vec_dec"
    and "length (public a) = 32" and "length nonce = nonce_size algorithm"
    and "su_cipher su = Some (signer Sr25519 sha512 cv public a)" and "su_receiver su = Some (public b)"
    and "su_algorithm su = Some algorithm"
    and "on_mqtt_event ops vec_enc su (cps, nonce) (IncomingPublish payload) = Some effects"
    and "Sent (CallSetPayload node (Some data)) \<in> set effects"
    and "wc_value change = Some data"
  shows "node = su_node su \<and>
    on_update (node_data_to_string ops vec_dec json utf8_error (Some (signer Sr25519 sha512 cv public b))) topic False (Ok ())
      (Ok change) = (if valid_utf8 payload then [Published topic payload] else [])"
proof -
  have nd: "node_data ops vec_enc su nonce payload = Some (Ok data)" "node = su_node su"
    using on_mqtt_event_sent [OF assms(9,10)] by auto
  then obtain m where m: "encrypt ops nonce (signer Sr25519 sha512 cv public a) payload (public b) algorithm = Ok m"
    "data = scale_encode vec_enc m"
    using assms(6-8) by (auto simp: node_data_def map_ok_def split: sum.splits)
  have "message_from m = public a" using encrypt_from [OF m(1)] by (simp add: signer_def)
  then have "scale_decode vec_dec data = Some m"
    using scale_decode_encode [OF assms(3), of m "[]"] assms(4) m(2) by simp
  moreover have "decrypt ops (signer Sr25519 sha512 cv public b) m None = Ok payload"
    using cipher_inverse [OF assms(1,2,5) m(1)] by blast
  ultimately have "node_data_to_string ops vec_dec json utf8_error (Some (signer Sr25519 sha512 cv public b)) data =
      (if valid_utf8 payload then Ok payload else Err (''Invalid UTF-8 character: '' @ utf8_error payload))"
    by (simp add: node_data_to_string_def map_err_def)
  then show ?thesis using nd(2) assms(11) by (simp add: on_update_def)
qed

text \<open>
  C32. What a publish bridge sends is text: every message it publishes goes to its own topic, is well-formed
  UTF-8, and comes from a payload that a finalized block stored for its node.
\<close>

theorem publish_sends_text:
  assumes "\<forall>m s. json m = Ok s \<longrightarrow> valid_utf8 s"
    and "publish_bridge rpc light (node_data_to_string ops vec_dec json utf8_error cipher) (Ok blocks) answers cfg
      chain_cfg topic node_id handler = (res, effects)"
    and "Published t d \<in> set effects"
  shows "res = Ok () \<and> t = topic \<and> valid_utf8 d \<and>
    (\<exists>b change payload. Ok b \<in> set blocks \<and> change_in node_id FieldPayload b = Ok (Some change) \<and>
       wc_value change = Some payload \<and> node_data_to_string ops vec_dec json utf8_error cipher payload = Ok d)"
proof -
  let ?ts = "node_data_to_string ops vec_dec json utf8_error cipher"
  let ?us = "watcher_run node_id FieldPayload blocks"
  have "res = Ok () \<and> effects = concat (map (\<lambda>(i, u). on_update ?ts topic handler (answers i) u) (zip [0..<length ?us] ?us))"
    using assms(2,3) by (auto simp: publish_bridge_def map_err_def Let_def split: sum.splits)
  then obtain i u where "res = Ok ()" "u \<in> set ?us" "Published t d \<in> set (on_update ?ts topic handler (answers i) u)"
    using assms(3) by (auto dest: set_zip_rightD)
  then show ?thesis
    using on_update_published watcher_run_updates node_data_to_string_valid [OF assms(1)] by (metis Inl_Inr_False sum.inject(2))
qed

end
