(* ===== verification/WitnessesBridge.thy ===== *)
theory WitnessesBridge
  imports WitnessesLibcps MqttBridge
begin

text \<open>Concrete inputs for the theorems on the MQTT bridge.\<close>

definition carol :: bytes where
  "carol = replicate 32 1"

definition sub0 :: SubscribeConfig where
  "sub0 = \<lparr>sub_topic = ''t'', sub_node_id = 5, sub_receiver_public = Some ''bob'', sub_cipher = None, sub_scheme = None\<rparr>"

abbreviation pairs0 :: "Scheme \<Rightarrow> string \<Rightarrow> string + SharedSecret" where
  "pairs0 \<equiv> \<lambda>scheme suri. Ok (signer Sr25519 sha512_0 curve0 (\<lambda>s. s) carol)"

definition chain0 :: BlockchainConfig_mqtt where
  "chain0 = \<lparr>bc_ws_url = None, bc_suri = Some ''//Carol''\<rparr>"

definition su0 :: Subscription where
  "su0 = \<lparr>su_topic = ''t'', su_node = 5, su_cipher = Some (signer Sr25519 sha512_0 curve0 (\<lambda>s. s) carol),
          su_receiver = Some [3], su_algorithm = Some XChaCha20Poly1305, su_handler = False\<rparr>"

lemma task0: "subscribe_task pairs0 (\<lambda>_. Ok [3]) hex_dec0 chain0 sub0 = Ok su0"
  by (simp add: subscribe_task_def sub0_def su0_def chain0_def parse_receiver_public_key_def algorithm_from_str_def
      crypto_scheme_from_str_def ascii_lower_def signer_from_suri_def map_err_def)

theorem bridge_writes_as_configured_witness:
  "\<exists>effects. subscribe_run cipher0 vec0 su0 [((cx0, replicate 24 0), IncomingPublish [104]), ((cx0, []), MqttError)] = Some effects \<and>
     (\<forall>call. Sent call \<in> set effects \<longrightarrow> (\<exists>data. call = CallSetPayload 5 (Some data)))"
proof -
  have five: "sub_node_id sub0 = 5" by (simp add: sub0_def)
  show ?thesis
    using bridge_writes_as_configured [OF task0, of cipher0 vec0
        "[((cx0, replicate 24 0), IncomingPublish [104]), ((cx0, []), MqttError)]"] five
    by metis
qed

definition message1 :: EncryptedMessage where
  "message1 = EncV1 XChaCha20Poly1305 carol (replicate 24 0)
     (projr (derive_key cipher0 XChaCha20Poly1305 (projr (ss_derive (signer Sr25519 sha512_0 curve0 (\<lambda>s. s) carol) [3]))) @ [104])"

lemma encrypt1:
  "encrypt cipher0 (replicate 24 0) (signer Sr25519 sha512_0 curve0 (\<lambda>s. s) carol) [104] [3] XChaCha20Poly1305 = Ok message1"
  by (simp add: encrypt_def signer_def sr_derive_shared_def curve0_def derive_key_def cipher0_def map_err_def message1_def)

lemma event1:
  assumes "length (scale_encode vec0 message1) \<le> MAX_PAYLOAD_SIZE"
  shows "on_mqtt_event cipher0 vec0 su0 (cx0, replicate 24 0) (IncomingPublish [104]) =
     Some [Sent (CallSetPayload 5 (Some (scale_encode vec0 message1)))]"
proof -
  have "node_data cipher0 vec0 su0 (replicate 24 0) [104] = Some (Ok (scale_encode vec0 message1))"
    using encrypt1 by (simp add: node_data_def su0_def map_ok_def)
  then show ?thesis using assms
    by (simp add: set_payload_def check_payload_def new_transaction_def submit_finalized_def submit_def
        check_precondition_def cx0_def map_err_def Let_def su0_def)
qed

lemma message1_small: "length (scale_encode vec0 message1) \<le> MAX_PAYLOAD_SIZE"
proof -
  have vec: "length (vec0 v) = 2 * length v + 1" for v by (induction v) (simp_all add: vec0_def)
  have "length (projr (derive_key cipher0 XChaCha20Poly1305
      (projr (ss_derive (signer Sr25519 sha512_0 curve0 (\<lambda>s. s) carol) [3])))) \<le> 200"
    by (simp add: derive_key_def cipher0_def signer_def sr_derive_shared_def curve0_def map_err_def as_bytes_def)
  then show ?thesis by (simp add: message1_def vec carol_def MAX_PAYLOAD_SIZE_def)
qed

theorem bridge_roundtrip_witness:
  "on_mqtt_event cipher0 vec0 su0 (cx0, replicate 24 0) (IncomingPublish [104]) =
     Some [Sent (CallSetPayload 5 (Some (scale_encode vec0 message1)))] \<and>
   on_update (node_data_to_string cipher0 unvec0 (\<lambda>_. Err []) (\<lambda>_. []) (Some (signer Sr25519 sha512_0 curve0 (\<lambda>s. s) [3]))) ''u''
     False (Ok ()) (Ok \<lparr>wc_block_hash = [], wc_block_number = 1, wc_value = Some (scale_encode vec0 message1)\<rparr>) =
     [Published ''u'' [104]]"
proof -
  note event = event1 [OF message1_small]
  have "length carol = 32" "length (replicate 24 (0 :: u8)) = nonce_size XChaCha20Poly1305"
    "su_cipher su0 = Some (signer Sr25519 sha512_0 curve0 (\<lambda>s. s) carol)" "su_receiver su0 = Some [3]"
    "su_algorithm su0 = Some XChaCha20Poly1305"
    by (simp_all add: carol_def su0_def)
  from bridge_roundtrip [OF cipher0_ok curve0_ok vec0_ok this event, of 5 "scale_encode vec0 message1"
      "\<lparr>wc_block_hash = [], wc_block_number = 1, wc_value = Some (scale_encode vec0 message1)\<rparr>"]
  show ?thesis using event by simp
qed

definition block0 :: block where
  "block0 = \<lparr>bl_hash = [1], bl_number = 1, bl_at = Ok (at0\<lparr>at_payload := (\<lambda>_. Ok (Some [104]))\<rparr>), bl_events = Ok ([], [5])\<rparr>"

definition mqtt0 :: Config_mqtt where
  "mqtt0 = \<lparr>mq_broker = ''mqtt://broker'', mq_username = None, mq_password = None, mq_client_id = None,
            mq_blockchain = None, mq_subscribe = [], mq_publish = []\<rparr>"

lemma broker0: "parse_mqtt_url ''mqtt://broker'' = Ok (''broker'', 1883)"
  by (simp add: parse_mqtt_url_def trim_def ascii_space_def strip_prefix_def split_once_def)

lemma publish0:
  "publish_bridge (\<lambda>_. Ok cx0) (Ok ''ws://light'') (node_data_to_string cipher0 unvec0 (\<lambda>_. Err []) (\<lambda>_. []) None) (Ok [Ok block0])
     (\<lambda>_. Ok ()) mqtt0 chain0 ''u'' 5 False = (Ok (), [Published ''u'' [104]])"
proof -
  have "change_in 5 FieldPayload block0 = Ok (Some \<lparr>wc_block_hash = [1], wc_block_number = 1, wc_value = Some [104]\<rparr>)"
    by (simp add: change_in_def block0_def read_payload_def map_err_def)
  then have "watcher_run 5 FieldPayload [Ok block0] =
      [Ok \<lparr>wc_block_hash = [1], wc_block_number = 1, wc_value = Some [104]\<rparr>]"
    by (simp add: watcher_run.simps)
  then show ?thesis
    by (simp add: publish_bridge_def connect_chain_def chain0_def mqtt0_def broker0 map_err_def on_update_def
        node_data_to_string_def scale_decode_def scale_decode_rest_def Let_def)
qed

theorem publish_sends_text_witness:
  "publish_bridge (\<lambda>_. Ok cx0) (Ok ''ws://light'') (node_data_to_string cipher0 unvec0 (\<lambda>_. Err []) (\<lambda>_. []) None) (Ok [Ok block0])
     (\<lambda>_. Ok ()) mqtt0 chain0 ''u'' 5 False = (Ok (), [Published ''u'' [104]]) \<and> valid_utf8 [104]"
proof -
  have "\<forall>m s. (\<lambda>_ :: EncryptedMessage. Err [] :: string + bytes) m = Ok s \<longrightarrow> valid_utf8 s" by simp
  from publish_sends_text [OF this publish0] publish0 show ?thesis by simp
qed

end
