(* ===== verification/LightNode.thy ===== *)
theory LightNode
  imports Config LibcpsError StdText
begin

text \<open>
  The embedded light node: \<open>crates/libcps/src/light/\<close>. Its configuration (\<open>config.rs\<close>), the chains it adds to
  smoldot (\<open>chain.rs\<close>), its life from \<open>start\<close> to \<open>shutdown\<close> with the monitor of the synchronization
  (\<open>node.rs\<close>, \<open>status.rs\<close>), and the JSON-RPC server with its relay (\<open>server.rs\<close>).

  Smoldot, sockets and JSON are parameters. The node is a step relation, a rule for each place where one of
  its tasks touches the shared state; the server and the relay run over lists of events.
\<close>

section \<open>Configuration\<close>

definition DEFAULT_LISTEN :: string where
  "DEFAULT_LISTEN = ''127.0.0.1:0''"

record LightNodeConfig =
  lc_listen :: string
  lc_allow_non_loopback :: bool
  lc_relay_chain_spec :: "string option"
  lc_parachain_spec :: "string option"
  lc_max_connections :: nat
  lc_max_pending_requests :: nat
  lc_max_subscriptions :: nat
  lc_max_message_size :: nat

definition default_light :: LightNodeConfig where
  "default_light =
     \<lparr>lc_listen = DEFAULT_LISTEN, lc_allow_non_loopback = False, lc_relay_chain_spec = None,
      lc_parachain_spec = None, lc_max_connections = 32, lc_max_pending_requests = 128,
      lc_max_subscriptions = 1024, lc_max_message_size = 8 * 1024 * 1024\<rparr>"

definition listen_on :: "string \<Rightarrow> LightNodeConfig \<Rightarrow> LightNodeConfig" where
  "listen_on value cfg = cfg\<lparr>lc_listen := value\<rparr>"

definition allow_non_loopback :: "bool \<Rightarrow> LightNodeConfig \<Rightarrow> LightNodeConfig" where
  "allow_non_loopback value cfg = cfg\<lparr>lc_allow_non_loopback := value\<rparr>"

definition max_connections :: "nat \<Rightarrow> LightNodeConfig \<Rightarrow> LightNodeConfig" where
  "max_connections value cfg = cfg\<lparr>lc_max_connections := value\<rparr>"

definition max_pending_requests :: "nat \<Rightarrow> LightNodeConfig \<Rightarrow> LightNodeConfig" where
  "max_pending_requests value cfg = cfg\<lparr>lc_max_pending_requests := value\<rparr>"

definition max_subscriptions :: "nat \<Rightarrow> LightNodeConfig \<Rightarrow> LightNodeConfig" where
  "max_subscriptions value cfg = cfg\<lparr>lc_max_subscriptions := value\<rparr>"

definition max_message_size :: "nat \<Rightarrow> LightNodeConfig \<Rightarrow> LightNodeConfig" where
  "max_message_size value cfg = cfg\<lparr>lc_max_message_size := value\<rparr>"

definition chain_specs :: "string \<Rightarrow> string \<Rightarrow> LightNodeConfig \<Rightarrow> LightNodeConfig" where
  "chain_specs relay_chain parachain cfg =
     cfg\<lparr>lc_relay_chain_spec := Some relay_chain, lc_parachain_spec := Some parachain\<rparr>"

text \<open>\<open>parse\<close> and \<open>show_addr\<close> are \<open>FromStr\<close> and \<open>Display\<close> of socket addresses.\<close>

definition listen_addr ::
  "(string \<Rightarrow> string + SocketAddr) \<Rightarrow> (SocketAddr \<Rightarrow> string) \<Rightarrow> LightNodeConfig \<Rightarrow> LightError + SocketAddr" where
  "listen_addr parse show_addr cfg =
     (case map_err (\<lambda>e. LightConfig (''listen address `'' @ lc_listen cfg @ ''`: '' @ e)) (parse (lc_listen cfg)) of
        Err e \<Rightarrow> Err e
      | Ok addr \<Rightarrow>
          if \<not> is_loopback (sa_ip addr) \<and> \<not> lc_allow_non_loopback cfg
          then Err (LightConfig (''listen address '' @ show_addr addr @
                 '' is not loopback; enable `allow_non_loopback` to expose the unauthenticated light node endpoint''))
          else if lc_max_connections cfg = 0 \<or> lc_max_pending_requests cfg = 0 \<or> lc_max_message_size cfg = 0
          then Err (LightConfig ''RPC limits must be non-zero'')
          else Ok addr)"

text \<open>\<open>relay\<close> and \<open>para\<close> are the embedded specifications.\<close>

definition specs :: "string \<Rightarrow> string \<Rightarrow> LightNodeConfig \<Rightarrow> string \<times> string" where
  "specs relay para cfg =
     (case lc_relay_chain_spec cfg of Some s \<Rightarrow> s | None \<Rightarrow> relay, case lc_parachain_spec cfg of Some s \<Rightarrow> s | None \<Rightarrow> para)"

fun is_unspecified :: "IpAddr \<Rightarrow> bool" where
  "is_unspecified (V4 a b c d) \<longleftrightarrow> a = 0 \<and> b = 0 \<and> c = 0 \<and> d = 0"
| "is_unspecified (V6 w) \<longleftrightarrow> w = 0"

fun localhost :: "IpAddr \<Rightarrow> IpAddr" where
  "localhost (V4 _ _ _ _) = V4 127 0 0 1"
| "localhost (V6 _) = V6 1"

definition rpc_url :: "(SocketAddr \<Rightarrow> string) \<Rightarrow> SocketAddr \<Rightarrow> string" where
  "rpc_url show_addr addr =
     (let ip = (if is_unspecified (sa_ip addr) then localhost (sa_ip addr) else sa_ip addr) in
      ''ws://'' @ show_addr \<lparr>sa_ip = ip, sa_port = sa_port addr\<rparr>)"

section \<open>The chains\<close>

datatype AddChainError = NoRelayChainFound | MultipleRelayChains | AddChainOther string

fun show_add_chain :: "AddChainError \<Rightarrow> string" where
  "show_add_chain NoRelayChainFound = ''Couldn't find relevant relay chain''"
| "show_add_chain MultipleRelayChains = ''Multiple relevant relay chains found''"
| "show_add_chain (AddChainOther e) = e"

definition add_chain_error :: "AddChainError \<Rightarrow> LightError" where
  "add_chain_error e =
     (case e of
        AddChainOther _ \<Rightarrow> LightInvalidChainSpec (show_add_chain e)
      | _ \<Rightarrow> LightBootstrap (show_add_chain e))"

text \<open>\<open>add_chain\<close> of smoldot: the client with the new chain, given the specification, the relay chains it may
  have and the limits of its JSON-RPC service, if it has one.\<close>

record ('c, 'i) chains =
  ch_client :: 'c
  ch_relay_chain :: 'i
  ch_parachain_spec :: string
  ch_max_pending_requests :: nat
  ch_max_subscriptions :: nat
  ch_monitored_parachain :: 'i

definition chains_start ::
  "('c \<Rightarrow> string \<Rightarrow> 'i list \<Rightarrow> (nat \<times> nat) option \<Rightarrow> AddChainError + 'c \<times> 'i) \<Rightarrow> 'c \<Rightarrow> string \<Rightarrow> string \<Rightarrow> LightNodeConfig
    \<Rightarrow> LightError + ('c, 'i) chains" where
  "chains_start add_chain client relay para cfg =
     (let (relay_spec, parachain_spec) = specs relay para cfg in
      case map_err add_chain_error (add_chain client relay_spec [] None) of
        Err e \<Rightarrow> Err e
      | Ok (c1, relay_chain) \<Rightarrow>
          (case map_err add_chain_error (add_chain c1 parachain_spec [relay_chain] None) of
             Err e \<Rightarrow> Err e
           | Ok (c2, monitored) \<Rightarrow>
               Ok \<lparr>ch_client = c2, ch_relay_chain = relay_chain, ch_parachain_spec = parachain_spec,
                   ch_max_pending_requests = lc_max_pending_requests cfg,
                   ch_max_subscriptions = lc_max_subscriptions cfg, ch_monitored_parachain = monitored\<rparr>))"

definition open_frontend ::
  "('c \<Rightarrow> string \<Rightarrow> 'i list \<Rightarrow> (nat \<times> nat) option \<Rightarrow> AddChainError + 'c \<times> 'i) \<Rightarrow> ('c, 'i) chains
    \<Rightarrow> LightError + 'i \<times> ('c, 'i) chains" where
  "open_frontend add_chain ch =
     (case map_err add_chain_error
             (add_chain (ch_client ch) (ch_parachain_spec ch) [ch_relay_chain ch]
                (Some (ch_max_pending_requests ch, ch_max_subscriptions ch))) of
        Err e \<Rightarrow> Err e
      | Ok (c, i) \<Rightarrow> Ok (i, ch\<lparr>ch_client := c\<rparr>))"

text \<open>Dropping a frontend removes its chain; \<open>remove_chain\<close> and \<open>rpc_request\<close> are smoldot's.\<close>

definition drop_frontend :: "('c \<Rightarrow> 'i \<Rightarrow> 'c) \<Rightarrow> 'i \<Rightarrow> ('c, 'i) chains \<Rightarrow> ('c, 'i) chains" where
  "drop_frontend remove_chain i ch = ch\<lparr>ch_client := remove_chain (ch_client ch) i\<rparr>"

definition frontend_request ::
  "('c \<Rightarrow> bytes \<Rightarrow> 'i \<Rightarrow> (string + unit) \<times> 'c) \<Rightarrow> bytes \<Rightarrow> 'i \<Rightarrow> ('c, 'i) chains \<Rightarrow> (string + unit) \<times> ('c, 'i) chains" where
  "frontend_request rpc_request request i ch =
     (let (answer, c) = rpc_request (ch_client ch) request i in (answer, ch\<lparr>ch_client := c\<rparr>))"

section \<open>Status\<close>

datatype LightStatus =
    Starting
  | RpcReady
  | Syncing u64 u64 u32
  | Ready
  | Stopped
  | Failed string

definition is_ready :: "LightStatus \<Rightarrow> bool" where
  "is_ready s \<longleftrightarrow> s = Ready"

definition is_terminal :: "LightStatus \<Rightarrow> bool" where
  "is_terminal s \<longleftrightarrow> (case s of Stopped \<Rightarrow> True | Failed _ \<Rightarrow> True | _ \<Rightarrow> False)"

fun show_status :: "LightStatus \<Rightarrow> string" where
  "show_status Starting = ''starting''"
| "show_status RpcReady = ''rpc-ready''"
| "show_status (Syncing finalized target peers) =
     ''syncing (finalized #'' @ show_nat (unat finalized) @ '', target #'' @ show_nat (unat target) @ '', '' @
     show_nat (unat peers) @ '' peers)''"
| "show_status Ready = ''ready''"
| "show_status Stopped = ''stopped''"
| "show_status (Failed reason) = ''failed: '' @ reason"

datatype Phase = PhaseConnecting | PhaseSyncing u64 u64 | PhaseReady

record LifecycleState =
  lf_phase :: Phase
  lf_num_peers :: u32

definition map_state :: "LifecycleState \<Rightarrow> LightStatus" where
  "map_state state =
     (case lf_phase state of
        PhaseConnecting \<Rightarrow> RpcReady
      | PhaseSyncing at target \<Rightarrow> Syncing at target (lf_num_peers state)
      | PhaseReady \<Rightarrow> Ready)"

text \<open>\<open>fail\<close>: the status of a node that is marked as failed.\<close>

definition fail_status :: "string \<Rightarrow> LightStatus \<Rightarrow> LightStatus" where
  "fail_status reason current = (if is_terminal current then current else Failed reason)"

section \<open>Starting\<close>

text \<open>\<open>bind\<close> gives the local address or the error of binding or of asking for it; \<open>setup\<close> is the blocking task
  that starts the chains, \<open>Err\<close> when it panicked.\<close>

definition light_start ::
  "(string \<Rightarrow> string + SocketAddr) \<Rightarrow> (SocketAddr \<Rightarrow> string) \<Rightarrow> (SocketAddr \<Rightarrow> string + SocketAddr)
    \<Rightarrow> (LightNodeConfig \<Rightarrow> string + (LightError + 'k)) \<Rightarrow> LightNodeConfig \<Rightarrow> LightError + SocketAddr \<times> string \<times> 'k" where
  "light_start parse show_addr bind setup cfg =
     (case listen_addr parse show_addr cfg of
        Err e \<Rightarrow> Err e
      | Ok listen \<Rightarrow>
          (case map_err (LightBind (show_addr listen)) (bind listen) of
             Err e \<Rightarrow> Err e
           | Ok addr \<Rightarrow>
               (case map_err LightBootstrap (setup cfg) of
                  Err e \<Rightarrow> Err e
                | Ok (Err e) \<Rightarrow> Err e
                | Ok (Ok ks) \<Rightarrow> Ok (addr, rpc_url show_addr addr, ks))))"

section \<open>The node\<close>

datatype Task = TaskRunning | TaskDone | TaskPanicked

text \<open>The state the tasks share, as \<open>start\<close> has created it when it spawns them.\<close>

record LightNode =
  nd_status :: LightStatus
  nd_stop :: bool
  nd_monitor :: Task
  nd_server :: Task
  nd_listening :: bool

definition spawned :: LightNode where
  "spawned =
     \<lparr>nd_status = Starting, nd_stop = False, nd_monitor = TaskRunning, nd_server = TaskRunning,
      nd_listening = False\<rparr>"

text \<open>One turn of \<open>monitor\<close> with a new state.\<close>

definition monitor_update :: "LifecycleState \<Rightarrow> LightNode \<Rightarrow> LightNode" where
  "monitor_update state nd =
     (let next = map_state state; current = nd_status nd in
      nd\<lparr>nd_status := (if current \<noteq> Starting \<and> \<not> is_terminal current \<and> current \<noteq> next then next else current)\<rparr>)"

text \<open>The end of \<open>start\<close>.\<close>

definition rpc_listening :: "LightNode \<Rightarrow> LightNode" where
  "rpc_listening nd =
     nd\<lparr>nd_status := (if nd_status nd = Starting then RpcReady else nd_status nd), nd_listening := True\<rparr>"

text \<open>The end of \<open>shutdown\<close>, when both tasks have been joined: the state and the result.\<close>

definition joined :: "LightNode \<Rightarrow> (LightError + unit) \<times> LightNode" where
  "joined nd =
     (if nd_monitor nd = TaskPanicked \<or> nd_server nd = TaskPanicked then Err (LightShutdown ''task panicked'') else Ok (),
      nd\<lparr>nd_status := (if is_terminal (nd_status nd) then nd_status nd else Stopped)\<rparr>)"

text \<open>A step is labelled with what happened.\<close>

datatype LightEvent =
    Listens
  | ChainState LifecycleState
  | MonitorEnds
  | MonitorPanics
  | ServerEnds
  | ServerPanics
  | StopRequested
  | TasksJoined

inductive light_step :: "LightNode \<Rightarrow> LightEvent \<Rightarrow> LightNode \<Rightarrow> bool" where
  listens: "\<not> nd_listening nd \<Longrightarrow> light_step nd Listens (rpc_listening nd)"
| lifecycle: "nd_monitor nd = TaskRunning \<Longrightarrow> light_step nd (ChainState state) (monitor_update state nd)"
| monitor_ends: "nd_monitor nd = TaskRunning \<Longrightarrow> light_step nd MonitorEnds (nd\<lparr>nd_monitor := TaskDone\<rparr>)"
| monitor_panics: "nd_monitor nd = TaskRunning \<Longrightarrow> light_step nd MonitorPanics (nd\<lparr>nd_monitor := TaskPanicked\<rparr>)"
| server_ends: "nd_server nd = TaskRunning \<Longrightarrow> nd_stop nd \<Longrightarrow> light_step nd ServerEnds (nd\<lparr>nd_server := TaskDone\<rparr>)"
| server_panics: "nd_server nd = TaskRunning \<Longrightarrow>
    light_step nd ServerPanics
      (nd\<lparr>nd_status := fail_status ''RPC server panicked'' (nd_status nd), nd_server := TaskDone\<rparr>)"
| stops: "nd_listening nd \<Longrightarrow> light_step nd StopRequested (nd\<lparr>nd_stop := True\<rparr>)"
| shutdown_done: "nd_listening nd \<Longrightarrow> nd_stop nd \<Longrightarrow> nd_monitor nd \<noteq> TaskRunning \<Longrightarrow> nd_server nd \<noteq> TaskRunning \<Longrightarrow>
    light_step nd TasksJoined (snd (joined nd))"

inductive_cases light_stepE: "light_step nd ev nd'"

text \<open>What happened so far, oldest first, and the state it led to.\<close>

inductive light_run :: "LightEvent list \<Rightarrow> LightNode \<Rightarrow> bool" where
  light_run_Nil: "light_run [] spawned"
| light_run_snoc: "light_run h nd \<Longrightarrow> light_step nd ev nd' \<Longrightarrow> light_run (h @ [ev]) nd'"

text \<open>Waiting on the status: the values the receiver sees, in order; the end of the list is the loss of the
  sender (\<open>closed\<close> is the text of that error).\<close>

fun wait_for :: "(LightStatus \<Rightarrow> bool) \<Rightarrow> LightStatus list \<Rightarrow> LightStatus option" where
  "wait_for p [] = None"
| "wait_for p (s # ss) = (if p s then Some s else wait_for p ss)"

definition wait_ready :: "string \<Rightarrow> LightStatus list \<Rightarrow> LightError + unit" where
  "wait_ready closed statuses =
     (case wait_for (\<lambda>s. is_ready s \<or> is_terminal s) statuses of
        None \<Rightarrow> Err (LightServer closed)
      | Some Ready \<Rightarrow> Ok ()
      | Some other \<Rightarrow> Err (LightServer (show_status other)))"

definition light_wait :: "string \<Rightarrow> LightStatus list \<Rightarrow> LightError + unit" where
  "light_wait closed statuses =
     (case wait_for is_terminal statuses of
        None \<Rightarrow> Err (LightServer closed)
      | Some (Failed reason) \<Rightarrow> Err (LightServer reason)
      | Some _ \<Rightarrow> Ok ())"

section \<open>The server\<close>

definition HANDSHAKE_TIMEOUT :: duration where
  "HANDSHAKE_TIMEOUT = from_secs 10"

definition ACCEPT_BACKOFF :: duration where
  "ACCEPT_BACKOFF = from_millis 100"

definition BUSY_CODE :: int where
  "BUSY_CODE = - 32000"

text \<open>The accept loop: \<open>sv_slots\<close> are the permits of the semaphore, \<open>sv_open\<close> the clients whose tasks run.\<close>

record 'p server =
  sv_slots :: nat
  sv_open :: "'p list"
  sv_running :: bool

definition new_server :: "nat \<Rightarrow> 'p server" where
  "new_server limit = \<lparr>sv_slots = limit, sv_open = [], sv_running = True\<rparr>"

datatype 'p ServeEvent = ServeShutdown | Accepted 'p | AcceptFailed string | ConnectionDone 'p

text \<open>One turn, with the pause it makes.\<close>

definition serve_step :: "'p ServeEvent \<Rightarrow> 'p server \<Rightarrow> 'p server \<times> duration" where
  "serve_step ev sv =
     (if \<not> sv_running sv then (sv, 0)
      else case ev of
             ServeShutdown \<Rightarrow> (sv\<lparr>sv_running := False, sv_open := [], sv_slots := sv_slots sv + length (sv_open sv)\<rparr>, 0)
           | Accepted peer \<Rightarrow>
               (if sv_slots sv = 0 then (sv, 0)
                else (sv\<lparr>sv_slots := sv_slots sv - 1, sv_open := sv_open sv @ [peer]\<rparr>, 0))
           | AcceptFailed _ \<Rightarrow> (sv, ACCEPT_BACKOFF)
           | ConnectionDone peer \<Rightarrow>
               (if peer \<in> set (sv_open sv)
                then (sv\<lparr>sv_slots := sv_slots sv + 1, sv_open := remove1 peer (sv_open sv)\<rparr>, 0)
                else (sv, 0)))"

definition serve :: "'p ServeEvent list \<Rightarrow> 'p server \<Rightarrow> 'p server" where
  "serve evs sv = fold (\<lambda>ev sv. fst (serve_step ev sv)) evs sv"

text \<open>A connection until its relay starts: the handshake (\<open>None\<close> when it timed out) and the session.\<close>

definition connection_setup :: "(string + 'w) option \<Rightarrow> string + (LightError + 'f) \<Rightarrow> ('w \<times> 'f) option" where
  "connection_setup handshake frontend =
     (case handshake of
        Some (Ok ws) \<Rightarrow> (case frontend of Ok (Ok f) \<Rightarrow> Some (ws, f) | _ \<Rightarrow> None)
      | _ \<Rightarrow> None)"

text \<open>The relay: each event with whether the frontend had room for a request and whether the client could be
  sent to. Binary messages are text in UTF-8.\<close>

datatype WsMessage = WsText bytes | WsBinary bytes | WsClose | WsOther

datatype RelayEvent =
    RelayShutdown
  | RelayIncoming "(string + WsMessage) option"
  | RelayResponse "bytes option"

datatype RelayEffect = ToFrontend bytes | ToClient bytes | CloseFrame

text \<open>What an incoming message asks: \<open>Some (Some request)\<close>, \<open>Some None\<close> to ignore it, \<open>None\<close> to end.\<close>

definition incoming_request :: "(string + WsMessage) option \<Rightarrow> bytes option option" where
  "incoming_request incoming =
     (case incoming of
        Some (Ok (WsText text)) \<Rightarrow> Some (Some text)
      | Some (Ok (WsBinary b)) \<Rightarrow> if valid_utf8 b then Some (Some b) else Some None
      | Some (Ok WsClose) \<Rightarrow> None
      | Some (Err _) \<Rightarrow> None
      | None \<Rightarrow> None
      | Some (Ok WsOther) \<Rightarrow> Some None)"

text \<open>The answer to a rejected request; the JSON library parses, reads the field \<open>id\<close> and renders.\<close>

definition busy_reply ::
  "(bytes \<Rightarrow> 'j option) \<Rightarrow> ('j \<Rightarrow> 'j option) \<Rightarrow> 'j \<Rightarrow> ('j \<Rightarrow> int \<Rightarrow> string \<Rightarrow> bytes) \<Rightarrow> bytes \<Rightarrow> bytes" where
  "busy_reply parse get_id null render request =
     render (case Option.bind (parse request) get_id of Some i \<Rightarrow> i | None \<Rightarrow> null) BUSY_CODE ''Too many pending requests''"

text \<open>One turn: what it does and whether the relay goes on.\<close>

definition relay_step :: "(bytes \<Rightarrow> bytes) \<Rightarrow> bool \<times> bool \<Rightarrow> RelayEvent \<Rightarrow> RelayEffect list \<times> bool" where
  "relay_step busy env ev =
     (let (room, sendable) = env in
      case ev of
        RelayShutdown \<Rightarrow> ([CloseFrame], False)
      | RelayIncoming incoming \<Rightarrow>
          (case incoming_request incoming of
             None \<Rightarrow> ([], False)
           | Some None \<Rightarrow> ([], True)
           | Some (Some request) \<Rightarrow> if room then ([ToFrontend request], True) else ([ToClient (busy request)], sendable))
      | RelayResponse None \<Rightarrow> ([], False)
      | RelayResponse (Some response) \<Rightarrow> ([ToClient response], sendable))"

fun relay :: "(bytes \<Rightarrow> bytes) \<Rightarrow> ((bool \<times> bool) \<times> RelayEvent) list \<Rightarrow> RelayEffect list" where
  "relay busy [] = []"
| "relay busy ((env, ev) # evs) =
     (let (effects, goes_on) = relay_step busy env ev in effects @ (if goes_on then relay busy evs else []))"

section \<open>Specification\<close>

text \<open>The request an event brings, the events that end the relay, and what an event means for the client.\<close>

fun request_in :: "RelayEvent \<Rightarrow> bytes option" where
  "request_in (RelayIncoming (Some (Ok (WsText t)))) = Some t"
| "request_in (RelayIncoming (Some (Ok (WsBinary b)))) = (if valid_utf8 b then Some b else None)"
| "request_in _ = None"

fun closing :: "RelayEvent \<Rightarrow> bool" where
  "closing RelayShutdown \<longleftrightarrow> True"
| "closing (RelayResponse None) \<longleftrightarrow> True"
| "closing (RelayIncoming None) \<longleftrightarrow> True"
| "closing (RelayIncoming (Some (Err _))) \<longleftrightarrow> True"
| "closing (RelayIncoming (Some (Ok WsClose))) \<longleftrightarrow> True"
| "closing _ \<longleftrightarrow> False"

definition queued :: "(bool \<times> bool) \<times> RelayEvent \<Rightarrow> bytes list" where
  "queued x = (case request_in (snd x) of Some r \<Rightarrow> if fst (fst x) then [r] else [] | None \<Rightarrow> [])"

definition relay_answered :: "(bytes \<Rightarrow> bytes) \<Rightarrow> (bool \<times> bool) \<times> RelayEvent \<Rightarrow> bytes list" where
  "relay_answered busy x =
     (case (request_in (snd x), snd x) of
        (Some r, _) \<Rightarrow> if fst (fst x) then [] else [busy r]
      | (None, RelayResponse (Some response)) \<Rightarrow> [response]
      | _ \<Rightarrow> [])"

text \<open>The relay ends with a closing event and when a message for the client cannot be sent.\<close>

definition ends :: "(bytes \<Rightarrow> bytes) \<Rightarrow> (bool \<times> bool) \<times> RelayEvent \<Rightarrow> bool" where
  "ends busy x \<longleftrightarrow> closing (snd x) \<or> relay_answered busy x \<noteq> [] \<and> \<not> snd (fst x)"

definition turns :: "(bytes \<Rightarrow> bytes) \<Rightarrow> ((bool \<times> bool) \<times> RelayEvent) list \<Rightarrow> ((bool \<times> bool) \<times> RelayEvent) list" where
  "turns busy xs = takeWhile (Not \<circ> ends busy) xs @ take 1 (dropWhile (Not \<circ> ends busy) xs)"

text \<open>The busy answer: the identifier of the request, or null if it has none.\<close>

definition too_many ::
  "(bytes \<Rightarrow> 'j option) \<Rightarrow> ('j \<Rightarrow> 'j option) \<Rightarrow> 'j \<Rightarrow> ('j \<Rightarrow> int \<Rightarrow> string \<Rightarrow> bytes) \<Rightarrow> bytes \<Rightarrow> bytes" where
  "too_many parse get_id null render request =
     (case parse request of
        None \<Rightarrow> render null (- 32000) ''Too many pending requests''
      | Some j \<Rightarrow>
          (case get_id j of
             None \<Rightarrow> render null (- 32000) ''Too many pending requests''
           | Some i \<Rightarrow> render i (- 32000) ''Too many pending requests''))"

definition to_frontend :: "RelayEffect list \<Rightarrow> bytes list" where
  "to_frontend effects = concat (map (\<lambda>e. case e of ToFrontend r \<Rightarrow> [r] | _ \<Rightarrow> []) effects)"

definition to_client :: "RelayEffect list \<Rightarrow> bytes list" where
  "to_client effects = concat (map (\<lambda>e. case e of ToClient r \<Rightarrow> [r] | _ \<Rightarrow> []) effects)"

text \<open>The status that a history explains: the first end decides; before, the last state of the chain since the
  endpoint listens.\<close>

fun status_shown :: "Phase \<Rightarrow> u32 \<Rightarrow> LightStatus" where
  "status_shown PhaseConnecting _ = RpcReady"
| "status_shown (PhaseSyncing at target) peers = Syncing at target peers"
| "status_shown PhaseReady _ = Ready"

fun chain_states :: "LightEvent list \<Rightarrow> LightStatus list" where
  "chain_states [] = []"
| "chain_states (ChainState state # h) = status_shown (lf_phase state) (lf_num_peers state) # chain_states h"
| "chain_states (_ # h) = chain_states h"

definition reported :: "LightEvent list \<Rightarrow> LightStatus" where
  "reported h =
     (case filter (\<lambda>ev. ev = ServerPanics \<or> ev = TasksJoined) h of
        ev # _ \<Rightarrow> if ev = ServerPanics then Failed ''RPC server panicked'' else Stopped
      | [] \<Rightarrow>
          if Listens \<notin> set h then Starting
          else last (RpcReady # chain_states (dropWhile (\<lambda>ev. ev \<noteq> Listens) h)))"

text \<open>The invariant of the node: it has a status other than \<open>Starting\<close> once the endpoint listens; \<open>Failed\<close> and
  \<open>Stopped\<close> mean that the server has ended; \<open>Stopped\<close> only after a request and when both tasks have ended.\<close>

definition light_ok :: "LightNode \<Rightarrow> bool" where
  "light_ok nd \<longleftrightarrow>
     (nd_listening nd \<longrightarrow> nd_status nd \<noteq> Starting) \<and>
     (\<not> nd_listening nd \<longrightarrow> nd_status nd = Starting \<or> is_terminal (nd_status nd)) \<and>
     (is_terminal (nd_status nd) \<longrightarrow> nd_server nd \<noteq> TaskRunning) \<and>
     (nd_status nd = Stopped \<longrightarrow> nd_stop nd \<and> nd_listening nd \<and> nd_monitor nd \<noteq> TaskRunning) \<and>
     (\<forall>reason. nd_status nd = Failed reason \<longrightarrow> reason = ''RPC server panicked'')"

section \<open>Lemmas\<close>

lemmas light_defs = rpc_listening_def monitor_update_def joined_def fail_status_def is_terminal_def map_state_def Let_def

lemma light_ok_spawned: "light_ok spawned"
  by (simp add: light_ok_def spawned_def is_terminal_def)

lemma light_ok_step: "light_step nd ev nd' \<Longrightarrow> light_ok nd \<Longrightarrow> light_ok nd'"
  by (erule light_stepE)
    (auto simp: light_ok_def light_defs split: LightStatus.splits Phase.splits if_splits)

lemma light_ok_run: "light_run h nd \<Longrightarrow> light_ok nd"
  by (induction rule: light_run.induct) (auto intro: light_ok_spawned light_ok_step)

lemma terminal_final: "light_step nd ev nd' \<Longrightarrow> is_terminal (nd_status nd) \<Longrightarrow> nd_status nd' = nd_status nd"
  by (erule light_stepE) (auto simp: light_defs split: LightStatus.splits)

lemma chain_states_append [simp]: "chain_states (h @ h') = chain_states h @ chain_states h'"
  by (induction h rule: chain_states.induct) auto

lemma map_state_shown: "map_state state = status_shown (lf_phase state) (lf_num_peers state)"
  by (simp add: map_state_def split: Phase.splits)

text \<open>What one more event changes.\<close>

lemma reported_snoc:
  "reported (h @ [ev]) =
     (if ServerPanics \<in> set h \<or> TasksJoined \<in> set h then reported h
      else case ev of
             ServerPanics \<Rightarrow> Failed ''RPC server panicked''
           | TasksJoined \<Rightarrow> Stopped
           | Listens \<Rightarrow> if Listens \<in> set h then reported h else RpcReady
           | ChainState state \<Rightarrow> if Listens \<in> set h then map_state state else Starting
           | _ \<Rightarrow> reported h)"
proof (cases "ServerPanics \<in> set h \<or> TasksJoined \<in> set h")
  case True
  then have "filter (\<lambda>ev. ev = ServerPanics \<or> ev = TasksJoined) h \<noteq> []" by (auto simp: filter_empty_conv)
  then show ?thesis using True by (auto simp: reported_def neq_Nil_conv)
next
  case False
  then have none: "filter (\<lambda>ev. ev = ServerPanics \<or> ev = TasksJoined) h = []" by (auto simp: filter_empty_conv)
  show ?thesis
  proof (cases "Listens \<in> set h")
    case True
    then have "dropWhile (\<lambda>ev. ev \<noteq> Listens) (h @ [ev]) = dropWhile (\<lambda>ev. ev \<noteq> Listens) h @ [ev]"
      by (induction h) auto
    then show ?thesis using True False none by (cases ev) (auto simp: reported_def map_state_shown)
  next
    case no: False
    then have "dropWhile (\<lambda>ev. ev \<noteq> Listens) (h @ [Listens]) = [Listens]" by (induction h) auto
    then show ?thesis using no False none by (cases ev) (auto simp: reported_def)
  qed
qed

lemma run_explained:
  "light_run h nd \<Longrightarrow> nd_status nd = reported h \<and> (nd_listening nd \<longleftrightarrow> Listens \<in> set h) \<and>
     (nd_stop nd \<longleftrightarrow> StopRequested \<in> set h) \<and>
     (ServerPanics \<in> set h \<or> TasksJoined \<in> set h \<longleftrightarrow> is_terminal (nd_status nd))"
proof (induction rule: light_run.induct)
  case light_run_Nil
  then show ?case by (simp add: spawned_def reported_def is_terminal_def)
next
  case (light_run_snoc h nd ev nd')
  have ok: "light_ok nd" using light_run_snoc.hyps(1) by (rule light_ok_run)
  have rep: "reported (h @ [ev]) =
     (if is_terminal (nd_status nd) then nd_status nd
      else case ev of
             ServerPanics \<Rightarrow> Failed ''RPC server panicked''
           | TasksJoined \<Rightarrow> Stopped
           | Listens \<Rightarrow> if nd_listening nd then nd_status nd else RpcReady
           | ChainState state \<Rightarrow> if nd_listening nd then map_state state else Starting
           | _ \<Rightarrow> nd_status nd)"
    unfolding reported_snoc using light_run_snoc.IH by (cases ev) simp_all
  have ends: "ServerPanics \<in> set (h @ [ev]) \<or> TasksJoined \<in> set (h @ [ev]) \<longleftrightarrow>
      is_terminal (nd_status nd) \<or> ev = ServerPanics \<or> ev = TasksJoined"
    and marks: "Listens \<in> set (h @ [ev]) \<longleftrightarrow> nd_listening nd \<or> ev = Listens"
      "StopRequested \<in> set (h @ [ev]) \<longleftrightarrow> nd_stop nd \<or> ev = StopRequested"
    using light_run_snoc.IH by auto
  have shown: "\<not> is_terminal (map_state state)" "\<not> is_terminal RpcReady" "is_terminal Stopped"
    "is_terminal (Failed reason)" "\<not> is_terminal Starting" for state reason
    by (simp_all add: map_state_def is_terminal_def split: Phase.splits)
  show ?case
    unfolding rep ends marks
    using light_run_snoc.hyps(2) ok
    by (cases rule: light_stepE)
      (simp_all add: light_ok_def rpc_listening_def monitor_update_def joined_def fail_status_def Let_def shown, auto simp: shown)
qed

text \<open>A state that arrives before the endpoint listens is lost: the node reports \<open>rpc-ready\<close> although the chain is
  ready, until the chain reports something else.\<close>

lemma early_state_lost:
  "\<exists>nd. light_run [ChainState \<lparr>lf_phase = PhaseReady, lf_num_peers = 3\<rparr>, Listens] nd \<and> nd_status nd = RpcReady"
proof -
  let ?a = "monitor_update \<lparr>lf_phase = PhaseReady, lf_num_peers = 3\<rparr> spawned"
  have "light_run ([] @ [ChainState \<lparr>lf_phase = PhaseReady, lf_num_peers = 3\<rparr>]) ?a"
    by (rule light_run_snoc [OF light_run_Nil lifecycle]) (simp add: spawned_def)
  moreover have "\<not> nd_listening ?a" by (simp add: monitor_update_def spawned_def Let_def)
  ultimately have "light_run [ChainState \<lparr>lf_phase = PhaseReady, lf_num_peers = 3\<rparr>, Listens] (rpc_listening ?a)"
    using light_run_snoc [OF _ listens] by fastforce
  moreover have "nd_status (rpc_listening ?a) = RpcReady" by (simp add: light_defs spawned_def)
  ultimately show ?thesis by blast
qed

lemma wait_for_Some: "wait_for p ss = Some s \<Longrightarrow> s \<in> set ss \<and> p s"
  by (induction ss) (auto split: if_splits)

definition server_ok :: "nat \<Rightarrow> 'p server \<Rightarrow> bool" where
  "server_ok limit sv \<longleftrightarrow> sv_slots sv + length (sv_open sv) = limit \<and> (sv_running sv \<or> sv_open sv = [])"

lemma server_ok_step: "server_ok limit sv \<Longrightarrow> server_ok limit (fst (serve_step ev sv))"
  by (cases ev) (auto simp: server_ok_def serve_step_def length_remove1 dest: length_pos_if_in_set)

lemma server_ok_serve: "server_ok limit sv \<Longrightarrow> server_ok limit (serve evs sv)"
  by (induction evs arbitrary: sv) (simp_all add: serve_def server_ok_step)

lemma incoming_request_cases:
  "incoming_request incoming =
     (if closing (RelayIncoming incoming) then None else Some (request_in (RelayIncoming incoming)))"
  by (auto simp: incoming_request_def split: option.splits sum.splits WsMessage.splits)

lemma relay_effects:
  "to_frontend (fst (relay_step busy env ev)) = queued (env, ev)"
  "to_client (fst (relay_step busy env ev)) = relay_answered busy (env, ev)"
  "CloseFrame \<in> set (fst (relay_step busy env ev)) \<longleftrightarrow> ev = RelayShutdown"
  "snd (relay_step busy env ev) \<longleftrightarrow> \<not> ends busy (env, ev)"
proof -
  have none: "request_in ev = None" if "closing ev" for ev using that by (induction ev rule: closing.induct) auto
  note defs = relay_step_def incoming_request_cases to_frontend_def to_client_def queued_def relay_answered_def ends_def
  have "to_frontend (fst (relay_step busy env ev)) = queued (env, ev) \<and>
      to_client (fst (relay_step busy env ev)) = relay_answered busy (env, ev) \<and>
      (CloseFrame \<in> set (fst (relay_step busy env ev)) \<longleftrightarrow> ev = RelayShutdown) \<and>
      (snd (relay_step busy env ev) \<longleftrightarrow> \<not> ends busy (env, ev))"
  proof (cases ev)
    case (RelayIncoming incoming)
    then show ?thesis using none [of ev]
      by (cases env; cases "closing ev"; cases "request_in ev"; cases "fst env") (simp_all add: defs)
  next
    case (RelayResponse response)
    then show ?thesis by (cases env; cases response) (simp_all add: defs)
  qed (cases env; simp add: defs)
  then show "to_frontend (fst (relay_step busy env ev)) = queued (env, ev)"
    "to_client (fst (relay_step busy env ev)) = relay_answered busy (env, ev)"
    "CloseFrame \<in> set (fst (relay_step busy env ev)) \<longleftrightarrow> ev = RelayShutdown"
    "snd (relay_step busy env ev) \<longleftrightarrow> \<not> ends busy (env, ev)" by blast+
qed

lemma turns_simps [simp]:
  "turns busy [] = []"
  "turns busy (x # xs) = x # (if ends busy x then [] else turns busy xs)"
  by (simp_all add: turns_def)

lemma busy_reply_too_many: "busy_reply parse get_id null render = too_many parse get_id null render"
  by (auto simp: fun_eq_iff busy_reply_def too_many_def BUSY_CODE_def split: option.splits)

lemma to_append [simp]: "to_frontend (xs @ ys) = to_frontend xs @ to_frontend ys" "to_client (xs @ ys) = to_client xs @ to_client ys"
  by (simp_all add: to_frontend_def to_client_def)

section \<open>Properties\<close>

text \<open>
  C33. The status of a light node is explained by its history. Whatever the interleaving of start, monitor, server,
  failures and shutdown: before the endpoint listens the status is \<open>starting\<close>; then it is the last state the chain
  reported since the endpoint listens, \<open>rpc-ready\<close> if there was none (a state that came earlier does not count);
  the panic of the server makes it \<open>failed\<close>, the end of the shutdown \<open>stopped\<close>, whichever comes first, and neither
  is left again. \<open>stopped\<close> needs a request to stop and both tasks ended.
\<close>

theorem light_node_lifecycle:
  assumes "light_run h nd"
  shows "nd_status nd = reported h \<and> light_ok nd \<and>
    (nd_listening nd \<longleftrightarrow> Listens \<in> set h) \<and>
    (nd_status nd = Stopped \<longrightarrow> StopRequested \<in> set h \<and> nd_monitor nd \<noteq> TaskRunning \<and> nd_server nd \<noteq> TaskRunning) \<and>
    (\<forall>ev nd'. light_step nd ev nd' \<and> is_terminal (nd_status nd) \<longrightarrow> nd_status nd' = nd_status nd)"
  using run_explained [OF assms] light_ok_run [OF assms] terminal_final by (auto simp: light_ok_def is_terminal_def)

text \<open>
  C34. The relay is transparent. Over any events it takes part in those up to the first that ends it: shutdown, the
  end or an error of either side, a close message, or a message for the client that cannot be sent. In these the
  frontend gets exactly the requests (text, and binary messages that are UTF-8) for which there was room,
  unchanged and in order; for the client are exactly the responses and, for each other request, an error with
  code -32000 and the identifier of the request, in order; and a close frame is sent exactly at shutdown.
\<close>

theorem relay_transparent:
  "to_frontend (relay (busy_reply parse get_id null render) evs) =
     concat (map queued (turns (too_many parse get_id null render) evs)) \<and>
   to_client (relay (busy_reply parse get_id null render) evs) =
     concat (map (relay_answered (too_many parse get_id null render)) (turns (too_many parse get_id null render) evs)) \<and>
   (CloseFrame \<in> set (relay (busy_reply parse get_id null render) evs) \<longleftrightarrow>
     RelayShutdown \<in> snd ` set (turns (too_many parse get_id null render) evs))"
proof -
  have "to_frontend (relay busy evs) = concat (map queued (turns busy evs)) \<and>
      to_client (relay busy evs) = concat (map (relay_answered busy) (turns busy evs)) \<and>
      (CloseFrame \<in> set (relay busy evs) \<longleftrightarrow> RelayShutdown \<in> snd ` set (turns busy evs))" for busy
  proof (induction busy evs rule: relay.induct)
    case (2 busy env ev evs)
    obtain effects goes_on where step: "relay_step busy env ev = (effects, goes_on)" by fastforce
    with relay_effects [of busy env ev] 2 [OF step [symmetric] refl] show ?case
      by (cases goes_on) (auto simp: to_frontend_def [of "[]"] to_client_def [of "[]"])
  qed (simp add: to_frontend_def to_client_def)
  then show ?thesis unfolding busy_reply_too_many .
qed

text \<open>
  The endpoint stays local and bounded: a node that starts listens on a loopback address unless the
  configuration allows another, with non-zero limits; and over any events the server never serves more clients
  than its limit, and none after shutdown.
\<close>

lemma light_endpoint_guarded:
  assumes "\<forall>a b. bind a = Ok b \<longrightarrow> sa_ip b = sa_ip a"
    and "light_start parse show_addr bind setup cfg = Ok (addr, url, ks)"
  shows "(is_loopback (sa_ip addr) \<or> lc_allow_non_loopback cfg) \<and> url = rpc_url show_addr addr \<and>
    0 < lc_max_connections cfg \<and>
    server_ok (lc_max_connections cfg) (serve evs (new_server (lc_max_connections cfg)))"
proof -
  obtain listen where "listen_addr parse show_addr cfg = Ok listen" "bind listen = Ok addr" "url = rpc_url show_addr addr"
    using assms(2) by (auto simp: light_start_def map_err_def split: sum.splits)
  then have start: "is_loopback (sa_ip addr) \<or> lc_allow_non_loopback cfg" "url = rpc_url show_addr addr"
    "0 < lc_max_connections cfg"
    using assms(1) by (auto simp: listen_addr_def split: sum.splits if_splits)
  have "server_ok (lc_max_connections cfg) (new_server (lc_max_connections cfg))" by (simp add: server_ok_def new_server_def)
  with start server_ok_serve show ?thesis by blast
qed

end
