(* ===== verification/WitnessesLight.thy ===== *)
theory WitnessesLight
  imports LightNode
begin

text \<open>Concrete inputs for the theorems on the light node.\<close>

theorem light_node_lifecycle_witness:
  "\<exists>nd. light_run [ChainState \<lparr>lf_phase = PhaseReady, lf_num_peers = 3\<rparr>, Listens,
     ChainState \<lparr>lf_phase = PhaseSyncing 4 9, lf_num_peers = 2\<rparr>] nd \<and> nd_status nd = Syncing 4 9 2"
proof -
  let ?ready = "ChainState \<lparr>lf_phase = PhaseReady, lf_num_peers = 3\<rparr>"
  let ?syncing = "\<lparr>lf_phase = PhaseSyncing 4 9, lf_num_peers = 2\<rparr>"
  let ?nd = "rpc_listening (monitor_update \<lparr>lf_phase = PhaseReady, lf_num_peers = 3\<rparr> spawned)"
  have "light_run [?ready] (monitor_update \<lparr>lf_phase = PhaseReady, lf_num_peers = 3\<rparr> spawned)"
    using light_run_snoc [OF light_run_Nil lifecycle, of "\<lparr>lf_phase = PhaseReady, lf_num_peers = 3\<rparr>"]
    by (simp add: spawned_def)
  then have "light_run ([?ready] @ [Listens]) ?nd"
    by (rule light_run_snoc [OF _ listens]) (simp add: monitor_update_def spawned_def Let_def)
  moreover have "nd_monitor ?nd = TaskRunning" by (simp add: rpc_listening_def monitor_update_def spawned_def Let_def)
  ultimately have run: "light_run (([?ready] @ [Listens]) @ [ChainState ?syncing]) (monitor_update ?syncing ?nd)"
    by (intro light_run_snoc [OF _ lifecycle])
  from light_node_lifecycle [OF run] have "nd_status (monitor_update ?syncing ?nd) = Syncing 4 9 2"
    by (simp add: reported_def)
  with run show ?thesis by (metis append_Cons append_Nil)
qed

definition loopback0 :: SocketAddr where
  "loopback0 = \<lparr>sa_ip = V4 127 0 0 1, sa_port = 0\<rparr>"

end
