(* ===== verification/CliFormat.thy ===== *)
theory CliFormat
  imports Protocol LibcpsError
begin

text \<open>
  What the commands of the \<open>edge\<close> command line share (\<open>cli/mod.rs\<close>, \<open>cli/format.rs\<close>): errors with their exit
  codes, output, and the textual forms of bytes. A command (an \<open>io\<close>) gives the list of what it wrote and its result;
  the result is \<open>None\<close> when it panicked. \<open>println!\<close> panics when standard output cannot be written, a
  \<open>write_all\<close> fails with an error instead; writing to standard error is taken to succeed. Colours are a
  parameter, hexadecimal and base64 coding too.
\<close>

section \<open>Commands, output and exit codes\<close>

record CliError =
  ce_code :: nat
  ce_message :: string

definition runtime :: "string \<Rightarrow> CliError" where
  "runtime message = \<lparr>ce_code = 1, ce_message = message\<rparr>"

definition usage :: "string \<Rightarrow> CliError" where
  "usage message = \<lparr>ce_code = 2, ce_message = message\<rparr>"

definition with_code :: "nat \<Rightarrow> string \<Rightarrow> CliError" where
  "with_code code message = \<lparr>ce_code = code, ce_message = message\<rparr>"

datatype out = Stdout bytes | Stderr string

type_synonym ('o, 'e, 'a) io = "'o list \<times> ('e + 'a) option"

type_synonym 'a cmd = "(out, CliError, 'a) io"

type_synonym CliResult = "unit cmd"

text \<open>The process as a command meets it: standard input, whether standard output is a terminal, the error
  that writing to it gives, if any, and the colours.\<close>

record cli_env =
  ce_stdin :: "string + bytes"
  ce_terminal :: bool
  ce_stdout :: "string option"
  ce_bold :: "string \<Rightarrow> string"
  ce_dim :: "string \<Rightarrow> string"
  ce_label :: "string \<Rightarrow> string"
  ce_green :: "string \<Rightarrow> string"
  ce_red :: "string \<Rightarrow> string"

definition of_result :: "'e + 'a \<Rightarrow> ('o, 'e, 'a) io" where
  "of_result r = ([], Some r)"

definition finish :: "('o, 'e, unit) io" where
  "finish = of_result (Ok ())"

text \<open>The operator \<open>?\<close>, on results and on commands, and sequencing.\<close>

definition and_then :: "'e + 'a \<Rightarrow> ('a \<Rightarrow> 'e + 'b) \<Rightarrow> 'e + 'b" where
  "and_then r f = (case r of Err e \<Rightarrow> Err e | Ok x \<Rightarrow> f x)"

definition cmd_bind :: "('o, 'e, 'a) io \<Rightarrow> ('a \<Rightarrow> ('o, 'e, 'b) io) \<Rightarrow> ('o, 'e, 'b) io" where
  "cmd_bind m f =
     (case snd m of
        Some (Ok x) \<Rightarrow> (fst m @ fst (f x), snd (f x))
      | Some (Err e) \<Rightarrow> (fst m, Some (Err e))
      | None \<Rightarrow> (fst m, None))"

definition cmd_seq :: "('o, 'e, unit) io \<Rightarrow> ('o, 'e, 'b) io \<Rightarrow> ('o, 'e, 'b) io" where
  "cmd_seq m k = cmd_bind m (\<lambda>_. k)"

fun cmd_all :: "CliResult list \<Rightarrow> CliResult" where
  "cmd_all [] = finish"
| "cmd_all (c # cs) = cmd_seq c (cmd_all cs)"

definition println :: "cli_env \<Rightarrow> string \<Rightarrow> CliResult" where
  "println env s =
     (case ce_stdout env of None \<Rightarrow> ([Stdout (as_bytes s @ [10])], Some (Ok ())) | Some _ \<Rightarrow> ([], None))"

definition print_str :: "cli_env \<Rightarrow> string \<Rightarrow> CliResult" where
  "print_str env s =
     (case ce_stdout env of None \<Rightarrow> ([Stdout (as_bytes s)], Some (Ok ())) | Some _ \<Rightarrow> ([], None))"

definition eprintln :: "string \<Rightarrow> CliResult" where
  "eprintln s = ([Stderr s], Some (Ok ()))"

definition write_stdout :: "cli_env \<Rightarrow> bytes \<Rightarrow> CliResult" where
  "write_stdout env bytes =
     (case ce_stdout env of
        None \<Rightarrow> ([Stdout bytes], Some (Ok ()))
      | Some e \<Rightarrow> ([], Some (Err (runtime (''failed to write stdout: '' @ e)))))"

definition read_stdin :: "cli_env \<Rightarrow> CliError + bytes" where
  "read_stdin env = map_err (\<lambda>e. runtime (''failed to read stdin: '' @ e)) (ce_stdin env)"

text \<open>What \<open>run\<close> makes of a command's result; a panic ends the process with the code 101.\<close>

definition exit_status :: "CliResult \<Rightarrow> out list \<times> nat" where
  "exit_status m =
     (case snd m of
        Some (Ok _) \<Rightarrow> (fst m, 0)
      | Some (Err err) \<Rightarrow> (fst m @ [Stderr (''error: '' @ ce_message err)], ce_code err)
      | None \<Rightarrow> (fst m, 101))"

definition protocol_err :: "ProtocolError \<Rightarrow> CliError" where
  "protocol_err err = with_code (nat (exit_code err)) (show_protocol_error err)"

text \<open>\<open>slice::split\<close> and \<open>str::split\<close> on a byte.\<close>

fun split_on :: "'a \<Rightarrow> 'a list \<Rightarrow> 'a list list" where
  "split_on c [] = [[]]"
| "split_on c (b # bs) = (if b = c then [] # split_on c bs else (b # hd (split_on c bs)) # List.tl (split_on c bs))"

text \<open>\<open>[String]::join\<close> and \<open>str::trim_end\<close>.\<close>

fun join_with :: "string \<Rightarrow> string list \<Rightarrow> string" where
  "join_with sep [] = []"
| "join_with sep [s] = s"
| "join_with sep (s # t # ss) = s @ sep @ join_with sep (t # ss)"

definition trim_end :: "string \<Rightarrow> string" where
  "trim_end s = rev (dropWhile ascii_space (rev s))"

section \<open>Text rendering\<close>

definition tag_label :: "cli_env \<Rightarrow> string \<Rightarrow> string" where
  "tag_label env tag = ce_label env (''['' @ tag @ '']'')"

definition heading :: "cli_env \<Rightarrow> string \<Rightarrow> string \<Rightarrow> CliResult" where
  "heading env tag title = println env (tag_label env tag @ '' '' @ ce_bold env title)"

definition tree_line :: "cli_env \<Rightarrow> nat \<Rightarrow> bool \<Rightarrow> string \<Rightarrow> string \<Rightarrow> string" where
  "tree_line env indent is_last tag content =
     concat (replicate indent ''    '') @ ce_dim env (if is_last then ''`--'' else ''|--'') @ '' '' @
     tag_label env tag @ '' '' @ content"

definition line :: "cli_env \<Rightarrow> nat \<Rightarrow> bool \<Rightarrow> string \<Rightarrow> string \<Rightarrow> CliResult" where
  "line env indent is_last tag content = println env (tree_line env indent is_last tag content)"

definition heading_err :: "cli_env \<Rightarrow> string \<Rightarrow> string \<Rightarrow> CliResult" where
  "heading_err env tag title = eprintln (tag_label env tag @ '' '' @ ce_bold env title)"

definition line_err :: "cli_env \<Rightarrow> nat \<Rightarrow> bool \<Rightarrow> string \<Rightarrow> string \<Rightarrow> CliResult" where
  "line_err env indent is_last tag content = eprintln (tree_line env indent is_last tag content)"

section \<open>Forms of bytes\<close>

datatype ByteFormat = FmtBinary | FmtBase64 | FmtHex

datatype ReprFormat = ReprBinary | ReprBase64 | ReprHex | ReprText

record codecs =
  cc_hex :: "bytes \<Rightarrow> string"
  cc_unhex :: "string \<Rightarrow> string + bytes"
  cc_b64 :: "bytes \<Rightarrow> string"
  cc_unb64 :: "bytes \<Rightarrow> string + bytes"

text \<open>\<open>u8::is_ascii_whitespace\<close>: without the vertical tab.\<close>

definition white :: "u8 \<Rightarrow> bool" where
  "white b \<longleftrightarrow> b \<in> {32, 9, 10, 12, 13}"

definition trimmed :: "bytes \<Rightarrow> bytes" where
  "trimmed raw = rev (dropWhile white (rev (dropWhile white raw)))"

definition is_hexdigit :: "u8 \<Rightarrow> bool" where
  "is_hexdigit b \<longleftrightarrow> (48 \<le> b \<and> b \<le> 57) \<or> (65 \<le> b \<and> b \<le> 70) \<or> (97 \<le> b \<and> b \<le> 102)"

definition is_base64_char :: "u8 \<Rightarrow> bool" where
  "is_base64_char b \<longleftrightarrow>
     (48 \<le> b \<and> b \<le> 57) \<or> (65 \<le> b \<and> b \<le> 90) \<or> (97 \<le> b \<and> b \<le> 122) \<or> b \<in> {43, 47, 61}"

definition wire_from_input :: "codecs \<Rightarrow> bytes \<Rightarrow> ByteFormat \<Rightarrow> CliError + bytes" where
  "wire_from_input cc raw format =
     (case format of
        FmtBinary \<Rightarrow> Ok raw
      | FmtBase64 \<Rightarrow> map_err (\<lambda>e. with_code 3 (''invalid base64 input: '' @ e)) (cc_unb64 cc (trimmed raw))
      | FmtHex \<Rightarrow>
          (case from_utf8 (trimmed raw) of
             None \<Rightarrow> Err (with_code 3 ''invalid hex input: not valid UTF-8'')
           | Some s \<Rightarrow>
               (case strip_0x s of
                  Err e \<Rightarrow> Err (with_code 3 (''invalid hex input: '' @ show_protocol_error e))
                | Ok stripped \<Rightarrow>
                    map_err (\<lambda>e. with_code 3 (''invalid hex input: '' @ e)) (cc_unhex cc stripped))))"

definition sniff_byte_format :: "codecs \<Rightarrow> bytes \<Rightarrow> ByteFormat" where
  "sniff_byte_format cc raw =
     (let t = trimmed raw;
          is_hex = (if take 2 t = as_bytes ''0x''
                    then let digits = drop 2 t in digits \<noteq> [] \<and> length digits mod 2 = 0 \<and> list_all is_hexdigit digits
                    else False);
          is_base64_alphabet = (t \<noteq> [] \<and> list_all is_base64_char t)
      in if is_hex then FmtHex
         else if is_base64_alphabet \<and> \<not> isl (cc_unb64 cc t) then FmtBase64
         else FmtBinary)"

text \<open>The forms in which bytes are written.\<close>

definition write_bytes :: "codecs \<Rightarrow> cli_env \<Rightarrow> bytes \<Rightarrow> ReprFormat \<Rightarrow> CliResult \<Rightarrow> CliResult" where
  "write_bytes cc env wire format text_form =
     (case format of
        ReprBinary \<Rightarrow> write_stdout env wire
      | ReprBase64 \<Rightarrow> println env (cc_b64 cc wire)
      | ReprHex \<Rightarrow> println env (''0x'' @ cc_hex cc wire)
      | ReprText \<Rightarrow> text_form)"

section \<open>Lemmas\<close>

lemma cmd_bind_simps [simp]:
  "cmd_bind (os, Some (Ok x)) f = (os @ fst (f x), snd (f x))"
  "cmd_bind (os, Some (Err e)) f = (os, Some (Err e))"
  "cmd_bind (os, None) f = (os, None)"
  "cmd_bind (of_result (Ok x)) f = f x"
  "cmd_bind (of_result (Err e)) f = of_result (Err e)"
  "fst (of_result r) = []" "snd (of_result r) = Some r"
  by (simp_all add: cmd_bind_def of_result_def)

lemma and_then_simps [simp]: "and_then (Ok x) f = f x" "and_then (Err e) f = Err e"
  by (simp_all add: and_then_def)

lemma and_then_Ok: "and_then r f = Ok y \<longleftrightarrow> (\<exists>x. r = Ok x \<and> f x = Ok y)"
  by (auto simp: and_then_def split: sum.splits)

lemma and_then_Err: "and_then r f = Err e \<longleftrightarrow> r = Err e \<or> (\<exists>x. r = Ok x \<and> f x = Err e)"
  by (auto simp: and_then_def split: sum.splits)

lemma map_err_simps [simp]: "map_err g (Ok x) = Ok x" "map_err g (Err e) = Err (g e)"
  by (simp_all add: map_err_def)

lemma map_err_is_Ok: "map_err g r = Ok x \<longleftrightarrow> r = Ok x"
  by (cases r) simp_all

lemma map_err_is_Err: "map_err g r = Err e \<longleftrightarrow> (\<exists>e'. r = Err e' \<and> e = g e')"
  by (cases r) auto

lemma map_ok_simps [simp]: "map_ok f (Ok x) = Ok (f x)" "map_ok f (Err e) = Err e"
  by (simp_all add: map_ok_def)

lemma map_ok_is_Ok: "map_ok f r = Ok y \<longleftrightarrow> (\<exists>x. r = Ok x \<and> y = f x)"
  by (cases r) auto

lemma map_ok_is_Err: "map_ok f r = Err e \<longleftrightarrow> r = Err e"
  by (cases r) auto

lemma cmd_bind_Ok:
  "snd (cmd_bind m f) = Some (Ok y) \<longleftrightarrow> (\<exists>x. snd m = Some (Ok x) \<and> snd (f x) = Some (Ok y))"
  by (auto simp: cmd_bind_def split: option.splits sum.splits)

lemma cmd_bind_out:
  "snd m = Some (Ok x) \<Longrightarrow> cmd_bind m f = (fst m @ fst (f x), snd (f x))"
  by (simp add: cmd_bind_def)

lemma cmd_seq_finish [simp]: "cmd_seq c finish = c"
  by (cases c; cases "snd c") (auto simp: cmd_seq_def cmd_bind_def finish_def of_result_def split: sum.splits)

text \<open>What a command wrote to standard output.\<close>

fun stdout_of :: "out list \<Rightarrow> bytes" where
  "stdout_of [] = []"
| "stdout_of (Stdout bs # os) = bs @ stdout_of os"
| "stdout_of (Stderr _ # os) = stdout_of os"

lemma stdout_of_append [simp]: "stdout_of (os @ os') = stdout_of os @ stdout_of os'"
  by (induction os rule: stdout_of.induct) simp_all

lemma trimmed_keeps: "b \<in> set raw \<Longrightarrow> \<not> white b \<Longrightarrow> b \<in> set (trimmed raw)"
proof -
  have keep: "b \<in> set xs \<Longrightarrow> \<not> white b \<Longrightarrow> b \<in> set (dropWhile white xs)" for xs
    by (induction xs) auto
  assume "b \<in> set raw" "\<not> white b"
  then show ?thesis unfolding trimmed_def using keep by simp
qed

lemma trimmed_id:
  assumes "\<forall>b\<in>set raw. \<not> white b"
  shows "trimmed raw = raw" and "trimmed (raw @ [10]) = raw"
proof -
  have drop: "\<forall>b\<in>set xs. \<not> white b \<Longrightarrow> dropWhile white xs = xs" for xs
    by (cases xs) auto
  show "trimmed raw = raw" using assms by (simp add: trimmed_def drop)
  show "trimmed (raw @ [10]) = raw"
  proof (cases raw)
    case (Cons a r)
    then have "dropWhile white (raw @ [10]) = raw @ [10]" using assms by simp
    then show ?thesis using assms by (simp add: trimmed_def drop white_def [of 10])
  qed (simp add: trimmed_def white_def)
qed

text \<open>The libraries for hexadecimal and base64 text: decoding inverts encoding, and the text uses the letters
  of its alphabet only.\<close>

definition hex_text_ok :: "codecs \<Rightarrow> bool" where
  "hex_text_ok cc \<longleftrightarrow>
     (\<forall>b. cc_unhex cc (cc_hex cc b) = Ok b \<and> length (cc_hex cc b) = 2 * length b \<and>
        list_all is_hexdigit (as_bytes (cc_hex cc b)))"

definition base64_ok :: "codecs \<Rightarrow> bool" where
  "base64_ok cc \<longleftrightarrow>
     (\<forall>b. cc_unb64 cc (as_bytes (cc_b64 cc b)) = Ok b \<and> list_all is_base64_char (as_bytes (cc_b64 cc b)) \<and>
        (b \<noteq> [] \<longrightarrow> cc_b64 cc b \<noteq> []))"

text \<open>What \<open>write_bytes\<close> puts on standard output; and bytes that are not mistaken for a text form, nor their base64
  form for hexadecimal: they have a byte outside the base64 alphabet and the form does not start with \<open>0x\<close>.\<close>

definition written :: "codecs \<Rightarrow> ReprFormat \<Rightarrow> bytes \<Rightarrow> bytes" where
  "written cc format wire =
     (case format of
        ReprBase64 \<Rightarrow> as_bytes (cc_b64 cc wire) @ [10]
      | ReprHex \<Rightarrow> as_bytes (''0x'' @ cc_hex cc wire) @ [10]
      | _ \<Rightarrow> wire)"

definition unmistakable :: "codecs \<Rightarrow> bytes \<Rightarrow> bool" where
  "unmistakable cc wire \<longleftrightarrow>
     (\<exists>b\<in>set wire. \<not> white b \<and> \<not> is_base64_char b) \<and> take 2 (cc_b64 cc wire) \<noteq> ''0x''"

lemma write_bytes_out:
  assumes "ce_stdout env = None" and "format \<noteq> ReprText"
  shows "write_bytes cc env wire format k = ([Stdout (written cc format wire)], Some (Ok ()))"
  using assms by (cases format) (simp_all add: write_bytes_def written_def write_stdout_def println_def)

lemma base64_not_white: "is_base64_char b \<Longrightarrow> \<not> white b"
  by (auto simp: is_base64_char_def white_def word_le_nat_alt)

lemma hexdigit_base64: "is_hexdigit b \<Longrightarrow> is_base64_char b"
  by (auto simp: is_base64_char_def is_hexdigit_def word_le_nat_alt)

lemma hexdigit_ascii: "is_hexdigit b \<Longrightarrow> unat b < 128"
  by (auto simp: is_hexdigit_def word_le_nat_alt)

lemma as_bytes_0x: "as_bytes ''0x'' = [48, 120]" "as_bytes (''0x'' @ s) = 48 # 120 # as_bytes s"
  "as_bytes (CHR ''0'' # CHR ''x'' # s) = 48 # 120 # as_bytes s"
  "is_base64_char 48" "is_base64_char 120"
  by (simp_all add: as_bytes_def is_base64_char_def)

lemma as_bytes_simps [simp]: "as_bytes (s @ t) = as_bytes s @ as_bytes t" "length (as_bytes s) = length s" "as_bytes [] = []"
  by (simp_all add: as_bytes_def)

lemma take_as_bytes: "take n (as_bytes s) = as_bytes (take n s)"
  by (simp add: as_bytes_def take_map)

lemma as_bytes_eq_iff: "as_bytes s = as_bytes t \<longleftrightarrow> s = t"
  by (metis as_bytes_roundtrip)

lemma hex_form:
  assumes "hex_text_ok cc" and "trimmed raw = as_bytes (''0x'' @ cc_hex cc wire)" and "wire \<noteq> []"
  shows "sniff_byte_format cc raw = FmtHex" and "wire_from_input cc raw FmtHex = Ok wire"
proof -
  from assms(1) have hex: "cc_unhex cc (cc_hex cc wire) = Ok wire" "length (cc_hex cc wire) = 2 * length wire"
    "list_all is_hexdigit (as_bytes (cc_hex cc wire))" by (simp_all add: hex_text_ok_def)
  let ?t = "as_bytes (''0x'' @ cc_hex cc wire)"
  have split: "take 2 ?t = as_bytes ''0x''" "drop 2 ?t = as_bytes (cc_hex cc wire)" by (simp_all add: as_bytes_def)
  have "as_bytes (cc_hex cc wire) \<noteq> []" using hex(2) assms(3) by (metis as_bytes_simps(2) length_0_conv mult_eq_0_iff zero_neq_numeral)
  then show "sniff_byte_format cc raw = FmtHex"
    using split hex by (simp add: sniff_byte_format_def Let_def assms(2) del: as_bytes_simps(1))
  have "valid_utf8 ?t"
    unfolding as_bytes_0x using hex(3) by (intro valid_utf8_ascii) (auto simp: list_all_iff dest: hexdigit_ascii)
  then show "wire_from_input cc raw FmtHex = Ok wire"
    by (simp add: wire_from_input_def assms(2) from_utf8_as_bytes strip_0x_def hex map_err_def del: as_bytes_simps(1))
qed

lemma base64_form:
  assumes "base64_ok cc" and "trimmed raw = as_bytes (cc_b64 cc wire)" and "wire \<noteq> []" and "take 2 (cc_b64 cc wire) \<noteq> ''0x''"
  shows "sniff_byte_format cc raw = FmtBase64" and "wire_from_input cc raw FmtBase64 = Ok wire"
proof -
  from assms have b64: "cc_unb64 cc (as_bytes (cc_b64 cc wire)) = Ok wire" "list_all is_base64_char (as_bytes (cc_b64 cc wire))"
    "as_bytes (cc_b64 cc wire) \<noteq> []" by (auto simp: base64_ok_def as_bytes_def)
  have "take 2 (as_bytes (cc_b64 cc wire)) \<noteq> as_bytes ''0x''"
    unfolding take_as_bytes as_bytes_eq_iff using assms(4) .
  with b64 show "sniff_byte_format cc raw = FmtBase64" by (simp add: sniff_byte_format_def Let_def assms(2))
  show "wire_from_input cc raw FmtBase64 = Ok wire" by (simp add: wire_from_input_def assms(2) b64 map_err_def)
qed

lemma binary_form:
  assumes "b \<in> set raw" and "\<not> white b" and "\<not> is_base64_char b"
  shows "sniff_byte_format cc raw = FmtBinary" and "wire_from_input cc raw FmtBinary = Ok raw"
proof -
  let ?t = "trimmed raw"
  have b: "b \<in> set ?t" using assms trimmed_keeps by blast
  then have not64: "\<not> list_all is_base64_char ?t" using assms(3) by (auto simp: list_all_iff)
  moreover have "list_all is_base64_char ?t"
    if "take 2 ?t = as_bytes ''0x''" and "list_all is_hexdigit (drop 2 ?t)"
  proof -
    have "list_all is_base64_char (take 2 ?t @ drop 2 ?t)"
      using that by (auto simp: as_bytes_0x list_all_iff intro: hexdigit_base64)
    then show ?thesis by (simp only: append_take_drop_id)
  qed
  ultimately show "sniff_byte_format cc raw = FmtBinary" by (auto simp: sniff_byte_format_def Let_def)
  show "wire_from_input cc raw FmtBinary = Ok raw" by (simp add: wire_from_input_def)
qed

text \<open>Whatever a command writes, another reads back without being told the form.\<close>

lemma written_read_back:
  assumes "hex_text_ok cc" and "base64_ok cc" and "unmistakable cc wire" and "raw = written cc format wire"
  shows "wire_from_input cc raw (sniff_byte_format cc raw) = Ok wire"
proof -
  from assms(3) obtain b where b: "b \<in> set wire" "\<not> white b" "\<not> is_base64_char b" and no0x: "take 2 (cc_b64 cc wire) \<noteq> ''0x''"
    by (auto simp: unmistakable_def)
  then have nonempty: "wire \<noteq> []" by auto
  show ?thesis
  proof (cases format)
    case ReprBase64
    have "list_all is_base64_char (as_bytes (cc_b64 cc wire))" using assms(2) by (simp add: base64_ok_def)
    then have "trimmed raw = as_bytes (cc_b64 cc wire)"
      unfolding assms(4) by (simp add: written_def ReprBase64 trimmed_id list_all_iff base64_not_white)
    from base64_form [OF assms(2) this nonempty no0x] show ?thesis by simp
  next
    case ReprHex
    have "list_all is_hexdigit (as_bytes (cc_hex cc wire))" using assms(1) by (simp add: hex_text_ok_def)
    then have "\<forall>b\<in>set (as_bytes (''0x'' @ cc_hex cc wire)). \<not> white b"
      unfolding as_bytes_0x by (simp add: list_all_iff as_bytes_0x hexdigit_base64 base64_not_white)
    then have "trimmed raw = as_bytes (''0x'' @ cc_hex cc wire)"
      unfolding assms(4) written_def ReprHex by (simp only: trimmed_id ReprFormat.case)
    from hex_form [OF assms(1) this nonempty] show ?thesis by simp
  qed (use binary_form [OF b] in \<open>simp_all add: assms(4) written_def\<close>)
qed

end
