(* ===== verification/CliEnvelope.thy ===== *)
theory CliEnvelope
  imports CliFormat
begin

text \<open>
  The commands \<open>edge envelope\<close>, \<open>edge batch\<close> and \<open>edge key\<close> (\<open>cli/envelope.rs\<close>, \<open>cli/batch.rs\<close>, \<open>cli/key.rs\<close>): signing,
  decoding and verifying envelopes, packing and decoding batches, generating and inspecting keys. Ed25519,
  SURIs, SHA-256, protobuf, zstd and SS58 are parameters. The theorems are about what the commands compose
  to: nothing unverified reaches standard output under \<open>--verify\<close>, what one command signs or packs another
  reads, and the exit codes tell which.
\<close>

section \<open>Libraries\<close>

record 'k libs =
  lb_pair :: "string \<Rightarrow> string + 'k"
  lb_seed :: "'k \<Rightarrow> bytes"
  lb_public :: "'k \<Rightarrow> bytes"
  lb_sign :: "'k \<Rightarrow> bytes \<Rightarrow> bytes"
  lb_verify :: "bytes \<Rightarrow> bytes \<Rightarrow> bytes \<Rightarrow> bool"
  lb_random_nonce :: bytes
  lb_sha256 :: "bytes \<Rightarrow> bytes"
  lb_encode :: "SignedEnvelope \<Rightarrow> bytes"
  lb_decode :: "bytes \<Rightarrow> string + SignedEnvelope"
  lb_to_ss58 :: "bytes \<Rightarrow> string"
  lb_from_ss58 :: "string \<Rightarrow> string + bytes \<times> nat"
  lb_ss58_format :: "nat \<Rightarrow> string"
  lb_encode_batch :: "SignedEnvelopeBatch \<Rightarrow> bytes"
  lb_decode_batch :: "bytes \<Rightarrow> string + SignedEnvelopeBatch"
  lb_zstd :: "bytes \<Rightarrow> string + bytes"
  lb_unzstd :: "bytes \<Rightarrow> string + bytes"

text \<open>\<open>SensorIdentity::from_suri\<close>, \<open>secret_to_hex\<close>, \<open>EnvelopeId::to_hex\<close> and \<open>decode_envelope_batch\<close>.\<close>

definition identity_from_suri :: "(string \<Rightarrow> string + 'k) \<Rightarrow> string \<Rightarrow> ProtocolError + 'k" where
  "identity_from_suri pair suri = map_err (\<lambda>e. Hex (''invalid SURI: '' @ e)) (pair (trim suri))"

definition secret_to_hex :: "(bytes \<Rightarrow> string) \<Rightarrow> ('k \<Rightarrow> bytes) \<Rightarrow> 'k \<Rightarrow> string" where
  "secret_to_hex hex seed identity = ''0x'' @ hex (seed identity)"

definition envelope_id_to_hex :: "(bytes \<Rightarrow> string) \<Rightarrow> EnvelopeId \<Rightarrow> string" where
  "envelope_id_to_hex hex i = ''0x'' @ hex (envelope_digest i)"

definition decode_envelope_batch ::
  "(bytes \<Rightarrow> string + SignedEnvelopeBatch) \<Rightarrow> bytes \<Rightarrow> ProtocolError + SignedEnvelopeBatch" where
  "decode_envelope_batch dec bs = map_err Decode (dec bs)"

section \<open>\<open>edge envelope\<close>\<close>

record EnvelopeArgs =
  ev_data :: "string option"
  ev_input :: "ReprFormat option"
  ev_output :: "ReprFormat option"
  ev_sign :: "string option"
  ev_nonce :: "string option"
  ev_verify :: bool
  ev_id :: bool

definition default_output :: "cli_env \<Rightarrow> ReprFormat" where
  "default_output env = (if ce_terminal env then ReprText else ReprBinary)"

definition wire_or_data :: "cli_env \<Rightarrow> EnvelopeArgs \<Rightarrow> CliError + bytes" where
  "wire_or_data env args = (case ev_data args of Some s \<Rightarrow> Ok (as_bytes s) | None \<Rightarrow> read_stdin env)"

text \<open>The match on \<open>--input\<close> that the commands share: what it forces, what it means when absent, and the
  error for \<open>text\<close>.\<close>

definition input_format :: "ReprFormat option \<Rightarrow> ByteFormat \<Rightarrow> string \<Rightarrow> CliError + ByteFormat" where
  "input_format input absent text_error =
     (case input of
        None \<Rightarrow> Ok absent
      | Some ReprBinary \<Rightarrow> Ok FmtBinary
      | Some ReprBase64 \<Rightarrow> Ok FmtBase64
      | Some ReprHex \<Rightarrow> Ok FmtHex
      | Some ReprText \<Rightarrow> Err (usage text_error))"

definition parse_nonce :: "codecs \<Rightarrow> string option \<Rightarrow> CliError + bytes option" where
  "parse_nonce cc nonce =
     (case nonce of
        None \<Rightarrow> Ok None
      | Some hex_nonce \<Rightarrow>
          and_then (map_err (\<lambda>e. usage (''invalid --nonce hex: '' @ show_protocol_error e)) (strip_0x (trim hex_nonce)))
            (\<lambda>stripped. map_ok Some (map_err (\<lambda>e. usage (''invalid --nonce hex: '' @ e)) (cc_unhex cc stripped))))"

definition envelope_sign ::
  "'k libs \<Rightarrow> codecs \<Rightarrow> cli_env \<Rightarrow> string \<Rightarrow> EnvelopeArgs \<Rightarrow> CliError + SignedEnvelope \<times> bytes" where
  "envelope_sign lb cc env suri args =
     and_then (map_err (\<lambda>e. usage (''invalid --sign SURI: '' @ show_protocol_error e))
                 (identity_from_suri (lb_pair lb) suri)) (\<lambda>identity.
     and_then (input_format (ev_input args) FmtBinary
                 ''--input text is not valid with --sign; provide the raw message to sign instead'') (\<lambda>byte_format.
     and_then (wire_or_data env args) (\<lambda>raw.
     and_then (wire_from_input cc raw byte_format) (\<lambda>message.
     and_then (parse_nonce cc (ev_nonce args)) (\<lambda>nonce.
       let e = sign_message (lb_public lb) (lb_sign lb) (lb_random_nonce lb) identity message nonce
       in Ok (e, lb_encode lb e))))))"

definition decode_wire :: "'k libs \<Rightarrow> bytes \<Rightarrow> CliError + SignedEnvelope \<times> bytes" where
  "decode_wire lb wire = map_ok (\<lambda>e. (e, wire)) (map_err protocol_err (decode_envelope (lb_decode lb) wire))"

definition INPUT_TEXT_ERROR :: string where
  "INPUT_TEXT_ERROR = ''--input text is not supported for input; provide wire bytes (hex/base64/binary)''"

definition envelope_decode ::
  "'k libs \<Rightarrow> codecs \<Rightarrow> cli_env \<Rightarrow> EnvelopeArgs \<Rightarrow> CliError + SignedEnvelope \<times> bytes" where
  "envelope_decode lb cc env args =
     and_then (wire_or_data env args) (\<lambda>raw.
     and_then (input_format (ev_input args) (sniff_byte_format cc raw) INPUT_TEXT_ERROR) (\<lambda>byte_format.
     and_then (wire_from_input cc raw byte_format) (decode_wire lb)))"

text \<open>The four fields of an envelope as lines of a tree.\<close>

definition field_lines :: "codecs \<Rightarrow> cli_env \<Rightarrow> nat \<Rightarrow> SignedEnvelope \<Rightarrow> CliResult list" where
  "field_lines cc env indent e =
     [line env indent False ''#'' (''sensor_id:  0x'' @ cc_hex cc (env_sensor_id e)),
      line env indent False ''N'' (''nonce:      0x'' @ cc_hex cc (env_nonce e)),
      line env indent False ''M'' (''message:    0x'' @ cc_hex cc (env_message e)),
      line env indent True ''S'' (''signature:  0x'' @ cc_hex cc (env_signature e))]"

definition write_repr :: "codecs \<Rightarrow> cli_env \<Rightarrow> SignedEnvelope \<Rightarrow> bytes \<Rightarrow> ReprFormat \<Rightarrow> CliResult" where
  "write_repr cc env e wire format =
     write_bytes cc env wire format (cmd_all (heading env ''E'' ''SignedEnvelope'' # field_lines cc env 0 e))"

definition envelope_input ::
  "'k libs \<Rightarrow> codecs \<Rightarrow> cli_env \<Rightarrow> EnvelopeArgs \<Rightarrow> CliError + SignedEnvelope \<times> bytes" where
  "envelope_input lb cc env args =
     (case ev_sign args of
        Some suri \<Rightarrow> envelope_sign lb cc env suri args
      | None \<Rightarrow> envelope_decode lb cc env args)"

definition print_id :: "'k libs \<Rightarrow> codecs \<Rightarrow> bytes \<Rightarrow> CliResult" where
  "print_id lb cc wire = eprintln (''message_id: '' @ envelope_id_to_hex (cc_hex cc) (envelope_id (lb_sha256 lb) wire))"

definition envelope_run :: "'k libs \<Rightarrow> codecs \<Rightarrow> cli_env \<Rightarrow> EnvelopeArgs \<Rightarrow> CliResult" where
  "envelope_run lb cc env args =
     cmd_bind (of_result (envelope_input lb cc env args)) (\<lambda>(e, wire).
       cmd_seq (if ev_id args then print_id lb cc wire else finish)
       (cmd_seq (if ev_verify args
                 then (case verify_envelope (lb_verify lb) e of
                         Err err \<Rightarrow> of_result (Err (protocol_err err))
                       | Ok verified \<Rightarrow>
                           eprintln (''signature: valid ('' @ lb_to_ss58 lb (sensor_bytes (ve_sensor_id verified)) @ '')''))
                 else finish)
       (write_repr cc env e wire (case ev_output args of Some f \<Rightarrow> f | None \<Rightarrow> default_output env))))"

section \<open>\<open>edge batch\<close>\<close>

record BatchArgs =
  ba_data :: "string list"
  ba_input :: "ReprFormat option"
  ba_output :: "ReprFormat option"
  ba_pack :: bool
  ba_decompress :: bool
  ba_compress :: bool

definition batch_default_output :: "cli_env \<Rightarrow> bool \<Rightarrow> ReprFormat" where
  "batch_default_output env packing = (if \<not> packing \<and> ce_terminal env then ReprText else ReprBinary)"

definition batch_wire_or_data :: "cli_env \<Rightarrow> BatchArgs \<Rightarrow> CliError + bytes" where
  "batch_wire_or_data env args =
     (if ba_data args = [] then read_stdin env else Ok (as_bytes (concat (ba_data args))))"

definition batch_byte_format :: "codecs \<Rightarrow> BatchArgs \<Rightarrow> bytes \<Rightarrow> CliError + ByteFormat" where
  "batch_byte_format cc args raw = input_format (ba_input args) (sniff_byte_format cc raw) INPUT_TEXT_ERROR"

definition pack_lines :: "cli_env \<Rightarrow> BatchArgs \<Rightarrow> CliError + bytes list" where
  "pack_lines env args =
     (if ba_data args \<noteq> [] then Ok (map as_bytes (ba_data args))
      else map_ok (\<lambda>raw. filter (\<lambda>l. l \<noteq> []) (map trimmed (split_on 10 raw))) (read_stdin env))"

fun decode_lines ::
  "'k libs \<Rightarrow> codecs \<Rightarrow> BatchArgs \<Rightarrow> bytes list \<Rightarrow> CliError + SignedEnvelopeBatch" where
  "decode_lines lb cc args [] = Ok []"
| "decode_lines lb cc args (l # ls) =
     and_then (batch_byte_format cc args l) (\<lambda>format.
     and_then (wire_from_input cc l format) (\<lambda>wire.
     and_then (map_err protocol_err (decode_envelope (lb_decode lb) wire)) (\<lambda>e.
       map_ok (\<lambda>es. e # es) (decode_lines lb cc args ls))))"

definition batch_pack :: "'k libs \<Rightarrow> codecs \<Rightarrow> cli_env \<Rightarrow> BatchArgs \<Rightarrow> CliError + SignedEnvelopeBatch" where
  "batch_pack lb cc env args =
     and_then (pack_lines env args) (\<lambda>lines.
       if lines = []
       then Err (usage ''--pack requires at least one envelope (positionally, or one per stdin line)'')
       else decode_lines lb cc args lines)"

definition decompress_zstd :: "'k libs \<Rightarrow> bytes \<Rightarrow> CliError + bytes" where
  "decompress_zstd lb input = map_err (\<lambda>e. with_code 3 (''invalid zstd-compressed input: '' @ e)) (lb_unzstd lb input)"

definition compress_zstd :: "'k libs \<Rightarrow> bytes \<Rightarrow> CliError + bytes" where
  "compress_zstd lb input = map_err (\<lambda>e. runtime (''failed to zstd-compress output: '' @ e)) (lb_zstd lb input)"

definition batch_decode :: "'k libs \<Rightarrow> codecs \<Rightarrow> cli_env \<Rightarrow> BatchArgs \<Rightarrow> CliError + SignedEnvelopeBatch" where
  "batch_decode lb cc env args =
     and_then (batch_wire_or_data env args) (\<lambda>raw.
     and_then (batch_byte_format cc args raw) (\<lambda>format.
     and_then (wire_from_input cc raw format) (\<lambda>wire.
     and_then (if ba_decompress args then decompress_zstd lb wire else Ok wire) (\<lambda>wire.
       map_err protocol_err (decode_envelope_batch (lb_decode_batch lb) wire)))))"

definition write_envelope_text :: "codecs \<Rightarrow> cli_env \<Rightarrow> nat \<Rightarrow> SignedEnvelope \<Rightarrow> bool \<Rightarrow> CliResult" where
  "write_envelope_text cc env index e is_last =
     cmd_all (line env 0 is_last ''E'' (''envelope['' @ show_nat index @ '']:'') # field_lines cc env 1 e)"

definition batch_write_repr :: "codecs \<Rightarrow> cli_env \<Rightarrow> SignedEnvelopeBatch \<Rightarrow> bytes \<Rightarrow> ReprFormat \<Rightarrow> CliResult" where
  "batch_write_repr cc env batch wire format =
     write_bytes cc env wire format
       (cmd_all (heading env ''B'' (''SignedEnvelopeBatch ('' @ show_nat (length batch) @ '' envelopes)'') #
          map (\<lambda>i. write_envelope_text cc env i (batch ! i) (i = length batch - 1)) [0..<length batch]))"

definition batch_run :: "'k libs \<Rightarrow> codecs \<Rightarrow> cli_env \<Rightarrow> BatchArgs \<Rightarrow> CliResult" where
  "batch_run lb cc env args =
     cmd_bind (of_result (if ba_pack args then batch_pack lb cc env args else batch_decode lb cc env args)) (\<lambda>batch.
     cmd_bind (of_result (let wire = lb_encode_batch lb batch
                          in if ba_compress args then compress_zstd lb wire else Ok wire)) (\<lambda>wire.
       batch_write_repr cc env batch wire
         (case ba_output args of Some f \<Rightarrow> f | None \<Rightarrow> batch_default_output env (ba_pack args))))"

section \<open>\<open>edge key\<close>\<close>

datatype KeyCommand = KeyGenerate | KeyInspect string

definition key_report :: "codecs \<Rightarrow> 'k libs \<Rightarrow> cli_env \<Rightarrow> string option \<Rightarrow> SensorId \<Rightarrow> CliResult" where
  "key_report cc lb env secret_hex sensor_id =
     cmd_seq (case secret_hex of Some secret \<Rightarrow> println env (''Secret seed:  '' @ secret) | None \<Rightarrow> finish)
     (cmd_seq (println env (''Public key:   '' @ sensor_to_hex (cc_hex cc) sensor_id))
     (println env (''SS58 Address: '' @ lb_to_ss58 lb (sensor_bytes sensor_id))))"

definition identity_report :: "codecs \<Rightarrow> 'k libs \<Rightarrow> cli_env \<Rightarrow> 'k \<Rightarrow> CliResult" where
  "identity_report cc lb env identity =
     key_report cc lb env (Some (secret_to_hex (cc_hex cc) (lb_seed lb) identity)) (SensorId (lb_public lb identity))"

text \<open>\<open>fresh\<close> is the pair of a seed drawn at random.\<close>

definition key_run :: "codecs \<Rightarrow> 'k libs \<Rightarrow> cli_env \<Rightarrow> 'k \<Rightarrow> KeyCommand \<Rightarrow> CliResult" where
  "key_run cc lb env fresh command =
     (case command of
        KeyGenerate \<Rightarrow> identity_report cc lb env fresh
      | KeyInspect uri \<Rightarrow>
          let uri = trim uri in
          (case sensor_from_ss58 (lb_from_ss58 lb) (lb_ss58_format lb) uri of
             Ok sensor_id \<Rightarrow> key_report cc lb env None sensor_id
           | Err _ \<Rightarrow>
               cmd_bind (of_result (map_err (\<lambda>e. usage (''invalid key URI: expected an SS58 address or a valid SURI: '' @
                           show_protocol_error e)) (identity_from_suri (lb_pair lb) uri)))
                 (identity_report cc lb env)))"

section \<open>Lemmas\<close>

text \<open>A command that only prints ends well exactly when standard output can be written.\<close>

definition prints :: "cli_env \<Rightarrow> CliResult \<Rightarrow> bool" where
  "prints env c \<longleftrightarrow>
     (case ce_stdout env of None \<Rightarrow> snd c = Some (Ok ()) | Some _ \<Rightarrow> fst c = [] \<and> snd c \<noteq> Some (Ok ()) \<and>
        (case snd c of Some (Err e) \<Rightarrow> ce_code e = 1 | _ \<Rightarrow> True))"

lemma prints_basic [simp]: "prints env (println env s)" "prints env (write_stdout env bs)" "prints env (line env i l t c)"
  "prints env (heading env t c)"
  by (auto simp: prints_def println_def write_stdout_def line_def heading_def runtime_def split: option.splits)

lemma prints_seq: "prints env c \<Longrightarrow> prints env d \<Longrightarrow> prints env (cmd_seq c d)"
  by (auto simp: prints_def cmd_seq_def cmd_bind_def split: option.splits sum.splits)

lemma prints_all: "prints env c \<Longrightarrow> list_all (prints env) cs \<Longrightarrow> prints env (cmd_all (c # cs))"
proof (induction cs arbitrary: c)
  case (Cons d cs)
  then have "prints env (cmd_all (d # cs))" by simp
  with Cons.prems(1) show ?case unfolding cmd_all.simps(2) [of c] by (rule prints_seq)
qed simp

lemma prints_bytes: "prints env k \<Longrightarrow> prints env (write_bytes cc env wire format k)"
  by (cases format) (simp_all add: write_bytes_def)

lemma write_repr_prints: "prints env (write_repr cc env e wire format)"
  unfolding write_repr_def by (intro prints_bytes prints_all) (simp_all add: field_lines_def)

lemma prints_status: "prints env c \<Longrightarrow> snd (exit_status c) = 0 \<longleftrightarrow> ce_stdout env = None"
  by (auto simp: prints_def exit_status_def split: option.splits sum.splits)

lemma wire_from_input_code: "wire_from_input cc raw f = Err e \<Longrightarrow> ce_code e = 3"
  by (auto simp: wire_from_input_def with_code_def map_err_is_Err split: ByteFormat.splits option.splits sum.splits)

lemma input_errors:
  "wire_or_data env args = Err e \<Longrightarrow> ce_code e = 1"
  "input_format input absent t = Err e \<Longrightarrow> ce_code e = 2"
  "parse_nonce cc n = Err e \<Longrightarrow> ce_code e = 2"
  "decode_wire lb wire = Err e \<Longrightarrow> ce_code e = 2"
  by (auto simp: wire_or_data_def read_stdin_def map_err_is_Err runtime_def input_format_def usage_def parse_nonce_def
      and_then_Err map_ok_is_Err decode_wire_def decode_envelope_def protocol_err_def with_code_def
      split: option.splits ReprFormat.splits sum.splits)

lemma envelope_input_code: "envelope_input lb cc env args = Err e \<Longrightarrow> ce_code e \<in> {1, 2, 3}"
  by (auto simp: envelope_input_def envelope_sign_def envelope_decode_def and_then_Err map_err_is_Err usage_def Let_def
      dest: wire_from_input_code input_errors split: option.splits)

lemma verify_error_code: "verify_envelope vrf e = Err err \<Longrightarrow> exit_code err = (if err = BadSignature then 1 else 2)"
  by (auto simp: verify_envelope_def validate_envelope_def from_slice_def split: if_splits)

lemma envelope_decode_wire:
  "envelope_decode lb cc env args = Ok (e, wire) \<Longrightarrow> lb_decode lb wire = Ok e"
  by (auto simp: envelope_decode_def and_then_Ok decode_wire_def map_ok_is_Ok map_err_is_Ok decode_envelope_def split: sum.splits)

lemma envelope_sign_Ok:
  assumes "envelope_sign lb cc env suri args = Ok (e, wire)"
  obtains identity message nonce where "identity_from_suri (lb_pair lb) suri = Ok identity"
    and "e = sign_message (lb_public lb) (lb_sign lb) (lb_random_nonce lb) identity message nonce" and "wire = lb_encode lb e"
  using assms by (auto simp: envelope_sign_def and_then_Ok map_err_is_Ok Let_def)

text \<open>Reading what another command wrote, the form sniffed.\<close>

lemma decode_written:
  assumes "hex_text_ok cc" "base64_ok cc" "unmistakable cc wire" and "lb_decode lb wire = Ok e"
    and "ev_data args = None" "ev_input args = None" and "ce_stdin env = Ok (written cc format wire)"
  shows "envelope_decode lb cc env args = Ok (e, wire)"
  using written_read_back [OF assms(1-3) refl, of format] assms(4-7)
  by (simp add: envelope_decode_def wire_or_data_def read_stdin_def input_format_def decode_wire_def decode_envelope_def)

lemma split_on_line: "10 \<notin> set l \<Longrightarrow> split_on 10 (l @ 10 # r) = l # split_on 10 r"
  by (induction l) auto

lemma split_on_lines:
  "\<forall>l\<in>set ls. 10 \<notin> set l \<Longrightarrow> split_on 10 (concat (map (\<lambda>l. l @ [10]) ls)) = ls @ [[]]"
  by (induction ls) (simp_all add: split_on_line)

lemma decode_lines_forms:
  assumes "list_all2 (\<lambda>l e. \<exists>wire. wire_from_input cc l (sniff_byte_format cc l) = Ok wire \<and> lb_decode lb wire = Ok e) ls es"
    and "ba_input args = None"
  shows "decode_lines lb cc args ls = Ok es"
  using assms(1)
  by (induction rule: list_all2_induct) (auto simp: batch_byte_format_def input_format_def assms(2) decode_envelope_def)

text \<open>The line of a text form without its newline.\<close>

definition text_line :: "codecs \<Rightarrow> ReprFormat \<Rightarrow> bytes \<Rightarrow> bytes" where
  "text_line cc format wire = as_bytes (if format = ReprHex then ''0x'' @ cc_hex cc wire else cc_b64 cc wire)"

lemma text_line_read:
  assumes "hex_text_ok cc" "base64_ok cc" "unmistakable cc wire" and "format \<in> {ReprHex, ReprBase64}"
  shows "written cc format wire = text_line cc format wire @ [10]" and "\<forall>b\<in>set (text_line cc format wire). \<not> white b"
    and "wire_from_input cc (text_line cc format wire) (sniff_byte_format cc (text_line cc format wire)) = Ok wire"
    and "text_line cc format wire \<noteq> []"
proof -
  show "written cc format wire = text_line cc format wire @ [10]" using assms(4) by (auto simp: written_def text_line_def)
  have chars: "list_all is_base64_char (text_line cc format wire)"
  proof (cases "format = ReprHex")
    case True
    with assms(1) show ?thesis by (simp add: text_line_def hex_text_ok_def list_all_iff as_bytes_0x hexdigit_base64)
  qed (use assms(2) in \<open>simp add: text_line_def base64_ok_def\<close>)
  then show white: "\<forall>b\<in>set (text_line cc format wire). \<not> white b" by (simp add: list_all_iff base64_not_white)
  have wire: "wire \<noteq> []" "take 2 (cc_b64 cc wire) \<noteq> ''0x''" using assms(3) by (auto simp: unmistakable_def)
  show "wire_from_input cc (text_line cc format wire) (sniff_byte_format cc (text_line cc format wire)) = Ok wire"
  proof (cases "format = ReprHex")
    case True
    then have "trimmed (text_line cc format wire) = as_bytes (''0x'' @ cc_hex cc wire)"
      using trimmed_id(1) [OF white] by (simp add: text_line_def)
    from hex_form [OF assms(1) this wire(1)] show ?thesis by simp
  next
    case False
    then have "trimmed (text_line cc format wire) = as_bytes (cc_b64 cc wire)"
      using trimmed_id(1) [OF white] by (simp add: text_line_def)
    from base64_form [OF assms(2) this wire] show ?thesis by simp
  qed
  show "text_line cc format wire \<noteq> []"
    using assms(2) wire(1) by (auto simp: text_line_def base64_ok_def as_bytes_def)
qed

text \<open>The exit codes of \<open>edge envelope --verify\<close>: an input error gives its code, an envelope that does not verify 1 for a
  bad signature and 2 for a malformed one, both with nothing on standard output; otherwise success depends
  only on standard output.\<close>

lemma envelope_exit_table:
  assumes "ev_verify args" and "exit_status (envelope_run lb cc env args) = (os, code)"
  shows "case envelope_input lb cc env args of
      Err e \<Rightarrow> stdout_of os = [] \<and> code = ce_code e \<and> code \<in> {1, 2, 3}
    | Ok (e, wire) \<Rightarrow>
        (case verify_envelope (lb_verify lb) e of
           Err err \<Rightarrow> stdout_of os = [] \<and> code = (if err = BadSignature then 1 else 2)
         | Ok v \<Rightarrow> ve_sensor_id v = SensorId (env_sensor_id e) \<and> (code = 0 \<longleftrightarrow> ce_stdout env = None))"
proof (cases "envelope_input lb cc env args")
  case (Inl e)
  with assms envelope_input_code [OF Inl] show ?thesis
    by (auto simp: envelope_run_def exit_status_def)
next
  case (Inr ew)
  then obtain e wire where ew: "envelope_input lb cc env args = Ok (e, wire)" by (cases ew) auto
  have id: "snd (if ev_id args then print_id lb cc wire else finish) = Some (Ok ())"
    "stdout_of (fst (if ev_id args then print_id lb cc wire else finish)) = []"
    by (simp_all add: print_id_def eprintln_def finish_def)
  show ?thesis
  proof (cases "verify_envelope (lb_verify lb) e")
    case (Inl err)
    with assms ew id verify_error_code [OF Inl] show ?thesis
      by (auto simp: envelope_run_def exit_status_def cmd_seq_def cmd_bind_out [OF id(1)] protocol_err_def with_code_def)
  next
    case (Inr v)
    let ?k = "write_repr cc env e wire (case ev_output args of Some f \<Rightarrow> f | None \<Rightarrow> default_output env)"
    from Inr assms ew have "code = snd (exit_status ?k)"
      by (auto simp: envelope_run_def exit_status_def cmd_seq_def cmd_bind_out [OF id(1)] eprintln_def split: option.splits sum.splits)
    with prints_status [OF write_repr_prints] have "code = 0 \<longleftrightarrow> ce_stdout env = None" by metis
    moreover have "ve_sensor_id v = SensorId (env_sensor_id e)" using Inr by (simp add: verify_envelope_Ok)
    ultimately show ?thesis using Inr ew by simp
  qed
qed

section \<open>Properties\<close>

text \<open>
  C37. \<open>edge envelope --sign\<close> piped into \<open>edge envelope --verify\<close>. Whatever binary, base64 or hexadecimal form the first
  writes, the second reads the same envelope without being told the form, and it exits with 0 exactly when
  the message is not empty and the nonce has 16 to 32 bytes, otherwise with 2.
\<close>

theorem envelope_sign_then_verify:
  assumes "hex_text_ok cc" and "base64_ok cc" and "ed25519_ok (lb_public lb) (lb_sign lb) (lb_verify lb)"
    and "\<forall>e. lb_decode lb (lb_encode lb e) = Ok e"
    and "ev_sign args = Some suri" and "envelope_sign lb cc env suri args = Ok (e, wire)" and "unmistakable cc wire"
    and "\<not> ev_verify args" and "ev_output args = Some format" and "format \<noteq> ReprText" and "ce_stdout env = None"
    and "ev_data args' = None" and "ev_input args' = None" and "ev_sign args' = None" and "ev_verify args'"
    and "ce_stdin env' = Ok (stdout_of (fst (exit_status (envelope_run lb cc env args))))" and "ce_stdout env' = None"
  shows "envelope_input lb cc env' args' = Ok (e, wire) \<and>
    snd (exit_status (envelope_run lb cc env' args')) =
      (if env_message e \<noteq> [] \<and> length (env_nonce e) \<in> {16..32} then 0 else 2)"
proof -
  have "write_repr cc env e wire format = ([Stdout (written cc format wire)], Some (Ok ()))"
    using assms(10,11) by (simp add: write_repr_def write_bytes_out)
  then have "stdout_of (fst (exit_status (envelope_run lb cc env args))) = written cc format wire"
    using assms(5,6,8,9) by (simp add: envelope_run_def envelope_input_def cmd_seq_def exit_status_def
        finish_def print_id_def eprintln_def)
  then have stdin: "ce_stdin env' = Ok (written cc format wire)" using assms(16) by simp
  have "lb_decode lb wire = Ok e" using assms(4) envelope_sign_Ok [OF assms(6)] by metis
  from decode_written [OF assms(1,2,7) this assms(12,13) stdin] assms(14)
  have input: "envelope_input lb cc env' args' = Ok (e, wire)" by (simp add: envelope_input_def)
  obtain k m n where e: "e = sign_message (lb_public lb) (lb_sign lb) (lb_random_nonce lb) k m n"
    by (rule envelope_sign_Ok [OF assms(6)])
  have "env_signature e = lb_sign lb k (signing_payload e)" unfolding e by (rule sign_message_signature)
  then have "length (env_sensor_id e) = 32" "length (env_signature e) = 64"
    "lb_verify lb (env_signature e) (signing_payload e) (env_sensor_id e)"
    using assms(3) sign_message_fields(1) [of "lb_public lb" "lb_sign lb" "lb_random_nonce lb" k m n]
    unfolding e [symmetric] ed25519_ok_def by auto
  then have verified: "(case verify_envelope (lb_verify lb) e of Err err \<Rightarrow> (if err = BadSignature then 1 else 2) | Ok v \<Rightarrow> 0) =
      (if env_message e \<noteq> [] \<and> length (env_nonce e) \<in> {16..32} then 0 else (2 :: nat))"
    by (auto simp: verify_envelope_def validate_envelope_def from_slice_def protocol_consts)
  obtain os code where run: "exit_status (envelope_run lb cc env' args') = (os, code)" by fastforce
  have "code = (case verify_envelope (lb_verify lb) e of Err err \<Rightarrow> (if err = BadSignature then 1 else 2) | Ok v \<Rightarrow> 0)"
    using envelope_exit_table [OF assms(15) run] assms(17) by (simp add: input split: sum.splits)
  with verified run input show ?thesis by simp
qed

text \<open>
  C38. \<open>edge batch --pack\<close> piped into \<open>edge batch\<close>. From lines in hexadecimal or base64 form the first packs the
  decoded envelopes in order, and whatever form it writes, compressed or not, the second decodes to exactly
  these envelopes.
\<close>

theorem batch_pack_then_decode:
  assumes "hex_text_ok cc" and "base64_ok cc" and "\<forall>es. lb_decode_batch lb (lb_encode_batch lb es) = Ok es"
    and "\<forall>b. \<exists>z. lb_zstd lb b = Ok z \<and> lb_unzstd lb z = Ok b \<and> unmistakable cc z"
    and "wires \<noteq> []" and "\<forall>w\<in>set wires. unmistakable cc w" and "line_form \<in> {ReprHex, ReprBase64}"
    and "list_all2 (\<lambda>w e. lb_decode lb w = Ok e) wires es" and "unmistakable cc (lb_encode_batch lb es)"
    and "ba_pack args" and "ba_data args = []" and "ba_input args = None" and "ba_output args = Some format"
    and "format \<noteq> ReprText" and "ce_stdin env = Ok (concat (map (written cc line_form) wires))" and "ce_stdout env = None"
    and "\<not> ba_pack args'" and "ba_data args' = []" and "ba_input args' = None" and "ba_decompress args' = ba_compress args"
    and "ce_stdin env' = Ok (stdout_of (fst (exit_status (batch_run lb cc env args))))"
  shows "batch_pack lb cc env args = Ok es \<and> snd (exit_status (batch_run lb cc env args)) = 0 \<and>
    batch_decode lb cc env' args' = Ok es"
proof -
  let ?ls = "map (text_line cc line_form) wires"
  note line = text_line_read [OF assms(1,2) _ assms(7)]
  have "concat (map (written cc line_form) wires) = concat (map (\<lambda>l. l @ [10]) ?ls)"
    using line(1) assms(6) by (simp add: comp_def cong: map_cong)
  moreover have white: "\<forall>l\<in>set ?ls. (\<forall>b\<in>set l. \<not> white b) \<and> l \<noteq> []" using line(2,4) assms(6) by auto
  then have "\<forall>l\<in>set ?ls. 10 \<notin> set l" by (auto simp: white_def)
  ultimately have "split_on 10 (concat (map (written cc line_form) wires)) = ?ls @ [[]]"
    using split_on_lines by metis
  moreover have "map trimmed ?ls = ?ls" using white trimmed_id(1) by (intro map_idI) blast
  moreover have "filter (\<lambda>l. l \<noteq> []) ?ls = ?ls" using white by (intro filter_True) simp
  ultimately have lines: "pack_lines env args = Ok ?ls"
    by (simp add: pack_lines_def assms(11,15) read_stdin_def trimmed_def [of "[]"] del: map_map)
  have "list_all2 (\<lambda>l e. \<exists>wire. wire_from_input cc l (sniff_byte_format cc l) = Ok wire \<and> lb_decode lb wire = Ok e) ?ls es"
    using assms(8) unfolding list.rel_map
    by (rule list.rel_mono_strong) (use line(3) assms(6) in blast)
  from decode_lines_forms [OF this assms(12)] lines assms(5) have pack: "batch_pack lb cc env args = Ok es"
    by (simp add: batch_pack_def)
  define wire where "wire = lb_encode_batch lb es"
  obtain out where out: "(if ba_compress args then compress_zstd lb wire else Ok wire) = Ok out" "unmistakable cc out"
    "(if ba_compress args then decompress_zstd lb out else Ok out) = Ok wire"
    using assms(4,9) by (cases "ba_compress args") (auto simp: compress_zstd_def decompress_zstd_def wire_def, metis map_err_simps(1))
  have run: "batch_run lb cc env args = ([Stdout (written cc format out)], Some (Ok ()))"
    using pack out(1) assms(10,13,14,16)
    by (cases "ba_compress args") (simp_all add: batch_run_def Let_def wire_def [symmetric] batch_write_repr_def write_bytes_out)
  then have "ce_stdin env' = Ok (written cc format out)" using assms(21) by (simp add: exit_status_def)
  with written_read_back [OF assms(1,2) out(2) refl, of format] out(3) assms(3,17-20)
  have "batch_decode lb cc env' args' = Ok es"
    by (simp add: batch_decode_def batch_wire_or_data_def read_stdin_def batch_byte_format_def input_format_def
        decode_envelope_batch_def wire_def)
  with pack run show ?thesis by (simp add: exit_status_def)
qed

end
