(* ===== verification/CliSensor.thy ===== *)
theory CliSensor
  imports CliEnvelope Ingress
begin

text \<open>
  The command \<open>edge sensor meshtastic\<close> (\<open>cli/sensor.rs\<close>): an envelope is read, cut into frames and sent over a local
  radio, frame by frame, each confirmed by a routing acknowledgement of the mesh. The radio library is a
  parameter: what sending a packet returns and what arrives, with the passing of a deadline as an event. The
  trait \<open>FragmentTransport\<close> is the locale \<open>fragment_transport\<close>: its contract is that success means confirmed, and
  \<open>RadioTransport\<close> is shown to keep it. A command whose environment ends before it does gives \<open>None\<close>.
\<close>

section \<open>Node ids\<close>

text \<open>\<open>u32::from_str_radix\<close> and \<open>str::parse\<close>, with the errors of \<open>ParseIntError\<close>.\<close>

definition to_digit :: "nat \<Rightarrow> char \<Rightarrow> nat option" where
  "to_digit radix c =
     (let n = of_char c :: nat;
          d = (if 48 \<le> n \<and> n \<le> 57 then n - 48 else if 97 \<le> n \<and> n \<le> 122 then n - 87
               else if 65 \<le> n \<and> n \<le> 90 then n - 55 else 36)
      in if d < radix then Some d else None)"

fun radix_digits :: "nat \<Rightarrow> nat \<Rightarrow> string \<Rightarrow> string + nat" where
  "radix_digits radix acc [] = Ok acc"
| "radix_digits radix acc (c # cs) =
     (case to_digit radix c of
        None \<Rightarrow> Err ''invalid digit found in string''
      | Some d \<Rightarrow>
          if 2 ^ 32 \<le> acc * radix + d then Err ''number too large to fit in target type''
          else radix_digits radix (acc * radix + d) cs)"

definition from_str_radix :: "nat \<Rightarrow> string \<Rightarrow> string + u32" where
  "from_str_radix radix s =
     (if s = [] then Err ''cannot parse integer from empty string''
      else if s = ''+'' \<or> s = ''-'' then Err ''invalid digit found in string''
      else map_ok word_of_nat (radix_digits radix 0 (if hd s = CHR ''+'' then drop 1 s else s)))"

definition parse_node_id :: "string \<Rightarrow> string + u32" where
  "parse_node_id input =
     (let trimmed = trim input;
          invalid = map_err (\<lambda>e. ''invalid node id '' @ debug_str trimmed @ '': '' @ e) in
      case strip_prefix ''!'' trimmed of
        Some hex_digits \<Rightarrow> invalid (from_str_radix 16 hex_digits)
      | None \<Rightarrow>
          (case (case strip_prefix ''0x'' trimmed of Some d \<Rightarrow> Some d | None \<Rightarrow> strip_prefix ''0X'' trimmed) of
             Some hex_digits \<Rightarrow> invalid (from_str_radix 16 hex_digits)
           | None \<Rightarrow> invalid (from_str_radix 10 trimmed)))"

section \<open>The radio\<close>

datatype routing_variant = ErrorReason int | OtherRouting

record RadioData =
  rd_portnum :: int
  rd_request_id :: u32
  rd_payload :: bytes

datatype radio_payload = RadioDecoded RadioData | RadioEncrypted

datatype radio_variant = RadioPacket "radio_payload option" | MyInfo u32 | ConfigCompleteId u32 | RadioOther

datatype recv = Received "radio_variant option" | ConnectionClosed | DeadlinePassed

text \<open>Constants and decoding of the Meshtastic protobufs: the port of routing packets, the error code of success,
  the message \<open>Routing\<close>, the names of error codes.\<close>

definition ROUTING_APP :: int where
  "ROUTING_APP = 5"

definition ROUTING_NONE :: int where
  "ROUTING_NONE = 0"

record mesh_libs =
  mb_routing :: "bytes \<Rightarrow> string + routing_variant option"
  mb_error_name :: "int \<Rightarrow> string option"
  mb_valid_port :: "int \<Rightarrow> bool"

definition ack_timed_out :: "u32 \<Rightarrow> string" where
  "ack_timed_out expected_id = ''timed out waiting for ack of packet 0x'' @ hex_fixed 8 (unat expected_id)"

definition is_reply :: "u32 \<Rightarrow> radio_variant option \<Rightarrow> bytes option" where
  "is_reply expected_id v =
     (case v of
        Some (RadioPacket (Some (RadioDecoded d))) \<Rightarrow>
          if rd_portnum d \<noteq> ROUTING_APP \<or> rd_request_id d \<noteq> expected_id then None else Some (rd_payload d)
      | _ \<Rightarrow> None)"

definition ack_result :: "mesh_libs \<Rightarrow> u32 \<Rightarrow> bytes \<Rightarrow> string + unit" where
  "ack_result mb expected_id payload =
     and_then (map_err (\<lambda>e. ''failed to decode routing ack for 0x'' @ hex_fixed 8 (unat expected_id) @ '': '' @ e)
                 (mb_routing mb payload)) (\<lambda>variant.
       case variant of
         Some (ErrorReason err) \<Rightarrow>
           if err = ROUTING_NONE then Ok ()
           else Err (''mesh reported delivery failure: '' @
                  (case mb_error_name mb err of Some n \<Rightarrow> n | None \<Rightarrow> ''UNKNOWN''))
       | _ \<Rightarrow> Ok ())"

fun wait_for_ack :: "mesh_libs \<Rightarrow> u32 \<Rightarrow> recv list \<Rightarrow> ((string + unit) \<times> recv list) option" where
  "wait_for_ack mb expected_id [] = None"
| "wait_for_ack mb expected_id (DeadlinePassed # evs) = Some (Err (ack_timed_out expected_id), evs)"
| "wait_for_ack mb expected_id (ConnectionClosed # evs) =
     Some (Err ''meshtastic serial connection closed while waiting for ack'', evs)"
| "wait_for_ack mb expected_id (Received v # evs) =
     (case is_reply expected_id v of
        None \<Rightarrow> wait_for_ack mb expected_id evs
      | Some payload \<Rightarrow> Some (ack_result mb expected_id payload, evs))"

fun wait_for_ready :: "u32 \<Rightarrow> u32 option \<Rightarrow> bool \<Rightarrow> recv list \<Rightarrow> ((string + u32) \<times> recv list) option" where
  "wait_for_ready config_id node_id completed evs =
     (case (node_id, completed) of
        (Some own, True) \<Rightarrow> Some (Ok own, evs)
      | _ \<Rightarrow>
          (case evs of
             [] \<Rightarrow> None
           | Received v # evs \<Rightarrow>
               (case v of
                  Some (MyInfo my_node_num) \<Rightarrow> wait_for_ready config_id (Some my_node_num) completed evs
                | Some (ConfigCompleteId i) \<Rightarrow> wait_for_ready config_id node_id (completed \<or> i = config_id) evs
                | _ \<Rightarrow> wait_for_ready config_id node_id completed evs)
           | _ # evs \<Rightarrow> Some (Err ''meshtastic configuration handshake timed out'', evs)))"

section \<open>Sending\<close>

text \<open>One packet handed to the library's \<open>send_mesh_packet\<close>: what it returns, with the id it echoed to the router;
  and the state of the transport, with the packets sent and the events taken so far.\<close>

datatype send_result = SendFailed string | SendEchoed "u32 option"

record radio =
  ra_results :: "send_result list"
  ra_incoming :: "recv list"
  ra_taken :: "recv list"
  ra_sent :: "(u32 option \<times> bytes \<times> int \<times> u32) list"

type_synonym 't send_fragment = "bytes \<Rightarrow> int \<Rightarrow> u32 \<Rightarrow> bool \<Rightarrow> 't \<Rightarrow> ((string + unit) \<times> 't) option"

definition radio_send_fragment :: "mesh_libs \<Rightarrow> radio send_fragment" where
  "radio_send_fragment mb fragment port_num destination want_ack t =
     (case ra_results t of
        [] \<Rightarrow> None
      | SendFailed e # results \<Rightarrow> Some (Err e, t\<lparr>ra_results := results\<rparr>)
      | SendEchoed last_sent_id # results \<Rightarrow>
          let t = t\<lparr>ra_results := results, ra_sent := ra_sent t @ [(last_sent_id, fragment, port_num, destination)]\<rparr> in
          if \<not> want_ack then Some (Ok (), t)
          else
            (case last_sent_id of
               None \<Rightarrow> Some (Err ''send_mesh_packet did not echo back a packet id'', t)
             | Some packet_id \<Rightarrow>
                 map_option (\<lambda>(r, incoming).
                     (r, t\<lparr>ra_incoming := incoming,
                           ra_taken := ra_taken t @ take (length (ra_incoming t) - length incoming) (ra_incoming t)\<rparr>))
                   (wait_for_ack mb packet_id (ra_incoming t))))"

definition acked_line :: "cli_env \<Rightarrow> nat \<Rightarrow> nat \<Rightarrow> bytes \<Rightarrow> out" where
  "acked_line env index n_all fragment =
     Stderr (''  '' @ ce_dim env ''->'' @ '' fragment '' @ show_nat (index + 1) @ ''/'' @ show_nat n_all @ '': '' @
       ce_green env ''acked'' @ '' ('' @ show_nat (length fragment) @ '' bytes)'')"

fun submit_loop ::
  "'t send_fragment \<Rightarrow> cli_env \<Rightarrow> int \<Rightarrow> u32 \<Rightarrow> nat \<Rightarrow> nat \<Rightarrow> bytes list \<Rightarrow> 't
    \<Rightarrow> (out list \<times> ((nat \<times> string) + unit) \<times> 't) option" where
  "submit_loop send env port_num destination n_all index [] t = Some ([], Ok (), t)"
| "submit_loop send env port_num destination n_all index (fragment # fragments) t =
     (case send fragment port_num destination True t of
        None \<Rightarrow> None
      | Some (Err e, t') \<Rightarrow> Some ([], Err (index, e), t')
      | Some (Ok _, t') \<Rightarrow>
          map_option (\<lambda>(os, r, t''). (acked_line env index n_all fragment # os, r, t''))
            (submit_loop send env port_num destination n_all (index + 1) fragments t'))"

definition submit_fragments ::
  "'t send_fragment \<Rightarrow> cli_env \<Rightarrow> bytes list \<Rightarrow> int \<Rightarrow> u32 \<Rightarrow> 't \<Rightarrow> (out list \<times> ((nat \<times> string) + unit) \<times> 't) option" where
  "submit_fragments send env fragments port_num destination t =
     submit_loop send env port_num destination (length fragments) 0 fragments t"

section \<open>The command\<close>

record MeshtasticArgs =
  sm_device :: string
  sm_gateway :: string
  sm_port_num :: u32

text \<open>The serial device as the command meets it: opening it, the handshake's request, and what the radio does.\<close>

record serial_io =
  si_open :: "string \<Rightarrow> string + unit"
  si_config_id :: u32
  si_configure :: "string + unit"
  si_runtime :: "string + unit"
  si_handshake :: "recv list"
  si_radio :: radio

text \<open>The message of an encoding error (\<open>frame.rs\<close>).\<close>

fun show_encode_error :: "EncodeError \<Rightarrow> string" where
  "show_encode_error EncodeEmptyPayload = ''empty payload''"
| "show_encode_error (EncodeTooManyFragments n) =
     ''payload requires '' @ show_nat n @ '' fragments, exceeding the maximum of '' @ show_nat MAX_FRAGMENT_COUNT"

definition failed_line :: "cli_env \<Rightarrow> nat \<Rightarrow> bytes list \<Rightarrow> string \<Rightarrow> out" where
  "failed_line env index fragments e =
     Stderr (''  '' @ ce_dim env ''->'' @ '' fragment '' @ show_nat (index + 1) @ ''/'' @ show_nat (length fragments) @
       '' ('' @ show_nat (length (fragments ! index)) @ '' bytes): '' @ ce_bold env (ce_red env ''failed:'') @ '' '' @ e)"

definition serial_report :: "cli_env \<Rightarrow> bytes list \<Rightarrow> out list \<Rightarrow> (nat \<times> string) + unit \<Rightarrow> CliResult" where
  "serial_report env fragments os r =
     (case r of
        Ok _ \<Rightarrow> (os, Some (Ok ()))
      | Err (index, e) \<Rightarrow>
          (os @ [failed_line env index fragments e],
           Some (Err (runtime (''failed to deliver fragment '' @ show_nat (index + 1) @ ''/'' @
             show_nat (length fragments) @ '' ('' @ show_nat (length (fragments ! index)) @ '' bytes): '' @ e)))))"

text \<open>The result comes with the radio's final state.\<close>

definition send_over_serial ::
  "mesh_libs \<Rightarrow> serial_io \<Rightarrow> cli_env \<Rightarrow> string \<Rightarrow> u32 \<Rightarrow> int \<Rightarrow> bytes list \<Rightarrow> (CliResult \<times> radio) option" where
  "send_over_serial mb io env device gateway port_num fragments =
     (let failed = (\<lambda>m. Some (of_result (Err (runtime m)), si_radio io)) in
      case si_open io device of
        Err e \<Rightarrow> failed (''failed to open serial device '' @ device @ '': '' @ e)
      | Ok _ \<Rightarrow>
          (case si_configure io of
             Err e \<Rightarrow> failed (''failed to configure meshtastic session: '' @ e)
           | Ok _ \<Rightarrow>
               (case wait_for_ready (si_config_id io) None False (si_handshake io) of
                  None \<Rightarrow> None
                | Some (Err e, _) \<Rightarrow> failed e
                | Some (Ok _, incoming) \<Rightarrow>
                    map_option (\<lambda>(os, r, t). (serial_report env fragments os r, t))
                      (submit_fragments (radio_send_fragment mb) env fragments port_num gateway
                         ((si_radio io)\<lparr>ra_incoming := incoming @ ra_incoming (si_radio io)\<rparr>)))))"

definition parse_port :: "mesh_libs \<Rightarrow> u32 \<Rightarrow> CliError + int" where
  "parse_port mb port_num =
     (if unat port_num < 2 ^ 31 \<and> mb_valid_port mb (uint port_num) then Ok (uint port_num)
      else Err (usage (''invalid --port-num '' @ show_nat (unat port_num) @
             '': not a PortNum this Meshtastic SDK build can represent (default 256 = PRIVATE_APP)'')))"

definition node_text :: "u32 \<Rightarrow> string" where
  "node_text gateway = CHR ''!'' # hex_fixed 8 (unat gateway)"

text \<open>Everything before the device is touched: arguments, the envelope, its frames.\<close>

definition prepare ::
  "'k libs \<Rightarrow> mesh_libs \<Rightarrow> cli_env \<Rightarrow> MeshtasticArgs \<Rightarrow> CliError + (u32 \<times> int \<times> bytes \<times> bytes list)" where
  "prepare lb mb env args =
     and_then (map_err (\<lambda>e. usage (''invalid --gateway: '' @ e)) (parse_node_id (sm_gateway args))) (\<lambda>gateway.
     and_then (parse_port mb (sm_port_num args)) (\<lambda>port_num.
     and_then (read_stdin env) (\<lambda>raw.
     and_then (map_err protocol_err (decode_envelope (lb_decode lb) raw)) (\<lambda>_.
     map_ok (\<lambda>fragments. (gateway, port_num, raw, fragments))
       (map_err (\<lambda>e. with_code 3 (show_encode_error e)) (encode_frames (lb_sha256 lb) raw))))))"

definition send_header ::
  "'k libs \<Rightarrow> codecs \<Rightarrow> cli_env \<Rightarrow> u32 \<Rightarrow> bytes \<Rightarrow> bytes list \<Rightarrow> CliResult" where
  "send_header lb cc env gateway raw fragments =
     cmd_all
       [heading_err env ''S'' ''edge sensor meshtastic'',
        line_err env 0 False ''#'' (''envelope_id: '' @ envelope_id_to_hex (cc_hex cc) (envelope_id (lb_sha256 lb) raw)),
        line_err env 0 False ''M'' (''meshtastic_message_id: 0x'' @ cc_hex cc (message_id (lb_sha256 lb) raw)),
        line_err env 0 False ''G'' (''gateway: '' @ node_text gateway),
        line_err env 0 False ''B'' (''payload: '' @ show_nat (length raw) @ '' bytes ('' @
          show_nat (sum_list (map length fragments)) @ '' bytes on-air across fragments)''),
        line_err env 0 True ''F'' (''fragments: '' @ show_nat (length fragments))]"

definition run_meshtastic ::
  "'k libs \<Rightarrow> codecs \<Rightarrow> mesh_libs \<Rightarrow> serial_io \<Rightarrow> cli_env \<Rightarrow> MeshtasticArgs \<Rightarrow> (CliResult \<times> radio) option" where
  "run_meshtastic lb cc mb io env args =
     (case prepare lb mb env args of
        Err e \<Rightarrow> Some (of_result (Err e), si_radio io)
      | Ok (gateway, port_num, raw, fragments) \<Rightarrow>
          let header = send_header lb cc env gateway raw fragments in
          (case si_runtime io of
             Err e \<Rightarrow> Some (cmd_seq header (of_result (Err (runtime (''failed to start async runtime: '' @ e)))), si_radio io)
           | Ok _ \<Rightarrow>
               map_option (\<lambda>(r, t).
                   (cmd_seq header (cmd_seq r
                      (eprintln (ce_bold env (ce_green env ''delivered'') @ '' '' @ show_nat (length fragments) @
                         '' fragments ('' @ show_nat (sum_list (map length fragments)) @ '' bytes) to '' @
                         ce_label env (node_text gateway)))), t))
                 (send_over_serial mb io env (sm_device args) gateway port_num fragments)))"

section \<open>The contract of a transport\<close>

text \<open>Success means that the fragment was sent and confirmed; what is confirmed stays so; a failed call sends the
  fragment at most once.\<close>

locale fragment_transport =
  fixes send :: "'t send_fragment"
    and sent :: "'t \<Rightarrow> (bytes \<times> int \<times> u32) list"
    and confirmed :: "'t \<Rightarrow> bytes \<times> int \<times> u32 \<Rightarrow> bool"
  assumes send_ok: "send f p d True t = Some (Ok (), t') \<Longrightarrow> sent t' = sent t @ [(f, p, d)] \<and> confirmed t' (f, p, d)"
    and send_keeps: "send f p d True t = Some (r, t') \<Longrightarrow> confirmed t x \<Longrightarrow> confirmed t' x"
    and send_err: "send f p d True t = Some (Err e, t') \<Longrightarrow> \<exists>n\<le>1. sent t' = sent t @ take n [(f, p, d)]"
begin

lemma submit_keeps:
  "submit_loop send env p d n_all index fs t = Some (os, r, t') \<Longrightarrow> confirmed t x \<Longrightarrow> confirmed t' x"
proof (induction fs arbitrary: index t os)
  case (Cons f fs)
  then show ?case by (auto split: option.splits sum.splits prod.splits dest: send_keeps)
qed simp

lemma submit_ok:
  assumes "submit_loop send env p d n_all index fs t = Some (os, Ok (), t')"
  shows "sent t' = sent t @ map (\<lambda>f. (f, p, d)) fs \<and> (\<forall>f\<in>set fs. confirmed t' (f, p, d))"
  using assms
proof (induction fs arbitrary: index t os)
  case (Cons f fs)
  then obtain t1 os1 where step: "send f p d True t = Some (Ok (), t1)"
    and rest: "submit_loop send env p d n_all (index + 1) fs t1 = Some (os1, Ok (), t')"
    by (auto split: option.splits sum.splits prod.splits)
  from send_ok [OF step] Cons.IH [OF rest] submit_keeps [OF rest] show ?case by auto
qed simp

lemma submit_prefix:
  assumes "submit_loop send env p d n_all index fs t = Some (os, r, t')"
  shows "\<exists>n. sent t' = sent t @ take n (map (\<lambda>f. (f, p, d)) fs)"
  using assms
proof (induction fs arbitrary: index t os)
  case (Cons f fs)
  from Cons.prems consider (err) e t1 where "send f p d True t = Some (Err e, t1)" "t' = t1"
    | (ok) t1 os1 where "send f p d True t = Some (Ok (), t1)"
        "submit_loop send env p d n_all (index + 1) fs t1 = Some (os1, r, t')"
    by (auto split: option.splits sum.splits prod.splits)
  then show ?case
  proof cases
    case err
    with send_err [of f p d t e t1] obtain n where "n \<le> 1" "sent t' = sent t @ take n [(f, p, d)]" by auto
    then show ?thesis by (intro exI [of _ n]) (cases n; simp)
  next
    case ok
    with send_ok [OF ok(1)] Cons.IH [OF ok(2)] obtain n where
      "sent t' = sent t @ (f, p, d) # take n (map (\<lambda>f. (f, p, d)) fs)" by auto
    then show ?thesis by (intro exI [of _ "Suc n"]) simp
  qed
qed simp

end

text \<open>The radio keeps it: a fragment is confirmed by a routing packet for the id it was sent with that reports no
  error.\<close>

definition radio_sent :: "radio \<Rightarrow> (bytes \<times> int \<times> u32) list" where
  "radio_sent t = map snd (ra_sent t)"

definition radio_confirmed :: "mesh_libs \<Rightarrow> radio \<Rightarrow> bytes \<times> int \<times> u32 \<Rightarrow> bool" where
  "radio_confirmed mb t x \<longleftrightarrow>
     (\<exists>packet_id v payload. (Some packet_id, x) \<in> set (ra_sent t) \<and> Received v \<in> set (ra_taken t) \<and>
        is_reply packet_id v = Some payload \<and> ack_result mb packet_id payload = Ok ())"

lemma wait_for_ack_ok:
  "wait_for_ack mb i evs = Some (Ok (), rest) \<Longrightarrow>
     \<exists>pre v payload. evs = pre @ Received v # rest \<and> is_reply i v = Some payload \<and> ack_result mb i payload = Ok ()"
proof (induction mb i evs rule: wait_for_ack.induct)
  case (4 mb i v evs)
  show ?case
  proof (cases "is_reply i v")
    case None
    with 4 obtain pre w payload where "evs = pre @ Received w # rest" "is_reply i w = Some payload" "ack_result mb i payload = Ok ()"
      by auto
    then show ?thesis by (intro exI [of _ "Received v # pre"]) auto
  qed (use 4 in \<open>auto intro: exI [of _ "[]"]\<close>)
qed auto

lemma wait_for_ack_ends: "DeadlinePassed \<in> set evs \<Longrightarrow> \<exists>r rest. wait_for_ack mb i evs = Some (r, rest)"
  by (induction mb i evs rule: wait_for_ack.induct) (auto split: option.splits)

interpretation rt: fragment_transport "radio_send_fragment mb" radio_sent "radio_confirmed mb" for mb
proof
  fix f p d t t'
  assume send: "radio_send_fragment mb f p d True t = Some (Ok (), t')"
  then obtain i results rest where res: "ra_results t = SendEchoed (Some i) # results"
    and wait: "wait_for_ack mb i (ra_incoming t) = Some (Ok (), rest)"
    and t': "t' = t\<lparr>ra_results := results, ra_sent := ra_sent t @ [(Some i, f, p, d)], ra_incoming := rest,
               ra_taken := ra_taken t @ take (length (ra_incoming t) - length rest) (ra_incoming t)\<rparr>"
    by (auto simp: radio_send_fragment_def Let_def split: list.splits send_result.splits option.splits)
  from wait_for_ack_ok [OF wait] obtain pre v payload where v: "ra_incoming t = pre @ Received v # rest"
    "is_reply i v = Some payload" "ack_result mb i payload = Ok ()" by blast
  then have "Received v \<in> set (ra_taken t')" by (simp add: t')
  with v show "radio_sent t' = radio_sent t @ [(f, p, d)] \<and> radio_confirmed mb t' (f, p, d)"
    by (auto simp: radio_sent_def radio_confirmed_def t')
next
  fix f p d t r t' x
  assume "radio_send_fragment mb f p d True t = Some (r, t')" and "radio_confirmed mb t x"
  then show "radio_confirmed mb t' x"
    by (fastforce simp: radio_send_fragment_def Let_def radio_confirmed_def split: list.splits send_result.splits option.splits)
next
  fix f p d t e t'
  assume "radio_send_fragment mb f p d True t = Some (Err e, t')"
  then consider "radio_sent t' = radio_sent t" | "radio_sent t' = radio_sent t @ [(f, p, d)]"
    by (auto simp: radio_send_fragment_def Let_def radio_sent_def split: list.splits send_result.splits option.splits)
  then show "\<exists>n\<le>1. radio_sent t' = radio_sent t @ take n [(f, p, d)]"
    by cases (auto intro: exI [of _ 0] exI [of _ 1])
qed

section \<open>Lemmas\<close>

lemma header_ok: "snd (send_header lb cc env gateway raw fragments) = Some (Ok ())"
  by (simp add: send_header_def heading_err_def line_err_def eprintln_def cmd_seq_def finish_def)

lemma after_header: "snd (cmd_seq (send_header lb cc env gateway raw fragments) k) = snd k"
  by (simp add: cmd_seq_def cmd_bind_out [OF header_ok])

lemma serial_report_ok: "snd (serial_report env fragments os r) = Some (Ok ()) \<longleftrightarrow> r = Ok ()"
  by (auto simp: serial_report_def split: sum.splits prod.splits)

lemma serial_result:
  assumes "send_over_serial mb io env device gateway p fragments = Some (r, t)"
  shows "(\<exists>n. radio_sent t = radio_sent (si_radio io) @ take n (map (\<lambda>f. (f, p, gateway)) fragments)) \<and>
    (snd r = Some (Ok ()) \<longrightarrow>
      radio_sent t = radio_sent (si_radio io) @ map (\<lambda>f. (f, p, gateway)) fragments \<and>
      (\<forall>f\<in>set fragments. radio_confirmed mb t (f, p, gateway)))"
proof -
  from assms consider (early) "t = si_radio io" "snd r \<noteq> Some (Ok ())"
    | (sent) os res incoming where "submit_fragments (radio_send_fragment mb) env fragments p gateway
          ((si_radio io)\<lparr>ra_incoming := incoming\<rparr>) = Some (os, res, t)" "snd r = Some (Ok ()) \<longrightarrow> res = Ok ()"
    by (auto simp: send_over_serial_def Let_def serial_report_ok split: sum.splits option.splits prod.splits)
  then show ?thesis
  proof cases
    case early
    then show ?thesis by (auto intro: exI [of _ 0])
  next
    case sent
    have log: "radio_sent ((si_radio io)\<lparr>ra_incoming := incoming\<rparr>) = radio_sent (si_radio io)" by (simp add: radio_sent_def)
    note submitted = sent(1) [unfolded submit_fragments_def]
    have "res = Ok () \<Longrightarrow> radio_sent t = radio_sent (si_radio io) @ map (\<lambda>f. (f, p, gateway)) fragments \<and>
      (\<forall>f\<in>set fragments. radio_confirmed mb t (f, p, gateway))"
      using rt.submit_ok [of mb env p gateway _ 0 fragments] submitted unfolding log [symmetric] by blast
    with rt.submit_prefix [OF submitted] sent(2) show ?thesis unfolding log by blast
  qed
qed

lemma run_result:
  assumes "run_meshtastic lb cc mb io env args = Some (r, t)"
  shows "case prepare lb mb env args of
      Err e \<Rightarrow> r = of_result (Err e) \<and> radio_sent t = radio_sent (si_radio io)
    | Ok (gateway, p, raw, fragments) \<Rightarrow>
        (\<exists>n. radio_sent t = radio_sent (si_radio io) @ take n (map (\<lambda>f. (f, p, gateway)) fragments)) \<and>
        (snd r = Some (Ok ()) \<longrightarrow>
           radio_sent t = radio_sent (si_radio io) @ map (\<lambda>f. (f, p, gateway)) fragments \<and>
           (\<forall>f\<in>set fragments. radio_confirmed mb t (f, p, gateway)))"
proof (cases "prepare lb mb env args")
  case (Inr x)
  obtain gateway p raw fragments where x: "x = (gateway, p, raw, fragments)" by (metis prod.exhaust)
  show ?thesis
  proof (cases "si_runtime io")
    case Inl
    with assms Inr x have "t = si_radio io" "snd r \<noteq> Some (Ok ())"
      by (auto simp: run_meshtastic_def Let_def after_header)
    then show ?thesis by (auto simp: Inr x intro: exI [of _ 0])
  next
    case runtime: Inr
    with assms Inr x obtain r' where serial: "send_over_serial mb io env (sm_device args) gateway p fragments = Some (r', t)"
      and r: "snd r = Some (Ok ()) \<longrightarrow> snd r' = Some (Ok ())"
      by (auto simp: run_meshtastic_def Let_def after_header cmd_seq_def cmd_bind_Ok)
    from serial_result [OF serial] r show ?thesis by (simp add: Inr x)
  qed
qed (use assms in \<open>simp add: run_meshtastic_def\<close>)

section \<open>Properties\<close>

text \<open>
  C39. Success of \<open>edge sensor meshtastic\<close> means confirmed delivery. Whatever the radio does, the packets sent
  are an initial part of the frames of the envelope on standard input, each once, in order, on the configured
  port to the configured gateway; nothing is sent when an argument or the envelope is wrong; and the command
  succeeds only after a routing packet without error has arrived for the id of every frame.
\<close>

theorem sensor_delivery_confirmed:
  assumes "run_meshtastic lb cc mb io env args = Some (r, t)"
  shows "case prepare lb mb env args of
      Err e \<Rightarrow> r = of_result (Err e) \<and> radio_sent t = radio_sent (si_radio io)
    | Ok (gateway, p, raw, fragments) \<Rightarrow>
        (\<exists>n. radio_sent t = radio_sent (si_radio io) @ take n (map (\<lambda>f. (f, p, gateway)) fragments)) \<and>
        (snd r = Some (Ok ()) \<longrightarrow>
           radio_sent t = radio_sent (si_radio io) @ map (\<lambda>f. (f, p, gateway)) fragments \<and>
           (\<forall>f\<in>set fragments. radio_confirmed mb t (f, p, gateway)))"
  by (rule run_result [OF assms])

text \<open>
  C40. From the sensor to the gateway. Packets of an envelope that \<open>edge envelope --sign\<close> made and \<open>edge sensor
  meshtastic\<close> sent with success arrive at a gateway session in any order, each any number of times, on its port
  with room for an assembly and nothing else in between. Then the session passes on exactly that envelope with its
  exact bytes, which verifies, each time all packets the radio sent have arrived since it last did: at least once
  if every packet arrives, and no more often than the rarest one does. Every packet was sent to the port and confirmed.
\<close>

theorem sensor_reaches_gateway:
  assumes "ed25519_ok (lb_public lb) (lb_sign lb) (lb_verify lb)" and "\<forall>e. lb_decode lb (lb_encode lb e) = Ok e"
    and "digest_len (lb_sha256 lb)"
    and "envelope_sign lb cc env0 suri args0 = Ok (e, wire)" and "env_message e \<noteq> []" and "length (env_nonce e) \<in> {16..32}"
    and "ce_stdin env = Ok wire" and "run_meshtastic lb cc mb io env args = Some (r, t)" and "snd r = Some (Ok ())"
    and "radio_sent (si_radio io) = []" and "mc_port_num config = port" and "uint (sm_port_num args) = sint port"
    and "set (map (snd \<circ> snd) arr) \<subseteq> (\<lambda>(f, _, _). f) ` set (radio_sent t)"
    and "map_of (re_assemblies re) (s, message_id (lb_sha256 lb) wire) = None"
    and "length (fragments_of (lb_sha256 lb) wire) \<le> max_fragments (re_config re)"
    and "length (re_assemblies re) < max_pending (re_config re)"
    and "sender_pending re s < max_pending_per_sender (re_config re)"
    and "length wire \<le> max_reassembled_bytes (re_config re)"
  shows "(\<exists>re' ms. session_loop (lb_sha256 lb) (lb_decode lb) config (map (frame_event config s) arr) re =
      Some (None, map (passed_on e wire s) (completions ((\<lambda>(f, _, _). f) ` set (radio_sent t)) {} arr), re', ms)) \<and>
    (completions ((\<lambda>(f, _, _). f) ` set (radio_sent t)) {} arr \<noteq> [] \<longleftrightarrow>
      (\<lambda>(f, _, _). f) ` set (radio_sent t) \<subseteq> set (map (snd \<circ> snd) arr)) \<and>
    (\<forall>w\<in>(\<lambda>(f, _, _). f) ` set (radio_sent t).
      length (completions ((\<lambda>(f, _, _). f) ` set (radio_sent t)) {} arr) \<le> count_list (map (snd \<circ> snd) arr) w) \<and>
    (\<exists>v. verify_envelope (lb_verify lb) e = Ok v \<and> ve_sensor_id v = SensorId (env_sensor_id e)) \<and>
    (\<forall>x\<in>set (radio_sent t). \<exists>f gateway. x = (f, sint (mc_port_num config), gateway) \<and> radio_confirmed mb t x)"
proof -
  obtain k m n where e: "e = sign_message (lb_public lb) (lb_sign lb) (lb_random_nonce lb) k m n" and wire: "wire = lb_encode lb e"
    by (rule envelope_sign_Ok [OF assms(4)])
  have sig: "env_signature e = lb_sign lb k (signing_payload e)" "env_sensor_id e = lb_public lb k"
    unfolding e by (rule sign_message_signature, rule sign_message_fields(1))
  have verified: "\<exists>v. verify_envelope (lb_verify lb) e = Ok v \<and> ve_sensor_id v = SensorId (env_sensor_id e)"
    using assms(1,5,6) sig by (simp add: verify_envelope_Ok validate_envelope_Ok ed25519_ok_def protocol_consts)
  have dec: "lb_decode lb wire = Ok e" using assms(2) wire by simp
  from run_result [OF assms(8)] assms(9) obtain gateway p raw frames where prep: "prepare lb mb env args = Ok (gateway, p, raw, frames)"
    and sent: "radio_sent t = map (\<lambda>f. (f, p, gateway)) frames" "\<forall>f\<in>set frames. radio_confirmed mb t (f, p, gateway)"
    by (auto simp: assms(10) of_result_def split: sum.splits)
  from prep assms(7) have raw: "raw = wire" "encode_frames (lb_sha256 lb) wire = Ok frames" and p: "p = uint (sm_port_num args)"
    by (auto simp: prepare_def and_then_Ok map_ok_is_Ok map_err_is_Ok read_stdin_def parse_port_def split: if_splits)
  have all: "(\<lambda>(f, _, _). f) ` set (radio_sent t) = set frames" unfolding sent(1) by (simp add: image_image)
  note arrive = frames_arrive [where dec = "lb_decode lb" and s = s and config = config,
    OF assms(3) raw(2) dec assms(13) [unfolded all] assms(14-18)]
  have ports: "\<forall>x\<in>set (radio_sent t). \<exists>f gateway. x = (f, sint (mc_port_num config), gateway) \<and> radio_confirmed mb t x"
    using sent p assms(11,12) by auto
  show ?thesis unfolding all using arrive verified ports by blast
qed

end
