(* ===== verification/Float64.thy ===== *)
theory Float64
  imports StdText Complex_Main
begin

text \<open>
  The \<open>f64\<close> of Rust as far as the command line uses it: IEEE double precision with round to nearest even,
  multiplication and division, \<open>round\<close>, \<open>max\<close>, the saturating conversions to integers, and the decimal
  parser and printer of the standard library. Magnitudes are rationals; the sign of zero is kept.
\<close>

datatype f64 = NaN | Inf bool | Fin bool rat

section \<open>Rounding\<close>

fun bits :: "nat \<Rightarrow> nat" where
  "bits n = (if n = 0 then 0 else Suc (bits (n div 2)))"

declare bits.simps [simp del]

text \<open>The binary exponent of a positive rational: \<open>2 ^ lg q \<le> q < 2 ^ (lg q + 1)\<close>.\<close>

definition lg :: "rat \<Rightarrow> int" where
  "lg q =
     (let (a, b) = quotient_of q;
          k = int (bits (nat a)) - int (bits (nat b))
      in if 2 powi k \<le> q then k else k - 1)"

definition rne :: "rat \<Rightarrow> int" where
  "rne x =
     (let f = \<lfloor>x\<rfloor>; d = x - of_int f in
      if d < 1 / 2 then f else if 1 / 2 < d then f + 1 else if even f then f else f + 1)"

text \<open>The nearest double of a magnitude: 53 bits, down to the subnormal numbers, infinity above the range.\<close>

definition fl :: "bool \<Rightarrow> rat \<Rightarrow> f64" where
  "fl s q =
     (if q = 0 then Fin s 0
      else let e = max (lg q - 52) (- 1074);
               v = of_int (rne (q / 2 powi e)) * 2 powi e
           in if 2 powi 1024 \<le> v then Inf s else Fin s v)"

section \<open>Operations\<close>

fun f64_mul :: "f64 \<Rightarrow> f64 \<Rightarrow> f64" where
  "f64_mul (Fin s a) (Fin t b) = fl (s \<noteq> t) (a * b)"
| "f64_mul (Inf s) (Inf t) = Inf (s \<noteq> t)"
| "f64_mul (Inf s) (Fin t b) = (if b = 0 then NaN else Inf (s \<noteq> t))"
| "f64_mul (Fin s a) (Inf t) = (if a = 0 then NaN else Inf (s \<noteq> t))"
| "f64_mul _ _ = NaN"

text \<open>Division by a positive constant.\<close>

fun f64_div :: "f64 \<Rightarrow> nat \<Rightarrow> f64" where
  "f64_div (Fin s a) n = fl s (a / of_nat n)"
| "f64_div x n = x"

text \<open>\<open>round\<close> rounds half away from zero.\<close>

fun f64_round :: "f64 \<Rightarrow> f64" where
  "f64_round (Fin s a) = Fin s (of_int \<lfloor>a + 1 / 2\<rfloor>)"
| "f64_round x = x"

text \<open>\<open>max(0.0)\<close>.\<close>

fun f64_max_zero :: "f64 \<Rightarrow> f64" where
  "f64_max_zero (Fin s a) = (if s then Fin False 0 else Fin s a)"
| "f64_max_zero (Inf s) = (if s then Fin False 0 else Inf s)"
| "f64_max_zero NaN = Fin False 0"

text \<open>\<open>as i32\<close> and \<open>as u32\<close>: towards zero, saturating, and zero for NaN.\<close>

type_synonym i32 = "32 word"

definition clamp_int :: "int \<Rightarrow> int \<Rightarrow> int \<Rightarrow> int" where
  "clamp_int lo hi x = max lo (min hi x)"

fun f64_trunc :: "int \<Rightarrow> int \<Rightarrow> f64 \<Rightarrow> int" where
  "f64_trunc lo hi NaN = 0"
| "f64_trunc lo hi (Inf s) = (if s then lo else hi)"
| "f64_trunc lo hi (Fin s a) = clamp_int lo hi (if s then - \<lfloor>a\<rfloor> else \<lfloor>a\<rfloor>)"

definition f64_as_i32 :: "f64 \<Rightarrow> i32" where
  "f64_as_i32 x = word_of_int (f64_trunc (- (2 ^ 31)) (2 ^ 31 - 1) x)"

definition f64_as_u32 :: "f64 \<Rightarrow> u32" where
  "f64_as_u32 x = word_of_int (f64_trunc 0 (2 ^ 32 - 1) x)"

text \<open>\<open>as f64\<close> is exact on 32-bit integers.\<close>

definition i32_as_f64 :: "i32 \<Rightarrow> f64" where
  "i32_as_f64 w = Fin (sint w < 0) (of_int \<bar>sint w\<bar>)"

definition u32_as_f64 :: "u32 \<Rightarrow> f64" where
  "u32_as_f64 w = Fin False (of_nat (unat w))"

section \<open>Text\<close>

text \<open>\<open>{:.p}\<close>: decimal with \<open>p\<close> digits after the point, half to even.\<close>

fun dec_fixed :: "nat \<Rightarrow> nat \<Rightarrow> string" where
  "dec_fixed 0 n = []"
| "dec_fixed (Suc k) n = dec_fixed k (n div 10) @ [char_of (48 + n mod 10)]"

fun show_fixed :: "nat \<Rightarrow> f64 \<Rightarrow> string" where
  "show_fixed p NaN = ''NaN''"
| "show_fixed p (Inf s) = (if s then ''-inf'' else ''inf'')"
| "show_fixed p (Fin s a) =
     (let n = nat (rne (a * 10 ^ p)) in
      (if s then ''-'' else []) @ show_nat (n div 10 ^ p) @ (if p = 0 then [] else CHR ''.'' # dec_fixed p n))"

text \<open>\<open>str::parse::<f64>\<close>. The exponent stops growing at the bound of the library.\<close>

definition is_digit :: "char \<Rightarrow> bool" where
  "is_digit c \<longleftrightarrow> (let n = of_char c :: nat in 48 \<le> n \<and> n \<le> 57)"

definition digits_value :: "string \<Rightarrow> nat" where
  "digits_value s = foldl (\<lambda>acc c. acc * 10 + (of_char c - 48)) 0 s"

definition exponent_value :: "string \<Rightarrow> nat" where
  "exponent_value s = foldl (\<lambda>acc c. if acc < 0x10000 then acc * 10 + (of_char c - 48) else acc) 0 s"

definition parse_exponent :: "string \<Rightarrow> int option" where
  "parse_exponent s =
     (case s of
        [] \<Rightarrow> Some 0
      | c # r \<Rightarrow>
          if c = CHR ''e'' \<or> c = CHR ''E''
          then let neg = (r \<noteq> [] \<and> hd r = CHR ''-'');
                   ds = (if r \<noteq> [] \<and> (hd r = CHR ''-'' \<or> hd r = CHR ''+'') then drop 1 r else r)
               in if ds \<noteq> [] \<and> list_all is_digit ds
                  then Some (if neg then - int (exponent_value ds) else int (exponent_value ds)) else None
          else None)"

definition parse_decimal :: "string \<Rightarrow> rat option" where
  "parse_decimal s =
     (let ip = takeWhile is_digit s;
          r = dropWhile is_digit s;
          (fp, r) = (case r of
                       c # r' \<Rightarrow> if c = CHR ''.'' then (takeWhile is_digit r', dropWhile is_digit r') else ([], r)
                     | [] \<Rightarrow> ([], r))
      in if ip = [] \<and> fp = [] then None
         else map_option (\<lambda>e. of_nat (digits_value (ip @ fp)) * 10 powi (e - int (length fp))) (parse_exponent r))"

definition parse_f64 :: "string \<Rightarrow> string + f64" where
  "parse_f64 s =
     (if s = [] then Err ''cannot parse float from empty string''
      else let neg = (hd s = CHR ''-'');
               t = (if hd s = CHR ''-'' \<or> hd s = CHR ''+'' then drop 1 s else s) in
           case parse_decimal t of
             Some q \<Rightarrow> Ok (fl neg q)
           | None \<Rightarrow>
               if ascii_lower t \<in> {''inf'', ''infinity''} then Ok (Inf neg)
               else if ascii_lower t = ''nan'' then Ok NaN
               else Err ''invalid float literal'')"

section \<open>Lemmas\<close>

lemma bits_bound: "0 < n \<Longrightarrow> 2 ^ (bits n - 1) \<le> n \<and> n < 2 ^ bits n \<and> 0 < bits n"
proof (induction n rule: bits.induct)
  case (1 n)
  show ?case
  proof (cases "n < 2")
    case True
    with 1(2) have "n = 1" by simp
    then show ?thesis by (simp add: bits.simps [of "Suc 0"] bits.simps [of 0])
  next
    case False
    then have ih: "2 ^ (bits (n div 2) - 1) \<le> n div 2" "n div 2 < 2 ^ bits (n div 2)" "0 < bits (n div 2)"
      using 1 by simp_all
    moreover obtain k where "bits (n div 2) = Suc k" using ih(3) gr0_conv_Suc by blast
    ultimately show ?thesis using 1(2) by (subst (1 2 3) bits.simps) auto
  qed
qed

lemma powi_2_pos [simp]: "0 < (2 :: rat) powi k"
  by (simp add: zero_less_power_int)

lemma powi_2_mono: "a \<le> b \<Longrightarrow> (2 :: rat) powi a \<le> 2 powi b"
  by (rule power_int_increasing) simp_all

lemma lg_bounds:
  assumes "0 < q"
  shows "2 powi lg q \<le> q" and "q < 2 powi (lg q + 1)"
proof -
  obtain a b where ab: "quotient_of q = (a, b)" by fastforce
  have b: "0 < b" using quotient_of_denom_pos [OF ab] .
  have q: "q = of_int a / of_int b" using quotient_of_div [OF ab] .
  have a: "0 < a" using assms b unfolding q by (simp add: zero_less_divide_iff)
  define m n where "m = bits (nat a)" and "n = bits (nat b)"
  have ba: "2 ^ (m - 1) \<le> nat a" "nat a < 2 ^ m" "0 < m" and bb: "2 ^ (n - 1) \<le> nat b" "nat b < 2 ^ n" "0 < n"
    using bits_bound [of "nat a"] bits_bound [of "nat b"] a b by (simp_all add: m_def n_def)
  have ra: "2 powi (int m - 1) \<le> (of_int a :: rat)" "(of_int a :: rat) < 2 powi int m"
  proof -
    have "(2 :: rat) powi (int m - 1) = 2 ^ (m - 1)" using ba(3) by (simp add: power_int_def nat_diff_distrib)
    also have "\<dots> = of_nat (2 ^ (m - 1))" by simp
    also have "\<dots> \<le> of_nat (nat a)" using ba(1) by (simp only: of_nat_le_iff)
    finally show "2 powi (int m - 1) \<le> (of_int a :: rat)" using a by simp
    have "(of_nat (nat a) :: rat) < of_nat (2 ^ m)" using ba(2) by (simp only: of_nat_less_iff)
    then show "(of_int a :: rat) < 2 powi int m" using a by (simp add: power_int_def)
  qed
  have rb: "2 powi (int n - 1) \<le> (of_int b :: rat)" "(of_int b :: rat) < 2 powi int n"
  proof -
    have "(2 :: rat) powi (int n - 1) = 2 ^ (n - 1)" using bb(3) by (simp add: power_int_def nat_diff_distrib)
    also have "\<dots> = of_nat (2 ^ (n - 1))" by simp
    also have "\<dots> \<le> of_nat (nat b)" using bb(1) by (simp only: of_nat_le_iff)
    finally show "2 powi (int n - 1) \<le> (of_int b :: rat)" using b by simp
    have "(of_nat (nat b) :: rat) < of_nat (2 ^ n)" using bb(2) by (simp only: of_nat_less_iff)
    then show "(of_int b :: rat) < 2 powi int n" using b by (simp add: power_int_def)
  qed
  define k where "k = int m - int n"
  have lower: "2 powi (k - 1) \<le> q"
  proof -
    have "2 powi (k - 1) * of_int b \<le> 2 powi (k - 1) * (2 powi int n :: rat)" using rb(2) by simp
    also have "\<dots> = 2 powi (k - 1 + int n)" by (rule power_int_add [symmetric]) simp
    also have "\<dots> = 2 powi (int m - 1)" by (simp add: k_def)
    also have "\<dots> \<le> of_int a" by (rule ra)
    finally show ?thesis using b by (simp add: q field_simps)
  qed
  have upper: "q < 2 powi (k + 1)"
  proof -
    have "(of_int a :: rat) < 2 powi int m" by (rule ra)
    also have "\<dots> = 2 powi (k + 1) * 2 powi (int n - 1)" by (simp add: k_def flip: power_int_add)
    also have "\<dots> \<le> 2 powi (k + 1) * of_int b" using rb(1) by simp
    finally show ?thesis using b by (simp add: q field_simps)
  qed
  have "lg q = (if 2 powi k \<le> q then k else k - 1)" by (simp add: lg_def ab k_def m_def n_def Let_def)
  then show "2 powi lg q \<le> q" "q < 2 powi (lg q + 1)" using lower upper by auto
qed

lemma rne_near: "\<bar>of_int (rne x) - x\<bar> \<le> 1 / 2"
proof -
  have "of_int \<lfloor>x\<rfloor> \<le> x" "x < of_int \<lfloor>x\<rfloor> + 1" by linarith+
  then show ?thesis by (auto simp: rne_def Let_def abs_le_iff)
qed

lemma rne_unique: "\<bar>x - of_int n\<bar> < 1 / 2 \<Longrightarrow> rne x = n"
proof -
  assume "\<bar>x - of_int n\<bar> < 1 / 2"
  with rne_near [of x] have "\<bar>of_int (rne x) - of_int n :: rat\<bar> < 1" by linarith
  then have "\<bar>rne x - n\<bar> < 1" by (metis of_int_abs of_int_diff of_int_less_1_iff)
  then show ?thesis by simp
qed

text \<open>The relative error of rounding is at most \<open>2 ^ -53\<close> in the normal range.\<close>

lemma fl_near:
  assumes "2 powi (- 1022) \<le> q" and "q < 2 powi 1023"
  shows "\<exists>v. fl s q = Fin s v \<and> \<bar>v - q\<bar> \<le> q / 2 ^ 53"
proof -
  have q: "0 < q" using assms(1) powi_2_pos less_le_trans by blast
  note l = lg_bounds [OF q]
  have "- 1022 \<le> lg q"
  proof (rule ccontr)
    assume "\<not> - 1022 \<le> lg q"
    then have "(2 :: rat) powi (lg q + 1) \<le> 2 powi (- 1022)" by (intro powi_2_mono) simp
    then show False using l(2) assms(1) by linarith
  qed
  then have e: "max (lg q - 52) (- 1074) = lg q - 52" by simp
  define v where "v = of_int (rne (q / 2 powi (lg q - 52))) * (2 :: rat) powi (lg q - 52)"
  have "v - q = (of_int (rne (q / 2 powi (lg q - 52))) - q / 2 powi (lg q - 52)) * 2 powi (lg q - 52)"
    by (simp add: v_def field_simps)
  then have "\<bar>v - q\<bar> = \<bar>of_int (rne (q / 2 powi (lg q - 52))) - q / 2 powi (lg q - 52)\<bar> * 2 powi (lg q - 52)"
    by (simp add: abs_mult)
  also have "\<dots> \<le> 1 / 2 * 2 powi (lg q - 52)" by (intro mult_right_mono rne_near) simp
  also have "\<dots> = 2 powi lg q / 2 ^ 53" by (simp add: power_int_diff)
  also have "\<dots> \<le> q / 2 ^ 53" using l(1) by (simp add: divide_right_mono)
  finally have near: "\<bar>v - q\<bar> \<le> q / 2 ^ 53" .
  have "q / 2 ^ 53 \<le> q" using q by simp
  with near have "v \<le> 2 * q" by linarith
  also have "\<dots> < 2 * 2 powi 1023" using assms(2) by simp
  also have "\<dots> = 2 powi 1024" by (simp add: power_int_def)
  finally have "v < 2 powi 1024" .
  then have "fl s q = Fin s v" using q by (simp add: fl_def e v_def Let_def)
  with near show ?thesis by blast
qed


text \<open>Small decimal fractions: dividing by \<open>10 ^ p\<close> and multiplying back is exact after rounding.\<close>

lemma ten_le: "p \<le> 2 \<Longrightarrow> 1 \<le> (10 :: rat) ^ p \<and> (10 :: rat) ^ p \<le> 100"
proof -
  assume "p \<le> 2"
  then have "p = 0 \<or> p = 1 \<or> p = 2" by auto
  then show ?thesis by auto
qed

lemma scaled_near:
  assumes "0 < n" and "n < 2 ^ 40" and "p \<le> 2"
  shows "\<exists>v. fl s (of_nat n / 10 ^ p) = Fin s v \<and> \<bar>v * 10 ^ p - of_nat n\<bar> \<le> of_nat n / 2 ^ 53 \<and> 0 < v"
proof -
  define q :: rat where "q = of_nat n / 10 ^ p"
  have n: "1 \<le> (of_nat n :: rat)" "(of_nat n :: rat) < 2 ^ 40"
    using assms(1,2) by (simp, metis of_nat_less_iff of_nat_numeral of_nat_power)
  note t = ten_le [OF assms(3)]
  have "1 / 100 \<le> q" using n(1) t by (auto simp: q_def field_simps)
  moreover have "(2 :: rat) powi (- 1022) \<le> 2 powi (- 7)" by (rule powi_2_mono) simp
  moreover have "(2 :: rat) powi (- 7) = 1 / 128" by (simp add: power_int_def field_simps)
  ultimately have lo: "2 powi (- 1022) \<le> q" by linarith
  have "q \<le> of_nat n" using n t by (auto simp: q_def field_simps)
  moreover have "(2 :: rat) powi 40 \<le> 2 powi 1023" by (rule powi_2_mono) simp
  ultimately have hi: "q < 2 powi 1023" using n(2) by (simp add: power_int_def)
  from fl_near [OF lo hi] obtain v where v: "fl s q = Fin s v" "\<bar>v - q\<bar> \<le> q / 2 ^ 53" by blast
  have "\<bar>v * 10 ^ p - of_nat n\<bar> = \<bar>v - q\<bar> * 10 ^ p"
    using t by (simp add: q_def field_simps flip: abs_mult)
  also have "\<dots> \<le> q / 2 ^ 53 * 10 ^ p" using v(2) t by (intro mult_right_mono) auto
  also have "\<dots> = of_nat n / 2 ^ 53" by (simp add: q_def)
  finally have "\<bar>v * 10 ^ p - of_nat n\<bar> \<le> of_nat n / 2 ^ 53" .
  moreover have "0 < v"
  proof -
    have "q / 2 ^ 53 < q" using \<open>1 / 100 \<le> q\<close> by simp
    with v(2) show ?thesis by linarith
  qed
  ultimately show ?thesis using v(1) unfolding q_def by blast
qed

lemma scaled_back:
  assumes "n < 2 ^ 40" and "p \<le> 2" and "fl s (of_nat n / 10 ^ p) = Fin s v"
  shows "f64_round (f64_mul (Fin s v) (Fin False (10 ^ p))) = Fin s (of_nat n)" and "rne (v * 10 ^ p) = int n"
proof -
  have "f64_round (f64_mul (Fin s v) (Fin False (10 ^ p))) = Fin s (of_nat n) \<and> rne (v * 10 ^ p) = int n"
  proof (cases "n = 0")
    case True
    then have "v = 0" using assms(3) by (simp add: fl_def)
    moreover have "rne 0 = 0" by (simp add: rne_def)
    moreover have "\<lfloor>1 / 2 :: rat\<rfloor> = 0" by (rule floor_unique) simp_all
    ultimately show ?thesis using True by (simp add: fl_def)
  next
    case False
    then obtain v' where "fl s (of_nat n / 10 ^ p) = Fin s v'" "\<bar>v' * 10 ^ p - of_nat n\<bar> \<le> of_nat n / 2 ^ 53" "0 < v'"
      using scaled_near [OF _ assms(1,2)] by blast
    then have near: "\<bar>v * 10 ^ p - of_nat n\<bar> \<le> of_nat n / 2 ^ 53" and v0: "0 < v" using assms(3) by auto
    have n: "1 \<le> (of_nat n :: rat)" "(of_nat n :: rat) < 2 ^ 40"
      using False assms(1) by (simp, metis of_nat_less_iff of_nat_numeral of_nat_power)
    have small: "(of_nat n :: rat) / 2 ^ 53 < 1 / 8" using n(2) by simp
    define q where "q = v * 10 ^ p"
    have d: "\<bar>q - of_nat n\<bar> < 1 / 8" using le_less_trans [OF near small] unfolding q_def .
    have "(2 :: rat) ^ 41 = 2 ^ 40 + 2 ^ 40" by simp
    then have q: "3 / 4 < q" "q < 2 ^ 41" "\<bar>q - of_nat n\<bar> < 1 / 8" using d n by linarith+
    have "(2 :: rat) powi (- 1022) \<le> 2 powi (- 1)" by (rule powi_2_mono) simp
    then have lo: "2 powi (- 1022) \<le> q" using q(1) by (simp add: power_int_def)
    have "(2 :: rat) powi 41 \<le> 2 powi 1023" by (rule powi_2_mono) simp
    then have hi: "q < 2 powi 1023" using q(2) by (simp add: power_int_def)
    from fl_near [OF lo hi] obtain w where w: "fl s q = Fin s w" "\<bar>w - q\<bar> \<le> q / 2 ^ 53" by blast
    have "q / 2 ^ 53 < 1 / 8" using q(2) by simp
    with w(2) q(3) have "\<bar>w - of_nat n\<bar> < 1 / 4" by linarith
    then have "of_nat n \<le> w + 1 / 2" "w + 1 / 2 < of_nat n + 1" by linarith+
    then have "\<lfloor>w + 1 / 2\<rfloor> = int n" by (intro floor_unique) simp_all
    then have "f64_round (fl s q) = Fin s (of_nat n)" using w(1) by simp
    moreover have "rne q = int n" using q(3) by (intro rne_unique) simp
    ultimately show ?thesis by (simp add: q_def)
  qed
  then show "f64_round (f64_mul (Fin s v) (Fin False (10 ^ p))) = Fin s (of_nat n)" "rne (v * 10 ^ p) = int n" by simp_all
qed

text \<open>Digits.\<close>

lemma digit_is_digit: "d < 10 \<Longrightarrow> is_digit (char_of (48 + d :: nat))"
  using digit_char [of d] by (simp add: is_digit_def Let_def)

lemma show_nat_is_digit: "list_all is_digit (show_nat n)"
proof (induction n rule: show_nat.induct)
  case (1 n)
  then show ?case
    by (subst show_nat.simps) (cases "n < 10", simp_all add: digit_is_digit Let_def)
qed

lemma dec_fixed_is_digit: "list_all is_digit (dec_fixed p n)"
  by (induction p n rule: dec_fixed.induct) (simp_all add: digit_is_digit)

lemma length_dec_fixed [simp]: "length (dec_fixed p n) = p"
  by (induction p n rule: dec_fixed.induct) simp_all

lemma parse_digits_foldl:
  "list_all is_digit s \<Longrightarrow> parse_digits acc s = Some (foldl (\<lambda>acc c. acc * 10 + (of_char c - 48)) acc s)"
  by (induction s arbitrary: acc) (simp_all add: is_digit_def Let_def)

lemma digits_value_show: "digits_value (show_nat n) = n"
  using parse_show [of n] parse_digits_foldl [OF show_nat_is_digit, of 0 n] by (simp add: digits_value_def)

lemma foldl_dec_fixed: "foldl (\<lambda>acc c. acc * 10 + (of_char c - 48)) a (dec_fixed p n) = a * 10 ^ p + n mod 10 ^ p"
proof (induction p arbitrary: n)
  case (Suc p)
  have "n mod (10 * 10 ^ p) = 10 * (n div 10 mod 10 ^ p) + n mod 10"
    using mod_mult2_eq [of n 10 "10 ^ p"] by simp
  then show ?case using Suc [of "n div 10"] digit_char [of "n mod 10"] by (simp add: algebra_simps)
qed simp

lemma digits_value_fixed: "digits_value (show_nat (n div 10 ^ p) @ dec_fixed p n) = n"
proof -
  have "foldl (\<lambda>acc c. acc * 10 + (of_char c - 48)) 0 (show_nat (n div 10 ^ p)) = n div 10 ^ p"
    using digits_value_show [of "n div 10 ^ p"] by (simp add: digits_value_def)
  then show ?thesis by (simp add: digits_value_def foldl_dec_fixed del: div_mult_mod_eq) (rule div_mult_mod_eq)
qed

lemma takeWhile_digits:
  assumes "list_all is_digit ds" and "\<not> is_digit c"
  shows "takeWhile is_digit (ds @ c # r) = ds" "dropWhile is_digit (ds @ c # r) = c # r"
    "takeWhile is_digit ds = ds" "dropWhile is_digit ds = []"
  using assms by (induction ds) auto

text \<open>What is printed with \<open>p\<close> digits is read as the same number.\<close>

lemma parse_show_fixed:
  assumes "n < 2 ^ 40" and "0 < p" and "p \<le> 2" and "fl s (of_nat n / 10 ^ p) = Fin s v"
  shows "parse_f64 (show_fixed p (Fin s v)) = Ok (Fin s v)"
proof -
  define t where "t = show_nat (n div 10 ^ p) @ CHR ''.'' # dec_fixed p n"
  have dot: "\<not> is_digit CHR ''.''" by (simp add: is_digit_def)
  have shown: "show_fixed p (Fin s v) = (if s then ''-'' else []) @ t"
    using scaled_back(2) [OF assms(1,3,4)] assms(2) by (simp add: t_def)
  have "parse_decimal t = Some (of_nat n * 10 powi (- int p))"
    using show_nat_nonempty [of "n div 10 ^ p"]
    by (simp add: parse_decimal_def t_def parse_exponent_def digits_value_fixed Let_def
        takeWhile_digits(1,2) [OF show_nat_is_digit dot] takeWhile_digits(3,4) [OF dec_fixed_is_digit dot])
  also have "of_nat n * 10 powi (- int p) = (of_nat n / 10 ^ p :: rat)" by (simp add: power_int_minus field_simps)
  finally have dec: "parse_decimal t = Some (of_nat n / 10 ^ p)" .
  have "t \<noteq> []" by (simp add: t_def)
  moreover have "hd t \<noteq> CHR ''-''" "hd t \<noteq> CHR ''+''"
  proof -
    have "is_digit (hd t)"
      using show_nat_is_digit [of "n div 10 ^ p"] show_nat_nonempty [of "n div 10 ^ p"]
      by (cases "show_nat (n div 10 ^ p)") (simp_all add: t_def)
    then show "hd t \<noteq> CHR ''-''" "hd t \<noteq> CHR ''+''" by (auto simp: is_digit_def)
  qed
  ultimately show ?thesis unfolding shown using dec assms(4) by (cases s) (simp_all add: parse_f64_def)
qed

lemma scaled_fin: "n < 2 ^ 40 \<Longrightarrow> p \<le> 2 \<Longrightarrow> \<exists>v. fl s (of_nat n / 10 ^ p) = Fin s v"
  using scaled_near [of n p s] by (cases "n = 0") (auto simp: fl_def [of s 0])

lemma fl_round:
  assumes "n < 2 ^ 40"
  shows "f64_round (fl s (of_nat n)) = Fin s (of_nat n)"
proof (cases "n = 0")
  case False
  then obtain v where v: "fl s (of_nat n) = Fin s v" "\<bar>v - of_nat n\<bar> \<le> of_nat n / 2 ^ 53"
    using scaled_near [of n 0 s] assms by auto
  have "(of_nat n :: rat) < 2 ^ 40" using assms by (metis of_nat_less_iff of_nat_numeral of_nat_power)
  then have "(of_nat n :: rat) / 2 ^ 53 < 1 / 8" by simp
  with v(2) have "of_nat n \<le> v + 1 / 2" "v + 1 / 2 < of_nat n + 1" by linarith+
  then have "\<lfloor>v + 1 / 2\<rfloor> = int n" by (intro floor_unique) simp_all
  with v(1) show ?thesis by simp
next
  case True
  moreover have "\<lfloor>1 / 2 :: rat\<rfloor> = 0" by (rule floor_unique) simp_all
  ultimately show ?thesis by (simp add: fl_def)
qed

lemma parse_show_nat:
  assumes "n < 2 ^ 40"
  shows "parse_f64 (show_nat n) = Ok (fl False (of_nat n))"
proof -
  have dot: "\<not> is_digit CHR ''.''" by (simp add: is_digit_def)
  have "parse_decimal (show_nat n) = Some (of_nat n)"
    using show_nat_nonempty [of n] digits_value_show [of n]
    by (simp add: parse_decimal_def parse_exponent_def Let_def takeWhile_digits(3,4) [OF show_nat_is_digit dot])
  moreover have "is_digit (hd (show_nat n))"
    using show_nat_is_digit [of n] show_nat_nonempty [of n] by (cases "show_nat n") simp_all
  then have "hd (show_nat n) \<noteq> CHR ''-''" "hd (show_nat n) \<noteq> CHR ''+''" by (auto simp: is_digit_def)
  ultimately show ?thesis using show_nat_nonempty [of n] by (simp add: parse_f64_def del: show_nat.simps)
qed

lemma digit_not_space: "is_digit c \<Longrightarrow> \<not> ascii_space c"
  by (auto simp: is_digit_def ascii_space_def Let_def)

lemma digits_not_space:
  "c \<in> set (show_nat n) \<Longrightarrow> \<not> ascii_space c" "c \<in> set (dec_fixed p n) \<Longrightarrow> \<not> ascii_space c"
  "\<not> ascii_space CHR ''-''" "\<not> ascii_space CHR ''.''"
  using show_nat_is_digit [of n] dec_fixed_is_digit [of p n]
  by (simp_all add: list_all_iff digit_not_space) (simp_all add: ascii_space_def)

lemma trim_show_nat: "trim (show_nat n) = show_nat n"
  by (intro trim_id ballI digits_not_space)

lemma trim_show_fixed: "trim (show_fixed p (Fin s v)) = show_fixed p (Fin s v)"
  by (intro trim_id) (auto simp: Let_def digits_not_space split: if_splits simp del: show_nat.simps)

end
