(* ===== verification/CliMessage.thy ===== *)
theory CliMessage
  imports CliEnvelope Float64 LibcpsCrypto
begin

text \<open>
  The command \<open>edge message\<close> (\<open>cli/message.rs\<close>): compact measurements are parsed, scaled to the integers of the
  wire format, the private ones grouped and encrypted by recipient; messages are decoded, printed and
  decrypted. The message types are those of the generated protobuf modules. Protobuf coding, secret keys and
  the cipher's primitives are parameters. The theorems: printed measurements read back as the stored integers,
  private measurements are for their recipients only, and what printing does with a malformed message.
\<close>

section \<open>Messages\<close>

datatype Temperature = Temperature (centi_celsius: i32)
datatype Pressure = Pressure (deci_pascal: u32)
datatype Humidity = Humidity (centi_percent: u32)
datatype Co2 = Co2 (ppm: u32)
datatype Pm25 = Pm25 (pm25_deci_ug_m3: u32)
datatype Pm10 = Pm10 (pm10_deci_ug_m3: u32)
datatype NoiseLevel = NoiseLevel (noise_db: u32)

datatype Bme680Measurement = Bme680Temperature Temperature | Bme680Humidity Humidity | Bme680Pressure Pressure
datatype Scd41Measurement = Scd41Co2 Co2 | Scd41Temperature Temperature | Scd41Humidity Humidity
datatype Bme280Measurement = Bme280Temperature Temperature | Bme280Humidity Humidity | Bme280Pressure Pressure
datatype Sds011Measurement = Sds011Pm25 Pm25 | Sds011Pm10 Pm10
datatype Ics43434Measurement = NoiseMax NoiseLevel | NoiseAvg NoiseLevel

record Gps =
  gps_lat :: f64
  gps_lon :: f64
  gps_height_m :: f64

datatype UrbanSensorKind =
    UrbanGps Gps
  | UrbanBme280 "Bme280Measurement option"
  | UrbanSds011 "Sds011Measurement option"
  | UrbanIcs43434 "Ics43434Measurement option"

type_synonym UrbanSensor = "UrbanSensorKind option"

datatype InsightSensorKind =
    InsightGps Gps
  | InsightBme680 "Bme680Measurement option"
  | InsightScd41 "Scd41Measurement option"

type_synonym InsightSensor = "InsightSensorKind option"

record EncryptedEntry =
  en_version :: u32
  en_algorithm :: string
  en_from :: bytes
  en_nonce :: bytes
  en_ciphertext :: bytes

text \<open>\<open>Urban\<close> and \<open>Insight\<close> have the same two fields over their sensors.\<close>

record 's device =
  dv_public :: "'s list"
  dv_private :: "EncryptedEntry list"

datatype Payload = PayloadUrban "UrbanSensor device" | PayloadInsight "InsightSensor device"

record Meta =
  me_node_id :: u64
  me_timestamp :: u64

record Message =
  msg_metadata :: "Meta option"
  msg_payload :: "Payload option"

section \<open>Scaling\<close>

definition f64_to_centi :: "f64 \<Rightarrow> i32" where
  "f64_to_centi value = f64_as_i32 (f64_round (f64_mul value (Fin False 100)))"

definition centi_to_f64 :: "i32 \<Rightarrow> f64" where
  "centi_to_f64 value = f64_div (i32_as_f64 value) 100"

definition f64_to_centiu :: "f64 \<Rightarrow> u32" where
  "f64_to_centiu value = f64_as_u32 (f64_max_zero (f64_round (f64_mul value (Fin False 100))))"

definition centiu_to_f64 :: "u32 \<Rightarrow> f64" where
  "centiu_to_f64 value = f64_div (u32_as_f64 value) 100"

definition f64_to_deciu :: "f64 \<Rightarrow> u32" where
  "f64_to_deciu value = f64_as_u32 (f64_max_zero (f64_round (f64_mul value (Fin False 10))))"

definition deci_to_f64 :: "u32 \<Rightarrow> f64" where
  "deci_to_f64 value = f64_div (u32_as_f64 value) 10"

definition f64_to_u32 :: "f64 \<Rightarrow> u32" where
  "f64_to_u32 value = f64_as_u32 (f64_max_zero (f64_round value))"

section \<open>Rendering\<close>

text \<open>The degree sign is the two bytes of its UTF-8 form.\<close>

definition DEGREES :: string where
  "DEGREES = [char_of (0xC2 :: nat), char_of (0xB0 :: nat), CHR ''C'']"

definition format_gps :: "Gps \<Rightarrow> string" where
  "format_gps g =
     ''gps lat='' @ show_fixed 5 (gps_lat g) @ '' lon='' @ show_fixed 5 (gps_lon g) @
     '' height_m='' @ show_fixed 1 (gps_height_m g)"

definition format_bme280 :: "Bme280Measurement option \<Rightarrow> string" where
  "format_bme280 b =
     (case b of
        Some (Bme280Temperature t) \<Rightarrow> ''temperature='' @ show_fixed 2 (centi_to_f64 (centi_celsius t)) @ DEGREES
      | Some (Bme280Humidity h) \<Rightarrow> ''humidity='' @ show_fixed 2 (centiu_to_f64 (centi_percent h)) @ ''%''
      | Some (Bme280Pressure p) \<Rightarrow> ''pressure='' @ show_fixed 2 (deci_to_f64 (deci_pascal p)) @ ''Pa''
      | None \<Rightarrow> ''(unset)'')"

definition format_bme680 :: "Bme680Measurement option \<Rightarrow> string" where
  "format_bme680 b =
     (case b of
        Some (Bme680Temperature t) \<Rightarrow> ''temperature='' @ show_fixed 2 (centi_to_f64 (centi_celsius t)) @ DEGREES
      | Some (Bme680Humidity h) \<Rightarrow> ''humidity='' @ show_fixed 2 (centiu_to_f64 (centi_percent h)) @ ''%''
      | Some (Bme680Pressure p) \<Rightarrow> ''pressure='' @ show_fixed 2 (deci_to_f64 (deci_pascal p)) @ ''Pa''
      | None \<Rightarrow> ''(unset)'')"

definition format_scd41 :: "Scd41Measurement option \<Rightarrow> string" where
  "format_scd41 s =
     (case s of
        Some (Scd41Co2 c) \<Rightarrow> ''co2='' @ show_nat (unat (ppm c)) @ ''ppm''
      | Some (Scd41Temperature t) \<Rightarrow> ''temperature='' @ show_fixed 2 (centi_to_f64 (centi_celsius t)) @ DEGREES
      | Some (Scd41Humidity h) \<Rightarrow> ''humidity='' @ show_fixed 2 (centiu_to_f64 (centi_percent h)) @ ''%''
      | None \<Rightarrow> ''(unset)'')"

definition format_sds011 :: "Sds011Measurement option \<Rightarrow> string" where
  "format_sds011 s =
     (case s of
        Some (Sds011Pm25 p) \<Rightarrow> ''pm25='' @ show_fixed 1 (deci_to_f64 (pm25_deci_ug_m3 p)) @ ''ug/m3''
      | Some (Sds011Pm10 p) \<Rightarrow> ''pm10='' @ show_fixed 1 (deci_to_f64 (pm10_deci_ug_m3 p)) @ ''ug/m3''
      | None \<Rightarrow> ''(unset)'')"

definition format_ics43434 :: "Ics43434Measurement option \<Rightarrow> string" where
  "format_ics43434 i =
     (case i of
        Some (NoiseMax n) \<Rightarrow> ''noise_max='' @ show_nat (unat (noise_db n)) @ ''dB''
      | Some (NoiseAvg n) \<Rightarrow> ''noise_avg='' @ show_nat (unat (noise_db n)) @ ''dB''
      | None \<Rightarrow> ''(unset)'')"

definition format_urban_sensor :: "UrbanSensor \<Rightarrow> string" where
  "format_urban_sensor s =
     (case s of
        Some (UrbanGps g) \<Rightarrow> format_gps g
      | Some (UrbanBme280 b) \<Rightarrow> ''bme280 '' @ format_bme280 b
      | Some (UrbanSds011 s) \<Rightarrow> ''sds011 '' @ format_sds011 s
      | Some (UrbanIcs43434 i) \<Rightarrow> ''ics43434 '' @ format_ics43434 i
      | None \<Rightarrow> ''(unset)'')"

definition format_insight_sensor :: "InsightSensor \<Rightarrow> string" where
  "format_insight_sensor s =
     (case s of
        Some (InsightGps g) \<Rightarrow> format_gps g
      | Some (InsightBme680 b) \<Rightarrow> ''bme680 '' @ format_bme680 b
      | Some (InsightScd41 s) \<Rightarrow> ''scd41 '' @ format_scd41 s
      | None \<Rightarrow> ''(unset)'')"

section \<open>Compact measurements\<close>

datatype Board = Urban | Insight

datatype SensorKind = KGps | KBme280 | KBme680 | KScd41 | KSds011 | KIcs43434

definition SCALAR_SENSORS :: "SensorKind list" where
  "SCALAR_SENSORS = [KBme280, KBme680, KScd41, KSds011, KIcs43434]"

definition sensor_parse :: "string \<Rightarrow> SensorKind option" where
  "sensor_parse s =
     (if s = ''bme280'' then Some KBme280 else if s = ''bme680'' then Some KBme680
      else if s = ''scd41'' then Some KScd41 else if s = ''sds011'' then Some KSds011
      else if s = ''ics43434'' then Some KIcs43434 else None)"

text \<open>\<open>None\<close> is the \<open>unreachable!\<close> of the source: \<open>sensor_parse\<close> never gives \<open>KGps\<close>.\<close>

fun kind_board :: "SensorKind \<Rightarrow> Board option" where
  "kind_board KBme280 = Some Urban"
| "kind_board KSds011 = Some Urban"
| "kind_board KIcs43434 = Some Urban"
| "kind_board KBme680 = Some Insight"
| "kind_board KScd41 = Some Insight"
| "kind_board KGps = None"

fun measurements :: "SensorKind \<Rightarrow> string list" where
  "measurements KBme280 = [''temperature'', ''humidity'', ''pressure'']"
| "measurements KBme680 = [''temperature'', ''humidity'', ''pressure'']"
| "measurements KScd41 = [''co2'', ''temperature'', ''humidity'']"
| "measurements KSds011 = [''pm25'', ''pm10'']"
| "measurements KIcs43434 = [''noise_max'', ''noise_avg'']"
| "measurements KGps = []"

definition canonical_measurement :: "string \<Rightarrow> string" where
  "canonical_measurement name = (if name = ''temp'' then ''temperature'' else name)"

datatype Value = VMeasurement string f64 | VGps f64 f64 f64

record Item =
  it_recipient :: "string option"
  it_kind :: SensorKind
  it_value :: Value

fun board_name :: "Board \<Rightarrow> string" where
  "board_name Urban = ''urban''"
| "board_name Insight = ''insight''"

fun sensor_name :: "SensorKind \<Rightarrow> string" where
  "sensor_name KGps = ''gps''"
| "sensor_name KBme280 = ''bme280''"
| "sensor_name KBme680 = ''bme680''"
| "sensor_name KScd41 = ''scd41''"
| "sensor_name KSds011 = ''sds011''"
| "sensor_name KIcs43434 = ''ics43434''"

text \<open>Again \<open>None\<close> is \<open>unreachable!\<close>; \<open>static_measurement\<close> below shows that it is.\<close>

definition measurement_static :: "string \<Rightarrow> string option" where
  "measurement_static name =
     (if name \<in> {''temperature'', ''humidity'', ''pressure'', ''co2'', ''pm25'', ''pm10'', ''noise_max'', ''noise_avg''}
      then Some name else None)"

definition GPS_ERROR :: string where
  "GPS_ERROR = ''`gps` expects `lat,lon[,height_m]`''"

definition parse_coordinate :: "string \<Rightarrow> string + f64" where
  "parse_coordinate s = map_err (\<lambda>e. ''invalid gps coordinate `'' @ s @ ''`: '' @ e) (parse_f64 s)"

definition parse_gps :: "string option \<Rightarrow> string \<Rightarrow> string + Item" where
  "parse_gps recipient value_text =
     (let item = (\<lambda>lat lon height_m.
            and_then (parse_coordinate lat) (\<lambda>lat. and_then (parse_coordinate lon) (\<lambda>lon.
            map_ok (\<lambda>height_m. \<lparr>it_recipient = recipient, it_kind = KGps, it_value = VGps lat lon height_m\<rparr>)
              (parse_coordinate height_m))))
      in case map trim (split_on (CHR '','') value_text) of
           [lat, lon] \<Rightarrow> item lat lon ''0''
         | [lat, lon, height_m] \<Rightarrow> item lat lon height_m
         | _ \<Rightarrow> Err GPS_ERROR)"

definition candidates :: "Board \<Rightarrow> SensorKind option \<Rightarrow> string \<Rightarrow> SensorKind list" where
  "candidates board sensor_hint measurement =
     filter (\<lambda>k. kind_board k = Some board \<and> (case sensor_hint of None \<Rightarrow> True | Some h \<Rightarrow> h = k) \<and>
        measurement \<in> set (measurements k)) SCALAR_SENSORS"

definition select_kind :: "Board \<Rightarrow> SensorKind option \<Rightarrow> string \<Rightarrow> string + SensorKind" where
  "select_kind board sensor_hint measurement =
     (case candidates board sensor_hint measurement of
        [k] \<Rightarrow> Ok k
      | [] \<Rightarrow> Err (''no sensor produces measurement `'' @ measurement @ ''` on the '' @ board_name board @ '' board'')
      | many \<Rightarrow>
          Err (''ambiguous measurement `'' @ measurement @ ''` on '' @ board_name board @ '' board; specify '' @
            join_with '' or '' (map (\<lambda>k. ''`'' @ sensor_name k @ ''.'' @ measurement @ ''`'') many)))"

definition parse_scalar :: "Board \<Rightarrow> string option \<Rightarrow> string \<Rightarrow> string \<Rightarrow> string + Item" where
  "parse_scalar board recipient tag value_text =
     and_then (case split_once (CHR ''.'') tag of
                 Some (s, m) \<Rightarrow>
                   (case sensor_parse s of
                      None \<Rightarrow> Err (''unknown sensor `'' @ s @ ''`'')
                    | Some k \<Rightarrow> Ok (Some k, m))
               | None \<Rightarrow> Ok (None, tag)) (\<lambda>(sensor_hint, measurement).
     let measurement = canonical_measurement measurement in
     and_then (map_err (\<lambda>e. ''invalid value `'' @ value_text @ ''`: '' @ e) (parse_f64 (trim value_text))) (\<lambda>value.
     if (case sensor_hint of None \<Rightarrow> False | Some hint \<Rightarrow> kind_board hint \<noteq> Some board)
     then Err (''sensor `'' @ (case split_once (CHR ''.'') tag of Some (s, _) \<Rightarrow> s | None \<Rightarrow> []) @
               ''` does not belong to the '' @ board_name board @ '' board'')
     else map_ok (\<lambda>kind. \<lparr>it_recipient = recipient, it_kind = kind, it_value = VMeasurement measurement value\<rparr>)
            (select_kind board sensor_hint measurement)))"

definition parse_item :: "Board \<Rightarrow> string \<Rightarrow> string + Item" where
  "parse_item board raw =
     (case split_once (CHR ''='') raw of
        None \<Rightarrow> Err ''expected `<measurement>=<value>`''
      | Some (lhs, value_text) \<Rightarrow>
          and_then (case strip_prefix ''private:'' lhs of
                      Some rest \<Rightarrow>
                        (case split_once (CHR ''/'') rest of
                           None \<Rightarrow> Err ''`private:` requires `<recipient>/<measurement>`''
                         | Some (recipient, tag) \<Rightarrow> Ok (Some recipient, tag))
                    | None \<Rightarrow> Ok (None, lhs)) (\<lambda>(recipient, tag).
            if tag = ''gps'' then parse_gps recipient value_text
            else parse_scalar board recipient tag value_text))"

definition no_measurement :: "string \<Rightarrow> string \<Rightarrow> CliError" where
  "no_measurement sensor other = usage (sensor @ '' has no measurement `'' @ other @ ''`'')"

definition bme280_measurement :: "string \<Rightarrow> f64 \<Rightarrow> CliError + Bme280Measurement option" where
  "bme280_measurement name value =
     (if name = ''temperature'' then Ok (Some (Bme280Temperature (Temperature (f64_to_centi value))))
      else if name = ''humidity'' then Ok (Some (Bme280Humidity (Humidity (f64_to_centiu value))))
      else if name = ''pressure'' then Ok (Some (Bme280Pressure (Pressure (f64_to_deciu value))))
      else Err (no_measurement ''bme280'' name))"

definition bme680_measurement :: "string \<Rightarrow> f64 \<Rightarrow> CliError + Bme680Measurement option" where
  "bme680_measurement name value =
     (if name = ''temperature'' then Ok (Some (Bme680Temperature (Temperature (f64_to_centi value))))
      else if name = ''humidity'' then Ok (Some (Bme680Humidity (Humidity (f64_to_centiu value))))
      else if name = ''pressure'' then Ok (Some (Bme680Pressure (Pressure (f64_to_deciu value))))
      else Err (no_measurement ''bme680'' name))"

definition scd41_measurement :: "string \<Rightarrow> f64 \<Rightarrow> CliError + Scd41Measurement option" where
  "scd41_measurement name value =
     (if name = ''co2'' then Ok (Some (Scd41Co2 (Co2 (f64_to_u32 value))))
      else if name = ''temperature'' then Ok (Some (Scd41Temperature (Temperature (f64_to_centi value))))
      else if name = ''humidity'' then Ok (Some (Scd41Humidity (Humidity (f64_to_centiu value))))
      else Err (no_measurement ''scd41'' name))"

definition sds011_measurement :: "string \<Rightarrow> f64 \<Rightarrow> CliError + Sds011Measurement option" where
  "sds011_measurement name value =
     (if name = ''pm25'' then Ok (Some (Sds011Pm25 (Pm25 (f64_to_deciu value))))
      else if name = ''pm10'' then Ok (Some (Sds011Pm10 (Pm10 (f64_to_deciu value))))
      else Err (no_measurement ''sds011'' name))"

definition ics43434_measurement :: "string \<Rightarrow> f64 \<Rightarrow> CliError + Ics43434Measurement option" where
  "ics43434_measurement name value =
     (if name = ''noise_max'' then Ok (Some (NoiseMax (NoiseLevel (f64_to_u32 value))))
      else if name = ''noise_avg'' then Ok (Some (NoiseAvg (NoiseLevel (f64_to_u32 value))))
      else Err (no_measurement ''ics43434'' name))"

definition build_urban :: "SensorKind \<Rightarrow> Value \<Rightarrow> CliError + UrbanSensor" where
  "build_urban kind v =
     (case (kind, v) of
        (KGps, VGps lat lon height_m) \<Rightarrow> Ok (Some (UrbanGps \<lparr>gps_lat = lat, gps_lon = lon, gps_height_m = height_m\<rparr>))
      | (KBme280, VMeasurement name value) \<Rightarrow> map_ok (Some \<circ> UrbanBme280) (bme280_measurement name value)
      | (KSds011, VMeasurement name value) \<Rightarrow> map_ok (Some \<circ> UrbanSds011) (sds011_measurement name value)
      | (KIcs43434, VMeasurement name value) \<Rightarrow> map_ok (Some \<circ> UrbanIcs43434) (ics43434_measurement name value)
      | _ \<Rightarrow> Err (usage ''sensor/value mismatch for urban board''))"

definition build_insight :: "SensorKind \<Rightarrow> Value \<Rightarrow> CliError + InsightSensor" where
  "build_insight kind v =
     (case (kind, v) of
        (KGps, VGps lat lon height_m) \<Rightarrow> Ok (Some (InsightGps \<lparr>gps_lat = lat, gps_lon = lon, gps_height_m = height_m\<rparr>))
      | (KBme680, VMeasurement name value) \<Rightarrow> map_ok (Some \<circ> InsightBme680) (bme680_measurement name value)
      | (KScd41, VMeasurement name value) \<Rightarrow> map_ok (Some \<circ> InsightScd41) (scd41_measurement name value)
      | _ \<Rightarrow> Err (usage ''sensor/value mismatch for insight board''))"

section \<open>Encoding\<close>

record message_libs =
  ml_signers :: "Scheme \<Rightarrow> string \<Rightarrow> string + SharedSecret"
  ml_cipher :: cipher_ops
  ml_nonce :: "nat \<Rightarrow> bytes"
  ml_encode :: "Message \<Rightarrow> bytes"
  ml_decode :: "bytes \<Rightarrow> string + Message"
  ml_encode_urban :: "UrbanSensor list \<Rightarrow> bytes"
  ml_decode_urban :: "bytes \<Rightarrow> string + UrbanSensor list"
  ml_encode_insight :: "InsightSensor list \<Rightarrow> bytes"
  ml_decode_insight :: "bytes \<Rightarrow> string + InsightSensor list"
  ml_now :: u64

definition apply_meta :: "u64 \<Rightarrow> Message \<Rightarrow> u64 option \<Rightarrow> u64 option \<Rightarrow> Message" where
  "apply_meta now msg node_id timestamp =
     msg\<lparr>msg_metadata := Some \<lparr>me_node_id = (case node_id of Some n \<Rightarrow> n | None \<Rightarrow> 0),
                               me_timestamp = (case timestamp of Some t \<Rightarrow> t | None \<Rightarrow> now)\<rparr>\<rparr>"

definition resolve_recipient :: "'k libs \<Rightarrow> codecs \<Rightarrow> string \<Rightarrow> CliError + bytes" where
  "resolve_recipient lb cc recipient =
     (case sensor_from_ss58 (lb_from_ss58 lb) (lb_ss58_format lb) recipient of
        Ok sid \<Rightarrow> Ok (sensor_bytes sid)
      | Err _ \<Rightarrow>
          map_ok sensor_bytes (map_err (\<lambda>e. usage (''invalid recipient `'' @ recipient @ ''`: '' @ show_protocol_error e))
            (sensor_from_hex (cc_unhex cc) recipient)))"

fun group_push :: "(string \<times> 's list) list \<Rightarrow> string \<Rightarrow> 's \<Rightarrow> (string \<times> 's list) list" where
  "group_push [] recipient entry = [(recipient, [entry])]"
| "group_push ((r, sensors) # groups) recipient entry =
     (if r = recipient then (r, sensors @ [entry]) # groups
      else (r, sensors) # group_push groups recipient entry)"

definition ENTRY_ALGORITHM :: string where
  "ENTRY_ALGORITHM = ''xchacha20''"

text \<open>\<open>nonce\<close> is the random nonce the cipher draws.\<close>

definition encrypt_group ::
  "'k libs \<Rightarrow> codecs \<Rightarrow> message_libs \<Rightarrow> bytes \<Rightarrow> 'k \<Rightarrow> string \<Rightarrow> bytes \<Rightarrow> CliError + EncryptedEntry" where
  "encrypt_group lb cc ml nonce identity recipient plaintext =
     and_then (resolve_recipient lb cc recipient) (\<lambda>receiver_public.
     and_then (map_err (\<lambda>e. runtime (''failed to initialise cipher: '' @ show_cps_error e))
                 (signer_from_suri (ml_signers ml) Ed25519 (secret_to_hex (cc_hex cc) (lb_seed lb) identity))) (\<lambda>cipher.
     map_ok (\<lambda>encrypted. case encrypted of EncV1 _ from nonce ciphertext \<Rightarrow>
               \<lparr>en_version = 1, en_algorithm = ENTRY_ALGORITHM, en_from = from, en_nonce = nonce,
                en_ciphertext = ciphertext\<rparr>)
       (map_err (\<lambda>e. runtime (''encryption failed for `'' @ recipient @ ''`: '' @ e))
         (encrypt (ml_cipher ml) nonce cipher plaintext receiver_public XChaCha20Poly1305))))"

fun encrypt_groups ::
  "'k libs \<Rightarrow> codecs \<Rightarrow> message_libs \<Rightarrow> ('s list \<Rightarrow> bytes) \<Rightarrow> 'k \<Rightarrow> nat \<Rightarrow> (string \<times> 's list) list
    \<Rightarrow> CliError + EncryptedEntry list" where
  "encrypt_groups lb cc ml encode_sensors identity n [] = Ok []"
| "encrypt_groups lb cc ml encode_sensors identity n ((recipient, sensors) # groups) =
     and_then (encrypt_group lb cc ml (ml_nonce ml n) identity recipient (encode_sensors sensors)) (\<lambda>entry.
       map_ok (\<lambda>entries. entry # entries) (encrypt_groups lb cc ml encode_sensors identity (n + 1) groups))"

text \<open>The loop of \<open>compact::parse\<close> over the values, with the public sensors and the groups of the board so far.\<close>

fun collect_items ::
  "Board \<Rightarrow> (SensorKind \<Rightarrow> Value \<Rightarrow> CliError + 's) \<Rightarrow> string list \<Rightarrow> 's list \<Rightarrow> (string \<times> 's list) list
    \<Rightarrow> CliError + 's list \<times> (string \<times> 's list) list" where
  "collect_items board build [] public private = Ok (public, private)"
| "collect_items board build (raw # values) public private =
     and_then (map_err (\<lambda>e. usage (''invalid measurement `'' @ raw @ ''`: '' @ e)) (parse_item board raw)) (\<lambda>item.
     and_then (build (it_kind item) (it_value item)) (\<lambda>entry.
       case it_recipient item of
         None \<Rightarrow> collect_items board build values (public @ [entry]) private
       | Some recipient \<Rightarrow> collect_items board build values public (group_push private recipient entry)))"

definition parse_device ::
  "'k libs \<Rightarrow> codecs \<Rightarrow> message_libs \<Rightarrow> Board \<Rightarrow> (SensorKind \<Rightarrow> Value \<Rightarrow> CliError + 's) \<Rightarrow> ('s list \<Rightarrow> bytes)
    \<Rightarrow> string list \<Rightarrow> string option \<Rightarrow> CliError + 's device" where
  "parse_device lb cc ml board build encode_sensors values suri =
     and_then (collect_items board build values [] []) (\<lambda>(public, private).
       if private = [] then Ok \<lparr>dv_public = public, dv_private = []\<rparr>
       else
         (case suri of
            None \<Rightarrow> Err (usage ''`--suri` is required to encrypt `private:` measurements'')
          | Some suri \<Rightarrow>
              and_then (map_err (\<lambda>e. usage (''invalid --suri: '' @ show_protocol_error e))
                          (identity_from_suri (lb_pair lb) suri)) (\<lambda>identity.
              map_ok (\<lambda>entries. \<lparr>dv_public = public, dv_private = entries\<rparr>)
                (encrypt_groups lb cc ml encode_sensors identity 0 private))))"

definition compact_parse ::
  "'k libs \<Rightarrow> codecs \<Rightarrow> message_libs \<Rightarrow> Board \<Rightarrow> string list \<Rightarrow> string option \<Rightarrow> CliError + Message" where
  "compact_parse lb cc ml board values suri =
     (if values = [] then Err (usage ''no measurements provided'')
      else map_ok (\<lambda>payload. \<lparr>msg_metadata = None, msg_payload = Some payload\<rparr>)
        (case board of
           Urban \<Rightarrow> map_ok PayloadUrban (parse_device lb cc ml Urban build_urban (ml_encode_urban ml) values suri)
         | Insight \<Rightarrow>
             map_ok PayloadInsight (parse_device lb cc ml Insight build_insight (ml_encode_insight ml) values suri)))"

section \<open>Decrypting and printing\<close>

definition decrypt_ciphertext :: "message_libs \<Rightarrow> EncryptedEntry \<Rightarrow> string \<Rightarrow> CliError + bytes" where
  "decrypt_ciphertext ml entry suri =
     and_then (map_err (\<lambda>e. runtime (''unsupported encryption algorithm `'' @ en_algorithm entry @ ''`: '' @ e))
                 (algorithm_from_str (en_algorithm entry))) (\<lambda>algorithm.
     if length (en_from entry) \<noteq> 32 then Err (with_code 3 ''private entry `from` must be 32 bytes'')
     else
       and_then (map_err (\<lambda>e. runtime (''failed to initialise cipher: '' @ show_cps_error e))
                   (signer_from_suri (ml_signers ml) Ed25519 suri)) (\<lambda>keypair.
       map_err (\<lambda>e. runtime (''decryption failed: '' @ e))
         (decrypt (ml_cipher ml) keypair
            (EncV1 algorithm (en_from entry) (en_nonce entry) (en_ciphertext entry)) None)))"

definition decrypt_entry ::
  "message_libs \<Rightarrow> (bytes \<Rightarrow> string + 's list) \<Rightarrow> EncryptedEntry \<Rightarrow> string \<Rightarrow> CliError + 's list" where
  "decrypt_entry ml decode_sensors entry suri =
     and_then (decrypt_ciphertext ml entry suri) (\<lambda>plaintext.
       map_err (\<lambda>e. with_code 3 (''invalid decrypted payload: '' @ e)) (decode_sensors plaintext))"

text \<open>The derived \<open>Debug\<close> of \<open>CliError\<close>.\<close>

definition debug_cli_error :: "CliError \<Rightarrow> string" where
  "debug_cli_error e = ''CliError { code: '' @ show_nat (ce_code e) @ '', message: '' @ debug_str (ce_message e) @ '' }''"

definition print_private_entry ::
  "'k libs \<Rightarrow> codecs \<Rightarrow> message_libs \<Rightarrow> cli_env \<Rightarrow> (bytes \<Rightarrow> string + 's list) \<Rightarrow> ('s \<Rightarrow> string) \<Rightarrow> string option
    \<Rightarrow> bool \<Rightarrow> EncryptedEntry \<Rightarrow> CliResult" where
  "print_private_entry lb cc ml env decode_sensors format_sensor decrypt_suri is_last entry =
     (let decrypted = map_option (decrypt_entry ml decode_sensors entry) decrypt_suri in
      cmd_seq
        (case from_slice (en_from entry) of
           Err _ \<Rightarrow> ([], None)
         | Ok sid \<Rightarrow>
             line env 0 (is_last \<and> decrypted = None) ''E''
               (''private: from='' @ lb_to_ss58 lb (sensor_bytes sid) @ '' algorithm='' @ en_algorithm entry))
        (case decrypted of
           Some (Ok sensors) \<Rightarrow>
             cmd_all (map (\<lambda>i. line env 1 (is_last \<and> i + 1 = length sensors) ''D''
                                 (''decrypted: '' @ format_sensor (sensors ! i))) [0..<length sensors])
         | Some (Err e) \<Rightarrow>
             eprintln (''warning: failed to decrypt private entry from 0x'' @ cc_hex cc (en_from entry) @ '': '' @
               debug_cli_error e)
         | None \<Rightarrow> finish))"

definition print_device ::
  "'k libs \<Rightarrow> codecs \<Rightarrow> message_libs \<Rightarrow> cli_env \<Rightarrow> (bytes \<Rightarrow> string + 's list) \<Rightarrow> ('s \<Rightarrow> string) \<Rightarrow> string option
    \<Rightarrow> 's device \<Rightarrow> CliResult" where
  "print_device lb cc ml env decode_sensors format_sensor decrypt_suri d =
     (let total = length (dv_public d) + length (dv_private d) in
      cmd_seq
        (cmd_all (map (\<lambda>i. line env 0 (i + 1 = total) ''S'' (''public:  '' @ format_sensor (dv_public d ! i)))
           [0..<length (dv_public d)]))
        (cmd_all (map (\<lambda>i. print_private_entry lb cc ml env decode_sensors format_sensor decrypt_suri
                             (length (dv_public d) + i + 1 = total) (dv_private d ! i))
           [0..<length (dv_private d)])))"

definition print_urban ::
  "'k libs \<Rightarrow> codecs \<Rightarrow> message_libs \<Rightarrow> cli_env \<Rightarrow> UrbanSensor device \<Rightarrow> string option \<Rightarrow> CliResult" where
  "print_urban lb cc ml env urban suri = print_device lb cc ml env (ml_decode_urban ml) format_urban_sensor suri urban"

definition print_insight ::
  "'k libs \<Rightarrow> codecs \<Rightarrow> message_libs \<Rightarrow> cli_env \<Rightarrow> InsightSensor device \<Rightarrow> string option \<Rightarrow> CliResult" where
  "print_insight lb cc ml env insight suri =
     print_device lb cc ml env (ml_decode_insight ml) format_insight_sensor suri insight"

definition print_message ::
  "'k libs \<Rightarrow> codecs \<Rightarrow> message_libs \<Rightarrow> cli_env \<Rightarrow> Message \<Rightarrow> string option \<Rightarrow> CliResult" where
  "print_message lb cc ml env msg decrypt_suri =
     cmd_seq (heading env ''M'' ''Message'')
     (cmd_seq (case msg_metadata msg of
                 None \<Rightarrow> finish
               | Some meta \<Rightarrow>
                   cmd_seq (line env 0 False ''#'' (''node_id:   '' @ show_nat (unat (me_node_id meta))))
                     (line env 0 False ''T'' (''timestamp: '' @ show_nat (unat (me_timestamp meta)))))
     (case msg_payload msg of
        Some (PayloadUrban urban) \<Rightarrow> print_urban lb cc ml env urban decrypt_suri
      | Some (PayloadInsight insight) \<Rightarrow> print_insight lb cc ml env insight decrypt_suri
      | None \<Rightarrow> line env 0 True ''P'' ''(no payload)''))"

definition decode_sensor_message :: "message_libs \<Rightarrow> bytes \<Rightarrow> ProtocolError + Message" where
  "decode_sensor_message ml bs = map_err Decode (ml_decode ml bs)"

definition write_output ::
  "'k libs \<Rightarrow> codecs \<Rightarrow> message_libs \<Rightarrow> cli_env \<Rightarrow> bytes \<Rightarrow> ReprFormat \<Rightarrow> string option \<Rightarrow> CliResult" where
  "write_output lb cc ml env wire format decrypt_suri =
     write_bytes cc env wire format
       (case decode_sensor_message ml wire of
          Err e \<Rightarrow> of_result (Err (protocol_err e))
        | Ok msg \<Rightarrow> print_message lb cc ml env msg decrypt_suri)"

section \<open>The command\<close>

record MessageArgs =
  ma_values :: "string list"
  ma_board :: Board
  ma_input :: "ReprFormat option"
  ma_output :: "ReprFormat option"
  ma_suri :: "string option"
  ma_node_id :: "u64 option"
  ma_timestamp :: "u64 option"
  ma_id :: bool
  ma_decrypt :: bool

definition message_input :: "'k libs \<Rightarrow> codecs \<Rightarrow> message_libs \<Rightarrow> cli_env \<Rightarrow> MessageArgs \<Rightarrow> CliError + bytes" where
  "message_input lb cc ml env args =
     (if ma_input args = None \<and> ma_values args \<noteq> []
      then map_ok (\<lambda>msg. ml_encode ml (apply_meta (ml_now ml) msg (ma_node_id args) (ma_timestamp args)))
             (compact_parse lb cc ml (ma_board args) (ma_values args) (ma_suri args))
      else
        and_then (case ma_values args of
                    [] \<Rightarrow> read_stdin env
                  | [d] \<Rightarrow> Ok (as_bytes d)
                  | _ \<Rightarrow> Err (usage ''at most one encoded DATA value is accepted with `--input`'')) (\<lambda>raw.
        and_then (input_format (ma_input args) (sniff_byte_format cc raw)
                    ''--input text is not supported; provide wire bytes (hex/base64/binary)'')
          (wire_from_input cc raw)))"

definition message_run :: "'k libs \<Rightarrow> codecs \<Rightarrow> message_libs \<Rightarrow> cli_env \<Rightarrow> MessageArgs \<Rightarrow> CliResult" where
  "message_run lb cc ml env args =
     cmd_bind (of_result (message_input lb cc ml env args)) (\<lambda>wire.
       cmd_seq (if ma_id args then print_id lb cc wire else finish)
         (write_output lb cc ml env wire
            (case ma_output args of Some f \<Rightarrow> f | None \<Rightarrow> default_output env)
            (if ma_decrypt args then ma_suri args else None)))"

section \<open>Lemmas\<close>

lemma static_measurement: "m \<in> set (measurements k) \<Longrightarrow> measurement_static m = Some m"
  by (cases k) (auto simp: measurement_static_def)

text \<open>Each integer survives scaling to a float and back, and its decimal text is read as that float.\<close>

lemma scaled_word:
  assumes "n < 2 ^ 32" and "p \<le> 2" and "f = f64_div (Fin s (of_nat n)) (10 ^ p)"
  shows "f64_round (f64_mul f (Fin False (10 ^ p))) = Fin s (of_nat n)"
    and "0 < p \<Longrightarrow> parse_f64 (trim (show_fixed p f)) = Ok f"
    and "p = 1 \<Longrightarrow> parse_f64 (trim (show_fixed 2 f)) = Ok f"
proof -
  have n: "n < 2 ^ 40" using assms(1) by simp
  obtain v where v: "fl s (of_nat n / 10 ^ p) = Fin s v" using scaled_fin [OF n assms(2)] by blast
  then have f: "f = Fin s v" using assms(3) by simp
  show "f64_round (f64_mul f (Fin False (10 ^ p))) = Fin s (of_nat n)" unfolding f by (rule scaled_back [OF n assms(2) v])
  show "parse_f64 (trim (show_fixed p f)) = Ok f" if "0 < p"
    unfolding f trim_show_fixed by (rule parse_show_fixed [OF n that assms(2) v])
  show "parse_f64 (trim (show_fixed 2 f)) = Ok f" if "p = 1"
  proof -
    have "fl s (of_nat (10 * n) / 10 ^ 2) = Fin s v" using v that by simp
    with assms(1) show ?thesis unfolding f trim_show_fixed by (intro parse_show_fixed [of "10 * n"]) simp_all
  qed
qed

lemma unsigned_back: "n < 2 ^ 32 \<Longrightarrow> f64_as_u32 (f64_max_zero (Fin False (of_nat n))) = word_of_nat n"
  by (simp add: f64_as_u32_def clamp_int_def)

lemma unat_u32: "unat (w :: u32) < 2 ^ 32"
  using unsigned_less [of w] by simp

lemma signed_back:
  assumes "s \<longleftrightarrow> sint w < 0"
  shows "f64_as_i32 (Fin s (of_nat (nat \<bar>sint w\<bar>))) = (w :: i32)"
proof -
  have "- (2 ^ 31) \<le> sint w" "sint w \<le> 2 ^ 31 - 1" using sint_range_size [of w] by (simp_all add: size_word.rep_eq)
  moreover have t: "f64_trunc lo hi (Fin s (of_nat m)) = clamp_int lo hi (if s then - int m else int m)" for lo hi m by simp
  ultimately have "f64_trunc (- (2 ^ 31)) (2 ^ 31 - 1) (Fin s (of_nat (nat \<bar>sint w\<bar>))) = sint w"
    unfolding t using assms by (auto simp: clamp_int_def)
  then show ?thesis unfolding f64_as_i32_def by simp
qed

lemma centi_back: "f64_to_centi (centi_to_f64 w) = w" "parse_f64 (trim (show_fixed 2 (centi_to_f64 w))) = Ok (centi_to_f64 w)"
proof -
  have "\<bar>sint w\<bar> \<le> 2 ^ 31" using sint_range_size [of w] by (simp add: size_word.rep_eq abs_le_iff)
  then have n: "nat \<bar>sint w\<bar> < 2 ^ 32" by simp
  have f: "centi_to_f64 w = f64_div (Fin (sint w < 0) (of_nat (nat \<bar>sint w\<bar>))) (10 ^ 2)"
    by (simp add: centi_to_f64_def i32_as_f64_def)
  show "f64_to_centi (centi_to_f64 w) = w"
    using scaled_word(1) [OF n _ f] signed_back [of "sint w < 0" w] by (simp add: f64_to_centi_def)
  show "parse_f64 (trim (show_fixed 2 (centi_to_f64 w))) = Ok (centi_to_f64 w)" by (rule scaled_word(2) [OF n _ f]) simp_all
qed

lemma centiu_back: "f64_to_centiu (centiu_to_f64 w) = w" "parse_f64 (trim (show_fixed 2 (centiu_to_f64 w))) = Ok (centiu_to_f64 w)"
proof -
  have n: "unat w < 2 ^ 32" by (rule unat_u32)
  have f: "centiu_to_f64 w = f64_div (Fin False (of_nat (unat w))) (10 ^ 2)" by (simp add: centiu_to_f64_def u32_as_f64_def)
  show "f64_to_centiu (centiu_to_f64 w) = w"
    using scaled_word(1) [OF n _ f] unsigned_back [OF n] by (simp add: f64_to_centiu_def)
  show "parse_f64 (trim (show_fixed 2 (centiu_to_f64 w))) = Ok (centiu_to_f64 w)" by (rule scaled_word(2) [OF n _ f]) simp_all
qed

lemma deci_back: "f64_to_deciu (deci_to_f64 w) = w" "parse_f64 (trim (show_fixed 1 (deci_to_f64 w))) = Ok (deci_to_f64 w)"
  "parse_f64 (trim (show_fixed 2 (deci_to_f64 w))) = Ok (deci_to_f64 w)"
proof -
  have n: "unat w < 2 ^ 32" by (rule unat_u32)
  have f: "deci_to_f64 w = f64_div (Fin False (of_nat (unat w))) (10 ^ 1)" by (simp add: deci_to_f64_def u32_as_f64_def)
  show "f64_to_deciu (deci_to_f64 w) = w"
    using scaled_word(1) [OF n _ f] unsigned_back [OF n] by (simp add: f64_to_deciu_def)
  show "parse_f64 (trim (show_fixed 1 (deci_to_f64 w))) = Ok (deci_to_f64 w)" by (rule scaled_word(2) [OF n _ f]) simp_all
  show "parse_f64 (trim (show_fixed 2 (deci_to_f64 w))) = Ok (deci_to_f64 w)" by (rule scaled_word(3) [OF n _ f]) simp_all
qed

lemma whole_back: "\<exists>f. parse_f64 (trim (show_nat (unat w))) = Ok f \<and> f64_to_u32 f = (w :: u32)"
proof -
  have n: "unat w < 2 ^ 32" by (rule unat_u32)
  then have "f64_to_u32 (fl False (of_nat (unat w))) = w"
    using unsigned_back [OF n] fl_round [of "unat w" False] by (simp add: f64_to_u32_def)
  moreover have "parse_f64 (trim (show_nat (unat w))) = Ok (fl False (of_nat (unat w)))"
    unfolding trim_show_nat using n by (intro parse_show_nat) simp
  ultimately show ?thesis by blast
qed

text \<open>A reading as the renderer shows it: the measurement, the number and its unit, then with the sensor.\<close>

fun bme280_reading :: "Bme280Measurement \<Rightarrow> string \<times> string \<times> string" where
  "bme280_reading (Bme280Temperature t) = (''temperature'', show_fixed 2 (centi_to_f64 (centi_celsius t)), DEGREES)"
| "bme280_reading (Bme280Humidity h) = (''humidity'', show_fixed 2 (centiu_to_f64 (centi_percent h)), ''%'')"
| "bme280_reading (Bme280Pressure p) = (''pressure'', show_fixed 2 (deci_to_f64 (deci_pascal p)), ''Pa'')"

fun bme680_reading :: "Bme680Measurement \<Rightarrow> string \<times> string \<times> string" where
  "bme680_reading (Bme680Temperature t) = (''temperature'', show_fixed 2 (centi_to_f64 (centi_celsius t)), DEGREES)"
| "bme680_reading (Bme680Humidity h) = (''humidity'', show_fixed 2 (centiu_to_f64 (centi_percent h)), ''%'')"
| "bme680_reading (Bme680Pressure p) = (''pressure'', show_fixed 2 (deci_to_f64 (deci_pascal p)), ''Pa'')"

fun scd41_reading :: "Scd41Measurement \<Rightarrow> string \<times> string \<times> string" where
  "scd41_reading (Scd41Co2 c) = (''co2'', show_nat (unat (ppm c)), ''ppm'')"
| "scd41_reading (Scd41Temperature t) = (''temperature'', show_fixed 2 (centi_to_f64 (centi_celsius t)), DEGREES)"
| "scd41_reading (Scd41Humidity h) = (''humidity'', show_fixed 2 (centiu_to_f64 (centi_percent h)), ''%'')"

fun sds011_reading :: "Sds011Measurement \<Rightarrow> string \<times> string \<times> string" where
  "sds011_reading (Sds011Pm25 p) = (''pm25'', show_fixed 1 (deci_to_f64 (pm25_deci_ug_m3 p)), ''ug/m3'')"
| "sds011_reading (Sds011Pm10 p) = (''pm10'', show_fixed 1 (deci_to_f64 (pm10_deci_ug_m3 p)), ''ug/m3'')"

fun ics43434_reading :: "Ics43434Measurement \<Rightarrow> string \<times> string \<times> string" where
  "ics43434_reading (NoiseMax n) = (''noise_max'', show_nat (unat (noise_db n)), ''dB'')"
| "ics43434_reading (NoiseAvg n) = (''noise_avg'', show_nat (unat (noise_db n)), ''dB'')"

definition urban_reading :: "UrbanSensor \<Rightarrow> (SensorKind \<times> string \<times> string \<times> string) option" where
  "urban_reading s =
     (case s of
        Some (UrbanBme280 (Some m)) \<Rightarrow> Some (KBme280, bme280_reading m)
      | Some (UrbanSds011 (Some m)) \<Rightarrow> Some (KSds011, sds011_reading m)
      | Some (UrbanIcs43434 (Some m)) \<Rightarrow> Some (KIcs43434, ics43434_reading m)
      | _ \<Rightarrow> None)"

definition insight_reading :: "InsightSensor \<Rightarrow> (SensorKind \<times> string \<times> string \<times> string) option" where
  "insight_reading s =
     (case s of
        Some (InsightBme680 (Some m)) \<Rightarrow> Some (KBme680, bme680_reading m)
      | Some (InsightScd41 (Some m)) \<Rightarrow> Some (KScd41, scd41_reading m)
      | _ \<Rightarrow> None)"

lemma parse_item_scalar:
  assumes "kind_board k = Some board" and "name \<in> set (measurements k)" and "parse_f64 (trim num) = Ok v"
  shows "parse_item board (sensor_name k @ ''.'' @ name @ ''='' @ num) =
    Ok \<lparr>it_recipient = None, it_kind = k, it_value = VMeasurement name v\<rparr>"
proof -
  let ?tag = "sensor_name k @ ''.'' @ name"
  have "CHR ''='' \<notin> set ?tag \<and> strip_prefix ''private:'' ?tag = None \<and> ?tag \<noteq> ''gps'' \<and>
      split_once (CHR ''.'') ?tag = Some (sensor_name k, name) \<and> canonical_measurement name = name \<and>
      sensor_parse (sensor_name k) = Some k \<and> candidates board (Some k) name = [k]"
    using assms(1,2) by (cases k) (auto simp: strip_prefix_def split_once_def canonical_measurement_def sensor_parse_def
        candidates_def SCALAR_SENSORS_def)
  moreover from this have "split_once (CHR ''='') (?tag @ CHR ''='' # num) = Some (?tag, num)" by (intro split_once_Some) simp
  ultimately show ?thesis
    using assms(1,3) by (simp add: parse_item_def parse_scalar_def select_kind_def)
qed

lemma parse_device_public:
  assumes "parse_item board raw = Ok item" and "it_recipient item = None" and "build (it_kind item) (it_value item) = Ok s"
  shows "parse_device lb cc ml board build enc [raw] suri = Ok \<lparr>dv_public = [s], dv_private = []\<rparr>"
  using assms by (simp add: parse_device_def)

lemma readings_back:
  "bme280_reading b = (name, num, unit) \<Longrightarrow> name \<in> set (measurements KBme280) \<and>
     format_bme280 (Some b) = name @ ''='' @ num @ unit \<and>
     (\<exists>v. parse_f64 (trim num) = Ok v \<and> bme280_measurement name v = Ok (Some b))"
  "bme680_reading b' = (name, num, unit) \<Longrightarrow> name \<in> set (measurements KBme680) \<and>
     format_bme680 (Some b') = name @ ''='' @ num @ unit \<and>
     (\<exists>v. parse_f64 (trim num) = Ok v \<and> bme680_measurement name v = Ok (Some b'))"
  "scd41_reading c = (name, num, unit) \<Longrightarrow> name \<in> set (measurements KScd41) \<and>
     format_scd41 (Some c) = name @ ''='' @ num @ unit \<and>
     (\<exists>v. parse_f64 (trim num) = Ok v \<and> scd41_measurement name v = Ok (Some c))"
  "sds011_reading p = (name, num, unit) \<Longrightarrow> name \<in> set (measurements KSds011) \<and>
     format_sds011 (Some p) = name @ ''='' @ num @ unit \<and>
     (\<exists>v. parse_f64 (trim num) = Ok v \<and> sds011_measurement name v = Ok (Some p))"
  "ics43434_reading n = (name, num, unit) \<Longrightarrow> name \<in> set (measurements KIcs43434) \<and>
     format_ics43434 (Some n) = name @ ''='' @ num @ unit \<and>
     (\<exists>v. parse_f64 (trim num) = Ok v \<and> ics43434_measurement name v = Ok (Some n))"
  subgoal by (cases b; clarsimp simp: format_bme280_def bme280_measurement_def centi_back centiu_back deci_back simp del: show_nat.simps show_fixed.simps)
  subgoal by (cases b'; clarsimp simp: format_bme680_def bme680_measurement_def centi_back centiu_back deci_back simp del: show_nat.simps show_fixed.simps)
  subgoal using whole_back [of "case c of Scd41Co2 x \<Rightarrow> ppm x | _ \<Rightarrow> 0"]
    by (cases c; clarsimp simp: format_scd41_def scd41_measurement_def centi_back centiu_back simp del: show_nat.simps show_fixed.simps)
  subgoal by (cases p; clarsimp simp: format_sds011_def sds011_measurement_def deci_back deci_back(2) [unfolded One_nat_def] simp del: show_nat.simps show_fixed.simps)
  subgoal using whole_back [of "case n of NoiseMax x \<Rightarrow> noise_db x | NoiseAvg x \<Rightarrow> noise_db x"]
    by (cases n; clarsimp simp: format_ics43434_def ics43434_measurement_def simp del: show_nat.simps show_fixed.simps)
  done

lemma urban_reading_back:
  assumes "urban_reading s = Some (k, name, num, unit)"
  shows "format_urban_sensor s = sensor_name k @ '' '' @ name @ ''='' @ num @ unit"
    and "kind_board k = Some Urban \<and> name \<in> set (measurements k) \<and>
      (\<exists>v. parse_f64 (trim num) = Ok v \<and> build_urban k (VMeasurement name v) = Ok s)"
  using assms readings_back(1,4,5)
  by (auto simp: urban_reading_def format_urban_sensor_def build_urban_def split: option.splits UrbanSensorKind.splits) fastforce+

lemma insight_reading_back:
  assumes "insight_reading s = Some (k, name, num, unit)"
  shows "format_insight_sensor s = sensor_name k @ '' '' @ name @ ''='' @ num @ unit"
    and "kind_board k = Some Insight \<and> name \<in> set (measurements k) \<and>
      (\<exists>v. parse_f64 (trim num) = Ok v \<and> build_insight k (VMeasurement name v) = Ok s)"
  using assms readings_back(2,3)
  by (auto simp: insight_reading_def format_insight_sensor_def build_insight_def split: option.splits InsightSensorKind.splits) fastforce+

text \<open>Grouping by recipient: one group per recipient, with its sensors in order.\<close>

definition sensors_for :: "string \<Rightarrow> (Item \<times> 's) list \<Rightarrow> 's list" where
  "sensors_for recipient ies = map snd (filter (\<lambda>(i, _). it_recipient i = Some recipient) ies)"

definition public_sensors :: "(Item \<times> 's) list \<Rightarrow> 's list" where
  "public_sensors ies = map snd (filter (\<lambda>(i, _). it_recipient i = None) ies)"

definition recipients_of :: "(Item \<times> 's) list \<Rightarrow> string set" where
  "recipients_of ies = {r. \<exists>i e. (i, e) \<in> set ies \<and> it_recipient i = Some r}"

definition groups_ok :: "(Item \<times> 's) list \<Rightarrow> (string \<times> 's list) list \<Rightarrow> bool" where
  "groups_ok ies groups \<longleftrightarrow>
     distinct (map fst groups) \<and> fst ` set groups = recipients_of ies \<and>
     (\<forall>(r, ss)\<in>set groups. ss = sensors_for r ies)"

lemma group_push_new: "r \<notin> fst ` set groups \<Longrightarrow> group_push groups r e = groups @ [(r, [e])]"
  by (induction groups r e rule: group_push.induct) auto

lemma group_push_old:
  "r \<in> fst ` set groups \<Longrightarrow> distinct (map fst groups) \<Longrightarrow>
     group_push groups r e = map (\<lambda>(k, ss). (k, if k = r then ss @ [e] else ss)) groups"
proof (induction groups r e rule: group_push.induct)
  case (2 k ss groups r e)
  have "map (\<lambda>(k, ss). (k, if k = r then ss @ [e] else ss)) groups = groups" if "k = r"
    using 2 that by (intro map_idI) force
  with 2 show ?case by auto
qed simp

lemma sensors_for_snoc:
  "sensors_for r (ies @ [(i, e)]) = sensors_for r ies @ (if it_recipient i = Some r then [e] else [])"
  by (simp add: sensors_for_def)

lemma recipients_of_snoc: "recipients_of (ies @ [(i, e)]) = recipients_of ies \<union> set_option (it_recipient i)"
  by (auto simp: recipients_of_def)

lemma sensors_for_none: "r \<notin> recipients_of ies \<Longrightarrow> sensors_for r ies = []"
  by (auto simp: sensors_for_def recipients_of_def filter_empty_conv)

lemma groups_ok_push:
  assumes "groups_ok ies groups" and "it_recipient i = Some r"
  shows "groups_ok (ies @ [(i, e)]) (group_push groups r e)"
proof -
  have ok: "distinct (map fst groups)" "fst ` set groups = recipients_of ies"
    "\<And>k ss. (k, ss) \<in> set groups \<Longrightarrow> ss = sensors_for k ies"
    using assms(1) by (auto simp: groups_ok_def)
  have recs: "recipients_of (ies @ [(i, e)]) = insert r (recipients_of ies)" by (simp add: recipients_of_snoc assms(2))
  show ?thesis
  proof (cases "r \<in> fst ` set groups")
    case True
    define push where "push = (\<lambda>(k, ss). (k, if k = r then ss @ [e] else ss))"
    define gs where "gs = map push groups"
    have push: "group_push groups r e = gs"
      unfolding push_def gs_def using True ok(1) by (rule group_push_old)
    have keys: "map fst gs = map fst groups" by (simp add: gs_def push_def case_prod_unfold)
    then have "fst ` set gs = fst ` set groups" by (metis set_map)
    moreover have "ss = sensors_for k (ies @ [(i, e)])" if "(k, ss) \<in> set gs" for k ss
      using that ok(3) assms(2) by (auto simp: gs_def push_def sensors_for_snoc split: if_splits)
    ultimately show ?thesis
      using ok True keys unfolding groups_ok_def push recs by auto
  next
    case False
    then have "\<forall>ss. (r, ss) \<notin> set groups" by force
    moreover from ok False have "sensors_for r ies = []" by (intro sensors_for_none) simp
    ultimately show ?thesis
      using ok False assms(2) unfolding groups_ok_def group_push_new [OF False] recs by (auto simp: sensors_for_snoc)
  qed
qed

lemma groups_ok_skip: "groups_ok ies groups \<Longrightarrow> it_recipient i = None \<Longrightarrow> groups_ok (ies @ [(i, e)]) groups"
  by (auto simp: groups_ok_def sensors_for_snoc recipients_of_snoc)

text \<open>What the loop over the values has collected: every value parsed and built, in order.\<close>

definition parsed ::
  "Board \<Rightarrow> (SensorKind \<Rightarrow> Value \<Rightarrow> CliError + 's) \<Rightarrow> string list \<Rightarrow> (Item \<times> 's) list \<Rightarrow> bool" where
  "parsed board build values ies \<longleftrightarrow>
     list_all2 (\<lambda>raw (i, e). parse_item board raw = Ok i \<and> build (it_kind i) (it_value i) = Ok e) values ies"

lemma collect_parsed:
  assumes "collect_items board build values pub priv = Ok (pub', priv')"
    and "parsed board build seen ies" and "pub = public_sensors ies" and "groups_ok ies priv"
  shows "\<exists>ies'. parsed board build (seen @ values) ies' \<and> pub' = public_sensors ies' \<and> groups_ok ies' priv'"
  using assms
proof (induction "values" arbitrary: pub priv seen ies)
  case Nil
  then show ?case by auto
next
  case (Cons raw rest)
  then obtain i e where ie: "parse_item board raw = Ok i" "build (it_kind i) (it_value i) = Ok e"
    by (auto simp: and_then_Ok map_err_is_Ok)
  let ?ies = "ies @ [(i, e)]"
  have p: "parsed board build (seen @ [raw]) ?ies" using Cons.prems(2) ie by (simp add: parsed_def list_all2_appendI)
  show ?case
  proof (cases "it_recipient i")
    case None
    with Cons.prems(3) have "pub @ [e] = public_sensors ?ies" by (simp add: public_sensors_def)
    from Cons.IH [OF _ p this groups_ok_skip [OF Cons.prems(4) None]] Cons.prems(1) ie None show ?thesis by simp
  next
    case (Some r)
    with Cons.prems(3) have "pub = public_sensors ?ies" by (simp add: public_sensors_def)
    from Cons.IH [OF _ p this groups_ok_push [OF Cons.prems(4) Some]] Cons.prems(1) ie Some show ?thesis by simp
  qed
qed

text \<open>Entries open for their recipients.\<close>

lemma encrypt_groups_length:
  "encrypt_groups lb cc ml enc k n groups = Ok entries \<Longrightarrow>
     list_all2 (\<lambda>(r, ss) entry. \<exists>n. encrypt_group lb cc ml (ml_nonce ml n) k r (enc ss) = Ok entry) groups entries"
  by (induction lb cc ml enc k n groups arbitrary: entries rule: encrypt_groups.induct)
    (auto simp: and_then_Ok map_ok_is_Ok)

lemma xchacha_tag: "algorithm_from_str ENTRY_ALGORITHM = Ok XChaCha20Poly1305"
  by (simp add: algorithm_from_str_def ENTRY_ALGORITHM_def ascii_lower_def Let_def)

lemma entry_opens:
  assumes "aead_ok (ml_cipher ml)" and "curve_ok cv (scheme_scalar Ed25519 sha512) public"
    and "\<forall>s. length (public s) = 32" and "length nonce = 24"
    and "ml_signers ml Ed25519 (secret_to_hex (cc_hex cc) (lb_seed lb) identity) = Ok (signer Ed25519 sha512 cv public a)"
    and "encrypt_group lb cc ml nonce identity recipient plaintext = Ok entry"
    and "resolve_recipient lb cc recipient = Ok (public b)"
    and "ml_signers ml Ed25519 suri = Ok (signer Ed25519 sha512 cv public b)"
  shows "decrypt_ciphertext ml entry suri = Ok plaintext"
proof -
  obtain sender ivec ct where enc: "encrypt (ml_cipher ml) nonce (signer Ed25519 sha512 cv public a) plaintext (public b) XChaCha20Poly1305
        = Ok (EncV1 XChaCha20Poly1305 sender ivec ct)"
    and entry: "entry = \<lparr>en_version = 1, en_algorithm = ENTRY_ALGORITHM, en_from = sender, en_nonce = ivec, en_ciphertext = ct\<rparr>"
    and sender: "sender = public a"
    using assms(5-7) unfolding encrypt_group_def signer_from_suri_def
    by (auto simp: and_then_Ok map_ok_is_Ok map_err_is_Ok encrypt_def signer_def split: sum.splits)
  have "decrypt (ml_cipher ml) (signer Ed25519 sha512 cv public b) (EncV1 XChaCha20Poly1305 sender ivec ct) None = Ok plaintext"
    using cipher_inverse [OF assms(1,2) _ enc] assms(4) by simp
  then show ?thesis
    using assms(3,8) by (simp add: decrypt_ciphertext_def entry xchacha_tag sender signer_from_suri_def del: decrypt.simps)
qed

lemma private_sections:
  assumes "aead_ok (ml_cipher ml)" and "curve_ok cv (scheme_scalar Ed25519 sha512) public"
    and "\<forall>s. length (public s) = 32" and "\<forall>n. length (ml_nonce ml n) = 24" and "\<forall>ss. decode_sensors (encode_sensors ss) = Ok ss"
    and "\<forall>k. \<exists>a. ml_signers ml Ed25519 (secret_to_hex (cc_hex cc) (lb_seed lb) k) = Ok (signer Ed25519 sha512 cv public a)"
    and "parse_device lb cc ml board build encode_sensors vals suri = Ok d"
  shows "\<exists>ies recipients. parsed board build vals ies \<and> dv_public d = public_sensors ies \<and>
    distinct recipients \<and> set recipients = recipients_of ies \<and>
    list_all2 (\<lambda>r entry. \<forall>b key. resolve_recipient lb cc r = Ok (public b) \<and>
        ml_signers ml Ed25519 key = Ok (signer Ed25519 sha512 cv public b) \<longrightarrow>
        decrypt_entry ml decode_sensors entry key = Ok (sensors_for r ies)) recipients (dv_private d)"
proof -
  obtain pub groups where collected: "collect_items board build vals [] [] = Ok (pub, groups)"
    using assms(7) by (auto simp: parse_device_def and_then_Ok)
  have "parsed board build [] []" "[] = public_sensors []" "groups_ok [] []"
    by (simp_all add: parsed_def public_sensors_def groups_ok_def recipients_of_def)
  from collect_parsed [OF collected this] obtain ies where
    ies: "parsed board build vals ies" "pub = public_sensors ies" "groups_ok ies groups" by auto
  have pub: "dv_public d = pub" using assms(7) collected by (auto simp: parse_device_def and_then_Ok map_ok_is_Ok split: if_splits option.splits)
  have "list_all2 (\<lambda>(r, ss) entry. \<exists>k n. encrypt_group lb cc ml (ml_nonce ml n) k r (encode_sensors ss) = Ok entry) groups (dv_private d)"
  proof (cases "groups = []")
    case False
    then obtain k where "encrypt_groups lb cc ml encode_sensors k 0 groups = Ok (dv_private d)"
      using assms(7) collected by (auto simp: parse_device_def and_then_Ok map_ok_is_Ok split: option.splits)
    from encrypt_groups_length [OF this] show ?thesis by (rule list_all2_mono) auto
  qed (use assms(7) collected in \<open>auto simp: parse_device_def\<close>)
  then have "list_all2 (\<lambda>g entry. \<forall>b key. resolve_recipient lb cc (fst g) = Ok (public b) \<and>
        ml_signers ml Ed25519 key = Ok (signer Ed25519 sha512 cv public b) \<longrightarrow>
        decrypt_entry ml decode_sensors entry key = Ok (sensors_for (fst g) ies)) groups (dv_private d)"
  proof (rule list.rel_mono_strong)
    fix g entry assume g: "g \<in> set groups" and "entry \<in> set (dv_private d)"
      and "(case g of (r, ss) \<Rightarrow> \<lambda>entry. \<exists>k n. encrypt_group lb cc ml (ml_nonce ml n) k r (encode_sensors ss) = Ok entry) entry"
    then obtain k n where enc: "encrypt_group lb cc ml (ml_nonce ml n) k (fst g) (encode_sensors (snd g)) = Ok entry" by (cases g) auto
    obtain a where a: "ml_signers ml Ed25519 (secret_to_hex (cc_hex cc) (lb_seed lb) k) = Ok (signer Ed25519 sha512 cv public a)"
      using assms(6) by blast
    have "snd g = sensors_for (fst g) ies" using ies(3) g by (auto simp: groups_ok_def)
    moreover have "decrypt_ciphertext ml entry key = Ok (encode_sensors (snd g))"
      if "resolve_recipient lb cc (fst g) = Ok (public b)" "ml_signers ml Ed25519 key = Ok (signer Ed25519 sha512 cv public b)" for b key
      using entry_opens [OF assms(1-3) _ a enc that] assms(4) by simp
    ultimately show "\<forall>b key. resolve_recipient lb cc (fst g) = Ok (public b) \<and>
        ml_signers ml Ed25519 key = Ok (signer Ed25519 sha512 cv public b) \<longrightarrow>
        decrypt_entry ml decode_sensors entry key = Ok (sensors_for (fst g) ies)"
      using assms(5) by (simp add: decrypt_entry_def)
  qed
  then have "list_all2 (\<lambda>r entry. \<forall>b key. resolve_recipient lb cc r = Ok (public b) \<and>
        ml_signers ml Ed25519 key = Ok (signer Ed25519 sha512 cv public b) \<longrightarrow>
        decrypt_entry ml decode_sensors entry key = Ok (sensors_for r ies)) (map fst groups) (dv_private d)"
    by (simp add: list.rel_map)
  with ies pub show ?thesis by (intro exI [of _ ies] exI [of _ "map fst groups"]) (simp add: groups_ok_def)
qed

text \<open>Printing can only panic, or end well.\<close>

definition runs :: "'a cmd \<Rightarrow> bool" where
  "runs c \<longleftrightarrow> snd c = None \<or> (\<exists>x. snd c = Some (Ok x))"

lemma seq_status: "runs c \<Longrightarrow> snd (cmd_seq c d) = (if snd c = None then None else snd d)"
  by (auto simp: runs_def cmd_seq_def cmd_bind_def)

lemma all_status: "list_all runs cs \<Longrightarrow> snd (cmd_all cs) = (if \<exists>c\<in>set cs. snd c = None then None else Some (Ok ()))"
  by (induction cs) (auto simp: seq_status finish_def)

lemma line_status [simp]:
  assumes "ce_stdout env = None"
  shows "snd (line env i l t c) = Some (Ok ())" "snd (heading env t c) = Some (Ok ())" "snd (println env c) = Some (Ok ())"
  using assms by (simp_all add: line_def heading_def println_def)

lemma entry_status:
  assumes "ce_stdout env = None"
  shows "snd (print_private_entry lb cc ml env dec fmt suri is_last entry) =
    (if length (en_from entry) \<noteq> 32 then None else Some (Ok ()))"
proof (cases "length (en_from entry) = 32")
  case True
  then have "from_slice (en_from entry) = Ok (SensorId (en_from entry))" by simp
  with True assms show ?thesis unfolding print_private_entry_def Let_def
    by (auto simp del: from_slice_Ok simp: seq_status runs_def all_status list_all_iff eprintln_def finish_def
        split: option.splits sum.splits)
next
  case False
  then have "from_slice (en_from entry) = Err (SensorIdLen (length (en_from entry)))"
    by (simp add: from_slice_def protocol_consts)
  with False show ?thesis by (simp add: print_private_entry_def Let_def seq_status runs_def)
qed

lemma device_status:
  assumes "ce_stdout env = None"
  shows "snd (print_device lb cc ml env dec fmt suri d) =
    (if \<exists>e\<in>set (dv_private d). length (en_from e) \<noteq> 32 then None else Some (Ok ()))"
proof -
  let ?entries = "map (\<lambda>i. print_private_entry lb cc ml env dec fmt suri
      (length (dv_public d) + i + 1 = length (dv_public d) + length (dv_private d)) (dv_private d ! i)) [0..<length (dv_private d)]"
  have "snd (cmd_all ?entries) = (if \<exists>e\<in>set (dv_private d). length (en_from e) \<noteq> 32 then None else Some (Ok ()))"
    using assms by (subst all_status) (auto simp: list_all_iff runs_def entry_status in_set_conv_nth split: if_splits intro!: bexI [OF _ nth_mem])
  with assms show ?thesis
    by (simp add: print_device_def Let_def seq_status runs_def all_status list_all_iff)
qed

fun private_entries :: "Message \<Rightarrow> EncryptedEntry list" where
  "private_entries msg =
     (case msg_payload msg of
        Some (PayloadUrban d) \<Rightarrow> dv_private d
      | Some (PayloadInsight d) \<Rightarrow> dv_private d
      | None \<Rightarrow> [])"

lemma message_status:
  assumes "ce_stdout env = None"
  shows "snd (print_message lb cc ml env msg suri) =
    (if \<exists>e\<in>set (private_entries msg). length (en_from e) \<noteq> 32 then None else Some (Ok ()))"
  using assms
  by (auto simp: print_message_def seq_status runs_def finish_def print_urban_def print_insight_def device_status
      split: option.splits Payload.splits)

section \<open>Properties\<close>

text \<open>
  C36. What \<open>edge message\<close> prints it also reads. For every stored integer, the rendered reading is the sensor, the
  measurement, a number and its unit, and encoding \<open>sensor.measurement=number\<close> gives a message with exactly that
  reading: printing and parsing of floats and both roundings cancel, for all 2^32 values.
\<close>

theorem measurement_text_roundtrip:
  "(urban_reading s = Some (k, name, num, unit) \<longrightarrow>
      format_urban_sensor s = sensor_name k @ '' '' @ name @ ''='' @ num @ unit \<and>
      compact_parse lb cc ml Urban [sensor_name k @ ''.'' @ name @ ''='' @ num] suri =
        Ok \<lparr>msg_metadata = None, msg_payload = Some (PayloadUrban \<lparr>dv_public = [s], dv_private = []\<rparr>)\<rparr>) \<and>
   (insight_reading t = Some (k, name, num, unit) \<longrightarrow>
      format_insight_sensor t = sensor_name k @ '' '' @ name @ ''='' @ num @ unit \<and>
      compact_parse lb cc ml Insight [sensor_name k @ ''.'' @ name @ ''='' @ num] suri =
        Ok \<lparr>msg_metadata = None, msg_payload = Some (PayloadInsight \<lparr>dv_public = [t], dv_private = []\<rparr>)\<rparr>)"
proof (intro conjI impI)
  assume u: "urban_reading s = Some (k, name, num, unit)"
  show "format_urban_sensor s = sensor_name k @ '' '' @ name @ ''='' @ num @ unit" by (rule urban_reading_back(1) [OF u])
  from urban_reading_back(2) [OF u] obtain v where v: "kind_board k = Some Urban" "name \<in> set (measurements k)"
    "parse_f64 (trim num) = Ok v" "build_urban k (VMeasurement name v) = Ok s" by blast
  have "parse_device lb cc ml Urban build_urban (ml_encode_urban ml) [sensor_name k @ ''.'' @ name @ ''='' @ num] suri =
      Ok \<lparr>dv_public = [s], dv_private = []\<rparr>"
    by (rule parse_device_public [OF parse_item_scalar [OF v(1-3)]]) (simp_all add: v(4))
  then show "compact_parse lb cc ml Urban [sensor_name k @ ''.'' @ name @ ''='' @ num] suri =
      Ok \<lparr>msg_metadata = None, msg_payload = Some (PayloadUrban \<lparr>dv_public = [s], dv_private = []\<rparr>)\<rparr>"
    by (simp add: compact_parse_def)
next
  assume u: "insight_reading t = Some (k, name, num, unit)"
  show "format_insight_sensor t = sensor_name k @ '' '' @ name @ ''='' @ num @ unit" by (rule insight_reading_back(1) [OF u])
  from insight_reading_back(2) [OF u] obtain v where v: "kind_board k = Some Insight" "name \<in> set (measurements k)"
    "parse_f64 (trim num) = Ok v" "build_insight k (VMeasurement name v) = Ok t" by blast
  have "parse_device lb cc ml Insight build_insight (ml_encode_insight ml) [sensor_name k @ ''.'' @ name @ ''='' @ num] suri =
      Ok \<lparr>dv_public = [t], dv_private = []\<rparr>"
    by (rule parse_device_public [OF parse_item_scalar [OF v(1-3)]]) (simp_all add: v(4))
  then show "compact_parse lb cc ml Insight [sensor_name k @ ''.'' @ name @ ''='' @ num] suri =
      Ok \<lparr>msg_metadata = None, msg_payload = Some (PayloadInsight \<lparr>dv_public = [t], dv_private = []\<rparr>)\<rparr>"
    by (simp add: compact_parse_def)
qed

text \<open>
  C35. Private measurements are for their recipients. When a device section is encoded, the public list holds
  exactly the sensors given without a recipient, in order; there is one encrypted entry for each recipient
  named, and the recipient's key opens it to exactly the sensors given for them, in order.
\<close>

theorem private_only_for_recipients:
  assumes "aead_ok (ml_cipher ml)" and "curve_ok cv (scheme_scalar Ed25519 sha512) public"
    and "\<forall>s. length (public s) = 32" and "\<forall>n. length (ml_nonce ml n) = 24" and "\<forall>ss. decode_sensors (encode_sensors ss) = Ok ss"
    and "\<forall>k. \<exists>a. ml_signers ml Ed25519 (secret_to_hex (cc_hex cc) (lb_seed lb) k) = Ok (signer Ed25519 sha512 cv public a)"
    and "parse_device lb cc ml board build encode_sensors vals suri = Ok d"
  shows "\<exists>ies recipients. parsed board build vals ies \<and> dv_public d = public_sensors ies \<and>
    distinct recipients \<and> set recipients = recipients_of ies \<and>
    list_all2 (\<lambda>r entry. \<forall>b key. resolve_recipient lb cc r = Ok (public b) \<and>
        ml_signers ml Ed25519 key = Ok (signer Ed25519 sha512 cv public b) \<longrightarrow>
        decrypt_entry ml decode_sensors entry key = Ok (sensors_for r ies)) recipients (dv_private d)"
  by (rule private_sections [OF assms])

text \<open>
  Printing a message as text. Bytes that are no message give exit code 2; a message with a private entry
  whose sender is not 32 bytes long makes the command panic, which is outside its documented exit codes; every
  other message is printed with exit code 0, whether or not its private entries can be decrypted.
\<close>

lemma message_text_exit:
  assumes "ce_stdout env = None" and "message_input lb cc ml env args = Ok wire" and "ma_output args = Some ReprText"
  shows "snd (exit_status (message_run lb cc ml env args)) =
    (case ml_decode ml wire of
       Err _ \<Rightarrow> 2
     | Ok msg \<Rightarrow> if \<exists>e\<in>set (private_entries msg). length (en_from e) \<noteq> 32 then 101 else 0)"
proof -
  have "snd (message_run lb cc ml env args) = snd (write_output lb cc ml env wire ReprText (if ma_decrypt args then ma_suri args else None))"
    using assms(2,3) by (simp add: message_run_def seq_status runs_def print_id_def eprintln_def finish_def)
  also have "\<dots> = (case ml_decode ml wire of
       Err e \<Rightarrow> Some (Err (protocol_err (Decode e)))
     | Ok msg \<Rightarrow> if \<exists>e\<in>set (private_entries msg). length (en_from e) \<noteq> 32 then None else Some (Ok ()))"
    by (simp add: write_output_def write_bytes_def decode_sensor_message_def message_status [OF assms(1)] map_err_def split: sum.splits)
  finally show ?thesis
    by (auto simp: exit_status_def protocol_err_def with_code_def split: sum.splits option.splits)
qed

end
