(* ===== verification/CliMain.thy ===== *)
theory CliMain
  imports CliSensor CliMessage
begin

text \<open>
  The command \<open>edge config\<close> (\<open>cli/config.rs\<close>) and the dispatch of all commands with their exit codes
  (\<open>cli/mod.rs\<close>). The TOML library and the file system are parameters, as is the daemon that \<open>edge gateway\<close>
  runs (its start is the theory \<open>App\<close>). The theorems: a generated configuration is accepted by \<open>edge config
  check\<close> and read as the defaults, and no command leaves the documented exit codes but by the panic on a
  malformed message.
\<close>

section \<open>Configuration files\<close>

definition INGRESS_PATH :: string where
  "INGRESS_PATH = ''/v1/telemetry''"

definition route_summary :: string where
  "route_summary = ''POST http://<[http].listen>'' @ INGRESS_PATH @ '' (body: binary SignedEnvelope)''"

fun show_config_error :: "string ConfigError \<Rightarrow> string" where
  "show_config_error (ConfigRead path e) = ''failed to read config file '' @ path @ '': '' @ e"
| "show_config_error (ConfigParse e) = ''failed to parse config: '' @ e"
| "show_config_error (ConfigInvalid e) = ''invalid configuration: '' @ e"

definition http_open_relay_warning :: "(SocketAddr \<Rightarrow> string) \<Rightarrow> Config \<Rightarrow> string option" where
  "http_open_relay_warning show_addr c =
     (if http_open_relay c
      then Some (''http.listen = '' @ debug_str (show_addr (http_listen (cf_http c))) @
        '' is not a loopback address while auth.mode = '' @ debug_str ''none'' @
        '': anyone who can reach it may publish validly signed telemetry with a freshly generated key; consider auth.mode = '' @
        debug_str ''whitelist'' @ '' or a loopback bind'')
      else None)"

text \<open>TOML and files: \<open>ci_write\<close> answers the error of writing a path, if any.\<close>

record config_io =
  ci_hex_dec :: "string \<Rightarrow> string + bytes"
  ci_read :: "string \<Rightarrow> string + string"
  ci_from_toml :: "string \<Rightarrow> string + Config"
  ci_to_toml :: "Config \<Rightarrow> string + string"
  ci_show_addr :: "SocketAddr \<Rightarrow> string"
  ci_exists :: "string \<Rightarrow> bool"
  ci_write :: "string \<Rightarrow> string option"

datatype ConfigCommand = ConfigCheck string | ConfigPrint string | ConfigGenerate "string option" bool

definition config_load :: "config_io \<Rightarrow> string \<Rightarrow> CliError + Config" where
  "config_load ci path =
     map_err (\<lambda>e. usage (show_config_error e)) (config_from_file (ci_hex_dec ci) (ci_read ci) (ci_from_toml ci) path)"

definition config_check :: "config_io \<Rightarrow> cli_env \<Rightarrow> string \<Rightarrow> CliResult" where
  "config_check ci env path =
     cmd_bind (of_result (config_load ci path)) (\<lambda>config.
       cmd_seq (case http_open_relay_warning (ci_show_addr ci) config of
                  Some warning \<Rightarrow> eprintln (''warning: '' @ warning)
                | None \<Rightarrow> finish)
         (println env ''configuration is valid''))"

definition render :: "config_io \<Rightarrow> Config \<Rightarrow> CliError + string" where
  "render ci config = map_err (\<lambda>e. runtime (''failed to serialize config: '' @ e)) (ci_to_toml ci config)"

definition config_print :: "config_io \<Rightarrow> cli_env \<Rightarrow> string \<Rightarrow> CliResult" where
  "config_print ci env path =
     cmd_bind (of_result (and_then (config_load ci path) (render ci))) (print_str env)"

text \<open>\<open>str::split_inclusive\<close> on the line feed, and the loop that both annotations share.\<close>

fun split_inclusive :: "string \<Rightarrow> string list" where
  "split_inclusive [] = []"
| "split_inclusive (c # cs) =
     (if c = line_feed then [c] # split_inclusive cs
      else (case split_inclusive cs of [] \<Rightarrow> [[c]] | l # ls \<Rightarrow> (c # l) # ls))"

fun annotate :: "string \<Rightarrow> string \<Rightarrow> bool \<Rightarrow> string list \<Rightarrow> string" where
  "annotate header comment annotated [] = []"
| "annotate header comment annotated (l # ls) =
     (if \<not> annotated \<and> trim_end l = header then comment @ l @ annotate header comment True ls
      else l @ annotate header comment annotated ls)"

definition AUTH_COMMENT :: "string list" where
  "AUTH_COMMENT = map (\<lambda>l. l @ [line_feed])
     [''# Authentication. mode = '' @ debug_str ''none'' @ '' | '' @ debug_str ''whitelist'' @ '' | '' @ debug_str ''cps'' @ ''.'',
      ''# '' @ debug_str ''cps'' @ '' authorizes sensors whose CPS node is a strict descendant of'',
      ''# `cps_root_node_id` (the sensors.social node) and requires'',
      ''# `cps_expected_genesis_hash`; without `[blockchain] endpoint`'',
      ''# an embedded light client is used. Allows are cached'',
      ''# in memory until eviction or restart,'',
      ''# denials for `cps_negative_ttl_secs`; lookup failures are never cached.'']"

definition HTTP_COMMENT :: "string list" where
  "HTTP_COMMENT = map (\<lambda>l. l @ [line_feed])
     [''# HTTP ingress: '' @ route_summary,
      ''# `listen` defaults to loopback. A public bind with [auth] mode = '' @ debug_str ''none'' @ '' lets'',
      ''# anyone who can reach it publish telemetry signed with a freshly generated key.'']"

definition annotate_auth_section :: "string \<Rightarrow> string" where
  "annotate_auth_section rendered = annotate ''[auth]'' (concat AUTH_COMMENT) False (split_inclusive rendered)"

definition annotate_http_section :: "string \<Rightarrow> string" where
  "annotate_http_section rendered = annotate ''[http]'' (concat HTTP_COMMENT) False (split_inclusive rendered)"

text \<open>With the result comes the file written, if any.\<close>

definition config_generate :: "config_io \<Rightarrow> cli_env \<Rightarrow> string option \<Rightarrow> bool \<Rightarrow> CliResult \<times> (string \<times> string) option" where
  "config_generate ci env output force =
     (case and_then (map_err (\<lambda>e. runtime (''default configuration is invalid: '' @ show_config_error e))
                       (validate (ci_hex_dec ci) default_config)) (\<lambda>_. render ci default_config) of
        Err e \<Rightarrow> (of_result (Err e), None)
      | Ok rendered \<Rightarrow>
          let rendered = annotate_http_section (annotate_auth_section rendered) in
          (case output of
             None \<Rightarrow> (print_str env rendered, None)
           | Some path \<Rightarrow>
               if ci_exists ci path \<and> \<not> force
               then (of_result (Err (usage (path @ '' already exists; pass --force to overwrite''))), None)
               else (case ci_write ci path of
                       Some e \<Rightarrow> (of_result (Err (runtime (''failed to write '' @ path @ '': '' @ e))), None)
                     | None \<Rightarrow> (eprintln (''wrote default configuration to '' @ path), Some (path, rendered)))))"

definition config_run :: "config_io \<Rightarrow> cli_env \<Rightarrow> ConfigCommand \<Rightarrow> CliResult \<times> (string \<times> string) option" where
  "config_run ci env command =
     (case command of
        ConfigCheck path \<Rightarrow> (config_check ci env path, None)
      | ConfigPrint path \<Rightarrow> (config_print ci env path, None)
      | ConfigGenerate output force \<Rightarrow> config_generate ci env output force)"

section \<open>All commands\<close>

datatype Command =
    CmdGateway string
  | CmdSensor MeshtasticArgs
  | CmdEnvelope EnvelopeArgs
  | CmdBatch BatchArgs
  | CmdMessage MessageArgs
  | CmdKey KeyCommand
  | CmdConfig ConfigCommand

text \<open>What the commands use; \<open>ei_app\<close> is the daemon with a configuration, \<open>ei_fresh\<close> the key pair of a random seed.\<close>

record 'k edge_io =
  ei_libs :: "'k libs"
  ei_codecs :: codecs
  ei_messages :: message_libs
  ei_mesh :: mesh_libs
  ei_serial :: serial_io
  ei_config :: config_io
  ei_runtime :: "string + unit"
  ei_app :: "Config \<Rightarrow> string + unit"
  ei_fresh :: 'k

definition run_gateway :: "'k edge_io \<Rightarrow> string \<Rightarrow> CliResult" where
  "run_gateway io path =
     of_result (and_then (config_load (ei_config io) path) (\<lambda>config.
       and_then (map_err (\<lambda>e. runtime (''failed to start async runtime: '' @ e)) (ei_runtime io)) (\<lambda>_.
         map_err runtime (ei_app io config))))"

definition edge_dispatch :: "'k edge_io \<Rightarrow> cli_env \<Rightarrow> Command \<Rightarrow> CliResult option" where
  "edge_dispatch io env command =
     (let lb = ei_libs io; cc = ei_codecs io in
      case command of
        CmdGateway config \<Rightarrow> Some (run_gateway io config)
      | CmdSensor args \<Rightarrow> map_option fst (run_meshtastic lb cc (ei_mesh io) (ei_serial io) env args)
      | CmdEnvelope args \<Rightarrow> Some (envelope_run lb cc env args)
      | CmdBatch args \<Rightarrow> Some (batch_run lb cc env args)
      | CmdMessage args \<Rightarrow> Some (message_run lb cc (ei_messages io) env args)
      | CmdKey cmd \<Rightarrow> Some (key_run cc lb env (ei_fresh io) cmd)
      | CmdConfig cmd \<Rightarrow> Some (fst (config_run (ei_config io) env cmd)))"

definition edge_run :: "'k edge_io \<Rightarrow> cli_env \<Rightarrow> Command \<Rightarrow> (out list \<times> nat) option" where
  "edge_run io env command = map_option exit_status (edge_dispatch io env command)"

section \<open>Annotations are comments\<close>

text \<open>A line ends at its only line feed.\<close>

definition full_line :: "string \<Rightarrow> bool" where
  "full_line l \<longleftrightarrow> l \<noteq> [] \<and> List.last l = line_feed \<and> line_feed \<notin> set (butlast l)"

lemma full_line_iff: "full_line l \<longleftrightarrow> (\<exists>b. l = b @ [line_feed] \<and> line_feed \<notin> set b)"
  by (cases l rule: rev_cases) (auto simp: full_line_def)

lemma split_inclusive_line: "line_feed \<notin> set b \<Longrightarrow> split_inclusive (b @ line_feed # s) = (b @ [line_feed]) # split_inclusive s"
  by (induction b) auto

lemma split_inclusive_lines:
  "list_all full_line ls \<Longrightarrow> split_inclusive (concat ls @ s) = ls @ split_inclusive s"
  by (induction ls) (auto simp: full_line_iff split_inclusive_line)

lemma concat_split_inclusive [simp]: "concat (split_inclusive s) = s"
  by (induction s) (auto split: list.splits)

lemma split_inclusive_full: "split_inclusive s = ls @ m # ms \<Longrightarrow> list_all full_line ls"
proof (induction s arbitrary: ls m ms)
  case (Cons c s)
  show ?case
  proof (cases ls)
    case (Cons l ls')
    show ?thesis
    proof (cases "c = line_feed")
      case True
      with Cons.prems Cons Cons.IH show ?thesis by (auto simp: full_line_iff intro: exI [of _ "[]"])
    next
      case False
      with Cons.prems Cons obtain l' where l': "l = c # l'" "split_inclusive s = l' # ls' @ m # ms"
        by (auto split: list.splits)
      with Cons.IH [of "l' # ls'" m ms] have "full_line l'" "list_all full_line ls'" by simp_all
      moreover from this(1) False have "full_line (c # l')" by (auto simp: full_line_def)
      ultimately show ?thesis using Cons l' by simp
    qed
  qed simp
qed simp

lemma split_inclusive_rest: "split_inclusive s = ls @ ms \<Longrightarrow> split_inclusive (concat ms) = ms"
proof (cases ms)
  case (Cons m ms')
  assume split: "split_inclusive s = ls @ ms"
  then have "list_all full_line ls" using split_inclusive_full Cons by metis
  then have "split_inclusive (concat ls @ concat ms) = ls @ split_inclusive (concat ms)" by (rule split_inclusive_lines)
  moreover have "concat ls @ concat ms = s" using split concat_split_inclusive [of s] by simp
  ultimately show ?thesis using split by simp
qed simp

lemma annotate_done: "annotate header comment True ls = concat ls"
  by (induction ls) simp_all

lemma annotate_shape:
  "annotate header comment False ls = concat ls \<or>
   (\<exists>ps l qs. ls = ps @ l # qs \<and> annotate header comment False ls = concat ps @ comment @ l @ concat qs)"
proof (induction ls)
  case (Cons l ls)
  then show ?case
  proof (cases "trim_end l = header")
    case True
    then show ?thesis by (intro disjI2 exI [of _ "[]"] exI [of _ l] exI [of _ ls]) (simp add: annotate_done)
  next
    case False
    with Cons show ?thesis
    proof (elim disjE exE conjE)
      fix ps m qs
      assume "ls = ps @ m # qs" "annotate header comment False ls = concat ps @ comment @ m @ concat qs"
      with False show ?thesis by (intro disjI2 exI [of _ "l # ps"] exI [of _ m] exI [of _ qs]) simp
    qed simp
  qed
qed simp

text \<open>TOML: comment lines between the lines of a document without multi-line strings do not change what it says.\<close>

fun triple_quoted :: "string \<Rightarrow> bool" where
  "triple_quoted (a # b # c # s) \<longleftrightarrow>
     (a = b \<and> b = c \<and> (of_char a = (34 :: nat) \<or> of_char a = (39 :: nat))) \<or> triple_quoted (b # c # s)"
| "triple_quoted _ \<longleftrightarrow> False"

definition comment_line :: "string \<Rightarrow> bool" where
  "comment_line l \<longleftrightarrow> full_line l \<and> take 1 l = ''#'' \<and> \<not> triple_quoted l"

definition toml_comments :: "(string \<Rightarrow> string + Config) \<Rightarrow> bool" where
  "toml_comments from_toml \<longleftrightarrow>
     (\<forall>ls cs ms. list_all full_line ls \<and> split_inclusive (concat ms) = ms \<and> list_all (\<lambda>l. \<not> triple_quoted l) (ls @ ms) \<and>
        list_all comment_line cs \<longrightarrow> from_toml (concat (ls @ cs @ ms)) = from_toml (concat (ls @ ms)))"

lemma annotate_comments:
  assumes "toml_comments from_toml" and "list_all (\<lambda>l. \<not> triple_quoted l) (split_inclusive doc)" and "list_all comment_line cs"
  shows "from_toml (annotate header (concat cs) False (split_inclusive doc)) = from_toml doc"
    and "list_all (\<lambda>l. \<not> triple_quoted l) (split_inclusive (annotate header (concat cs) False (split_inclusive doc)))"
proof -
  let ?a = "annotate header (concat cs) False (split_inclusive doc)"
  consider (same) "?a = doc" | (put) ps l qs where "split_inclusive doc = ps @ l # qs" "?a = concat ps @ concat cs @ l @ concat qs"
    using annotate_shape [of header "concat cs" "split_inclusive doc"] by auto
  then have "from_toml ?a = from_toml doc \<and> list_all (\<lambda>l. \<not> triple_quoted l) (split_inclusive ?a)"
  proof cases
    case put
    have a: "?a = concat (ps @ cs @ l # qs)" by (simp add: put(2))
    have doc: "doc = concat (ps @ l # qs)" using concat_split_inclusive [of doc] unfolding put(1) by simp
    have lines: "list_all full_line ps" "split_inclusive (concat (l # qs)) = l # qs"
      using split_inclusive_full [OF put(1)] split_inclusive_rest [OF put(1)] by simp_all
    have "list_all full_line (ps @ cs)" using lines(1) assms(3) by (auto simp: list_all_iff comment_line_def)
    then have "split_inclusive (concat (ps @ cs) @ concat (l # qs)) = (ps @ cs) @ split_inclusive (concat (l # qs))"
      by (rule split_inclusive_lines)
    then have "split_inclusive ?a = ps @ cs @ l # qs" unfolding a lines(2) by simp
    moreover have "list_all (\<lambda>l. \<not> triple_quoted l) (ps @ l # qs)" using assms(2) unfolding put(1) .
    then have "from_toml (concat (ps @ cs @ l # qs)) = from_toml (concat (ps @ l # qs))"
      using assms(1,3) lines unfolding toml_comments_def by blast
    then have "from_toml ?a = from_toml doc" using a doc by metis
    ultimately show ?thesis using assms(2,3) by (auto simp: put(1) list_all_iff comment_line_def)
  qed (use assms(2) in simp)
  then show "from_toml ?a = from_toml doc" "list_all (\<lambda>l. \<not> triple_quoted l) (split_inclusive ?a)" by simp_all
qed

lemma comments_are: "list_all comment_line AUTH_COMMENT" "list_all comment_line HTTP_COMMENT"
  by code_simp+

section \<open>Exit codes\<close>

text \<open>A documented failure, and a command that ends with a documented exit code.\<close>

definition fine :: "CliError + 'a \<Rightarrow> bool" where
  "fine r \<longleftrightarrow> (\<forall>e. r = Err e \<longrightarrow> ce_code e \<in> {1, 2, 3})"

definition orderly :: "'a cmd \<Rightarrow> bool" where
  "orderly c \<longleftrightarrow> snd c \<noteq> None \<and> (\<forall>r. snd c = Some r \<longrightarrow> fine r)"

lemma fine_simps [simp]: "fine (Ok x)" "fine (Err (runtime m))" "fine (Err (usage m))" "fine (Err (protocol_err e))"
  "fine (Err (with_code 3 m))"
  by (cases e; simp add: fine_def runtime_def usage_def with_code_def protocol_err_def)+

lemma fine_map_err: "(\<And>e. fine (Err (f e) :: CliError + 'a)) \<Longrightarrow> fine (map_err f r :: CliError + 'a)"
  by (cases r) simp_all

lemma fine_and_then: "fine r \<Longrightarrow> (\<And>x. r = Ok x \<Longrightarrow> fine (f x)) \<Longrightarrow> fine (and_then r f)"
  by (cases r) (auto simp: fine_def)

lemma fine_map_ok [simp]: "fine (map_ok f r) \<longleftrightarrow> fine r"
  by (cases r) (auto simp: fine_def)

lemmas fine_intros = fine_map_err fine_and_then

lemma orderly_of [simp]: "orderly (of_result r) \<longleftrightarrow> fine r"
  by (simp add: orderly_def)

lemma orderly_bind: "orderly m \<Longrightarrow> (\<And>x. orderly (f x)) \<Longrightarrow> orderly (cmd_bind m f)"
  by (cases m; cases "snd m") (auto simp: orderly_def cmd_bind_def fine_def split: option.splits sum.splits)

lemma orderly_seq: "orderly m \<Longrightarrow> orderly k \<Longrightarrow> orderly (cmd_seq m k)"
  by (simp add: cmd_seq_def orderly_bind)

lemma orderly_finish [simp]: "orderly finish" "orderly (eprintln s)"
  by (simp_all add: finish_def eprintln_def orderly_def)

lemma orderly_out [simp]:
  assumes "ce_stdout env = None"
  shows "orderly (println env s)" "orderly (print_str env s)" "orderly (write_stdout env bs)" "orderly (line env i l t c)"
    "orderly (heading env t c)"
  using assms by (simp_all add: orderly_def println_def print_str_def write_stdout_def line_def heading_def)

lemma orderly_all: "list_all orderly cs \<Longrightarrow> orderly (cmd_all cs)"
  by (induction cs) (simp_all add: orderly_seq)

lemma orderly_bytes: "ce_stdout env = None \<Longrightarrow> orderly k \<Longrightarrow> orderly (write_bytes cc env wire format k)"
  by (cases format) (simp_all add: write_bytes_def)

lemma exit_orderly: "orderly c \<Longrightarrow> snd (exit_status c) \<in> {0, 1, 2, 3}"
  by (auto simp: orderly_def exit_status_def fine_def split: option.splits sum.splits)

lemma fine_input [simp]: "fine (read_stdin env)" "fine (wire_or_data env args)" "fine (batch_wire_or_data env bargs)"
  "fine (input_format input absent t)" "fine (wire_from_input cc raw f)" "fine (decode_wire lb wire)"
  by (auto simp: read_stdin_def wire_or_data_def batch_wire_or_data_def input_format_def wire_from_input_def decode_wire_def
      intro!: fine_map_err split: option.splits ReprFormat.splits ByteFormat.splits sum.splits)

lemma fine_envelope: "fine (envelope_input lb cc env args)"
  by (auto simp: envelope_input_def envelope_sign_def envelope_decode_def parse_nonce_def Let_def
      intro!: fine_intros split: option.splits)

lemma fine_lines: "fine (decode_lines lb cc args ls)"
  by (induction ls) (auto simp: batch_byte_format_def intro!: fine_intros)

lemma fine_batch: "fine (if ba_pack args then batch_pack lb cc env args else batch_decode lb cc env args)"
  by (auto simp: batch_pack_def pack_lines_def batch_decode_def batch_byte_format_def decompress_zstd_def fine_lines
      intro!: fine_intros)

lemma batch_text_orderly:
  "ce_stdout env = None \<Longrightarrow> orderly (batch_write_repr cc env batch wire format)"
  by (simp add: batch_write_repr_def orderly_bytes orderly_seq orderly_all list_all_iff write_envelope_text_def field_lines_def)

lemma envelope_orderly: "ce_stdout env = None \<Longrightarrow> orderly (envelope_run lb cc env args)"
  unfolding envelope_run_def
  by (intro orderly_bind)
    (auto simp: fine_envelope print_id_def write_repr_def field_lines_def list_all_iff
      intro!: orderly_seq orderly_bytes orderly_all split: sum.splits)

lemma batch_orderly: "ce_stdout env = None \<Longrightarrow> orderly (batch_run lb cc env args)"
  unfolding batch_run_def
  by (intro orderly_bind) (auto simp: fine_batch compress_zstd_def Let_def batch_text_orderly intro!: fine_map_err)

lemma key_orderly: "ce_stdout env = None \<Longrightarrow> orderly (key_run cc lb env fresh command)"
  by (auto simp: key_run_def Let_def identity_report_def key_report_def
      intro!: orderly_bind orderly_seq fine_map_err split: KeyCommand.splits sum.splits option.splits)

lemma fine_build: "fine (build_urban k v)" "fine (build_insight k v)"
  by (auto simp: build_urban_def build_insight_def bme280_measurement_def bme680_measurement_def scd41_measurement_def
      sds011_measurement_def ics43434_measurement_def no_measurement_def split: SensorKind.splits Value.splits)

lemma fine_collect:
  assumes "\<And>k v. fine (build k v)"
  shows "fine (collect_items board build vals pub priv)"
proof (induction vals arbitrary: pub priv)
  case (Cons raw vals)
  then show ?case using assms by (auto intro!: fine_intros split: option.splits)
qed simp

lemma fine_encrypt: "fine (encrypt_groups lb cc ml enc identity n groups)"
proof (induction groups arbitrary: n)
  case (Cons g groups)
  obtain r ss where "g = (r, ss)" by (cases g)
  moreover have "fine (encrypt_group lb cc ml nonce identity r bs)" for nonce bs
    by (auto simp: encrypt_group_def resolve_recipient_def intro!: fine_intros split: sum.splits)
  ultimately show ?case using Cons by (auto intro!: fine_intros)
qed simp

lemma fine_device: "(\<And>k v. fine (build k v)) \<Longrightarrow> fine (parse_device lb cc ml board build enc vals suri)"
  by (auto simp: parse_device_def fine_encrypt intro!: fine_intros fine_collect split: option.splits)

lemma fine_message: "fine (message_input lb cc ml env args)"
  by (auto simp: message_input_def compact_parse_def fine_device fine_build
      intro!: fine_intros split: Board.splits list.splits)

definition malformed_private :: "'k edge_io \<Rightarrow> cli_env \<Rightarrow> MessageArgs \<Rightarrow> bool" where
  "malformed_private io env args \<longleftrightarrow>
     (\<exists>wire msg. message_input (ei_libs io) (ei_codecs io) (ei_messages io) env args = Ok wire \<and>
        ml_decode (ei_messages io) wire = Ok msg \<and> (\<exists>e\<in>set (private_entries msg). length (en_from e) \<noteq> 32))"

lemma write_output_orderly:
  assumes "ce_stdout env = None"
  shows "orderly (write_output lb cc ml env wire format suri) \<or>
    (\<exists>msg. ml_decode ml wire = Ok msg \<and> (\<exists>e\<in>set (private_entries msg). length (en_from e) \<noteq> 32) \<and>
       snd (write_output lb cc ml env wire format suri) = None)"
proof (cases "format = ReprText")
  case True
  then show ?thesis
    by (auto simp: write_output_def write_bytes_def decode_sensor_message_def orderly_def message_status [OF assms] map_err_def
        split: sum.splits if_splits)
next
  case False
  then show ?thesis using assms by (simp add: write_output_def write_bytes_out orderly_def)
qed

lemma message_orderly:
  assumes "ce_stdout env = None"
  shows "orderly (message_run (ei_libs io) (ei_codecs io) (ei_messages io) env args) \<or>
    malformed_private io env args \<and> snd (message_run (ei_libs io) (ei_codecs io) (ei_messages io) env args) = None"
proof (cases "message_input (ei_libs io) (ei_codecs io) (ei_messages io) env args")
  case (Inl e)
  moreover have "fine (Err e :: CliError + bytes)" using fine_message Inl by metis
  ultimately show ?thesis by (simp add: message_run_def fine_def orderly_def of_result_def cmd_bind_def)
next
  case (Inr wire)
  define out where "out = write_output (ei_libs io) (ei_codecs io) (ei_messages io) env wire
      (case ma_output args of Some f \<Rightarrow> f | None \<Rightarrow> default_output env) (if ma_decrypt args then ma_suri args else None)"
  have run: "message_run (ei_libs io) (ei_codecs io) (ei_messages io) env args =
      cmd_seq (if ma_id args then print_id (ei_libs io) (ei_codecs io) wire else finish) out"
    by (simp add: message_run_def Inr out_def)
  have id: "orderly (if ma_id args then print_id (ei_libs io) (ei_codecs io) wire else finish)"
    "runs (if ma_id args then print_id (ei_libs io) (ei_codecs io) wire else finish)"
    "snd (if ma_id args then print_id (ei_libs io) (ei_codecs io) wire else finish) \<noteq> None"
    by (simp_all add: print_id_def) (simp_all add: runs_def eprintln_def finish_def)
  from write_output_orderly [OF assms] show ?thesis
    unfolding run malformed_private_def Inr out_def [symmetric] seq_status [OF id(2)]
    using orderly_seq [OF id(1)] id(3) unfolding out_def by fastforce
qed

lemma report_orderly [simp]: "orderly (serial_report env fragments os r)"
  by (cases r) (auto simp: serial_report_def orderly_def)

lemma sensor_orderly:
  assumes "run_meshtastic lb cc mb io env args = Some (r, t)"
  shows "orderly r"
proof -
  have prep: "fine (prepare lb mb env args)"
    by (auto simp: prepare_def parse_port_def intro!: fine_intros)
  have header: "orderly (send_header lb cc env gateway raw fragments)" for gateway raw fragments
    by (simp add: orderly_def header_ok)
  have serial: "orderly r'" if "send_over_serial mb io env device gateway p fragments = Some (r', t')" for device gateway p fragments r' t'
    using that by (auto simp: send_over_serial_def Let_def split: sum.splits option.splits prod.splits)
  show ?thesis
  proof (cases "prepare lb mb env args")
    case (Inl e)
    with prep have "fine (Err e :: CliError + unit)" by (auto simp: fine_def)
    then show ?thesis using assms Inl by (auto simp: run_meshtastic_def)
  next
    case (Inr x)
    then show ?thesis using assms
      by (auto simp: run_meshtastic_def Let_def header serial intro!: orderly_seq split: sum.splits prod.splits)
  qed
qed

lemma generate_orderly:
  assumes "ce_stdout env = None"
  shows "orderly (fst (config_generate ci env output force))"
proof -
  let ?r = "and_then (map_err (\<lambda>e. runtime (''default configuration is invalid: '' @ show_config_error e))
      (validate (ci_hex_dec ci) default_config)) (\<lambda>_. render ci default_config)"
  have r: "fine ?r" by (auto simp: render_def intro!: fine_intros)
  show ?thesis
  proof (cases ?r)
    case (Inl e)
    then have "fine (Err e :: CliError + string)" using r by (simp only:)
    then show ?thesis unfolding config_generate_def Inl by (simp add: fine_def)
  next
    case (Inr rendered)
    then show ?thesis using assms unfolding config_generate_def Inr by (simp add: Let_def split: option.splits)
  qed
qed

lemma config_orderly: "ce_stdout env = None \<Longrightarrow> orderly (fst (config_run ci env command))"
  by (auto simp: config_run_def config_check_def config_print_def config_load_def render_def generate_orderly
      intro!: orderly_bind orderly_seq fine_intros split: ConfigCommand.splits option.splits)

lemma gateway_orderly: "orderly (run_gateway io path)"
  by (auto simp: run_gateway_def config_load_def intro!: fine_intros)

section \<open>Properties\<close>

lemma default_validates: "validate hex_dec default_config = (Ok () :: 'io ConfigError + unit)"
  by (simp add: validate_def default_config_def default_blockchain_def default_auth_def default_ipfs_def default_meshtastic_def
      default_batcher_def validate_ipfs_def validate_meshtastic_def validate_batcher_def validate_blockchain_def MAX_PAYLOAD_SIZE_def)

text \<open>
  C16. The exit codes of \<open>edge\<close>. With standard output open, every command that ends does so with one of the
  documented exit codes 0 to 3, whatever its arguments, its input, the files, the radio and the libraries
  do, except that \<open>edge message\<close> panics (101) on a decoded message with a malformed private entry.
\<close>

theorem edge_exit_codes:
  assumes "edge_run io env command = Some (os, code)" and "ce_stdout env = None"
  shows "code \<in> {0, 1, 2, 3} \<or> code = 101 \<and> (\<exists>args. command = CmdMessage args \<and> malformed_private io env args)"
proof -
  obtain r where r: "edge_dispatch io env command = Some r" and exit: "exit_status r = (os, code)"
    using assms(1) by (auto simp: edge_run_def)
  have "orderly r \<or> snd r = None \<and> (\<exists>args. command = CmdMessage args \<and> malformed_private io env args)"
    using r message_orderly [OF assms(2)]
    by (cases command) (auto simp: edge_dispatch_def Let_def gateway_orderly envelope_orderly batch_orderly key_orderly config_orderly
        assms(2) dest: sensor_orderly)
  then show ?thesis using exit_orderly [of r] exit by (auto simp: exit_status_def)
qed

text \<open>
  A generated configuration is a valid one. What \<open>edge config generate\<close> prints or writes reads as the built-in
  defaults, its annotations included, and \<open>edge config check\<close> accepts the file without a warning.
\<close>

lemma generated_config_checks:
  assumes "toml_comments (ci_from_toml ci)" and "ci_to_toml ci default_config = Ok doc" and "ci_from_toml ci doc = Ok default_config"
    and "list_all (\<lambda>l. \<not> triple_quoted l) (split_inclusive doc)"
    and "ce_stdout env = None" and "\<not> (ci_exists ci path \<and> \<not> force)" and "ci_write ci path = None"
  shows "\<exists>content. config_run ci env (ConfigGenerate None force) = (print_str env content, None) \<and>
      snd (config_run ci env (ConfigGenerate (Some path) force)) = Some (path, content) \<and>
      ci_from_toml ci content = Ok default_config \<and>
      config_check (ci\<lparr>ci_read := (ci_read ci)(path := Ok content)\<rparr>) env path = println env ''configuration is valid''"
proof -
  define content where "content = annotate_http_section (annotate_auth_section doc)"
  note auth = annotate_comments [OF assms(1,4) comments_are(1), of "''[auth]''", folded annotate_auth_section_def]
  note http = annotate_comments [OF assms(1) auth(2) comments_are(2), of "''[http]''", folded annotate_http_section_def]
  have parsed: "ci_from_toml ci content = Ok default_config" using http(1) auth(1) assms(3) by (simp add: content_def)
  have valid: "validate (ci_hex_dec ci) default_config = (Ok () :: string ConfigError + unit)"
    by (rule default_validates)
  have "config_load (ci\<lparr>ci_read := (ci_read ci)(path := Ok content)\<rparr>) path = Ok default_config"
    using parsed valid by (simp add: config_load_def config_from_file_def)
  moreover have "http_open_relay_warning show_addr default_config = None" for show_addr
    by (simp add: http_open_relay_warning_def http_open_relay_def default_config_def default_http_def is_public_def)
  ultimately have "config_check (ci\<lparr>ci_read := (ci_read ci)(path := Ok content)\<rparr>) env path = println env ''configuration is valid''"
    by (simp add: config_check_def cmd_seq_def finish_def)
  then show ?thesis using parsed valid assms(2,6,7)
    by (auto simp: config_run_def config_generate_def render_def content_def Let_def intro!: exI [of _ content])
qed

end
