(* ===== verification/WitnessesCli.thy ===== *)
theory WitnessesCli
  imports WitnessesLibcps CliMain
begin

text \<open>
  Concrete inputs for the theorems on the \<open>edge\<close> command line: hexadecimal digits after a plus sign stand in for
  base64, a coding of fields for protobuf, a marked copy for zstd.
\<close>

section \<open>Codings\<close>

definition codecs0 :: codecs where
  "codecs0 = \<lparr>cc_hex = hex_enc0, cc_unhex = hex_dec0, cc_b64 = (\<lambda>b. CHR ''+'' # hex_enc0 b),
              cc_unb64 = (\<lambda>b. case b of [] \<Rightarrow> Err ''empty''
                 | c # r \<Rightarrow> if c = 43 then hex_dec0 (map (\<lambda>x. char_of (unat x)) r) else Err ''plus'')\<rparr>"

lemma digit_byte: "d < 16 \<Longrightarrow> is_hexdigit (word_of_nat (of_char (hex_digit d)))"
proof -
  assume "d < 16"
  then have "(of_char (hex_digit d) :: nat) \<in> {48..57} \<union> {97..102}" by (auto simp: hex_digit_def)
  then show ?thesis by (auto simp: is_hexdigit_def word_le_nat_alt unat_of_nat)
qed

lemma hex_enc_digits: "list_all is_hexdigit (as_bytes (hex_enc0 b))"
proof -
  have "unat x div 16 < 16" for x :: u8
    using unsigned_less [where 'a = nat, of x] by (simp add: less_mult_imp_div_less)
  then show ?thesis by (auto simp: list_all_iff hex_enc0_def as_bytes_def intro: digit_byte)
qed

lemma hex_enc_length: "length (hex_enc0 b) = 2 * length b"
  by (induction b) (simp_all add: hex_enc0_def)

lemma codecs0_hex: "hex_text_ok codecs0"
  using hex_ok0 hex_enc_digits hex_enc_length by (simp add: hex_text_ok_def codecs0_def hex_ok_def)

lemma codecs0_base64: "base64_ok codecs0"
proof -
  have plus: "as_bytes (CHR ''+'' # s) = 43 # as_bytes s" for s by (simp add: as_bytes_def)
  have "list_all is_base64_char (as_bytes (hex_enc0 b))" for b
    using hex_enc_digits hexdigit_base64 by (auto simp: list_all_iff)
  then show ?thesis
    using hex_ok0 by (simp add: base64_ok_def codecs0_def plus as_bytes_roundtrip hex_ok_def is_base64_char_def)
qed

lemma codecs0_unmistakable: "0 \<in> set b \<Longrightarrow> unmistakable codecs0 b"
  by (auto simp: unmistakable_def codecs0_def white_def is_base64_char_def intro: bexI [of _ 0])

section \<open>Envelopes\<close>

definition libs0 :: "nat libs" where
  "libs0 = \<lparr>lb_pair = (\<lambda>s. Ok (length s)), lb_seed = pub0, lb_public = pub0, lb_sign = sign0, lb_verify = vrf0,
            lb_random_nonce = replicate 16 5, lb_sha256 = sha0, lb_encode = (\<lambda>e. enc0 [e]),
            lb_decode = (\<lambda>b. case group0 (fields0 b) of [e] \<Rightarrow> Ok e | _ \<Rightarrow> Err ''envelope''),
            lb_to_ss58 = hex_enc0, lb_from_ss58 = (\<lambda>s. Ok (pub0 (length s), 32)), lb_ss58_format = show_nat,
            lb_encode_batch = enc0, lb_decode_batch = (\<lambda>b. Ok (group0 (fields0 b))),
            lb_zstd = (\<lambda>b. Ok (0 # b)), lb_unzstd = (\<lambda>z. Ok (drop 1 z))\<rparr>"

lemma libs0_ok:
  "ed25519_ok (lb_public libs0) (lb_sign libs0) (lb_verify libs0)" "\<forall>e. lb_decode libs0 (lb_encode libs0 e) = Ok e"
  "\<forall>es. lb_decode_batch libs0 (lb_encode_batch libs0 es) = Ok es" "digest_len (lb_sha256 libs0)"
  "\<forall>b. \<exists>z. lb_zstd libs0 b = Ok z \<and> lb_unzstd libs0 z = Ok b \<and> unmistakable codecs0 z"
  using ed25519_ok0 group_enc digest_sha0 codecs0_unmistakable by (simp_all add: libs0_def)

definition terminal0 :: "bytes \<Rightarrow> cli_env" where
  "terminal0 input = \<lparr>ce_stdin = Ok input, ce_terminal = False, ce_stdout = None, ce_bold = (\<lambda>s. s), ce_dim = (\<lambda>s. s),
     ce_label = (\<lambda>s. s), ce_green = (\<lambda>s. s), ce_red = (\<lambda>s. s)\<rparr>"

definition sign_args0 :: EnvelopeArgs where
  "sign_args0 = \<lparr>ev_data = Some ''hi'', ev_input = None, ev_output = Some ReprHex, ev_sign = Some ''//Alice'', ev_nonce = None,
                 ev_verify = False, ev_id = False\<rparr>"

definition verify_args0 :: EnvelopeArgs where
  "verify_args0 = \<lparr>ev_data = None, ev_input = None, ev_output = None, ev_sign = None, ev_nonce = None,
                   ev_verify = True, ev_id = True\<rparr>"

definition signed0 :: SignedEnvelope where
  "signed0 = sign_message pub0 sign0 (replicate 16 5) (length ''//Alice'') (as_bytes ''hi'') None"

lemma signed0_made: "envelope_sign libs0 codecs0 (terminal0 []) ''//Alice'' sign_args0 = Ok (signed0, enc0 [signed0])"
  by (simp add: envelope_sign_def identity_from_suri_def libs0_def sign_args0_def trim_def ascii_space_def input_format_def
      wire_or_data_def wire_from_input_def parse_nonce_def signed0_def Let_def)

lemma enc0_unmistakable: "es \<noteq> [] \<Longrightarrow> unmistakable codecs0 (enc0 es)"
  by (rule codecs0_unmistakable) (cases es; auto simp: enc0_def field0_def)

lemma signed0_fields: "env_message signed0 \<noteq> []" "length (env_nonce signed0) = 16"
  by (simp_all add: signed0_def sign_message_def Let_def as_bytes_def)

theorem envelope_sign_then_verify_witness:
  "snd (exit_status (envelope_run libs0 codecs0
      (terminal0 (stdout_of (fst (exit_status (envelope_run libs0 codecs0 (terminal0 []) sign_args0))))) verify_args0)) = 0"
proof -
  let ?out = "stdout_of (fst (exit_status (envelope_run libs0 codecs0 (terminal0 []) sign_args0)))"
  have args: "ev_sign sign_args0 = Some ''//Alice''" "\<not> ev_verify sign_args0" "ev_output sign_args0 = Some ReprHex" "ReprHex \<noteq> ReprText"
    "ev_data verify_args0 = None" "ev_input verify_args0 = None" "ev_sign verify_args0 = None" "ev_verify verify_args0"
    by (simp_all add: sign_args0_def verify_args0_def)
  have env: "ce_stdout (terminal0 b) = None" "ce_stdin (terminal0 b) = Ok b" for b by (simp_all add: terminal0_def)
  from envelope_sign_then_verify [OF codecs0_hex codecs0_base64 libs0_ok(1,2) args(1) signed0_made enc0_unmistakable
      args(2-4) env(1) args(5-8) env(2) env(1)]
  show ?thesis using signed0_fields by simp
qed

section \<open>Batches\<close>

definition pack_args0 :: BatchArgs where
  "pack_args0 = \<lparr>ba_data = [], ba_input = None, ba_output = Some ReprBase64, ba_pack = True, ba_decompress = False, ba_compress = True\<rparr>"

definition unpack_args0 :: BatchArgs where
  "unpack_args0 = \<lparr>ba_data = [], ba_input = None, ba_output = None, ba_pack = False, ba_decompress = True, ba_compress = False\<rparr>"

abbreviation line_input0 :: bytes where
  "line_input0 \<equiv> concat (map (written codecs0 ReprHex) [enc0 [signed0], enc0 [env0]])"

theorem batch_pack_then_decode_witness:
  "batch_pack libs0 codecs0 (terminal0 line_input0) pack_args0 = Ok [signed0, env0] \<and>
   batch_decode libs0 codecs0
     (terminal0 (stdout_of (fst (exit_status (batch_run libs0 codecs0 (terminal0 line_input0) pack_args0))))) unpack_args0 =
     Ok [signed0, env0]"
proof -
  let ?wires = "[enc0 [signed0], enc0 [env0]]"
  have wires: "?wires \<noteq> []" "\<forall>w\<in>set ?wires. unmistakable codecs0 w" "ReprHex \<in> {ReprHex, ReprBase64}"
    "list_all2 (\<lambda>w e. lb_decode libs0 w = Ok e) ?wires [signed0, env0]"
    "unmistakable codecs0 (lb_encode_batch libs0 [signed0, env0])"
    using libs0_ok(2) enc0_unmistakable by (simp_all add: libs0_def)
  have pack: "ba_pack pack_args0" "ba_data pack_args0 = []" "ba_input pack_args0 = None" "ba_output pack_args0 = Some ReprBase64"
    "ReprBase64 \<noteq> ReprText" by (simp_all add: pack_args0_def)
  have unpack: "\<not> ba_pack unpack_args0" "ba_data unpack_args0 = []" "ba_input unpack_args0 = None"
    "ba_decompress unpack_args0 = ba_compress pack_args0" by (simp_all add: pack_args0_def unpack_args0_def)
  have env: "ce_stdout (terminal0 b) = None" "ce_stdin (terminal0 b) = Ok b" for b by (simp_all add: terminal0_def)
  from batch_pack_then_decode [OF codecs0_hex codecs0_base64 libs0_ok(3,5) wires pack env(2) env(1) unpack env(2)]
  show ?thesis by blast
qed

section \<open>Measurements\<close>

text \<open>Public keys of 32 bytes for a commutative group, over the scalars of Ed25519 keys.\<close>

definition public32 :: "bytes \<Rightarrow> bytes" where
  "public32 s = replicate 31 0 @ [sum_list (scheme_scalar Ed25519 sha512_0 s)]"

lemma public32_ok: "curve_ok curve0 (scheme_scalar Ed25519 sha512_0) public32" "\<forall>s. length (public32 s) = 32"
  by (simp_all add: curve_ok_def curve0_def public32_def add.commute sum_list_replicate)

definition mlibs0 :: message_libs where
  "mlibs0 = \<lparr>ml_signers = (\<lambda>_ suri. Ok (signer Ed25519 sha512_0 curve0 public32 (as_bytes suri))), ml_cipher = cipher0,
             ml_nonce = (\<lambda>n. replicate 24 (of_nat n)), ml_encode = (\<lambda>_. [1]), ml_decode = (\<lambda>_. Err ''bad''),
             ml_encode_urban = (\<lambda>_. []), ml_decode_urban = (\<lambda>_. Ok []), ml_encode_insight = (\<lambda>_. []),
             ml_decode_insight = (\<lambda>_. Ok []), ml_now = 0\<rparr>"

theorem measurement_text_roundtrip_witness:
  "format_urban_sensor (Some (UrbanBme280 (Some (Bme280Temperature (Temperature 2150))))) =
     sensor_name KBme280 @ '' '' @ ''temperature'' @ ''='' @ show_fixed 2 (centi_to_f64 2150) @ DEGREES \<and>
   compact_parse libs0 codecs0 mlibs0 Urban
     [sensor_name KBme280 @ ''.'' @ ''temperature'' @ ''='' @ show_fixed 2 (centi_to_f64 2150)] None =
     Ok \<lparr>msg_metadata = None, msg_payload = Some (PayloadUrban
       \<lparr>dv_public = [Some (UrbanBme280 (Some (Bme280Temperature (Temperature 2150))))], dv_private = []\<rparr>)\<rparr>"
proof -
  have "urban_reading (Some (UrbanBme280 (Some (Bme280Temperature (Temperature 2150))))) =
    Some (KBme280, ''temperature'', show_fixed 2 (centi_to_f64 2150), DEGREES)" by (simp add: urban_reading_def)
  from conjunct1 [OF measurement_text_roundtrip [where t = None and lb = libs0 and cc = codecs0 and ml = mlibs0 and suri = None],
      rule_format, OF this]
  show ?thesis .
qed

text \<open>Sensors are kept by their kind, coded as a byte each; the recipient is given by its SS58 address.\<close>

definition kinds0 :: "SensorKind list" where
  "kinds0 = [KGps, KBme280, KBme680, KScd41, KSds011, KIcs43434]"

definition build0 :: "SensorKind \<Rightarrow> Value \<Rightarrow> CliError + SensorKind" where
  "build0 k v = Ok k"

definition encode_kinds0 :: "SensorKind list \<Rightarrow> bytes" where
  "encode_kinds0 = map (\<lambda>k. case k of KGps \<Rightarrow> 0 | KBme280 \<Rightarrow> 1 | KBme680 \<Rightarrow> 2 | KScd41 \<Rightarrow> 3 | KSds011 \<Rightarrow> 4 | KIcs43434 \<Rightarrow> 5)"

definition decode_kinds0 :: "bytes \<Rightarrow> string + SensorKind list" where
  "decode_kinds0 b = Ok (map (\<lambda>x. kinds0 ! unat x) b)"

lemma kinds0_read: "\<forall>ss. decode_kinds0 (encode_kinds0 ss) = Ok ss"
proof
  show "decode_kinds0 (encode_kinds0 ss) = Ok ss" for ss
    by (induction ss) (auto simp: decode_kinds0_def encode_kinds0_def kinds0_def split: SensorKind.splits)
qed

definition values0 :: "string list" where
  "values0 = [''temp=1'', ''private:AL/pm10=2'']"

abbreviation device0 :: "CliError + SensorKind device" where
  "device0 \<equiv> parse_device libs0 codecs0 mlibs0 Urban build0 encode_kinds0 values0 (Some ''s'')"

lemma parse_digit: "n < 2 ^ 40 \<Longrightarrow> parse_f64 (trim (show_nat n)) = Ok (fl False (of_nat n))"
  unfolding trim_show_nat by (rule parse_show_nat)

lemma device0_made: "device0 = Ok (projr device0)"
proof -
  have "show_nat 1 = ''1''" "show_nat 2 = ''2''" by code_simp+
  then have digits: "parse_f64 (trim ''1'') = Ok (fl False 1)" "parse_f64 (trim ''2'') = Ok (fl False 2)"
    using parse_digit [of 1] parse_digit [of 2] by simp_all
  have "parse_item Urban ''temp=1'' = Ok \<lparr>it_recipient = None, it_kind = KBme280, it_value = VMeasurement ''temperature'' (fl False 1)\<rparr>"
    using digits by (simp add: parse_item_def split_once_def strip_prefix_def parse_scalar_def canonical_measurement_def
        select_kind_def candidates_def SCALAR_SENSORS_def)
  moreover have "parse_item Urban ''private:AL/pm10=2'' =
      Ok \<lparr>it_recipient = Some ''AL'', it_kind = KSds011, it_value = VMeasurement ''pm10'' (fl False 2)\<rparr>"
    using digits by (simp add: parse_item_def split_once_def strip_prefix_def parse_scalar_def canonical_measurement_def
        select_kind_def candidates_def SCALAR_SENSORS_def)
  ultimately show ?thesis
    by (simp add: parse_device_def values0_def build0_def identity_from_suri_def libs0_def mlibs0_def encrypt_group_def
        resolve_recipient_def sensor_from_ss58_def signer_from_suri_def encrypt_def signer_def ed_derive_shared_def curve0_def
        derive_key_def cipher0_def protocol_consts)
qed

theorem private_only_for_recipients_witness:
  "\<exists>ies recipients. parsed Urban build0 values0 ies \<and> dv_public (projr device0) = public_sensors ies \<and>
    distinct recipients \<and> set recipients = recipients_of ies \<and>
    list_all2 (\<lambda>r entry. \<forall>b key. resolve_recipient libs0 codecs0 r = Ok (public32 b) \<and>
        ml_signers mlibs0 Ed25519 key = Ok (signer Ed25519 sha512_0 curve0 public32 b) \<longrightarrow>
        decrypt_entry mlibs0 decode_kinds0 entry key = Ok (sensors_for r ies)) recipients (dv_private (projr device0))"
proof -
  have "aead_ok (ml_cipher mlibs0)" "\<forall>n. length (ml_nonce mlibs0 n) = 24"
    "\<forall>k. \<exists>a. ml_signers mlibs0 Ed25519 (secret_to_hex (cc_hex codecs0) (lb_seed libs0) k) = Ok (signer Ed25519 sha512_0 curve0 public32 a)"
    using cipher0_ok by (auto simp: mlibs0_def)
  from private_only_for_recipients [OF this(1) public32_ok this(2) kinds0_read this(3) device0_made] show ?thesis .
qed

definition message_args0 :: MessageArgs where
  "message_args0 = \<lparr>ma_values = [], ma_board = Urban, ma_input = Some ReprBinary, ma_output = Some ReprText, ma_suri = None,
                    ma_node_id = None, ma_timestamp = None, ma_id = False, ma_decrypt = False\<rparr>"

definition forged0 :: Message where
  "forged0 = \<lparr>msg_metadata = None, msg_payload = Some (PayloadUrban \<lparr>dv_public = [], dv_private =
     [\<lparr>en_version = 1, en_algorithm = ENTRY_ALGORITHM, en_from = [1, 2], en_nonce = [], en_ciphertext = []\<rparr>]\<rparr>)\<rparr>"

section \<open>Sending\<close>

definition mesh0 :: mesh_libs where
  "mesh0 = \<lparr>mb_routing = (\<lambda>_. Ok (Some (ErrorReason 0))), mb_error_name = (\<lambda>_. None), mb_valid_port = (\<lambda>p. p = 256)\<rparr>"

definition ack0 :: "u32 \<Rightarrow> recv" where
  "ack0 i = Received (Some (RadioPacket (Some (RadioDecoded \<lparr>rd_portnum = 5, rd_request_id = i, rd_payload = []\<rparr>))))"

definition serial0 :: serial_io where
  "serial0 = \<lparr>si_open = (\<lambda>_. Ok ()), si_config_id = 9, si_configure = Ok (), si_runtime = Ok (),
              si_handshake = [Received (Some (MyInfo 5)), Received (Some (ConfigCompleteId 9))],
              si_radio = \<lparr>ra_results = [SendEchoed (Some 1), SendEchoed (Some 2)], ra_incoming = [ack0 1, ack0 7, ack0 2],
                          ra_taken = [], ra_sent = []\<rparr>\<rparr>"

definition send_args0 :: MeshtasticArgs where
  "send_args0 = \<lparr>sm_device = ''/dev/ttyUSB0'', sm_gateway = ''!0000000a'', sm_port_num = 256\<rparr>"

abbreviation wire1 :: bytes where
  "wire1 \<equiv> enc0 [signed0]"

abbreviation frames1 :: "bytes list" where
  "frames1 \<equiv> projr (encode_frames sha0 wire1)"

lemma frames1: "encode_frames sha0 wire1 = Ok frames1" "length frames1 = 2"
  by code_simp+

lemma prepared0: "prepare libs0 mesh0 (terminal0 wire1) send_args0 = Ok (10, 256, wire1, frames1)"
proof -
  have "parse_node_id ''!0000000a'' = Ok 10"
    by (simp add: parse_node_id_def trim_def ascii_space_def strip_prefix_def from_str_radix_def to_digit_def Let_def)
  moreover have "decode_envelope (lb_decode libs0) wire1 = Ok signed0" by (simp add: decode_envelope_def libs0_def group_enc)
  moreover have "encode_frames (lb_sha256 libs0) wire1 = Ok frames1" using frames1(1) by (simp only: libs0_def libs.simps)
  moreover have "read_stdin (terminal0 wire1) = Ok wire1" "parse_port mesh0 256 = Ok 256"
    by (simp_all add: read_stdin_def terminal0_def parse_port_def mesh0_def)
  ultimately show ?thesis by (simp only: prepare_def send_args0_def MeshtasticArgs.simps and_then_simps map_err_simps map_ok_simps)
qed

abbreviation sent0 :: "(CliResult \<times> radio) option" where
  "sent0 \<equiv> run_meshtastic libs0 codecs0 mesh0 serial0 (terminal0 wire1) send_args0"

lemma sent0_made:
  "\<exists>r t. sent0 = Some (r, t) \<and> snd r = Some (Ok ()) \<and> radio_sent t = map (\<lambda>f. (f, 256, 10)) frames1"
proof -
  obtain a b where ab: "frames1 = [a, b]" using frames1(2) by (auto simp: numeral_2_eq_2 length_Suc_conv)
  have ready: "wait_for_ready (si_config_id serial0) None False (si_handshake serial0) = Some (Ok 5, [])"
    by (simp add: serial0_def)
  obtain os t where "send_over_serial mesh0 serial0 (terminal0 wire1) (sm_device send_args0) 10 256 [a, b] = Some ((os, Some (Ok ())), t)"
      and "radio_sent t = [(a, 256, 10), (b, 256, 10)]"
    unfolding send_over_serial_def ready
    by (simp add: serial0_def submit_fragments_def radio_send_fragment_def ack0_def is_reply_def ROUTING_APP_def ack_result_def
        mesh0_def ROUTING_NONE_def serial_report_def radio_sent_def)
  moreover have "si_runtime serial0 = Ok ()" by (simp add: serial0_def)
  ultimately show ?thesis
    unfolding run_meshtastic_def prepared0 Let_def ab by (simp add: after_header) (simp add: cmd_seq_def eprintln_def)
qed

theorem sensor_delivery_confirmed_witness:
  "\<exists>r t. sent0 = Some (r, t) \<and> radio_sent t = map (\<lambda>f. (f, 256, 10)) frames1 \<and>
     (\<forall>f\<in>set frames1. radio_confirmed mesh0 t (f, 256, 10))"
proof -
  from sent0_made obtain r t where run: "sent0 = Some (r, t)" "snd r = Some (Ok ())" "radio_sent t = map (\<lambda>f. (f, 256, 10)) frames1"
    by blast
  from sensor_delivery_confirmed [OF run(1)] run show ?thesis by (simp add: prepared0)
qed

text \<open>The second frame comes twice before the first one and once more afterwards.\<close>

abbreviation arr1 :: "(instant \<times> SystemTime \<times> bytes) list" where
  "arr1 \<equiv> [(3, 100, frames1 ! 1), (4, 101, frames1 ! 1), (5, 102, frames1 ! 0), (6, 103, frames1 ! 1)]"

lemma frames1_order: "set (map (snd \<circ> snd) arr1) \<subseteq> set frames1" "completions (set frames1) {} arr1 = [102]"
  by code_simp+

abbreviation gateway0 :: Reassembler where
  "gateway0 \<equiv> new_reassembler cfg0"

lemma gateway0_room:
  "map_of (re_assemblies gateway0) (7, message_id sha0 wire1) = None" "length (fragments_of sha0 wire1) \<le> max_fragments (re_config gateway0)"
  "length (re_assemblies gateway0) < max_pending (re_config gateway0)"
  "sender_pending gateway0 7 < max_pending_per_sender (re_config gateway0)"
  "length wire1 \<le> max_reassembled_bytes (re_config gateway0)"
  by code_simp+

theorem sensor_reaches_gateway_witness:
  "\<exists>re ms. session_loop (lb_sha256 libs0) (lb_decode libs0) default_meshtastic
      (map (frame_event default_meshtastic 7) arr1) gateway0 =
      Some (None, [\<lparr>im_envelope = signed0, im_raw_envelope = wire1,
                    im_transport = meshtastic_metadata 7, im_received_at = 102\<rparr>], re, ms)"
proof -
  from sent0_made obtain r t where run: "sent0 = Some (r, t)" "snd r = Some (Ok ())" "radio_sent t = map (\<lambda>f. (f, 256, 10)) frames1"
    by blast
  have sha: "lb_sha256 libs0 = sha0" by (simp add: libs0_def)
  have stdin: "ce_stdin (terminal0 wire1) = Ok wire1" by (simp add: terminal0_def)
  have radio: "radio_sent (si_radio serial0) = []" by (simp add: serial0_def radio_sent_def)
  have port: "mc_port_num default_meshtastic = 256" "uint (sm_port_num send_args0) = sint (256 :: i32)"
    by (simp_all add: default_meshtastic_def send_args0_def)
  have nonce: "length (env_nonce signed0) \<in> {16..32}" using signed0_fields(2) by simp
  have all: "(\<lambda>(f, _, _). f) ` set (radio_sent t) = set frames1" unfolding run(3) by (simp add: image_image)
  from sensor_reaches_gateway [OF libs0_ok(1,2,4) signed0_made signed0_fields(1) nonce stdin run(1,2) radio port
      frames1_order(1) [folded all] gateway0_room [folded sha]]
  show ?thesis unfolding all frames1_order(2) by auto
qed

section \<open>Configurations and exit codes\<close>

text \<open>A TOML reader that knows one document and skips the lines of comments.\<close>

definition toml0 :: string where
  "toml0 = ''[http]'' @ [line_feed] @ ''[auth]'' @ [line_feed]"

definition from_toml0 :: "string \<Rightarrow> string + Config" where
  "from_toml0 s = (if concat (filter (\<lambda>l. take 1 l \<noteq> ''#'') (split_inclusive s)) = toml0 then Ok default_config else Err ''toml'')"

definition config_io0 :: config_io where
  "config_io0 = \<lparr>ci_hex_dec = hex_dec0, ci_read = (\<lambda>_. Ok toml0), ci_from_toml = from_toml0, ci_to_toml = (\<lambda>_. Ok toml0),
                 ci_show_addr = (\<lambda>_. []), ci_exists = (\<lambda>_. False), ci_write = (\<lambda>_. None)\<rparr>"

lemma toml0_comments: "toml_comments from_toml0"
proof -
  have "from_toml0 (concat (ls @ cs @ ms)) = from_toml0 (concat (ls @ ms))"
    if "list_all full_line ls" "split_inclusive (concat ms) = ms" "list_all comment_line cs" for ls cs ms
  proof -
    have "list_all full_line (ls @ cs)" using that by (auto simp: list_all_iff comment_line_def)
    then have "split_inclusive (concat (ls @ cs) @ concat ms) = (ls @ cs) @ ms" by (simp only: split_inclusive_lines that(2))
    then have "split_inclusive (concat (ls @ cs @ ms)) = ls @ cs @ ms" by simp
    moreover have "split_inclusive (concat (ls @ ms)) = ls @ ms"
      using split_inclusive_lines [OF that(1), of "concat ms"] that(2) by simp
    moreover have "filter (\<lambda>l. take 1 l \<noteq> ''#'') cs = []" using that(3) by (auto simp: list_all_iff comment_line_def filter_empty_conv)
    ultimately show ?thesis by (simp add: from_toml0_def)
  qed
  then show ?thesis by (auto simp: toml_comments_def)
qed

lemma toml0_lines: "list_all (\<lambda>l. \<not> triple_quoted l) (split_inclusive toml0)" "from_toml0 toml0 = Ok default_config"
  by (simp_all add: toml0_def line_feed_def from_toml0_def)

definition edge_io0 :: "nat edge_io" where
  "edge_io0 = \<lparr>ei_libs = libs0, ei_codecs = codecs0, ei_messages = mlibs0, ei_mesh = mesh0, ei_serial = serial0,
               ei_config = config_io0, ei_runtime = Ok (), ei_app = (\<lambda>_. Ok ()), ei_fresh = 0\<rparr>"

theorem edge_exit_codes_witness:
  "\<exists>os code. edge_run edge_io0 (terminal0 []) (CmdConfig (ConfigCheck ''f'')) = Some (os, code) \<and> code \<in> {0, 1, 2, 3}"
proof -
  obtain os code where run: "edge_run edge_io0 (terminal0 []) (CmdConfig (ConfigCheck ''f'')) = Some (os, code)"
    by (simp add: edge_run_def edge_dispatch_def Let_def) (metis prod.exhaust)
  have "ce_stdout (terminal0 []) = None" by (simp add: terminal0_def)
  from edge_exit_codes [OF run this] run show ?thesis by auto
qed

end
