(* ===== verification/CpsConfig.thy ===== *)
theory CpsConfig
  imports CliFormat
begin

text \<open>
  The configuration of the \<open>cps\<close> command line (\<open>libcps/src/cli/config.rs\<close>, \<open>commands/profile.rs\<close>, the rendering of
  \<open>output.rs\<close>): the config file, its profiles, the resolution of the effective settings and their display.
  TOML and the file system are parameters. The theorem: each setting is the first one given on the command
  line, in the environment, in the selected profile or by default, and resolution fails in exactly the
  documented cases.
\<close>

section \<open>Errors\<close>

text \<open>\<open>anyhow::Error\<close>: the contexts, outermost first, and the cause. \<open>show_any\<close> is its form with \<open>{:#}\<close>, which appends
  the source of a cause that has one.\<close>

datatype any_cause = AnyMsg string | AnyLib CpsError

type_synonym any_error = "string list \<times> any_cause"

definition bail :: "string \<Rightarrow> any_error" where
  "bail m = ([], AnyMsg m)"

definition lib_error :: "CpsError \<Rightarrow> any_error" where
  "lib_error e = ([], AnyLib e)"

definition with_context :: "string \<Rightarrow> any_error + 'a \<Rightarrow> any_error + 'a" where
  "with_context c r = map_err (\<lambda>(cs, e). (c # cs, e)) r"

fun cps_source :: "CpsError \<Rightarrow> string list" where
  "cps_source (CpsConnection e) = [e]"
| "cps_source (CpsRpc e) = [e]"
| "cps_source (CpsRuntime e) = [e]"
| "cps_source (CpsTransaction e) = [e]"
| "cps_source (CpsDispatch e) = [e]"
| "cps_source _ = []"

definition show_any :: "any_error \<Rightarrow> string" where
  "show_any e = join_with '': '' (fst e @ (case snd e of AnyMsg m \<Rightarrow> [m] | AnyLib l \<Rightarrow> show_cps_error l # cps_source l))"

section \<open>Settings\<close>

datatype WaitPolicy = WaitBest | WaitFinalized

datatype OutputFormat = Human | Json

text \<open>\<open>value_name\<close> and \<open>ValueEnum::from_str\<close> without regard to case.\<close>

fun wait_name :: "WaitPolicy \<Rightarrow> string" where
  "wait_name WaitBest = ''best''"
| "wait_name WaitFinalized = ''finalized''"

fun output_name :: "OutputFormat \<Rightarrow> string" where
  "output_name Human = ''human''"
| "output_name Json = ''json''"

definition enum_from_str :: "('a \<Rightarrow> string) \<Rightarrow> 'a list \<Rightarrow> string \<Rightarrow> string + 'a" where
  "enum_from_str name variants v =
     (case find (\<lambda>x. ascii_lower (name x) = ascii_lower v) variants of
        Some x \<Rightarrow> Ok x
      | None \<Rightarrow> Err (''invalid variant: '' @ v))"

definition parse_wait :: "string \<Rightarrow> string + WaitPolicy" where
  "parse_wait = enum_from_str wait_name [WaitBest, WaitFinalized]"

definition parse_output :: "string \<Rightarrow> string + OutputFormat" where
  "parse_output = enum_from_str output_name [Human, Json]"

record Profile =
  pf_url :: "string option"
  pf_output :: "OutputFormat option"
  pf_wait :: "WaitPolicy option"

definition default_profile :: Profile where
  "default_profile = \<lparr>pf_url = None, pf_output = None, pf_wait = None\<rparr>"

text \<open>The profiles are a \<open>BTreeMap\<close>: distinct names in order.\<close>

record Config_cps =
  cp_default :: "string option"
  cp_profiles :: "(string \<times> Profile) list"

definition default_config_cps :: Config_cps where
  "default_config_cps = \<lparr>cp_default = None, cp_profiles = []\<rparr>"

text \<open>\<open>char::is_whitespace\<close>: the ASCII spaces and the other white space characters in UTF-8.\<close>

definition UNICODE_SPACES :: "string list" where
  "UNICODE_SPACES =
     map (map char_of)
       ([[0xC2, 0x85], [0xC2, 0xA0], [0xE1, 0x9A, 0x80]] @ map (\<lambda>n. [0xE2, 0x80, n]) ([0x80..<0x8B] @ [0xA8, 0xA9, 0xAF]) @
        [[0xE2, 0x81, 0x9F], [0xE3, 0x80, 0x80 :: nat]])"

definition has_whitespace :: "string \<Rightarrow> bool" where
  "has_whitespace s \<longleftrightarrow> list_ex ascii_space s \<or> list_ex (\<lambda>u. contains_str u s) UNICODE_SPACES"

definition validate_url :: "string \<Rightarrow> any_error + unit" where
  "validate_url url =
     (let bad = Err (bail (''invalid RPC URL `'' @ url @ ''`: expected ws://HOST[:PORT] or wss://HOST[:PORT]'')) in
      case (case strip_prefix ''ws://'' url of Some r \<Rightarrow> Some r | None \<Rightarrow> strip_prefix ''wss://'' url) of
        Some rest \<Rightarrow>
          if rest \<noteq> [] \<and> hd rest \<noteq> CHR ''/'' \<and> \<not> has_whitespace url then Ok () else bad
      | None \<Rightarrow> bad)"

fun validate_profiles :: "(string \<times> Profile) list \<Rightarrow> any_error + unit" where
  "validate_profiles [] = Ok ()"
| "validate_profiles ((name, p) # ps) =
     and_then (case pf_url p of
                 Some url \<Rightarrow> with_context (''invalid option in profile `'' @ name @ ''`'') (validate_url url)
               | None \<Rightarrow> Ok ())
       (\<lambda>_. validate_profiles ps)"

definition config_parse :: "(string \<Rightarrow> string + Config_cps) \<Rightarrow> string \<Rightarrow> any_error + Config_cps" where
  "config_parse from_toml content =
     and_then (map_err bail (from_toml content)) (\<lambda>config. map_ok (\<lambda>_. config) (validate_profiles (cp_profiles config)))"

definition config_profile :: "Config_cps \<Rightarrow> string \<Rightarrow> any_error + Profile" where
  "config_profile config name =
     (case map_of (cp_profiles config) name of
        Some p \<Rightarrow> Ok p
      | None \<Rightarrow>
          Err (bail (''profile `'' @ name @ ''` does not exist'' @
            (if cp_profiles config = [] then [line_feed, line_feed] @ ''No profiles are configured.''
             else [line_feed, line_feed] @ ''Available profiles:'' @
                  concat (map (\<lambda>(available, _). line_feed # ''  '' @ available) (cp_profiles config))))))"

record CliSettings =
  cs_config :: "string option"
  cs_profile :: "string option"
  cs_url :: "string option"
  cs_output :: "OutputFormat option"
  cs_wait :: "WaitPolicy option"

record EffectiveConfig =
  ec_profile :: "string option"
  ec_config_path :: "string option"
  ec_url :: string
  ec_output :: OutputFormat
  ec_wait :: WaitPolicy

record Resolved =
  rv_file :: Config_cps
  rv_effective :: EffectiveConfig

definition DEFAULT_URL :: string where
  "DEFAULT_URL = ''ws://127.0.0.1:9944''"

definition ENV_CONFIG :: string where
  "ENV_CONFIG = ''CPS_CONFIG''"

definition ENV_PROFILE :: string where
  "ENV_PROFILE = ''CPS_PROFILE''"

definition ENV_URL :: string where
  "ENV_URL = ''ROBONOMICS_WS_URL''"

definition ENV_OUTPUT :: string where
  "ENV_OUTPUT = ''CPS_OUTPUT''"

definition ENV_WAIT :: string where
  "ENV_WAIT = ''CPS_WAIT''"

definition unwrap_or :: "'a \<Rightarrow> 'a option \<Rightarrow> 'a" where
  "unwrap_or d x = (case x of Some v \<Rightarrow> v | None \<Rightarrow> d)"

definition or_else :: "'a option \<Rightarrow> 'a option \<Rightarrow> 'a option" where
  "or_else x y = (case x of Some v \<Rightarrow> Some v | None \<Rightarrow> y)"

definition of_profile :: "string \<Rightarrow> Profile \<Rightarrow> string option \<Rightarrow> EffectiveConfig" where
  "of_profile name profile config_path =
     \<lparr>ec_profile = Some name, ec_config_path = config_path, ec_url = unwrap_or DEFAULT_URL (pf_url profile),
      ec_output = unwrap_or Human (pf_output profile), ec_wait = unwrap_or WaitFinalized (pf_wait profile)\<rparr>"

section \<open>Resolution\<close>

type_synonym environment = "string \<Rightarrow> string option"

text \<open>\<open>std::env\<close> values that are not empty.\<close>

definition env_text :: "environment \<Rightarrow> string \<Rightarrow> string option" where
  "env_text env name = (case env name of Some v \<Rightarrow> if v = [] then None else Some v | None \<Rightarrow> None)"

datatype platform = Windows | MacOs | OtherOs

text \<open>\<open>Path::join\<close> with a relative path.\<close>

definition path_join :: "platform \<Rightarrow> string \<Rightarrow> string \<Rightarrow> string" where
  "path_join os base p =
     (let sep = (if os = Windows then CHR 0x5C else CHR ''/'') in
      if base = [] \<or> List.last base = sep then base @ p else base @ sep # p)"

definition default_config_path :: "platform \<Rightarrow> environment \<Rightarrow> string option" where
  "default_config_path os env =
     map_option (\<lambda>base. path_join os (path_join os base ''cps'') ''config.toml'')
       (case os of
          Windows \<Rightarrow> env_text env ''APPDATA''
        | MacOs \<Rightarrow> map_option (\<lambda>h. path_join os h ''Library/Application Support'') (env_text env ''HOME'')
        | OtherOs \<Rightarrow>
            or_else (env_text env ''XDG_CONFIG_HOME'') (map_option (\<lambda>h. path_join os h ''.config'') (env_text env ''HOME'')))"

text \<open>Reading a file; an error has its message, and the kind \<open>NotFound\<close> is told apart.\<close>

datatype read_result = FileText string | FileNotFound string | FileError string

record cps_files =
  fl_read :: "string \<Rightarrow> read_result"
  fl_toml :: "string \<Rightarrow> string + Config_cps"

definition cannot_read :: "string \<Rightarrow> string \<Rightarrow> any_error" where
  "cannot_read path e = bail (''cannot read config file '' @ path @ '': '' @ e)"

definition load :: "cps_files \<Rightarrow> (string \<times> bool) option \<Rightarrow> any_error + Config_cps \<times> string option" where
  "load fl path =
     (case path of
        None \<Rightarrow> Ok (default_config_cps, None)
      | Some (path, explicit) \<Rightarrow>
          (case fl_read fl path of
             FileText content \<Rightarrow>
               map_ok (\<lambda>config. (config, Some path))
                 (with_context (''cannot load config file '' @ path) (config_parse (fl_toml fl) content))
           | FileNotFound e \<Rightarrow> if \<not> explicit then Ok (default_config_cps, None) else Err (cannot_read path e)
           | FileError e \<Rightarrow> Err (cannot_read path e)))"

definition env_enum :: "(string \<Rightarrow> string + 'a) \<Rightarrow> environment \<Rightarrow> string \<Rightarrow> any_error + 'a option" where
  "env_enum parse env name =
     (case env_text env name of
        None \<Rightarrow> Ok None
      | Some v \<Rightarrow> map_ok Some (map_err (\<lambda>e. bail (''invalid value of '' @ name @ '': `'' @ v @ ''` ('' @ e @ '')'')) (parse v)))"

definition setting :: "'a option \<Rightarrow> any_error + 'a option \<Rightarrow> 'a option \<Rightarrow> 'a \<Rightarrow> any_error + 'a" where
  "setting cli from_env profile builtin =
     (case cli of
        Some v \<Rightarrow> Ok v
      | None \<Rightarrow> map_ok (\<lambda>e. unwrap_or builtin (or_else e profile)) from_env)"

definition chosen_path :: "CliSettings \<Rightarrow> environment \<Rightarrow> string option \<Rightarrow> (string \<times> bool) option" where
  "chosen_path cli env default_path =
     or_else (map_option (\<lambda>p. (p, True)) (cs_config cli))
       (or_else (map_option (\<lambda>p. (p, True)) (env_text env ENV_CONFIG)) (map_option (\<lambda>p. (p, False)) default_path))"

definition resolve_settings :: "cps_files \<Rightarrow> CliSettings \<Rightarrow> environment \<Rightarrow> string option \<Rightarrow> any_error + Resolved" where
  "resolve_settings fl cli env default_path =
     and_then (load fl (chosen_path cli env default_path)) (\<lambda>(file, config_path).
     let profile_name = or_else (cs_profile cli) (or_else (env_text env ENV_PROFILE) (cp_default file)) in
     and_then (case profile_name of Some name \<Rightarrow> config_profile file name | None \<Rightarrow> Ok default_profile) (\<lambda>profile.
     let url = unwrap_or DEFAULT_URL (or_else (cs_url cli) (or_else (env_text env ENV_URL) (pf_url profile))) in
     and_then (validate_url url) (\<lambda>_.
     and_then (setting (cs_output cli) (env_enum parse_output env ENV_OUTPUT) (pf_output profile) Human) (\<lambda>output.
     and_then (setting (cs_wait cli) (env_enum parse_wait env ENV_WAIT) (pf_wait profile) WaitFinalized) (\<lambda>wait.
       Ok \<lparr>rv_file = file,
           rv_effective = \<lparr>ec_profile = profile_name, ec_config_path = config_path, ec_url = url,
                           ec_output = output, ec_wait = wait\<rparr>\<rparr>)))))"

definition resolve_from_env :: "platform \<Rightarrow> cps_files \<Rightarrow> environment \<Rightarrow> CliSettings \<Rightarrow> any_error + Resolved" where
  "resolve_from_env os fl env cli = resolve_settings fl cli env (default_config_path os env)"

definition display_path :: "string option \<Rightarrow> string" where
  "display_path path = (case path of Some p \<Rightarrow> p | None \<Rightarrow> ''-'')"

section \<open>Rendering\<close>

text \<open>JSON documents, as \<open>serde_json\<close> values with the keys in the order of the source.\<close>

datatype json = JNull | JBool bool | JNum nat | JStr string | JArr "json list" | JObj "(string \<times> json) list"

definition json_str_opt :: "string option \<Rightarrow> json" where
  "json_str_opt s = (case s of Some v \<Rightarrow> JStr v | None \<Rightarrow> JNull)"

definition effective_json :: "EffectiveConfig \<Rightarrow> json" where
  "effective_json cfg =
     JObj [(''profile'', json_str_opt (ec_profile cfg)), (''config'', json_str_opt (ec_config_path cfg)),
           (''rpc'', JStr (ec_url cfg)), (''output'', JStr (output_name (ec_output cfg))),
           (''wait'', JStr (wait_name (ec_wait cfg)))]"

text \<open>\<open>{:<width$}\<close>: the width counts characters, so not the continuation bytes of UTF-8.\<close>

definition char_count :: "string \<Rightarrow> nat" where
  "char_count s = length (filter (\<lambda>c. let n = of_char c :: nat in n < 128 \<or> 192 \<le> n) s)"

definition pad_right :: "nat \<Rightarrow> string \<Rightarrow> string" where
  "pad_right width s = s @ replicate (width - char_count s) CHR '' ''"

definition fields :: "(string \<times> string) list \<Rightarrow> string" where
  "fields rows = join_with [line_feed] (map (\<lambda>(l, v). pad_right 10 (l @ '':'') @ '' '' @ v) rows)"

definition wide_fields :: "(string \<times> string) list \<Rightarrow> string" where
  "wide_fields rows =
     (let width = Max (insert 0 (set (map (\<lambda>(l, _). length l) rows))) + 1 in
      join_with [line_feed] (map (\<lambda>(l, v). pad_right width (l @ '':'') @ '' '' @ v) rows))"

section \<open>\<open>cps profile\<close>\<close>

datatype ProfileCommand = ProfileList | ProfileShow "string option"

definition is_default :: "Config_cps \<Rightarrow> string \<Rightarrow> bool" where
  "is_default file name \<longleftrightarrow> cp_default file = Some name"

definition profile_human_list :: "Config_cps \<Rightarrow> string" where
  "profile_human_list file =
     (if cp_profiles file = [] then ''No profiles are configured.''
      else
        let width = max (Max (insert 0 (set (map (length \<circ> fst) (cp_profiles file))))) 4 + 2 in
        join_with [line_feed]
          ((pad_right width ''NAME'' @ ''DEFAULT'') #
           map (\<lambda>(name, _). trim_end (pad_right width name @ (if is_default file name then ''yes'' else [])))
             (cp_profiles file)))"

definition profile_list_json :: "Config_cps \<Rightarrow> json" where
  "profile_list_json file =
     JObj [(''default'', json_str_opt (cp_default file)),
           (''profiles'', JArr (map (\<lambda>(name, _). JObj [(''name'', JStr name), (''default'', JBool (is_default file name))])
              (cp_profiles file)))]"

definition profile_human_show :: "EffectiveConfig \<Rightarrow> string" where
  "profile_human_show view =
     wide_fields
       [(''Profile'', unwrap_or ''- (built-in defaults)'' (ec_profile view)), (''Config'', display_path (ec_config_path view)),
        (''RPC'', ec_url view), (''Output'', output_name (ec_output view)), (''Wait'', wait_name (ec_wait view))]"

definition resolved_profile :: "EffectiveConfig \<Rightarrow> Config_cps \<Rightarrow> string \<Rightarrow> any_error + EffectiveConfig" where
  "resolved_profile cfg file name = map_ok (\<lambda>profile. of_profile name profile (ec_config_path cfg)) (config_profile file name)"

text \<open>What \<open>Output::result\<close> prints, its two forms at hand; \<open>show_json\<close> is the text of a document.\<close>

definition result_text :: "(json \<Rightarrow> string) \<Rightarrow> EffectiveConfig \<Rightarrow> string \<Rightarrow> json \<Rightarrow> string list" where
  "result_text show_json cfg human json =
     (if ec_output cfg = Json then [show_json json] else if human = [] then [] else [human])"

definition profile_run ::
  "(json \<Rightarrow> string) \<Rightarrow> EffectiveConfig \<Rightarrow> Config_cps \<Rightarrow> ProfileCommand \<Rightarrow> any_error + string list" where
  "profile_run show_json cfg file command =
     (case command of
        ProfileList \<Rightarrow> Ok (result_text show_json cfg (profile_human_list file) (profile_list_json file))
      | ProfileShow name \<Rightarrow>
          map_ok (\<lambda>view. result_text show_json cfg (profile_human_show view) (effective_json view))
            (case name of Some name \<Rightarrow> resolved_profile cfg file name | None \<Rightarrow> Ok cfg))"

section \<open>Specification\<close>

definition first_of :: "'a option list \<Rightarrow> 'a option" where
  "first_of xs = Option.bind (find (\<lambda>x. x \<noteq> None) xs) (\<lambda>x. x)"

definition url_ok :: "string \<Rightarrow> bool" where
  "url_ok url \<longleftrightarrow>
     (\<exists>rest. (url = ''ws://'' @ rest \<or> url = ''wss://'' @ rest) \<and> rest \<noteq> [] \<and> hd rest \<noteq> CHR ''/'') \<and> \<not> has_whitespace url"

text \<open>The file that counts: none, the one read and parsed with good URLs, or no file where the default one is missing.\<close>

definition counted_file :: "cps_files \<Rightarrow> (string \<times> bool) option \<Rightarrow> (Config_cps \<times> string option) option" where
  "counted_file fl path =
     (case path of
        None \<Rightarrow> Some (default_config_cps, None)
      | Some (path, explicit) \<Rightarrow>
          (case fl_read fl path of
             FileText content \<Rightarrow>
               (case fl_toml fl content of
                  Ok c \<Rightarrow> if list_all (\<lambda>(_, p). case pf_url p of None \<Rightarrow> True | Some u \<Rightarrow> url_ok u) (cp_profiles c)
                          then Some (c, Some path) else None
                | Err _ \<Rightarrow> None)
           | FileNotFound _ \<Rightarrow> if explicit then None else Some (default_config_cps, None)
           | FileError _ \<Rightarrow> None))"

definition env_value :: "(string \<Rightarrow> string + 'a) \<Rightarrow> environment \<Rightarrow> string \<Rightarrow> 'a option" where
  "env_value parse env name =
     (case env_text env name of None \<Rightarrow> None | Some v \<Rightarrow> (case parse v of Ok x \<Rightarrow> Some x | Err _ \<Rightarrow> None))"

definition env_bad :: "(string \<Rightarrow> string + 'a) \<Rightarrow> environment \<Rightarrow> string \<Rightarrow> bool" where
  "env_bad parse env name \<longleftrightarrow> (case env_text env name of None \<Rightarrow> False | Some v \<Rightarrow> isl (parse v))"

section \<open>Lemmas\<close>

lemma first_of_simps [simp]:
  "first_of [] = None" "first_of (Some x # xs) = Some x" "first_of (None # xs) = first_of xs"
  by (simp_all add: first_of_def)

lemma or_else_first: "or_else x (or_else y z) = first_of [x, y, z]"
  by (cases x; cases y; cases z; simp add: or_else_def)

lemma unwrap_first: "unwrap_or d (first_of [x, y, z]) = the (first_of [x, y, z, Some d])"
  by (cases x; cases y; cases z; simp add: or_else_def unwrap_or_def)

lemma validate_url_Ok: "validate_url url = Ok u \<longleftrightarrow> url_ok url"
proof -
  define rest where "rest = (case strip_prefix ''ws://'' url of Some r \<Rightarrow> Some r | None \<Rightarrow> strip_prefix ''wss://'' url)"
  have rest: "rest = Some r \<longleftrightarrow> url = ''ws://'' @ r \<or> url = ''wss://'' @ r" for r
  proof (cases "strip_prefix ''ws://'' url")
    case None
    then have "url \<noteq> ''ws://'' @ r" by (metis option.discI strip_prefix_Some)
    with None show ?thesis by (simp add: rest_def strip_prefix_Some)
  next
    case (Some q)
    then have "url = ''ws://'' @ q" by (simp only: strip_prefix_Some)
    with Some show ?thesis by (auto simp: rest_def)
  qed
  show ?thesis
  proof (cases rest)
    case None
    then have "\<not> url_ok url" using rest by (auto simp: url_ok_def)
    with None show ?thesis unfolding validate_url_def rest_def [symmetric] Let_def by simp
  next
    case (Some r)
    then have "url_ok url \<longleftrightarrow> r \<noteq> [] \<and> hd r \<noteq> CHR ''/'' \<and> \<not> has_whitespace url"
      using rest by (auto simp: url_ok_def)
    with Some show ?thesis unfolding validate_url_def rest_def [symmetric] Let_def by simp
  qed
qed

lemma validate_profiles_Ok:
  "validate_profiles ps = Ok u \<longleftrightarrow> list_all (\<lambda>(_, p). case pf_url p of None \<Rightarrow> True | Some u \<Rightarrow> url_ok u) ps"
proof (induction ps)
  case (Cons x ps)
  obtain name p where x: "x = (name, p)" by (cases x)
  from Cons show ?case
    by (cases "pf_url p") (simp_all add: x and_then_Ok with_context_def map_err_is_Ok validate_url_Ok)
qed simp

lemma config_parse_Ok:
  "config_parse from_toml content = Ok c \<longleftrightarrow> from_toml content = Ok c \<and>
     list_all (\<lambda>(_, p). case pf_url p of None \<Rightarrow> True | Some u \<Rightarrow> url_ok u) (cp_profiles c)"
  by (auto simp: config_parse_def and_then_Ok map_err_is_Ok map_ok_is_Ok validate_profiles_Ok)

lemma load_Ok: "load fl path = Ok x \<longleftrightarrow> counted_file fl path = Some x"
proof (cases path)
  case (Some q)
  obtain p explicit where q: "q = (p, explicit)" by (cases q)
  show ?thesis
  proof (cases "fl_read fl p")
    case (FileText content)
    then show ?thesis
      by (cases "fl_toml fl content") (auto simp: Some q load_def counted_file_def map_ok_is_Ok with_context_def map_err_is_Ok config_parse_Ok)
  qed (simp_all add: Some q load_def counted_file_def)
qed (simp add: load_def counted_file_def)

lemma setting_Ok:
  "setting cli (env_enum parse env name) profile d = Ok v \<longleftrightarrow>
   \<not> (cli = None \<and> env_bad parse env name) \<and> v = the (first_of [cli, env_value parse env name, profile, Some d])"
  by (auto simp: setting_def env_enum_def env_bad_def env_value_def map_ok_def map_err_def or_else_def unwrap_or_def
      split: option.splits sum.splits)

lemma config_profile_Ok: "config_profile file name = Ok p \<longleftrightarrow> map_of (cp_profiles file) name = Some p"
  by (auto simp: config_profile_def split: option.splits)

section \<open>Properties\<close>

text \<open>
  C15. Settings and their precedence. \<open>cps\<close> resolves its settings exactly when the config file that counts can be read
  and is valid, the selected profile exists, the endpoint is a WebSocket URL and no environment variable it
  needs is malformed; each setting is then the first one given by the command line, the environment, the
  selected profile and the built-in defaults, in this order.
\<close>

theorem resolve_precedence:
  "resolve_settings fl cli env default_path = Ok r \<longleftrightarrow>
   (\<exists>file path profile.
      counted_file fl (chosen_path cli env default_path) = Some (file, path) \<and>
      (case first_of [cs_profile cli, env_text env ENV_PROFILE, cp_default file] of
         None \<Rightarrow> profile = default_profile | Some name \<Rightarrow> map_of (cp_profiles file) name = Some profile) \<and>
      url_ok (the (first_of [cs_url cli, env_text env ENV_URL, pf_url profile, Some DEFAULT_URL])) \<and>
      \<not> (cs_output cli = None \<and> env_bad parse_output env ENV_OUTPUT) \<and> \<not> (cs_wait cli = None \<and> env_bad parse_wait env ENV_WAIT) \<and>
      r = \<lparr>rv_file = file,
           rv_effective =
             \<lparr>ec_profile = first_of [cs_profile cli, env_text env ENV_PROFILE, cp_default file], ec_config_path = path,
              ec_url = the (first_of [cs_url cli, env_text env ENV_URL, pf_url profile, Some DEFAULT_URL]),
              ec_output = the (first_of [cs_output cli, env_value parse_output env ENV_OUTPUT, pf_output profile, Some Human]),
              ec_wait = the (first_of [cs_wait cli, env_value parse_wait env ENV_WAIT, pf_wait profile, Some WaitFinalized])\<rparr>\<rparr>)"
proof -
  have profile: "(case x of Some name \<Rightarrow> config_profile f name | None \<Rightarrow> Ok default_profile) = Ok p \<longleftrightarrow>
      (case x of None \<Rightarrow> p = default_profile | Some name \<Rightarrow> map_of (cp_profiles f) name = Some p)" for x f p
    by (cases x) (auto simp: config_profile_Ok)
  show ?thesis
    unfolding resolve_settings_def and_then_Ok load_Ok split_paired_Ex prod.case Let_def validate_url_Ok setting_Ok unwrap_first
      or_else_first profile sum.inject
    by (rule iffI; elim exE conjE; intro exI conjI; (assumption | rule refl | fast | simp))
qed

end
