(* ===== verification/CpsTarget.thy ===== *)
theory CpsTarget
  imports CpsConfig LibcpsClient
begin

text \<open>
  What the commands of \<open>cps\<close> share (\<open>libcps/src/cli/context.rs\<close>, \<open>data.rs\<close>, \<open>target.rs\<close>, \<open>args.rs\<close>): the settings of
  an invocation, data input, encryption and display of stored bytes, targets and the subtree below one.

  A command gives the list of its effects (what it printed on standard output, the calls it sent with the
  public key of their signer) and its result, \<open>None\<close> after a panic. Progress and warnings on standard error
  are left out. A connection answers the n-th request of a command as the chain is at that moment, so every
  command works against a chain that moves under it.
\<close>

section \<open>The process, the chain and the libraries\<close>

datatype cps_out = Printed string | RawOut bytes | Sent bytes Call

type_synonym 'a cps_io = "(cps_out, any_error, 'a) io"

record link =
  lk_cps :: "nat \<Rightarrow> Cps"
  lk_at :: "Hash \<Rightarrow> string + CpsAt"
  lk_blocks :: "string + (string + block) list"

text \<open>\<open>cw_stdout\<close> is the error of writing to standard output, if any; \<open>cw_interrupt\<close> the number of updates after
  which a watch meets Ctrl-C.\<close>

record cps_world =
  cw_stdout :: "string option"
  cw_stdin :: "string + bytes"
  cw_terminal :: bool
  cw_line :: "string + string"
  cw_file :: "string \<Rightarrow> string + bytes"
  cw_connect :: "string \<Rightarrow> string + link"
  cw_interrupt :: "nat option"

text \<open>\<open>cl_nonce\<close> gives the random nonce of the n-th encryption, \<open>cl_fresh\<close> random keys with their phrases;
  \<open>cl_value\<close> reads JSON text, \<open>cl_compact\<close> and \<open>cl_pretty\<close> write it.\<close>

record ('sr, 'ed, 'ec) cps_libs =
  cl_ss58 :: "string \<Rightarrow> string + AccountId"
  cl_show_account :: "AccountId \<Rightarrow> string"
  cl_hex :: "bytes \<Rightarrow> string"
  cl_unhex :: "string \<Rightarrow> string + bytes"
  cl_pairs :: "Scheme \<Rightarrow> string \<Rightarrow> string + SharedSecret"
  cl_cipher :: cipher_ops
  cl_nonce :: "nat \<Rightarrow> EncryptionAlgorithm \<Rightarrow> bytes"
  cl_vec_enc :: "bytes \<Rightarrow> bytes"
  cl_vec_dec :: "bytes \<Rightarrow> string + bytes \<times> bytes"
  cl_len_enc :: "nat \<Rightarrow> bytes"
  cl_sig :: "('sr, 'ed, 'ec) sig_ops"
  cl_sr :: "string \<Rightarrow> string + 'sr"
  cl_ed :: "string \<Rightarrow> string + 'ed"
  cl_ec :: "string \<Rightarrow> string + 'ec"
  cl_fresh :: "('sr \<times> string) \<times> ('ed \<times> string) \<times> ('ec \<times> string)"
  cl_render :: "Repr \<Rightarrow> string"
  cl_parse :: "string \<Rightarrow> string + Repr"
  cl_value :: "string \<Rightarrow> string + json"
  cl_compact :: "json \<Rightarrow> string"
  cl_pretty :: "json \<Rightarrow> string"

record Ctx =
  ct_cfg :: EffectiveConfig
  ct_file :: Config_cps
  ct_suri :: "string option"

definition hex0x :: "('sr, 'ed, 'ec) cps_libs \<Rightarrow> bytes \<Rightarrow> string" where
  "hex0x libs bytes = ''0x'' @ cl_hex libs bytes"

definition println_cps :: "cps_world \<Rightarrow> string \<Rightarrow> unit cps_io" where
  "println_cps w s = (case cw_stdout w of None \<Rightarrow> ([Printed s], Some (Ok ())) | Some _ \<Rightarrow> ([], None))"

definition out_result :: "cps_world \<Rightarrow> ('sr, 'ed, 'ec) cps_libs \<Rightarrow> Ctx \<Rightarrow> string \<Rightarrow> json \<Rightarrow> unit cps_io" where
  "out_result w libs ctx human json =
     (case result_text (cl_compact libs) (ct_cfg ctx) human json of [] \<Rightarrow> finish | s # _ \<Rightarrow> println_cps w s)"

section \<open>The context\<close>

text \<open>The operator \<open>?\<close> on a result of libcps.\<close>

definition lift_cps :: "CpsError + 'a \<Rightarrow> any_error + 'a" where
  "lift_cps r = map_err lib_error r"

definition ctx_cps :: "cps_world \<Rightarrow> Ctx \<Rightarrow> any_error + link" where
  "ctx_cps w ctx = lift_cps (map_err CpsConnection (cw_connect w (ec_url (ct_cfg ctx))))"

definition ctx_signer :: "('sr, 'ed, 'ec) cps_libs \<Rightarrow> Ctx \<Rightarrow> any_error + SharedSecret" where
  "ctx_signer libs ctx =
     (case ct_suri ctx of
        None \<Rightarrow> Err (bail ''this operation requires an account: provide --suri or set ROBONOMICS_SURI'')
      | Some suri \<Rightarrow> lift_cps (signer_from_suri (cl_pairs libs) Sr25519 suri))"

definition ctx_reader :: "link \<Rightarrow> Hash option \<Rightarrow> any_error + CpsAt" where
  "ctx_reader lk at =
     (case at of
        Some hash \<Rightarrow> lift_cps (map_err CpsRuntime (lk_at lk hash))
      | None \<Rightarrow> lift_cps (cps_finalized (lk_cps lk 0)))"

text \<open>Submission and the wait for it, on the connection as it is then.\<close>

definition ctx_submit :: "Ctx \<Rightarrow> Cps \<Rightarrow> Transaction \<Rightarrow> SharedSecret \<Rightarrow> TxReceipt cps_io" where
  "ctx_submit ctx cx tx key =
     (case submit cx tx of
        (r, sent) \<Rightarrow>
          cmd_bind (map (Sent (ss_public key)) sent, Some (lift_cps r)) (\<lambda>pending.
            of_result (lift_cps
              (case ec_wait (ct_cfg ctx) of
                 WaitFinalized \<Rightarrow> wait_finalized cx tx pending
               | WaitBest \<Rightarrow> wait_in_block cx tx pending))))"

definition ctx_done ::
  "cps_world \<Rightarrow> ('sr, 'ed, 'ec) cps_libs \<Rightarrow> Ctx \<Rightarrow> TxReceipt \<Rightarrow> string \<Rightarrow> (string \<times> json) list \<Rightarrow> unit cps_io" where
  "ctx_done w libs ctx r human extra =
     out_result w libs ctx human
       (JObj ([(''ok'', JBool True), (''block_hash'', JStr (hex0x libs (tr_block_hash r))),
               (''extrinsic_hash'', JStr (hex0x libs (tr_extrinsic_hash r)))] @ extra))"

definition confirm :: "cps_world \<Rightarrow> bool \<Rightarrow> any_error + bool" where
  "confirm w yes =
     (if yes then Ok True
      else if \<not> cw_terminal w then Err (bail ''confirmation required: run interactively or pass --yes'')
      else map_ok (\<lambda>answer. ascii_lower (trim answer) \<in> {''y'', ''yes''}) (map_err bail (cw_line w)))"

section \<open>Data\<close>

text \<open>Standard input can be read once: each reader takes whether it has been and tells whether it is now.\<close>

definition read_stdin_once :: "cps_world \<Rightarrow> bool \<Rightarrow> (any_error + bytes) \<times> bool" where
  "read_stdin_once w used =
     (if used then Err (bail ''standard input (`-`) can be used for only one argument'')
      else with_context ''failed to read standard input'' (map_err bail (cw_stdin w)), True)"

definition read_arg :: "cps_world \<Rightarrow> bool \<Rightarrow> string \<Rightarrow> (any_error + bytes) \<times> bool" where
  "read_arg w used data = (if data = ''-'' then read_stdin_once w used else (Ok (as_bytes data), used))"

definition read_path :: "cps_world \<Rightarrow> bool \<Rightarrow> string \<Rightarrow> (any_error + bytes) \<times> bool" where
  "read_path w used path =
     (if path = ''-'' then read_stdin_once w used
      else (with_context (''failed to read '' @ path) (map_err bail (cw_file w path)), used))"

record DataInputArgs =
  di_data :: "string option"
  di_file :: "string option"

definition data_read :: "cps_world \<Rightarrow> DataInputArgs \<Rightarrow> any_error + bytes" where
  "data_read w args =
     (case (di_data args, di_file args) of
        (Some data, None) \<Rightarrow> fst (read_arg w False data)
      | (None, Some path) \<Rightarrow> fst (read_path w False path)
      | _ \<Rightarrow> Err (bail ''provide either DATA or --file''))"

text \<open>The schemes of \<open>--scheme\<close> are those of the key agreement.\<close>

record EncryptionArgs =
  ea_receiver_public :: "string option"
  ea_cipher :: string
  ea_scheme :: Scheme

record DecryptArgs =
  da_decrypt :: bool
  da_scheme :: Scheme

definition keypair :: "('sr, 'ed, 'ec) cps_libs \<Rightarrow> Scheme \<Rightarrow> string option \<Rightarrow> string \<Rightarrow> any_error + SharedSecret" where
  "keypair libs scheme suri purpose =
     (case suri of
        None \<Rightarrow> Err (bail (''--suri is required for '' @ purpose))
      | Some s \<Rightarrow> lift_cps (signer_from_suri (cl_pairs libs) scheme s))"

definition seal :: "('sr, 'ed, 'ec) cps_libs \<Rightarrow> nat \<Rightarrow> EncryptionArgs \<Rightarrow> string option \<Rightarrow> bytes \<Rightarrow> any_error + bytes" where
  "seal libs n args suri data =
     (case ea_receiver_public args of
        None \<Rightarrow> Ok data
      | Some r \<Rightarrow>
          and_then (map_err (\<lambda>e. bail (''invalid receiver: '' @ show_cps_error e)) (parse_account (cl_ss58 libs) (cl_unhex libs) r))
            (\<lambda>receiver.
          and_then (map_err (\<lambda>e. bail (''invalid cipher: '' @ e)) (algorithm_from_str (ea_cipher args))) (\<lambda>algorithm.
          and_then (keypair libs (ea_scheme args) suri ''encryption'') (\<lambda>key.
            map_ok (scale_encode (cl_vec_enc libs))
              (map_err bail (encrypt (cl_cipher libs) (cl_nonce libs n algorithm) key data receiver algorithm))))))"

definition open_data :: "('sr, 'ed, 'ec) cps_libs \<Rightarrow> DecryptArgs \<Rightarrow> string option \<Rightarrow> bytes \<Rightarrow> any_error + bytes" where
  "open_data libs args suri data =
     (if \<not> da_decrypt args then Ok data
      else (case scale_decode_rest (cl_vec_dec libs) data of
              Some (message, []) \<Rightarrow>
                and_then (keypair libs (da_scheme args) suri ''decryption'') (\<lambda>key.
                  map_err (\<lambda>e. bail (''failed to decrypt: '' @ e)) (decrypt (cl_cipher libs) key message None))
            | _ \<Rightarrow> Ok data))"

text \<open>A \<open>DataView\<close> is its bytes.\<close>

definition data_human :: "('sr, 'ed, 'ec) cps_libs \<Rightarrow> bytes \<Rightarrow> string" where
  "data_human libs b = (case from_utf8 b of Some t \<Rightarrow> t | None \<Rightarrow> hex0x libs b)"

definition data_json :: "('sr, 'ed, 'ec) cps_libs \<Rightarrow> bytes \<Rightarrow> json" where
  "data_json libs b = JObj [(''hex'', JStr (hex0x libs b)), (''text'', json_str_opt (from_utf8 b))]"

definition human_opt :: "('sr, 'ed, 'ec) cps_libs \<Rightarrow> bytes option \<Rightarrow> string" where
  "human_opt libs data = (case data of None \<Rightarrow> ''-'' | Some b \<Rightarrow> data_human libs b)"

definition json_opt :: "('sr, 'ed, 'ec) cps_libs \<Rightarrow> bytes option \<Rightarrow> json" where
  "json_opt libs data = (case data of None \<Rightarrow> JNull | Some b \<Rightarrow> data_json libs b)"

text \<open>An optional value through \<open>open\<close> or \<open>seal\<close> (\<open>transpose\<close>).\<close>

definition opt_map :: "('a \<Rightarrow> 'e + 'b) \<Rightarrow> 'a option \<Rightarrow> 'e + 'b option" where
  "opt_map f x = (case x of None \<Rightarrow> Ok None | Some v \<Rightarrow> map_ok Some (f v))"

section \<open>Targets\<close>

datatype Target = TargetNode NodeId | TargetAddress AccountId

definition parse_target :: "(string \<Rightarrow> string + AccountId) \<Rightarrow> string \<Rightarrow> string + Target" where
  "parse_target ss58 s =
     (let invalid = (\<lambda>expected. Err (''invalid target `'' @ s @ ''`: expected '' @ expected)) in
      case strip_prefix ''node:'' s of
        Some rest \<Rightarrow>
          (case parse_unsigned (2 ^ 64) rest of Some i \<Rightarrow> Ok (TargetNode (word_of_nat i)) | None \<Rightarrow> invalid ''a numeric node id'')
      | None \<Rightarrow>
          (case strip_prefix ''addr:'' s of
             Some rest \<Rightarrow> (case ss58 rest of Ok a \<Rightarrow> Ok (TargetAddress a) | Err _ \<Rightarrow> invalid ''an SS58 account'')
           | None \<Rightarrow>
               (case parse_unsigned (2 ^ 64) s of
                  Some i \<Rightarrow> Ok (TargetNode (word_of_nat i))
                | None \<Rightarrow>
                    (case ss58 s of Ok a \<Rightarrow> Ok (TargetAddress a) | Err _ \<Rightarrow> invalid ''a node id or an SS58 account''))))"

definition parse_hash :: "(string \<Rightarrow> string + bytes) \<Rightarrow> string \<Rightarrow> string + Hash" where
  "parse_hash unhex s =
     (case unhex (strip_prefix_0x s) of
        Err _ \<Rightarrow> Err (''`'' @ s @ ''` is not a hex hash'')
      | Ok bytes \<Rightarrow>
          if length bytes = 32 then Ok bytes
          else Err (''block hash must be 32 bytes, got '' @ show_nat (length bytes)))"

definition show_target :: "('sr, 'ed, 'ec) cps_libs \<Rightarrow> Target \<Rightarrow> string" where
  "show_target libs t = (case t of TargetNode i \<Rightarrow> show_node i | TargetAddress a \<Rightarrow> cl_show_account libs a)"

definition target_json :: "('sr, 'ed, 'ec) cps_libs \<Rightarrow> Target \<Rightarrow> json" where
  "target_json libs t = (case t of TargetNode i \<Rightarrow> JNum (unat i) | TargetAddress a \<Rightarrow> JStr (cl_show_account libs a))"

definition target_node_id :: "('sr, 'ed, 'ec) cps_libs \<Rightarrow> CpsAt \<Rightarrow> Target \<Rightarrow> any_error + NodeId" where
  "target_node_id libs at t =
     (case t of
        TargetNode i \<Rightarrow>
          and_then (lift_cps (read_info at i)) (\<lambda>info.
            case info of None \<Rightarrow> Err (lib_error (CpsNodeNotFound i)) | Some _ \<Rightarrow> Ok i)
      | TargetAddress account \<Rightarrow>
          and_then (lift_cps (node_by_identity at account)) (\<lambda>i.
            case i of None \<Rightarrow> Err (lib_error (CpsIdentityNotFound (cl_show_account libs account))) | Some i \<Rightarrow> Ok i))"

definition target_parent :: "('sr, 'ed, 'ec) cps_libs \<Rightarrow> CpsAt \<Rightarrow> Target \<Rightarrow> any_error + Target option" where
  "target_parent libs at t =
     and_then (target_node_id libs at t) (\<lambda>_.
       case t of
         TargetNode i \<Rightarrow> map_ok (map_option TargetNode) (lift_cps (node_parent at i))
       | TargetAddress a \<Rightarrow> map_ok (map_option TargetAddress) (lift_cps (address_parent (cl_show_account libs) at a)))"

definition target_children :: "('sr, 'ed, 'ec) cps_libs \<Rightarrow> CpsAt \<Rightarrow> Target \<Rightarrow> any_error + Target list" where
  "target_children libs at t =
     and_then (target_node_id libs at t) (\<lambda>_.
       case t of
         TargetNode i \<Rightarrow> map_ok (map TargetNode) (lift_cps (read_children at i))
       | TargetAddress a \<Rightarrow> map_ok (map TargetAddress) (lift_cps (address_children (cl_show_account libs) at a)))"

text \<open>The node of a write target, at the latest finalized block.\<close>

definition canonical :: "('sr, 'ed, 'ec) cps_libs \<Rightarrow> Cps \<Rightarrow> Target \<Rightarrow> any_error + NodeId" where
  "canonical libs cx t = and_then (lift_cps (cps_finalized cx)) (\<lambda>at. target_node_id libs at t)"

section \<open>Subtrees\<close>

datatype Tree = Tree (tree_target: Target) (tree_children: "Tree list")

text \<open>The loop over the children; \<open>None\<close> when the reading of one runs out of fuel.\<close>

fun read_each :: "('a \<Rightarrow> ('e + 'b) option) \<Rightarrow> 'a list \<Rightarrow> ('e + 'b list) option" where
  "read_each f [] = Some (Ok [])"
| "read_each f (x # xs) =
     (case f x of
        None \<Rightarrow> None
      | Some (Err e) \<Rightarrow> Some (Err e)
      | Some (Ok y) \<Rightarrow> map_option (map_ok ((#) y)) (read_each f xs))"

primrec tree_read ::
  "nat \<Rightarrow> ('sr, 'ed, 'ec) cps_libs \<Rightarrow> CpsAt \<Rightarrow> Target \<Rightarrow> nat option \<Rightarrow> (any_error + Tree) option" where
  "tree_read 0 libs at t depth = None"
| "tree_read (Suc fuel) libs at t depth =
     (if depth \<noteq> Some 0
      then (case target_children libs at t of
              Err e \<Rightarrow> Some (Err e)
            | Ok ts \<Rightarrow>
                map_option (map_ok (Tree t)) (read_each (\<lambda>c. tree_read fuel libs at c (map_option (\<lambda>d. d - 1) depth)) ts))
      else Some (map_ok (\<lambda>_. Tree t []) (target_node_id libs at t)))"

fun tree_json :: "('sr, 'ed, 'ec) cps_libs \<Rightarrow> Tree \<Rightarrow> json" where
  "tree_json libs (Tree t ts) = JObj [(''id'', target_json libs t), (''children'', JArr (map (tree_json libs) ts))]"

text \<open>The box-drawing characters in UTF-8.\<close>

definition BRANCH :: string where
  "BRANCH = map char_of [0xE2, 0x94, 0x9C, 0xE2, 0x94, 0x80, 0xE2, 0x94, 0x80 :: nat]"

definition CORNER :: string where
  "CORNER = map char_of [0xE2, 0x94, 0x94, 0xE2, 0x94, 0x80, 0xE2, 0x94, 0x80 :: nat]"

definition BAR :: string where
  "BAR = map char_of [0xE2, 0x94, 0x82 :: nat]"

function render_children :: "('sr, 'ed, 'ec) cps_libs \<Rightarrow> Tree list \<Rightarrow> string \<Rightarrow> string" where
  "render_children libs [] prefix = []"
| "render_children libs (Tree t ts # rest) prefix =
     (let last = (rest = []) in
      line_feed # prefix @ (if last then CORNER else BRANCH) @ '' '' @ show_target libs t @
      render_children libs ts (prefix @ (if last then ''    '' else BAR @ ''   '')) @
      render_children libs rest prefix)"
  by pat_completeness auto
termination
  by (relation "measure (\<lambda>(_, ts, _). size_list size ts)") auto

definition tree_render :: "('sr, 'ed, 'ec) cps_libs \<Rightarrow> Tree \<Rightarrow> string" where
  "tree_render libs t = show_target libs (tree_target t) @ render_children libs (tree_children t) []"

end
