(* ===== verification/CpsCommands.thy ===== *)
theory CpsCommands
  imports CpsTarget
begin

text \<open>
  The commands of \<open>cps\<close> on the chain (\<open>libcps/src/cli/commands/\<close>): \<open>meta\<close> and \<open>payload\<close>, \<open>access\<close>, \<open>identity\<close>,
  \<open>scope\<close>, \<open>create\<close> and \<open>delete\<close>, \<open>show\<close>, \<open>tree\<close>, \<open>parent\<close> and \<open>children\<close>. Each definition is a function of the source,
  with the results that it prints in both forms.
\<close>

section \<open>Writing to the chain\<close>

text \<open>What every write does before its transaction: connect, find the signer, resolve the target. Afterwards it
  submits and prints the outcome.\<close>

definition write_target ::
  "cps_world \<Rightarrow> ('sr, 'ed, 'ec) cps_libs \<Rightarrow> Ctx \<Rightarrow> Target \<Rightarrow> any_error + link \<times> SharedSecret \<times> NodeId" where
  "write_target w libs ctx t =
     and_then (ctx_cps w ctx) (\<lambda>lk.
     and_then (ctx_signer libs ctx) (\<lambda>key.
       map_ok (\<lambda>i. (lk, key, i)) (canonical libs (lk_cps lk 0) t)))"

definition mutate ::
  "cps_world \<Rightarrow> ('sr, 'ed, 'ec) cps_libs \<Rightarrow> Ctx \<Rightarrow> Cps \<Rightarrow> Transaction \<Rightarrow> SharedSecret
    \<Rightarrow> (TxReceipt \<Rightarrow> string \<times> (string \<times> json) list) \<Rightarrow> unit cps_io" where
  "mutate w libs ctx cx tx key report =
     cmd_bind (ctx_submit ctx cx tx key) (\<lambda>r. ctx_done w libs ctx r (fst (report r)) (snd (report r)))"

definition node_json :: "NodeId \<Rightarrow> string \<times> json" where
  "node_json i = (''node'', JNum (unat i))"

section \<open>\<open>meta\<close> and \<open>payload\<close>\<close>

definition field_name :: "Field \<Rightarrow> string" where
  "field_name field = (case field of FieldMeta \<Rightarrow> ''meta'' | FieldPayload \<Rightarrow> ''payload'')"

record GetArgs =
  ga_target :: Target
  ga_raw :: bool
  ga_hex :: bool
  ga_read :: "Hash option"
  ga_decrypt :: DecryptArgs

record FieldSetArgs =
  fs_target :: Target
  fs_input :: DataInputArgs
  fs_encryption :: EncryptionArgs

record WatchArgs =
  wa_target :: Target
  wa_decrypt :: DecryptArgs

datatype FieldCommand = FieldGet GetArgs | FieldSet FieldSetArgs | FieldClear Target | FieldWatch WatchArgs

definition write_raw :: "cps_world \<Rightarrow> bytes \<Rightarrow> unit cps_io" where
  "write_raw w b = (case cw_stdout w of None \<Rightarrow> ([RawOut b], Some (Ok ())) | Some e \<Rightarrow> ([], Some (Err (bail e))))"

definition stored_field :: "CpsAt \<Rightarrow> NodeId \<Rightarrow> Field \<Rightarrow> CpsError + bytes option" where
  "stored_field at i field = (case field of FieldMeta \<Rightarrow> read_meta at i | FieldPayload \<Rightarrow> read_payload at i)"

definition field_get :: "cps_world \<Rightarrow> ('sr, 'ed, 'ec) cps_libs \<Rightarrow> Ctx \<Rightarrow> Field \<Rightarrow> GetArgs \<Rightarrow> unit cps_io" where
  "field_get w libs ctx field args =
     cmd_bind
       (of_result
         (and_then (ctx_cps w ctx) (\<lambda>lk.
          and_then (ctx_reader lk (ga_read args)) (\<lambda>at.
          and_then (target_node_id libs at (ga_target args)) (\<lambda>i.
          and_then (lift_cps (stored_field at i field)) (\<lambda>stored.
            opt_map (open_data libs (ga_decrypt args) (ct_suri ctx)) stored))))))
       (\<lambda>bytes.
         if ga_raw args then (case bytes of Some b \<Rightarrow> write_raw w b | None \<Rightarrow> finish)
         else out_result w libs ctx
                (case bytes of Some b \<Rightarrow> if ga_hex args then hex0x libs b else data_human libs b | None \<Rightarrow> [])
                (json_opt libs bytes))"

definition set_field :: "Field \<Rightarrow> NodeId \<Rightarrow> bytes \<Rightarrow> CpsError + Transaction" where
  "set_field field i bytes = (case field of FieldMeta \<Rightarrow> set_meta i (Some bytes) | FieldPayload \<Rightarrow> set_payload i (Some bytes))"

definition field_set :: "cps_world \<Rightarrow> ('sr, 'ed, 'ec) cps_libs \<Rightarrow> Ctx \<Rightarrow> Field \<Rightarrow> FieldSetArgs \<Rightarrow> unit cps_io" where
  "field_set w libs ctx field args =
     cmd_bind
       (of_result
         (and_then (data_read w (fs_input args)) (\<lambda>data.
          and_then (seal libs 0 (fs_encryption args) (ct_suri ctx) data) (\<lambda>bytes.
          and_then (write_target w libs ctx (fs_target args)) (\<lambda>(lk, key, i).
            map_ok (\<lambda>tx. (bytes, lk, key, i, tx)) (lift_cps (set_field field i bytes)))))))
       (\<lambda>(bytes, lk, key, i, tx).
         mutate w libs ctx (lk_cps lk 1) tx key (\<lambda>_.
           (''Node '' @ show_node i @ '': '' @ field_name field @ '' set ('' @ show_nat (length bytes) @ '' bytes)'',
            [node_json i, (''bytes'', JNum (length bytes))])))"

text \<open>The transaction of a clear unwraps; \<open>None\<close> is its panic.\<close>

definition field_clear :: "cps_world \<Rightarrow> ('sr, 'ed, 'ec) cps_libs \<Rightarrow> Ctx \<Rightarrow> Field \<Rightarrow> Target \<Rightarrow> unit cps_io" where
  "field_clear w libs ctx field t =
     cmd_bind (of_result (write_target w libs ctx t)) (\<lambda>(lk, key, i).
       case (case field of FieldMeta \<Rightarrow> clear_meta i | FieldPayload \<Rightarrow> clear_payload i) of
         None \<Rightarrow> ([], None)
       | Some tx \<Rightarrow>
           mutate w libs ctx (lk_cps lk 1) tx key (\<lambda>_.
             (''Node '' @ show_node i @ '': '' @ field_name field @ '' cleared'', [node_json i])))"

definition field_emit ::
  "cps_world \<Rightarrow> ('sr, 'ed, 'ec) cps_libs \<Rightarrow> Ctx \<Rightarrow> DecryptArgs \<Rightarrow> NodeId \<Rightarrow> Change \<Rightarrow> unit cps_io" where
  "field_emit w libs ctx dec i change =
     cmd_bind (of_result (opt_map (open_data libs dec (ct_suri ctx)) (wc_value change))) (\<lambda>view.
       out_result w libs ctx
         (''[#'' @ show_nat (wc_block_number change) @ ''] '' @
            (case view of None \<Rightarrow> ''(cleared)'' | Some b \<Rightarrow> data_human libs b))
         (JObj [node_json i, (''block_number'', JNum (wc_block_number change)),
                (''block_hash'', JStr (hex0x libs (wc_block_hash change))), (''data'', json_opt libs view)]))"

text \<open>The loop of \<open>watch\<close>, until the stream ends, an update fails or Ctrl-C.\<close>

function watch_loop ::
  "cps_world \<Rightarrow> ('sr, 'ed, 'ec) cps_libs \<Rightarrow> Ctx \<Rightarrow> DecryptArgs \<Rightarrow> NodeId \<Rightarrow> Field \<Rightarrow> nat option \<Rightarrow> (string + block) list
    \<Rightarrow> unit cps_io" where
  "watch_loop w libs ctx dec i field interrupt bs =
     (if interrupt = Some 0 then finish
      else (case watcher_next i field bs of
              None \<Rightarrow> finish
            | Some (Err e, rest) \<Rightarrow> of_result (Err (lib_error e))
            | Some (Ok change, rest) \<Rightarrow>
                cmd_seq (field_emit w libs ctx dec i change)
                  (watch_loop w libs ctx dec i field (map_option (\<lambda>n. n - 1) interrupt) rest)))"
  by pat_completeness auto
termination
  by (relation "measure (\<lambda>(_, _, _, _, _, _, _, bs). length bs)") (auto dest: watcher_next_shorter)

declare watch_loop.simps [simp del]

definition field_watch :: "cps_world \<Rightarrow> ('sr, 'ed, 'ec) cps_libs \<Rightarrow> Ctx \<Rightarrow> Field \<Rightarrow> WatchArgs \<Rightarrow> unit cps_io" where
  "field_watch w libs ctx field args =
     cmd_bind
       (of_result
         (and_then (ctx_cps w ctx) (\<lambda>lk.
          and_then (canonical libs (lk_cps lk 0) (wa_target args)) (\<lambda>i.
            map_ok (\<lambda>bs. (i, bs)) (lift_cps (map_err CpsRpc (lk_blocks lk)))))))
       (\<lambda>(i, bs). watch_loop w libs ctx (wa_decrypt args) i field (cw_interrupt w) bs)"

definition field_run :: "cps_world \<Rightarrow> ('sr, 'ed, 'ec) cps_libs \<Rightarrow> Ctx \<Rightarrow> Field \<Rightarrow> FieldCommand \<Rightarrow> unit cps_io" where
  "field_run w libs ctx field command =
     (case command of
        FieldGet args \<Rightarrow> field_get w libs ctx field args
      | FieldSet args \<Rightarrow> field_set w libs ctx field args
      | FieldClear t \<Rightarrow> field_clear w libs ctx field t
      | FieldWatch args \<Rightarrow> field_watch w libs ctx field args)"

section \<open>\<open>access\<close>\<close>

datatype CapabilityArg = ArgWrite | ArgCreateScope

datatype ModeArg = ModeNode | ModeSubtree

definition capability_of :: "CapabilityArg \<Rightarrow> Capability" where
  "capability_of c = (case c of ArgWrite \<Rightarrow> CapWrite | ArgCreateScope \<Rightarrow> CapCreateScope)"

definition capability_name :: "CapabilityArg \<Rightarrow> string" where
  "capability_name c = (case c of ArgWrite \<Rightarrow> ''write'' | ArgCreateScope \<Rightarrow> ''create-scope'')"

definition mode_of :: "ModeArg \<Rightarrow> GrantMode" where
  "mode_of m = (case m of ModeNode \<Rightarrow> GrantOnNode | ModeSubtree \<Rightarrow> GrantSubtree)"

text \<open>The derived \<open>Debug\<close>.\<close>

definition mode_debug :: "ModeArg \<Rightarrow> string" where
  "mode_debug m = (case m of ModeNode \<Rightarrow> ''Node'' | ModeSubtree \<Rightarrow> ''Subtree'')"

record CheckArgs =
  ck_target :: Target
  ck_account :: AccountId
  ck_capability :: CapabilityArg
  ck_quiet :: bool
  ck_read :: "Hash option"

record GrantArgs =
  gt_target :: Target
  gt_account :: AccountId
  gt_capability :: CapabilityArg
  gt_mode :: ModeArg

record RevokeArgs =
  rk_target :: Target
  rk_account :: AccountId
  rk_capability :: CapabilityArg

datatype AccessCommand = AccessCheck CheckArgs | AccessGrant GrantArgs | AccessRevoke RevokeArgs

definition access_check :: "cps_world \<Rightarrow> ('sr, 'ed, 'ec) cps_libs \<Rightarrow> Ctx \<Rightarrow> CheckArgs \<Rightarrow> nat cps_io" where
  "access_check w libs ctx args =
     cmd_bind
       (of_result
         (and_then (ctx_cps w ctx) (\<lambda>lk.
          and_then (ctx_reader lk (ck_read args)) (\<lambda>at.
          and_then (target_node_id libs at (ck_target args)) (\<lambda>i.
            map_ok (\<lambda>allowed. (i, allowed))
              (lift_cps (has_capability at i (ck_account args) (capability_of (ck_capability args)))))))))
       (\<lambda>(i, allowed).
         cmd_seq
           (if ck_quiet args then finish
            else out_result w libs ctx (if allowed then ''allowed'' else ''denied'')
                   (JObj [node_json i, (''account'', JStr (cl_show_account libs (ck_account args))),
                          (''capability'', JStr (capability_name (ck_capability args))), (''allowed'', JBool allowed)]))
           (of_result (Ok (if allowed then 0 else 1))))"

definition access_grant :: "cps_world \<Rightarrow> ('sr, 'ed, 'ec) cps_libs \<Rightarrow> Ctx \<Rightarrow> GrantArgs \<Rightarrow> unit cps_io" where
  "access_grant w libs ctx args =
     cmd_bind (of_result (write_target w libs ctx (gt_target args))) (\<lambda>(lk, key, i).
       mutate w libs ctx (lk_cps lk 1)
         (grant_access i (gt_account args)
            \<lparr>gr_capability = capability_of (gt_capability args), gr_mode = mode_of (gt_mode args)\<rparr>)
         key (\<lambda>_.
           (''Granted '' @ capability_name (gt_capability args) @ '' to '' @ cl_show_account libs (gt_account args) @
              '' at node '' @ show_node i @ '' ('' @ mode_debug (gt_mode args) @ '')'',
            [node_json i, (''account'', JStr (cl_show_account libs (gt_account args))),
             (''capability'', JStr (capability_name (gt_capability args))),
             (''mode'', JStr (ascii_lower (mode_debug (gt_mode args))))])))"

definition access_revoke :: "cps_world \<Rightarrow> ('sr, 'ed, 'ec) cps_libs \<Rightarrow> Ctx \<Rightarrow> RevokeArgs \<Rightarrow> unit cps_io" where
  "access_revoke w libs ctx args =
     cmd_bind (of_result (write_target w libs ctx (rk_target args))) (\<lambda>(lk, key, i).
       mutate w libs ctx (lk_cps lk 1) (revoke_access i (rk_account args) (capability_of (rk_capability args))) key (\<lambda>_.
         (''Revoked '' @ capability_name (rk_capability args) @ '' from '' @ cl_show_account libs (rk_account args) @
            '' at node '' @ show_node i,
          [node_json i, (''account'', JStr (cl_show_account libs (rk_account args))),
           (''capability'', JStr (capability_name (rk_capability args)))])))"

definition access_run :: "cps_world \<Rightarrow> ('sr, 'ed, 'ec) cps_libs \<Rightarrow> Ctx \<Rightarrow> AccessCommand \<Rightarrow> nat cps_io" where
  "access_run w libs ctx command =
     (case command of
        AccessCheck args \<Rightarrow> access_check w libs ctx args
      | AccessGrant args \<Rightarrow> cmd_seq (access_grant w libs ctx args) (of_result (Ok 0))
      | AccessRevoke args \<Rightarrow> cmd_seq (access_revoke w libs ctx args) (of_result (Ok 0)))"

section \<open>\<open>identity\<close>\<close>

datatype SchemeArg = ArgSr25519 | ArgEd25519 | ArgEcdsa

definition scheme_of :: "SchemeArg \<Rightarrow> IdentityScheme" where
  "scheme_of s = (case s of ArgSr25519 \<Rightarrow> SchemeSr25519 | ArgEd25519 \<Rightarrow> SchemeEd25519 | ArgEcdsa \<Rightarrow> SchemeEcdsa)"

record NavArgs =
  na_target :: Target
  na_read :: "Hash option"

record IdentitySetArgs =
  is_target :: Target
  is_account :: "AccountId option"
  is_permit :: "string option"

record InspectArgs =
  in_key :: string
  in_scheme :: SchemeArg

record PermitArgs =
  pm_target :: Target
  pm_key :: "string option"
  pm_scheme :: SchemeArg
  pm_ttl :: "u32 option"
  pm_valid_until :: "u32 option"
  pm_unsigned :: bool
  pm_read :: "Hash option"

datatype IdentityCommand =
    IdentityGet NavArgs
  | IdentitySet IdentitySetArgs
  | IdentityClear Target
  | IdentityGenerate SchemeArg
  | IdentityInspect InspectArgs
  | IdentityPermit PermitArgs

definition DEFAULT_TTL :: u32 where
  "DEFAULT_TTL = 600"

definition load_permit :: "cps_world \<Rightarrow> ('sr, 'ed, 'ec) cps_libs \<Rightarrow> bool \<Rightarrow> string \<Rightarrow> any_error + PermitArtifact" where
  "load_permit w libs used source =
     and_then (fst (if source = ''-'' then read_stdin_once w used else read_path w used source)) (\<lambda>bytes.
       case from_utf8 bytes of
         None \<Rightarrow> Err (bail ''permit is not valid UTF-8'')
       | Some t \<Rightarrow> lift_cps (from_json (cl_parse libs) (cl_unhex libs) (cl_ss58 libs) t))"

definition check_permit ::
  "('sr, 'ed, 'ec) cps_libs \<Rightarrow> Cps \<Rightarrow> PermitArtifact \<Rightarrow> NodeId \<Rightarrow> any_error + unit" where
  "check_permit libs cx permit scope_node =
     (let p = pa_payload permit in
      if \<not> verify_permit (cl_len_enc libs) (cl_sig libs) permit
      then Err (bail (''permit signature is not valid for identity '' @ cl_show_account libs (pa_identity permit)))
      else if ip_genesis_hash p \<noteq> cx_genesis_hash cx
      then Err (bail ''permit was issued for a different chain (genesis hash mismatch)'')
      else
        and_then (lift_cps (cps_finalized cx)) (\<lambda>at.
        and_then (lift_cps (resolve_scope at scope_node)) (\<lambda>r.
          if ip_scope p \<noteq> rs_id r
          then Err (bail (''permit was issued for scope '' @ show_nat (unat (ip_scope p)) @ '', but node '' @
                 show_node scope_node @ '' is in scope '' @ show_nat (unat (rs_id r))))
          else if ip_valid_until p < block_number_u32 at
          then Err (bail (''permit expired at block '' @ show_nat (unat (ip_valid_until p)) @ '' (current block '' @
                 show_nat (unat (block_number_u32 at)) @ '')''))
          else Ok ())))"

definition assignment ::
  "cps_world \<Rightarrow> ('sr, 'ed, 'ec) cps_libs \<Rightarrow> bool \<Rightarrow> Cps \<Rightarrow> AccountId option \<Rightarrow> string option \<Rightarrow> NodeId option
    \<Rightarrow> any_error + IdentityAssignment option" where
  "assignment w libs used cx identity permit scope_node =
     (case (permit, identity) of
        (Some source, identity) \<Rightarrow>
          and_then (load_permit w libs used source) (\<lambda>artifact.
            if (case identity of Some account \<Rightarrow> account \<noteq> pa_identity artifact | None \<Rightarrow> False)
            then Err (bail ''--identity differs from the identity in the permit'')
            else (case scope_node of
                    None \<Rightarrow> Err (bail ''a permit can only be used for a node below a parent'')
                  | Some i \<Rightarrow> map_ok (\<lambda>_. Some (into_assignment artifact)) (check_permit libs cx artifact i)))
      | (None, Some account) \<Rightarrow> Ok (Some \<lparr>ia_account = account, ia_permit = None\<rparr>)
      | (None, None) \<Rightarrow> Ok None)"

definition identity_get :: "cps_world \<Rightarrow> ('sr, 'ed, 'ec) cps_libs \<Rightarrow> Ctx \<Rightarrow> NavArgs \<Rightarrow> unit cps_io" where
  "identity_get w libs ctx args =
     cmd_bind
       (of_result
         (and_then (ctx_cps w ctx) (\<lambda>lk.
          and_then (ctx_reader lk (na_read args)) (\<lambda>at.
          and_then (target_node_id libs at (na_target args)) (\<lambda>i.
          and_then (lift_cps (identity_of at i)) (\<lambda>identity.
            case identity of
              None \<Rightarrow> Err (bail (''node '' @ show_node i @ '' has no identity''))
            | Some account \<Rightarrow> Ok (i, account)))))))
       (\<lambda>(i, account).
         out_result w libs ctx (cl_show_account libs account)
           (JObj [node_json i, (''identity'', JStr (cl_show_account libs account))]))"

text \<open>\<open>None\<close> is the panic of \<open>expect\<close>, which the argument parser excludes.\<close>

definition identity_set :: "cps_world \<Rightarrow> ('sr, 'ed, 'ec) cps_libs \<Rightarrow> Ctx \<Rightarrow> IdentitySetArgs \<Rightarrow> unit cps_io" where
  "identity_set w libs ctx args =
     cmd_bind
       (of_result
         (and_then (write_target w libs ctx (is_target args)) (\<lambda>(lk, key, i).
            map_ok (\<lambda>a. (lk, key, i, a)) (assignment w libs False (lk_cps lk 1) (is_account args) (is_permit args) (Some i)))))
       (\<lambda>(lk, key, i, a).
         case a of
           None \<Rightarrow> ([], None)
         | Some a \<Rightarrow>
             mutate w libs ctx (lk_cps lk 2) (set_identity i a) key (\<lambda>_.
               (''Node '' @ show_node i @ '': identity set to '' @ cl_show_account libs (ia_account a),
                [node_json i, (''identity'', JStr (cl_show_account libs (ia_account a)))])))"

definition identity_clear :: "cps_world \<Rightarrow> ('sr, 'ed, 'ec) cps_libs \<Rightarrow> Ctx \<Rightarrow> Target \<Rightarrow> unit cps_io" where
  "identity_clear w libs ctx t =
     cmd_bind (of_result (write_target w libs ctx t)) (\<lambda>(lk, key, i).
       mutate w libs ctx (lk_cps lk 1) (clear_identity i) key (\<lambda>_.
         (''Node '' @ show_node i @ '': identity cleared'', [node_json i])))"

definition identity_generate :: "cps_world \<Rightarrow> ('sr, 'ed, 'ec) cps_libs \<Rightarrow> Ctx \<Rightarrow> SchemeArg \<Rightarrow> unit cps_io" where
  "identity_generate w libs ctx scheme =
     (case cl_fresh libs of
        (sr, ed, ec) \<Rightarrow>
          (case key_generate sr ed ec (scheme_of scheme) of
             (key, phrase) \<Rightarrow>
               let address = cl_show_account libs (key_account_id (cl_sig libs) key);
                   public = hex0x libs (key_public (cl_sig libs) key);
                   name = show_scheme (scheme_of scheme)
               in out_result w libs ctx
                    (CpsConfig.fields [(''Scheme'', name), (''Address'', address), (''Public'', public), (''Secret'', phrase)])
                    (JObj [(''scheme'', JStr name), (''address'', JStr address), (''public'', JStr public),
                           (''secret'', JStr phrase)])))"

definition identity_key ::
  "('sr, 'ed, 'ec) cps_libs \<Rightarrow> SchemeArg \<Rightarrow> string \<Rightarrow> any_error + ('sr, 'ed, 'ec) KeyPair" where
  "identity_key libs scheme suri =
     lift_cps (key_from_suri (cl_sr libs) (cl_ed libs) (cl_ec libs) (scheme_of scheme) suri)"

definition identity_inspect :: "cps_world \<Rightarrow> ('sr, 'ed, 'ec) cps_libs \<Rightarrow> Ctx \<Rightarrow> InspectArgs \<Rightarrow> unit cps_io" where
  "identity_inspect w libs ctx args =
     cmd_bind
       (of_result
         (case cl_ss58 libs (in_key args) of
            Ok account \<Rightarrow> Ok (None, account, account)
          | Err _ \<Rightarrow>
              map_ok (\<lambda>key. (Some (scheme_of (in_scheme args)), key_account_id (cl_sig libs) key, key_public (cl_sig libs) key))
                (identity_key libs (in_scheme args) (in_key args))))
       (\<lambda>(scheme, account, public).
         out_result w libs ctx
           (CpsConfig.fields [(''Address'', cl_show_account libs account), (''Public'', hex0x libs public),
                    (''Scheme'', case scheme of None \<Rightarrow> ''unknown'' | Some s \<Rightarrow> show_scheme s)])
           (JObj [(''address'', JStr (cl_show_account libs account)), (''public'', JStr (hex0x libs public)),
                  (''scheme'', json_str_opt (map_option show_scheme scheme))]))"

text \<open>\<open>u32::checked_add\<close> and the block a permit is valid until.\<close>

definition checked_add :: "u32 \<Rightarrow> u32 \<Rightarrow> u32 option" where
  "checked_add a b = (if unat a + unat b < 2 ^ 32 then Some (a + b) else None)"

definition permit_expiry :: "PermitArgs \<Rightarrow> u32 \<Rightarrow> u32 \<Rightarrow> any_error + u32" where
  "permit_expiry args now max_ttl =
     (case pm_valid_until args of
        Some block \<Rightarrow> Ok block
      | None \<Rightarrow>
          (case checked_add now (unwrap_or (min DEFAULT_TTL max_ttl) (pm_ttl args)) of
             Some block \<Rightarrow> Ok block
           | None \<Rightarrow> Err (bail ''ttl overflows the block number'')))"

definition permit_payload ::
  "cps_world \<Rightarrow> ('sr, 'ed, 'ec) cps_libs \<Rightarrow> Ctx \<Rightarrow> PermitArgs \<Rightarrow> any_error + IdentityPermitPayload" where
  "permit_payload w libs ctx args =
     and_then (ctx_cps w ctx) (\<lambda>lk.
     and_then (ctx_reader lk (pm_read args)) (\<lambda>at.
     and_then (target_node_id libs at (pm_target args)) (\<lambda>i.
     and_then (lift_cps (resolve_scope at i)) (\<lambda>scope.
     and_then (lift_cps (map_err CpsRuntime (at_permit_ttl at))) (\<lambda>max_ttl.
     and_then (permit_expiry args (block_number_u32 at) max_ttl) (\<lambda>valid_until.
       lift_cps (identity_permit_payload (lk_cps lk 1) (rs_id scope) valid_until)))))))"

definition identity_permit :: "cps_world \<Rightarrow> ('sr, 'ed, 'ec) cps_libs \<Rightarrow> Ctx \<Rightarrow> PermitArgs \<Rightarrow> unit cps_io" where
  "identity_permit w libs ctx args =
     cmd_bind (of_result (permit_payload w libs ctx args)) (\<lambda>p.
     cmd_bind
       (if pm_unsigned args
        then of_result (Ok (JObj
               [(''version'', JNum PERMIT_ARTIFACT_VERSION),
                (''domain'', JStr (map (\<lambda>b. char_of (unat b)) IDENTITY_PERMIT_DOMAIN)),
                (''genesis_hash'', JStr (hex0x libs (ip_genesis_hash p))), (''scope'', JNum (unat (ip_scope p))),
                (''valid_until'', JNum (unat (ip_valid_until p))),
                (''signing_bytes'', JStr (hex0x libs (signing_bytes (cl_len_enc libs) p)))]))
        else (case pm_key args of
                None \<Rightarrow> ([], None)
              | Some suri \<Rightarrow>
                  of_result
                    (and_then (identity_key libs (pm_scheme args) suri) (\<lambda>key.
                       map_err bail (cl_value libs
                         (to_json (cl_render libs) (cl_hex libs) (cl_show_account libs)
                            (sign_permit (cl_len_enc libs) (cl_sig libs) key p)))))))
       (\<lambda>json. out_result w libs ctx (cl_pretty libs json) json))"

definition identity_run :: "cps_world \<Rightarrow> ('sr, 'ed, 'ec) cps_libs \<Rightarrow> Ctx \<Rightarrow> IdentityCommand \<Rightarrow> unit cps_io" where
  "identity_run w libs ctx command =
     (case command of
        IdentityGet args \<Rightarrow> identity_get w libs ctx args
      | IdentitySet args \<Rightarrow> identity_set w libs ctx args
      | IdentityClear t \<Rightarrow> identity_clear w libs ctx t
      | IdentityGenerate scheme \<Rightarrow> identity_generate w libs ctx scheme
      | IdentityInspect args \<Rightarrow> identity_inspect w libs ctx args
      | IdentityPermit args \<Rightarrow> identity_permit w libs ctx args)"

section \<open>\<open>scope\<close>\<close>

datatype ScopeCommand = ScopeResolve NavArgs | ScopeCreate Target | ScopeShow ScopeId "Hash option"

definition show_scope :: "ScopeId \<Rightarrow> string" where
  "show_scope s = show_nat (unat s)"

definition scope_resolve :: "cps_world \<Rightarrow> ('sr, 'ed, 'ec) cps_libs \<Rightarrow> Ctx \<Rightarrow> NavArgs \<Rightarrow> unit cps_io" where
  "scope_resolve w libs ctx args =
     cmd_bind
       (of_result
         (and_then (ctx_cps w ctx) (\<lambda>lk.
          and_then (ctx_reader lk (na_read args)) (\<lambda>at.
          and_then (target_node_id libs at (na_target args)) (\<lambda>i.
            map_ok (\<lambda>scope. (i, scope)) (lift_cps (resolve_scope at i)))))))
       (\<lambda>(i, scope).
         out_result w libs ctx
           (CpsConfig.fields [(''Scope'', show_scope (rs_id scope)), (''Root'', show_node (rs_root scope)),
                    (''Owner'', cl_show_account libs (rs_owner scope))])
           (JObj [node_json i, (''scope'', JNum (unat (rs_id scope))), (''root'', JNum (unat (rs_root scope))),
                  (''owner'', JStr (cl_show_account libs (rs_owner scope))),
                  (''path'', JArr (map (\<lambda>n. JNum (unat n)) (rs_path scope)))]))"

text \<open>The error of an existing scope is replaced.\<close>

definition scope_error :: "any_error \<Rightarrow> any_error" where
  "scope_error e =
     (case snd e of
        AnyLib (CpsScopeAlreadyExists i) \<Rightarrow> bail (''node '' @ show_node i @ '' is already a scope root'')
      | _ \<Rightarrow> e)"

definition scope_create :: "cps_world \<Rightarrow> ('sr, 'ed, 'ec) cps_libs \<Rightarrow> Ctx \<Rightarrow> Target \<Rightarrow> unit cps_io" where
  "scope_create w libs ctx t =
     cmd_bind (of_result (write_target w libs ctx t)) (\<lambda>(lk, key, i).
     cmd_bind (case ctx_submit ctx (lk_cps lk 1) (create_scope i) key of (os, r) \<Rightarrow> (os, map_option (map_err scope_error) r))
       (\<lambda>r.
         let scope = (case tr_result r of ResScope s \<Rightarrow> s | _ \<Rightarrow> 0) in
         ctx_done w libs ctx r (''Node '' @ show_node i @ '' now roots scope '' @ show_scope scope)
           [node_json i, (''scope'', JNum (unat scope))]))"

definition scope_show :: "cps_world \<Rightarrow> ('sr, 'ed, 'ec) cps_libs \<Rightarrow> Ctx \<Rightarrow> ScopeId \<Rightarrow> Hash option \<Rightarrow> unit cps_io" where
  "scope_show w libs ctx s read =
     cmd_bind
       (of_result
         (and_then (ctx_cps w ctx) (\<lambda>lk.
          and_then (ctx_reader lk read) (\<lambda>at.
          and_then (lift_cps (scope_info at s)) (\<lambda>info.
            case info of None \<Rightarrow> Err (bail (''scope '' @ show_scope s @ '' not found'')) | Some r \<Rightarrow> Ok r)))))
       (\<lambda>r.
         out_result w libs ctx
           (CpsConfig.fields [(''Scope'', show_scope s), (''Owner'', cl_show_account libs (si_owner r)),
                    (''Access'', show_nat (unat (si_access_count r)))])
           (JObj [(''scope'', JNum (unat s)), (''owner'', JStr (cl_show_account libs (si_owner r))),
                  (''access_count'', JNum (unat (si_access_count r)))]))"

definition scope_run :: "cps_world \<Rightarrow> ('sr, 'ed, 'ec) cps_libs \<Rightarrow> Ctx \<Rightarrow> ScopeCommand \<Rightarrow> unit cps_io" where
  "scope_run w libs ctx command =
     (case command of
        ScopeResolve args \<Rightarrow> scope_resolve w libs ctx args
      | ScopeCreate t \<Rightarrow> scope_create w libs ctx t
      | ScopeShow s read \<Rightarrow> scope_show w libs ctx s read)"

section \<open>\<open>create\<close> and \<open>delete\<close>\<close>

record CreateArgs =
  cr_parent :: "Target option"
  cr_meta :: "string option"
  cr_meta_file :: "string option"
  cr_payload :: "string option"
  cr_payload_file :: "string option"
  cr_identity :: "AccountId option"
  cr_permit :: "string option"
  cr_encryption :: EncryptionArgs

definition create_input :: "cps_world \<Rightarrow> bool \<Rightarrow> string option \<Rightarrow> string option \<Rightarrow> (any_error + bytes option) \<times> bool" where
  "create_input w used data path =
     (case (data, path) of
        (Some d, _) \<Rightarrow> (case read_arg w used d of (r, u) \<Rightarrow> (map_ok Some r, u))
      | (None, Some f) \<Rightarrow> (case read_path w used f of (r, u) \<Rightarrow> (map_ok Some r, u))
      | (None, None) \<Rightarrow> (Ok None, used))"

text \<open>The transaction of \<open>create\<close>, with the parent it resolved and the identity it assigns.\<close>

definition create_plan ::
  "cps_world \<Rightarrow> ('sr, 'ed, 'ec) cps_libs \<Rightarrow> Ctx \<Rightarrow> CreateArgs
    \<Rightarrow> any_error + link \<times> SharedSecret \<times> NodeId option \<times> IdentityAssignment option \<times> Transaction" where
  "create_plan w libs ctx args =
     (case create_input w False (cr_meta args) (cr_meta_file args) of (meta, used) \<Rightarrow>
     and_then meta (\<lambda>meta.
      case create_input w used (cr_payload args) (cr_payload_file args) of (payload, used) \<Rightarrow>
     and_then payload (\<lambda>payload.
     and_then (opt_map (seal libs 0 (cr_encryption args) (ct_suri ctx)) meta) (\<lambda>meta.
     and_then (opt_map (seal libs 1 (cr_encryption args) (ct_suri ctx)) payload) (\<lambda>payload.
     and_then (ctx_cps w ctx) (\<lambda>lk.
     and_then (ctx_signer libs ctx) (\<lambda>key.
     and_then (opt_map (canonical libs (lk_cps lk 0)) (cr_parent args)) (\<lambda>parent.
       if parent = None \<and> cr_permit args \<noteq> None
       then Err (bail ''a permit needs --parent: a root node can only get the signer as identity'')
       else
         and_then (assignment w libs used (lk_cps lk 1) (cr_identity args) (cr_permit args) parent) (\<lambda>identity.
           let params = \<lparr>cn_meta = meta, cn_payload = payload, cn_identity = identity\<rparr> in
           map_ok (\<lambda>tx. (lk, key, parent, identity, tx))
             (lift_cps (case parent of Some p \<Rightarrow> create_child p params | None \<Rightarrow> create_root params)))))))))))"

definition json_node_opt :: "NodeId option \<Rightarrow> json" where
  "json_node_opt i = (case i of None \<Rightarrow> JNull | Some n \<Rightarrow> JNum (unat n))"

definition node_create :: "cps_world \<Rightarrow> ('sr, 'ed, 'ec) cps_libs \<Rightarrow> Ctx \<Rightarrow> CreateArgs \<Rightarrow> unit cps_io" where
  "node_create w libs ctx args =
     cmd_bind (of_result (create_plan w libs ctx args)) (\<lambda>(lk, key, parent, identity, tx).
       mutate w libs ctx (lk_cps lk 2) tx key (\<lambda>r.
         let i = (case tr_result r of ResNode n \<Rightarrow> n | _ \<Rightarrow> 0) in
         (''Node '' @ show_node i @ '' created'',
          [node_json i, (''parent'', json_node_opt parent),
           (''identity'', json_str_opt (map_option (\<lambda>a. cl_show_account libs (ia_account a)) identity))])))"

definition node_delete :: "cps_world \<Rightarrow> ('sr, 'ed, 'ec) cps_libs \<Rightarrow> Ctx \<Rightarrow> Target \<Rightarrow> bool \<Rightarrow> unit cps_io" where
  "node_delete w libs ctx t yes =
     cmd_bind
       (of_result
         (and_then (write_target w libs ctx t) (\<lambda>(lk, key, i).
          and_then (lift_cps (node_read (lk_cps lk 1) read_children i)) (\<lambda>children.
            if children \<noteq> []
            then Err (bail (''cannot delete node '' @ show_node i @ '': it has '' @ show_nat (length children) @
                   '' children, delete them first''))
            else map_ok (\<lambda>confirmed. (lk, key, i, confirmed)) (confirm w yes)))))
       (\<lambda>(lk, key, i, confirmed).
         if \<not> confirmed then finish
         else mutate w libs ctx (lk_cps lk 2) (delete_node i) key (\<lambda>_.
                (''Node '' @ show_node i @ '' deleted'', [node_json i])))"

section \<open>\<open>show\<close>, \<open>tree\<close>, \<open>parent\<close> and \<open>children\<close>\<close>

record ShowArgs =
  sh_target :: Target
  sh_read :: "Hash option"
  sh_decrypt :: DecryptArgs

record TreeArgs =
  te_target :: Target
  te_depth :: "nat option"
  te_read :: "Hash option"

text \<open>What \<open>show\<close> reads: the node, its snapshot, its scope and its parent, with the data opened.\<close>

record shown =
  sn_node :: NodeId
  sn_identity :: "AccountId option"
  sn_scope :: ResolvedScope
  sn_parent :: "Target option"
  sn_meta :: "bytes option"
  sn_payload :: "bytes option"

definition show_read :: "cps_world \<Rightarrow> ('sr, 'ed, 'ec) cps_libs \<Rightarrow> Ctx \<Rightarrow> ShowArgs \<Rightarrow> any_error + shown" where
  "show_read w libs ctx args =
     and_then (ctx_cps w ctx) (\<lambda>lk.
     and_then (ctx_reader lk (sh_read args)) (\<lambda>at.
     and_then (target_node_id libs at (sh_target args)) (\<lambda>i.
     and_then (lift_cps (node_snapshot at i)) (\<lambda>snapshot.
     and_then (lift_cps (case snapshot of None \<Rightarrow> Err (CpsNodeNotFound i) | Some s \<Rightarrow> Ok s)) (\<lambda>s.
     and_then (lift_cps (resolve_scope at i)) (\<lambda>scope.
     and_then (target_parent libs at (sh_target args)) (\<lambda>parent.
     and_then (opt_map (open_data libs (sh_decrypt args) (ct_suri ctx)) (ns_meta s)) (\<lambda>meta.
     and_then (opt_map (open_data libs (sh_decrypt args) (ct_suri ctx)) (ns_payload s)) (\<lambda>payload.
       Ok \<lparr>sn_node = i, sn_identity = ns_identity s, sn_scope = scope, sn_parent = parent, sn_meta = meta,
           sn_payload = payload\<rparr>)))))))))"

definition nav_show :: "cps_world \<Rightarrow> ('sr, 'ed, 'ec) cps_libs \<Rightarrow> Ctx \<Rightarrow> ShowArgs \<Rightarrow> unit cps_io" where
  "nav_show w libs ctx args =
     cmd_bind (of_result (show_read w libs ctx args)) (\<lambda>s.
       let acc = cl_show_account libs;
           base = (case sh_target args of
                     TargetNode i \<Rightarrow>
                       ([(''Node'', show_node i), (''Identity'', unwrap_or ''-'' (map_option acc (sn_identity s)))],
                        [node_json i, (''identity'', json_str_opt (map_option acc (sn_identity s)))])
                   | TargetAddress a \<Rightarrow>
                       ([(''Address'', acc a), (''Node'', show_node (sn_node s))],
                        [(''address'', JStr (acc a)), node_json (sn_node s)]))
       in out_result w libs ctx
            (CpsConfig.fields (fst base @
               [(''Parent'', unwrap_or ''-'' (map_option (show_target libs) (sn_parent s))),
                (''Scope'', show_scope (rs_id (sn_scope s))), (''Owner'', acc (rs_owner (sn_scope s))),
                (''Meta'', human_opt libs (sn_meta s)), (''Payload'', human_opt libs (sn_payload s))]))
            (JObj (snd base @
               [(''parent'', case sn_parent s of None \<Rightarrow> JNull | Some t \<Rightarrow> target_json libs t),
                (''scope'', JNum (unat (rs_id (sn_scope s)))), (''owner'', JStr (acc (rs_owner (sn_scope s)))),
                (''meta'', json_opt libs (sn_meta s)), (''payload'', json_opt libs (sn_payload s))])))"

text \<open>\<open>None\<close> when the reading of the subtree runs out of fuel.\<close>

definition nav_tree :: "nat \<Rightarrow> cps_world \<Rightarrow> ('sr, 'ed, 'ec) cps_libs \<Rightarrow> Ctx \<Rightarrow> TreeArgs \<Rightarrow> unit cps_io option" where
  "nav_tree fuel w libs ctx args =
     (case and_then (ctx_cps w ctx) (\<lambda>lk. ctx_reader lk (te_read args)) of
        Err e \<Rightarrow> Some (of_result (Err e))
      | Ok at \<Rightarrow>
          map_option (\<lambda>r. cmd_bind (of_result r) (\<lambda>t. out_result w libs ctx (tree_render libs t) (tree_json libs t)))
            (tree_read fuel libs at (te_target args) (te_depth args)))"

definition nav_parent :: "cps_world \<Rightarrow> ('sr, 'ed, 'ec) cps_libs \<Rightarrow> Ctx \<Rightarrow> NavArgs \<Rightarrow> unit cps_io" where
  "nav_parent w libs ctx args =
     cmd_bind
       (of_result
         (and_then (ctx_cps w ctx) (\<lambda>lk.
          and_then (ctx_reader lk (na_read args)) (\<lambda>at. target_parent libs at (na_target args)))))
       (\<lambda>parent.
         out_result w libs ctx (unwrap_or ''-'' (map_option (show_target libs) parent))
           (case parent of None \<Rightarrow> JNull | Some t \<Rightarrow> target_json libs t))"

definition nav_children :: "cps_world \<Rightarrow> ('sr, 'ed, 'ec) cps_libs \<Rightarrow> Ctx \<Rightarrow> NavArgs \<Rightarrow> unit cps_io" where
  "nav_children w libs ctx args =
     cmd_bind
       (of_result
         (and_then (ctx_cps w ctx) (\<lambda>lk.
          and_then (ctx_reader lk (na_read args)) (\<lambda>at. target_children libs at (na_target args)))))
       (\<lambda>ts. out_result w libs ctx (join_with [line_feed] (map (show_target libs) ts)) (JArr (map (target_json libs) ts)))"

end
