(* ===== verification/CpsMain.thy ===== *)
theory CpsMain
  imports CpsCommands LightNode
begin

text \<open>
  The rest of \<open>cps\<close>: \<open>status\<close> (\<open>libcps/src/cli/commands/status.rs\<close>), \<open>light-client\<close> (\<open>light_client.rs\<close>) and the dispatch of
  all commands with their exit codes (\<open>libcps/src/main.rs\<close>). The JSON-RPC client is a parameter, as is the running
  light node (its own model is the theory \<open>LightNode\<close>).
\<close>

section \<open>\<open>status\<close>\<close>

record ChainStatus =
  st_name :: "string option"
  st_genesis_hash :: string
  st_spec_version :: nat
  st_impl_version :: nat
  st_best :: nat
  st_finalized :: nat
  st_syncing :: "bool option"
  st_current_block :: "nat option"
  st_highest_block :: "nat option"

record RuntimeVersion =
  rv_spec_name :: "string option"
  rv_spec_version :: nat
  rv_impl_version :: nat

text \<open>The requests \<open>query\<close> makes, each with its decoded answer or the text of its error; the header of a block is
  its number as text, of the best block without a hash.\<close>

record rpc_client =
  rq_block_hash :: "string + string"
  rq_runtime_version :: "string + RuntimeVersion"
  rq_header :: "string option \<Rightarrow> string + string"
  rq_finalized_head :: "string + string"
  rq_chain :: "string + string"
  rq_health :: "string + bool"
  rq_sync_state :: "string + nat \<times> nat"

text \<open>\<open>trim_start_matches\<close> and \<open>u64::from_str_radix\<close> with radix 16.\<close>

function trim_0x :: "string \<Rightarrow> string" where
  "trim_0x s = (case strip_prefix ''0x'' s of Some r \<Rightarrow> trim_0x r | None \<Rightarrow> s)"
  by pat_completeness auto
termination
  by (relation "measure length") (auto simp: strip_prefix_Some)

declare trim_0x.simps [simp del]

definition hex_digit_value :: "char \<Rightarrow> nat option" where
  "hex_digit_value c =
     (let n = of_char c :: nat in
      if 48 \<le> n \<and> n \<le> 57 then Some (n - 48)
      else if 97 \<le> n \<and> n \<le> 102 then Some (n - 87)
      else if 65 \<le> n \<and> n \<le> 70 then Some (n - 55) else None)"

fun hex_value :: "nat \<Rightarrow> string \<Rightarrow> nat option" where
  "hex_value acc [] = Some acc"
| "hex_value acc (c # cs) = (case hex_digit_value c of None \<Rightarrow> None | Some d \<Rightarrow> hex_value (16 * acc + d) cs)"

definition parse_hex_u64 :: "string \<Rightarrow> nat option" where
  "parse_hex_u64 s =
     (let digits = (case s of c # cs \<Rightarrow> if c = CHR ''+'' then cs else s | [] \<Rightarrow> s) in
      if digits = [] then None
      else case hex_value 0 digits of None \<Rightarrow> None | Some n \<Rightarrow> if n < 2 ^ 64 then Some n else None)"

definition status_block_number :: "string \<Rightarrow> any_error + nat" where
  "status_block_number number =
     (case parse_hex_u64 (trim_0x number) of
        Some n \<Rightarrow> Ok n
      | None \<Rightarrow> Err (bail (''malformed block number `'' @ number @ ''`'')))"

text \<open>The loop of \<open>rpc_error\<close>.\<close>

function rpc_error_text :: "string \<Rightarrow> string" where
  "rpc_error_text s =
     (case strip_prefix ''RPC error: '' s of
        Some rest \<Rightarrow> rpc_error_text rest
      | None \<Rightarrow> (case strip_prefix ''client error: '' s of Some rest \<Rightarrow> rpc_error_text rest | None \<Rightarrow> s))"
  by pat_completeness auto
termination
  by (relation "measure length") (auto simp: strip_prefix_Some)

declare rpc_error_text.simps [simp del]

definition rpc_result :: "string + 'a \<Rightarrow> any_error + 'a" where
  "rpc_result r = map_err (\<lambda>e. bail (rpc_error_text e)) r"

text \<open>\<open>Result::ok\<close>.\<close>

definition ok_of :: "'e + 'a \<Rightarrow> 'a option" where
  "ok_of r = (case r of Ok x \<Rightarrow> Some x | Err _ \<Rightarrow> None)"

definition status_query :: "(string \<Rightarrow> string + rpc_client) \<Rightarrow> string \<Rightarrow> any_error + ChainStatus" where
  "status_query rpc url =
     and_then (rpc_result (rpc url)) (\<lambda>client.
     and_then (with_context ''cannot read the genesis hash'' (rpc_result (rq_block_hash client))) (\<lambda>genesis_hash.
     and_then (with_context ''cannot read the runtime version'' (rpc_result (rq_runtime_version client))) (\<lambda>version.
     and_then (with_context ''cannot read the best block'' (rpc_result (rq_header client None))) (\<lambda>best.
     and_then (with_context ''cannot read the finalized head'' (rpc_result (rq_finalized_head client))) (\<lambda>finalized_hash.
     and_then (with_context ''cannot read the finalized block'' (rpc_result (rq_header client (Some finalized_hash))))
       (\<lambda>finalized.
       let name = or_else (ok_of (rq_chain client)) (rv_spec_name version);
           syncing = ok_of (rq_health client);
           sync_state = (if syncing = Some True then ok_of (rq_sync_state client) else None)
       in
     and_then (status_block_number best) (\<lambda>best.
     and_then (status_block_number finalized) (\<lambda>finalized.
       Ok \<lparr>st_name = name, st_genesis_hash = genesis_hash, st_spec_version = rv_spec_version version,
           st_impl_version = rv_impl_version version, st_best = best, st_finalized = finalized, st_syncing = syncing,
           st_current_block = map_option fst sync_state, st_highest_block = map_option snd sync_state\<rparr>))))))))"

definition json_nat_opt :: "nat option \<Rightarrow> json" where
  "json_nat_opt n = (case n of None \<Rightarrow> JNull | Some v \<Rightarrow> JNum v)"

definition status_json :: "EffectiveConfig \<Rightarrow> any_error + ChainStatus \<Rightarrow> json" where
  "status_json cfg live =
     JObj ([(''profile'', json_str_opt (ec_profile cfg)), (''config'', json_str_opt (ec_config_path cfg)),
            (''rpc'', JStr (ec_url cfg))] @
       (case live of
          Ok chain \<Rightarrow>
            [(''connected'', JBool True),
             (''chain'', JObj
               [(''name'', json_str_opt (st_name chain)), (''genesis_hash'', JStr (st_genesis_hash chain)),
                (''spec_version'', JNum (st_spec_version chain)), (''impl_version'', JNum (st_impl_version chain)),
                (''best'', JNum (st_best chain)), (''finalized'', JNum (st_finalized chain)),
                (''syncing'', case st_syncing chain of None \<Rightarrow> JNull | Some b \<Rightarrow> JBool b),
                (''current_block'', json_nat_opt (st_current_block chain)),
                (''highest_block'', json_nat_opt (st_highest_block chain))])]
        | Err e \<Rightarrow> [(''connected'', JBool False), (''error'', JStr (show_any e))]))"

definition block_ref :: "nat \<Rightarrow> string" where
  "block_ref n = CHR 0x23 # show_nat n"

definition status_human :: "EffectiveConfig \<Rightarrow> any_error + ChainStatus \<Rightarrow> string" where
  "status_human cfg live =
     (let rows = [(''Profile'', unwrap_or ''-'' (ec_profile cfg)), (''Config'', display_path (ec_config_path cfg)),
                  (''RPC'', ec_url cfg), (''Connected'', if isl live then ''no'' else ''yes'')] in
      case live of
        Err e \<Rightarrow> wide_fields rows @ [line_feed, line_feed] @ ''Error:'' @ [line_feed] @ ''  '' @ show_any e
      | Ok chain \<Rightarrow>
          wide_fields (rows @
            [(''Chain'', unwrap_or ''unknown'' (st_name chain)), (''Genesis'', st_genesis_hash chain),
             (''Spec version'', show_nat (st_spec_version chain)), (''Impl version'', show_nat (st_impl_version chain)),
             (''Best'', block_ref (st_best chain)), (''Finalized'', block_ref (st_finalized chain)),
             (''Syncing'', case st_syncing chain of Some True \<Rightarrow> ''yes'' | Some False \<Rightarrow> ''no'' | None \<Rightarrow> ''unknown'')] @
            (case st_current_block chain of Some n \<Rightarrow> [(''Current block'', block_ref n)] | None \<Rightarrow> []) @
            (case st_highest_block chain of Some n \<Rightarrow> [(''Highest block'', block_ref n)] | None \<Rightarrow> [])))"

text \<open>\<open>timed_out\<close> tells whether the live check takes longer than its 15 seconds.\<close>

definition STATUS_TIMEOUT :: nat where
  "STATUS_TIMEOUT = 15"

definition status_live :: "(string \<Rightarrow> string + rpc_client) \<Rightarrow> bool \<Rightarrow> string \<Rightarrow> any_error + ChainStatus" where
  "status_live rpc timed_out url =
     (if timed_out then Err (bail (''timed out after '' @ show_nat STATUS_TIMEOUT @ ''s'')) else status_query rpc url)"

definition status_run ::
  "cps_world \<Rightarrow> ('sr, 'ed, 'ec) cps_libs \<Rightarrow> (string \<Rightarrow> string + rpc_client) \<Rightarrow> bool \<Rightarrow> Ctx \<Rightarrow> nat cps_io" where
  "status_run w libs rpc timed_out ctx =
     (let cfg = ct_cfg ctx; live = status_live rpc timed_out (ec_url cfg) in
      cmd_seq (out_result w libs ctx (status_human cfg live) (status_json cfg live))
        (of_result (Ok (if isl live then 2 else 0))))"

section \<open>\<open>light-client\<close>\<close>

definition CLI_LISTEN :: string where
  "CLI_LISTEN = ''127.0.0.1:9944''"

definition node_config :: "string \<Rightarrow> bool \<Rightarrow> LightNodeConfig" where
  "node_config listen allow_external = allow_non_loopback allow_external (listen_on listen default_light)"

text \<open>The node as the command meets it: its start, the statuses it takes until Ctrl-C, the status afterwards and
  its shutdown. The command stops at a terminal status, and prints only on standard error.\<close>

record light_io =
  li_start :: "LightNodeConfig \<Rightarrow> LightError + unit"
  li_status :: LightStatus
  li_shutdown :: "LightError + unit"

text \<open>\<open>anyhow::Error\<close> of an error of the light node.\<close>

definition light_failure :: "LightError \<Rightarrow> any_error" where
  "light_failure e =
     (case e of
        LightConfig _ \<Rightarrow> bail (show_light_error e)
      | LightInvalidChainSpec s \<Rightarrow> ([show_light_error e], AnyMsg s)
      | LightBootstrap s \<Rightarrow> ([show_light_error e], AnyMsg s)
      | LightBind _ s \<Rightarrow> ([show_light_error e], AnyMsg s)
      | LightServer s \<Rightarrow> ([show_light_error e], AnyMsg s)
      | LightShutdown s \<Rightarrow> ([show_light_error e], AnyMsg s))"

definition light_execute :: "light_io \<Rightarrow> LightNodeConfig \<Rightarrow> any_error + unit" where
  "light_execute li config =
     and_then (map_err light_failure (li_start li config)) (\<lambda>_.
     and_then (map_err light_failure (li_shutdown li)) (\<lambda>_.
       case li_status li of
         Failed reason \<Rightarrow> Err (bail (''light client failed: '' @ reason))
       | _ \<Rightarrow> Ok ()))"

section \<open>All commands\<close>

datatype CpsCommand =
    CmdShow ShowArgs
  | CmdTree TreeArgs
  | CmdParent NavArgs
  | CmdChildren NavArgs
  | CmdCreate CreateArgs
  | CmdDelete Target bool
  | CmdMeta FieldCommand
  | CmdPayload FieldCommand
  | CmdIdentity IdentityCommand
  | CmdScope ScopeCommand
  | CmdAccess AccessCommand
  | CmdStatus
  | CmdProfile ProfileCommand
  | CmdLightClient string bool

record ('sr, 'ed, 'ec) cps_invocation =
  en_platform :: platform
  en_files :: cps_files
  en_vars :: environment
  en_world :: cps_world
  en_libs :: "('sr, 'ed, 'ec) cps_libs"
  en_rpc :: "string \<Rightarrow> string + rpc_client"
  en_timed_out :: bool
  en_light :: light_io

definition profile_cmd :: "cps_world \<Rightarrow> ('sr, 'ed, 'ec) cps_libs \<Rightarrow> Ctx \<Rightarrow> ProfileCommand \<Rightarrow> unit cps_io" where
  "profile_cmd w libs ctx command =
     cmd_bind (of_result (profile_run (cl_compact libs) (ct_cfg ctx) (ct_file ctx) command)) (\<lambda>ls.
       case ls of [] \<Rightarrow> finish | s # _ \<Rightarrow> println_cps w s)"

text \<open>The command of an invocation, with a zero exit code where the source gives none of its own.\<close>

definition cps_dispatch :: "nat \<Rightarrow> ('sr, 'ed, 'ec) cps_invocation \<Rightarrow> Ctx \<Rightarrow> CpsCommand \<Rightarrow> nat cps_io option" where
  "cps_dispatch fuel env ctx command =
     (let w = en_world env; libs = en_libs env;
          plain = (\<lambda>m :: unit cps_io. Some (cmd_seq m (of_result (Ok 0))))
      in case command of
           CmdShow args \<Rightarrow> plain (nav_show w libs ctx args)
         | CmdTree args \<Rightarrow> Option.bind (nav_tree fuel w libs ctx args) plain
         | CmdParent args \<Rightarrow> plain (nav_parent w libs ctx args)
         | CmdChildren args \<Rightarrow> plain (nav_children w libs ctx args)
         | CmdCreate args \<Rightarrow> plain (node_create w libs ctx args)
         | CmdDelete t yes \<Rightarrow> plain (node_delete w libs ctx t yes)
         | CmdMeta command \<Rightarrow> plain (field_run w libs ctx FieldMeta command)
         | CmdPayload command \<Rightarrow> plain (field_run w libs ctx FieldPayload command)
         | CmdIdentity command \<Rightarrow> plain (identity_run w libs ctx command)
         | CmdScope command \<Rightarrow> plain (scope_run w libs ctx command)
         | CmdAccess command \<Rightarrow> Some (access_run w libs ctx command)
         | CmdStatus \<Rightarrow> Some (status_run w libs (en_rpc env) (en_timed_out env) ctx)
         | CmdProfile command \<Rightarrow> plain (profile_cmd w libs ctx command)
         | CmdLightClient listen allow_external \<Rightarrow>
             plain (of_result (light_execute (en_light env) (node_config listen allow_external))))"

definition cps_run ::
  "nat \<Rightarrow> ('sr, 'ed, 'ec) cps_invocation \<Rightarrow> CliSettings \<Rightarrow> string option \<Rightarrow> CpsCommand \<Rightarrow> nat cps_io option" where
  "cps_run fuel env settings suri command =
     (case resolve_from_env (en_platform env) (en_files env) (en_vars env) settings of
        Err e \<Rightarrow> Some (of_result (Err e))
      | Ok r \<Rightarrow> cps_dispatch fuel env \<lparr>ct_cfg = rv_effective r, ct_file = rv_file r, ct_suri = suri\<rparr> command)"

text \<open>What \<open>main\<close> makes of it: the output, the exit code, and the message on standard error; a panic is 101.\<close>

definition cps_exit :: "nat cps_io \<Rightarrow> cps_out list \<times> nat \<times> string option" where
  "cps_exit m =
     (case snd m of
        Some (Ok code) \<Rightarrow> (fst m, code, None)
      | Some (Err e) \<Rightarrow> (fst m, 2, Some (''error: '' @ show_any e))
      | None \<Rightarrow> (fst m, 101, None))"

definition cps_main ::
  "nat \<Rightarrow> ('sr, 'ed, 'ec) cps_invocation \<Rightarrow> CliSettings \<Rightarrow> string option \<Rightarrow> CpsCommand
    \<Rightarrow> (cps_out list \<times> nat \<times> string option) option" where
  "cps_main fuel env settings suri command = map_option cps_exit (cps_run fuel env settings suri command)"

end
