(* ===== verification/CpsSafety.thy ===== *)
theory CpsSafety
  imports CpsMain
begin

text \<open>
  What the commands of \<open>cps\<close> do to the chain and how they end. The specification \<open>requested\<close> tells the one call
  that a command may send; the theorems: a command sends at most that call, within the limits and signed by the
  key of \<open>--suri\<close>, reports success only after the call was included, and ends with the documented exit codes.
\<close>

section \<open>Specification\<close>

fun sent_calls :: "cps_out list \<Rightarrow> (bytes \<times> Call) list" where
  "sent_calls [] = []"
| "sent_calls (Sent k c # os) = (k, c) # sent_calls os"
| "sent_calls (_ # os) = sent_calls os"

text \<open>The call was accepted, included as the wait policy asks, and executed.\<close>

definition confirmed :: "WaitPolicy \<Rightarrow> Cps \<Rightarrow> Call \<Rightarrow> bool" where
  "confirmed wait cx call \<longleftrightarrow>
     (\<exists>h ib events. cx_send cx call = Ok h \<and>
        (case wait of
           WaitFinalized \<Rightarrow> cx_wait_finalized cx h = Ok ib
         | WaitBest \<Rightarrow> wait_block cx (cx_statuses cx h) = Ok ib) \<and>
        cx_success cx ib = Ok events)"

text \<open>A permit that works for a node: valid, for this chain and the node's scope, and not expired.\<close>

definition usable_permit :: "('sr, 'ed, 'ec) cps_libs \<Rightarrow> Cps \<Rightarrow> PermitArtifact \<Rightarrow> NodeId \<Rightarrow> bool" where
  "usable_permit libs cx p i \<longleftrightarrow>
     verify_permit (cl_len_enc libs) (cl_sig libs) p \<and> ip_genesis_hash (pa_payload p) = cx_genesis_hash cx \<and>
     (\<exists>at r. cps_finalized cx = Ok at \<and> resolve_scope at i = Ok r \<and> ip_scope (pa_payload p) = rs_id r \<and>
        block_number_u32 at \<le> ip_valid_until (pa_payload p))"

text \<open>The identity that an account and a permit name for a node.\<close>

definition named ::
  "cps_world \<Rightarrow> ('sr, 'ed, 'ec) cps_libs \<Rightarrow> bool \<Rightarrow> Cps \<Rightarrow> AccountId option \<Rightarrow> string option \<Rightarrow> NodeId
    \<Rightarrow> IdentityAssignment \<Rightarrow> bool" where
  "named w libs used cx account permit i ia \<longleftrightarrow>
     (case permit of
        None \<Rightarrow> account = Some (ia_account ia) \<and> ia_permit ia = None
      | Some source \<Rightarrow>
          \<exists>p. load_permit w libs used source = Ok p \<and> account \<in> {None, Some (pa_identity p)} \<and>
              usable_permit libs cx p i \<and> ia = into_assignment p)"

inductive requested ::
  "cps_world \<Rightarrow> ('sr, 'ed, 'ec) cps_libs \<Rightarrow> Ctx \<Rightarrow> link \<Rightarrow> CpsCommand \<Rightarrow> Call \<Rightarrow> bool"
  for w libs ctx lk where
  set_meta: "canonical libs (lk_cps lk 0) (fs_target a) = Ok i \<Longrightarrow> data_read w (fs_input a) = Ok d \<Longrightarrow>
    seal libs 0 (fs_encryption a) (ct_suri ctx) d = Ok b \<Longrightarrow>
    requested w libs ctx lk (CmdMeta (FieldSet a)) (CallSetMeta i (Some b))"
| set_payload: "canonical libs (lk_cps lk 0) (fs_target a) = Ok i \<Longrightarrow> data_read w (fs_input a) = Ok d \<Longrightarrow>
    seal libs 0 (fs_encryption a) (ct_suri ctx) d = Ok b \<Longrightarrow>
    requested w libs ctx lk (CmdPayload (FieldSet a)) (CallSetPayload i (Some b))"
| clear_meta: "canonical libs (lk_cps lk 0) t = Ok i \<Longrightarrow>
    requested w libs ctx lk (CmdMeta (FieldClear t)) (CallSetMeta i None)"
| clear_payload: "canonical libs (lk_cps lk 0) t = Ok i \<Longrightarrow>
    requested w libs ctx lk (CmdPayload (FieldClear t)) (CallSetPayload i None)"
| grant: "canonical libs (lk_cps lk 0) (gt_target g) = Ok i \<Longrightarrow>
    requested w libs ctx lk (CmdAccess (AccessGrant g))
      (CallGrantAccess i (gt_account g)
         \<lparr>gr_capability = capability_of (gt_capability g), gr_mode = mode_of (gt_mode g)\<rparr>)"
| revoke: "canonical libs (lk_cps lk 0) (rk_target v) = Ok i \<Longrightarrow>
    requested w libs ctx lk (CmdAccess (AccessRevoke v))
      (CallRevokeAccess i (rk_account v) (capability_of (rk_capability v)))"
| identity: "canonical libs (lk_cps lk 0) (is_target s) = Ok i \<Longrightarrow>
    named w libs False (lk_cps lk 1) (is_account s) (is_permit s) i ia \<Longrightarrow>
    requested w libs ctx lk (CmdIdentity (IdentitySet s)) (CallSetIdentity i ia)"
| no_identity: "canonical libs (lk_cps lk 0) t = Ok i \<Longrightarrow>
    requested w libs ctx lk (CmdIdentity (IdentityClear t)) (CallClearIdentity i)"
| scope: "canonical libs (lk_cps lk 0) t = Ok i \<Longrightarrow>
    requested w libs ctx lk (CmdScope (ScopeCreate t)) (CallCreateScope i)"
| create: "opt_map (canonical libs (lk_cps lk 0)) (cr_parent c) = Ok parent \<Longrightarrow>
    create_input w False (cr_meta c) (cr_meta_file c) = (Ok m, u1) \<Longrightarrow>
    create_input w u1 (cr_payload c) (cr_payload_file c) = (Ok p, u2) \<Longrightarrow>
    opt_map (seal libs 0 (cr_encryption c) (ct_suri ctx)) m = Ok m' \<Longrightarrow>
    opt_map (seal libs 1 (cr_encryption c) (ct_suri ctx)) p = Ok p' \<Longrightarrow>
    (case cr_permit c of
       None \<Rightarrow> identity = map_option (\<lambda>a. \<lparr>ia_account = a, ia_permit = None\<rparr>) (cr_identity c)
     | Some _ \<Rightarrow> \<exists>i ia. parent = Some i \<and> identity = Some ia \<and>
                   named w libs u2 (lk_cps lk 1) (cr_identity c) (cr_permit c) i ia) \<Longrightarrow>
    requested w libs ctx lk (CmdCreate c) (CallCreateNode parent m' p' identity)"
| delete: "canonical libs (lk_cps lk 0) t = Ok i \<Longrightarrow> node_read (lk_cps lk 1) read_children i = Ok [] \<Longrightarrow>
    confirm w yes = Ok True \<Longrightarrow>
    requested w libs ctx lk (CmdDelete t yes) (CallDeleteNode i)"

text \<open>The commands whose success means that a call was sent: all that write, but a \<open>delete\<close> that may be cancelled.\<close>

fun must_write :: "CpsCommand \<Rightarrow> bool" where
  "must_write (CmdCreate _) \<longleftrightarrow> True"
| "must_write (CmdDelete _ yes) \<longleftrightarrow> yes"
| "must_write (CmdMeta c) \<longleftrightarrow> (case c of FieldSet _ \<Rightarrow> True | FieldClear _ \<Rightarrow> True | _ \<Rightarrow> False)"
| "must_write (CmdPayload c) \<longleftrightarrow> (case c of FieldSet _ \<Rightarrow> True | FieldClear _ \<Rightarrow> True | _ \<Rightarrow> False)"
| "must_write (CmdIdentity c) \<longleftrightarrow> (case c of IdentitySet _ \<Rightarrow> True | IdentityClear _ \<Rightarrow> True | _ \<Rightarrow> False)"
| "must_write (CmdScope c) \<longleftrightarrow> (case c of ScopeCreate _ \<Rightarrow> True | _ \<Rightarrow> False)"
| "must_write (CmdAccess c) \<longleftrightarrow> (case c of AccessCheck _ \<Rightarrow> False | _ \<Rightarrow> True)"
| "must_write _ \<longleftrightarrow> False"

text \<open>The live check of \<open>status\<close> succeeds: the node can be reached and answers the six requests that count, with
  block numbers that can be read. Its name and its synchronization may be missing.\<close>

definition live_check_passes :: "(string \<Rightarrow> string + rpc_client) \<Rightarrow> string \<Rightarrow> bool" where
  "live_check_passes rpc url \<longleftrightarrow>
     (\<exists>client genesis version best head finalized n m.
        rpc url = Ok client \<and> rq_block_hash client = Ok genesis \<and> rq_runtime_version client = Ok version \<and>
        rq_header client None = Ok best \<and> rq_finalized_head client = Ok head \<and>
        rq_header client (Some head) = Ok finalized \<and>
        parse_hex_u64 (trim_0x best) = Some n \<and> parse_hex_u64 (trim_0x finalized) = Some m)"

text \<open>What the argument parser guarantees where a command relies on it.\<close>

fun well_parsed :: "CpsCommand \<Rightarrow> bool" where
  "well_parsed (CmdIdentity (IdentitySet s)) \<longleftrightarrow> is_account s \<noteq> None \<or> is_permit s \<noteq> None"
| "well_parsed (CmdIdentity (IdentityPermit p)) \<longleftrightarrow> pm_unsigned p \<or> pm_key p \<noteq> None"
| "well_parsed _ \<longleftrightarrow> True"

section \<open>Lemmas\<close>

lemma sent_calls_append [simp]: "sent_calls (xs @ ys) = sent_calls xs @ sent_calls ys"
  by (induction xs rule: sent_calls.induct) auto

lemma sent_calls_map [simp]: "sent_calls (map (Sent k) cs) = map (Pair k) cs"
  by (induction cs) auto

lemma lift_cps_simps [simp]: "lift_cps (Ok x) = Ok x" "lift_cps (Err e) = Err (lib_error e)"
  by (simp_all add: lift_cps_def)

lemma lift_cps_Ok: "lift_cps r = Ok x \<longleftrightarrow> r = Ok x"
  by (cases r) auto

lemma opt_map_Ok: "opt_map f x = Ok y \<longleftrightarrow> (case x of None \<Rightarrow> y = None | Some v \<Rightarrow> \<exists>u. f v = Ok u \<and> y = Some u)"
  by (auto simp: opt_map_def map_ok_is_Ok split: option.splits)

lemma check_permit_Ok: "check_permit libs cx p i = Ok u \<longleftrightarrow> usable_permit libs cx p i"
  by (auto simp: check_permit_def usable_permit_def and_then_Ok lift_cps_Ok Let_def not_less)

lemma assignment_named:
  "assignment w libs used cx account permit (Some i) = Ok (Some ia) \<longleftrightarrow> named w libs used cx account permit i ia"
  by (cases permit; cases account; cases ia)
    (auto simp: assignment_def named_def and_then_Ok map_ok_is_Ok check_permit_Ok)

text \<open>Results are silent; so is printing.\<close>

lemma sent_out_result [simp]: "sent_calls (fst (out_result w libs ctx h j)) = []"
  by (auto simp: out_result_def println_cps_def finish_def split: list.splits option.splits)

lemma sent_done [simp]: "sent_calls (fst (ctx_done w libs ctx r h e)) = []"
  by (simp add: ctx_done_def)

text \<open>\<open>obeys\<close>: at most one call, one that is allowed, and no success before it is confirmed.\<close>

definition obeys :: "bool \<Rightarrow> WaitPolicy \<Rightarrow> (bytes \<Rightarrow> Cps \<Rightarrow> Call \<Rightarrow> bool) \<Rightarrow> 'x cps_io \<Rightarrow> bool" where
  "obeys must wait allowed m \<longleftrightarrow>
     sent_calls (fst m) = [] \<and> \<not> (must \<and> (\<exists>x. snd m = Some (Ok x))) \<or>
     (\<exists>k cx call. sent_calls (fst m) = [(k, call)] \<and> allowed k cx call \<and>
        ((\<exists>x. snd m = Some (Ok x)) \<longrightarrow> confirmed wait cx call))"

lemma obeys_result: "obeys must wait allowed (of_result (Err e))"
  by (simp add: obeys_def of_result_def)

lemma obeys_bind_result:
  assumes "\<And>x. r = Ok x \<Longrightarrow> obeys must wait allowed (f x)"
  shows "obeys must wait allowed (cmd_bind (of_result r) f)"
  using assms by (cases r) (simp_all add: obeys_result)

lemma obeys_seq:
  assumes "obeys must wait allowed m"
  shows "obeys must wait allowed (cmd_seq m (of_result (Ok x)))"
  using assms by (auto simp: obeys_def cmd_seq_def cmd_bind_def of_result_def split: option.splits sum.splits)

lemma obeys_silent: "sent_calls (fst m) = [] \<Longrightarrow> obeys False wait allowed m"
  by (simp add: obeys_def)

lemma receipt_success: "receipt cx tx ib = Ok r \<Longrightarrow> \<exists>events. cx_success cx ib = Ok events"
  by (auto simp: receipt_def map_err_is_Ok split: sum.splits)

lemma ctx_submit_effects:
  "sent_calls (fst (ctx_submit ctx cx tx key)) \<in> {[], [(ss_public key, tx_call tx)]}"
  "snd (ctx_submit ctx cx tx key) = Some (Ok r) \<Longrightarrow>
     sent_calls (fst (ctx_submit ctx cx tx key)) = [(ss_public key, tx_call tx)] \<and>
     confirmed (ec_wait (ct_cfg ctx)) cx (tx_call tx)"
  "snd (ctx_submit ctx cx tx key) \<noteq> None"
  by (auto simp: ctx_submit_def submit_def confirmed_def cmd_bind_def of_result_def lift_cps_Ok map_err_is_Ok
      wait_finalized_def wait_in_block_def split: sum.splits WaitPolicy.splits dest!: receipt_success)

lemma obeys_submit:
  assumes "allowed (ss_public key) cx (tx_call tx)" and "\<And>r. sent_calls (fst (f r)) = []"
  shows "obeys must (ec_wait (ct_cfg ctx)) allowed (cmd_bind (ctx_submit ctx cx tx key) f)"
proof (cases "snd (ctx_submit ctx cx tx key)")
  case (Some r)
  then show ?thesis
    using ctx_submit_effects(1) [of ctx cx tx key] ctx_submit_effects(2) [of ctx cx tx key] assms
    by (cases r) (auto simp: obeys_def cmd_bind_def)
qed (simp add: ctx_submit_effects)

lemma obeys_mutate:
  assumes "allowed (ss_public key) cx (tx_call tx)"
  shows "obeys must (ec_wait (ct_cfg ctx)) allowed (mutate w libs ctx cx tx key report)"
  unfolding mutate_def by (rule obeys_submit) (use assms in simp_all)


section \<open>Reading commands send nothing\<close>

lemma sent_bind_result:
  assumes "\<And>x. sent_calls (fst (f x)) = []"
  shows "sent_calls (fst (cmd_bind (of_result r) f)) = []"
  using assms by (cases r) simp_all

lemma sent_seq: "sent_calls (fst m) = [] \<Longrightarrow> sent_calls (fst n) = [] \<Longrightarrow> sent_calls (fst (cmd_seq m n)) = []"
  by (auto simp: cmd_seq_def cmd_bind_def split: option.splits sum.splits)

lemma sent_basic [simp]:
  "sent_calls (fst finish) = []" "sent_calls (fst (of_result r)) = []" "sent_calls (fst (write_raw w b)) = []"
  "sent_calls (fst (println_cps w s)) = []" "sent_calls (fst (field_emit w libs ctx dec i c)) = []"
  by (auto simp: finish_def write_raw_def println_cps_def field_emit_def intro!: sent_bind_result split: option.splits)

lemma sent_watch_loop: "sent_calls (fst (watch_loop w libs ctx dec i field interrupt bs)) = []"
proof (induction w libs ctx dec i field interrupt bs rule: watch_loop.induct)
  case (1 w libs ctx dec i field interrupt bs)
  then show ?case
    by (subst watch_loop.simps) (auto split: option.splits sum.splits prod.splits intro!: sent_seq)
qed

lemma sent_reads [simp]:
  "sent_calls (fst (field_get w libs ctx field ga)) = []"
  "sent_calls (fst (field_watch w libs ctx field wa)) = []"
  "sent_calls (fst (access_check w libs ctx ck)) = []"
  "sent_calls (fst (identity_get w libs ctx na)) = []"
  "sent_calls (fst (identity_generate w libs ctx sa)) = []"
  "sent_calls (fst (identity_inspect w libs ctx ia)) = []"
  "sent_calls (fst (identity_permit w libs ctx pa)) = []"
  "sent_calls (fst (scope_resolve w libs ctx na)) = []"
  "sent_calls (fst (scope_show w libs ctx sc read)) = []"
  "sent_calls (fst (nav_show w libs ctx sh)) = []"
  "sent_calls (fst (nav_parent w libs ctx na)) = []"
  "sent_calls (fst (nav_children w libs ctx na)) = []"
  "sent_calls (fst (status_run w libs rpc timed_out ctx)) = []"
  "sent_calls (fst (profile_cmd w libs ctx pc)) = []"
  unfolding field_get_def field_watch_def access_check_def identity_get_def identity_generate_def identity_inspect_def
    identity_permit_def scope_resolve_def scope_show_def nav_show_def nav_parent_def nav_children_def status_run_def
    profile_cmd_def
  by (auto simp: Let_def sent_watch_loop intro!: sent_bind_result sent_seq split: option.splits prod.splits list.splits)

lemma sent_tree: "nav_tree fuel w libs ctx te = Some m \<Longrightarrow> sent_calls (fst m) = []"
  by (auto simp: nav_tree_def intro!: sent_bind_result split: sum.splits)

section \<open>Writing commands\<close>

definition allowed ::
  "cps_world \<Rightarrow> ('sr, 'ed, 'ec) cps_libs \<Rightarrow> Ctx \<Rightarrow> CpsCommand \<Rightarrow> bytes \<Rightarrow> Cps \<Rightarrow> Call \<Rightarrow> bool" where
  "allowed w libs ctx command k cx call \<longleftrightarrow>
     (\<exists>lk key n. ctx_cps w ctx = Ok lk \<and> ctx_signer libs ctx = Ok key \<and> k = ss_public key \<and> cx = lk_cps lk n \<and>
        requested w libs ctx lk command call \<and> call_within call)"

lemma write_target_Ok:
  "write_target w libs ctx t = Ok (lk, key, i) \<longleftrightarrow>
     ctx_cps w ctx = Ok lk \<and> ctx_signer libs ctx = Ok key \<and> canonical libs (lk_cps lk 0) t = Ok i"
  by (auto simp: write_target_def and_then_Ok map_ok_is_Ok)

text \<open>A write of a built transaction that its command requests.\<close>

lemma obeys_write:
  assumes "ctx_cps w ctx = Ok lk" and "ctx_signer libs ctx = Ok key"
    and "requested w libs ctx lk command (tx_call tx)" and "built tx"
  shows "obeys must (ec_wait (ct_cfg ctx)) (allowed w libs ctx command) (mutate w libs ctx (lk_cps lk n) tx key report)"
  by (rule obeys_mutate) (use assms built_within in \<open>auto simp: allowed_def\<close>)

lemma set_tx:
  "set_meta i b = Ok tx \<Longrightarrow> built tx \<and> tx_call tx = CallSetMeta i b"
  "set_payload i b = Ok tx \<Longrightarrow> built tx \<and> tx_call tx = CallSetPayload i b"
  by (auto intro: built.intros) (auto simp: set_meta_def set_payload_def new_transaction_def split: sum.splits)

lemma set_field_tx:
  "set_field FieldMeta i b = Ok tx \<Longrightarrow> built tx \<and> tx_call tx = CallSetMeta i (Some b)"
  "set_field FieldPayload i b = Ok tx \<Longrightarrow> built tx \<and> tx_call tx = CallSetPayload i (Some b)"
  "clear_meta i = Some tx \<Longrightarrow> built tx \<and> tx_call tx = CallSetMeta i None"
  "clear_payload i = Some tx \<Longrightarrow> built tx \<and> tx_call tx = CallSetPayload i None"
  by (auto simp: set_field_def clear_meta_def clear_payload_def dest: set_tx split: sum.splits)

lemma plain_tx:
  "built (grant_access i a g)" "tx_call (grant_access i a g) = CallGrantAccess i a g"
  "built (revoke_access i a c)" "tx_call (revoke_access i a c) = CallRevokeAccess i a c"
  "built (set_identity i x)" "tx_call (set_identity i x) = CallSetIdentity i x"
  "built (clear_identity i)" "tx_call (clear_identity i) = CallClearIdentity i"
  "built (create_scope i)" "tx_call (create_scope i) = CallCreateScope i"
  "built (delete_node i)" "tx_call (delete_node i) = CallDeleteNode i"
  by (rule built.intros | simp add: builders)+

lemma field_obeys:
  "obeys True (ec_wait (ct_cfg ctx)) (allowed w libs ctx (CmdMeta (FieldSet a))) (field_set w libs ctx FieldMeta a)"
  "obeys True (ec_wait (ct_cfg ctx)) (allowed w libs ctx (CmdPayload (FieldSet a))) (field_set w libs ctx FieldPayload a)"
  "obeys True (ec_wait (ct_cfg ctx)) (allowed w libs ctx (CmdMeta (FieldClear t))) (field_clear w libs ctx FieldMeta t)"
  "obeys True (ec_wait (ct_cfg ctx)) (allowed w libs ctx (CmdPayload (FieldClear t))) (field_clear w libs ctx FieldPayload t)"
  unfolding field_set_def field_clear_def
  by (rule obeys_bind_result;
      auto simp: and_then_Ok map_ok_is_Ok lift_cps_Ok write_target_Ok clear_total set_field_tx dest: set_field_tx
        intro!: obeys_write requested.intros split: option.splits)+


lemma access_obeys:
  "obeys True (ec_wait (ct_cfg ctx)) (allowed w libs ctx (CmdAccess (AccessGrant g))) (access_grant w libs ctx g)"
  "obeys True (ec_wait (ct_cfg ctx)) (allowed w libs ctx (CmdAccess (AccessRevoke v))) (access_revoke w libs ctx v)"
  unfolding access_grant_def access_revoke_def
  by (rule obeys_bind_result; auto simp: write_target_Ok plain_tx intro!: obeys_write requested.intros)+

lemma identity_obeys:
  "obeys True (ec_wait (ct_cfg ctx)) (allowed w libs ctx (CmdIdentity (IdentitySet s))) (identity_set w libs ctx s)"
  "obeys True (ec_wait (ct_cfg ctx)) (allowed w libs ctx (CmdIdentity (IdentityClear t))) (identity_clear w libs ctx t)"
  unfolding identity_set_def identity_clear_def
  by (rule obeys_bind_result;
      auto simp: write_target_Ok and_then_Ok map_ok_is_Ok plain_tx assignment_named obeys_def [of True _ _ "([], None)"]
        intro!: obeys_write requested.intros split: option.splits)+

lemma obeys_submit_err:
  assumes "ok (ss_public key) cx (tx_call tx)" and "\<And>r. sent_calls (fst (f r)) = []"
  shows "obeys must (ec_wait (ct_cfg ctx)) ok
    (cmd_bind (case ctx_submit ctx cx tx key of (os, r) \<Rightarrow> (os, map_option (map_err g) r)) f)"
proof -
  obtain os r where m: "ctx_submit ctx cx tx key = (os, r)" by (cases "ctx_submit ctx cx tx key")
  obtain q where r: "r = Some q" using ctx_submit_effects(3) [of ctx cx tx key] m by auto
  show ?thesis
    using ctx_submit_effects(1) [of ctx cx tx key] ctx_submit_effects(2) [of ctx cx tx key] assms m r
    by (cases q) (auto simp: obeys_def cmd_bind_def)
qed

lemma scope_obeys:
  "obeys True (ec_wait (ct_cfg ctx)) (allowed w libs ctx (CmdScope (ScopeCreate t))) (scope_create w libs ctx t)"
  unfolding scope_create_def
proof (rule obeys_bind_result, clarify)
  fix lk key i
  assume "write_target w libs ctx t = Ok (lk, key, i)"
  then have "allowed w libs ctx (CmdScope (ScopeCreate t)) (ss_public key) (lk_cps lk 1) (tx_call (create_scope i))"
    by (auto simp: allowed_def write_target_Ok plain_tx built_within intro!: requested.intros exI [of _ lk])
  from this show "obeys True (ec_wait (ct_cfg ctx)) (allowed w libs ctx (CmdScope (ScopeCreate t)))
      (cmd_bind (case ctx_submit ctx (lk_cps lk 1) (create_scope i) key of (os, r) \<Rightarrow> (os, map_option (map_err scope_error) r))
        (\<lambda>r. let scope = (case tr_result r of ResScope s \<Rightarrow> s | _ \<Rightarrow> 0) in
             ctx_done w libs ctx r (''Node '' @ show_node i @ '' now roots scope '' @ show_scope scope)
               [node_json i, (''scope'', JNum (unat scope))]))"
    by (rule obeys_submit_err) (simp add: Let_def)
qed

lemma delete_obeys:
  "obeys yes (ec_wait (ct_cfg ctx)) (allowed w libs ctx (CmdDelete t yes)) (node_delete w libs ctx t yes)"
  unfolding node_delete_def
proof (rule obeys_bind_result, clarify)
  fix lk key i confirmed
  assume "and_then (write_target w libs ctx t) (\<lambda>(lk, key, i).
      and_then (lift_cps (node_read (lk_cps lk 1) read_children i)) (\<lambda>children.
        if children \<noteq> []
        then Err (bail (''cannot delete node '' @ show_node i @ '': it has '' @ show_nat (length children) @
               '' children, delete them first''))
        else map_ok (\<lambda>confirmed. (lk, key, i, confirmed)) (confirm w yes))) = Ok (lk, key, i, confirmed)"
  then have *: "write_target w libs ctx t = Ok (lk, key, i)" "node_read (lk_cps lk 1) read_children i = Ok []"
    "confirm w yes = Ok confirmed"
    by (auto simp: and_then_Ok map_ok_is_Ok lift_cps_Ok split: if_splits)
  then show "obeys yes (ec_wait (ct_cfg ctx)) (allowed w libs ctx (CmdDelete t yes))
      (if \<not> confirmed then finish
       else mutate w libs ctx (lk_cps lk 2) (delete_node i) key
              (\<lambda>_. (''Node '' @ show_node i @ '' deleted'', [node_json i])))"
    by (cases confirmed)
      (auto simp: write_target_Ok plain_tx obeys_silent confirm_def split: if_splits intro!: obeys_write requested.intros)
qed

lemma create_plan_Ok:
  assumes "create_plan w libs ctx c = Ok (lk, key, parent, identity, tx)"
  shows "ctx_cps w ctx = Ok lk \<and> ctx_signer libs ctx = Ok key \<and> built tx \<and>
    requested w libs ctx lk (CmdCreate c) (tx_call tx)"
proof -
  obtain m u1 where m: "create_input w False (cr_meta c) (cr_meta_file c) = (m, u1)" by (cases "create_input w False (cr_meta c) (cr_meta_file c)")
  obtain p u2 where p: "create_input w u1 (cr_payload c) (cr_payload_file c) = (p, u2)" by (cases "create_input w u1 (cr_payload c) (cr_payload_file c)")
  obtain m0 p0 m' p' where x: "m = Ok m0" "p = Ok p0" "opt_map (seal libs 0 (cr_encryption c) (ct_suri ctx)) m0 = Ok m'"
    "opt_map (seal libs 1 (cr_encryption c) (ct_suri ctx)) p0 = Ok p'" "ctx_cps w ctx = Ok lk" "ctx_signer libs ctx = Ok key"
    "opt_map (canonical libs (lk_cps lk 0)) (cr_parent c) = Ok parent" "\<not> (parent = None \<and> cr_permit c \<noteq> None)"
    "assignment w libs u2 (lk_cps lk 1) (cr_identity c) (cr_permit c) parent = Ok identity"
    "(case parent of
        Some i \<Rightarrow> create_child i \<lparr>cn_meta = m', cn_payload = p', cn_identity = identity\<rparr>
      | None \<Rightarrow> create_root \<lparr>cn_meta = m', cn_payload = p', cn_identity = identity\<rparr>) = Ok tx"
    using assms by (auto simp: create_plan_def m p and_then_Ok map_ok_is_Ok lift_cps_Ok Let_def split: if_splits)
  have tx: "built tx \<and> tx_call tx = CallCreateNode parent m' p' identity"
    using x(10)
    by (auto intro: built.intros split: option.splits)
      (auto simp: create_child_def create_root_def create_node_def new_transaction_def split: option.splits sum.splits)
  have "case cr_permit c of
       None \<Rightarrow> identity = map_option (\<lambda>a. \<lparr>ia_account = a, ia_permit = None\<rparr>) (cr_identity c)
     | Some _ \<Rightarrow> \<exists>i ia. parent = Some i \<and> identity = Some ia \<and>
                   named w libs u2 (lk_cps lk 1) (cr_identity c) (cr_permit c) i ia"
  proof (cases "cr_permit c")
    case None
    then show ?thesis using x(9) by (auto simp: assignment_def split: option.splits)
  next
    case (Some s)
    then obtain i where i: "parent = Some i" using x(8) by auto
    then obtain ia where "identity = Some ia"
      using x(9) Some by (auto simp: assignment_def and_then_Ok map_ok_is_Ok split: if_splits)
    then show ?thesis using Some i x(9) by (simp add: assignment_named)
  qed
  with tx show ?thesis using x m p by (auto intro!: requested.create)
qed

lemma create_obeys:
  "obeys True (ec_wait (ct_cfg ctx)) (allowed w libs ctx (CmdCreate c)) (node_create w libs ctx c)"
  unfolding node_create_def by (rule obeys_bind_result) (auto dest!: create_plan_Ok intro!: obeys_write)

lemma dispatch_obeys:
  assumes "cps_dispatch fuel env ctx command = Some m"
  shows "obeys (must_write command) (ec_wait (ct_cfg ctx)) (allowed (en_world env) (en_libs env) ctx command) m"
proof (cases command)
  case (CmdTree te)
  then show ?thesis
    using assms by (auto simp: cps_dispatch_def Let_def sent_seq intro!: obeys_seq [OF obeys_silent] dest: sent_tree
        split: Option.bind_splits)
next
  case (CmdMeta c)
  then show ?thesis
    using assms by (cases c) (auto simp: cps_dispatch_def Let_def sent_seq field_run_def intro!: obeys_seq obeys_silent field_obeys)
next
  case (CmdPayload c)
  then show ?thesis
    using assms by (cases c) (auto simp: cps_dispatch_def Let_def sent_seq field_run_def intro!: obeys_seq obeys_silent field_obeys)
next
  case (CmdIdentity c)
  then show ?thesis
    using assms by (cases c) (auto simp: cps_dispatch_def Let_def sent_seq identity_run_def intro!: obeys_seq obeys_silent identity_obeys)
next
  case (CmdScope c)
  then show ?thesis
    using assms by (cases c) (auto simp: cps_dispatch_def Let_def sent_seq scope_run_def intro!: obeys_seq obeys_silent scope_obeys)
next
  case (CmdAccess c)
  then show ?thesis
    using assms by (cases c) (auto simp: cps_dispatch_def Let_def sent_seq access_run_def intro!: obeys_seq obeys_silent access_obeys)
qed (use assms in \<open>auto simp: cps_dispatch_def Let_def sent_seq intro!: obeys_seq obeys_silent create_obeys delete_obeys\<close>)


section \<open>Panics and exit codes\<close>

text \<open>A command panics only on a standard output that cannot be written.\<close>

definition tidy :: "cps_world \<Rightarrow> 'x cps_io \<Rightarrow> bool" where
  "tidy w m \<longleftrightarrow> (snd m = None \<longrightarrow> cw_stdout w \<noteq> None)"

lemma tidy_bind:
  assumes "tidy w m" and "\<And>x. snd m = Some (Ok x) \<Longrightarrow> tidy w (f x)"
  shows "tidy w (cmd_bind m f)"
  using assms by (auto simp: tidy_def cmd_bind_def split: option.splits sum.splits)

lemma tidy_result: "tidy w (of_result r)"
  by (simp add: tidy_def)

lemma tidy_bind_result: "(\<And>x. r = Ok x \<Longrightarrow> tidy w (f x)) \<Longrightarrow> tidy w (cmd_bind (of_result r) f)"
  by (rule tidy_bind) (simp_all add: tidy_result)

lemma tidy_seq: "tidy w m \<Longrightarrow> tidy w n \<Longrightarrow> tidy w (cmd_seq m n)"
  unfolding cmd_seq_def by (rule tidy_bind)

lemma tidy_basic [simp]:
  "tidy w finish" "tidy w (println_cps w s)" "tidy w (write_raw w b)" "tidy w (out_result w libs ctx h j)"
  "tidy w (ctx_done w libs ctx r h e)" "tidy w (mutate w libs ctx cx tx key report)"
proof -
  show out: "tidy w finish" "tidy w (println_cps w s)" "tidy w (write_raw w b)" "tidy w (out_result w libs ctx h j)" for s b h j
    by (auto simp: tidy_def finish_def println_cps_def write_raw_def out_result_def of_result_def split: list.splits option.splits)
  show finished: "tidy w (ctx_done w libs ctx r h e)" for r h e
    unfolding ctx_done_def by (rule out)
  show "tidy w (mutate w libs ctx cx tx key report)"
    unfolding mutate_def by (rule tidy_bind) (simp_all add: finished, simp add: tidy_def ctx_submit_effects)
qed

lemma tidy_emit [simp]: "tidy w (field_emit w libs ctx dec i c)"
  unfolding field_emit_def by (rule tidy_bind_result) simp

lemma tidy_watch_loop: "tidy w (watch_loop w libs ctx dec i field interrupt bs)"
proof (induction w libs ctx dec i field interrupt bs rule: watch_loop.induct)
  case (1 w libs ctx dec i field interrupt bs)
  then show ?case
    by (subst watch_loop.simps) (auto simp: tidy_result split: option.splits sum.splits prod.splits intro!: tidy_seq)
qed

lemma tidy_field: "tidy w (field_run w libs ctx field c)"
  by (cases c)
    (auto simp: field_run_def field_get_def field_set_def field_clear_def field_watch_def tidy_watch_loop clear_total
      intro!: tidy_bind_result split: option.splits Field.splits)

lemma tidy_access: "tidy w (access_run w libs ctx c)"
  by (cases c)
    (auto simp: access_run_def access_check_def access_grant_def access_revoke_def tidy_result
      intro!: tidy_bind_result tidy_seq)

lemma assignment_given: "assignment w libs used cx account permit (Some i) = Ok None \<longleftrightarrow> account = None \<and> permit = None"
  by (auto simp: assignment_def and_then_Ok map_ok_is_Ok split: option.splits if_splits)

lemma tidy_identity: "well_parsed (CmdIdentity c) \<Longrightarrow> tidy w (identity_run w libs ctx c)"
  by (cases c)
    (auto simp: identity_run_def identity_get_def identity_set_def identity_clear_def identity_generate_def
      identity_inspect_def identity_permit_def tidy_result Let_def and_then_Ok map_ok_is_Ok assignment_given
      intro!: tidy_bind_result tidy_bind split: option.splits prod.splits)

lemma tidy_scope: "tidy w (scope_run w libs ctx c)"
  by (cases c)
    (auto simp: scope_run_def scope_resolve_def scope_create_def scope_show_def Let_def intro!: tidy_bind_result tidy_bind,
     auto simp: tidy_def split: prod.splits, metis ctx_submit_effects(3) snd_conv)

lemma tidy_node: "tidy w (node_create w libs ctx c)" "tidy w (node_delete w libs ctx t yes)"
  unfolding node_create_def node_delete_def by (auto intro!: tidy_bind_result)

lemma tidy_nav:
  "tidy w (nav_show w libs ctx sh)" "tidy w (nav_parent w libs ctx na)" "tidy w (nav_children w libs ctx na)"
  "tidy w (profile_cmd w libs ctx pc)" "nav_tree fuel w libs ctx te = Some m \<Longrightarrow> tidy w m"
  unfolding nav_show_def nav_parent_def nav_children_def profile_cmd_def nav_tree_def
  by (auto simp: Let_def tidy_result intro!: tidy_bind_result split: list.splits sum.splits)

lemma dispatch_tidy:
  assumes "cps_dispatch fuel env ctx command = Some m" and "well_parsed command"
  shows "tidy (en_world env) m"
  using assms
  by (cases command)
    (auto simp: cps_dispatch_def Let_def tidy_field tidy_access tidy_identity tidy_scope tidy_node tidy_nav tidy_result
      status_run_def intro!: tidy_seq split: Option.bind_splits)

lemma plain_code: "snd (cmd_seq m (of_result (Ok 0))) = Some (Ok (code :: nat)) \<Longrightarrow> code = 0"
  by (auto simp: cmd_seq_def cmd_bind_def of_result_def split: option.splits sum.splits)

lemma out_result_Ok: "h \<noteq> [] \<Longrightarrow> snd (out_result w libs ctx h j) = Some (Ok u) \<longleftrightarrow> cw_stdout w = None"
  by (auto simp: out_result_def result_text_def println_cps_def split: option.splits)

lemma access_check_Ok:
  "snd (access_check w libs ctx a) = Some (Ok code) \<longleftrightarrow>
   (\<exists>lk at i answer. ctx_cps w ctx = Ok lk \<and> ctx_reader lk (ck_read a) = Ok at \<and>
      target_node_id libs at (ck_target a) = Ok i \<and>
      has_capability at i (ck_account a) (capability_of (ck_capability a)) = Ok answer \<and>
      code = (if answer then 0 else 1) \<and> (ck_quiet a \<or> cw_stdout w = None))"
proof -
  have print: "snd (if ck_quiet a then finish else out_result w libs ctx (if b then ''allowed'' else ''denied'') j) = Some (Ok u)
      \<longleftrightarrow> ck_quiet a \<or> cw_stdout w = None" for b j u
    by (simp add: out_result_Ok finish_def)
  show ?thesis
    unfolding access_check_def cmd_seq_def cmd_bind_Ok split_paired_Ex prod.case print
    by (auto simp: and_then_Ok map_ok_is_Ok lift_cps_Ok)
qed

lemma with_context_Ok: "with_context c r = Ok x \<longleftrightarrow> r = Ok x"
  by (cases r) (auto simp: with_context_def)

lemma status_live_Ok:
  "\<not> isl (status_live rpc timed_out url) \<longleftrightarrow> \<not> timed_out \<and> live_check_passes rpc url"
proof -
  have number: "status_block_number s = Ok n \<longleftrightarrow> parse_hex_u64 (trim_0x s) = Some n" for s n
    by (auto simp: status_block_number_def split: option.splits)
  have bind: "\<not> isl (and_then r f) \<longleftrightarrow> (\<exists>x. r = Ok x \<and> \<not> isl (f x))" for r :: "any_error + 'x" and f :: "'x \<Rightarrow> any_error + 'y"
    by (cases r) auto
  have "\<not> isl (status_query rpc url) \<longleftrightarrow> live_check_passes rpc url"
    unfolding status_query_def live_check_passes_def Let_def bind
    by (simp add: with_context_Ok rpc_result_def map_err_is_Ok number)
  then show ?thesis by (simp add: status_live_def)
qed

lemma status_run_Ok:
  "snd (status_run w libs rpc timed_out ctx) = Some (Ok code) \<longleftrightarrow>
   cw_stdout w = None \<and> code = (if timed_out \<or> \<not> live_check_passes rpc (ec_url (ct_cfg ctx)) then 2 else 0)"
proof -
  have shows_text: "status_human cfg live \<noteq> []" for cfg live
    by (cases live) (simp_all add: status_human_def Let_def wide_fields_def)
  show ?thesis
    using status_live_Ok [of rpc timed_out "ec_url (ct_cfg ctx)"]
    by (auto simp: status_run_def Let_def cmd_seq_def cmd_bind_Ok out_result_Ok [OF shows_text])
qed

text \<open>A code other than zero is an answer of \<open>access check\<close> or \<open>status\<close>.\<close>

lemma dispatch_code:
  assumes "cps_dispatch fuel env ctx command = Some m" and "snd m = Some (Ok code)"
  shows "code = 0 \<or> code = 2 \<and> command = CmdStatus \<or>
    (\<exists>a. code = 1 \<and> command = CmdAccess (AccessCheck a) \<and> m = access_check (en_world env) (en_libs env) ctx a)"
proof (cases command)
  case (CmdAccess c)
  then show ?thesis
    using assms
    by (cases c) (auto simp: cps_dispatch_def Let_def access_run_def access_check_Ok split: if_splits dest: plain_code)
next
  case CmdStatus
  then show ?thesis
    using assms by (auto simp: cps_dispatch_def Let_def status_run_def cmd_seq_def cmd_bind_Ok split: if_splits)
qed (use assms in \<open>auto simp: cps_dispatch_def Let_def dest: plain_code split: Option.bind_splits\<close>)

section \<open>Properties\<close>

text \<open>
  C10. Commands do what they say. Whatever the chain answers, a \<open>cps\<close> command sends at most one call, and only the
  one that it requests for the node its target resolves to, within the pallet's limits and signed by the key of
  \<open>--suri\<close>; reading commands send none. A write reports success only after that call was accepted, included as
  the wait policy asks and executed.
\<close>

theorem cps_writes_as_requested:
  assumes "cps_run fuel env settings suri command = Some m"
  shows "sent_calls (fst m) = [] \<and> \<not> (must_write command \<and> (\<exists>code. snd m = Some (Ok code))) \<or>
    (\<exists>cfg lk s key n call.
       resolve_from_env (en_platform env) (en_files env) (en_vars env) settings = Ok cfg \<and>
       cw_connect (en_world env) (ec_url (rv_effective cfg)) = Ok lk \<and>
       suri = Some s \<and> cl_pairs (en_libs env) Sr25519 s = Ok key \<and>
       sent_calls (fst m) = [(ss_public key, call)] \<and> call_within call \<and>
       requested (en_world env) (en_libs env) \<lparr>ct_cfg = rv_effective cfg, ct_file = rv_file cfg, ct_suri = suri\<rparr> lk command call \<and>
       ((\<exists>code. snd m = Some (Ok code)) \<longrightarrow> confirmed (ec_wait (rv_effective cfg)) (lk_cps lk n) call))"
proof (cases "resolve_from_env (en_platform env) (en_files env) (en_vars env) settings")
  case (Inl e)
  then show ?thesis using assms by (auto simp: cps_run_def of_result_def)
next
  case (Inr cfg)
  let ?ctx = "\<lparr>ct_cfg = rv_effective cfg, ct_file = rv_file cfg, ct_suri = suri\<rparr>"
  have m: "cps_dispatch fuel env ?ctx command = Some m" using assms Inr by (simp add: cps_run_def)
  have signer: "\<exists>s. suri = Some s \<and> cl_pairs (en_libs env) Sr25519 s = Ok key" if "ctx_signer (en_libs env) ?ctx = Ok key" for key
    using that by (auto simp: ctx_signer_def lift_cps_Ok signer_from_suri_def map_err_is_Ok split: option.splits)
  have link: "ctx_cps (en_world env) ?ctx = Ok lk \<longleftrightarrow> cw_connect (en_world env) (ec_url (rv_effective cfg)) = Ok lk" for lk
    by (simp add: ctx_cps_def lift_cps_Ok map_err_is_Ok)
  show ?thesis
    using dispatch_obeys [OF m] Inr unfolding obeys_def allowed_def link by (auto dest!: signer)
qed

text \<open>
  C11. Exit codes. A \<open>cps\<close> command exits with 0; with 1 exactly for \<open>access check\<close> on a capability that the account
  does not hold; with 2 exactly for an error, which it reports, or when \<open>status\<close> ran and its live check failed (it
  timed out, the node could not be reached, or one of the requests that count had no good answer); only a
  standard output that cannot be written makes it panic.
\<close>

theorem cps_exit_codes:
  assumes "cps_main fuel env settings suri command = Some (os, code, message)" and "well_parsed command"
  shows "(code \<in> {0, 1, 2} \<or> code = 101 \<and> cw_stdout (en_world env) \<noteq> None) \<and>
    (code = 1 \<longleftrightarrow>
       (\<exists>a cfg lk at i. command = CmdAccess (AccessCheck a) \<and>
          resolve_from_env (en_platform env) (en_files env) (en_vars env) settings = Ok cfg \<and>
          cw_connect (en_world env) (ec_url (rv_effective cfg)) = Ok lk \<and> ctx_reader lk (ck_read a) = Ok at \<and>
          target_node_id (en_libs env) at (ck_target a) = Ok i \<and>
          has_capability at i (ck_account a) (capability_of (ck_capability a)) = Ok False \<and>
          (ck_quiet a \<or> cw_stdout (en_world env) = None))) \<and>
    (code = 2 \<longleftrightarrow> message \<noteq> None \<or>
       (\<exists>cfg. command = CmdStatus \<and>
          resolve_from_env (en_platform env) (en_files env) (en_vars env) settings = Ok cfg \<and>
          cw_stdout (en_world env) = None \<and>
          (en_timed_out env \<or> \<not> live_check_passes (en_rpc env) (ec_url (rv_effective cfg)))))"
proof -
  obtain m where run: "cps_run fuel env settings suri command = Some m" and exit: "cps_exit m = (os, code, message)"
    using assms(1) by (auto simp: cps_main_def)
  show ?thesis
  proof (cases "resolve_from_env (en_platform env) (en_files env) (en_vars env) settings")
    case (Inl e)
    then show ?thesis using run exit by (auto simp: cps_run_def cps_exit_def of_result_def)
  next
    case (Inr cfg)
    let ?ctx = "\<lparr>ct_cfg = rv_effective cfg, ct_file = rv_file cfg, ct_suri = suri\<rparr>"
    have m: "cps_dispatch fuel env ?ctx command = Some m" using run Inr by (simp add: cps_run_def)
    have check: "m = access_check (en_world env) (en_libs env) ?ctx a" if "command = CmdAccess (AccessCheck a)" for a
      using m that by (simp add: cps_dispatch_def access_run_def Let_def)
    have link: "ctx_cps (en_world env) ?ctx = Ok lk \<longleftrightarrow> cw_connect (en_world env) (ec_url (rv_effective cfg)) = Ok lk" for lk
      by (simp add: ctx_cps_def lift_cps_Ok map_err_is_Ok)
    have one: "snd m = Some (Ok 1) \<longleftrightarrow>
       (\<exists>a lk at i. command = CmdAccess (AccessCheck a) \<and>
          cw_connect (en_world env) (ec_url (rv_effective cfg)) = Ok lk \<and> ctx_reader lk (ck_read a) = Ok at \<and>
          target_node_id (en_libs env) at (ck_target a) = Ok i \<and>
          has_capability at i (ck_account a) (capability_of (ck_capability a)) = Ok False \<and>
          (ck_quiet a \<or> cw_stdout (en_world env) = None))" (is "?L \<longleftrightarrow> ?R")
    proof
      assume ?L
      then show ?R using dispatch_code [OF m, of 1] by (auto simp: access_check_Ok link split: if_splits)
    next
      assume ?R
      then show ?L using check by (auto simp: access_check_Ok link)
    qed
    have status: "m = status_run (en_world env) (en_libs env) (en_rpc env) (en_timed_out env) ?ctx" if "command = CmdStatus"
      using m that by (simp add: cps_dispatch_def Let_def)
    have two: "snd m = Some (Ok 2) \<longleftrightarrow> command = CmdStatus \<and> cw_stdout (en_world env) = None \<and>
        (en_timed_out env \<or> \<not> live_check_passes (en_rpc env) (ec_url (rv_effective cfg)))"
      using dispatch_code [OF m, of 2] status status_run_Ok [of "en_world env" "en_libs env" "en_rpc env" "en_timed_out env" ?ctx 2]
      by (auto split: if_splits)
    have codes: "c \<in> {0, 1, 2}" if "snd m = Some (Ok c)" for c using dispatch_code [OF m that] by auto
    have panic: "cw_stdout (en_world env) \<noteq> None" if "snd m = None"
      using dispatch_tidy [OF m assms(2)] that by (simp add: tidy_def)
    show ?thesis
    proof (cases "snd m")
      case None
      then show ?thesis using exit panic one Inr by (auto simp: cps_exit_def)
    next
      case (Some r)
      then show ?thesis using exit codes one two Inr by (cases r) (auto simp: cps_exit_def)
    qed
  qed
qed

end
