(* ===== verification/CpsPipelines.thy ===== *)
theory CpsPipelines
  imports CpsSafety
begin

text \<open>
  Commands of \<open>cps\<close> that work together: data that \<open>set\<close> stores and \<open>get\<close> reads, permits that \<open>identity permit\<close>
  prints and \<open>identity set --permit -\<close> uses, and the subtree that \<open>tree\<close> shows.
\<close>

section \<open>Documented behaviour of the libraries\<close>

text \<open>Two secrets under one scheme: the text \<open>who\<close> names the receiver's public key, and both derive the same secret.\<close>

definition paired :: "('sr, 'ed, 'ec) cps_libs \<Rightarrow> Scheme \<Rightarrow> string \<Rightarrow> string \<Rightarrow> string \<Rightarrow> bool" where
  "paired libs scheme sender receiver who \<longleftrightarrow>
     (\<exists>a b. cl_pairs libs scheme sender = Ok a \<and> cl_pairs libs scheme receiver = Ok b \<and>
        parse_account (cl_ss58 libs) (cl_unhex libs) who = Ok (ss_public b) \<and> length (ss_public a) = 32 \<and>
        ss_derive a (ss_public b) = ss_derive b (ss_public a))"

text \<open>It is what the key agreement gives.\<close>

lemma signers_paired:
  assumes "curve_ok cv (scheme_scalar scheme sha512) public" and "length (public a) = 32"
    and "cl_pairs libs scheme sa = Ok (signer scheme sha512 cv public a)"
    and "cl_pairs libs scheme sb = Ok (signer scheme sha512 cv public b)"
    and "parse_account (cl_ss58 libs) (cl_unhex libs) who = Ok (public b)"
  shows "paired libs scheme sa sb who"
proof -
  obtain k where "ss_derive (signer scheme sha512 cv public a) (public b) = Ok k"
    "ss_derive (signer scheme sha512 cv public b) (public a) = Ok k"
    using signer_agree [OF assms(1)] by blast
  then show ?thesis using assms(2-) by (simp add: paired_def) (simp add: signer_def)
qed

text \<open>JSON text is UTF-8 and reads back, pretty or compact, with a line feed after it.\<close>

definition json_text_ok :: "('sr, 'ed, 'ec) cps_libs \<Rightarrow> bool" where
  "json_text_ok libs \<longleftrightarrow>
     (\<forall>repr v. cl_value libs (cl_render libs repr) = Ok v \<longrightarrow>
        (\<forall>s\<in>{cl_pretty libs v, cl_compact libs v}.
           s \<noteq> [] \<and> valid_utf8 (as_bytes (s @ [line_feed])) \<and> cl_parse libs (s @ [line_feed]) = Ok repr))"

section \<open>Data\<close>

lemma encrypt_decrypt:
  assumes "aead_ok ops" and "ss_derive a (ss_public b) = ss_derive b (ss_public a)"
    and "length nonce = nonce_size algorithm" and "encrypt ops nonce a plaintext (ss_public b) algorithm = Ok message"
  shows "decrypt ops b message None = Ok plaintext \<and> message_from message = ss_public a"
proof -
  obtain k key ct where k: "ss_derive a (ss_public b) = Ok k" "derive_key ops algorithm k = Ok key"
    "co_seal ops algorithm key nonce plaintext = Ok ct" "message = EncV1 algorithm (ss_public a) nonce ct"
    using assms(4) by (auto simp: encrypt_def map_err_is_Ok split: sum.splits)
  have "co_unseal ops algorithm key nonce ct = Ok plaintext" using assms(1) k(3) unfolding aead_ok_def by blast
  moreover have "ss_derive b (ss_public a) = Ok k" using assms(2) k(1) by simp
  ultimately show ?thesis using assms(3) k by simp
qed

lemma seal_open:
  assumes "aead_ok (cl_cipher libs)" and "vec_ok (cl_vec_enc libs) (cl_vec_dec libs)"
    and "\<forall>alg. length (cl_nonce libs n alg) = nonce_size alg"
    and "paired libs (ea_scheme enc) sender receiver who" and "ea_receiver_public enc = Some who"
    and "da_decrypt dec" and "da_scheme dec = ea_scheme enc"
    and "seal libs n enc (Some sender) data = Ok b"
  shows "open_data libs dec (Some receiver) b = Ok data"
proof -
  obtain ka kb where keys: "cl_pairs libs (ea_scheme enc) sender = Ok ka" "cl_pairs libs (ea_scheme enc) receiver = Ok kb"
    "parse_account (cl_ss58 libs) (cl_unhex libs) who = Ok (ss_public kb)" "length (ss_public ka) = 32"
    "ss_derive ka (ss_public kb) = ss_derive kb (ss_public ka)"
    using assms(4) unfolding paired_def by blast
  obtain alg message where m: "encrypt (cl_cipher libs) (cl_nonce libs n alg) ka data (ss_public kb) alg = Ok message"
    "b = scale_encode (cl_vec_enc libs) message"
    using assms(5,8) keys(1,3)
    by (auto simp: seal_def and_then_Ok map_ok_is_Ok map_err_is_Ok keypair_def signer_from_suri_def lift_cps_Ok)
  have d: "decrypt (cl_cipher libs) kb message None = Ok data" "message_from message = ss_public ka"
    using encrypt_decrypt [OF assms(1) keys(5) _ m(1)] assms(3) by auto
  have "scale_decode_rest (cl_vec_dec libs) b = Some (message, [])"
    using scale_decode_rest_encode [OF assms(2), of message "[]"] d(2) keys(4) m(2) by simp
  then show ?thesis
    using assms(6,7) d(1) keys(2) by (simp add: open_data_def keypair_def signer_from_suri_def)
qed

lemma field_set_call:
  assumes "sent_calls (fst (field_set w libs ctx field args)) = [(k, call)]" and "data_read w (fs_input args) = Ok d"
  shows "\<exists>i b. seal libs 0 (fs_encryption args) (ct_suri ctx) d = Ok b \<and>
    call = (case field of FieldMeta \<Rightarrow> CallSetMeta i (Some b) | FieldPayload \<Rightarrow> CallSetPayload i (Some b))"
proof -
  obtain b i tx key and lk :: link where *: "seal libs 0 (fs_encryption args) (ct_suri ctx) d = Ok b" "set_field field i b = Ok tx"
    "field_set w libs ctx field args =
       mutate w libs ctx (lk_cps lk 1) tx key (\<lambda>_.
         (''Node '' @ show_node i @ '': '' @ field_name field @ '' set ('' @ show_nat (length b) @ '' bytes)'',
          [node_json i, (''bytes'', JNum (length b))]))"
  proof (cases "and_then (data_read w (fs_input args)) (\<lambda>data.
          and_then (seal libs 0 (fs_encryption args) (ct_suri ctx) data) (\<lambda>bytes.
          and_then (write_target w libs ctx (fs_target args)) (\<lambda>(lk, key, i).
            map_ok (\<lambda>tx. (bytes, lk, key, i, tx)) (lift_cps (set_field field i bytes)))))")
    case (Inl e)
    then show ?thesis using assms(1) by (simp add: field_set_def)
  next
    case (Inr x)
    obtain b lk key i tx where x: "x = (b, lk, key, i, tx)" by (cases x)
    have "seal libs 0 (fs_encryption args) (ct_suri ctx) d = Ok b" "set_field field i b = Ok tx"
      using Inr assms(2) by (auto simp: x and_then_Ok map_ok_is_Ok lift_cps_Ok)
    then show ?thesis by (rule that [of b i tx lk key]) (simp add: field_set_def Inr x)
  qed
  have "sent_calls (fst (mutate w libs ctx cx tx key rep)) \<in> {[], [(ss_public key, tx_call tx)]}" for cx rep
    using ctx_submit_effects(1) [of ctx cx tx key]
    by (auto simp: mutate_def cmd_bind_def split: option.splits sum.splits)
  then have "call = tx_call tx" using assms(1) *(3) by (metis insertE list.inject not_Cons_self2 prod.inject singletonD)
  then show ?thesis using *(1,2) set_field_tx(1,2) by (cases field) auto
qed

text \<open>
  C12. What \<open>cps meta set\<close> or \<open>payload set\<close> stores, \<open>get --raw\<close> gives back byte for byte: when the node holds the data of
  the call that was sent, as plain data without encryption, and with \<open>--receiver-public\<close> through \<open>get --decrypt\<close>
  with the receiver's key, under either scheme and every cipher.
\<close>

theorem field_set_then_get:
  assumes "aead_ok (cl_cipher libs)" and "vec_ok (cl_vec_enc libs) (cl_vec_dec libs)"
    and "\<forall>alg. length (cl_nonce libs 0 alg) = nonce_size alg"
    and "data_read w1 (fs_input s) = Ok d"
    and "sent_calls (fst (field_set w1 libs ctx1 field s)) = [(k, call)]"
    and "call \<in> {CallSetMeta i (Some stored), CallSetPayload i (Some stored)}"
    and "ctx_cps w2 ctx2 = Ok lk" and "ctx_reader lk (ga_read g) = Ok at" and "target_node_id libs at (ga_target g) = Ok i"
    and "stored_field at i field = Ok (Some stored)"
    and "ga_raw g" and "cw_stdout w2 = None"
    and "ea_receiver_public (fs_encryption s) = None \<and> \<not> da_decrypt (ga_decrypt g) \<or>
      (\<exists>who sender receiver. ea_receiver_public (fs_encryption s) = Some who \<and>
         ct_suri ctx1 = Some sender \<and> ct_suri ctx2 = Some receiver \<and>
         paired libs (ea_scheme (fs_encryption s)) sender receiver who \<and>
         da_decrypt (ga_decrypt g) \<and> da_scheme (ga_decrypt g) = ea_scheme (fs_encryption s))"
  shows "field_get w2 libs ctx2 field g = ([RawOut d], Some (Ok ()))"
proof -
  have b: "seal libs 0 (fs_encryption s) (ct_suri ctx1) d = Ok stored"
    using field_set_call [OF assms(5,4)] assms(6) by (cases field) auto
  have "open_data libs (ga_decrypt g) (ct_suri ctx2) stored = Ok d"
    using assms(13)
  proof
    assume *: "ea_receiver_public (fs_encryption s) = None \<and> \<not> da_decrypt (ga_decrypt g)"
    with b show ?thesis by (simp add: seal_def open_data_def)
  next
    assume "\<exists>who sender receiver. ea_receiver_public (fs_encryption s) = Some who \<and>
         ct_suri ctx1 = Some sender \<and> ct_suri ctx2 = Some receiver \<and>
         paired libs (ea_scheme (fs_encryption s)) sender receiver who \<and>
         da_decrypt (ga_decrypt g) \<and> da_scheme (ga_decrypt g) = ea_scheme (fs_encryption s)"
    with b show ?thesis using seal_open [OF assms(1-3)] by auto
  qed
  then show ?thesis using assms(7-12) by (simp add: field_get_def opt_map_def write_raw_def)
qed


section \<open>Permits\<close>

lemma from_json_signed:
  assumes "sig_ok ops" and "hex_ok hex_enc hex_dec" and "ss58_ok show_account ss58" and "length (ip_genesis_hash p) = 32"
    and "parse t = Ok \<lparr>rp_version = PERMIT_ARTIFACT_VERSION, rp_identity = show_account (key_account_id ops key),
      rp_scheme = signature_scheme (key_sign ops key (signing_bytes compact p)),
      rp_genesis_hash = ''0x'' @ hex_enc (ip_genesis_hash p), rp_scope = ip_scope p, rp_valid_until = ip_valid_until p,
      rp_signature = ''0x'' @ hex_enc (signature_to_bytes (key_sign ops key (signing_bytes compact p)))\<rparr>"
  shows "from_json parse hex_dec ss58 t = Ok (sign_permit compact ops key p)"
  using assms signature_roundtrip [OF assms(1)]
  by (simp add: from_json_def hex_ok_def ss58_ok_def strip_prefix_0x_def sign_permit_def)

lemma printed_result:
  "fst (out_result w libs ctx h j) = [Printed s] \<Longrightarrow> s \<in> {h, cl_compact libs j}"
  by (auto simp: out_result_def result_text_def println_cps_def finish_def of_result_def
      split: if_splits option.splits)

text \<open>
  C13. Permits work as a pipeline: what \<open>cps identity permit\<close> prints for a node, in either output form, is what \<open>cps
  identity set --permit -\<close> takes. On the same chain and for a node in the same scope it sends exactly the call that
  binds the account of the signing key with this permit as long as the permit has not expired, and nothing
  afterwards.
\<close>

theorem permit_then_set:
  assumes "sig_ok (cl_sig libs)" and "hex_ok (cl_hex libs) (cl_unhex libs)" and "ss58_ok (cl_show_account libs) (cl_ss58 libs)"
    and "json_text_ok libs"
    and "identity_permit w1 libs ctx1 p = ([Printed s], Some (Ok ()))" and "\<not> pm_unsigned p" and "pm_key p = Some device"
    and "permit_payload w1 libs ctx1 p = Ok payload" and "length (ip_genesis_hash payload) = 32"
    and "cw_stdin w2 = Ok (as_bytes (s @ [line_feed]))" and "is_permit a = Some ''-''" and "is_account a = None"
    and "write_target w2 libs ctx2 (is_target a) = Ok (lk, key, i)"
    and "cx_genesis_hash (lk_cps lk 1) = ip_genesis_hash payload" and "cps_finalized (lk_cps lk 1) = Ok at"
    and "resolve_scope at i = Ok r" and "rs_id r = ip_scope payload"
  shows "\<exists>k. identity_key libs (pm_scheme p) device = Ok k \<and>
    sent_calls (fst (identity_set w2 libs ctx2 a)) =
      (if block_number_u32 at \<le> ip_valid_until payload
       then [(ss_public key, CallSetIdentity i
               \<lparr>ia_account = key_account_id (cl_sig libs) k,
                ia_permit = Some \<lparr>pt_valid_until = ip_valid_until payload,
                                   pt_signature = key_sign (cl_sig libs) k (signing_bytes (cl_len_enc libs) payload)\<rparr>\<rparr>)]
       else [])"
proof -
  obtain k v where k: "identity_key libs (pm_scheme p) device = Ok k"
    and v: "cl_value libs (to_json (cl_render libs) (cl_hex libs) (cl_show_account libs)
              (sign_permit (cl_len_enc libs) (cl_sig libs) k payload)) = Ok v"
    and out: "fst (out_result w1 libs ctx1 (cl_pretty libs v) v) = [Printed s]"
    using assms(5-8)
    by (cases "identity_key libs (pm_scheme p) device")
      (auto simp: identity_permit_def cmd_bind_def of_result_def map_err_is_Ok and_then_Ok split: sum.splits option.splits)
  let ?artifact = "sign_permit (cl_len_enc libs) (cl_sig libs) k payload"
  have form: "s \<in> {cl_pretty libs v, cl_compact libs v}" using printed_result [OF out] .
  have utf8: "valid_utf8 (as_bytes (s @ [line_feed]))"
    using assms(4) form v unfolding json_text_ok_def to_json_def by blast
  have json: "from_json (cl_parse libs) (cl_unhex libs) (cl_ss58 libs) (s @ [line_feed]) = Ok ?artifact"
    by (rule from_json_signed [OF assms(1-3,9)])
      (use assms(4) form v in \<open>auto simp: json_text_ok_def to_json_def sign_permit_def\<close>)
  have load: "load_permit w2 libs False ''-'' = Ok ?artifact"
    using from_utf8_as_bytes [OF utf8] json assms(10)
    by (simp add: load_permit_def read_stdin_once_def with_context_def del: as_bytes_simps)
  have usable: "usable_permit libs (lk_cps lk 1) ?artifact i \<longleftrightarrow> block_number_u32 at \<le> ip_valid_until payload"
    using sign_permit_verifies [OF assms(1)] assms(14-17) by (simp add: usable_permit_def) (simp add: sign_permit_def)
  let ?call = "CallSetIdentity i (into_assignment ?artifact)"
  have sent: "sent_calls (fst (identity_set w2 libs ctx2 a)) = (if block_number_u32 at \<le> ip_valid_until payload
      then [(ss_public key, ?call)] else [])"
  proof (cases "block_number_u32 at \<le> ip_valid_until payload")
    case True
    then have "check_permit libs (lk_cps lk 1) ?artifact i = Ok ()" using usable by (simp add: check_permit_Ok)
    then have "identity_set w2 libs ctx2 a =
        mutate w2 libs ctx2 (lk_cps lk 2) (set_identity i (into_assignment ?artifact)) key (\<lambda>_.
          (''Node '' @ show_node i @ '': identity set to '' @ cl_show_account libs (ia_account (into_assignment ?artifact)),
           [node_json i, (''identity'', JStr (cl_show_account libs (ia_account (into_assignment ?artifact))))]))"
      using assms(11-13) load by (simp add: identity_set_def assignment_def)
    moreover have "sent_calls (fst (mutate w2 libs ctx2 cx (set_identity i x) key rep)) = [(ss_public key, CallSetIdentity i x)]"
      for cx x rep
      by (auto simp: mutate_def ctx_submit_def submit_def check_precondition_def builders cmd_bind_def of_result_def
          split: sum.splits option.splits)
    ultimately show ?thesis using True by simp
  next
    case False
    then have "\<not> usable_permit libs (lk_cps lk 1) ?artifact i" using usable by simp
    then obtain e where "check_permit libs (lk_cps lk 1) ?artifact i = Err e"
      by (metis check_permit_Ok sum.exhaust)
    then show ?thesis using assms(11-13) load False by (simp add: identity_set_def assignment_def)
  qed
  have "into_assignment ?artifact =
      \<lparr>ia_account = key_account_id (cl_sig libs) k,
       ia_permit = Some \<lparr>pt_valid_until = ip_valid_until payload,
                          pt_signature = key_sign (cl_sig libs) k (signing_bytes (cl_len_enc libs) payload)\<rparr>\<rparr>"
    by (simp add: into_assignment_def sign_permit_def)
  with k sent show ?thesis by auto
qed

section \<open>Subtrees\<close>

definition child :: "('sr, 'ed, 'ec) cps_libs \<Rightarrow> CpsAt \<Rightarrow> (Target \<times> Target) set" where
  "child libs at = {(t, u). \<exists>us. target_children libs at t = Ok us \<and> u \<in> set us}"

text \<open>Levels: \<open>n\<close> is within the depth, and what is left of it there; a target is readable when its children are, or
  when it exists at the last level.\<close>

definition within_depth :: "nat option \<Rightarrow> nat \<Rightarrow> bool" where
  "within_depth depth n = (case depth of None \<Rightarrow> True | Some d \<Rightarrow> n \<le> d)"

definition readable :: "('sr, 'ed, 'ec) cps_libs \<Rightarrow> CpsAt \<Rightarrow> nat option \<Rightarrow> nat \<Rightarrow> Target \<Rightarrow> bool" where
  "readable libs at depth n t =
     (if depth = Some n then \<not> isl (target_node_id libs at t) else \<not> isl (target_children libs at t))"

fun tree_targets :: "Tree \<Rightarrow> Target list" where
  "tree_targets (Tree t ts) = t # concat (map tree_targets ts)"

lemma read_each_Ok: "read_each f xs = Some (Ok ys) \<longleftrightarrow> list_all2 (\<lambda>x y. f x = Some (Ok y)) xs ys"
proof (induction xs arbitrary: ys)
  case (Cons x xs)
  show ?case
    by (cases ys) (auto simp: Cons map_ok_is_Ok split: option.splits sum.splits)
qed auto

lemma read_each_Err: "read_each f xs = Some (Err e) \<Longrightarrow> \<exists>x\<in>set xs. \<exists>e. f x = Some (Err e)"
  by (induction xs) (auto simp: map_ok_is_Err split: option.splits sum.splits)

lemma read_each_Some: "(\<And>x. x \<in> set xs \<Longrightarrow> \<exists>r. f x = Some r) \<Longrightarrow> \<exists>r. read_each f xs = Some r"
proof (induction xs)
  case (Cons x xs)
  then obtain r q where "f x = Some r" "read_each f xs = Some q" by fastforce
  then show ?case by (cases r) auto
qed simp

text \<open>Fuel for every level suffices.\<close>

lemma tree_read_depth: "d < fuel \<Longrightarrow> \<exists>r. tree_read fuel libs at t (Some d) = Some r"
proof (induction fuel arbitrary: t d)
  case (Suc fuel)
  show ?case
  proof (cases "d = 0")
    case False
    have "\<exists>r. read_each (\<lambda>c. tree_read fuel libs at c (Some (d - 1))) ts = Some r" for ts
      by (rule read_each_Some) (use Suc False in auto)
    then show ?thesis using False by (auto split: sum.splits)
  qed simp
qed simp

lemma tree_read_height:
  "(\<And>u. (t, u) \<notin> child libs at ^^ h) \<Longrightarrow> \<exists>r. tree_read h libs at t depth = Some r"
proof (induction h arbitrary: t depth)
  case (Suc h)
  show ?case
  proof (cases "target_children libs at t")
    case (Inr ts)
    have "\<exists>r. tree_read h libs at c (map_option (\<lambda>d. d - 1) depth) = Some r" if "c \<in> set ts" for c
    proof (rule Suc.IH)
      fix u
      have "(t, c) \<in> child libs at" using Inr that by (auto simp: child_def)
      then show "(c, u) \<notin> child libs at ^^ h" using Suc.prems [of u] relpow_Suc_I2 by metis
    qed
    then have "\<exists>r. read_each (\<lambda>c. tree_read h libs at c (map_option (\<lambda>d. d - 1) depth)) ts = Some r"
      by (rule read_each_Some)
    then show ?thesis using Inr by auto
  qed simp
next
  case 0
  then show ?case using relpow_0_I by metis
qed

text \<open>The targets at each level within the depth.\<close>

definition levels :: "('sr, 'ed, 'ec) cps_libs \<Rightarrow> CpsAt \<Rightarrow> nat option \<Rightarrow> Target \<Rightarrow> (nat \<times> Target) set" where
  "levels libs at depth t = {(n, u). within_depth depth n \<and> (t, u) \<in> child libs at ^^ n}"

lemma levels_last: "levels libs at (Some 0) t = {(0, t)}"
  by (auto simp: levels_def within_depth_def)

lemma levels_step:
  assumes "depth \<noteq> Some 0" and "target_children libs at t = Ok ts"
  shows "levels libs at depth t =
    insert (0, t) {(Suc n, u) |n u. \<exists>c\<in>set ts. (n, u) \<in> levels libs at (map_option (\<lambda>d. d - 1) depth) c}"
proof -
  have "within_depth depth (Suc n) \<longleftrightarrow> within_depth (map_option (\<lambda>d. d - 1) depth) n" for n
    using assms(1) by (cases depth) (auto simp: within_depth_def)
  moreover have "(t, u) \<in> child libs at ^^ Suc n \<longleftrightarrow> (\<exists>c\<in>set ts. (c, u) \<in> child libs at ^^ n)" for n u
    using assms(2) by (auto simp: child_def relpow_commute simp del: relpow.simps(2) dest!: relpow_Suc_D2 intro: relpow_Suc_I2)
  moreover have "within_depth depth 0" by (simp add: within_depth_def split: option.split)
  ultimately have "(n, u) \<in> levels libs at depth t \<longleftrightarrow>
      (case n of 0 \<Rightarrow> u = t | Suc m \<Rightarrow> \<exists>c\<in>set ts. (m, u) \<in> levels libs at (map_option (\<lambda>d. d - 1) depth) c)" for n u
    by (cases n) (auto simp: levels_def simp del: relpow.simps(2))
  then show ?thesis by (auto split: nat.splits)
qed

lemma readable_step:
  "depth \<noteq> Some 0 \<Longrightarrow> readable libs at depth (Suc n) u = readable libs at (map_option (\<lambda>d. d - 1) depth) n u"
  by (cases depth) (auto simp: readable_def)

lemma tree_read_Ok:
  "tree_read fuel libs at t depth = Some (Ok tree) \<Longrightarrow>
     tree_target tree = t \<and> set (tree_targets tree) = snd ` levels libs at depth t \<and>
     (\<forall>(n, u)\<in>levels libs at depth t. readable libs at depth n u)"
proof (induction fuel arbitrary: t depth tree)
  case (Suc fuel)
  show ?case
  proof (cases "depth = Some 0")
    case True
    then show ?thesis using Suc.prems by (auto simp: levels_last readable_def map_ok_is_Ok)
  next
    case False
    let ?d = "map_option (\<lambda>d. d - 1) depth"
    from False Suc.prems obtain ts trees where ts: "target_children libs at t = Ok ts" "tree = Tree t trees"
      and trees: "list_all2 (\<lambda>c x. tree_read fuel libs at c ?d = Some (Ok x)) ts trees"
      by (auto simp: map_ok_is_Ok read_each_Ok split: sum.splits)
    have each: "list_all2 (\<lambda>c x. set (tree_targets x) = snd ` levels libs at ?d c \<and>
        (\<forall>(n, u)\<in>levels libs at ?d c. readable libs at ?d n u)) ts trees"
      using trees by (rule list_all2_mono) (use Suc.IH in blast)
    then have "set (concat (map tree_targets trees)) = (\<Union>c\<in>set ts. snd ` levels libs at ?d c)"
      by (induction rule: list_all2_induct) auto
    moreover have "\<forall>c\<in>set ts. \<forall>(n, u)\<in>levels libs at ?d c. readable libs at ?d n u"
      using each by (induction rule: list_all2_induct) auto
    moreover have "readable libs at depth 0 t" using False ts(1) by (simp add: readable_def)
    ultimately show ?thesis
      using ts(2) unfolding levels_step [OF False ts(1)]
      by (auto simp: readable_step [OF False] image_iff) force+
  qed
qed simp

lemma tree_read_Err:
  "tree_read fuel libs at t depth = Some (Err e) \<Longrightarrow> \<exists>(n, u)\<in>levels libs at depth t. \<not> readable libs at depth n u"
proof (induction fuel arbitrary: t depth e)
  case (Suc fuel)
  show ?case
  proof (cases "depth = Some 0")
    case True
    then show ?thesis using Suc.prems by (auto simp: levels_last readable_def map_ok_is_Err)
  next
    case False
    let ?d = "map_option (\<lambda>d. d - 1) depth"
    show ?thesis
    proof (cases "target_children libs at t")
      case (Inl e')
      moreover have "(0, t) \<in> levels libs at depth t" by (simp add: levels_def within_depth_def split: option.split)
      ultimately show ?thesis using False by (force simp: readable_def)
    next
      case (Inr ts)
      then obtain c e' where "c \<in> set ts" "tree_read fuel libs at c ?d = Some (Err e')"
        using Suc.prems False read_each_Err by (fastforce simp: map_ok_is_Err)
      then obtain n u where "(n, u) \<in> levels libs at ?d c" "\<not> readable libs at ?d n u" using Suc.IH by blast
      with \<open>c \<in> set ts\<close> show ?thesis
        unfolding levels_step [OF False Inr] by (intro bexI [of _ "(Suc n, u)"]) (auto simp: readable_step [OF False])
    qed
  qed
qed simp

text \<open>
  C14. \<open>cps tree\<close> shows exactly the targets within the depth: it succeeds when every one of them can be read in the
  projection of the target, never leaving one out, and fails otherwise; with a depth it always ends, and without
  one when no path below the target has as many levels as the fuel.
\<close>

theorem tree_exact:
  "(case tree_read fuel libs at t depth of
      None \<Rightarrow> True
    | Some (Ok tree) \<Rightarrow>
        tree_target tree = t \<and> set (tree_targets tree) = snd ` levels libs at depth t \<and>
        levels libs at depth t \<subseteq> {(n, u). readable libs at depth n u}
    | Some (Err _) \<Rightarrow> \<not> levels libs at depth t \<subseteq> {(n, u). readable libs at depth n u}) \<and>
   ((\<exists>r. tree_read fuel libs at t depth = Some r) \<or>
      (\<exists>u. (t, u) \<in> child libs at ^^ fuel) \<and> depth \<notin> Some ` {..<fuel})"
proof (cases "tree_read fuel libs at t depth")
  case None
  then show ?thesis using tree_read_depth [of _ fuel libs at t] tree_read_height [of t fuel libs at depth] by force
next
  case (Some r)
  then show ?thesis
    using tree_read_Ok [of fuel libs at t depth] tree_read_Err [of fuel libs at t depth]
    by (cases r) (simp_all, blast+)
qed

end
