(* ===== verification/WitnessesCps.thy ===== *)
theory WitnessesCps
  imports WitnessesLibcps CpsPipelines
begin

text \<open>
  Concrete inputs for the theorems on \<open>cps\<close>: the libraries of the client's witnesses, secrets that are their own
  public keys, a JSON text in hexadecimal digits, and a chain with node 5 in scope 7.
\<close>

section \<open>Libraries\<close>

definition json_text0 :: "Repr \<Rightarrow> string" where
  "json_text0 r = CHR ''0'' # CHR ''0'' # hex_enc0 (as_bytes (render0 r))"

definition json_read0 :: "string \<Rightarrow> string + Repr" where
  "json_read0 s = and_then (hex_dec0 (drop 2 (if last s = line_feed then butlast s else s))) (\<lambda>b. parse0 (map (\<lambda>x. char_of (unat x)) b))"

definition json_show0 :: "json \<Rightarrow> string" where
  "json_show0 j = (case j of JStr s \<Rightarrow> s | _ \<Rightarrow> ''{}'')"

definition cps_libs0 :: "(bytes, bytes, unit) cps_libs" where
  "cps_libs0 = \<lparr>cl_ss58 = hex_dec0, cl_show_account = hex_enc0, cl_hex = hex_enc0, cl_unhex = hex_dec0,
     cl_pairs = (\<lambda>scheme suri. Ok (signer Sr25519 sha512_0 curve0 (\<lambda>s. s) (as_bytes suri))), cl_cipher = cipher0,
     cl_nonce = (\<lambda>n alg. replicate (nonce_size alg) 0), cl_vec_enc = vec0, cl_vec_dec = unvec0,
     cl_len_enc = (\<lambda>n. [of_nat (4 * n)]), cl_sig = sigs0, cl_sr = (\<lambda>s. Ok (as_bytes s)), cl_ed = (\<lambda>s. Ok (as_bytes s)),
     cl_ec = (\<lambda>_. Ok ()), cl_fresh = (([], []), ([], []), ((), [])), cl_render = json_text0, cl_parse = json_read0,
     cl_value = (\<lambda>s. Ok (JStr s)), cl_compact = json_show0, cl_pretty = json_show0\<rparr>"

lemma hex_ascii:
  assumes "c \<in> set (hex_enc0 b)"
  shows "(of_char c :: nat) < 128"
proof -
  have digit: "(of_char (hex_digit d) :: nat) < 128" if "d < 16" for d using that by (auto simp: hex_digit_def)
  have "unat x div 16 < 16" for x :: u8
    using unsigned_less [where 'a = nat, of x] by (simp add: less_mult_imp_div_less)
  moreover have "\<exists>x :: u8. c = hex_digit (unat x div 16) \<or> c = hex_digit (unat x mod 16)"
    using assms by (simp add: hex_enc0_def) blast
  ultimately show ?thesis using digit by (metis mod_less_divisor zero_less_numeral)
qed

lemma json_text_ok0: "json_text_ok cps_libs0"
proof -
  have chars: "(of_char c :: nat) < 128" if "c \<in> set (json_text0 r @ [line_feed])" for c r
  proof -
    from that consider "c = CHR ''0''" | "c = line_feed" | "c \<in> set (hex_enc0 (as_bytes (render0 r)))"
      unfolding json_text0_def by fastforce
    then show ?thesis by cases (simp_all add: line_feed_def hex_ascii)
  qed
  have "valid_utf8 (as_bytes (json_text0 r @ [line_feed]))" for r
  proof (rule valid_utf8_ascii, rule ballI)
    fix b assume "b \<in> set (as_bytes (json_text0 r @ [line_feed]))"
    then obtain c where "c \<in> set (json_text0 r @ [line_feed])" and b: "b = word_of_nat (of_char c)"
      unfolding as_bytes_def set_map by blast
    from chars [OF this(1)] b show "unat b < 0x80" by (simp add: unat_of_nat)
  qed
  moreover have "json_read0 (json_text0 r @ [line_feed]) = Ok r" for r
    using hex_ok0 json0 by (simp add: json_read0_def json_text0_def hex_ok_def json_ok_def as_bytes_roundtrip)
  moreover have "json_text0 r \<noteq> []" for r by (simp add: json_text0_def)
  ultimately show ?thesis by (simp add: json_text_ok_def cps_libs0_def json_show0_def del: as_bytes_simps)
qed

lemma cps_libs0_ok:
  "aead_ok (cl_cipher cps_libs0)" "vec_ok (cl_vec_enc cps_libs0) (cl_vec_dec cps_libs0)"
  "\<forall>alg. length (cl_nonce cps_libs0 n alg) = nonce_size alg" "sig_ok (cl_sig cps_libs0)"
  "hex_ok (cl_hex cps_libs0) (cl_unhex cps_libs0)" "ss58_ok (cl_show_account cps_libs0) (cl_ss58 cps_libs0)"
  using cipher0_ok vec0_ok sigs0_ok hex_ok0 ss58_0 by (simp_all add: cps_libs0_def)

section \<open>The chain\<close>

definition at7 :: CpsAt where
  "at7 = at0\<lparr>at_resolve_scope := (\<lambda>_. Ok (Ok \<lparr>rs_id = 7, rs_root = 5, rs_owner = [1], rs_path = [5]\<rparr>)),
             at_has_capability := (\<lambda>_ _ _. Ok (Ok False)), at_payload := (\<lambda>_. Ok (Some [9, 255]))\<rparr>"

definition link0 :: link where
  "link0 = \<lparr>lk_cps = (\<lambda>_. cx0\<lparr>cx_finalized := Ok at7\<rparr>), lk_at = (\<lambda>_. Err ''no''), lk_blocks = Ok []\<rparr>"

definition world0 :: "bytes \<Rightarrow> cps_world" where
  "world0 stdin = \<lparr>cw_stdout = None, cw_stdin = Ok stdin, cw_terminal = False, cw_line = Err ''end'',
                   cw_file = (\<lambda>_. Err ''no''), cw_connect = (\<lambda>_. Ok link0), cw_interrupt = None\<rparr>"

definition effective0 :: EffectiveConfig where
  "effective0 = \<lparr>ec_profile = None, ec_config_path = None, ec_url = DEFAULT_URL, ec_output = Human, ec_wait = WaitFinalized\<rparr>"

definition alice_suri :: string where
  "alice_suri = replicate 32 CHR ''a''"

definition bob_suri :: string where
  "bob_suri = replicate 32 CHR ''b''"

definition ctx0 :: "string \<Rightarrow> Ctx" where
  "ctx0 suri = \<lparr>ct_cfg = effective0, ct_file = default_config_cps, ct_suri = Some suri\<rparr>"

definition run_env0 :: "(bytes, bytes, unit) cps_invocation" where
  "run_env0 = \<lparr>en_platform = OtherOs, en_files = \<lparr>fl_read = (\<lambda>_. FileNotFound ''no''), fl_toml = (\<lambda>_. Err ''toml'')\<rparr>,
           en_vars = (\<lambda>_. None), en_world = world0 [], en_libs = cps_libs0, en_rpc = (\<lambda>_. Err ''refused''),
           en_timed_out = False, en_light = \<lparr>li_start = (\<lambda>_. Ok ()), li_status = Stopped, li_shutdown = Ok ()\<rparr>\<rparr>"

definition settings0 :: CliSettings where
  "settings0 = \<lparr>cs_config = None, cs_profile = None, cs_url = None, cs_output = None, cs_wait = None\<rparr>"

lemma resolved0:
  "resolve_from_env (en_platform run_env0) (en_files run_env0) (en_vars run_env0) settings0 =
     Ok \<lparr>rv_file = default_config_cps, rv_effective = effective0\<rparr>"
proof -
  have url: "validate_url DEFAULT_URL = Ok ()" by code_simp
  show ?thesis
    using url
    by (simp add: resolve_from_env_def resolve_settings_def default_config_path_def run_env0_def settings0_def env_text_def or_else_def
        unwrap_or_def load_def chosen_path_def setting_def env_enum_def default_profile_def default_config_cps_def effective0_def)
qed


section \<open>Runs\<close>

lemma node5: "target_node_id cps_libs0 at7 (TargetNode 5) = Ok 5" "cps_finalized (lk_cps link0 n) = Ok at7"
  "ctx_cps (world0 input) (ctx0 suri) = Ok link0"
  by (simp_all add: target_node_id_def read_info_def at7_def at0_def cps_finalized_def link0_def ctx_cps_def world0_def)

lemma target0: "write_target (world0 input) cps_libs0 (ctx0 suri) (TargetNode 5) =
    Ok (link0, signer Sr25519 sha512_0 curve0 (\<lambda>s. s) (as_bytes suri), 5)"
proof -
  have "ctx_signer cps_libs0 (ctx0 suri) = Ok (signer Sr25519 sha512_0 curve0 (\<lambda>s. s) (as_bytes suri))"
    by (simp add: ctx_signer_def ctx0_def cps_libs0_def signer_from_suri_def)
  then show ?thesis using node5 by (simp add: write_target_def canonical_def)
qed

lemma submit7:
  "tx_precondition tx = None \<Longrightarrow> tx_decode tx = no_result \<Longrightarrow>
   ctx_submit (ctx0 suri) (lk_cps link0 n) tx key =
     ([Sent (ss_public key) (tx_call tx)], Some (Ok \<lparr>tr_extrinsic_hash = [1], tr_block_hash = [2], tr_result = ResUnit\<rparr>))"
  by (simp add: ctx_submit_def submit_def check_precondition_def link0_def cx0_def ctx0_def effective0_def wait_finalized_def
      receipt_def no_result_def)

lemma result0: "out_result (world0 input) libs (ctx0 suri) h j = (if h = [] then finish else ([Printed h], Some (Ok ())))"
  by (simp add: out_result_def result_text_def ctx0_def effective0_def println_cps_def world0_def)

abbreviation cleared0 :: "nat cps_io option" where
  "cleared0 \<equiv> cps_run 0 run_env0 settings0 (Some alice_suri) (CmdPayload (FieldClear (TargetNode 5)))"

lemma cleared0_run:
  "\<exists>m. cleared0 = Some m \<and> sent_calls (fst m) = [(as_bytes alice_suri, CallSetPayload 5 None)] \<and> snd m = Some (Ok 0)"
proof -
  have clear: "clear_payload 5 = Some (new_transaction (CallSetPayload 5 None) no_result)"
    by (simp add: clear_payload_def set_payload_def check_payload_def)
  have "\<exists>h. field_clear (world0 []) cps_libs0 (ctx0 alice_suri) FieldPayload (TargetNode 5) =
      ([Sent (as_bytes alice_suri) (CallSetPayload 5 None), Printed h], Some (Ok ()))"
    using submit7 [of "new_transaction (CallSetPayload 5 None) no_result" alice_suri 1]
    by (simp add: field_clear_def target0 clear mutate_def ctx_done_def result0 new_transaction_def cmd_bind_def signer_def)
  then show ?thesis
    unfolding cps_run_def resolved0
    by (auto simp: cps_dispatch_def field_run_def run_env0_def ctx0_def cmd_seq_def cmd_bind_def of_result_def)
qed

theorem cps_writes_as_requested_witness:
  "\<exists>m cx. cleared0 = Some m \<and> snd m = Some (Ok 0) \<and> sent_calls (fst m) = [(as_bytes alice_suri, CallSetPayload 5 None)] \<and>
     confirmed WaitFinalized cx (CallSetPayload 5 None)"
proof -
  from cleared0_run obtain m where m: "cleared0 = Some m" "snd m = Some (Ok 0)"
    "sent_calls (fst m) = [(as_bytes alice_suri, CallSetPayload 5 None)]" by blast
  from cps_writes_as_requested [OF m(1)] m show ?thesis by (auto simp: resolved0 effective0_def)
qed

definition check0 :: CheckArgs where
  "check0 = \<lparr>ck_target = TargetNode 5, ck_account = [1], ck_capability = ArgWrite, ck_quiet = True, ck_read = None\<rparr>"

theorem cps_exit_codes_witness:
  "cps_main 0 run_env0 settings0 None (CmdAccess (AccessCheck check0)) = Some ([], 1, None) \<and> (1 :: nat) \<in> {0, 1, 2}"
proof -
  have "access_check (world0 []) cps_libs0 \<lparr>ct_cfg = effective0, ct_file = default_config_cps, ct_suri = None\<rparr> check0 = ([], Some (Ok 1))"
    using node5 by (simp add: access_check_def check0_def ctx_cps_def world0_def ctx_reader_def at7_def has_capability_def
        node_view_def finish_def of_result_def cmd_seq_def cmd_bind_def)
  then have main: "cps_main 0 run_env0 settings0 None (CmdAccess (AccessCheck check0)) = Some ([], 1, None)"
    unfolding cps_main_def cps_run_def resolved0 by (simp add: cps_dispatch_def access_run_def run_env0_def cps_exit_def)
  from cps_exit_codes [OF main] main show ?thesis by simp
qed

section \<open>Pipelines\<close>

definition set_args0 :: FieldSetArgs where
  "set_args0 = \<lparr>fs_target = TargetNode 5, fs_input = \<lparr>di_data = Some ''hi'', di_file = None\<rparr>,
     fs_encryption = \<lparr>ea_receiver_public = Some (hex_enc0 (as_bytes bob_suri)), ea_cipher = ''chacha20'', ea_scheme = Sr25519\<rparr>\<rparr>"

definition get_args0 :: GetArgs where
  "get_args0 = \<lparr>ga_target = TargetNode 5, ga_raw = True, ga_hex = False, ga_read = None,
     ga_decrypt = \<lparr>da_decrypt = True, da_scheme = Sr25519\<rparr>\<rparr>"

definition sealed0 :: bytes where
  "sealed0 = projr (seal cps_libs0 0 (fs_encryption set_args0) (Some alice_suri) (as_bytes ''hi''))"

definition world1 :: cps_world where
  "world1 = (world0 [])\<lparr>cw_connect := (\<lambda>_. Ok (link0\<lparr>lk_cps := (\<lambda>_. cx0\<lparr>cx_finalized :=
              Ok (at7\<lparr>at_payload := (\<lambda>_. Ok (Some sealed0))\<rparr>)\<rparr>)\<rparr>))\<rparr>"

lemma paired0: "paired cps_libs0 Sr25519 alice_suri bob_suri (hex_enc0 (as_bytes bob_suri))"
proof (rule signers_paired [OF curve0_ok])
  show "parse_account (cl_ss58 cps_libs0) (cl_unhex cps_libs0) (hex_enc0 (as_bytes bob_suri)) = Ok (as_bytes bob_suri)"
    using hex_ok0 by (simp add: parse_account_def cps_libs0_def hex_ok_def)
qed (simp_all add: cps_libs0_def alice_suri_def as_bytes_def)


lemma sealed0_Ok: "seal cps_libs0 0 (fs_encryption set_args0) (Some alice_suri) (as_bytes ''hi'') = Ok sealed0"
  "length sealed0 \<le> MAX_PAYLOAD_SIZE"
proof -
  let ?key = "signer Sr25519 sha512_0 curve0 (\<lambda>s. s) (as_bytes alice_suri)"
  obtain k where k: "ss_derive ?key (as_bytes bob_suri) = Ok k" "length k \<le> 32"
    by (simp add: signer_def sr_derive_shared_def curve0_def)
  have receiver: "parse_account hex_dec0 hex_dec0 (hex_enc0 (as_bytes bob_suri)) = Ok (as_bytes bob_suri)"
    using hex_ok0 by (simp add: parse_account_def hex_ok_def)
  have cipher: "algorithm_from_str ''chacha20'' = Ok ChaCha20Poly1305" by (simp add: algorithm_from_str_def ascii_lower_def)
  have public: "ss_public ?key = as_bytes alice_suri" by (simp add: signer_def)
  have seal: "seal cps_libs0 0 (fs_encryption set_args0) (Some alice_suri) (as_bytes ''hi'') =
      Ok (scale_encode vec0 (EncV1 ChaCha20Poly1305 (as_bytes alice_suri) (replicate 12 0)
        ((k @ as_bytes ''chacha20poly1305'') @ as_bytes ''hi'')))"
    using k(1) by (simp add: seal_def set_args0_def cps_libs0_def receiver cipher keypair_def signer_from_suri_def encrypt_def
        derive_key_def) (simp add: cipher0_def public)
  then show sealed: "seal cps_libs0 0 (fs_encryption set_args0) (Some alice_suri) (as_bytes ''hi'') = Ok sealed0"
    by (simp add: sealed0_def)
  have vec: "length (vec0 v) = 2 * length v + 1" for v by (induction v) (simp_all add: vec0_def)
  have eq: "sealed0 = scale_encode vec0 (EncV1 ChaCha20Poly1305 (as_bytes alice_suri) (replicate 12 0)
        ((k @ as_bytes ''chacha20poly1305'') @ as_bytes ''hi''))"
    using seal sealed by simp
  have "length sealed0 = 34 + length (vec0 (replicate 12 0)) + length (vec0 ((k @ as_bytes ''chacha20poly1305'') @ as_bytes ''hi''))"
    unfolding eq by (simp add: alice_suri_def)
  then show "length sealed0 \<le> MAX_PAYLOAD_SIZE"
    using k(2) by (simp add: vec MAX_PAYLOAD_SIZE_def)
qed

lemma stored0:
  "sent_calls (fst (field_set (world0 []) cps_libs0 (ctx0 alice_suri) FieldPayload set_args0)) =
     [(as_bytes alice_suri, CallSetPayload 5 (Some sealed0))]"
proof -
  have input: "data_read (world0 []) (fs_input set_args0) = Ok (as_bytes ''hi'')" "fs_target set_args0 = TargetNode 5"
    "ct_suri (ctx0 alice_suri) = Some alice_suri"
    by (simp_all add: data_read_def set_args0_def read_arg_def ctx0_def)
  have tx: "set_field FieldPayload 5 sealed0 = Ok (new_transaction (CallSetPayload 5 (Some sealed0)) no_result)"
    using sealed0_Ok(2) by (simp add: set_field_def set_payload_def check_payload_def)
  show ?thesis
    using submit7 [of "new_transaction (CallSetPayload 5 (Some sealed0)) no_result" alice_suri 1]
    by (simp add: field_set_def input sealed0_Ok(1) target0 tx mutate_def new_transaction_def cmd_bind_def ctx_done_def result0
        signer_def split: option.splits sum.splits)
qed

theorem field_set_then_get_witness:
  "field_get world1 cps_libs0 (ctx0 bob_suri) FieldPayload get_args0 = ([RawOut (as_bytes ''hi'')], Some (Ok ()))"
proof -
  let ?at = "at7\<lparr>at_payload := (\<lambda>_. Ok (Some sealed0))\<rparr>"
  have input: "data_read (world0 []) (fs_input set_args0) = Ok (as_bytes ''hi'')"
    by (simp add: data_read_def set_args0_def read_arg_def)
  have chain: "ctx_cps world1 (ctx0 bob_suri) = Ok (link0\<lparr>lk_cps := (\<lambda>_. cx0\<lparr>cx_finalized := Ok ?at\<rparr>)\<rparr>)"
    "ctx_reader (link0\<lparr>lk_cps := (\<lambda>_. cx0\<lparr>cx_finalized := Ok ?at\<rparr>)\<rparr>) (ga_read get_args0) = Ok ?at"
    "target_node_id cps_libs0 ?at (ga_target get_args0) = Ok 5" "stored_field ?at 5 FieldPayload = Ok (Some sealed0)"
    by (simp_all add: ctx_cps_def world1_def get_args0_def ctx_reader_def cps_finalized_def target_node_id_def read_info_def
        at7_def at0_def stored_field_def read_payload_def)
  have keys: "\<exists>who sender receiver. ea_receiver_public (fs_encryption set_args0) = Some who \<and>
         ct_suri (ctx0 alice_suri) = Some sender \<and> ct_suri (ctx0 bob_suri) = Some receiver \<and>
         paired cps_libs0 (ea_scheme (fs_encryption set_args0)) sender receiver who \<and>
         da_decrypt (ga_decrypt get_args0) \<and> da_scheme (ga_decrypt get_args0) = ea_scheme (fs_encryption set_args0)"
    using paired0 by (simp add: set_args0_def get_args0_def ctx0_def)
  show ?thesis
    by (rule field_set_then_get [OF cps_libs0_ok(1,2,3) input stored0 _ chain])
      (use keys in \<open>simp_all add: get_args0_def world1_def world0_def\<close>)
qed

definition permit_args0 :: PermitArgs where
  "permit_args0 = \<lparr>pm_target = TargetNode 5, pm_key = Some alice_suri, pm_scheme = ArgSr25519, pm_ttl = Some 50,
     pm_valid_until = None, pm_unsigned = False, pm_read = None\<rparr>"

definition id_args0 :: IdentitySetArgs where
  "id_args0 = \<lparr>is_target = TargetNode 5, is_account = None, is_permit = Some ''-''\<rparr>"

definition permit0 :: IdentityPermitPayload where
  "permit0 = \<lparr>ip_genesis_hash = replicate 32 7, ip_scope = 7, ip_valid_until = 59\<rparr>"

lemma permit0_payload: "permit_payload (world0 []) cps_libs0 (ctx0 bob_suri) permit_args0 = Ok permit0"
proof -
  have at: "block_number_u32 at7 = 9" "at_permit_ttl at7 = Ok 100"
    "resolve_scope at7 5 = Ok \<lparr>rs_id = 7, rs_root = 5, rs_owner = [1], rs_path = [5]\<rparr>"
    by (simp_all add: block_number_u32_def at7_def at0_def resolve_scope_def node_view_def map_err_def)
  have expiry: "permit_expiry permit_args0 9 100 = Ok 59"
    by (simp add: permit_expiry_def permit_args0_def checked_add_def unwrap_or_def)
  have payload: "identity_permit_payload (lk_cps link0 1) 7 59 = Ok permit0"
    using at node5(2) by (simp add: identity_permit_payload_def permit0_def link0_def cx0_def Let_def)
  have args: "pm_target permit_args0 = TargetNode 5" "pm_read permit_args0 = None" by (simp_all add: permit_args0_def)
  show ?thesis
    using node5 at expiry payload by (simp add: permit_payload_def args ctx_reader_def)
qed

definition artifact0 :: string where
  "artifact0 = json_text0 \<lparr>rp_version = 1, rp_identity = hex_enc0 (as_bytes alice_suri), rp_scheme = SchemeSr25519,
     rp_genesis_hash = ''0x'' @ hex_enc0 (replicate 32 7), rp_scope = 7, rp_valid_until = 59,
     rp_signature = ''0x'' @ hex_enc0 (replicate 64 1)\<rparr>"

lemma artifact0_printed:
  "identity_permit (world0 []) cps_libs0 (ctx0 bob_suri) permit_args0 = ([Printed artifact0], Some (Ok ()))"
proof -
  have "artifact0 \<noteq> []" by (simp add: artifact0_def json_text0_def)
  moreover have "to_json (cl_render cps_libs0) (cl_hex cps_libs0) (cl_show_account cps_libs0)
      (sign_permit (cl_len_enc cps_libs0) (cl_sig cps_libs0) (KpSr25519 (as_bytes alice_suri)) permit0) = artifact0"
    by (simp add: to_json_def artifact0_def sign_permit_def permit0_def cps_libs0_def sigs0_def PERMIT_ARTIFACT_VERSION_def)
  moreover have "identity_key cps_libs0 (pm_scheme permit_args0) alice_suri = Ok (KpSr25519 (as_bytes alice_suri))"
    by (simp add: identity_key_def permit_args0_def scheme_of_def key_from_suri_def cps_libs0_def)
  moreover have "\<not> pm_unsigned permit_args0" "pm_key permit_args0 = Some alice_suri" by (simp_all add: permit_args0_def)
  moreover have "cl_value cps_libs0 t = Ok (JStr t)" "cl_pretty cps_libs0 (JStr t) = t" for t
    by (simp_all add: cps_libs0_def json_show0_def)
  ultimately show ?thesis by (simp add: identity_permit_def permit0_payload result0)
qed

theorem permit_then_set_witness:
  "\<exists>k. identity_key cps_libs0 ArgSr25519 alice_suri = Ok k \<and>
     sent_calls (fst (identity_set (world0 (as_bytes (artifact0 @ [line_feed]))) cps_libs0 (ctx0 bob_suri) id_args0)) =
       [(as_bytes bob_suri, CallSetIdentity 5
          \<lparr>ia_account = key_account_id sigs0 k,
           ia_permit = Some \<lparr>pt_valid_until = 59,
                              pt_signature = key_sign sigs0 k (signing_bytes (cl_len_enc cps_libs0) permit0)\<rparr>\<rparr>)]"
proof -
  let ?w = "world0 (as_bytes (artifact0 @ [line_feed]))"
  have args: "\<not> pm_unsigned permit_args0" "pm_key permit_args0 = Some alice_suri" "pm_scheme permit_args0 = ArgSr25519"
    "is_permit id_args0 = Some ''-''" "is_account id_args0 = None" "is_target id_args0 = TargetNode 5"
    by (simp_all add: permit_args0_def id_args0_def)
  have genesis: "length (ip_genesis_hash permit0) = 32" "cx_genesis_hash (lk_cps link0 1) = ip_genesis_hash permit0"
    by (simp_all add: permit0_def link0_def cx0_def)
  have input: "cw_stdin ?w = Ok (as_bytes (artifact0 @ [line_feed]))" by (simp add: world0_def del: as_bytes_simps)
  have target: "write_target ?w cps_libs0 (ctx0 bob_suri) (is_target id_args0) =
      Ok (link0, signer Sr25519 sha512_0 curve0 (\<lambda>s. s) (as_bytes bob_suri), 5)"
    unfolding args by (rule target0)
  have scope: "resolve_scope at7 5 = Ok \<lparr>rs_id = 7, rs_root = 5, rs_owner = [1], rs_path = [5]\<rparr>"
    by (simp add: at7_def resolve_scope_def node_view_def map_err_def)
  have same: "rs_id \<lparr>rs_id = 7, rs_root = 5, rs_owner = [1], rs_path = [5]\<rparr> = ip_scope permit0" by (simp add: permit0_def)
  have live: "block_number_u32 at7 \<le> ip_valid_until permit0"
    by (simp add: block_number_u32_def at7_def at0_def permit0_def)
  have parts: "ss_public (signer Sr25519 sha512_0 curve0 (\<lambda>s. s) (as_bytes bob_suri)) = as_bytes bob_suri"
    "ip_valid_until permit0 = 59" "cl_sig cps_libs0 = sigs0"
    by (simp_all add: signer_def permit0_def cps_libs0_def)
  from permit_then_set [OF cps_libs0_ok(4,5,6) json_text_ok0 artifact0_printed args(1,2) permit0_payload genesis(1) input
      args(4,5) target genesis(2) node5(2) scope same] live
  show ?thesis by (simp add: args parts)
qed

end
