(* ===== verification/Spec2Isabelle.thy ===== *)
theory Spec2Isabelle
  imports WitnessesChain WitnessesBridge WitnessesLight WitnessesCli WitnessesCps
begin

text \<open>
  \<^bold>\<open>A verification of the edge gateway\<close> (\<open>src/crates/edge\<close>), of the chain library and command line tool \<open>cps\<close>
  (\<open>src/crates/libcps\<close>) and of the MQTT bridge (\<open>src/crates/mqtt-bridge\<close>).

  \<^bold>\<open>The program.\<close> Sensors sign messages and send the signed envelopes to the gateway over HTTP or over a
  Meshtastic radio, where long envelopes travel in fragments. The gateway puts fragments together,
  verifies the signature, asks an authorization policy (none, a whitelist, or a lookup of the sensor on
  the Robonomics chain), drops duplicates, and hands each accepted envelope to its sinks: the durable
  batch store and the gossip publisher. The batcher turns stored envelopes into size-limited batches;
  the anchor submits each batch to the chain and removes it once it is finalized. The chain stores a tree of
  nodes with metadata and payloads; \<open>libcps\<close> reads and writes it, encrypts data between accounts and can run a
  light client of its own; \<open>cps\<close> is its command line, the bridge couples nodes with MQTT topics.

  \<^bold>\<open>How it is modelled.\<close> Structs are records, enums datatypes, machine integers words; a \<open>Result\<close> is a
  sum with the abbreviations \<open>Ok\<close> and \<open>Err\<close>; a panic is the result \<open>None\<close> of an operation that could panic.
  A \<open>HashMap\<close> is an association list with distinct keys. Durations are nanoseconds in \<open>nat\<close>, times are \<open>int\<close>
  or \<open>nat\<close>. Asynchronous loops are runs over lists of events: each event is one branch of a \<open>select!\<close> with
  what it delivered, so a theorem over all lists of events holds for every interleaving, timing, failure
  and moment of shutdown. Metrics are part of every operation's result. Log output is left out.

  Code outside the repository is a parameter with its documented behaviour as a named hypothesis: SHA-256
  (\<open>digest_len\<close>), Ed25519 (\<open>ed25519_ok\<close>), hexadecimal coding (\<open>hex_ok\<close>), protobuf and zstd (\<open>codec_reads\<close>), the LRU
  cache (\<open>lru_laws\<close>), redb's tables (\<open>redb_laws\<close>), the task runtime's ids (\<open>fresh_ok\<close>), the curves, AEADs and
  signature schemes (\<open>curve_ok\<close>, \<open>aead_ok\<close>, \<open>sig_ok\<close>), JSON and SS58 coding (\<open>json_ok\<close>, \<open>ss58_ok\<close>, \<open>vec_ok\<close>), base64
  (\<open>base64_ok\<close>), libp2p, subxt, smoldot, the MQTT client, files and sockets. Each hypothesis is met by an executable stand-in in the witnesses.

  \<^bold>\<open>The theories, by component.\<close>
  \<^item> \<open>Prelude\<close>: result types, little-endian codes, chunks, decimal text, association lists. \<open>StdText\<close>: what the sources
    use of Rust's text functions. \<open>Float64\<close>: \<open>f64\<close> with its rounding, parser and printer, on rationals.
  \<^item> \<open>Metrics\<close> (\<open>observability/metrics.rs\<close>): metric names and updates, counting increments.
  \<^item> \<open>Config\<close> (\<open>config.rs\<close>, \<open>batcher/config.rs\<close>): all sections, defaults, validation, loading. Validation accepts
    exactly the configurations that meet the documented rules.
  \<^item> \<open>Frame\<close>, \<open>Reassembly\<close> (\<open>ingress/meshtastic/frame.rs\<close>, \<open>reassembly.rs\<close>): the byte layout of frames and the bounded
    reassembler. Encoding and parsing are inverse; fragments complete in any order with repetitions; in
    every reachable state the limits hold and the accounting is exact.
  \<^item> \<open>Ingress\<close> (\<open>ingress/mod.rs\<close>, \<open>http.rs\<close>, \<open>meshtastic/mod.rs\<close>): the HTTP handler, a radio session, reconnecting. A
    session never panics and emits only what authenticated packets carried, every byte of it; the frames of an
    envelope, in any order and repeated, come out as exactly that envelope each time all have arrived.
  \<^item> \<open>Protocol\<close> (\<open>protocol/mod.rs\<close>): sensor ids, envelopes, signing and verification, with the verification as a
    decision table; and that the signed bytes do not fix the boundary between nonce and message.
  \<^item> \<open>Dedup\<close> (\<open>pipeline/dedup.rs\<close>): the duplicate cache refines its loop-free specification.
  \<^item> \<open>LibcpsError\<close> (\<open>libcps/src/error.rs\<close>, \<open>light/error.rs\<close>) and \<open>Chain\<close> (\<open>chain.rs\<close>): the error types, and the
    registry of supervised chain connections.
  \<^item> \<open>Auth\<close> (\<open>auth/\<close>): the three policies and their construction. A lookup grants exactly the descendants of the
    root; a grant always has evidence; errors are never cached.
  \<^item> \<open>AuthStage\<close> (\<open>pipeline/authorize.rs\<close>): bounded concurrent lookups with parked messages; invariant, and
    refinement of one waiting list per sensor.
  \<^item> \<open>Pipeline\<close> (\<open>pipeline/mod.rs\<close>): the run loop. Every fanned-out envelope is verified, authorized and unchanged;
    no message is lost without a trace; required sinks are retried.
  \<^item> \<open>BatchStore\<close> (\<open>batch_store/\<close>): the redb store at the byte level, as the interface (locale \<open>batch_store\<close>) that batcher,
    sink and anchor use, and its interpretation by the redb operations.
  \<^item> \<open>Batcher\<close> (\<open>batcher/\<close>): selection, packing, draining. Steps lose nothing, draining ends, the final flush
    always returns and has lost nothing, whatever fails.
  \<^item> \<open>BatchSink\<close> (\<open>pipeline/batch_sink.rs\<close>), \<open>Anchor\<close> (\<open>anchor/\<close>): delivered means stored; anchoring is at-least-once, in
    order, and drains the queue when nothing fails.
  \<^item> \<open>Gossip\<close> (\<open>p2p/\<close>, \<open>observability/health.rs\<close>, \<open>server.rs\<close>): the publisher's loop, its peer table and identity file, and
    the probes; readiness is exact.
  \<^item> \<open>App\<close> (\<open>app.rs\<close>): starting the daemon; a validated configuration starts, and messages are stored before they
    are gossiped.
  \<^item> \<open>LibcpsCrypto\<close> (\<open>libcps/src/crypto/\<close>, \<open>identity.rs\<close>, \<open>permit.rs\<close>): key agreement, the message cipher, identity keys and
    permits. Encryption and decryption are inverse, signed permits verify and survive their JSON form.
  \<^item> \<open>LibcpsClient\<close> (\<open>libcps/src/types.rs\<close>, \<open>transaction.rs\<close>, \<open>read.rs\<close>, \<open>cps.rs\<close>, \<open>node/\<close>, \<open>address.rs\<close>, \<open>scope.rs\<close>): the chain client.
    A receipt is evidence of a finalized call within the limits; watching reports what every block calls for, in order.
  \<^item> \<open>LightNode\<close> (\<open>libcps/src/light/\<close>): the embedded light node as a step relation, a rule for each access of its tasks
    to the shared state, labelled with what happened, with its server and relay. The history of a run explains the
    status; the relay forwards and answers exactly what it should, up to the event that ends it.
  \<^item> \<open>MqttBridge\<close> (\<open>mqtt-bridge/src/\<close>): both bridges and their commands. A bridge writes only what it is configured
    for, and what one encrypts the other publishes unchanged.
  \<^item> \<open>CliFormat\<close>, \<open>CliEnvelope\<close>, \<open>CliMessage\<close>, \<open>CliSensor\<close>, \<open>CliMain\<close> (\<open>edge/src/cli/\<close>): the command line of the gateway. A
    command is a list of outputs with a result, composed by \<open>cmd_bind\<close>; \<open>None\<close> is a panic. Signed envelopes verify
    and packed batches decode through any textual form; private measurements are only for their recipients and
    printed readings read back exactly; a sent envelope is confirmed frame by frame and comes out of the
    gateway's radio session (\<open>Ingress\<close>); the exit codes are the documented ones.
  \<^item> \<open>CpsConfig\<close>, \<open>CpsTarget\<close>, \<open>CpsCommands\<close>, \<open>CpsMain\<close> (\<open>libcps/src/cli/\<close>, \<open>main.rs\<close>): the command line \<open>cps\<close> over the client of
    \<open>LibcpsClient\<close>: settings, targets, data, every command, dispatch. \<open>CpsSafety\<close> specifies the one call a command
    may send (\<open>requested\<close>) and shows that no command sends another, and the exit codes; \<open>CpsPipelines\<close> shows what
    commands do together: \<open>set\<close> and \<open>get\<close>, \<open>permit\<close> and \<open>set --permit\<close>, and that \<open>tree\<close> is exact.
  \<^item> \<open>Witnesses\<close>, \<open>WitnessesChain\<close>, \<open>WitnessesLibcps\<close>, \<open>WitnessesBridge\<close>, \<open>WitnessesLight\<close>, \<open>WitnessesCli\<close>, \<open>WitnessesCps\<close>: each
    theorem with hypotheses applied to a concrete input, on executable stand-ins for the libraries.

  \<^bold>\<open>Loops.\<close> Loops that may run for ever are \<open>partial_function (option)\<close> (\<open>deliver_loop\<close>, \<open>flush_due\<close>, \<open>flush_all\<close>), where \<open>None\<close>
  means that they do not return; that draining and the final flush return is proved. Loops over what the
  environment delivers are recursions over the list of events. The ancestor walk is bounded by the
  source's own \<open>MAX_ANCESTOR_DEPTH\<close>. The source bounds the recursion of \<open>cps tree\<close> only by \<open>--depth\<close>, so it has fuel,
  which suffices when it exceeds the depth or the height of the subtree (\<open>tree_exact\<close>).

  \<^bold>\<open>Assumed bounds.\<close> Identifiers of the batch store are 64-bit counters; theorems about storing assume room for
  the identifiers they use (\<open>spare\<close>), since the source does not handle their overflow.

  \<^bold>\<open>Not modelled.\<close> The transports of libp2p, HTTP routing, the serial device and the Prometheus text, which are
  I/O of libraries; \<open>shutdown.rs\<close>, a wrapper of a channel of the runtime (its signal is an event of each loop);
  the parsing of arguments by clap, from whose structures the commands start; logging, progress lines and
  warnings on standard error; the generated protobuf coding and the metadata of the chain's runtime. Trimming and
  lower case (\<open>StdText\<close>) are those of ASCII text.
\<close>

end
